(* ===== verification/Prelude.thy ===== *)
theory Prelude
  imports Main "HOL-Library.Sublist" "HOL-Library.Code_Target_Nat"
begin

text \<open>
  What every component shares: the 32-bit cast of a vector size to an id, decimal
  rendering (\<open>std::to_string\<close> and the \<open>operator<<\<close> of unsigned integers), the
  accumulation loops of the source as folds, and the lemmas about lists, maps and bounded
  iteration that the component proofs use. \<open>oir_simps\<close> collects the unfolding
  equations of the intermediate representation, \<open>wf_intros\<close> the introduction rules
  of the well-formedness predicates.
\<close>

named_theorems oir_simps "equations of the operations on modules, blocks and terminators"
named_theorems wf_intros "introduction rules of the well-formedness predicates"

section \<open>Lists\<close>

lemma concat_map_Nil: "concat (map f xs) = [] \<longleftrightarrow> list_all (\<lambda>x. f x = []) xs"
  by (induction xs) auto

section \<open>Machine integers\<close>

text \<open>Ids are \<open>uint32_t\<close>. A vector size is cast to an id with \<open>u32\<close>.\<close>

definition u32 :: "nat \<Rightarrow> nat" where
  "u32 n = n mod 4294967296"

abbreviation kInvalidId :: nat where
  "kInvalidId \<equiv> 4294967295"

lemma u32_small [simp]: "n < 4294967296 \<Longrightarrow> u32 n = n"
  by (simp add: u32_def)

lemma u32_bound: "u32 n \<le> kInvalidId"
  by (simp add: u32_def)

section \<open>Characters\<close>

text \<open>A byte as a number, and \<open>std::isspace\<close> in the C locale.\<close>

definition ubyte :: "char \<Rightarrow> nat" where
  "ubyte c = of_char c"

definition is_space :: "char \<Rightarrow> bool" where
  "is_space c = (ubyte c = 32 \<or> (9 \<le> ubyte c \<and> ubyte c \<le> 13))"

section \<open>Source positions\<close>

text \<open>\<open>Span\<close> of \<open>parus/text/Span.hpp\<close>: a half-open range of bytes of a file.\<close>

record source_span =
  sp_file_id :: nat
  sp_lo :: nat
  sp_hi :: nat

section \<open>Decimal rendering\<close>

fun dec_digits :: "nat \<Rightarrow> nat list" where
  "dec_digits n = (if n < 10 then [n] else dec_digits (n div 10) @ [n mod 10])"

declare dec_digits.simps [simp del]

definition digit_char :: "nat \<Rightarrow> char" where
  "digit_char d = char_of (48 + d)"

definition char_digit :: "char \<Rightarrow> nat" where
  "char_digit c = of_char c - 48"

definition is_digit :: "char \<Rightarrow> bool" where
  "is_digit c \<longleftrightarrow> 48 \<le> (of_char c :: nat) \<and> (of_char c :: nat) \<le> 57"

definition dec :: "nat \<Rightarrow> string" where
  "dec n = map digit_char (dec_digits n)"

definition dec_int :: "int \<Rightarrow> string" where
  "dec_int i = (if i < 0 then CHR ''-'' # dec (nat (- i)) else dec (nat i))"

definition undec :: "nat list \<Rightarrow> nat" where
  "undec ds = foldl (\<lambda>a d. a * 10 + d) 0 ds"

lemma of_char_digit_char: "d < 10 \<Longrightarrow> (of_char (digit_char d) :: nat) = 48 + d"
  by (simp add: digit_char_def)

lemma char_digit_digit_char [simp]: "d < 10 \<Longrightarrow> char_digit (digit_char d) = d"
  by (simp add: char_digit_def of_char_digit_char)

lemma is_digit_digit_char [simp]: "d < 10 \<Longrightarrow> is_digit (digit_char d)"
  by (simp add: is_digit_def of_char_digit_char)

lemma dec_digits_less: "d \<in> set (dec_digits n) \<Longrightarrow> d < 10"
proof (induction n rule: dec_digits.induct)
  case (1 n)
  then show ?case by (subst (asm) dec_digits.simps) (auto split: if_splits)
qed

lemma dec_digits_not_Nil [simp]: "dec_digits n \<noteq> []"
  by (subst dec_digits.simps) simp

lemma dec_not_Nil [simp]: "dec n \<noteq> []"
  by (simp add: dec_def)

lemma undec_append: "undec (xs @ [d]) = undec xs * 10 + d"
  by (simp add: undec_def)

lemma undec_dec_digits [simp]: "undec (dec_digits n) = n"
proof (induction n rule: dec_digits.induct)
  case (1 n)
  show ?case
  proof (cases "n < 10")
    case True
    then show ?thesis by (subst dec_digits.simps) (simp add: undec_def)
  next
    case False
    with 1 show ?thesis by (subst dec_digits.simps) (simp add: undec_append)
  qed
qed

lemma map_char_digit_dec [simp]: "map char_digit (dec n) = dec_digits n"
  unfolding dec_def by (simp add: map_idI dec_digits_less)

lemma is_digit_dec: "c \<in> set (dec n) \<Longrightarrow> is_digit c"
  unfolding dec_def by (auto dest: dec_digits_less)

lemma dec_inj: "dec a = dec b \<Longrightarrow> a = b"
  by (metis map_char_digit_dec undec_dec_digits)

end
