(* ===== verification/OIR.thy ===== *)
theory OIR
  imports Prelude
begin

text \<open>
  The data model of the optimiser's intermediate representation
  (\<open>frontend/include/parus/oir/OIR.hpp\<close>): ids are natural numbers below \<open>2\<^sup>3\<^sup>2\<close> with
  \<open>kInvalidId\<close> for "none"; every \<open>std::variant\<close> is a datatype with one constructor per
  alternative; every struct is a record with the fields in the source's order; a module owns
  the vectors and every cross reference is an index into one of them. A read of a vector out
  of its range, undefined in C++, is \<open>xs ! i\<close> out of range, an unspecified value about
  which nothing can be proved.
\<close>

section \<open>Values and operations\<close>

datatype effect = EffPure | EffMayReadMem | EffMayWriteMem | EffMayTrap | EffCall

record oval =
  vty :: nat
  veff :: effect
  vdef_a :: nat
  vdef_b :: nat

datatype bin_op =
    BinAdd | BinSub | BinMul | BinDiv | BinRem
  | BinLt | BinLe | BinGt | BinGe | BinEq | BinNe
  | BinLogicalAnd | BinLogicalOr | BinNullCoalesce

datatype un_op = UnPlus | UnNeg | UnNot | UnBitNot

datatype cast_kind = CastAs | CastAsQ | CastAsB

datatype escape_handle_kind = EHTrivial | EHStackSlot | EHCallerSlot | EHHeapBox

datatype escape_boundary_kind = EBNone | EBReturn | EBCallArg | EBAbi

datatype c_call_conv = CCDefault | CCCdecl | CCStdCall | CCFastCall | CCVectorCall | CCWin64 | CCSysV

record c_bitfield_access =
  cb_is_valid :: bool
  cb_storage_offset_bytes :: nat
  cb_bit_offset :: nat
  cb_bit_width :: nat
  cb_bit_signed :: bool

record inst_call =
  call_callee :: nat
  call_args :: "nat list"
  call_direct_callee :: nat
  call_fn_type :: nat
  call_is_throwing :: bool
  call_is_c_abi :: bool
  call_is_c_variadic :: bool
  call_c_callconv :: c_call_conv
  call_c_fixed_param_count :: nat

datatype inst_data =
    InstConstInt string
  | InstConstFloat string
  | InstConstChar nat
  | InstConstBool bool
  | InstConstText string
  | InstConstNull
  | InstUnary un_op nat
  | InstBinOp bin_op nat nat
  | InstCast cast_kind nat nat          \<comment> \<open>kind, to, src\<close>
  | InstFuncRef nat string
  | InstSymbolRef string
  | InstGlobalRef nat string
  | InstCall inst_call
  | InstActorCommit nat
  | InstActorRecast nat
  | InstIndex nat nat
  | InstArrayLen nat
  | InstSliceView nat nat nat bool
  | InstField nat string c_bitfield_access
  | InstDrop nat nat                     \<comment> \<open>slot, owner type\<close>
  | InstAllocaLocal nat
  | InstLoad nat
  | InstStore nat nat                    \<comment> \<open>slot, value\<close>

record oinst =
  idata :: inst_data
  ieff :: effect
  iresult :: nat

datatype terminator =
    TermBr nat "nat list"
  | TermCondBr nat nat "nat list" nat "nat list"  \<comment> \<open>cond, then, then args, else, else args\<close>
  | TermRet bool nat

record oblock =
  bparams :: "nat list"
  binsts :: "nat list"
  bterm :: terminator
  bhas_term :: bool

text \<open>The default-constructed \<open>Block{}\<close>; a \<open>std::variant\<close> starts as its first alternative.\<close>

definition empty_block :: oblock where
  "empty_block = \<lparr>bparams = [], binsts = [], bterm = TermBr kInvalidId [], bhas_term = False\<rparr>"

section \<open>Functions, globals, modules\<close>

datatype function_abi = AbiParus | AbiC

datatype field_layout = LayoutNone | LayoutC

record ofunc =
  fname :: string
  fsource_name :: string
  fabi :: function_abi
  fc_callconv :: c_call_conv
  fis_extern :: bool
  fis_c_variadic :: bool
  fc_fixed_param_count :: nat
  fis_pure :: bool
  fis_comptime :: bool
  fis_const :: bool
  fis_actor_member :: bool
  fis_actor_init :: bool
  factor_owner_type :: nat
  factor_ctx_param_index :: nat
  fexc_ctx_param_index :: nat
  fexc_ctx_type :: nat
  fret_ty :: nat
  fblocks :: "nat list"
  fentry :: nat

text \<open>A default-constructed \<open>Function{}\<close> with the name, block list and entry given.\<close>

definition mk_func :: "string \<Rightarrow> nat list \<Rightarrow> nat \<Rightarrow> ofunc" where
  "mk_func nm bs e =
     \<lparr>fname = nm, fsource_name = [], fabi = AbiParus, fc_callconv = CCDefault,
      fis_extern = False, fis_c_variadic = False, fc_fixed_param_count = 0,
      fis_pure = False, fis_comptime = False, fis_const = False,
      fis_actor_member = False, fis_actor_init = False,
      factor_owner_type = kInvalidId, factor_ctx_param_index = kInvalidId,
      fexc_ctx_param_index = kInvalidId, fexc_ctx_type = kInvalidId,
      fret_ty = kInvalidId, fblocks = bs, fentry = e\<rparr>"

record field_member_layout =
  fm_name :: string
  fm_type :: nat
  fm_offset :: nat

record field_layout_decl =
  fl_name :: string
  fl_self_type :: nat
  fl_layout :: field_layout
  fl_align :: nat
  fl_size :: nat
  fl_members :: "field_member_layout list"

datatype const_init_kind = CINone | CIInt | CIFloat | CIBool | CIChar

record const_init_data =
  ci_kind :: const_init_kind
  ci_text :: string

datatype c_thread_local_kind = TLNone | TLDynamic | TLStatic

record global_decl =
  g_name :: string
  g_type :: nat
  g_abi :: function_abi
  g_is_extern :: bool
  g_is_mut :: bool
  g_is_const :: bool
  g_is_export :: bool
  g_c_tls_kind :: c_thread_local_kind
  g_const_init :: const_init_data

record escape_handle_hint =
  eh_value :: nat
  eh_pointee_type :: nat
  eh_kind :: escape_handle_kind
  eh_boundary :: escape_boundary_kind
  eh_from_static :: bool
  eh_has_drop :: bool
  eh_abi_pack_required :: bool

record opt_stats =
  critical_edges_split :: nat
  loop_canonicalized :: nat
  mem2reg_promoted_slots :: nat
  mem2reg_phi_params :: nat
  gvn_cse_eliminated :: nat
  licm_hoisted :: nat
  escape_pack_elided :: nat
  escape_boundary_rewrites :: nat

definition empty_stats :: opt_stats where
  "empty_stats =
     \<lparr>critical_edges_split = 0, loop_canonicalized = 0, mem2reg_promoted_slots = 0,
      mem2reg_phi_params = 0, gvn_cse_eliminated = 0, licm_hoisted = 0,
      escape_pack_elided = 0, escape_boundary_rewrites = 0\<rparr>"

record omodule =
  bundle_enabled :: bool
  bundle_name :: string
  current_source_norm :: string
  bundle_sources_norm :: "string list"
  module_init_symbol :: string
  funcs :: "ofunc list"
  blocks :: "oblock list"
  insts :: "oinst list"
  vals :: "oval list"
  mfields :: "field_layout_decl list"
  globals :: "global_decl list"
  escape_hints :: "escape_handle_hint list"
  actor_types :: "nat list"
  recoverable_exc_ctx_type :: nat
  recoverable_exc_root_global :: nat
  recoverable_exc_payload_types :: "nat list"
  stats :: opt_stats

definition mk_module :: "ofunc list \<Rightarrow> oblock list \<Rightarrow> oinst list \<Rightarrow> oval list \<Rightarrow> omodule" where
  "mk_module fs bs is vs =
     \<lparr>bundle_enabled = False, bundle_name = [], current_source_norm = [],
      bundle_sources_norm = [], module_init_symbol = [],
      funcs = fs, blocks = bs, insts = is, vals = vs, mfields = [], globals = [],
      escape_hints = [], actor_types = [], recoverable_exc_ctx_type = kInvalidId,
      recoverable_exc_root_global = kInvalidId, recoverable_exc_payload_types = [],
      stats = empty_stats\<rparr>"

section \<open>The \<open>add_*\<close> helpers\<close>

definition add_value :: "omodule \<Rightarrow> oval \<Rightarrow> omodule \<times> nat" where
  "add_value m v = (m\<lparr>vals := vals m @ [v]\<rparr>, u32 (length (vals m)))"

definition add_inst :: "omodule \<Rightarrow> oinst \<Rightarrow> omodule \<times> nat" where
  "add_inst m i = (m\<lparr>insts := insts m @ [i]\<rparr>, u32 (length (insts m)))"

definition add_block :: "omodule \<Rightarrow> oblock \<Rightarrow> omodule \<times> nat" where
  "add_block m b = (m\<lparr>blocks := blocks m @ [b]\<rparr>, u32 (length (blocks m)))"

definition add_func :: "omodule \<Rightarrow> ofunc \<Rightarrow> omodule \<times> nat" where
  "add_func m f = (m\<lparr>funcs := funcs m @ [f]\<rparr>, u32 (length (funcs m)))"

definition add_field :: "omodule \<Rightarrow> field_layout_decl \<Rightarrow> omodule \<times> nat" where
  "add_field m f = (m\<lparr>mfields := mfields m @ [f]\<rparr>, u32 (length (mfields m)))"

definition add_global :: "omodule \<Rightarrow> global_decl \<Rightarrow> omodule \<times> nat" where
  "add_global m g = (m\<lparr>globals := globals m @ [g]\<rparr>, u32 (length (globals m)))"

definition add_escape_hint :: "omodule \<Rightarrow> escape_handle_hint \<Rightarrow> omodule \<times> nat" where
  "add_escape_hint m h =
     (m\<lparr>escape_hints := escape_hints m @ [h]\<rparr>, u32 (length (escape_hints m)))"

lemmas add_defs [oir_simps] =
  add_value_def add_inst_def add_block_def add_func_def add_field_def add_global_def
  add_escape_hint_def empty_block_def

section \<open>Range checks\<close>

text \<open>
  The guard \<open>id == kInvalidId || (size_t)id >= xs.size()\<close> that every traversal of the source
  applies before it dereferences an id, negated.
\<close>

definition valid_id :: "'a list \<Rightarrow> nat \<Rightarrow> bool" where
  "valid_id xs i \<longleftrightarrow> i \<noteq> kInvalidId \<and> i < length xs"

lemma valid_idD: "valid_id xs i \<Longrightarrow> i < length xs"
  by (simp add: valid_id_def)

lemma valid_id_append [simp]: "valid_id xs i \<Longrightarrow> valid_id (xs @ ys) i"
  by (simp add: valid_id_def)

lemma valid_id_list_update [simp]: "valid_id (xs[j := x]) i = valid_id xs i"
  by (simp add: valid_id_def)

lemma valid_id_map [simp]: "valid_id (map f xs) i = valid_id xs i"
  by (simp add: valid_id_def)

text \<open>Rewriting one block in place.\<close>

definition upd_block :: "omodule \<Rightarrow> nat \<Rightarrow> (oblock \<Rightarrow> oblock) \<Rightarrow> omodule" where
  "upd_block m i g = m\<lparr>blocks := (blocks m)[i := g (blocks m ! i)]\<rparr>"

definition upd_func :: "omodule \<Rightarrow> nat \<Rightarrow> (ofunc \<Rightarrow> ofunc) \<Rightarrow> omodule" where
  "upd_func m i g = m\<lparr>funcs := (funcs m)[i := g (funcs m ! i)]\<rparr>"

lemma upd_block_simps [simp]:
  "funcs (upd_block m i g) = funcs m" "insts (upd_block m i g) = insts m"
  "vals (upd_block m i g) = vals m" "globals (upd_block m i g) = globals m"
  "escape_hints (upd_block m i g) = escape_hints m"
  "length (blocks (upd_block m i g)) = length (blocks m)"
  "stats (upd_block m i g) = stats m"
  by (simp_all add: upd_block_def)

lemma blocks_upd_block:
  "i < length (blocks m) \<Longrightarrow>
   blocks (upd_block m i g) ! j = (if j = i then g (blocks m ! i) else blocks m ! j)"
  by (simp add: upd_block_def nth_list_update)

lemma upd_func_simps [simp]:
  "blocks (upd_func m i g) = blocks m" "insts (upd_func m i g) = insts m"
  "vals (upd_func m i g) = vals m" "globals (upd_func m i g) = globals m"
  "escape_hints (upd_func m i g) = escape_hints m"
  "length (funcs (upd_func m i g)) = length (funcs m)"
  by (simp_all add: upd_func_def)

section \<open>Operands\<close>

text \<open>
  The operands of an instruction as the source's traversals see them
  (\<open>for_each_inst_operand_\<close>): no case for \<open>InstArrayLen\<close>, whose \<open>base\<close> is skipped.
\<close>

fun for_each_inst_operand :: "inst_data \<Rightarrow> nat list" where
  "for_each_inst_operand (InstUnary op src) = [src]"
| "for_each_inst_operand (InstBinOp op lhs rhs) = [lhs, rhs]"
| "for_each_inst_operand (InstCast k to src) = [src]"
| "for_each_inst_operand (InstCall c) = call_callee c # call_args c"
| "for_each_inst_operand (InstIndex base index) = [base, index]"
| "for_each_inst_operand (InstSliceView base lo hi incl) = [base, lo, hi]"
| "for_each_inst_operand (InstField base fld bf) = [base]"
| "for_each_inst_operand (InstActorCommit ctx) = [ctx]"
| "for_each_inst_operand (InstActorRecast ctx) = [ctx]"
| "for_each_inst_operand (InstDrop slot owner) = [slot]"
| "for_each_inst_operand (InstLoad slot) = [slot]"
| "for_each_inst_operand (InstStore slot v) = [slot, v]"
| "for_each_inst_operand _ = []"

fun for_each_term_operand :: "terminator \<Rightarrow> nat list" where
  "for_each_term_operand (TermRet has v) = (if has then [v] else [])"
| "for_each_term_operand (TermBr t args) = args"
| "for_each_term_operand (TermCondBr c tb targs eb eargs) = c # targs @ eargs"

text \<open>All the operands an instruction has as data, \<open>InstArrayLen\<close> included.\<close>

fun data_operands :: "inst_data \<Rightarrow> nat list" where
  "data_operands (InstArrayLen base) = [base]"
| "data_operands d = for_each_inst_operand d"

text \<open>The branch targets of a terminator with the arguments each edge passes.\<close>

fun term_edges :: "terminator \<Rightarrow> (nat \<times> nat list) list" where
  "term_edges (TermBr t args) = [(t, args)]"
| "term_edges (TermCondBr c tb targs eb eargs) = [(tb, targs), (eb, eargs)]"
| "term_edges (TermRet has v) = []"

end
