(* ===== verification/OIR_Examples.thy ===== *)
theory OIR_Examples
  imports OIR
begin

text \<open>
  Concrete modules the witnesses are evaluated on: \<open>ex_cfg\<close> has a branch with equal targets
  and a block nothing branches to; \<open>ex_chain\<close> is the straight line through its first three
  blocks, and \<open>ex_line\<close> the module of that line alone.
\<close>

definition ex_value :: "nat \<Rightarrow> nat \<Rightarrow> oval" where
  "ex_value ty iid = \<lparr>vty = ty, veff = EffPure, vdef_a = iid, vdef_b = kInvalidId\<rparr>"

definition ex_block :: "nat list \<Rightarrow> terminator \<Rightarrow> oblock" where
  "ex_block is t = \<lparr>bparams = [], binsts = is, bterm = t, bhas_term = True\<rparr>"

definition ex_inst :: "inst_data \<Rightarrow> nat \<Rightarrow> oinst" where
  "ex_inst d r = \<lparr>idata = d, ieff = EffPure, iresult = r\<rparr>"

definition ex_all :: ofunc where
  "ex_all = mk_func ''main'' [0, 1, 2, 3] 0"

definition ex_chain :: ofunc where
  "ex_chain = mk_func ''main'' [0, 1, 2] 0"

definition ex_cfg :: omodule where
  "ex_cfg = mk_module [ex_all]
     [ex_block [0] (TermCondBr 0 1 [] 1 []), ex_block [] (TermBr 2 []),
      ex_block [] (TermRet True 0), ex_block [] (TermBr 2 [])]
     [ex_inst (InstConstBool True) 0]
     [ex_value 4 0]"

definition ex_line :: omodule where
  "ex_line = mk_module [ex_chain]
     [ex_block [0] (TermCondBr 0 1 [] 1 []), ex_block [] (TermBr 2 []), ex_block [] (TermRet True 0)]
     [ex_inst (InstConstBool True) 0]
     [ex_value 4 0]"

lemmas ex_defs = ex_cfg_def ex_line_def ex_all_def ex_chain_def ex_value_def ex_block_def ex_inst_def
  mk_module_def mk_func_def

end
