(* ===== verification/OIR_Verify.thy ===== *)
theory OIR_Verify
  imports OIR OIR_Examples
begin

text \<open>
  The structural verifier (\<open>frontend/src/oir/oir_verify.cpp\<close>): the checks in the order the
  source runs them, each returning the messages it pushes, and the declarative well-formedness
  predicate \<open>wf_module\<close> that an empty error list stands for. The verifier is sound and
  complete for it (\<open>verify_iff_wf_module\<close>).
\<close>

section \<open>Checks\<close>

definition check_value_id :: "omodule \<Rightarrow> nat \<Rightarrow> string \<Rightarrow> nat \<Rightarrow> string list" where
  "check_value_id m where_id where_kind vid =
     (if vid = kInvalidId \<or> length (vals m) \<le> vid
      then [where_kind @ '' #'' @ dec where_id @ '' references invalid value id v'' @ dec vid]
      else [])"

definition build_owned_blocks_mask :: "omodule \<Rightarrow> ofunc \<Rightarrow> bool list" where
  "build_owned_blocks_mask m f =
     fold (\<lambda>bb owned. if bb = kInvalidId \<or> length (blocks m) \<le> bb then owned else owned[bb := True])
       (fblocks f) (replicate (length (blocks m)) False)"

text \<open>The comparison loop over the first \<open>min\<close> arguments and parameters, from index \<open>i\<close>.\<close>

fun arg_type_errors :: "omodule \<Rightarrow> (nat \<Rightarrow> nat \<Rightarrow> nat \<Rightarrow> string) \<Rightarrow> nat \<Rightarrow> nat list \<Rightarrow> nat list \<Rightarrow> string list" where
  "arg_type_errors m msg i (arg # args) (param # params) =
     (if arg = kInvalidId \<or> param = kInvalidId
         \<or> length (vals m) \<le> arg \<or> length (vals m) \<le> param then []
      else if vty (vals m ! arg) \<noteq> vty (vals m ! param) then [msg i arg param]
      else [])
     @ arg_type_errors m msg (Suc i) args params"
| "arg_type_errors m msg i args params = []"

definition type_clause :: "omodule \<Rightarrow> nat \<Rightarrow> nat \<Rightarrow> nat \<Rightarrow> string" where
  "type_clause m i arg param =
     '' arg type mismatch at index '' @ dec i @ '': arg v'' @ dec arg
     @ ''(ty='' @ dec (vty (vals m ! arg)) @ '') != target param v'' @ dec param
     @ ''(ty='' @ dec (vty (vals m ! param)) @ '')''"

definition check_br_target ::
  "omodule \<Rightarrow> ofunc \<Rightarrow> nat \<Rightarrow> bool list \<Rightarrow> nat \<Rightarrow> nat list \<Rightarrow> string list" where
  "check_br_target m f bbid owned target args =
     (if target = kInvalidId \<or> length (blocks m) \<le> target
      then [''block #'' @ dec bbid @ '' has br with invalid target bb#'' @ dec target]
      else
        (if \<not> owned ! target
         then [''block #'' @ dec bbid @ '' branches to foreign block bb#'' @ dec target
               @ '' (outside function '' @ fname f @ '')''] else [])
        @ concat (map (check_value_id m bbid ''block(term br arg)'') args)
        @ (if length args \<noteq> length (bparams (blocks m ! target))
           then [''block #'' @ dec bbid @ '' br arg count mismatch: got '' @ dec (length args)
                 @ '', target bb#'' @ dec target @ '' expects ''
                 @ dec (length (bparams (blocks m ! target)))] else [])
        @ arg_type_errors m (\<lambda>i a p. ''block #'' @ dec bbid @ '' br'' @ type_clause m i a p) 0
            args (bparams (blocks m ! target)))"

definition check_condbr_target ::
  "omodule \<Rightarrow> ofunc \<Rightarrow> nat \<Rightarrow> bool list \<Rightarrow> nat \<Rightarrow> nat list \<Rightarrow> string \<Rightarrow> string list" where
  "check_condbr_target m f bbid owned target args tag =
     (if target = kInvalidId \<or> length (blocks m) \<le> target
      then [''block #'' @ dec bbid @ '' has condbr '' @ tag @ '' with invalid target bb#'' @ dec target]
      else
        (if \<not> owned ! target
         then [''block #'' @ dec bbid @ '' condbr '' @ tag @ '' targets foreign block bb#'' @ dec target
               @ '' (outside function '' @ fname f @ '')''] else [])
        @ concat (map (check_value_id m bbid ''block(term condbr arg)'') args)
        @ (if length args \<noteq> length (bparams (blocks m ! target))
           then [''block #'' @ dec bbid @ '' condbr '' @ tag @ '' arg count mismatch: got ''
                 @ dec (length args) @ '', target bb#'' @ dec target @ '' expects ''
                 @ dec (length (bparams (blocks m ! target)))] else [])
        @ arg_type_errors m
            (\<lambda>i a p. ''block #'' @ dec bbid @ '' condbr '' @ tag @ type_clause m i a p) 0
            args (bparams (blocks m ! target)))"

fun verify_terminator :: "omodule \<Rightarrow> ofunc \<Rightarrow> nat \<Rightarrow> bool list \<Rightarrow> terminator \<Rightarrow> string list" where
  "verify_terminator m f bbid owned (TermRet has_value value) =
     (if has_value then check_value_id m bbid ''block(term ret)'' value else [])"
| "verify_terminator m f bbid owned (TermBr target args) =
     check_br_target m f bbid owned target args"
| "verify_terminator m f bbid owned (TermCondBr cond then_bb then_args else_bb else_args) =
     check_value_id m bbid ''block(term cond)'' cond
     @ check_condbr_target m f bbid owned then_bb then_args ''then''
     @ check_condbr_target m f bbid owned else_bb else_args ''else''"

fun verify_inst_data :: "omodule \<Rightarrow> nat \<Rightarrow> inst_data \<Rightarrow> string list" where
  "verify_inst_data m iid (InstUnary op src) = check_value_id m iid ''inst(unary src)'' src"
| "verify_inst_data m iid (InstBinOp op lhs rhs) =
     check_value_id m iid ''inst(bin lhs)'' lhs @ check_value_id m iid ''inst(bin rhs)'' rhs"
| "verify_inst_data m iid (InstCast k to src) = check_value_id m iid ''inst(cast src)'' src"
| "verify_inst_data m iid (InstFuncRef func nm) =
     (if func = kInvalidId \<or> length (funcs m) \<le> func
      then [''inst #'' @ dec iid @ '' has invalid function ref id f'' @ dec func] else [])"
| "verify_inst_data m iid (InstSymbolRef nm) =
     (if nm = [] then [''inst #'' @ dec iid @ '' has empty symbol ref name''] else [])"
| "verify_inst_data m iid (InstGlobalRef g nm) =
     (if g = kInvalidId \<or> length (globals m) \<le> g
      then [''inst #'' @ dec iid @ '' has invalid global ref id g'' @ dec g] else [])"
| "verify_inst_data m iid (InstCall c) =
     (if call_direct_callee c = kInvalidId
      then check_value_id m iid ''inst(call callee)'' (call_callee c)
      else if length (funcs m) \<le> call_direct_callee c
      then [''inst #'' @ dec iid @ '' has invalid direct callee id f'' @ dec (call_direct_callee c)]
      else [])
     @ concat (map (check_value_id m iid ''inst(call arg)'') (call_args c))"
| "verify_inst_data m iid (InstIndex base index) =
     check_value_id m iid ''inst(index base)'' base @ check_value_id m iid ''inst(index idx)'' index"
| "verify_inst_data m iid (InstSliceView base lo hi incl) =
     check_value_id m iid ''inst(slice base)'' base @ check_value_id m iid ''inst(slice lo)'' lo
     @ check_value_id m iid ''inst(slice hi)'' hi"
| "verify_inst_data m iid (InstField base fld bf) = check_value_id m iid ''inst(field base)'' base"
| "verify_inst_data m iid (InstActorCommit ctx) = check_value_id m iid ''inst(actor ctx)'' ctx"
| "verify_inst_data m iid (InstActorRecast ctx) = check_value_id m iid ''inst(actor ctx)'' ctx"
| "verify_inst_data m iid (InstDrop slot owner_ty) =
     check_value_id m iid ''inst(drop slot)'' slot
     @ (if owner_ty = kInvalidId then [''inst #'' @ dec iid @ '' has invalid drop owner type''] else [])"
| "verify_inst_data m iid (InstLoad slot) = check_value_id m iid ''inst(load slot)'' slot"
| "verify_inst_data m iid (InstStore slot v) =
     check_value_id m iid ''inst(store slot)'' slot @ check_value_id m iid ''inst(store value)'' v"
| "verify_inst_data m iid (InstConstInt t) = []"
| "verify_inst_data m iid (InstConstFloat t) = []"
| "verify_inst_data m iid (InstConstChar c) = []"
| "verify_inst_data m iid (InstConstBool b) = []"
| "verify_inst_data m iid (InstConstText t) = []"
| "verify_inst_data m iid InstConstNull = []"
| "verify_inst_data m iid (InstAllocaLocal ty) = []"
| "verify_inst_data m iid (InstArrayLen base) = []"

definition verify_inst_operands :: "omodule \<Rightarrow> nat \<Rightarrow> oinst \<Rightarrow> string list" where
  "verify_inst_operands m iid i =
     (if iresult i \<noteq> kInvalidId \<and> length (vals m) \<le> iresult i
      then [''inst #'' @ dec iid @ '' has invalid result id v'' @ dec (iresult i)] else [])
     @ verify_inst_data m iid (idata i)"

section \<open>The verifier\<close>

text \<open>Ownership: the first function that lists a block owns it.\<close>

definition owner_step :: "omodule \<Rightarrow> nat \<times> nat \<Rightarrow> nat list \<times> string list \<Rightarrow> nat list \<times> string list" where
  "owner_step m = (\<lambda>(fi, bb) (block_owner, errs).
     if bb = kInvalidId \<or> length (blocks m) \<le> bb then (block_owner, errs)
     else if block_owner ! bb = kInvalidId then (block_owner[bb := fi], errs)
     else if block_owner ! bb \<noteq> fi
     then (block_owner,
           errs @ [''block #'' @ dec bb @ '' is owned by multiple functions (#''
                   @ dec (block_owner ! bb) @ '', #'' @ dec fi @ '')''])
     else (block_owner, errs))"

definition owner_errors :: "omodule \<Rightarrow> string list" where
  "owner_errors m =
     snd (fold (\<lambda>(fi, f). fold (\<lambda>bb. owner_step m (fi, bb)) (fblocks f))
            (List.enumerate 0 (funcs m)) (replicate (length (blocks m)) kInvalidId, []))"

definition verify_block :: "omodule \<Rightarrow> ofunc \<Rightarrow> bool list \<Rightarrow> nat \<Rightarrow> string list" where
  "verify_block m f owned bbid =
     (if bbid = kInvalidId \<or> length (blocks m) \<le> bbid
      then [''function '' @ fname f @ '' has invalid block id bb#'' @ dec bbid]
      else
        let b = blocks m ! bbid in
        (if fis_extern f then []
         else if \<not> bhas_term b then [''block has no terminator: #'' @ dec bbid]
         else verify_terminator m f bbid owned (bterm b))
        @ concat (map (check_value_id m bbid ''block(param)'') (bparams b))
        @ concat (map (\<lambda>iid.
            if length (insts m) \<le> iid
            then [''block #'' @ dec bbid @ '' references invalid inst id i'' @ dec iid]
            else verify_inst_operands m iid (insts m ! iid)) (binsts b)))"

definition verify_func :: "omodule \<Rightarrow> ofunc \<Rightarrow> string list" where
  "verify_func m f =
     (let owned = build_owned_blocks_mask m f in
      if fentry f = kInvalidId \<or> length (blocks m) \<le> fentry f
      then [''function has invalid entry: '' @ fname f]
      else
        (if \<not> owned ! fentry f
         then [''function '' @ fname f @ '' entry bb#'' @ dec (fentry f)
               @ '' is not present in function block list''] else [])
        @ concat (map (verify_block m f owned) (fblocks f)))"

definition verify_hint :: "omodule \<Rightarrow> nat \<times> escape_handle_hint \<Rightarrow> string list" where
  "verify_hint m = (\<lambda>(i, h).
     (if eh_value h = kInvalidId \<or> length (vals m) \<le> eh_value h
      then [''escape_hint #'' @ dec i @ '' references invalid value id v'' @ dec (eh_value h)] else [])
     @ (if eh_kind h = EHHeapBox
        then [''escape_hint #'' @ dec i @ '' uses heap_box kind, forbidden in v0''] else []))"

definition verify :: "omodule \<Rightarrow> string list" where
  "verify m =
     owner_errors m
     @ concat (map (verify_func m) (funcs m))
     @ concat (map (verify_hint m) (List.enumerate 0 (escape_hints m)))"

section \<open>Well-formed modules\<close>

text \<open>
  What the verifier establishes, stated without its loops: an edge goes to a block of the
  same function and passes values of the parameter types; an instruction's operands are
  values; a block belongs to one function; a hint names a value and is not a heap box.
\<close>

definition edge_ok :: "omodule \<Rightarrow> ofunc \<Rightarrow> nat \<times> nat list \<Rightarrow> bool" where
  "edge_ok m f = (\<lambda>(target, args).
     valid_id (blocks m) target \<and> target \<in> set (fblocks f)
     \<and> list_all (valid_id (vals m)) args
     \<and> length args = length (bparams (blocks m ! target))
     \<and> list_all2 (\<lambda>a p. vty (vals m ! a) = vty (vals m ! p)) args (bparams (blocks m ! target)))"

fun term_ok :: "omodule \<Rightarrow> ofunc \<Rightarrow> terminator \<Rightarrow> bool" where
  "term_ok m f (TermRet has v) = (has \<longrightarrow> valid_id (vals m) v)"
| "term_ok m f (TermBr t args) = edge_ok m f (t, args)"
| "term_ok m f (TermCondBr c tb targs eb eargs) =
     (valid_id (vals m) c \<and> edge_ok m f (tb, targs) \<and> edge_ok m f (eb, eargs))"

fun data_ok :: "omodule \<Rightarrow> inst_data \<Rightarrow> bool" where
  "data_ok m (InstFuncRef fn nm) = valid_id (funcs m) fn"
| "data_ok m (InstSymbolRef nm) = (nm \<noteq> [])"
| "data_ok m (InstGlobalRef g nm) = valid_id (globals m) g"
| "data_ok m (InstCall c) =
     ((if call_direct_callee c = kInvalidId then valid_id (vals m) (call_callee c)
       else valid_id (funcs m) (call_direct_callee c))
      \<and> list_all (valid_id (vals m)) (call_args c))"
| "data_ok m (InstDrop slot owner_ty) = (valid_id (vals m) slot \<and> owner_ty \<noteq> kInvalidId)"
| "data_ok m d = list_all (valid_id (vals m)) (for_each_inst_operand d)"

definition inst_ok :: "omodule \<Rightarrow> oinst \<Rightarrow> bool" where
  "inst_ok m i \<longleftrightarrow>
     (iresult i \<noteq> kInvalidId \<longrightarrow> iresult i < length (vals m)) \<and> data_ok m (idata i)"

definition block_ok :: "omodule \<Rightarrow> ofunc \<Rightarrow> nat \<Rightarrow> bool" where
  "block_ok m f bb \<longleftrightarrow>
     valid_id (blocks m) bb
     \<and> (fis_extern f \<or> bhas_term (blocks m ! bb) \<and> term_ok m f (bterm (blocks m ! bb)))
     \<and> list_all (valid_id (vals m)) (bparams (blocks m ! bb))
     \<and> list_all (\<lambda>iid. iid < length (insts m) \<and> inst_ok m (insts m ! iid)) (binsts (blocks m ! bb))"

definition func_ok :: "omodule \<Rightarrow> ofunc \<Rightarrow> bool" where
  "func_ok m f \<longleftrightarrow> fentry f \<in> set (fblocks f) \<and> list_all (block_ok m f) (fblocks f)"

definition owners_ok :: "omodule \<Rightarrow> bool" where
  "owners_ok m \<longleftrightarrow>
     (\<forall>i < length (funcs m). \<forall>j < length (funcs m). i \<noteq> j \<longrightarrow>
        (\<forall>bb \<in> set (fblocks (funcs m ! i)). valid_id (blocks m) bb \<longrightarrow>
           bb \<notin> set (fblocks (funcs m ! j))))"

definition hint_ok :: "omodule \<Rightarrow> escape_handle_hint \<Rightarrow> bool" where
  "hint_ok m h \<longleftrightarrow> valid_id (vals m) (eh_value h) \<and> eh_kind h \<noteq> EHHeapBox"

definition wf_module :: "omodule \<Rightarrow> bool" where
  "wf_module m \<longleftrightarrow>
     owners_ok m \<and> list_all (func_ok m) (funcs m) \<and> list_all (hint_ok m) (escape_hints m)"

section \<open>The checks decide the predicates\<close>

lemma check_value_id_Nil [simp]: "check_value_id m w k v = [] \<longleftrightarrow> valid_id (vals m) v"
  by (auto simp: check_value_id_def valid_id_def)

lemma check_value_ids_Nil [simp]:
  "concat (map (check_value_id m w k) vs) = [] \<longleftrightarrow> list_all (valid_id (vals m)) vs"
  by (auto simp: list_all_iff)

lemma owned_mask_aux:
  "fold (\<lambda>bb owned. if bb = kInvalidId \<or> n \<le> bb then owned else owned[bb := True]) bs acc ! t
   = (acc ! t \<or> t \<in> set bs)"
  if "length acc = n" "t < n" "t \<noteq> kInvalidId" for acc :: "bool list"
  using that by (induction bs arbitrary: acc) (auto simp: nth_list_update)

lemma owned_mask:
  "valid_id (blocks m) t \<Longrightarrow> build_owned_blocks_mask m f ! t \<longleftrightarrow> t \<in> set (fblocks f)"
  unfolding build_owned_blocks_mask_def by (subst owned_mask_aux) (auto simp: valid_id_def)

lemma arg_type_errors_Nil:
  "arg_type_errors m msg i args params = [] \<longleftrightarrow>
   (\<forall>(a, p) \<in> set (zip args params). valid_id (vals m) a \<longrightarrow> valid_id (vals m) p \<longrightarrow>
      vty (vals m ! a) = vty (vals m ! p))"
  by (induction m msg i args params rule: arg_type_errors.induct)
    (auto simp: valid_id_def split: if_splits)

lemma arg_types_list_all2:
  assumes "list_all (valid_id (vals m)) args" "list_all (valid_id (vals m)) params"
    "length args = length params"
  shows "(\<forall>(a, p) \<in> set (zip args params). valid_id (vals m) a \<longrightarrow> valid_id (vals m) p \<longrightarrow>
      vty (vals m ! a) = vty (vals m ! p)) \<longleftrightarrow>
    list_all2 (\<lambda>a p. vty (vals m ! a) = vty (vals m ! p)) args params"
  using assms(3,1,2) by (induction args params rule: list_induct2) auto

definition params_ok :: "omodule \<Rightarrow> ofunc \<Rightarrow> bool" where
  "params_ok m f \<longleftrightarrow>
     (\<forall>bb \<in> set (fblocks f). valid_id (blocks m) bb \<longrightarrow>
        list_all (valid_id (vals m)) (bparams (blocks m ! bb)))"

lemma edge_ok_checks:
  assumes "params_ok m f" "valid_id (blocks m) t"
  shows "edge_ok m f (t, args) \<longleftrightarrow>
    build_owned_blocks_mask m f ! t \<and> list_all (valid_id (vals m)) args
    \<and> length args = length (bparams (blocks m ! t))
    \<and> (\<forall>(a, p) \<in> set (zip args (bparams (blocks m ! t))).
         valid_id (vals m) a \<longrightarrow> valid_id (vals m) p \<longrightarrow> vty (vals m ! a) = vty (vals m ! p))"
proof -
  have p: "t \<in> set (fblocks f) \<Longrightarrow> list_all (valid_id (vals m)) (bparams (blocks m ! t))"
    using assms by (auto simp: params_ok_def)
  show ?thesis
    using assms(2) p arg_types_list_all2 [of m args "bparams (blocks m ! t)"]
    by (simp add: edge_ok_def owned_mask) blast
qed

lemma guard_valid_id: "i = kInvalidId \<or> length xs \<le> i \<longleftrightarrow> \<not> valid_id xs i"
  by (auto simp: valid_id_def)

lemma check_br_target_Nil:
  "params_ok m f \<Longrightarrow>
   check_br_target m f w (build_owned_blocks_mask m f) t args = [] \<longleftrightarrow> edge_ok m f (t, args)"
  unfolding check_br_target_def guard_valid_id
  by (cases "valid_id (blocks m) t")
    (simp_all only: if_True if_False not_True_eq_False not_False_eq_True append_is_Nil_conv
      check_value_ids_Nil arg_type_errors_Nil edge_ok_checks, auto simp: edge_ok_def)

lemma check_condbr_target_Nil:
  "params_ok m f \<Longrightarrow>
   check_condbr_target m f w (build_owned_blocks_mask m f) t args tag = [] \<longleftrightarrow> edge_ok m f (t, args)"
  unfolding check_condbr_target_def guard_valid_id
  by (cases "valid_id (blocks m) t")
    (simp_all only: if_True if_False not_True_eq_False not_False_eq_True append_is_Nil_conv
      check_value_ids_Nil arg_type_errors_Nil edge_ok_checks, auto simp: edge_ok_def)

lemma verify_terminator_Nil:
  "params_ok m f \<Longrightarrow>
   verify_terminator m f w (build_owned_blocks_mask m f) t = [] \<longleftrightarrow> term_ok m f t"
  by (cases t) (auto simp: check_br_target_Nil check_condbr_target_Nil)

lemma verify_inst_operands_Nil: "verify_inst_operands m iid i = [] \<longleftrightarrow> inst_ok m i"
  unfolding verify_inst_operands_def inst_ok_def
  by (cases "idata i") (auto simp: not_le valid_id_def list_all_iff)

lemma verify_block_Nil:
  assumes "params_ok m f"
  shows "verify_block m f (build_owned_blocks_mask m f) bb = [] \<longleftrightarrow> block_ok m f bb"
proof (cases "valid_id (blocks m) bb")
  case True
  have inst: "(if length (insts m) \<le> iid then [e] else verify_inst_operands m iid (insts m ! iid)) = []
      \<longleftrightarrow> iid < length (insts m) \<and> inst_ok m (insts m ! iid)" for iid e
    by (simp add: verify_inst_operands_Nil)
  have tm: "(if fis_extern f then [] else if \<not> bhas_term b then [e]
        else verify_terminator m f bb (build_owned_blocks_mask m f) (bterm b)) = []
      \<longleftrightarrow> fis_extern f \<or> bhas_term b \<and> term_ok m f (bterm b)" for b e
    by (simp add: verify_terminator_Nil [OF assms] del: verify_terminator.simps)
  show ?thesis
    unfolding verify_block_def block_ok_def guard_valid_id Let_def
    by (simp only: append_is_Nil_conv concat_map_Nil inst tm check_value_id_Nil True
        not_True_eq_False if_False simp_thms conj_assoc)
next
  case False
  then show ?thesis by (auto simp: verify_block_def block_ok_def valid_id_def)
qed

lemma verify_block_params:
  "verify_block m f owned bb = [] \<Longrightarrow> list_all (valid_id (vals m)) (bparams (blocks m ! bb))"
  by (auto simp: verify_block_def Let_def list_all_iff split: if_splits)

lemma verify_func_Nil: "verify_func m f = [] \<longleftrightarrow> func_ok m f"
proof (cases "params_ok m f")
  case True
  show ?thesis
  proof (cases "valid_id (blocks m) (fentry f)")
    case v: True
    then show ?thesis
      by (auto simp: verify_func_def func_ok_def Let_def owned_mask verify_block_Nil [OF True]
          list_all_iff valid_id_def)
  next
    case False
    then show ?thesis
      by (auto simp: verify_func_def func_ok_def valid_id_def Let_def list_all_iff block_ok_def)
  qed
next
  case False
  have "verify_func m f \<noteq> []"
    using False by (auto simp: verify_func_def params_ok_def Let_def dest: verify_block_params)
  moreover have "\<not> func_ok m f"
    using False by (auto simp: func_ok_def params_ok_def list_all_iff block_ok_def)
  ultimately show ?thesis by simp
qed

lemma verify_hint_Nil: "verify_hint m (i, h) = [] \<longleftrightarrow> hint_ok m h"
  by (auto simp: verify_hint_def hint_ok_def valid_id_def)

subsection \<open>Block ownership\<close>

definition owner_pairs :: "ofunc list \<Rightarrow> (nat \<times> nat) list" where
  "owner_pairs fs = concat (map (\<lambda>(fi, f). map (Pair fi) (fblocks f)) (List.enumerate 0 fs))"

lemma fold_owner_pairs:
  "fold (\<lambda>(fi, f). fold (\<lambda>bb. owner_step m (fi, bb)) (fblocks f)) xs s
   = fold (owner_step m) (concat (map (\<lambda>(fi, f). map (Pair fi) (fblocks f)) xs)) s"
proof (induction xs arbitrary: s)
  case (Cons x xs)
  have "fold (\<lambda>bb. owner_step m (fi, bb)) bs s = fold (owner_step m) (map (Pair fi) bs) s" for fi bs s
    by (induction bs arbitrary: s) auto
  with Cons show ?case by (cases x) simp
qed simp

text \<open>
  After any prefix of the (function, block) pairs: a recorded owner lists the block, every
  valid block seen has an owner, and no message was pushed iff every pair agrees with it.
\<close>

definition owner_inv :: "omodule \<Rightarrow> (nat \<times> nat) list \<Rightarrow> nat list \<times> string list \<Rightarrow> bool" where
  "owner_inv m ps = (\<lambda>(ow, errs).
     length ow = length (blocks m)
     \<and> (\<forall>b. valid_id (blocks m) b \<longrightarrow> ow ! b \<noteq> kInvalidId \<longrightarrow> (ow ! b, b) \<in> set ps)
     \<and> (\<forall>(i, b) \<in> set ps. valid_id (blocks m) b \<longrightarrow> ow ! b \<noteq> kInvalidId)
     \<and> (errs = [] \<longleftrightarrow> (\<forall>(i, b) \<in> set ps. valid_id (blocks m) b \<longrightarrow> ow ! b = i)))"

lemma owner_inv_init: "owner_inv m [] (replicate (length (blocks m)) kInvalidId, [])"
  by (auto simp: owner_inv_def valid_id_def)

lemma owner_inv_step:
  assumes inv: "owner_inv m ps s" and i: "i \<noteq> kInvalidId"
  shows "owner_inv m (ps @ [(i, b)]) (owner_step m (i, b) s)"
proof -
  obtain ow errs where s: "s = (ow, errs)" by (cases s)
  show ?thesis
  proof (cases "valid_id (blocks m) b")
    case False
    with inv show ?thesis unfolding s owner_inv_def owner_step_def valid_id_def by auto
  next
    case True
    then have b: "b \<noteq> kInvalidId" "b < length (blocks m)" by (auto simp: valid_id_def)
    show ?thesis
    proof (cases "ow ! b = kInvalidId")
      case fresh: True
      have unseen: "(j, b) \<notin> set ps" for j
        using inv True fresh unfolding s owner_inv_def by blast
      show ?thesis
        using inv b fresh i unseen unfolding s owner_inv_def owner_step_def
        by (auto simp: nth_list_update valid_id_def split: if_splits)
    next
      case False
      with inv b True show ?thesis unfolding s owner_inv_def owner_step_def by auto
    qed
  qed
qed

lemma owner_inv_fold:
  "\<forall>(i, b) \<in> set ps. i \<noteq> kInvalidId \<Longrightarrow>
   owner_inv m ps (fold (owner_step m) ps (replicate (length (blocks m)) kInvalidId, []))"
proof (induction ps rule: rev_induct)
  case Nil
  show ?case by (simp add: owner_inv_init)
next
  case (snoc p ps)
  then show ?case by (cases p) (auto intro: owner_inv_step)
qed

lemma set_owner_pairs:
  "(i, b) \<in> set (owner_pairs fs) \<longleftrightarrow> i < length fs \<and> b \<in> set (fblocks (fs ! i))"
  by (force simp: owner_pairs_def in_set_enumerate_eq)

lemma owner_errors_Nil:
  assumes "length (funcs m) \<le> kInvalidId"
  shows "owner_errors m = [] \<longleftrightarrow> owners_ok m"
proof -
  define s where "s = fold (owner_step m) (owner_pairs (funcs m))
    (replicate (length (blocks m)) kInvalidId, [])"
  have "owner_inv m (owner_pairs (funcs m)) s"
    unfolding s_def using assms by (intro owner_inv_fold) (auto simp: set_owner_pairs)
  moreover have "owner_errors m = snd s"
    by (simp add: owner_errors_def s_def fold_owner_pairs owner_pairs_def)
  moreover obtain ow errs where "s = (ow, errs)" by (cases s)
  ultimately have errs: "owner_errors m = [] \<longleftrightarrow>
      (\<forall>(i, b) \<in> set (owner_pairs (funcs m)). valid_id (blocks m) b \<longrightarrow> ow ! b = i)"
    and own: "\<And>b. valid_id (blocks m) b \<Longrightarrow> ow ! b \<noteq> kInvalidId \<Longrightarrow>
      (ow ! b, b) \<in> set (owner_pairs (funcs m))"
    and seen: "\<And>i b. (i, b) \<in> set (owner_pairs (funcs m)) \<Longrightarrow> valid_id (blocks m) b \<Longrightarrow>
      ow ! b \<noteq> kInvalidId"
    by (auto simp: owner_inv_def)
  show ?thesis
  proof
    assume "owner_errors m = []"
    with errs have own_eq: "\<And>i b. i < length (funcs m) \<Longrightarrow> b \<in> set (fblocks (funcs m ! i)) \<Longrightarrow>
        valid_id (blocks m) b \<Longrightarrow> ow ! b = i"
      using set_owner_pairs by fastforce
    show "owners_ok m"
      unfolding owners_ok_def by (intro allI impI ballI notI) (use own_eq in metis)
  next
    assume ok: "owners_ok m"
    have "ow ! b = i" if "(i, b) \<in> set (owner_pairs (funcs m))" "valid_id (blocks m) b" for i b
      using own [OF that(2) seen [OF that]] that ok unfolding owners_ok_def set_owner_pairs by metis
    with errs show "owner_errors m = []" by auto
  qed
qed

lemma verify_hints_Nil:
  "concat (map (verify_hint m) (List.enumerate n hs)) = [] \<longleftrightarrow> list_all (hint_ok m) hs"
  by (induction hs arbitrary: n) (auto simp: verify_hint_Nil)

lemma verify_Nil_iff:
  "length (funcs m) \<le> kInvalidId \<Longrightarrow> verify m = [] \<longleftrightarrow> wf_module m"
  unfolding verify_def wf_module_def append_is_Nil_conv
  by (simp add: owner_errors_Nil verify_hints_Nil verify_func_Nil list_all_iff
      del: concat_eq_Nil_conv) (simp add: verify_func_Nil)

section \<open>Property\<close>

text \<open>C1: the verifier is sound and complete: on a module whose function ids are in range, no
  message is pushed if and only if the module is well formed.\<close>
theorem verify_iff_wf_module:
  assumes "length (funcs m) \<le> kInvalidId"
  shows "verify m = [] \<longleftrightarrow> wf_module m"
  using assms by (rule verify_Nil_iff)

lemma verify_iff_wf_module_witness: "verify ex_cfg = [] \<and> wf_module ex_cfg"
proof -
  have "length (funcs ex_cfg) \<le> kInvalidId" by (simp add: ex_defs)
  from verify_iff_wf_module [OF this] have "verify ex_cfg = [] \<longleftrightarrow> wf_module ex_cfg" .
  moreover have "verify ex_cfg = []" by code_simp
  ultimately show ?thesis by simp
qed

end
