(* ===== verification/OIR_CFG.thy ===== *)
theory OIR_CFG
  imports OIR OIR_Examples
begin

text \<open>
  The control-flow graph layer of \<open>frontend/src/oir/oir_passes.cpp\<close>: predecessor and
  successor lists, edge rewriting, block parameters, and the clean-up of the graph (branch
  simplification and removal of unreachable blocks). \<open>cfg_edge\<close> is the graph the lists
  represent.
\<close>

section \<open>Pushing onto a vector of vectors\<close>

definition push_at :: "nat \<Rightarrow> 'a \<Rightarrow> 'a list list \<Rightarrow> 'a list list" where
  "push_at k x L = L[k := L ! k @ [x]]"

lemma length_push_at [simp]: "length (push_at k x L) = length L"
  by (simp add: push_at_def)

lemma push_at_nth:
  "t < length L \<Longrightarrow> push_at k x L ! t = (if k = t then L ! t @ [x] else L ! t)"
  by (auto simp: push_at_def nth_list_update)

lemma fold_push_at_nth:
  "t < length L \<Longrightarrow>
   fold (\<lambda>(k, x). push_at k x) kvs L ! t = L ! t @ map snd (filter (\<lambda>(k, x). k = t) kvs)"
proof (induction kvs arbitrary: L)
  case (Cons kv kvs)
  then show ?case by (cases kv) (simp add: push_at_nth)
qed simp

lemma length_fold_push_at [simp]: "length (fold (\<lambda>(k, x). push_at k x) kvs L) = length L"
  by (induction kvs arbitrary: L) (auto split: prod.split)

section \<open>Predecessors and successors\<close>

definition build_owned_block_mask :: "omodule \<Rightarrow> ofunc \<Rightarrow> bool list" where
  "build_owned_block_mask m f =
     fold (\<lambda>bb owned. if bb = kInvalidId \<or> length (blocks m) \<le> bb then owned else owned[bb := True])
       (fblocks f) (replicate (length (blocks m)) False)"

fun term_targets :: "terminator \<Rightarrow> nat list" where
  "term_targets (TermBr t args) = [t]"
| "term_targets (TermCondBr c tb targs eb eargs) = [tb, eb]"
| "term_targets (TermRet has v) = []"

definition add_pred :: "omodule \<Rightarrow> bool list \<Rightarrow> nat \<Rightarrow> nat \<Rightarrow> nat list list \<Rightarrow> nat list list" where
  "add_pred m owned from to preds =
     (if to = kInvalidId \<or> length (blocks m) \<le> to then preds
      else if \<not> owned ! to then preds
      else push_at to from preds)"

definition build_preds :: "omodule \<Rightarrow> ofunc \<Rightarrow> nat list list" where
  "build_preds m f =
     (let owned = build_owned_block_mask m f in
      fold (\<lambda>bb preds.
          if bb = kInvalidId \<or> length (blocks m) \<le> bb then preds
          else if \<not> bhas_term (blocks m ! bb) then preds
          else fold (add_pred m owned bb) (term_targets (bterm (blocks m ! bb))) preds)
        (fblocks f) (replicate (length (blocks m)) []))"

definition add_succ :: "omodule \<Rightarrow> bool list \<Rightarrow> nat \<Rightarrow> nat \<Rightarrow> nat list list \<Rightarrow> nat list list" where
  "add_succ m owned from to succs =
     (if from = kInvalidId \<or> length (blocks m) \<le> from then succs
      else if to = kInvalidId \<or> length (blocks m) \<le> to then succs
      else if \<not> owned ! from \<or> \<not> owned ! to then succs
      else push_at from to succs)"

definition build_succs :: "omodule \<Rightarrow> ofunc \<Rightarrow> nat list list" where
  "build_succs m f =
     (let owned = build_owned_block_mask m f in
      fold (\<lambda>bb succs.
          if bb = kInvalidId \<or> length (blocks m) \<le> bb then succs
          else if \<not> bhas_term (blocks m ! bb) then succs
          else fold (add_succ m owned bb) (term_targets (bterm (blocks m ! bb))) succs)
        (fblocks f) (replicate (length (blocks m)) []))"

fun succ_count :: "terminator \<Rightarrow> nat" where
  "succ_count (TermBr t args) = 1"
| "succ_count (TermCondBr c tb targs eb eargs) = (if tb = eb then 1 else 2)"
| "succ_count (TermRet has v) = 0"

section \<open>Rewriting edges\<close>

fun append_arg :: "nat \<Rightarrow> nat \<Rightarrow> terminator \<Rightarrow> terminator" where
  "append_arg target arg (TermBr t args) = TermBr t (if t = target then args @ [arg] else args)"
| "append_arg target arg (TermCondBr c tb targs eb eargs) =
     TermCondBr c tb (if tb = target then targs @ [arg] else targs)
                  eb (if eb = target then eargs @ [arg] else eargs)"
| "append_arg target arg (TermRet has v) = TermRet has v"

definition append_edge_arg :: "omodule \<Rightarrow> nat \<Rightarrow> nat \<Rightarrow> nat \<Rightarrow> omodule" where
  "append_edge_arg m pred target arg =
     (if length (blocks m) \<le> pred then m
      else if \<not> bhas_term (blocks m ! pred) then m
      else upd_block m pred (\<lambda>b. b\<lparr>bterm := append_arg target arg (bterm b)\<rparr>))"

fun redirect_term :: "nat \<Rightarrow> nat \<Rightarrow> terminator \<Rightarrow> terminator \<times> bool" where
  "redirect_term old neu (TermBr t args) =
     (if t = old then (TermBr neu args, True) else (TermBr t args, False))"
| "redirect_term old neu (TermCondBr c tb targs eb eargs) =
     (TermCondBr c (if tb = old then neu else tb) targs (if eb = old then neu else eb) eargs,
      tb = old \<or> eb = old)"
| "redirect_term old neu (TermRet has v) = (TermRet has v, False)"

definition redirect_edge_target :: "omodule \<Rightarrow> nat \<Rightarrow> nat \<Rightarrow> nat \<Rightarrow> omodule \<times> bool" where
  "redirect_edge_target m pred old_target neu_target =
     (if length (blocks m) \<le> pred then (m, False)
      else if \<not> bhas_term (blocks m ! pred) then (m, False)
      else (upd_block m pred (\<lambda>b. b\<lparr>bterm := fst (redirect_term old_target neu_target (bterm b))\<rparr>),
            snd (redirect_term old_target neu_target (bterm (blocks m ! pred)))))"

section \<open>Block parameters and new values\<close>

definition add_block_param :: "omodule \<Rightarrow> nat \<Rightarrow> nat \<Rightarrow> omodule \<times> nat" where
  "add_block_param m bb ty =
     (let idx = u32 (length (bparams (blocks m ! bb)));
          (m1, vid) = add_value m \<lparr>vty = ty, veff = EffPure, vdef_a = bb, vdef_b = idx\<rparr>
      in (upd_block m1 bb (\<lambda>b. b\<lparr>bparams := bparams b @ [vid]\<rparr>), vid))"

definition make_undef_value :: "omodule \<Rightarrow> nat \<Rightarrow> omodule \<times> nat" where
  "make_undef_value m ty =
     add_value m \<lparr>vty = ty, veff = EffPure, vdef_a = kInvalidId, vdef_b = kInvalidId\<rparr>"

text \<open>A cast instruction appended to the edge block; its result has the parameter's type.\<close>

definition make_edge_cast_value :: "omodule \<Rightarrow> nat \<Rightarrow> nat \<Rightarrow> nat \<Rightarrow> omodule \<times> nat" where
  "make_edge_cast_value m edge_block src to_ty =
     (let (m1, out_vid) = add_value m
            \<lparr>vty = to_ty, veff = EffPure, vdef_a = kInvalidId, vdef_b = kInvalidId\<rparr>;
          (m2, cast_iid) = add_inst m1
            \<lparr>idata = InstCast CastAs to_ty src, ieff = EffPure, iresult = out_vid\<rparr>;
          m3 = m2\<lparr>vals := (vals m2)[out_vid := (vals m2 ! out_vid)
                    \<lparr>vdef_a := cast_iid, vdef_b := kInvalidId\<rparr>]\<rparr>;
          m4 = (if edge_block < length (blocks m3)
                then upd_block m3 edge_block (\<lambda>b. b\<lparr>binsts := binsts b @ [cast_iid]\<rparr>)
                else m3)
      in (m4, out_vid))"

text \<open>The loop over the first \<open>min\<close> arguments and parameters.\<close>

fun normalize_edge_args_to_target_types ::
  "omodule \<Rightarrow> nat \<Rightarrow> nat list \<Rightarrow> nat list \<Rightarrow> omodule \<times> nat list \<times> bool" where
  "normalize_edge_args_to_target_types m edge_block (arg # args) (param # params) =
     (if arg = kInvalidId \<or> param = kInvalidId
         \<or> length (vals m) \<le> arg \<or> length (vals m) \<le> param
         \<or> vty (vals m ! arg) = vty (vals m ! param)
      then (case normalize_edge_args_to_target_types m edge_block args params of
              (m', args', changed) \<Rightarrow> (m', arg # args', changed))
      else (case make_edge_cast_value m edge_block arg (vty (vals m ! param)) of
              (m1, v) \<Rightarrow> (case normalize_edge_args_to_target_types m1 edge_block args params of
                 (m', args', changed) \<Rightarrow> (m', v # args', True))))"
| "normalize_edge_args_to_target_types m edge_block args params = (m, args, False)"

section \<open>Clean-up\<close>

text \<open>\<open>simplify_condbr_same_target_\<close>: a conditional branch with one target is a branch.\<close>

fun same_target_term :: "terminator \<Rightarrow> terminator option" where
  "same_target_term (TermCondBr c tb targs eb eargs) =
     (if tb = eb \<and> targs = eargs then Some (TermBr tb targs) else None)"
| "same_target_term t = None"

definition simplify_block :: "oblock \<Rightarrow> oblock" where
  "simplify_block b =
     (if bhas_term b
      then (case same_target_term (bterm b) of None \<Rightarrow> b | Some t \<Rightarrow> b\<lparr>bterm := t\<rparr>)
      else b)"

definition simplify_condbr_same_target :: "omodule \<Rightarrow> omodule \<times> bool" where
  "simplify_condbr_same_target m =
     (m\<lparr>blocks := map simplify_block (blocks m)\<rparr>,
      list_ex (\<lambda>b. bhas_term b \<and> same_target_term (bterm b) \<noteq> None) (blocks m))"

text \<open>
  The worklist of \<open>remove_unreachable_blocks_\<close>. \<open>reach\<close> has one entry per block, so the
  source's test against \<open>m.blocks.size()\<close> is a test against its length.
\<close>

definition reach_push :: "nat \<Rightarrow> bool list \<times> nat list \<Rightarrow> bool list \<times> nat list" where
  "reach_push to = (\<lambda>(reach, q).
     if to = kInvalidId \<or> length reach \<le> to then (reach, q)
     else if reach ! to then (reach, q)
     else (reach[to := True], q @ [to]))"

definition unreached :: "bool list \<Rightarrow> nat" where
  "unreached reach = length (filter Not reach)"

lemma unreached_update:
  "i < length reach \<Longrightarrow> \<not> reach ! i \<Longrightarrow> Suc (unreached (reach[i := True])) = unreached reach"
proof (induction reach arbitrary: i)
  case (Cons r reach)
  then show ?case by (cases i) (auto simp: unreached_def)
qed simp

lemma reach_push_measure:
  "2 * unreached (fst (fold reach_push ts (reach, q))) + length (snd (fold reach_push ts (reach, q)))
   \<le> 2 * unreached reach + length q"
proof (induction ts arbitrary: reach q)
  case (Cons t ts)
  obtain r1 q1 where s: "reach_push t (reach, q) = (r1, q1)" by fastforce
  then have "2 * unreached r1 + length q1 \<le> 2 * unreached reach + length q"
    using unreached_update [of t reach] by (auto simp: reach_push_def split: if_splits)
  with Cons [of r1 q1] s show ?case by simp
qed simp

function reach_loop :: "omodule \<Rightarrow> bool list \<Rightarrow> nat list \<Rightarrow> bool list" where
  "reach_loop m reach [] = reach"
| "reach_loop m reach (bb # q) =
     (if length (blocks m) \<le> bb then reach_loop m reach q
      else if \<not> bhas_term (blocks m ! bb) then reach_loop m reach q
      else (case fold reach_push (term_targets (bterm (blocks m ! bb))) (reach, q) of
              (reach', q') \<Rightarrow> reach_loop m reach' q'))"
  by pat_completeness auto
termination
proof (relation "measure (\<lambda>(m, reach, q). 2 * unreached reach + length q)", goal_cases)
  case (4 m reach bb q x y)
  from 4(3) [symmetric] show ?case
    using reach_push_measure [of "term_targets (bterm (blocks m ! bb))" reach q] by simp
qed auto

definition remove_unreachable_blocks :: "omodule \<Rightarrow> ofunc \<Rightarrow> ofunc \<times> bool" where
  "remove_unreachable_blocks m f =
     (if fentry f = kInvalidId \<or> length (blocks m) \<le> fentry f then (f, False)
      else
        let reach = reach_loop m ((replicate (length (blocks m)) False)[fentry f := True]) [fentry f];
            kept = filter (\<lambda>bb. \<not> (bb = kInvalidId \<or> length (blocks m) \<le> bb) \<and> reach ! bb) (fblocks f)
        in (f\<lparr>fblocks := kept\<rparr>, length kept \<noteq> length (fblocks f)))"

definition simplify_cfg :: "omodule \<Rightarrow> omodule \<times> bool" where
  "simplify_cfg m =
     (let (m1, c1) = simplify_condbr_same_target m;
          rs = map (remove_unreachable_blocks m1) (funcs m1)
      in (m1\<lparr>funcs := map fst rs\<rparr>, c1 \<or> list_ex snd rs))"

text \<open>\<open>is_preheader_block_\<close>: an unconditional branch to the header.\<close>

definition is_preheader_block :: "omodule \<Rightarrow> nat \<Rightarrow> nat \<Rightarrow> bool" where
  "is_preheader_block m bb header =
     (if bb = kInvalidId \<or> length (blocks m) \<le> bb then False
      else if \<not> bhas_term (blocks m ! bb) then False
      else (case bterm (blocks m ! bb) of
              TermBr t args \<Rightarrow> t = header \<and> succ_count (bterm (blocks m ! bb)) = 1
            | _ \<Rightarrow> False))"

text \<open>\<open>build_inst_block_map_\<close>: the last block of the list that holds the instruction wins.\<close>

definition build_inst_block_map :: "omodule \<Rightarrow> ofunc \<Rightarrow> nat \<rightharpoonup> nat" where
  "build_inst_block_map m f =
     fold (\<lambda>bb out.
         if bb = kInvalidId \<or> length (blocks m) \<le> bb then out
         else fold (\<lambda>iid out. out(iid \<mapsto> bb)) (binsts (blocks m ! bb)) out)
       (fblocks f) Map.empty"

section \<open>The graph\<close>

text \<open>
  \<open>raw_edge\<close> is the branch relation of the module, \<open>cfg_edge\<close> its restriction to the
  blocks a function lists: what \<open>build_preds\<close> and \<open>build_succs\<close> tabulate.
\<close>

definition raw_edge :: "omodule \<Rightarrow> nat \<Rightarrow> nat \<Rightarrow> bool" where
  "raw_edge m a b \<longleftrightarrow>
     a < length (blocks m) \<and> bhas_term (blocks m ! a)
     \<and> b \<in> set (term_targets (bterm (blocks m ! a))) \<and> valid_id (blocks m) b"

definition owned_by :: "omodule \<Rightarrow> ofunc \<Rightarrow> nat \<Rightarrow> bool" where
  "owned_by m f b \<longleftrightarrow> b \<in> set (fblocks f) \<and> valid_id (blocks m) b"

definition cfg_edge :: "omodule \<Rightarrow> ofunc \<Rightarrow> nat \<Rightarrow> nat \<Rightarrow> bool" where
  "cfg_edge m f a b \<longleftrightarrow> raw_edge m a b \<and> owned_by m f a \<and> owned_by m f b"

lemma owned_block_mask_aux:
  "fold (\<lambda>bb owned. if bb = kInvalidId \<or> n \<le> bb then owned else owned[bb := True]) bs acc ! t
   = (acc ! t \<or> t \<in> set bs)"
  if "length acc = n" "t < n" "t \<noteq> kInvalidId" for acc :: "bool list"
  using that by (induction bs arbitrary: acc) (auto simp: nth_list_update)

lemma owned_block_mask:
  "valid_id (blocks m) t \<Longrightarrow> build_owned_block_mask m f ! t \<longleftrightarrow> owned_by m f t"
  unfolding build_owned_block_mask_def owned_by_def
  by (subst owned_block_mask_aux) (auto simp: valid_id_def)

definition block_targets :: "omodule \<Rightarrow> nat \<Rightarrow> nat list" where
  "block_targets m bb =
     (if valid_id (blocks m) bb \<and> bhas_term (blocks m ! bb)
      then term_targets (bterm (blocks m ! bb)) else [])"

lemma add_pred_alt:
  "add_pred m (build_owned_block_mask m f) from =
   (\<lambda>to. if owned_by m f to then push_at to from else (\<lambda>L. L))"
  by (auto simp: add_pred_def owned_block_mask owned_by_def valid_id_def fun_eq_iff)

lemma add_succ_alt:
  "add_succ m (build_owned_block_mask m f) from =
   (\<lambda>to. if owned_by m f from \<and> owned_by m f to then push_at from to else (\<lambda>L. L))"
  by (auto simp: add_succ_def owned_block_mask owned_by_def valid_id_def fun_eq_iff)

lemma fold_filter_push:
  "fold (\<lambda>x. if P x then push_at (k x) (v x) else (\<lambda>L. L)) xs L
   = fold (\<lambda>(k, x). push_at k x) (map (\<lambda>x. (k x, v x)) (filter P xs)) L"
  by (induction xs arbitrary: L) auto

lemma fold_block_push:
  assumes "\<And>bb L. step bb L = fold (\<lambda>(k, x). push_at k x) (kvs bb) L"
  shows "fold step bs L = fold (\<lambda>(k, x). push_at k x) (concat (map kvs bs)) L"
  by (induction bs arbitrary: L) (auto simp: assms)

lemma build_preds_pushes:
  "build_preds m f =
   fold (\<lambda>(k, x). push_at k x)
     (concat (map (\<lambda>bb. map (\<lambda>t. (t, bb)) (filter (owned_by m f) (block_targets m bb))) (fblocks f)))
     (replicate (length (blocks m)) [])"
  unfolding build_preds_def Let_def
  by (rule fold_block_push)
    (simp add: block_targets_def valid_id_def add_pred_alt fold_filter_push)

lemma build_succs_pushes:
  "build_succs m f =
   fold (\<lambda>(k, x). push_at k x)
     (concat (map (\<lambda>bb. map (Pair bb) (filter (\<lambda>t. owned_by m f bb \<and> owned_by m f t) (block_targets m bb)))
        (fblocks f)))
     (replicate (length (blocks m)) [])"
  unfolding build_succs_def Let_def
  by (rule fold_block_push)
    (simp add: block_targets_def valid_id_def add_succ_alt fold_filter_push)

lemma length_build_preds [simp]: "length (build_preds m f) = length (blocks m)"
  by (simp add: build_preds_pushes)

lemma length_build_succs [simp]: "length (build_succs m f) = length (blocks m)"
  by (simp add: build_succs_pushes)

text \<open>The predecessor list in full: one entry per branch, in block order.\<close>

lemma build_preds_nth:
  "t < length (blocks m) \<Longrightarrow>
   build_preds m f ! t =
     (if owned_by m f t
      then concat (map (\<lambda>bb. map (\<lambda>_. bb) (filter (\<lambda>s. s = t) (block_targets m bb))) (fblocks f))
      else [])"
proof -
  have "(\<lambda>x. owned_by m f x \<and> x = t) = (\<lambda>s. owned_by m f t \<and> s = t)" by auto
  then show "t < length (blocks m) \<Longrightarrow> ?thesis"
    unfolding build_preds_pushes
    by (subst fold_push_at_nth)
      (auto simp: filter_concat map_concat comp_def filter_map)
qed

lemma build_succs_nth:
  "b < length (blocks m) \<Longrightarrow>
   build_succs m f ! b =
     concat (map (\<lambda>bb. if bb = b then filter (\<lambda>t. owned_by m f b \<and> owned_by m f t) (block_targets m b) else [])
       (fblocks f))"
  unfolding build_succs_pushes
  by (subst fold_push_at_nth)
    (auto simp: filter_concat map_concat comp_def filter_map intro!: arg_cong [where f = concat])

lemma set_build_preds:
  "t < length (blocks m) \<Longrightarrow> p \<in> set (build_preds m f ! t) \<longleftrightarrow> cfg_edge m f p t"
  by (auto simp: build_preds_nth cfg_edge_def raw_edge_def block_targets_def owned_by_def valid_id_def
      split: if_splits)

lemma set_build_succs:
  "b < length (blocks m) \<Longrightarrow> s \<in> set (build_succs m f ! b) \<longleftrightarrow> cfg_edge m f b s"
  by (auto simp: build_succs_nth cfg_edge_def raw_edge_def block_targets_def owned_by_def valid_id_def
      split: if_splits)

section \<open>Reachability\<close>

declare reach_loop.simps(2) [simp del]

abbreviation reachable_from :: "omodule \<Rightarrow> nat \<Rightarrow> nat \<Rightarrow> bool" where
  "reachable_from m \<equiv> (raw_edge m)\<^sup>*\<^sup>*"

lemma fold_reach_push:
  assumes "fold reach_push ts (r, q) = (r', q')"
  shows "length r' = length r"
    and "x < length r \<Longrightarrow> r' ! x \<longleftrightarrow> r ! x \<or> x \<in> set ts \<and> x \<noteq> kInvalidId"
    and "set q' = set q \<union> {x \<in> set ts. x \<noteq> kInvalidId \<and> x < length r \<and> \<not> r ! x}"
proof -
  have "length r' = length r
    \<and> (\<forall>x < length r. r' ! x \<longleftrightarrow> r ! x \<or> x \<in> set ts \<and> x \<noteq> kInvalidId)
    \<and> set q' = set q \<union> {x \<in> set ts. x \<noteq> kInvalidId \<and> x < length r \<and> \<not> r ! x}"
    using assms
  proof (induction ts arbitrary: r q)
    case (Cons t ts)
    obtain r1 q1 where s: "reach_push t (r, q) = (r1, q1)" by fastforce
    with Cons.prems have "fold reach_push ts (r1, q1) = (r', q')" by simp
    from Cons.IH [OF this] s show ?case
      by (auto simp: reach_push_def nth_list_update split: if_splits)
  qed auto
  then show "length r' = length r"
    and "x < length r \<Longrightarrow> r' ! x \<longleftrightarrow> r ! x \<or> x \<in> set ts \<and> x \<noteq> kInvalidId"
    and "set q' = set q \<union> {x \<in> set ts. x \<noteq> kInvalidId \<and> x < length r \<and> \<not> r ! x}"
    by blast+
qed

text \<open>
  The worklist invariant: queued blocks are marked, and a marked block that is not queued
  has all its branch targets marked.
\<close>

definition worklist_inv :: "omodule \<Rightarrow> bool list \<Rightarrow> nat list \<Rightarrow> bool" where
  "worklist_inv m r q \<longleftrightarrow>
     length r = length (blocks m)
     \<and> (\<forall>x \<in> set q. x < length r \<and> r ! x)
     \<and> (\<forall>a b. raw_edge m a b \<longrightarrow> r ! a \<longrightarrow> a \<notin> set q \<longrightarrow> r ! b)"

lemma worklist_inv_step:
  assumes inv: "worklist_inv m r (bb # q)" and t: "bhas_term (blocks m ! bb)"
    and f: "fold reach_push (term_targets (bterm (blocks m ! bb))) (r, q) = (r', q')"
  shows "worklist_inv m r' q'"
  using inv t unfolding worklist_inv_def
  by (auto simp: fold_reach_push [OF f] raw_edge_def valid_id_def)

lemma reach_loop_correct:
  assumes "worklist_inv m r q"
  shows "length (reach_loop m r q) = length (blocks m)
    \<and> (\<forall>x < length (blocks m). r ! x \<longrightarrow> reach_loop m r q ! x)
    \<and> (\<forall>a b. raw_edge m a b \<longrightarrow> reach_loop m r q ! a \<longrightarrow> reach_loop m r q ! b)
    \<and> (\<forall>x < length (blocks m). reach_loop m r q ! x \<longrightarrow>
         (\<exists>y < length (blocks m). r ! y \<and> reachable_from m y x))"
  using assms
proof (induction m r q rule: reach_loop.induct)
  case (1 m reach)
  then show ?case by (auto simp: worklist_inv_def)
next
  case (2 m r bb q)
  from 2(4) have bb: "bb < length (blocks m)" and rbb: "r ! bb" and len: "length r = length (blocks m)"
    by (auto simp: worklist_inv_def)
  show ?case
  proof (cases "bhas_term (blocks m ! bb)")
    case False
    with 2(4) have "worklist_inv m r q"
      unfolding worklist_inv_def raw_edge_def by auto
    with 2(2) bb False show ?thesis by (simp add: not_le reach_loop.simps(2))
  next
    case True
    obtain r' q' where f: "fold reach_push (term_targets (bterm (blocks m ! bb))) (r, q) = (r', q')"
      by fastforce
    have inv: "worklist_inv m r' q'" using worklist_inv_step [OF 2(4) True f] .
    have eq: "reach_loop m r (bb # q) = reach_loop m r' q'"
      using bb True f by (simp add: reach_loop.simps(2))
    have old: "r' ! x \<Longrightarrow> x < length (blocks m) \<Longrightarrow> r ! x \<or> raw_edge m bb x" for x
      using bb True by (auto simp: fold_reach_push(2) [OF f] len raw_edge_def valid_id_def)
    have IH: "length (reach_loop m r' q') = length (blocks m)
      \<and> (\<forall>x < length (blocks m). r' ! x \<longrightarrow> reach_loop m r' q' ! x)
      \<and> (\<forall>a b. raw_edge m a b \<longrightarrow> reach_loop m r' q' ! a \<longrightarrow> reach_loop m r' q' ! b)
      \<and> (\<forall>x < length (blocks m). reach_loop m r' q' ! x \<longrightarrow>
           (\<exists>y < length (blocks m). r' ! y \<and> reachable_from m y x))"
      by (rule 2(3)) (use bb True f inv in auto)
    have src: "\<exists>z < length (blocks m). r ! z \<and> reachable_from m z x"
      if "y < length (blocks m)" "r' ! y" "reachable_from m y x" for x y
      using old [OF that(2,1)] that bb rbb converse_rtranclp_into_rtranclp [of "raw_edge m" bb y x]
      by blast
    have mono: "x < length (blocks m) \<Longrightarrow> r ! x \<Longrightarrow> r' ! x" for x
      by (simp add: fold_reach_push(2) [OF f] len)
    show ?thesis unfolding eq using IH src mono by blast
  qed
qed

lemma reach_from_entry:
  assumes e: "valid_id (blocks m) e" and x: "x < length (blocks m)"
  shows "reach_loop m ((replicate (length (blocks m)) False)[e := True]) [e] ! x
    \<longleftrightarrow> reachable_from m e x"
proof -
  let ?init = "(replicate (length (blocks m)) False)[e := True]"
  let ?r = "reach_loop m ?init [e]"
  have e': "e < length (blocks m)" using e by (simp add: valid_id_def)
  have marked: "y < length (blocks m) \<Longrightarrow> ?init ! y \<longleftrightarrow> y = e" for y
    by (cases "e = y") auto
  have "worklist_inv m ?init [e]"
    using e' by (auto simp: worklist_inv_def raw_edge_def nth_list_update)
  note c = reach_loop_correct [OF this]
  have "?r ! y" if "reachable_from m e y" for y
    using that
  proof (induction rule: rtranclp_induct)
    case base
    show ?case using c e' marked by blast
  next
    case (step y z)
    with c show ?case by blast
  qed
  moreover have "reachable_from m e x" if "?r ! x"
    using c x that marked by blast
  ultimately show ?thesis by blast
qed

lemma remove_unreachable_blocks_eq:
  assumes "valid_id (blocks m) (fentry f)"
  shows "remove_unreachable_blocks m f =
    (f\<lparr>fblocks := filter (\<lambda>bb. valid_id (blocks m) bb \<and> reachable_from m (fentry f) bb) (fblocks f)\<rparr>,
     \<exists>bb \<in> set (fblocks f). \<not> (valid_id (blocks m) bb \<and> reachable_from m (fentry f) bb))"
proof -
  let ?r = "reach_loop m ((replicate (length (blocks m)) False)[fentry f := True]) [fentry f]"
  have P: "(\<lambda>bb. \<not> (bb = kInvalidId \<or> length (blocks m) \<le> bb) \<and> ?r ! bb)
      = (\<lambda>bb. valid_id (blocks m) bb \<and> reachable_from m (fentry f) bb)"
    using reach_from_entry [OF assms] by (auto simp: valid_id_def fun_eq_iff)
  have Q: "length (filter Q xs) \<noteq> length xs \<longleftrightarrow> (\<exists>x \<in> set xs. \<not> Q x)" for Q and xs :: "nat list"
    by (metis length_filter_less less_irrefl filter_True)
  have e: "\<not> (fentry f = kInvalidId \<or> length (blocks m) \<le> fentry f)"
    using assms by (simp add: valid_id_def)
  show ?thesis
    unfolding remove_unreachable_blocks_def Let_def P unfolding Q by (simp only: e if_False)
qed

text \<open>Branch simplification changes no target, so it changes no edge.\<close>

lemma simplify_block_targets:
  "set (term_targets (bterm (simplify_block b))) = set (term_targets (bterm b))"
  "bhas_term (simplify_block b) = bhas_term b"
  by (cases "bterm b"; auto simp: simplify_block_def)+

lemma simplify_block_frame [simp]:
  "bparams (simplify_block b) = bparams b" "binsts (simplify_block b) = binsts b"
  "bhas_term (simplify_block b) = bhas_term b"
  by (auto simp: simplify_block_def split: option.split)

lemma simplify_condbr_frame [simp]:
  "funcs (fst (simplify_condbr_same_target m)) = funcs m"
  "vals (fst (simplify_condbr_same_target m)) = vals m"
  "insts (fst (simplify_condbr_same_target m)) = insts m"
  "blocks (fst (simplify_condbr_same_target m)) = map simplify_block (blocks m)"
  by (simp_all add: simplify_condbr_same_target_def)

lemma raw_edge_simplify [simp]:
  "raw_edge (fst (simplify_condbr_same_target m)) = raw_edge m"
  by (auto simp: raw_edge_def fun_eq_iff simplify_block_targets(1))

end
