(* ===== verification/OIR_Dom.thy ===== *)
theory OIR_Dom
  imports OIR_CFG
begin

text \<open>
  Dominator information (\<open>build_dom_info_\<close>, \<open>dominates_\<close> of
  \<open>frontend/src/oir/oir_passes.cpp\<close>): the iterative computation of the dominator matrix, the
  dominator links derived from it, the frontiers, and natural loops. The matrix is proved to
  be dominance over the paths of the graph; the links are proved to be what the code computes,
  which is the entry block and not the nearest strict dominator.
\<close>

record dom_info =
  di_blocks :: "nat list"
  di_index_of :: "nat \<rightharpoonup> nat"
  di_preds :: "nat list list"
  di_succs :: "nat list list"
  di_dom :: "bool list list"
  di_idom :: "int list"
  di_dom_tree :: "nat list list"
  di_df :: "nat list list"
  di_entry_index :: "nat option"        \<comment> \<open>\<open>None\<close> for \<open>UINT32_MAX\<close>\<close>

definition build_index_of :: "nat list \<Rightarrow> nat \<rightharpoonup> nat" where
  "build_index_of bs = fold (\<lambda>(i, b) m. m(b \<mapsto> i)) (List.enumerate 0 bs) Map.empty"

section \<open>The dominator matrix\<close>

text \<open>
  One row: the intersection of the predecessors' rows, the block itself added. A block
  without predecessors starts from the empty row.
\<close>

definition dom_row ::
  "nat list \<Rightarrow> (nat \<rightharpoonup> nat) \<Rightarrow> nat \<Rightarrow> bool list list \<Rightarrow> nat \<Rightarrow> bool list" where
  "dom_row preds index_of n mat bi =
     (let (ndom, has_pred) =
        fold (\<lambda>pbb (ndom, has_pred).
            case index_of pbb of
              None \<Rightarrow> (ndom, has_pred)
            | Some pi \<Rightarrow>
                if \<not> has_pred then (mat ! pi, True)
                else (map2 (\<and>) ndom (mat ! pi), True))
          preds (replicate n True, False);
        ndom1 = (if \<not> has_pred then replicate n False else ndom)
      in ndom1[bi := True])"

text \<open>One pass over the blocks, in place; the flag is the source's \<open>changed\<close>.\<close>

definition dom_sweep ::
  "nat list \<Rightarrow> nat list list \<Rightarrow> (nat \<rightharpoonup> nat) \<Rightarrow> nat \<Rightarrow> bool list list \<Rightarrow> bool list list \<times> bool" where
  "dom_sweep bs preds index_of entry_index dom0 =
     (let n = length bs in
      fold (\<lambda>bi (mat, changed).
          if bi = entry_index then (mat, changed)
          else
            let ndom = dom_row (preds ! (bs ! bi)) index_of n mat bi in
            if ndom \<noteq> mat ! bi then (mat[bi := ndom], True) else (mat, changed))
        [0..<n] (dom0, False))"

text \<open>The \<open>do ... while (changed)\<close> loop, with fuel.\<close>

fun dom_fix ::
  "nat \<Rightarrow> nat list \<Rightarrow> nat list list \<Rightarrow> (nat \<rightharpoonup> nat) \<Rightarrow> nat \<Rightarrow> bool list list \<Rightarrow> bool list list" where
  "dom_fix 0 bs preds index_of entry_index mat = mat"
| "dom_fix (Suc fuel) bs preds index_of entry_index mat =
     (case dom_sweep bs preds index_of entry_index mat of
        (dom', changed) \<Rightarrow>
          if changed then dom_fix fuel bs preds index_of entry_index dom' else dom')"

definition dom_init :: "nat \<Rightarrow> nat \<Rightarrow> bool list list" where
  "dom_init n e = (replicate n (replicate n True))[e := (replicate n False)[e := True]]"

section \<open>Dominator links and frontiers\<close>

definition find_idom :: "nat \<Rightarrow> bool list list \<Rightarrow> nat \<Rightarrow> nat \<Rightarrow> int" where
  "find_idom n mat e bi =
     (if bi = e then -1
      else (case find (\<lambda>d. d \<noteq> bi \<and> mat ! bi ! d
                \<and> \<not> list_ex (\<lambda>o'. o' \<noteq> bi \<and> o' \<noteq> d \<and> mat ! bi ! o' \<and> mat ! d ! o') [0..<n]) [0..<n] of
              None \<Rightarrow> -1
            | Some d \<Rightarrow> int d))"

definition build_dom_tree :: "nat \<Rightarrow> int list \<Rightarrow> nat list list" where
  "build_dom_tree n idom =
     fold (\<lambda>bi t. if idom ! bi \<ge> 0 then push_at (nat (idom ! bi)) bi t else t) [0..<n] (replicate n [])"

text \<open>The frontier runner: from a predecessor up the links, with fuel.\<close>

fun df_runner :: "nat \<Rightarrow> int list \<Rightarrow> nat \<Rightarrow> int \<Rightarrow> nat list list \<Rightarrow> nat list list" where
  "df_runner 0 idom bi runner df = df"
| "df_runner (Suc fuel) idom bi runner df =
     (if runner \<ge> 0 \<and> runner \<noteq> idom ! bi
      then df_runner fuel idom bi (idom ! nat runner)
             (if bi \<in> set (df ! nat runner) then df else push_at (nat runner) bi df)
      else df)"

definition build_df ::
  "nat list \<Rightarrow> nat list list \<Rightarrow> (nat \<rightharpoonup> nat) \<Rightarrow> int list \<Rightarrow> nat list list" where
  "build_df bs preds index_of idom =
     (let n = length bs in
      fold (\<lambda>bi df.
          if length (preds ! (bs ! bi)) < 2 then df
          else fold (\<lambda>pbb df.
              case index_of pbb of
                None \<Rightarrow> df
              | Some pi \<Rightarrow> df_runner (Suc (Suc n)) idom bi (int pi) df) (preds ! (bs ! bi)) df)
        [0..<n] (replicate n []))"

definition build_dom_info :: "omodule \<Rightarrow> ofunc \<Rightarrow> dom_info" where
  "build_dom_info m f =
     (let bs = fblocks f; preds = build_preds m f; succs = build_succs m f;
          index_of = build_index_of bs
      in case index_of (fentry f) of
           None \<Rightarrow> \<lparr>di_blocks = bs, di_index_of = index_of, di_preds = preds, di_succs = succs,
                    di_dom = [], di_idom = [], di_dom_tree = [], di_df = [], di_entry_index = None\<rparr>
         | Some e \<Rightarrow>
             let n = length bs;
                 mat = dom_fix (Suc (n * n)) bs preds index_of e (dom_init n e);
                 idom = map (find_idom n mat e) [0..<n]
             in \<lparr>di_blocks = bs, di_index_of = index_of, di_preds = preds, di_succs = succs,
                 di_dom = mat, di_idom = idom, di_dom_tree = build_dom_tree n idom,
                 di_df = build_df bs preds index_of idom, di_entry_index = Some e\<rparr>)"

definition dominates :: "dom_info \<Rightarrow> nat \<Rightarrow> nat \<Rightarrow> bool" where
  "dominates di a b =
     (case (di_index_of di a, di_index_of di b) of
        (Some ia, Some ib) \<Rightarrow> di_dom di ! ib ! ia
      | _ \<Rightarrow> False)"

section \<open>The index table\<close>

lemma build_index_of_notin:
  "b \<notin> set bs \<Longrightarrow> fold (\<lambda>(i, b) m. m(b \<mapsto> i)) (List.enumerate k bs) m0 b = m0 b"
  by (induction bs arbitrary: k m0) auto

lemma build_index_of_in:
  "distinct bs \<Longrightarrow> i < length bs \<Longrightarrow>
   fold (\<lambda>(i, b) m. m(b \<mapsto> i)) (List.enumerate k bs) m0 (bs ! i) = Some (k + i)"
proof (induction bs arbitrary: k m0 i)
  case (Cons a bs)
  then show ?case
    using build_index_of_notin [of a bs "Suc k" "m0(a \<mapsto> k)"] by (cases i) (simp_all del: fun_upd_apply, simp)
qed simp

lemma index_of_nth:
  "distinct bs \<Longrightarrow> i < length bs \<Longrightarrow> build_index_of bs (bs ! i) = Some i"
  by (simp add: build_index_of_def build_index_of_in)

lemma index_of_None_iff: "distinct bs \<Longrightarrow> build_index_of bs b = None \<longleftrightarrow> b \<notin> set bs"
  using index_of_nth [of bs] by (auto simp: in_set_conv_nth)
    (simp add: build_index_of_def build_index_of_notin in_set_conv_nth)

lemma index_of_Some_iff:
  assumes "distinct bs"
  shows "build_index_of bs b = Some i \<longleftrightarrow> i < length bs \<and> bs ! i = b"
  using assms index_of_nth [OF assms] index_of_None_iff [OF assms, of b]
  by (metis in_set_conv_nth option.distinct(1) option.inject)

section \<open>Rows as sets of conditions\<close>

text \<open>
  \<open>pred_idx\<close> are the indices of a block's predecessors; \<open>row_holds\<close> is the transfer
  function a row is set to.
\<close>

definition pred_idx :: "nat list \<Rightarrow> nat list list \<Rightarrow> nat \<Rightarrow> nat list" where
  "pred_idx bs preds bi =
     List.map_filter (build_index_of bs) (preds ! (bs ! bi))"

definition row_holds :: "nat list \<Rightarrow> bool list list \<Rightarrow> nat \<Rightarrow> nat \<Rightarrow> bool" where
  "row_holds ps mat bi d \<longleftrightarrow> d = bi \<or> ps \<noteq> [] \<and> (\<forall>p \<in> set ps. mat ! p ! d)"

definition square :: "nat \<Rightarrow> bool list list \<Rightarrow> bool" where
  "square n mat \<longleftrightarrow> length mat = n \<and> (\<forall>i < n. length (mat ! i) = n)"

lemma dom_row_fold:
  assumes "\<forall>q \<in> set (List.map_filter idx ps). length (mat ! q) = n"
    and "length row = n"
  shows "fold (\<lambda>pbb (ndom, has_pred).
            case idx pbb of
              None \<Rightarrow> (ndom, has_pred)
            | Some pi \<Rightarrow>
                if \<not> has_pred then (mat ! pi, True)
                else (map2 (\<and>) ndom (mat ! pi), True)) ps (row, True)
    = (map (\<lambda>d. row ! d \<and> (\<forall>p \<in> set (List.map_filter idx ps). mat ! p ! d)) [0..<n], True)"
  using assms
proof (induction ps arbitrary: row)
  case Nil
  then show ?case by (auto simp: List.map_filter_simps(2) intro: map_nth [symmetric])
next
  case (Cons p ps)
  show ?case
  proof (cases "idx p")
    case None
    with Cons show ?thesis by (simp add: List.map_filter_simps(1))
  next
    case (Some pi)
    then have len: "length (mat ! pi) = n" using Cons.prems(1) by (simp add: List.map_filter_simps(1))
    with Some Cons show ?thesis
      by (simp add: List.map_filter_simps(1))
  qed
qed

lemma dom_row_fold_start:
  assumes "\<forall>q \<in> set (List.map_filter idx ps). length (mat ! q) = n"
  shows "fold (\<lambda>pbb (ndom, has_pred).
            case idx pbb of
              None \<Rightarrow> (ndom, has_pred)
            | Some pi \<Rightarrow>
                if \<not> has_pred then (mat ! pi, True)
                else (map2 (\<and>) ndom (mat ! pi), True)) ps (replicate n True, False)
    = (map (\<lambda>d. \<forall>p \<in> set (List.map_filter idx ps). mat ! p ! d) [0..<n],
       List.map_filter idx ps \<noteq> [])"
  using assms
proof (induction ps)
  case Nil
  then show ?case by (simp add: map_replicate_const List.map_filter_simps(2))
next
  case (Cons p ps)
  show ?case
  proof (cases "idx p")
    case None
    with Cons show ?thesis by (simp add: List.map_filter_simps(1))
  next
    case (Some pi)
    then have "length (mat ! pi) = n" using Cons.prems by (simp add: List.map_filter_simps(1))
    with Some Cons.prems show ?thesis
      using dom_row_fold [of idx ps mat n "mat ! pi"] by (simp add: List.map_filter_simps(1))
  qed
qed

lemma dom_row_nth:
  assumes "square n mat" "bi < n" "d < n"
    and "\<And>p. p \<in> set (List.map_filter idx ps) \<Longrightarrow> p < n"
  shows "length (dom_row ps idx n mat bi) = n"
    and "dom_row ps idx n mat bi ! d \<longleftrightarrow> row_holds (List.map_filter idx ps) mat bi d"
proof -
  have "\<forall>q \<in> set (List.map_filter idx ps). length (mat ! q) = n"
    using assms by (simp add: square_def)
  note eq = dom_row_fold_start [OF this]
  show "length (dom_row ps idx n mat bi) = n"
    by (simp add: dom_row_def eq)
  show "dom_row ps idx n mat bi ! d \<longleftrightarrow> row_holds (List.map_filter idx ps) mat bi d"
    using assms(2,3) by (auto simp: dom_row_def eq row_holds_def nth_list_update)
qed

section \<open>The fixpoint\<close>

text \<open>
  \<open>avoids e P d b\<close>: some path from a root (the entry, or a block with no predecessor) to
  \<open>b\<close> does not go through \<open>d\<close>; all by index.
\<close>

inductive avoids :: "nat \<Rightarrow> (nat \<Rightarrow> nat list) \<Rightarrow> nat \<Rightarrow> nat \<Rightarrow> bool" for e P d where
  at_entry: "e \<noteq> d \<Longrightarrow> avoids e P d e"
| at_root: "P b = [] \<Longrightarrow> b \<noteq> d \<Longrightarrow> avoids e P d b"
| along: "avoids e P d p \<Longrightarrow> p \<in> set (P b) \<Longrightarrow> b \<noteq> d \<Longrightarrow> avoids e P d b"

definition trues :: "nat \<Rightarrow> bool list list \<Rightarrow> (nat \<times> nat) set" where
  "trues n mat = {(b, d). b < n \<and> d < n \<and> mat ! b ! d}"

lemma finite_trues [simp]: "finite (trues n mat)"
  by (rule finite_subset [of _ "{..<n} \<times> {..<n}"]) (auto simp: trues_def)

lemma card_trues: "card (trues n mat) \<le> n * n"
proof -
  have "card (trues n mat) \<le> card ({..<n} \<times> {..<n})"
    by (rule card_mono) (auto simp: trues_def)
  then show ?thesis by simp
qed

text \<open>
  The invariant of the iteration: the entry's row is fixed, every other row contains its own
  transfer (so updates only clear bits), and a cleared bit has a path that avoids the block.
\<close>

definition dom_inv :: "nat \<Rightarrow> nat \<Rightarrow> (nat \<Rightarrow> nat list) \<Rightarrow> bool list list \<Rightarrow> bool" where
  "dom_inv n e P mat \<longleftrightarrow>
     square n mat
     \<and> (\<forall>d < n. mat ! e ! d \<longleftrightarrow> d = e)
     \<and> (\<forall>b < n. b \<noteq> e \<longrightarrow> (\<forall>d < n. row_holds (P b) mat b d \<longrightarrow> mat ! b ! d))
     \<and> (\<forall>b < n. \<forall>d < n. \<not> mat ! b ! d \<longrightarrow> avoids e P d b)"

lemma dom_inv_init:
  assumes "e < n" "\<And>b p. b < n \<Longrightarrow> p \<in> set (P b) \<Longrightarrow> p < n"
  shows "dom_inv n e P (dom_init n e)"
  using assms
  by (auto simp: dom_inv_def square_def dom_init_def nth_list_update split: if_splits
      intro: at_entry)

text \<open>
  From here on \<open>bs\<close> is a duplicate-free block list and \<open>P\<close> its predecessor indices.
\<close>

lemma pred_idx_bound:
  "distinct bs \<Longrightarrow> p \<in> set (pred_idx bs preds b) \<Longrightarrow> p < length bs"
  by (auto simp: pred_idx_def List.map_filter_def index_of_nth index_of_Some_iff)

definition row_at :: "nat list \<Rightarrow> nat list list \<Rightarrow> bool list list \<Rightarrow> nat \<Rightarrow> bool list" where
  "row_at bs preds mat b = dom_row (preds ! (bs ! b)) (build_index_of bs) (length bs) mat b"

lemma row_at_nth:
  assumes "distinct bs" "square (length bs) mat" "b < length bs"
  shows "length (row_at bs preds mat b) = length bs"
    and "d < length bs \<Longrightarrow> row_at bs preds mat b ! d \<longleftrightarrow> row_holds (pred_idx bs preds b) mat b d"
  using dom_row_nth [OF assms(2,3), where idx = "build_index_of bs" and ps = "preds ! (bs ! b)"]
    pred_idx_bound [OF assms(1), of _ preds b] assms(3) by (auto simp: row_at_def pred_idx_def)

lemma row_update:
  assumes ds: "distinct bs" and e: "e < length bs"
    and inv: "dom_inv (length bs) e (pred_idx bs preds) mat" and b: "b < length bs" "b \<noteq> e"
    and r: "r = row_at bs preds mat b"
  shows "dom_inv (length bs) e (pred_idx bs preds) (mat[b := r])"
    and "trues (length bs) (mat[b := r]) \<subseteq> trues (length bs) mat"
    and "r \<noteq> mat ! b \<Longrightarrow> trues (length bs) (mat[b := r]) \<subset> trues (length bs) mat"
proof -
  let ?n = "length bs" and ?P = "pred_idx bs preds"
  have sq: "square ?n mat" using inv by (simp add: dom_inv_def)
  then have len: "length mat = ?n" by (simp add: square_def)
  note rn = row_at_nth [OF ds sq b(1), where preds = preds, folded r]
  have nth: "mat[b := r] ! i ! d = (if i = b then row_holds (?P b) mat b d else mat ! i ! d)"
    if "i < ?n" "d < ?n" for i d
    using that len b rn by (simp add: nth_list_update)
  have le: "mat[b := r] ! i ! d \<Longrightarrow> mat ! i ! d" if "i < ?n" "d < ?n" for i d
    using nth [OF that] inv b that by (auto simp: dom_inv_def split: if_splits)
  have mono: "row_holds (?P i) (mat[b := r]) i d \<Longrightarrow> row_holds (?P i) mat i d"
    if "i < ?n" "d < ?n" for i d
    using le [OF _ that(2)] pred_idx_bound [OF ds, of _ preds i] by (auto simp: row_holds_def)
  have "square ?n (mat[b := r])"
    using sq rn(1) len b(1) by (auto simp: square_def nth_list_update)
  moreover have "mat[b := r] ! e ! d \<longleftrightarrow> d = e" if "d < ?n" for d
    using inv that b e by (simp add: dom_inv_def)
  moreover have "mat[b := r] ! i ! d"
    if "i < ?n" "i \<noteq> e" "d < ?n" "row_holds (?P i) (mat[b := r]) i d" for i d
    using mono [OF that(1,3,4)] nth [OF that(1,3)] inv that by (auto simp: dom_inv_def)
  moreover have "avoids e ?P d i"
    if "i < ?n" "d < ?n" "\<not> mat[b := r] ! i ! d" for i d
  proof (cases "i = b")
    case False
    with that nth [OF that(1,2)] inv show ?thesis by (simp add: dom_inv_def)
  next
    case True
    with that nth [OF that(1,2)] have "\<not> row_holds (?P b) mat b d" by simp
    then consider "d \<noteq> b" "?P b = []" | p where "d \<noteq> b" "p \<in> set (?P b)" "\<not> mat ! p ! d"
      by (auto simp: row_holds_def)
    then show ?thesis
    proof cases
      case 1
      with True show ?thesis by (auto intro: at_root)
    next
      case 2
      with pred_idx_bound [OF ds] inv that(2) have "avoids e ?P d p" by (auto simp: dom_inv_def)
      with 2 True show ?thesis by (auto intro: along)
    qed
  qed
  ultimately show "dom_inv ?n e ?P (mat[b := r])"
    by (simp add: dom_inv_def)
  show sub: "trues ?n (mat[b := r]) \<subseteq> trues ?n mat"
    using le by (auto simp: trues_def)
  assume "r \<noteq> mat ! b"
  then obtain d where d: "d < ?n" "r ! d \<noteq> mat ! b ! d"
    using rn(1) sq b(1) by (auto simp: square_def list_eq_iff_nth_eq)
  with nth [OF b(1) d(1)] le [OF b(1) d(1)] rn(2) [OF d(1)]
  have "(b, d) \<in> trues ?n mat - trues ?n (mat[b := r])"
    using b(1) by (auto simp: trues_def)
  with sub show "trues ?n (mat[b := r]) \<subset> trues ?n mat" by blast
qed

definition visit_row ::
  "nat list \<Rightarrow> nat list list \<Rightarrow> nat \<Rightarrow> nat \<Rightarrow> bool list list \<times> bool \<Rightarrow> bool list list \<times> bool" where
  "visit_row bs preds e = (\<lambda>bi (mat, changed).
      if bi = e then (mat, changed)
      else if row_at bs preds mat bi \<noteq> mat ! bi then (mat[bi := row_at bs preds mat bi], True)
      else (mat, changed))"

lemma dom_sweep_visits:
  "dom_sweep bs preds (build_index_of bs) e mat = fold (visit_row bs preds e) [0..<length bs] (mat, False)"
  unfolding dom_sweep_def visit_row_def row_at_def Let_def by (rule refl)

lemma sweep_visits:
  assumes "distinct bs" "e < length bs"
    "dom_inv (length bs) e (pred_idx bs preds) mat" "set xs \<subseteq> {..<length bs}"
    "fold (visit_row bs preds e) xs (mat, ch) = (mat', ch')"
  shows "dom_inv (length bs) e (pred_idx bs preds) mat'
    \<and> trues (length bs) mat' \<subseteq> trues (length bs) mat
    \<and> (ch' \<longrightarrow> ch \<or> trues (length bs) mat' \<subset> trues (length bs) mat)
    \<and> (\<not> ch' \<longrightarrow> mat' = mat \<and> \<not> ch
         \<and> (\<forall>b \<in> set xs. b \<noteq> e \<longrightarrow> row_at bs preds mat b = mat ! b))"
  using assms(3-)
proof (induction xs arbitrary: mat ch)
  case (Cons x xs)
  show ?case
  proof (cases "x = e \<or> row_at bs preds mat x = mat ! x")
    case True
    then have "visit_row bs preds e x (mat, ch) = (mat, ch)" by (auto simp: visit_row_def)
    with Cons.IH [OF Cons.prems(1), of ch] Cons.prems True show ?thesis by auto
  next
    case False
    then have v: "visit_row bs preds e x (mat, ch) = (mat[x := row_at bs preds mat x], True)"
      by (auto simp: visit_row_def)
    have x: "x < length bs" "x \<noteq> e" using Cons.prems False by auto
    note u = row_update [OF assms(1,2) Cons.prems(1) x refl]
    from Cons.IH [OF u(1), of True] Cons.prems v u(2,3) False show ?thesis by auto
  qed
qed auto

text \<open>\<open>n\<^sup>2\<close> changing passes would clear every bit there is, so the loop has left by its test.\<close>

lemma dom_fix_stable:
  assumes "distinct bs" "e < length bs"
    "dom_inv (length bs) e (pred_idx bs preds) mat" "card (trues (length bs) mat) < fuel"
    "mat' = dom_fix fuel bs preds (build_index_of bs) e mat"
  shows "dom_inv (length bs) e (pred_idx bs preds) mat'
    \<and> (\<forall>b < length bs. b \<noteq> e \<longrightarrow> row_at bs preds mat' b = mat' ! b)"
  using assms(3-)
proof (induction fuel arbitrary: mat)
  case (Suc fuel)
  obtain mat1 ch where sw: "dom_sweep bs preds (build_index_of bs) e mat = (mat1, ch)" by fastforce
  have "set [0..<length bs] \<subseteq> {..<length bs}" by auto
  note s = sweep_visits [OF assms(1,2) Suc.prems(1) this sw [unfolded dom_sweep_visits]]
  show ?case
  proof (cases ch)
    case True
    with s have "trues (length bs) mat1 \<subset> trues (length bs) mat"
      "dom_inv (length bs) e (pred_idx bs preds) mat1" by auto
    moreover from this(1) have "card (trues (length bs) mat1) < card (trues (length bs) mat)"
      by (rule psubset_card_mono [OF finite_trues])
    ultimately show ?thesis
      using Suc.IH [of mat1] Suc.prems(2,3) True sw by simp
  next
    case False
    with s Suc.prems(1,3) sw show ?thesis by auto
  qed
qed simp

lemma stable_avoids:
  assumes "distinct bs" "dom_inv (length bs) e (pred_idx bs preds) mat"
    "\<And>b. b < length bs \<Longrightarrow> b \<noteq> e \<Longrightarrow> row_at bs preds mat b = mat ! b"
    and "avoids e (pred_idx bs preds) d b" "d < length bs" "b < length bs"
  shows "\<not> mat ! b ! d"
  using assms(4-)
proof (induction rule: avoids.induct)
  case at_entry
  with assms(2) show ?case by (auto simp: dom_inv_def)
next
  case (at_root b)
  then show ?case
    using assms(2) assms(3) [of b] row_at_nth(2) [OF assms(1), where mat = mat and b = b and d = d and preds = preds]
    by (cases "b = e") (auto simp: dom_inv_def row_holds_def)
next
  case (along p b)
  then have "\<not> mat ! p ! d" using pred_idx_bound [OF assms(1)] by blast
  with along show ?case
    using assms(2) assms(3) [of b] row_at_nth(2) [OF assms(1), where mat = mat and b = b and d = d and preds = preds]
    by (cases "b = e") (auto simp: dom_inv_def row_holds_def)
qed

lemma dom_fix_correct:
  assumes "distinct bs" "e < length bs" "b < length bs" "d < length bs"
  shows "dom_fix (Suc (length bs * length bs)) bs preds (build_index_of bs) e (dom_init (length bs) e) ! b ! d
    \<longleftrightarrow> \<not> avoids e (pred_idx bs preds) d b"
proof -
  let ?n = "length bs"
  define mat where
    "mat = dom_fix (Suc (?n * ?n)) bs preds (build_index_of bs) e (dom_init ?n e)"
  have "dom_inv ?n e (pred_idx bs preds) (dom_init ?n e)"
    using assms pred_idx_bound [OF assms(1)] by (intro dom_inv_init) auto
  then have "dom_inv ?n e (pred_idx bs preds) mat
      \<and> (\<forall>b < ?n. b \<noteq> e \<longrightarrow> row_at bs preds mat b = mat ! b)"
    using assms card_trues [of ?n] by (intro dom_fix_stable [OF assms(1,2) _ _ mat_def]) (auto simp: less_Suc_eq_le)
  then have "mat ! b ! d \<longleftrightarrow> \<not> avoids e (pred_idx bs preds) d b"
    using stable_avoids [OF assms(1), of e preds mat d b] assms by (auto simp: dom_inv_def)
  then show ?thesis by (simp add: mat_def)
qed

section \<open>Dominance over paths\<close>

text \<open>
  A block is a root if it is the entry or has no predecessor in the function. The rows of the
  matrix are dominance over all paths from a root; where every block is reachable from the
  entry, the entry is the only root, and this is the usual notion.
\<close>

definition dom_root :: "omodule \<Rightarrow> ofunc \<Rightarrow> nat \<Rightarrow> bool" where
  "dom_root m f b \<longleftrightarrow> b = fentry f \<or> (\<forall>p. \<not> cfg_edge m f p b)"

definition root_path :: "omodule \<Rightarrow> ofunc \<Rightarrow> nat list \<Rightarrow> nat \<Rightarrow> bool" where
  "root_path m f \<pi> b \<longleftrightarrow>
     \<pi> \<noteq> [] \<and> dom_root m f (hd \<pi>) \<and> last \<pi> = b \<and> set \<pi> \<subseteq> set (fblocks f)
     \<and> successively (cfg_edge m f) \<pi>"

text \<open>The block list of a function that passed the clean-up: in range, without duplicates.\<close>

definition block_list_ok :: "omodule \<Rightarrow> ofunc \<Rightarrow> bool" where
  "block_list_ok m f \<longleftrightarrow>
     distinct (fblocks f) \<and> (\<forall>b \<in> set (fblocks f). valid_id (blocks m) b)
     \<and> fentry f \<in> set (fblocks f)"

lemma block_list_okD:
  assumes "block_list_ok m f"
  shows "distinct (fblocks f)" "b \<in> set (fblocks f) \<Longrightarrow> valid_id (blocks m) b"
    "b \<in> set (fblocks f) \<Longrightarrow> b < length (blocks m)" "fentry f \<in> set (fblocks f)"
  using assms by (auto simp: block_list_ok_def valid_id_def)

lemma pred_idx_edges:
  assumes ok: "block_list_ok m f" and b: "b < length (fblocks f)"
  shows "p \<in> set (pred_idx (fblocks f) (build_preds m f) b) \<longleftrightarrow>
    p < length (fblocks f) \<and> cfg_edge m f (fblocks f ! p) (fblocks f ! b)"
proof -
  have "fblocks f ! b < length (blocks m)" using block_list_okD(3) [OF ok] b by auto
  then show ?thesis
    using index_of_Some_iff [OF block_list_okD(1) [OF ok]]
    by (force simp: pred_idx_def List.map_filter_def set_build_preds
        index_of_nth [OF block_list_okD(1) [OF ok]] image_iff)
qed

lemma avoids_iff_path:
  assumes ok: "block_list_ok m f" and e: "e < length (fblocks f)" "fblocks f ! e = fentry f"
    and d: "d < length (fblocks f)" and b: "b < length (fblocks f)"
  shows "avoids e (pred_idx (fblocks f) (build_preds m f)) d b \<longleftrightarrow>
    (\<exists>\<pi>. root_path m f \<pi> (fblocks f ! b) \<and> fblocks f ! d \<notin> set \<pi>)" (is "?A \<longleftrightarrow> ?B")
proof
  let ?bs = "fblocks f"
  have inj: "i < length ?bs \<Longrightarrow> j < length ?bs \<Longrightarrow> ?bs ! i = ?bs ! j \<longleftrightarrow> i = j" for i j
    using block_list_okD(1) [OF ok] by (simp add: nth_eq_iff_index_eq)
  assume ?A
  then show ?B
    using b
  proof (induction rule: avoids.induct)
    case at_entry
    then have "root_path m f [?bs ! e] (?bs ! e)"
      using e block_list_okD(4) [OF ok] by (auto simp: root_path_def dom_root_def)
    with at_entry show ?case using inj [OF e(1) d] by (intro exI [of _ "[?bs ! e]"]) auto
  next
    case (at_root b)
    have "\<not> cfg_edge m f p (?bs ! b)" for p
    proof
      assume c: "cfg_edge m f p (?bs ! b)"
      then obtain i where "i < length ?bs" "?bs ! i = p"
        by (auto simp: cfg_edge_def owned_by_def in_set_conv_nth)
      with c at_root pred_idx_edges [OF ok at_root(3), of i] show False by auto
    qed
    with at_root have "root_path m f [?bs ! b] (?bs ! b)"
      by (auto simp: root_path_def dom_root_def)
    with at_root show ?case using inj [OF at_root(3) d] by (intro exI [of _ "[?bs ! b]"]) auto
  next
    case (along p b)
    then have pb: "p < length ?bs" "cfg_edge m f (?bs ! p) (?bs ! b)"
      using pred_idx_edges [OF ok along(5)] by auto
    with along obtain \<pi> where \<pi>: "root_path m f \<pi> (?bs ! p)" "?bs ! d \<notin> set \<pi>" by auto
    with pb along(5) have "root_path m f (\<pi> @ [?bs ! b]) (?bs ! b)"
      by (auto simp: root_path_def successively_append_iff)
    with \<pi>(2) along inj [OF along(5) d] show ?case by (intro exI [of _ "\<pi> @ [?bs ! b]"]) auto
  qed
next
  let ?bs = "fblocks f"
  assume ?B
  then obtain \<pi> where "root_path m f \<pi> (?bs ! b)" "?bs ! d \<notin> set \<pi>" by blast
  then show ?A
    using b
  proof (induction \<pi> arbitrary: b rule: rev_induct)
    case Nil
    then show ?case by (simp add: root_path_def)
  next
    case (snoc x \<pi>)
    then have x: "x = ?bs ! b" "b \<noteq> d" by (auto simp: root_path_def)
    show ?case
    proof (cases "\<pi> = []")
      case True
      with snoc.prems x have "dom_root m f (?bs ! b)" by (simp add: root_path_def)
      then consider "?bs ! b = fentry f" | "\<forall>p. \<not> cfg_edge m f p (?bs ! b)"
        by (auto simp: dom_root_def)
      then show ?thesis
      proof cases
        case 1
        then have "b = e"
          using e snoc.prems(3) block_list_okD(1) [OF ok] by (metis nth_eq_iff_index_eq)
        with x show ?thesis by (auto intro: at_entry)
      next
        case 2
        then have "p \<notin> set (pred_idx ?bs (build_preds m f) b)" for p
          using pred_idx_edges [OF ok snoc.prems(3), of p] by simp
        then have "pred_idx ?bs (build_preds m f) b = []"
          by (cases "pred_idx ?bs (build_preds m f) b") auto
        with x show ?thesis by (auto intro: at_root)
      qed
    next
      case False
      with snoc.prems have "last \<pi> \<in> set ?bs"
        using last_in_set [OF False] by (auto simp: root_path_def)
      then obtain p where p: "p < length ?bs" "last \<pi> = ?bs ! p"
        by (auto simp: in_set_conv_nth)
      with False snoc.prems x have "root_path m f \<pi> (?bs ! p)" "cfg_edge m f (?bs ! p) (?bs ! b)"
        by (auto simp: root_path_def successively_append_iff)
      moreover from this(1) snoc p have "avoids e (pred_idx ?bs (build_preds m f)) d p" by auto
      ultimately show ?thesis
        using x p pred_idx_edges [OF ok snoc.prems(3)] by (auto intro: along)
    qed
  qed
qed

lemma dominates_iff_paths:
  assumes ok: "block_list_ok m f" and ab: "a \<in> set (fblocks f)" "b \<in> set (fblocks f)"
  shows "dominates (build_dom_info m f) a b \<longleftrightarrow> (\<forall>\<pi>. root_path m f \<pi> b \<longrightarrow> a \<in> set \<pi>)"
proof -
  let ?bs = "fblocks f"
  note ds = block_list_okD(1) [OF ok]
  obtain e where e: "e < length ?bs" "?bs ! e = fentry f"
    using block_list_okD(4) [OF ok] by (auto simp: in_set_conv_nth)
  obtain ia ib where i: "ia < length ?bs" "?bs ! ia = a" "ib < length ?bs" "?bs ! ib = b"
    using ab by (auto simp: in_set_conv_nth)
  have "dominates (build_dom_info m f) a b \<longleftrightarrow>
      dom_fix (Suc (length ?bs * length ?bs)) ?bs (build_preds m f) (build_index_of ?bs) e
        (dom_init (length ?bs) e) ! ib ! ia"
    using index_of_nth [OF ds e(1)] index_of_nth [OF ds i(1)] index_of_nth [OF ds i(3)] e(2) i(2,4)
    by (simp add: dominates_def build_dom_info_def Let_def)
  also have "\<dots> \<longleftrightarrow> \<not> avoids e (pred_idx ?bs (build_preds m f)) ia ib"
    by (rule dom_fix_correct [OF ds e(1) i(3,1)])
  also have "\<dots> \<longleftrightarrow> (\<forall>\<pi>. root_path m f \<pi> b \<longrightarrow> a \<in> set \<pi>)"
    using avoids_iff_path [OF ok e i(1,3)] i by auto
  finally show ?thesis .
qed

section \<open>Dominator links\<close>

text \<open>
  \<open>find_idom\<close> keeps a candidate that no other strict dominator dominates. That is the
  dominator nearest to the entry: in a function whose blocks are all reachable from the
  entry, every link goes to the entry.
\<close>

definition all_reachable :: "omodule \<Rightarrow> ofunc \<Rightarrow> bool" where
  "all_reachable m f \<longleftrightarrow> (\<forall>b \<in> set (fblocks f). (cfg_edge m f)\<^sup>*\<^sup>* (fentry f) b)"

lemma only_root:
  assumes "all_reachable m f" "b \<in> set (fblocks f)" "b \<noteq> fentry f"
  shows "\<exists>p. cfg_edge m f p b"
  using assms by (auto simp: all_reachable_def elim: rtranclp.cases)

lemma entry_in_paths:
  assumes "all_reachable m f" "root_path m f \<pi> b"
  shows "fentry f \<in> set \<pi>"
proof -
  have "hd \<pi> \<in> set \<pi>" "dom_root m f (hd \<pi>)" "set \<pi> \<subseteq> set (fblocks f)"
    using assms(2) by (auto simp: root_path_def)
  then show ?thesis
    using only_root [OF assms(1), of "hd \<pi>"] by (metis dom_root_def subsetD)
qed

lemma find_upt_Some:
  "Q e \<Longrightarrow> e < n \<Longrightarrow> (\<And>d. d < e \<Longrightarrow> \<not> Q d) \<Longrightarrow> find Q [0..<n] = Some e"
  by (auto simp: find_Some_iff intro!: exI [of _ e])

lemma find_idom_is_entry:
  assumes ok: "block_list_ok m f" and r: "all_reachable m f"
    and e: "e < length (fblocks f)" "fblocks f ! e = fentry f"
    and bi: "bi < length (fblocks f)" "bi \<noteq> e"
  shows "di_idom (build_dom_info m f) ! bi = int e"
proof -
  let ?bs = "fblocks f" and ?n = "length (fblocks f)"
  let ?mat = "dom_fix (Suc (?n * ?n)) ?bs (build_preds m f) (build_index_of ?bs) e (dom_init ?n e)"
  note ds = block_list_okD(1) [OF ok]
  have mat: "?mat ! b ! d \<longleftrightarrow> \<not> avoids e (pred_idx ?bs (build_preds m f)) d b"
    if "b < ?n" "d < ?n" for b d
    by (rule dom_fix_correct [OF ds e(1) that])
  have below: "?mat ! b ! e" if "b < ?n" for b
    using mat [OF that e(1)] avoids_iff_path [OF ok e e(1) that] entry_in_paths [OF r] e(2) by auto
  have top: "?mat ! e ! d \<longleftrightarrow> d = e" if "d < ?n" for d
    using mat [OF e(1) that] below [OF e(1)] by (auto intro: at_entry)
  have "find (\<lambda>d. d \<noteq> bi \<and> ?mat ! bi ! d
      \<and> \<not> list_ex (\<lambda>o'. o' \<noteq> bi \<and> o' \<noteq> d \<and> ?mat ! bi ! o' \<and> ?mat ! d ! o') [0..<?n]) [0..<?n] = Some e"
  proof (rule find_upt_Some [OF _ e(1)])
    show "e \<noteq> bi \<and> ?mat ! bi ! e
        \<and> \<not> list_ex (\<lambda>o'. o' \<noteq> bi \<and> o' \<noteq> e \<and> ?mat ! bi ! o' \<and> ?mat ! e ! o') [0..<?n]"
      using bi below [OF bi(1)] top by (auto simp: list_ex_iff)
  next
    fix d assume "d < e"
    then show "\<not> (d \<noteq> bi \<and> ?mat ! bi ! d
        \<and> \<not> list_ex (\<lambda>o'. o' \<noteq> bi \<and> o' \<noteq> d \<and> ?mat ! bi ! o' \<and> ?mat ! d ! o') [0..<?n])"
      using below [OF bi(1)] below [of d] bi e by (force simp: list_ex_iff)
  qed
  then have "find_idom ?n ?mat e bi = int e" using bi by (simp add: find_idom_def)
  then show ?thesis
    using index_of_nth [OF ds e(1)] bi e(2) by (simp add: build_dom_info_def Let_def)
qed

section \<open>Natural loops\<close>

record loop_desc =
  lp_header :: nat
  lp_blocks :: "nat set"
  lp_latches :: "nat list"
  lp_preheader :: nat

text \<open>
  \<open>collect_loops_\<close>: for every edge to a dominating block, in block order, the latch is added
  and the body is grown backwards to the header. \<open>loop.blocks\<close> is a hash set whose order
  nothing depends on.
\<close>

definition loop_push :: "nat \<Rightarrow> nat \<Rightarrow> nat set \<times> nat list \<Rightarrow> nat set \<times> nat list" where
  "loop_push header p = (\<lambda>(body, stack).
     if p \<in> body then (body, stack)
     else (insert p body, if p \<noteq> header then p # stack else stack))"

text \<open>One unit of fuel per popped block; each block is pushed at most once.\<close>

fun loop_grow :: "nat \<Rightarrow> nat list list \<Rightarrow> nat \<Rightarrow> nat set \<Rightarrow> nat list \<Rightarrow> nat set" where
  "loop_grow fuel preds header body [] = body"
| "loop_grow 0 preds header body (x # stack) = body"
| "loop_grow (Suc fuel) preds header body (x # stack) =
     (case fold (loop_push header) (preds ! x) (body, stack) of
        (body', stack') \<Rightarrow> loop_grow fuel preds header body' stack')"

definition loop_add_latch :: "nat list list \<Rightarrow> nat \<Rightarrow> loop_desc \<Rightarrow> loop_desc" where
  "loop_add_latch preds pred l =
     (let latches = (if pred \<in> set (lp_latches l) then lp_latches l else lp_latches l @ [pred]);
          body = lp_blocks l
      in l\<lparr>lp_latches := latches,
           lp_blocks := (if pred \<in> body then body
                         else loop_grow (Suc (length preds)) preds (lp_header l) (insert pred body) [pred])\<rparr>)"

fun loop_at :: "nat list list \<Rightarrow> nat \<Rightarrow> nat \<Rightarrow> loop_desc list \<Rightarrow> loop_desc list" where
  "loop_at preds pred succ [] =
     [loop_add_latch preds pred
       \<lparr>lp_header = succ, lp_blocks = {succ}, lp_latches = [], lp_preheader = kInvalidId\<rparr>]"
| "loop_at preds pred succ (l # ls) =
     (if lp_header l = succ then loop_add_latch preds pred l # ls
      else l # loop_at preds pred succ ls)"

definition collect_loops :: "omodule \<Rightarrow> ofunc \<Rightarrow> dom_info \<Rightarrow> loop_desc list" where
  "collect_loops m f di =
     fold (\<lambda>pred out.
         if pred = kInvalidId \<or> length (blocks m) \<le> pred then out
         else fold (\<lambda>succ out.
             if \<not> dominates di succ pred then out else loop_at (di_preds di) pred succ out)
           (di_succs di ! pred) out)
       (fblocks f) []"

definition outside_preds :: "dom_info \<Rightarrow> loop_desc \<Rightarrow> nat list" where
  "outside_preds di l = filter (\<lambda>p. p \<notin> lp_blocks l) (di_preds di ! lp_header l)"

section \<open>Properties\<close>

lemma ex_chain_ok: "block_list_ok ex_cfg ex_chain"
  by (auto simp: block_list_ok_def ex_defs valid_id_def)

lemma ex_chain_reachable: "all_reachable ex_cfg ex_chain"
proof -
  have e: "cfg_edge ex_cfg ex_chain 0 1" "cfg_edge ex_cfg ex_chain 1 2" by code_simp+
  then have "(cfg_edge ex_cfg ex_chain)\<^sup>*\<^sup>* 0 2"
    by (meson r_into_rtranclp rtranclp.rtrancl_into_rtrancl)
  with e show ?thesis by (auto simp: all_reachable_def ex_chain_def mk_func_def)
qed

text \<open>C2: the dominator matrix is dominance: the iteration ends within its bound, and the
  answer for two blocks of the function is that every path from a root of the graph to the
  second goes through the first.\<close>
theorem dominates_iff_all_root_paths:
  assumes "block_list_ok m f" "a \<in> set (fblocks f)" "b \<in> set (fblocks f)"
  shows "dominates (build_dom_info m f) a b \<longleftrightarrow> (\<forall>\<pi>. root_path m f \<pi> b \<longrightarrow> a \<in> set \<pi>)"
  using assms by (rule dominates_iff_paths)

lemma dominates_iff_all_root_paths_witness:
  "dominates (build_dom_info ex_cfg ex_chain) 1 2
   \<and> (\<exists>\<pi>. root_path ex_cfg ex_chain \<pi> 1 \<and> 2 \<notin> set \<pi>)"
proof -
  have "2 \<in> set (fblocks ex_chain)" "1 \<in> set (fblocks ex_chain)"
    by (simp_all add: ex_chain_def mk_func_def)
  from dominates_iff_all_root_paths [OF ex_chain_ok this]
  have "\<not> dominates (build_dom_info ex_cfg ex_chain) 2 1 \<Longrightarrow>
      \<exists>\<pi>. root_path ex_cfg ex_chain \<pi> 1 \<and> 2 \<notin> set \<pi>" by blast
  moreover have "\<not> dominates (build_dom_info ex_cfg ex_chain) 2 1"
    "dominates (build_dom_info ex_cfg ex_chain) 1 2" by code_simp+
  ultimately show ?thesis by blast
qed

text \<open>C3: where every block is reachable from the entry, the dominator link of every other block
  is the index of the entry block, also for a block with nearer strict dominators.\<close>
theorem idom_is_always_entry:
  assumes "block_list_ok m f" "all_reachable m f"
    and "e < length (fblocks f)" "fblocks f ! e = fentry f" "bi < length (fblocks f)" "bi \<noteq> e"
  shows "di_idom (build_dom_info m f) ! bi = int e"
  using assms by (rule find_idom_is_entry)

lemma idom_is_always_entry_witness:
  "di_idom (build_dom_info ex_cfg ex_chain) ! 2 = 0
   \<and> dominates (build_dom_info ex_cfg ex_chain) 1 2
   \<and> dominates (build_dom_info ex_cfg ex_chain) 0 1"
proof -
  have "di_idom (build_dom_info ex_cfg ex_chain) ! 2 = int 0"
    by (rule idom_is_always_entry [OF ex_chain_ok ex_chain_reachable])
      (simp_all add: ex_chain_def mk_func_def)
  moreover have "dominates (build_dom_info ex_cfg ex_chain) 1 2"
    "dominates (build_dom_info ex_cfg ex_chain) 0 1" by code_simp+
  ultimately show ?thesis by simp
qed

end
