(* ===== verification/OIR_Sem.thy ===== *)
theory OIR_Sem
  imports OIR_CFG
begin

text \<open>
  The abstract specification the passes are measured against: what a function of a module
  computes, for any interpretation of its instructions. Each instruction is interpreted by
  \<open>ieval\<close>, a function of its opcode with the operand ids blanked out, of its operand
  values and of the machine state; a block runs its instructions in order, its terminator
  chooses an edge, and the edge binds the target's parameters. A run stays inside the block
  list of its function, as code generation from that list does.
\<close>

section \<open>Instructions\<close>

fun map_operands :: "(nat \<Rightarrow> nat) \<Rightarrow> inst_data \<Rightarrow> inst_data" where
  "map_operands g (InstUnary op src) = InstUnary op (g src)"
| "map_operands g (InstBinOp op lhs rhs) = InstBinOp op (g lhs) (g rhs)"
| "map_operands g (InstCast k to src) = InstCast k to (g src)"
| "map_operands g (InstCall c) =
     InstCall (c\<lparr>call_callee := g (call_callee c), call_args := map g (call_args c)\<rparr>)"
| "map_operands g (InstIndex base index) = InstIndex (g base) (g index)"
| "map_operands g (InstArrayLen base) = InstArrayLen (g base)"
| "map_operands g (InstSliceView base lo hi incl) = InstSliceView (g base) (g lo) (g hi) incl"
| "map_operands g (InstField base fld bf) = InstField (g base) fld bf"
| "map_operands g (InstActorCommit ctx) = InstActorCommit (g ctx)"
| "map_operands g (InstActorRecast ctx) = InstActorRecast (g ctx)"
| "map_operands g (InstDrop slot owner) = InstDrop (g slot) owner"
| "map_operands g (InstLoad slot) = InstLoad (g slot)"
| "map_operands g (InstStore slot v) = InstStore (g slot) (g v)"
| "map_operands g d = d"

definition opcode :: "inst_data \<Rightarrow> inst_data" where
  "opcode d = map_operands (\<lambda>_. 0) d"

type_synonym ('v, 's) interp = "inst_data \<Rightarrow> 'v list \<Rightarrow> 's \<Rightarrow> ('v \<times> 's) option"

definition exec_inst ::
  "('v, 's) interp \<Rightarrow> oinst \<Rightarrow> (nat \<Rightarrow> 'v) \<times> 's \<Rightarrow> ((nat \<Rightarrow> 'v) \<times> 's) option" where
  "exec_inst ieval i = (\<lambda>(env, s).
     map_option (\<lambda>(v, s'). (if iresult i = kInvalidId then env else env(iresult i := v), s'))
       (ieval (opcode (idata i)) (map env (data_operands (idata i))) s))"

fun exec_insts ::
  "('v, 's) interp \<Rightarrow> oinst list \<Rightarrow> (nat \<Rightarrow> 'v) \<times> 's \<Rightarrow> ((nat \<Rightarrow> 'v) \<times> 's) option" where
  "exec_insts ieval [] st = Some st"
| "exec_insts ieval (i # is) st =
     (case exec_inst ieval i st of None \<Rightarrow> None | Some st' \<Rightarrow> exec_insts ieval is st')"

section \<open>Blocks and runs\<close>

definition block_insts :: "omodule \<Rightarrow> nat \<Rightarrow> oinst list" where
  "block_insts m b = map (\<lambda>iid. insts m ! iid) (binsts (blocks m ! b))"

definition bind_params :: "nat list \<Rightarrow> 'v list \<Rightarrow> (nat \<Rightarrow> 'v) \<Rightarrow> nat \<Rightarrow> 'v" where
  "bind_params ps vs env = fold (\<lambda>(p, v) e. e(p := v)) (zip ps vs) env"

fun next_edge :: "('v \<Rightarrow> bool) \<Rightarrow> (nat \<Rightarrow> 'v) \<Rightarrow> terminator \<Rightarrow> (nat \<times> nat list) option" where
  "next_edge truth env (TermBr t args) = Some (t, args)"
| "next_edge truth env (TermCondBr c tb targs eb eargs) =
     (if truth (env c) then Some (tb, targs) else Some (eb, eargs))"
| "next_edge truth env (TermRet has v) = None"

inductive runs ::
  "('v, 's) interp \<Rightarrow> ('v \<Rightarrow> bool) \<Rightarrow> omodule \<Rightarrow> ofunc \<Rightarrow>
   nat \<Rightarrow> (nat \<Rightarrow> 'v) \<Rightarrow> 's \<Rightarrow> 'v option \<times> 's \<Rightarrow> bool"
  for ieval truth m f where
  ret: "owned_by m f b \<Longrightarrow> bhas_term (blocks m ! b) \<Longrightarrow>
     exec_insts ieval (block_insts m b) (env, s) = Some (env', s') \<Longrightarrow>
     bterm (blocks m ! b) = TermRet has v \<Longrightarrow>
     runs ieval truth m f b env s (if has then Some (env' v) else None, s')"
| jump: "owned_by m f b \<Longrightarrow> bhas_term (blocks m ! b) \<Longrightarrow>
     exec_insts ieval (block_insts m b) (env, s) = Some (env', s') \<Longrightarrow>
     next_edge truth env' (bterm (blocks m ! b)) = Some (t, args) \<Longrightarrow>
     runs ieval truth m f t (bind_params (bparams (blocks m ! t)) (map env' args) env') s' r \<Longrightarrow>
     runs ieval truth m f b env s r"

inductive_cases runsE: "runs ieval truth m f b env s r"

lemma runs_owned: "runs ieval truth m f b env s r \<Longrightarrow> owned_by m f b"
  by (auto elim: runs.cases)

text \<open>A run is determined by the module, the entry and the starting state.\<close>

lemma runs_deterministic:
  "runs ieval truth m f b env s r \<Longrightarrow> runs ieval truth m f b env s r' \<Longrightarrow> r = r'"
proof (induction arbitrary: r' rule: runs.induct)
  case (ret b env s env' s' has v)
  from ret.prems show ?case by (rule runsE) (use ret in auto)
next
  case (jump b env s env' s' t args r)
  note hyps = jump.hyps and IH = jump.IH
  show ?case
    using jump.prems
  proof (cases rule: runs.cases)
    case (ret env2 s2 has v)
    with hyps show ?thesis by simp
  next
    case (jump env2 s2 t2 args2)
    with hyps have "env2 = env'" "s2 = s'" "t2 = t" "args2 = args" by simp_all
    with jump(5) show ?thesis by (simp add: IH)
  qed
qed

text \<open>The same by fuel, one unit per block: an interpreter the examples evaluate.\<close>

fun exec_fuel ::
  "nat \<Rightarrow> ('v, 's) interp \<Rightarrow> ('v \<Rightarrow> bool) \<Rightarrow> omodule \<Rightarrow> ofunc \<Rightarrow> nat \<Rightarrow> (nat \<Rightarrow> 'v) \<Rightarrow> 's
   \<Rightarrow> ('v option \<times> 's) option" where
  "exec_fuel 0 ieval truth m f b env s = None"
| "exec_fuel (Suc n) ieval truth m f b env s =
     (if \<not> owned_by m f b \<or> \<not> bhas_term (blocks m ! b) then None
      else case exec_insts ieval (block_insts m b) (env, s) of
        None \<Rightarrow> None
      | Some (env', s') \<Rightarrow>
          (case bterm (blocks m ! b) of
             TermRet has v \<Rightarrow> Some (if has then Some (env' v) else None, s')
           | _ \<Rightarrow>
               (case next_edge truth env' (bterm (blocks m ! b)) of
                  None \<Rightarrow> None
                | Some (t, args) \<Rightarrow>
                    exec_fuel n ieval truth m f t
                      (bind_params (bparams (blocks m ! t)) (map env' args) env') s')))"

lemma exec_fuel_sound:
  "exec_fuel n ieval truth m f b env s = Some r \<Longrightarrow> runs ieval truth m f b env s r"
proof (induction n arbitrary: b env s)
  case (Suc n)
  from Suc.prems obtain env' s' where o: "owned_by m f b" "bhas_term (blocks m ! b)"
    and e: "exec_insts ieval (block_insts m b) (env, s) = Some (env', s')"
    by (auto split: if_splits option.splits)
  show ?case
  proof (cases "bterm (blocks m ! b)")
    case (TermRet has v)
    with Suc.prems o e runs.ret [OF o e TermRet, of truth] show ?thesis by simp
  next
    case (TermBr t args)
    then have nx: "next_edge truth env' (bterm (blocks m ! b)) = Some (t, args)" by simp
    from Suc TermBr o e show ?thesis by (intro runs.jump [OF o e nx]) simp
  next
    case (TermCondBr c tb targs eb eargs)
    obtain t args where nx: "next_edge truth env' (bterm (blocks m ! b)) = Some (t, args)"
      using TermCondBr by (cases "truth (env' c)") auto
    from Suc.prems TermCondBr o e nx have "exec_fuel n ieval truth m f t
        (bind_params (bparams (blocks m ! t)) (map env' args) env') s' = Some r" by simp
    from Suc.IH [OF this] show ?thesis by (rule runs.jump [OF o e nx])
  qed
qed simp

lemma exec_fuel_complete:
  "runs ieval truth m f b env s r \<Longrightarrow> \<exists>n. exec_fuel n ieval truth m f b env s = Some r"
proof (induction rule: runs.induct)
  case (ret b env s env' s' has v)
  then show ?case by (intro exI [of _ 1]) simp
next
  case (jump b env s env' s' t args r)
  then obtain n where n: "exec_fuel n ieval truth m f t
      (bind_params (bparams (blocks m ! t)) (map env' args) env') s' = Some r" by blast
  have "exec_fuel (Suc n) ieval truth m f b env s = Some r"
    using jump.hyps(1-4) n by (cases "bterm (blocks m ! b)") auto
  then show ?case by blast
qed

text \<open>
  Two modules with the same instructions, parameters and edge choices run alike: the
  congruence the clean-up passes go through.
\<close>

lemma runs_mono:
  assumes blocks: "\<And>b. owned_by m f b \<Longrightarrow> Q b \<Longrightarrow> owned_by m' f' b
      \<and> bhas_term (blocks m ! b) = bhas_term (blocks m' ! b)
      \<and> block_insts m b = block_insts m' b \<and> bparams (blocks m ! b) = bparams (blocks m' ! b)
      \<and> (\<forall>env :: nat \<Rightarrow> 'v. next_edge truth env (bterm (blocks m ! b))
           = next_edge truth env (bterm (blocks m' ! b)))
      \<and> (\<forall>has v. bterm (blocks m ! b) = TermRet has v \<longrightarrow> bterm (blocks m' ! b) = TermRet has v)"
    and closed: "\<And>b t. Q b \<Longrightarrow> raw_edge m b t \<Longrightarrow> Q t"
    and r: "runs ieval truth m f b (env :: nat \<Rightarrow> 'v) s r" and "Q b"
  shows "runs ieval truth m' f' b env s r"
  using r \<open>Q b\<close>
proof (induction rule: runs.induct)
  case (ret b env s env' s' has v)
  with blocks [of b] have "bterm (blocks m' ! b) = TermRet has v" "owned_by m' f' b"
    "bhas_term (blocks m' ! b)"
    "exec_insts ieval (block_insts m' b) (env, s) = Some (env', s')" by auto
  then show ?case by (intro runs.ret)
next
  case (jump b env s env' s' t args r)
  have t: "owned_by m f t" using jump.hyps(5) by (rule runs_owned)
  have "raw_edge m b t"
    using jump.hyps t by (cases "bterm (blocks m ! b)")
      (auto simp: raw_edge_def owned_by_def valid_id_def split: if_splits)
  with closed jump.prems have "Q t" by blast
  then have r': "runs ieval truth m' f' t (bind_params (bparams (blocks m ! t)) (map env' args) env') s' r"
    by (rule jump.IH)
  have params: "bparams (blocks m ! t) = bparams (blocks m' ! t)" using blocks [OF t \<open>Q t\<close>] by simp
  show ?case
    by (rule runs.jump [where env' = env' and s' = s' and t = t and args = args])
      (use blocks [OF jump.hyps(1) jump.prems] jump.hyps(2-4) r' [unfolded params] in simp_all)
qed

lemma next_edge_target:
  "next_edge truth env (bterm (blocks m ! b)) = Some (t, args) \<Longrightarrow>
   b < length (blocks m) \<Longrightarrow> bhas_term (blocks m ! b) \<Longrightarrow> valid_id (blocks m) t \<Longrightarrow> raw_edge m b t"
  by (cases "bterm (blocks m ! b)") (auto simp: raw_edge_def split: if_splits)

section \<open>Clean-up preserves runs\<close>

lemma next_edge_simplify:
  "next_edge truth env (bterm (simplify_block b)) = next_edge truth env (bterm b)"
  by (cases "bterm b") (auto simp: simplify_block_def)

lemma simplify_block_ret:
  "bterm (simplify_block b) = TermRet has v \<longleftrightarrow> bterm b = TermRet has v"
  by (cases "bterm b") (auto simp: simplify_block_def)

lemma runs_simplify_condbr:
  fixes env :: "nat \<Rightarrow> 'v"
  shows "runs ieval truth (fst (simplify_condbr_same_target m)) f b env s r
    \<longleftrightarrow> runs ieval truth m f b env s r" (is "?L \<longleftrightarrow> ?R")
proof -
  let ?m = "fst (simplify_condbr_same_target m)"
  have own: "owned_by ?m f b = owned_by m f b" for b
    by (simp add: owned_by_def)
  have eq: "map simplify_block (blocks m) ! b = simplify_block (blocks m ! b)" if "owned_by m f b" for b
    using that by (simp add: owned_by_def valid_id_def)
  show ?thesis
  proof
    assume ?L
    then show ?R
      by (rule runs_mono [where Q = "\<lambda>_. True", rotated 2])
        (auto simp: own eq block_insts_def next_edge_simplify simplify_block_ret)
  next
    assume ?R
    then show ?L
      by (rule runs_mono [where Q = "\<lambda>_. True", rotated 2])
        (auto simp: own eq block_insts_def next_edge_simplify simplify_block_ret)
  qed
qed

lemma runs_remove_unreachable:
  fixes env :: "nat \<Rightarrow> 'v"
  assumes "valid_id (blocks m) (fentry f)"
  shows "runs ieval truth m (fst (remove_unreachable_blocks m f)) (fentry f) env s r
    \<longleftrightarrow> runs ieval truth m f (fentry f) env s r" (is "?L \<longleftrightarrow> ?R")
proof
  note eq = remove_unreachable_blocks_eq [OF assms]
  assume ?L
  then show ?R
    by (rule runs_mono [where Q = "\<lambda>_. True", rotated 2]) (auto simp: eq owned_by_def)
next
  note eq = remove_unreachable_blocks_eq [OF assms]
  assume ?R
  then show ?L
    by (rule runs_mono [where Q = "reachable_from m (fentry f)", rotated 2])
      (auto simp: eq owned_by_def intro: rtranclp.rtrancl_into_rtrancl)
qed

lemma runs_same_blocks:
  assumes "blocks m = blocks m'" "insts m = insts m'"
  shows "runs ieval truth m f b env s r \<longleftrightarrow> runs ieval truth m' f b env s r"
proof -
  have "runs ieval truth m2 f b env s r" if "runs ieval truth m1 f b env s r"
    "blocks m1 = blocks m2" "insts m1 = insts m2" for m1 m2
    using that
  proof (induction rule: runs.induct)
    case (ret b env s env' s' has v)
    then show ?case using runs.ret [of m2 f b ieval env s env' s' has v truth]
      by (simp add: owned_by_def block_insts_def)
  next
    case (jump b env s env' s' t args r)
    then show ?case using runs.jump [of m2 f b ieval env s env' s' truth t args r]
      by (simp add: owned_by_def block_insts_def)
  qed
  with assms show ?thesis by metis
qed

text \<open>
  Two modules with the same blocks, whose blocks compute the same wherever an invariant of
  the run holds, have the same runs from there.
\<close>

lemma runs_transfer:
  assumes blk: "blocks m2 = blocks m1"
    and same: "\<And>b env s. J b env \<Longrightarrow> owned_by m1 f b \<Longrightarrow>
      exec_insts ieval (block_insts m2 b) (env, s) = exec_insts ieval (block_insts m1 b) (env, s)"
    and keep: "\<And>b env s env' s' t args. J b env \<Longrightarrow> owned_by m1 f b \<Longrightarrow> bhas_term (blocks m1 ! b) \<Longrightarrow>
      exec_insts ieval (block_insts m1 b) (env, s) = Some (env', s') \<Longrightarrow>
      next_edge truth env' (bterm (blocks m1 ! b)) = Some (t, args) \<Longrightarrow>
      J t (bind_params (bparams (blocks m1 ! t)) (map env' args) env')"
    and J: "J b env"
  shows "runs ieval truth m2 f b env s r \<longleftrightarrow> runs ieval truth m1 f b env s r"
proof
  have o: "owned_by m2 f x = owned_by m1 f x" for x by (simp add: owned_by_def blk)
  show "runs ieval truth m1 f b env s r" if "runs ieval truth m2 f b env s r"
    using that J
  proof (induction rule: runs.induct)
    case (ret b env s env' s' has v)
    with same [OF ret.prems, of s] o [of b] show ?case by (simp add: blk runs.ret)
  next
    case (jump b env s env' s' t args r)
    have e: "exec_insts ieval (block_insts m1 b) (env, s) = Some (env', s')"
      using same [OF jump.prems, of s] o [of b] jump.hyps(1,3) by simp
    show ?case
      by (rule runs.jump [OF _ _ e]) (use jump keep [OF jump.prems _ _ e] o [of b] in \<open>simp_all add: blk\<close>)
  qed
  show "runs ieval truth m2 f b env s r" if "runs ieval truth m1 f b env s r"
    using that J
  proof (induction rule: runs.induct)
    case (ret b env s env' s' has v)
    with same [OF ret.prems, of s] o [of b] show ?case by (simp add: blk runs.ret)
  next
    case (jump b env s env' s' t args r)
    have e: "exec_insts ieval (block_insts m2 b) (env, s) = Some (env', s')"
      using same [OF jump.prems, of s] jump.hyps(1,3) by simp
    show ?case
      by (rule runs.jump [OF _ _ e]) (use jump keep [OF jump.prems _ _ jump.hyps(3)] o [of b] in \<open>simp_all add: blk\<close>)
  qed
qed

text \<open>
  A forward simulation by a relation on environments, for modules whose blocks differ in
  their instructions only.
\<close>

lemma runs_simulate:
  assumes own: "\<And>b. owned_by m1 f b \<Longrightarrow> owned_by m2 f b"
    and blk: "\<And>b. owned_by m1 f b \<Longrightarrow> bterm (blocks m2 ! b) = bterm (blocks m1 ! b)
        \<and> bhas_term (blocks m2 ! b) = bhas_term (blocks m1 ! b)
        \<and> bparams (blocks m2 ! b) = bparams (blocks m1 ! b)"
    and step: "\<And>b e1 e2 s e1' s'. R e1 e2 \<Longrightarrow> owned_by m1 f b \<Longrightarrow>
      exec_insts ieval (block_insts m1 b) (e1, s) = Some (e1', s') \<Longrightarrow>
      \<exists>e2'. exec_insts ieval (block_insts m2 b) (e2, s) = Some (e2', s') \<and> R e1' e2'"
    and trm: "\<And>b e1 e2 v. R e1 e2 \<Longrightarrow> owned_by m1 f b \<Longrightarrow> bhas_term (blocks m1 ! b) \<Longrightarrow>
      v \<in> set (for_each_term_operand (bterm (blocks m1 ! b))) \<Longrightarrow> e2 v = e1 v"
    and bind: "\<And>e1 e2 ps vs. R e1 e2 \<Longrightarrow> R (bind_params ps vs e1) (bind_params ps vs e2)"
    and run: "runs ieval truth m1 f b e1 s r" and R: "R e1 e2"
  shows "runs ieval truth m2 f b e2 s r"
  using run R
proof (induction arbitrary: e2 rule: runs.induct)
  case (ret b e1 s e1' s' has v)
  from step [OF ret.prems ret.hyps(1,3)] obtain e2'
    where e2': "exec_insts ieval (block_insts m2 b) (e2, s) = Some (e2', s')" "R e1' e2'" by blast
  have "has \<Longrightarrow> e2' v = e1' v" using trm [OF e2'(2) ret.hyps(1,2)] ret.hyps(4) by simp
  then have "(if has then Some (e2' v) else None) = (if has then Some (e1' v) else None)" by simp
  with runs.ret [OF own [OF ret.hyps(1)] _ e2'(1), of has v truth] blk [OF ret.hyps(1)] ret.hyps(2,4)
  show ?case by simp
next
  case (jump b e1 s e1' s' t args r)
  from step [OF jump.prems jump.hyps(1,3)] obtain e2'
    where e2': "exec_insts ieval (block_insts m2 b) (e2, s) = Some (e2', s')" "R e1' e2'" by blast
  note same = trm [OF e2'(2) jump.hyps(1,2)]
  have nx: "next_edge truth e2' (bterm (blocks m1 ! b)) = Some (t, args)"
    using jump.hyps(4) same by (cases "bterm (blocks m1 ! b)") (auto split: if_splits)
  have "set args \<subseteq> set (for_each_term_operand (bterm (blocks m1 ! b)))"
    using nx by (cases "bterm (blocks m1 ! b)") (auto split: if_splits)
  then have me: "map e2' args = map e1' args" using same by auto
  have "runs ieval truth m2 f t (bind_params (bparams (blocks m1 ! t)) (map e2' args) e2') s' r"
    using jump.IH [OF bind [OF e2'(2)]] by (simp only: me)
  with runs.jump [OF own [OF jump.hyps(1)] _ e2'(1), of truth t args r] blk [OF jump.hyps(1)] nx jump.hyps(2)
    blk [OF runs_owned [OF jump.hyps(5)]]
  show ?case by simp
qed

lemma next_edge_in: "next_edge truth env trm = Some (t, args) \<Longrightarrow> (t, args) \<in> set (term_edges trm)"
  by (cases trm) (auto split: if_splits)

section \<open>Property\<close>

text \<open>C4: the clean-up keeps, of each function with a valid entry, the blocks reachable from
  the entry in their order, and a run from the entry gives a result after it exactly when
  it gives that result before it, whatever the instructions mean.\<close>
theorem simplify_cfg_preserves_runs:
  fixes env :: "nat \<Rightarrow> 'v"
  assumes "i < length (funcs m)" "f = funcs m ! i" "valid_id (blocks m) (fentry f)"
    and "f' = funcs (fst (simplify_cfg m)) ! i"
  shows "fblocks f' = filter (\<lambda>b. valid_id (blocks m) b \<and> reachable_from m (fentry f) b) (fblocks f)
    \<and> fentry f' = fentry f
    \<and> (runs ieval truth (fst (simplify_cfg m)) f' (fentry f') env s r
        \<longleftrightarrow> runs ieval truth m f (fentry f) env s r)"
proof -
  let ?m1 = "fst (simplify_condbr_same_target m)"
  have f': "f' = fst (remove_unreachable_blocks ?m1 f)"
    using assms by (simp add: simplify_cfg_def Let_def case_prod_beta)
  have v: "valid_id (blocks ?m1) (fentry f)" using assms(3) by simp
  note eq = remove_unreachable_blocks_eq [OF v, folded f']
  have "runs ieval truth (fst (simplify_cfg m)) f' (fentry f) env s r
      \<longleftrightarrow> runs ieval truth ?m1 f' (fentry f) env s r"
    by (rule runs_same_blocks) (simp_all add: simplify_cfg_def Let_def case_prod_beta)
  also have "\<dots> \<longleftrightarrow> runs ieval truth ?m1 f (fentry f) env s r"
    unfolding f' by (rule runs_remove_unreachable [OF v])
  also have "\<dots> \<longleftrightarrow> runs ieval truth m f (fentry f) env s r"
    by (rule runs_simplify_condbr)
  finally show ?thesis using f' eq by simp
qed

definition ex_interp :: "(int, unit) interp" where
  "ex_interp d vs s = Some (case d of InstConstBool b \<Rightarrow> if b then 1 else 0 | _ \<Rightarrow> 0, s)"

lemma simplify_cfg_preserves_runs_witness:
  "fblocks (funcs (fst (simplify_cfg ex_cfg)) ! 0) = [0, 1, 2]
   \<and> runs ex_interp (\<lambda>v. v \<noteq> 0) ex_cfg ex_all 0 (\<lambda>_. 0) () (Some 1, ())"
proof -
  let ?m = "fst (simplify_cfg ex_cfg)" and ?f = "funcs (fst (simplify_cfg ex_cfg)) ! 0"
  have "exec_fuel 3 ex_interp (\<lambda>v. v \<noteq> 0) ?m ?f 0 (\<lambda>_. 0) () = Some (Some 1, ())"
    "fentry ?f = 0" "fblocks ?f = [0, 1, 2]" by code_simp+
  note r = exec_fuel_sound [OF this(1)] and e = this(2) and b = this(3)
  have "0 < length (funcs ex_cfg)" "ex_all = funcs ex_cfg ! 0"
    "valid_id (blocks ex_cfg) (fentry ex_all)"
    by (simp_all add: ex_defs valid_id_def)
  note th = simplify_cfg_preserves_runs [OF this refl, of ex_interp "\<lambda>v. v \<noteq> 0" "\<lambda>_. 0" "()" "(Some 1, ())"]
  have a: "fentry ex_all = 0" by (simp add: ex_defs)
  from conjunct2 [OF conjunct2 [OF th]] r
  have "runs ex_interp (\<lambda>v. v \<noteq> 0) ex_cfg ex_all 0 (\<lambda>_. 0) () (Some 1, ())"
    unfolding a e by (rule iffD1)
  with b show ?thesis by (rule conjI)
qed

end
