(* ===== verification/OIR_Rewrite.thy ===== *)
theory OIR_Rewrite
  imports OIR_Sem
begin

text \<open>
  Value substitution and the facts about single instructions the passes of
  \<open>frontend/src/oir/oir_passes.cpp\<close> share: the replacement table and its chains
  (\<open>resolve_alias_\<close>), the rewriting of every operand of the module, use counts, the memory
  location a value denotes, and the access model of an instruction.
\<close>

section \<open>Replacement tables\<close>

text \<open>\<open>resolve_alias_\<close>: at most 64 steps along the table.\<close>

fun resolve_alias_loop :: "nat \<Rightarrow> (nat \<rightharpoonup> nat) \<Rightarrow> nat \<Rightarrow> nat" where
  "resolve_alias_loop 0 repl cur = cur"
| "resolve_alias_loop (Suc i) repl cur =
     (case repl cur of
        None \<Rightarrow> cur
      | Some nxt \<Rightarrow> if nxt = cur then cur else resolve_alias_loop i repl nxt)"

definition resolve_alias :: "(nat \<rightharpoonup> nat) \<Rightarrow> nat \<Rightarrow> nat" where
  "resolve_alias repl v = resolve_alias_loop 64 repl v"

text \<open>
  The specification of a chain: \<open>alias_chain repl n v w\<close> says that \<open>n\<close> table steps lead
  from \<open>v\<close> to \<open>w\<close>, each to a different id.
\<close>

inductive alias_chain :: "(nat \<rightharpoonup> nat) \<Rightarrow> nat \<Rightarrow> nat \<Rightarrow> nat \<Rightarrow> bool" for repl where
  chain_refl: "alias_chain repl 0 v v"
| chain_step: "repl v = Some w \<Longrightarrow> w \<noteq> v \<Longrightarrow> alias_chain repl n w u \<Longrightarrow> alias_chain repl (Suc n) v u"

inductive_cases alias_chain_SucE: "alias_chain repl (Suc n) v u"
inductive_simps alias_chain_0: "alias_chain repl 0 v u"

definition alias_end :: "(nat \<rightharpoonup> nat) \<Rightarrow> nat \<Rightarrow> bool" where
  "alias_end repl v \<longleftrightarrow> repl v = None \<or> repl v = Some v"

lemma resolve_alias_loop_chain:
  "\<exists>k\<le>n. alias_chain repl k v (resolve_alias_loop n repl v)
         \<and> (k < n \<longrightarrow> alias_end repl (resolve_alias_loop n repl v))"
proof (induction n arbitrary: v)
  case 0
  show ?case by (auto intro: chain_refl)
next
  case (Suc n)
  show ?case
  proof (cases "alias_end repl v")
    case True
    then have "resolve_alias_loop (Suc n) repl v = v"
      by (auto simp: alias_end_def)
    with True show ?thesis by (auto intro!: exI [of _ 0] chain_refl)
  next
    case False
    then obtain w where w: "repl v = Some w" "w \<noteq> v" by (auto simp: alias_end_def)
    from Suc.IH [of w] obtain k where "k \<le> n" "alias_chain repl k w (resolve_alias_loop n repl w)"
      "k < n \<longrightarrow> alias_end repl (resolve_alias_loop n repl w)" by blast
    with w show ?thesis by (auto intro!: exI [of _ "Suc k"] chain_step)
  qed
qed

lemma resolve_alias_loop_end:
  "alias_chain repl k v w \<Longrightarrow> alias_end repl w \<Longrightarrow> k \<le> n \<Longrightarrow> resolve_alias_loop n repl v = w"
proof (induction arbitrary: n rule: alias_chain.induct)
  case (chain_refl v)
  then show ?case by (cases n) (auto simp: alias_end_def)
next
  case (chain_step v w k u)
  then obtain n' where "n = Suc n'" by (cases n) auto
  with chain_step show ?case by simp
qed

text \<open>A property that every table entry preserves is preserved by the resolved id.\<close>

lemma resolve_alias_invariant:
  assumes "P v" "\<And>x y. P x \<Longrightarrow> repl x = Some y \<Longrightarrow> P y"
  shows "P (resolve_alias repl v)"
proof -
  have "P (resolve_alias_loop n repl v)" for n
    using assms(1) by (induction n arbitrary: v) (auto split: option.split intro: assms(2))
  then show ?thesis by (simp add: resolve_alias_def)
qed

lemma resolve_alias_empty [simp]: "resolve_alias Map.empty v = v"
  by (simp add: resolve_alias_def numeral_eq_Suc)

lemma resolve_alias_notin: "repl v = None \<Longrightarrow> resolve_alias repl v = v"
  by (simp add: resolve_alias_def numeral_eq_Suc)

section \<open>Rewriting the operands of the module\<close>

text \<open>The lambda \<open>apply\<close> of \<open>rewrite_operands_\<close>.\<close>

definition apply_repl :: "(nat \<rightharpoonup> nat) \<Rightarrow> nat \<Rightarrow> nat" where
  "apply_repl repl v = (if v = kInvalidId then v else resolve_alias repl v)"

text \<open>The visitor over instructions: no case rewrites \<open>InstArrayLen\<close>.\<close>

fun rewrite_data :: "(nat \<Rightarrow> nat) \<Rightarrow> inst_data \<Rightarrow> inst_data" where
  "rewrite_data g (InstArrayLen base) = InstArrayLen base"
| "rewrite_data g d = map_operands g d"

fun rewrite_term :: "(nat \<Rightarrow> nat) \<Rightarrow> terminator \<Rightarrow> terminator" where
  "rewrite_term g (TermRet has v) = TermRet has (if has then g v else v)"
| "rewrite_term g (TermBr t args) = TermBr t (map g args)"
| "rewrite_term g (TermCondBr c tb targs eb eargs) = TermCondBr (g c) tb (map g targs) eb (map g eargs)"

definition rewrite_inst :: "(nat \<Rightarrow> nat) \<Rightarrow> oinst \<Rightarrow> oinst" where
  "rewrite_inst g i = i\<lparr>idata := rewrite_data g (idata i)\<rparr>"

definition rewrite_block :: "(nat \<Rightarrow> nat) \<Rightarrow> oblock \<Rightarrow> oblock" where
  "rewrite_block g b = (if bhas_term b then b\<lparr>bterm := rewrite_term g (bterm b)\<rparr> else b)"

definition rewrite_operands :: "omodule \<Rightarrow> (nat \<rightharpoonup> nat) \<Rightarrow> omodule" where
  "rewrite_operands m repl =
     m\<lparr>insts := map (rewrite_inst (apply_repl repl)) (insts m),
       blocks := map (rewrite_block (apply_repl repl)) (blocks m)\<rparr>"

text \<open>The operand occurrences the rewriting visits, in its order.\<close>

definition visited_operands :: "omodule \<Rightarrow> nat list" where
  "visited_operands m =
     concat (map (\<lambda>i. for_each_inst_operand (idata i)) (insts m))
     @ concat (map (\<lambda>b. if bhas_term b then for_each_term_operand (bterm b) else []) (blocks m))"

text \<open>What the optional counter grows by.\<close>

definition rewrite_counter :: "omodule \<Rightarrow> (nat \<rightharpoonup> nat) \<Rightarrow> nat" where
  "rewrite_counter m repl =
     length (filter (\<lambda>v. v \<noteq> kInvalidId \<and> resolve_alias repl v \<noteq> v) (visited_operands m))"

lemma rewrite_operands_simps [simp]:
  "length (insts (rewrite_operands m repl)) = length (insts m)"
  "length (blocks (rewrite_operands m repl)) = length (blocks m)"
  "vals (rewrite_operands m repl) = vals m"
  "funcs (rewrite_operands m repl) = funcs m"
  "globals (rewrite_operands m repl) = globals m"
  "escape_hints (rewrite_operands m repl) = escape_hints m"
  "stats (rewrite_operands m repl) = stats m"
  by (simp_all add: rewrite_operands_def)

lemma rewrite_block_simps [simp]:
  "binsts (rewrite_block g b) = binsts b" "bparams (rewrite_block g b) = bparams b"
  "bhas_term (rewrite_block g b) = bhas_term b"
  by (simp_all add: rewrite_block_def)

lemma rewrite_inst_simps [simp]:
  "iresult (rewrite_inst g i) = iresult i" "ieff (rewrite_inst g i) = ieff i"
  "idata (rewrite_inst g i) = rewrite_data g (idata i)"
  by (simp_all add: rewrite_inst_def)

lemma for_each_inst_operand_rewrite:
  "for_each_inst_operand (rewrite_data g d) = map g (for_each_inst_operand d)"
  by (cases d) simp_all

lemma for_each_term_operand_rewrite:
  "for_each_term_operand (rewrite_term g t) = map g (for_each_term_operand t)"
  by (cases t) simp_all

lemma map_operands_comp: "map_operands h (map_operands g d) = map_operands (h \<circ> g) d"
  by (cases d) simp_all

lemma opcode_rewrite: "opcode (rewrite_data g d) = opcode d"
  by (cases d) (simp_all add: opcode_def map_operands_comp comp_def)

lemma visited_operands_rewrite:
  "visited_operands (rewrite_operands m repl) = map (apply_repl repl) (visited_operands m)"
proof -
  have b: "(if bhas_term b then for_each_term_operand (bterm (rewrite_block (apply_repl repl) b)) else [])
      = map (apply_repl repl) (if bhas_term b then for_each_term_operand (bterm b) else [])" for b
    by (simp add: rewrite_block_def for_each_term_operand_rewrite)
  show ?thesis
    by (simp add: visited_operands_def rewrite_operands_def map_concat comp_def
        for_each_inst_operand_rewrite b)
qed

section \<open>Use counts\<close>

definition count_use :: "nat \<Rightarrow> nat list \<Rightarrow> nat list" where
  "count_use v uses =
     (if v = kInvalidId \<or> length uses \<le> v then uses else uses[v := u32 (uses ! v + 1)])"

definition build_use_count :: "omodule \<Rightarrow> nat list" where
  "build_use_count m = fold count_use (visited_operands m) (replicate (length (vals m)) 0)"

lemma length_count_use [simp]: "length (count_use v uses) = length uses"
  by (simp add: count_use_def)

lemma length_fold_count_use [simp]: "length (fold count_use vs uses) = length uses"
  by (induction vs arbitrary: uses) simp_all

lemma length_build_use_count: "length (build_use_count m) = length (vals m)"
  by (simp add: build_use_count_def)

lemma fold_count_use_nth:
  assumes "v < length uses" "v \<noteq> kInvalidId" "uses ! v + length vs < 4294967296"
  shows "fold count_use vs uses ! v = uses ! v + count_list vs v"
  using assms
proof (induction vs arbitrary: uses)
  case (Cons w vs)
  have "count_use w uses ! v = (if w = v then uses ! v + 1 else uses ! v)"
    using Cons.prems by (auto simp: count_use_def nth_list_update)
  with Cons show ?case by simp
qed simp

lemma build_use_count_nth:
  assumes "valid_id (vals m) v" "length (visited_operands m) < 4294967296"
  shows "build_use_count m ! v = count_list (visited_operands m) v"
  using assms by (simp add: build_use_count_def fold_count_use_nth valid_id_def)

end
