(* ===== verification/OIR_Alias.thy ===== *)
theory OIR_Alias
  imports OIR_Rewrite
begin

text \<open>
  The alias model of \<open>oir_passes.cpp\<close>: the memory location a value names (a base slot
  and a path), the two alias questions, and the access model of an instruction. The
  specification is \<open>place\<close>: the slot and the sequence of field and index steps a value
  denotes when the index values are known; the path the code computes is its rendering
  with every index written \<open>[*]\<close>.
\<close>

section \<open>Locations\<close>

datatype alias_footprint = FpNone | FpLocalMemory | FpUnknown

datatype loc_precision = LocUnknown | LocBaseOnly | LocExact

record mem_loc =
  ml_base :: nat
  ml_path :: string
  ml_precision :: loc_precision

definition no_loc :: mem_loc where
  "no_loc = \<lparr>ml_base = kInvalidId, ml_path = [], ml_precision = LocUnknown\<rparr>"

definition has_memory_base :: "mem_loc \<Rightarrow> bool" where
  "has_memory_base loc \<longleftrightarrow> ml_base loc \<noteq> kInvalidId"

text \<open>
  The instruction that defines a value: \<open>None\<close> for an id out of range, a block parameter
  (\<open>def_b\<close> set) or a value without a definition.
\<close>

definition def_inst :: "omodule \<Rightarrow> nat \<Rightarrow> inst_data option" where
  "def_inst m v =
     (if v = kInvalidId \<or> length (vals m) \<le> v then None
      else if vdef_b (vals m ! v) \<noteq> kInvalidId then None
      else if vdef_a (vals m ! v) = kInvalidId \<or> length (insts m) \<le> vdef_a (vals m ! v) then None
      else Some (idata (insts m ! vdef_a (vals m ! v))))"

text \<open>\<open>resolve_memory_loc_from_value_\<close> with \<open>33 - depth\<close> calls left.\<close>

fun resolve_loc :: "omodule \<Rightarrow> nat \<Rightarrow> nat \<Rightarrow> mem_loc" where
  "resolve_loc m 0 v = no_loc"
| "resolve_loc m (Suc left) v =
     (case def_inst m v of
        Some (InstAllocaLocal ty) \<Rightarrow> \<lparr>ml_base = v, ml_path = [], ml_precision = LocExact\<rparr>
      | Some (InstField base fld bf) \<Rightarrow>
          (let loc = resolve_loc m left base
           in if \<not> has_memory_base loc then no_loc
              else loc\<lparr>ml_path := ml_path loc @ ''.'' @ fld\<rparr>)
      | Some (InstIndex base index) \<Rightarrow>
          (let loc = resolve_loc m left base
           in if \<not> has_memory_base loc then no_loc
              else (let loc' = loc\<lparr>ml_path := ml_path loc @ ''[*]''\<rparr>
                    in if ml_precision loc' = LocExact then loc'\<lparr>ml_precision := LocBaseOnly\<rparr> else loc'))
      | Some (InstCast k to src) \<Rightarrow> resolve_loc m left src
      | _ \<Rightarrow> no_loc)"

definition resolve_memory_loc_from_value :: "omodule \<Rightarrow> nat \<Rightarrow> mem_loc" where
  "resolve_memory_loc_from_value m v = resolve_loc m 33 v"

definition must_alias_memory_loc :: "mem_loc \<Rightarrow> mem_loc \<Rightarrow> bool" where
  "must_alias_memory_loc a b =
     (if \<not> has_memory_base a \<or> \<not> has_memory_base b then False
      else if ml_base a \<noteq> ml_base b then False
      else if ml_precision a \<noteq> LocExact \<or> ml_precision b \<noteq> LocExact then False
      else ml_path a = ml_path b)"

definition may_alias_memory_loc :: "mem_loc \<Rightarrow> mem_loc \<Rightarrow> bool" where
  "may_alias_memory_loc a b =
     (if \<not> has_memory_base a \<or> \<not> has_memory_base b then True
      else if ml_base a \<noteq> ml_base b then False
      else if ml_path a = ml_path b then True
      else if ml_precision a = LocUnknown \<or> ml_precision b = LocUnknown then True
      else if ml_precision a = LocBaseOnly \<or> ml_precision b = LocBaseOnly then True
      else False)"

section \<open>What a value denotes\<close>

datatype 'i place_step = PField string | PIndex 'i

inductive place :: "omodule \<Rightarrow> (nat \<Rightarrow> 'i) \<Rightarrow> nat \<Rightarrow> nat \<Rightarrow> nat \<Rightarrow> 'i place_step list \<Rightarrow> bool"
  for m ival where
  place_alloca: "def_inst m v = Some (InstAllocaLocal ty) \<Longrightarrow> place m ival (Suc n) v v []"
| place_field: "def_inst m v = Some (InstField base fld bf) \<Longrightarrow> place m ival n base slot steps \<Longrightarrow>
     place m ival (Suc n) v slot (steps @ [PField fld])"
| place_index: "def_inst m v = Some (InstIndex base index) \<Longrightarrow> place m ival n base slot steps \<Longrightarrow>
     place m ival (Suc n) v slot (steps @ [PIndex (ival index)])"
| place_cast: "def_inst m v = Some (InstCast k to src) \<Longrightarrow> place m ival n src slot steps \<Longrightarrow>
     place m ival (Suc n) v slot steps"

fun render_step :: "'i place_step \<Rightarrow> string" where
  "render_step (PField f) = ''.'' @ f"
| "render_step (PIndex i) = ''[*]''"

fun is_index :: "'i place_step \<Rightarrow> bool" where
  "is_index (PIndex i) = True"
| "is_index (PField f) = False"

definition render_place :: "'i place_step list \<Rightarrow> string" where
  "render_place steps = concat (map render_step steps)"

lemma render_place_simps [simp]:
  "render_place [] = []" "render_place (s # ss) = render_step s @ render_place ss"
  "render_place (ss @ ss') = render_place ss @ render_place ss'"
  by (simp_all add: render_place_def)

lemma def_inst_valid: "def_inst m v = Some d \<Longrightarrow> v \<noteq> kInvalidId \<and> v < length (vals m)"
  by (simp add: def_inst_def split: if_splits)

lemma place_slot_valid: "place m ival n v slot steps \<Longrightarrow> slot \<noteq> kInvalidId"
  by (induction rule: place.induct) (simp_all add: def_inst_valid)

lemma place_slot_alloca:
  "place m ival n v slot steps \<Longrightarrow> \<exists>ty. def_inst m slot = Some (InstAllocaLocal ty)"
  by (induction rule: place.induct) auto

text \<open>The code computes the slot, the rendered path, and \<open>Exact\<close> when no index is on it.\<close>

lemma resolve_loc_place:
  "place m ival n v slot steps \<Longrightarrow>
   resolve_loc m n v =
     \<lparr>ml_base = slot, ml_path = render_place steps,
      ml_precision = if list_ex is_index steps then LocBaseOnly else LocExact\<rparr>"
proof (induction rule: place.induct)
  case (place_field v base fld bf n slot steps)
  with place_slot_valid [OF place_field.hyps(2)] show ?case
    by (auto simp: has_memory_base_def)
next
  case (place_index v base index n slot steps)
  with place_slot_valid [OF place_index.hyps(2)] show ?case
    by (auto simp: has_memory_base_def)
qed simp_all

lemma resolve_loc_has_place:
  "has_memory_base (resolve_loc m n v) \<Longrightarrow> \<exists>steps. place m ival n v (ml_base (resolve_loc m n v)) steps"
proof (induction m n v rule: resolve_loc.induct)
  case (1 m v)
  then show ?case by (simp add: has_memory_base_def no_loc_def)
next
  case (2 m left v)
  show ?case
  proof (cases "def_inst m v")
    case None
    with "2.prems" show ?thesis by (simp add: has_memory_base_def no_loc_def)
  next
    case (Some d)
    show ?thesis
    proof (cases d)
      case (InstAllocaLocal ty)
      with Some show ?thesis by (auto intro: place_alloca)
    next
      case (InstField base fld bf)
      with Some "2.prems" have b: "has_memory_base (resolve_loc m left base)"
        by (auto simp: Let_def no_loc_def has_memory_base_def split: if_splits)
      with "2.IH"(3) Some InstField obtain steps
        where "place m ival left base (ml_base (resolve_loc m left base)) steps" by blast
      with Some InstField b show ?thesis by (auto simp: Let_def intro: place_field)
    next
      case (InstIndex base index)
      with Some "2.prems" have b: "has_memory_base (resolve_loc m left base)"
        by (auto simp: Let_def no_loc_def has_memory_base_def split: if_splits)
      with "2.IH"(2) Some InstIndex obtain steps
        where "place m ival left base (ml_base (resolve_loc m left base)) steps" by blast
      with Some InstIndex b show ?thesis by (auto simp: Let_def intro: place_index)
    next
      case (InstCast k to src)
      with Some "2.prems" have b: "has_memory_base (resolve_loc m left src)" by simp
      with "2.IH"(1) Some InstCast obtain steps
        where "place m ival left src (ml_base (resolve_loc m left src)) steps" by blast
      with Some InstCast show ?thesis by (auto intro: place_cast)
    qed (use Some "2.prems" in \<open>simp_all add: has_memory_base_def no_loc_def\<close>)
  qed
qed

lemma has_base_iff_place:
  "has_memory_base (resolve_memory_loc_from_value m v) \<longleftrightarrow> (\<exists>slot steps. place m (\<lambda>i. i) 33 v slot steps)"
proof
  assume "\<exists>slot steps. place m (\<lambda>i. i) 33 v slot steps"
  then obtain slot steps where p: "place m (\<lambda>i. i) 33 v slot steps" by blast
  from resolve_loc_place [OF p] place_slot_valid [OF p]
  show "has_memory_base (resolve_memory_loc_from_value m v)"
    by (simp add: resolve_memory_loc_from_value_def has_memory_base_def)
next
  assume "has_memory_base (resolve_memory_loc_from_value m v)"
  then show "\<exists>slot steps. place m (\<lambda>i. i) 33 v slot steps"
    unfolding resolve_memory_loc_from_value_def by (blast dest: resolve_loc_has_place)
qed

text \<open>Field-only paths are read back from their rendering when no name holds a dot.\<close>

definition dotless :: "'i place_step \<Rightarrow> bool" where
  "dotless s = (case s of PField f \<Rightarrow> CHR ''.'' \<notin> set f | PIndex i \<Rightarrow> True)"

lemma render_fields_start:
  "\<not> list_ex is_index steps \<Longrightarrow> render_place steps = [] \<or> (\<exists>r. render_place steps = CHR ''.'' # r)"
proof (cases steps)
  case (Cons s ss)
  then show "\<not> list_ex is_index steps \<Longrightarrow> ?thesis" by (cases s) simp_all
qed simp

lemma render_prefix_eq:
  assumes "CHR ''.'' \<notin> set f" "CHR ''.'' \<notin> set g"
    and "r = [] \<or> (\<exists>x. r = CHR ''.'' # x)" "r' = [] \<or> (\<exists>x. r' = CHR ''.'' # x)"
    and "f @ r = g @ r'"
  shows "f = g \<and> r = r'"
  using assms
proof (induction f arbitrary: g)
  case Nil
  then show ?case by (cases g) auto
next
  case (Cons c f)
  then obtain g' where "g = c # g'" by (cases g) auto
  with Cons show ?case by simp
qed

lemma render_place_inj:
  assumes "\<not> list_ex is_index ss" "\<not> list_ex is_index ts" "list_all dotless ss" "list_all dotless ts"
    and "render_place ss = render_place ts"
  shows "ss = ts"
  using assms
proof (induction ss arbitrary: ts)
  case Nil
  then show ?case by (cases ts) (auto, metis list.distinct(1) Nil.prems(2) is_index.elims(3) list.inject append_Cons render_step.simps(1))
next
  case (Cons s ss)
  then obtain f where s: "s = PField f" by (cases s) auto
  from Cons.prems(5) s obtain t ts' where t: "ts = t # ts'" by (cases ts) auto
  with Cons.prems(2) obtain g where g: "t = PField g" by (cases t) auto
  have "f = g \<and> render_place ss = render_place ts'"
    by (rule render_prefix_eq)
      (use Cons.prems s t g render_fields_start [of ss] render_fields_start [of ts'] in
        \<open>auto simp: dotless_def\<close>)
  with Cons s t g show ?case by simp
qed

section \<open>Access models\<close>

record inst_access =
  ia_reads :: bool
  ia_writes :: bool
  ia_may_call :: bool
  ia_may_trap :: bool
  ia_read_fp :: alias_footprint
  ia_write_fp :: alias_footprint
  ia_read_slot :: nat
  ia_write_slot :: nat
  ia_read_loc :: mem_loc
  ia_write_loc :: mem_loc

definition no_access :: inst_access where
  "no_access =
     \<lparr>ia_reads = False, ia_writes = False, ia_may_call = False, ia_may_trap = False,
      ia_read_fp = FpNone, ia_write_fp = FpNone, ia_read_slot = kInvalidId,
      ia_write_slot = kInvalidId, ia_read_loc = no_loc, ia_write_loc = no_loc\<rparr>"

definition reads_loc :: "mem_loc \<Rightarrow> inst_access" where
  "reads_loc loc =
     (let out = no_access\<lparr>ia_reads := True, ia_read_loc := loc\<rparr>
      in if has_memory_base loc then out\<lparr>ia_read_fp := FpLocalMemory, ia_read_slot := ml_base loc\<rparr>
         else out\<lparr>ia_read_fp := FpUnknown\<rparr>)"

definition writes_loc :: "mem_loc \<Rightarrow> inst_access" where
  "writes_loc loc =
     (let out = no_access\<lparr>ia_writes := True, ia_write_loc := loc\<rparr>
      in if has_memory_base loc then out\<lparr>ia_write_fp := FpLocalMemory, ia_write_slot := ml_base loc\<rparr>
         else out\<lparr>ia_write_fp := FpUnknown\<rparr>)"

definition calls_out :: inst_access where
  "calls_out =
     no_access\<lparr>ia_reads := True, ia_writes := True, ia_may_call := True,
       ia_read_fp := FpUnknown, ia_write_fp := FpUnknown\<rparr>"

text \<open>The classification by the instruction's data.\<close>

fun data_access :: "omodule \<Rightarrow> inst_data \<Rightarrow> inst_access" where
  "data_access m (InstLoad slot) = reads_loc (resolve_memory_loc_from_value m slot)"
| "data_access m (InstStore slot v) = writes_loc (resolve_memory_loc_from_value m slot)"
| "data_access m (InstCall c) = calls_out"
| "data_access m (InstActorCommit ctx) = calls_out"
| "data_access m (InstActorRecast ctx) = calls_out"
| "data_access m (InstIndex base index) = reads_loc (resolve_memory_loc_from_value m base)"
| "data_access m (InstSliceView base lo hi incl) = reads_loc (resolve_memory_loc_from_value m base)"
| "data_access m (InstField base fld bf) = reads_loc (resolve_memory_loc_from_value m base)"
| "data_access m (InstDrop slot owner) = writes_loc (resolve_memory_loc_from_value m slot)"
| "data_access m _ = no_access"

text \<open>The overlay by the instruction's effect flag, one branch at most.\<close>

definition overlay_effect :: "effect \<Rightarrow> inst_access \<Rightarrow> inst_access" where
  "overlay_effect eff out =
     (if eff = EffCall then
        out\<lparr>ia_may_call := True, ia_reads := True, ia_writes := True,
            ia_read_fp := FpUnknown, ia_write_fp := FpUnknown\<rparr>
      else if eff = EffMayWriteMem \<and> ia_write_fp out = FpNone then
        out\<lparr>ia_writes := True, ia_write_fp := FpUnknown\<rparr>
      else if eff = EffMayReadMem \<and> ia_read_fp out = FpNone then
        out\<lparr>ia_reads := True, ia_read_fp := FpUnknown\<rparr>
      else if eff = EffMayTrap then out\<lparr>ia_may_trap := True\<rparr>
      else out)"

definition build_inst_access_model :: "omodule \<Rightarrow> oinst \<Rightarrow> inst_access" where
  "build_inst_access_model m i = overlay_effect (ieff i) (data_access m (idata i))"

lemmas access_defs = no_access_def reads_loc_def writes_loc_def calls_out_def

text \<open>The location an instruction writes, when its data names one.\<close>

fun written_operand :: "inst_data \<Rightarrow> nat option" where
  "written_operand (InstStore slot v) = Some slot"
| "written_operand (InstDrop slot owner) = Some slot"
| "written_operand _ = None"

fun calls_outside :: "inst_data \<Rightarrow> bool" where
  "calls_outside (InstCall c) = True"
| "calls_outside (InstActorCommit ctx) = True"
| "calls_outside (InstActorRecast ctx) = True"
| "calls_outside _ = False"

lemma data_access_writes:
  "ia_writes (data_access m d) \<longleftrightarrow> written_operand d \<noteq> None \<or> calls_outside d"
  "ia_write_fp (data_access m d) = FpLocalMemory \<longleftrightarrow>
     (\<exists>slot. written_operand d = Some slot \<and> has_memory_base (resolve_memory_loc_from_value m slot))"
  "ia_write_fp (data_access m d) = FpNone \<longleftrightarrow> \<not> ia_writes (data_access m d)"
  "written_operand d = Some slot \<Longrightarrow>
     ia_write_loc (data_access m d) = resolve_memory_loc_from_value m slot"
  by (cases d; auto simp: access_defs Let_def)+

section \<open>Properties\<close>

text \<open>C7: on values with a known place, the two alias questions of the optimiser are decided
  by the places: "may" answers yes exactly when the slots agree and either path has an index
  or the paths are equal; "must" answers yes exactly when slots and index-free paths agree.\<close>
theorem alias_questions_decide_places:
  assumes "place m ival 33 v slot ss" "place m ival 33 w slot' ts"
    and "list_all dotless ss" "list_all dotless ts"
  shows "(may_alias_memory_loc (resolve_memory_loc_from_value m v) (resolve_memory_loc_from_value m w)
            \<longleftrightarrow> slot = slot' \<and> (list_ex is_index ss \<or> list_ex is_index ts \<or> ss = ts))
       \<and> (must_alias_memory_loc (resolve_memory_loc_from_value m v) (resolve_memory_loc_from_value m w)
            \<longleftrightarrow> slot = slot' \<and> \<not> list_ex is_index ss \<and> \<not> list_ex is_index ts \<and> ss = ts)"
  using resolve_loc_place [OF assms(1)] resolve_loc_place [OF assms(2)]
    place_slot_valid [OF assms(1)] place_slot_valid [OF assms(2)] render_place_inj [of ss ts]
    assms(3, 4)
  by (auto simp: resolve_memory_loc_from_value_def may_alias_memory_loc_def
      must_alias_memory_loc_def has_memory_base_def)

text \<open>The module of the witnesses: a slot, two of its fields and a field of a field.\<close>

definition no_bits :: c_bitfield_access where
  "no_bits = \<lparr>cb_is_valid = False, cb_storage_offset_bytes = 0, cb_bit_offset = 0,
              cb_bit_width = 0, cb_bit_signed = False\<rparr>"

definition ex_fields :: omodule where
  "ex_fields = mk_module [mk_func ''main'' [0] 0] [ex_block [0, 1, 2, 3] (TermRet False kInvalidId)]
     [ex_inst (InstAllocaLocal 9) 0, ex_inst (InstField 0 ''x'' no_bits) 1,
      ex_inst (InstField 0 ''y'' no_bits) 2, ex_inst (InstCast CastAs 4 1) 3]
     [ex_value 9 0, ex_value 4 1, ex_value 4 2, ex_value 4 3]"

lemma ex_fields_places:
  "place ex_fields (\<lambda>i. i) (Suc n) 0 0 []"
  "place ex_fields (\<lambda>i. i) (Suc (Suc n)) 1 0 [PField ''x'']"
  "place ex_fields (\<lambda>i. i) (Suc (Suc n)) 2 0 [PField ''y'']"
  "place ex_fields (\<lambda>i. i) (Suc (Suc (Suc n))) 3 0 [PField ''x'']"
proof -
  have d: "def_inst ex_fields 0 = Some (InstAllocaLocal 9)"
    "def_inst ex_fields 1 = Some (InstField 0 ''x'' no_bits)"
    "def_inst ex_fields 2 = Some (InstField 0 ''y'' no_bits)"
    "def_inst ex_fields 3 = Some (InstCast CastAs 4 1)"
    by code_simp+
  show p0: "place ex_fields (\<lambda>i. i) (Suc n) 0 0 []" for n
    using d(1) by (rule place_alloca)
  show p1: "place ex_fields (\<lambda>i. i) (Suc (Suc n)) 1 0 [PField ''x'']" for n
    using place_field [OF d(2) p0] by simp
  show "place ex_fields (\<lambda>i. i) (Suc (Suc n)) 2 0 [PField ''y'']"
    using place_field [OF d(3) p0] by simp
  show "place ex_fields (\<lambda>i. i) (Suc (Suc (Suc n))) 3 0 [PField ''x'']"
    by (rule place_cast [OF d(4) p1])
qed

lemma alias_questions_decide_places_witness:
  "\<not> may_alias_memory_loc (resolve_memory_loc_from_value ex_fields 1) (resolve_memory_loc_from_value ex_fields 2)
   \<and> must_alias_memory_loc (resolve_memory_loc_from_value ex_fields 1) (resolve_memory_loc_from_value ex_fields 3)"
proof -
  have p: "place ex_fields (\<lambda>i. i) 33 1 0 [PField ''x'']" "place ex_fields (\<lambda>i. i) 33 2 0 [PField ''y'']"
    "place ex_fields (\<lambda>i. i) 33 3 0 [PField ''x'']"
    using ex_fields_places(2,3) [of 31] ex_fields_places(4) [of 30] by simp_all
  have dl: "list_all dotless [PField ''x'' :: nat place_step]" "list_all dotless [PField ''y'' :: nat place_step]"
    by (simp_all add: dotless_def)
  from alias_questions_decide_places [OF p(1,2) dl]
    alias_questions_decide_places [OF p(1,3) dl(1) dl(1)]
  show ?thesis by simp
qed

text \<open>C8: the access model never hides a write. An instruction that stores, drops, calls out,
  or is flagged as a call or a memory write is reported as writing, with unknown footprint
  unless its target has a place, and then with the location of that target.\<close>
theorem access_model_reports_writes:
  assumes "written_operand (idata i) \<noteq> None \<or> calls_outside (idata i) \<or> ieff i \<in> {EffCall, EffMayWriteMem}"
  shows "ia_writes (build_inst_access_model m i)
    \<and> (ia_write_fp (build_inst_access_model m i) = FpUnknown
       \<or> (\<exists>v slot steps. written_operand (idata i) = Some v \<and> place m (\<lambda>j. j) 33 v slot steps
            \<and> ia_write_fp (build_inst_access_model m i) = FpLocalMemory
            \<and> ml_base (ia_write_loc (build_inst_access_model m i)) = slot))"
proof (cases "ia_write_fp (data_access m (idata i))")
  case FpLocalMemory
  then obtain v where v: "written_operand (idata i) = Some v"
    "has_memory_base (resolve_memory_loc_from_value m v)" by (auto simp: data_access_writes)
  then obtain slot steps where p: "place m (\<lambda>j. j) 33 v slot steps" by (auto simp: has_base_iff_place)
  from resolve_loc_place [OF p] have "ml_base (ia_write_loc (data_access m (idata i))) = slot"
    using v by (simp add: data_access_writes resolve_memory_loc_from_value_def)
  with v p FpLocalMemory show ?thesis
    by (auto simp: build_inst_access_model_def overlay_effect_def data_access_writes)
next
  case FpNone
  with assms show ?thesis
    by (auto simp: build_inst_access_model_def overlay_effect_def data_access_writes)
next
  case FpUnknown
  then have "ia_writes (data_access m (idata i))"
    using data_access_writes(3) [of m "idata i"] by simp
  with FpUnknown show ?thesis
    by (auto simp: build_inst_access_model_def overlay_effect_def)
qed

lemma access_model_reports_writes_witness:
  "ia_writes (build_inst_access_model ex_fields (ex_inst (InstStore 1 3) kInvalidId))"
  using access_model_reports_writes [of "ex_inst (InstStore 1 3) kInvalidId" ex_fields]
  by (simp add: ex_inst_def)

end
