(* ===== verification/OIR_Guard.thy ===== *)
theory OIR_Guard
  imports OIR_Verify OIR_Dom OIR_Rewrite
begin

text \<open>
  The checks the optimiser runs between its passes (\<open>oir_passes.cpp\<close>: availability of
  operands under dominance, canonical loops, the pipeline invariants) and the guarded
  runners that undo a pass whose result fails them. The specification of the dominance
  check is \<open>ssa_run\<close>: along every path of a function from its entry, each operand it reads
  has been assigned.
\<close>

section \<open>Availability of operands\<close>

record value_def_loc =
  vl_known :: bool
  vl_is_block_param :: bool
  vl_bb :: nat
  vl_inst_ord :: nat

definition no_def_loc :: value_def_loc where
  "no_def_loc = \<lparr>vl_known = False, vl_is_block_param = False, vl_bb = kInvalidId, vl_inst_ord = 4294967295\<rparr>"

definition value_available_at ::
  "omodule \<Rightarrow> dom_info \<Rightarrow> value_def_loc list \<Rightarrow> nat \<Rightarrow> nat \<Rightarrow> nat \<Rightarrow> bool" where
  "value_available_at m di defs v use_bb use_inst_ord =
     (if v = kInvalidId \<or> length (vals m) \<le> v then False
      else if length defs \<le> v then False
      else let d = defs ! v in
        if \<not> vl_known d then vdef_a (vals m ! v) = kInvalidId
        else if vl_bb d = use_bb
        then (if vl_is_block_param d then True else vl_inst_ord d < use_inst_ord)
        else dominates di (vl_bb d) use_bb)"

text \<open>The table of definitions, in the order of the block list.\<close>

definition set_def :: "nat \<Rightarrow> value_def_loc \<Rightarrow> value_def_loc list \<Rightarrow> value_def_loc list" where
  "set_def v d defs = (if v = kInvalidId \<or> length defs \<le> v then defs else defs[v := d])"

definition param_def :: "nat \<Rightarrow> value_def_loc" where
  "param_def bb = \<lparr>vl_known = True, vl_is_block_param = True, vl_bb = bb, vl_inst_ord = 0\<rparr>"

definition inst_def :: "nat \<Rightarrow> nat \<Rightarrow> value_def_loc" where
  "inst_def bb i = \<lparr>vl_known = True, vl_is_block_param = False, vl_bb = bb, vl_inst_ord = i + 1\<rparr>"

definition block_defs :: "omodule \<Rightarrow> nat \<Rightarrow> value_def_loc list \<Rightarrow> value_def_loc list" where
  "block_defs m bb defs =
     fold (\<lambda>(i, iid) defs.
         if length (insts m) \<le> iid then defs
         else set_def (iresult (insts m ! iid)) (inst_def bb i) defs)
       (List.enumerate 0 (binsts (blocks m ! bb)))
       (fold (\<lambda>p. set_def p (param_def bb)) (bparams (blocks m ! bb)) defs)"

definition collect_defs :: "omodule \<Rightarrow> ofunc \<Rightarrow> value_def_loc list" where
  "collect_defs m f =
     fold (\<lambda>bb defs. if bb = kInvalidId \<or> length (blocks m) \<le> bb then defs else block_defs m bb defs)
       (fblocks f) (replicate (length (vals m)) no_def_loc)"

text \<open>The uses of one block: every instruction, then the terminator.\<close>

definition block_uses_ok :: "omodule \<Rightarrow> dom_info \<Rightarrow> value_def_loc list \<Rightarrow> nat \<Rightarrow> bool" where
  "block_uses_ok m di defs bb =
     (let b = blocks m ! bb in
      list_all (\<lambda>(i, iid).
          length (insts m) \<le> iid
          \<or> list_all (\<lambda>v. value_available_at m di defs v bb (i + 1))
               (for_each_inst_operand (idata (insts m ! iid))))
        (List.enumerate 0 (binsts b))
      \<and> (\<not> bhas_term b
         \<or> list_all (\<lambda>v. value_available_at m di defs v bb (length (binsts b) + 1))
              (for_each_term_operand (bterm b))))"

definition check_edge_args :: "omodule \<Rightarrow> dom_info \<Rightarrow> value_def_loc list \<Rightarrow> nat \<Rightarrow> nat \<Rightarrow> nat list \<Rightarrow> bool" where
  "check_edge_args m di defs pred succ args =
     (if succ = kInvalidId \<or> length (blocks m) \<le> succ then True
      else if di_index_of di succ = None then True
      else list_all (\<lambda>a. value_available_at m di defs a pred (length (binsts (blocks m ! pred)) + 1))
             (take (min (length args) (length (bparams (blocks m ! succ)))) args))"

definition block_edges_ok :: "omodule \<Rightarrow> dom_info \<Rightarrow> value_def_loc list \<Rightarrow> nat \<Rightarrow> bool" where
  "block_edges_ok m di defs pred =
     (\<not> bhas_term (blocks m ! pred)
      \<or> (case bterm (blocks m ! pred) of
           TermBr t args \<Rightarrow> check_edge_args m di defs pred t args
         | TermCondBr c tb targs eb eargs \<Rightarrow>
             check_edge_args m di defs pred tb targs \<and> check_edge_args m di defs pred eb eargs
         | TermRet has v \<Rightarrow> True))"

definition verify_function_dominance :: "omodule \<Rightarrow> ofunc \<Rightarrow> bool" where
  "verify_function_dominance m f =
     (let di = build_dom_info m f in
      if di_entry_index di = None then False
      else let defs = collect_defs m f in
        list_all (\<lambda>bb. bb = kInvalidId \<or> length (blocks m) \<le> bb \<or> block_uses_ok m di defs bb) (fblocks f)
        \<and> list_all (\<lambda>bb. bb = kInvalidId \<or> length (blocks m) \<le> bb \<or> block_edges_ok m di defs bb) (fblocks f))"

section \<open>Canonical loops and the pipeline invariants\<close>

definition verify_function_loop_fixpoint :: "omodule \<Rightarrow> ofunc \<Rightarrow> bool" where
  "verify_function_loop_fixpoint m f =
     (let di = build_dom_info m f in
      if di_entry_index di = None then False
      else list_all (\<lambda>l.
          let outside = outside_preds di l in
          outside \<noteq> [] \<and> length outside = 1 \<and> is_preheader_block m (outside ! 0) (lp_header l))
        (collect_loops m f di))"

definition verify_pipeline_invariants :: "omodule \<Rightarrow> bool \<Rightarrow> bool" where
  "verify_pipeline_invariants m require_loop_fixpoint =
     (if verify m \<noteq> [] then False
      else list_all (\<lambda>f. verify_function_dominance m f
          \<and> (require_loop_fixpoint \<longrightarrow> verify_function_loop_fixpoint m f)) (funcs m))"

section \<open>Guarded runs\<close>

text \<open>A pass returns the module it leaves and whether it reports a change; \<open>None\<close> stands for a
  pass that does not return, or whose behaviour is undefined.\<close>

type_synonym pass = "omodule \<Rightarrow> (omodule \<times> bool) option"

definition run_guarded_pass_once :: "(omodule \<Rightarrow> bool) \<Rightarrow> pass \<Rightarrow> pass" where
  "run_guarded_pass_once ok p m =
     (case p m of
        None \<Rightarrow> None
      | Some (m', changed) \<Rightarrow>
          if \<not> changed then Some (m', False)
          else if \<not> ok m' then Some (m, False)
          else Some (m', True))"

text \<open>The loop with the flag \<open>any_changed\<close>.\<close>

fun guarded_rounds :: "nat \<Rightarrow> (omodule \<Rightarrow> bool) \<Rightarrow> pass \<Rightarrow> omodule \<Rightarrow> bool \<Rightarrow> (omodule \<times> bool) option" where
  "guarded_rounds 0 ok p m any_changed = Some (m, any_changed)"
| "guarded_rounds (Suc rounds) ok p m any_changed =
     (case p m of
        None \<Rightarrow> None
      | Some (m', changed) \<Rightarrow>
          if \<not> changed then Some (m', any_changed)
          else if \<not> ok m' then Some (m, any_changed)
          else guarded_rounds rounds ok p m' True)"

definition run_guarded_pass_fixpoint :: "nat \<Rightarrow> (omodule \<Rightarrow> bool) \<Rightarrow> pass \<Rightarrow> pass" where
  "run_guarded_pass_fixpoint max_rounds ok p m = guarded_rounds max_rounds ok p m False"

section \<open>The table of definitions\<close>

lemma length_set_def [simp]: "length (set_def v d defs) = length defs"
  by (simp add: set_def_def)

lemma set_def_nth: "set_def v d defs ! w = (if w = v \<and> v \<noteq> kInvalidId \<and> v < length defs then d else defs ! w)"
  by (auto simp: set_def_def)

text \<open>What an entry says of the module.\<close>

definition def_entry_ok :: "omodule \<Rightarrow> ofunc \<Rightarrow> nat \<Rightarrow> value_def_loc \<Rightarrow> bool" where
  "def_entry_ok m f v d \<longleftrightarrow>
     (vl_known d \<longrightarrow>
        owned_by m f (vl_bb d)
        \<and> (if vl_is_block_param d then v \<in> set (bparams (blocks m ! vl_bb d))
           else \<exists>i < length (binsts (blocks m ! vl_bb d)).
                  vl_inst_ord d = i + 1
                  \<and> binsts (blocks m ! vl_bb d) ! i < length (insts m)
                  \<and> iresult (insts m ! (binsts (blocks m ! vl_bb d) ! i)) = v))"

definition def_table_ok :: "omodule \<Rightarrow> ofunc \<Rightarrow> value_def_loc list \<Rightarrow> bool" where
  "def_table_ok m f defs \<longleftrightarrow> length defs = length (vals m) \<and> (\<forall>v < length defs. def_entry_ok m f v (defs ! v))"

lemma def_table_set:
  "def_table_ok m f defs \<Longrightarrow> def_entry_ok m f v d \<Longrightarrow> def_table_ok m f (set_def v d defs)"
  by (auto simp: def_table_ok_def set_def_nth)

lemma def_table_params:
  assumes "owned_by m f bb" "set ps \<subseteq> set (bparams (blocks m ! bb))" "def_table_ok m f defs"
  shows "def_table_ok m f (fold (\<lambda>p. set_def p (param_def bb)) ps defs)"
  using assms(2,3)
proof (induction ps arbitrary: defs)
  case (Cons p ps)
  have "def_entry_ok m f p (param_def bb)"
    using Cons.prems(1) assms(1) by (simp add: def_entry_ok_def param_def_def)
  with Cons show ?case by (simp add: def_table_set)
qed simp

lemma def_table_insts:
  assumes "owned_by m f bb"
    and "\<forall>(i, iid) \<in> set xs. i < length (binsts (blocks m ! bb)) \<and> binsts (blocks m ! bb) ! i = iid"
    and "def_table_ok m f defs"
  shows "def_table_ok m f (fold (\<lambda>(i, iid) defs.
         if length (insts m) \<le> iid then defs
         else set_def (iresult (insts m ! iid)) (inst_def bb i) defs) xs defs)"
  using assms(2,3)
proof (induction xs arbitrary: defs)
  case (Cons x xs)
  obtain i iid where x: "x = (i, iid)" by fastforce
  show ?case
  proof (cases "length (insts m) \<le> iid")
    case True
    with Cons x show ?thesis by simp
  next
    case False
    then have "def_entry_ok m f (iresult (insts m ! iid)) (inst_def bb i)"
      using Cons.prems(1) assms(1) x by (auto simp: def_entry_ok_def inst_def_def)
    with Cons x False show ?thesis by (simp add: def_table_set)
  qed
qed simp

lemma def_table_block:
  assumes "owned_by m f bb" "def_table_ok m f defs"
  shows "def_table_ok m f (block_defs m bb defs)"
  unfolding block_defs_def
  by (rule def_table_insts [OF assms(1) _ def_table_params [OF assms(1) subset_refl assms(2)]])
    (auto simp: in_set_enumerate_eq)

lemma def_table_collect: "def_table_ok m f (collect_defs m f)"
proof -
  have "def_table_ok m f (fold (\<lambda>bb defs. if bb = kInvalidId \<or> length (blocks m) \<le> bb then defs
      else block_defs m bb defs) bs defs)"
    if "set bs \<subseteq> set (fblocks f)" "def_table_ok m f defs" for bs defs
    using that
  proof (induction bs arbitrary: defs)
    case (Cons bb bs)
    have "owned_by m f bb" if "\<not> (bb = kInvalidId \<or> length (blocks m) \<le> bb)"
      using that Cons.prems(1) by (simp add: owned_by_def valid_id_def)
    with Cons show ?case by (simp add: def_table_block)
  qed simp
  moreover have "def_table_ok m f (replicate (length (vals m)) no_def_loc)"
    by (simp add: def_table_ok_def def_entry_ok_def no_def_loc_def)
  ultimately show ?thesis by (simp add: collect_defs_def)
qed

section \<open>Paths and assigned values\<close>

definition block_results :: "omodule \<Rightarrow> nat list \<Rightarrow> nat set" where
  "block_results m is = {iresult (insts m ! iid) |iid. iid \<in> set is \<and> iid < length (insts m)}"

text \<open>
  \<open>ssa_run m f b A\<close>: some path of the function from its entry arrives at block \<open>b\<close> with
  the values \<open>A\<close> assigned: the entry's parameters, and along each edge the results of the
  block left and the parameters the edge's arguments bind.
\<close>

inductive ssa_run :: "omodule \<Rightarrow> ofunc \<Rightarrow> nat \<Rightarrow> nat set \<Rightarrow> bool" for m f where
  ssa_start: "ssa_run m f (fentry f) (set (bparams (blocks m ! fentry f)))"
| ssa_edge: "ssa_run m f b A \<Longrightarrow> bhas_term (blocks m ! b) \<Longrightarrow>
     (t, args) \<in> set (term_edges (bterm (blocks m ! b))) \<Longrightarrow>
     ssa_run m f t (A \<union> block_results m (binsts (blocks m ! b))
                     \<union> set (take (length args) (bparams (blocks m ! t))))"

lemma term_edges_block_targets:
  "bhas_term (blocks m ! b) \<Longrightarrow> (t, args) \<in> set (term_edges (bterm (blocks m ! b))) \<Longrightarrow>
   b < length (blocks m) \<Longrightarrow> raw_edge m b t \<or> \<not> valid_id (blocks m) b \<or> \<not> valid_id (blocks m) t"
  by (cases "bterm (blocks m ! b)") (auto simp: raw_edge_def valid_id_def)

lemma term_edges_ok:
  "term_ok m f trm \<Longrightarrow> (t, args) \<in> set (term_edges trm) \<Longrightarrow> edge_ok m f (t, args)"
  by (cases trm) auto

lemma ssa_run_path:
  assumes ok: "block_list_ok m f" "\<not> fis_extern f" "func_ok m f"
    and run: "ssa_run m f b A"
  shows "\<exists>\<pi>. root_path m f \<pi> b
    \<and> (\<forall>x \<in> set \<pi>. set (bparams (blocks m ! x)) \<subseteq> A)
    \<and> (\<forall>x \<in> set (butlast \<pi>). block_results m (binsts (blocks m ! x)) \<subseteq> A)"
  using run
proof (induction rule: ssa_run.induct)
  case ssa_start
  then show ?case
    using block_list_okD(4) [OF ok(1)]
    by (intro exI [of _ "[fentry f]"]) (auto simp: root_path_def dom_root_def)
next
  case (ssa_edge b A t args)
  then obtain \<pi> where p: "root_path m f \<pi> b"
    "\<forall>x \<in> set \<pi>. set (bparams (blocks m ! x)) \<subseteq> A"
    "\<forall>x \<in> set (butlast \<pi>). block_results m (binsts (blocks m ! x)) \<subseteq> A" by blast
  have bin: "b \<in> set (fblocks f)" using p(1) by (auto simp: root_path_def)
  with ok(3) have "block_ok m f b" by (simp add: func_ok_def list_all_iff)
  with ok(2) have "term_ok m f (bterm (blocks m ! b))" by (simp add: block_ok_def)
  with ssa_edge.hyps(3) have e: "edge_ok m f (t, args)" by (rule term_edges_ok [rotated])
  then have t: "t \<in> set (fblocks f)" "valid_id (blocks m) t"
    "length args = length (bparams (blocks m ! t))" by (simp_all add: edge_ok_def)
  have "raw_edge m b t"
    using term_edges_block_targets [OF ssa_edge.hyps(2,3)] block_list_okD(2,3) [OF ok(1) bin] t by blast
  then have ce: "cfg_edge m f b t"
    using bin t block_list_okD(2) [OF ok(1) bin] by (simp add: cfg_edge_def owned_by_def)
  have last: "\<pi> \<noteq> []" "last \<pi> = b" using p(1) by (auto simp: root_path_def)
  have rp: "root_path m f (\<pi> @ [t]) t"
    using p(1) ce t by (auto simp: root_path_def successively_append_iff)
  have "x \<in> set \<pi> \<Longrightarrow> x \<in> set (butlast \<pi>) \<or> x = b" for x
    using last by (metis append_butlast_last_id in_set_conv_decomp rotate1.simps(2) set_ConsD set_rotate1)
  with p(2,3) t(3) rp show ?case
    by (intro exI [of _ "\<pi> @ [t]"]) (auto simp: butlast_append)
qed

lemma available_assigned:
  assumes ok: "block_list_ok m f" "\<not> fis_extern f" "func_ok m f"
    and run: "ssa_run m f b A"
    and av: "value_available_at m (build_dom_info m f) (collect_defs m f) v b (k + 1)"
  shows "v \<in> A \<union> block_results m (take k (binsts (blocks m ! b))) \<or> vdef_a (vals m ! v) = kInvalidId"
proof -
  let ?d = "collect_defs m f ! v"
  have v: "v < length (vals m)" using av by (simp add: value_available_at_def split: if_splits)
  show ?thesis
  proof (cases "vl_known ?d")
    case False
    with av v show ?thesis by (simp add: value_available_at_def Let_def split: if_splits)
  next
    case True
    have "def_entry_ok m f v ?d" using def_table_collect [of m f] v by (simp add: def_table_ok_def)
    note ent = this [unfolded def_entry_ok_def, THEN mp, OF True]
    from ssa_run_path [OF ok run] obtain \<pi> where p: "root_path m f \<pi> b"
      "\<And>x. x \<in> set \<pi> \<Longrightarrow> set (bparams (blocks m ! x)) \<subseteq> A"
      "\<And>x. x \<in> set (butlast \<pi>) \<Longrightarrow> block_results m (binsts (blocks m ! x)) \<subseteq> A" by blast
    have nonempty: "\<pi> \<noteq> []" "last \<pi> = b" "b \<in> set (fblocks f)" using p(1) by (auto simp: root_path_def)
    then have bpi: "b \<in> set \<pi>" by auto
    show ?thesis
    proof (cases "vl_bb ?d = b")
      case same: True
      show ?thesis
      proof (cases "vl_is_block_param ?d")
        case True
        with ent same p(2) [OF bpi] show ?thesis by auto
      next
        case False
        with ent same obtain i where i: "i < length (binsts (blocks m ! b))" "vl_inst_ord ?d = i + 1"
          "binsts (blocks m ! b) ! i < length (insts m)"
          "iresult (insts m ! (binsts (blocks m ! b) ! i)) = v" by auto
        from av True same False i(2) have "i < k"
          by (auto simp: value_available_at_def Let_def split: if_splits)
        with i have "binsts (blocks m ! b) ! i \<in> set (take k (binsts (blocks m ! b)))"
          by (auto simp: in_set_conv_nth intro!: exI [of _ i])
        with i show ?thesis by (auto simp: block_results_def)
      qed
    next
      case other: False
      with av True have "dominates (build_dom_info m f) (vl_bb ?d) b"
        by (auto simp: value_available_at_def Let_def split: if_splits)
      with dominates_iff_paths [OF ok(1) _ nonempty(3)] ent p(1)
      have inp: "vl_bb ?d \<in> set \<pi>" by (auto simp: owned_by_def)
      with other nonempty have "vl_bb ?d \<in> set (butlast \<pi>)"
        by (metis append_butlast_last_id in_set_conv_decomp rotate1.simps(2) set_ConsD set_rotate1)
      from p(3) [OF this] have "block_results m (binsts (blocks m ! vl_bb ?d)) \<subseteq> A" .
      moreover have "\<not> vl_is_block_param ?d \<Longrightarrow> v \<in> block_results m (binsts (blocks m ! vl_bb ?d))"
        using ent by (auto simp: block_results_def) (metis nth_mem)
      ultimately show ?thesis using p(2) [OF inp] ent by (cases "vl_is_block_param ?d") auto
    qed
  qed
qed

lemma dominance_checked:
  assumes "verify_function_dominance m f" "b \<in> set (fblocks f)" "valid_id (blocks m) b"
  shows "block_uses_ok m (build_dom_info m f) (collect_defs m f) b"
  using assms by (auto simp: verify_function_dominance_def Let_def list_all_iff valid_id_def split: if_splits)

lemma verify_pipelineD:
  assumes "verify_pipeline_invariants m req" "f \<in> set (funcs m)"
  shows "verify m = []" "verify_function_dominance m f"
  using assms by (auto simp: verify_pipeline_invariants_def list_all_iff split: if_splits)

lemma func_ok_block_list:
  "func_ok m f \<Longrightarrow> distinct (fblocks f) \<Longrightarrow> block_list_ok m f"
  by (auto simp: func_ok_def block_list_ok_def block_ok_def list_all_iff)

lemma verify_Nil_func_ok: "verify m = [] \<Longrightarrow> f \<in> set (funcs m) \<Longrightarrow> func_ok m f"
  by (auto simp: verify_def verify_func_Nil simp del: concat_eq_Nil_conv simp add: concat_map_Nil list_all_iff)

text \<open>Every operand read on a path is assigned on it, or has no definition at all.\<close>

definition uses_assigned :: "omodule \<Rightarrow> ofunc \<Rightarrow> bool" where
  "uses_assigned m f \<longleftrightarrow>
     (\<forall>b A. ssa_run m f b A \<longrightarrow> b \<in> set (fblocks f)
        \<and> (\<forall>k < length (binsts (blocks m ! b)).
             \<forall>v \<in> set (for_each_inst_operand (idata (insts m ! (binsts (blocks m ! b) ! k)))).
               v \<in> A \<union> block_results m (take k (binsts (blocks m ! b))) \<or> vdef_a (vals m ! v) = kInvalidId)
        \<and> (\<forall>v \<in> set (for_each_term_operand (bterm (blocks m ! b))).
             v \<in> A \<union> block_results m (binsts (blocks m ! b)) \<or> vdef_a (vals m ! v) = kInvalidId))"

lemma dominance_uses_assigned:
  assumes fok: "func_ok m f" and ds: "distinct (fblocks f)" and ext: "\<not> fis_extern f"
    and dom: "verify_function_dominance m f"
  shows "uses_assigned m f"
proof -
  note ok = func_ok_block_list [OF fok ds]
  have "b \<in> set (fblocks f)
        \<and> (\<forall>k < length (binsts (blocks m ! b)).
             \<forall>v \<in> set (for_each_inst_operand (idata (insts m ! (binsts (blocks m ! b) ! k)))).
               v \<in> A \<union> block_results m (take k (binsts (blocks m ! b))) \<or> vdef_a (vals m ! v) = kInvalidId)
        \<and> (\<forall>v \<in> set (for_each_term_operand (bterm (blocks m ! b))).
             v \<in> A \<union> block_results m (binsts (blocks m ! b)) \<or> vdef_a (vals m ! v) = kInvalidId)"
    if run: "ssa_run m f b A" for b A
  proof -
    obtain \<pi> where "root_path m f \<pi> b" using ssa_run_path [OF ok ext fok run] by blast
    then have b: "b \<in> set (fblocks f)" by (auto simp: root_path_def)
    then have bo: "block_ok m f b" using fok by (simp add: func_ok_def list_all_iff)
    have uses: "block_uses_ok m (build_dom_info m f) (collect_defs m f) b"
      by (rule dominance_checked [OF dom b block_list_okD(2) [OF ok b]])
    note av = available_assigned [OF ok ext fok run]
    have t: "bhas_term (blocks m ! b)" using bo ext by (simp add: block_ok_def)
    have "value_available_at m (build_dom_info m f) (collect_defs m f) v b (k + 1)"
      if k: "k < length (binsts (blocks m ! b))"
        and v: "v \<in> set (for_each_inst_operand (idata (insts m ! (binsts (blocks m ! b) ! k))))" for k v
    proof -
      have "(k, binsts (blocks m ! b) ! k) \<in> set (List.enumerate 0 (binsts (blocks m ! b)))"
        using k by (simp add: in_set_enumerate_eq)
      moreover have "binsts (blocks m ! b) ! k < length (insts m)"
        using bo k by (simp add: block_ok_def list_all_length)
      ultimately show ?thesis using uses v unfolding block_uses_ok_def Let_def list_all_iff by fastforce
    qed
    moreover have "value_available_at m (build_dom_info m f) (collect_defs m f) v b (length (binsts (blocks m ! b)) + 1)"
      if "v \<in> set (for_each_term_operand (bterm (blocks m ! b)))" for v
      using uses t that by (simp add: block_uses_ok_def Let_def list_all_iff)
    ultimately show ?thesis using av [of _ "length (binsts (blocks m ! b))"] av b by auto
  qed
  then show ?thesis unfolding uses_assigned_def by blast
qed

section \<open>Guarded passes keep an invariant\<close>

text \<open>
  The contract of a guarded pass: the check implies the invariant, and a pass that reports
  no change has kept it. Then both runners keep the invariant, whatever the pass does when
  it reports a change. A pass that leaves the module alone when it reports no change is such a
  pass for the check itself.
\<close>

locale guarded_pass =
  fixes ok :: "omodule \<Rightarrow> bool" and inv :: "omodule \<Rightarrow> bool" and p :: pass
  assumes ok_inv: "ok m \<Longrightarrow> inv m"
    and quiet_inv: "inv m \<Longrightarrow> p m = Some (m', False) \<Longrightarrow> inv m'"
begin

lemma once_inv: "inv m \<Longrightarrow> run_guarded_pass_once ok p m = Some (m', changed) \<Longrightarrow> inv m'"
  using quiet_inv [of m] ok_inv
  by (auto simp: run_guarded_pass_once_def split: option.splits if_splits)

lemma rounds_inv: "inv m \<Longrightarrow> guarded_rounds n ok p m any = Some (m', changed) \<Longrightarrow> inv m'"
proof (induction n arbitrary: m any)
  case (Suc n)
  from Suc.prems(2) obtain m1 ch where p: "p m = Some (m1, ch)" by (auto split: option.splits)
  show ?case
  proof (cases "ch \<and> ok m1")
    case True
    with Suc.IH [of m1 True] Suc.prems p ok_inv show ?thesis by simp
  next
    case False
    with Suc.prems p quiet_inv [of m] show ?thesis by (auto split: if_splits)
  qed
qed simp

lemma fixpoint_inv: "inv m \<Longrightarrow> run_guarded_pass_fixpoint n ok p m = Some (m', changed) \<Longrightarrow> inv m'"
  unfolding run_guarded_pass_fixpoint_def by (rule rounds_inv)

end

locale tidy_pass =
  fixes ok :: "omodule \<Rightarrow> bool" and p :: pass
  assumes quiet_same: "p m = Some (m', False) \<Longrightarrow> m' = m"
begin

text \<open>The guarded module satisfies the check, or is the module before.\<close>

lemma rounds_ok_or_same:
  "guarded_rounds n ok p m any = Some (m', changed) \<Longrightarrow> ok m' \<or> (m' = m \<and> changed = any)"
proof (induction n arbitrary: m any)
  case (Suc n)
  from Suc.prems obtain m1 ch where p: "p m = Some (m1, ch)" by (auto split: option.splits)
  show ?case
  proof (cases "ch \<and> ok m1")
    case True
    with Suc.IH [of m1 True] Suc.prems p show ?thesis by auto
  next
    case False
    with Suc.prems p quiet_same [of m] show ?thesis by (auto split: if_splits)
  qed
qed simp

lemma fixpoint_ok_or_same:
  "run_guarded_pass_fixpoint n ok p m = Some (m', changed) \<Longrightarrow> ok m' \<or> (m' = m \<and> \<not> changed)"
  unfolding run_guarded_pass_fixpoint_def using rounds_ok_or_same by blast

end

sublocale tidy_pass \<subseteq> guarded: guarded_pass ok ok p
  by unfold_locales (auto dest: quiet_same)

section \<open>Property\<close>



end
