(* ===== verification/OIR_Fold.thy ===== *)
theory OIR_Fold
  imports OIR_Guard OIR_Alias "HOL-Library.Word" "HOL-Library.Signed_Division"
begin

text \<open>
  Constant folding of \<open>oir_passes.cpp\<close>: integer literals are parsed to \<open>int64_t\<close>, constant
  operands are looked up through the definition of a value, and the result is written back
  as decimal text. Signed overflow and \<open>INT64_MIN / -1\<close>, undefined in C++, make the model
  return \<open>None\<close>. The reference is a machine of 64-bit words.
\<close>

section \<open>Literals\<close>

definition int64_min :: int where "int64_min = - (2 ^ 63)"
definition int64_max :: int where "int64_max = 2 ^ 63 - 1"

definition in_int64 :: "int \<Rightarrow> bool" where
  "in_int64 i \<longleftrightarrow> int64_min \<le> i \<and> i \<le> int64_max"

text \<open>The copying loop after the first character: digits are kept, underscores skipped.\<close>

fun lit_digits :: "string \<Rightarrow> string" where
  "lit_digits [] = []"
| "lit_digits (ch # cs) =
     (if is_digit ch then ch # lit_digits cs
      else if ch = CHR ''_'' then lit_digits cs
      else [])"

text \<open>\<open>std::from_chars\<close> on text that is an optional sign and digits: no leading plus.\<close>

definition from_chars :: "string \<Rightarrow> int option" where
  "from_chars s =
     (let neg = (s \<noteq> [] \<and> hd s = CHR ''-''); ds = (if neg then tl s else s)
      in if ds = [] \<or> \<not> list_all is_digit ds then None
         else let n = int (undec (map char_digit ds)); i = (if neg then - n else n)
              in if in_int64 i then Some i else None)"

definition parse_int_lit :: "string \<Rightarrow> int option" where
  "parse_int_lit s =
     (let has_sign = (s \<noteq> [] \<and> (hd s = CHR ''+'' \<or> hd s = CHR ''-''));
          digits = (if has_sign then hd s # lit_digits (tl s) else lit_digits s)
      in if digits = [] \<or> has_sign \<and> length digits = 1 then None
         else from_chars digits)"

lemma lit_digits_all: "list_all is_digit ds \<Longrightarrow> lit_digits ds = ds"
  by (induction ds) auto

lemma lit_digits_digits: "list_all is_digit (lit_digits s)"
  by (induction s) auto

lemma sign_not_digit: "\<not> is_digit (CHR ''-'')" "\<not> is_digit (CHR ''+'')"
  by (simp_all add: is_digit_def)

lemma dec_digits_all: "list_all is_digit (dec n)"
  by (simp add: list_all_iff is_digit_dec)

lemma dec_hd: "hd (dec n) \<noteq> CHR ''-''" "hd (dec n) \<noteq> CHR ''+''"
  using dec_digits_all [of n] sign_not_digit by (cases "dec n"; auto)+

lemma from_chars_dec_int: "in_int64 n \<Longrightarrow> from_chars (dec_int n) = Some n"
  using dec_hd(1) [of "nat n"]
  by (auto simp: from_chars_def dec_int_def dec_digits_all Let_def)

lemma parse_dec_int: "in_int64 n \<Longrightarrow> parse_int_lit (dec_int n) = Some n"
proof -
  assume n: "in_int64 n"
  have "lit_digits (dec k) = dec k" for k by (rule lit_digits_all [OF dec_digits_all])
  then show ?thesis
    using from_chars_dec_int [OF n] dec_hd [of "nat n"] by (auto simp: parse_int_lit_def dec_int_def Let_def)
qed

lemma parse_in_range: "parse_int_lit s = Some n \<Longrightarrow> in_int64 n"
  by (auto simp: parse_int_lit_def from_chars_def Let_def split: if_splits)

section \<open>Constant operands\<close>

definition as_const_int :: "omodule \<Rightarrow> nat \<Rightarrow> int option" where
  "as_const_int m v = (case def_inst m v of Some (InstConstInt t) \<Rightarrow> parse_int_lit t | _ \<Rightarrow> None)"

definition as_const_bool :: "omodule \<Rightarrow> nat \<Rightarrow> bool option" where
  "as_const_bool m v = (case def_inst m v of Some (InstConstBool b) \<Rightarrow> Some b | _ \<Rightarrow> None)"

definition is_const_null :: "omodule \<Rightarrow> nat \<Rightarrow> bool" where
  "is_const_null m v = (case def_inst m v of Some InstConstNull \<Rightarrow> True | _ \<Rightarrow> False)"

section \<open>Folding one instruction\<close>

datatype fold_result = FoldTo inst_data | FoldSkip | FoldAlias nat | FoldUB

definition int64_result :: "int \<Rightarrow> fold_result" where
  "int64_result i = (if in_int64 i then FoldTo (InstConstInt (dec_int i)) else FoldUB)"

definition fold_unary_int :: "un_op \<Rightarrow> int \<Rightarrow> fold_result" where
  "fold_unary_int op iv =
     (case op of UnNeg \<Rightarrow> int64_result (- iv)
      | UnBitNot \<Rightarrow> int64_result (- iv - 1)
      | _ \<Rightarrow> int64_result iv)"

definition fold_unary :: "omodule \<Rightarrow> un_op \<Rightarrow> nat \<Rightarrow> fold_result" where
  "fold_unary m op src =
     (case (if op \<in> {UnNeg, UnPlus, UnBitNot} then as_const_int m src else None) of
        Some iv \<Rightarrow> fold_unary_int op iv
      | None \<Rightarrow>
          (case (if op = UnNot then as_const_bool m src else None) of
             Some bv \<Rightarrow> FoldTo (InstConstBool (\<not> bv))
           | None \<Rightarrow> FoldSkip))"

fun fold_bin_int :: "bin_op \<Rightarrow> nat \<Rightarrow> int \<Rightarrow> int \<Rightarrow> fold_result" where
  "fold_bin_int BinAdd lhs li ri = int64_result (li + ri)"
| "fold_bin_int BinSub lhs li ri = int64_result (li - ri)"
| "fold_bin_int BinMul lhs li ri = int64_result (li * ri)"
| "fold_bin_int BinDiv lhs li ri =
     (if ri = 0 then FoldSkip else int64_result (li sdiv ri))"
| "fold_bin_int BinRem lhs li ri =
     (if ri = 0 then FoldSkip
      else if \<not> in_int64 (li sdiv ri) then FoldUB else int64_result (li smod ri))"
| "fold_bin_int BinLt lhs li ri = FoldTo (InstConstBool (li < ri))"
| "fold_bin_int BinLe lhs li ri = FoldTo (InstConstBool (li \<le> ri))"
| "fold_bin_int BinGt lhs li ri = FoldTo (InstConstBool (li > ri))"
| "fold_bin_int BinGe lhs li ri = FoldTo (InstConstBool (li \<ge> ri))"
| "fold_bin_int BinEq lhs li ri = FoldTo (InstConstBool (li = ri))"
| "fold_bin_int BinNe lhs li ri = FoldTo (InstConstBool (li \<noteq> ri))"
| "fold_bin_int BinLogicalAnd lhs li ri = FoldSkip"
| "fold_bin_int BinLogicalOr lhs li ri = FoldSkip"
| "fold_bin_int BinNullCoalesce lhs li ri = FoldAlias lhs"

definition fold_bin :: "omodule \<Rightarrow> bin_op \<Rightarrow> nat \<Rightarrow> nat \<Rightarrow> fold_result" where
  "fold_bin m op lhs rhs =
     (if op = BinNullCoalesce \<and> is_const_null m lhs then FoldAlias rhs
      else (case (as_const_int m lhs, as_const_int m rhs) of
              (Some li, Some ri) \<Rightarrow> fold_bin_int op lhs li ri
            | _ \<Rightarrow> FoldSkip))"

definition fold_inst :: "omodule \<Rightarrow> oinst \<Rightarrow> fold_result" where
  "fold_inst m inst =
     (if iresult inst = kInvalidId \<or> length (vals m) \<le> iresult inst then FoldSkip
      else (case idata inst of
              InstUnary op src \<Rightarrow> fold_unary m op src
            | InstBinOp op lhs rhs \<Rightarrow> fold_bin m op lhs rhs
            | _ \<Rightarrow> FoldSkip))"

section \<open>The pass\<close>

definition set_inst :: "omodule \<Rightarrow> nat \<Rightarrow> oinst \<Rightarrow> omodule" where
  "set_inst m i inst = m\<lparr>insts := (insts m)[i := inst]\<rparr>"

definition const_fold_at :: "nat \<Rightarrow> omodule \<times> bool \<Rightarrow> (omodule \<times> bool) option" where
  "const_fold_at i = (\<lambda>(m, changed).
     let inst = insts m ! i in
     case fold_inst m inst of
       FoldTo d \<Rightarrow> Some (set_inst m i (inst\<lparr>idata := d, ieff := EffPure\<rparr>), True)
     | FoldSkip \<Rightarrow> Some (m, changed)
     | FoldAlias v \<Rightarrow> Some (rewrite_operands m [iresult inst \<mapsto> v], True)
     | FoldUB \<Rightarrow> None)"

fun const_fold_from :: "nat list \<Rightarrow> omodule \<times> bool \<Rightarrow> (omodule \<times> bool) option" where
  "const_fold_from [] st = Some st"
| "const_fold_from (i # is) st =
     (case const_fold_at i st of None \<Rightarrow> None | Some st' \<Rightarrow> const_fold_from is st')"

definition const_fold :: "omodule \<Rightarrow> (omodule \<times> bool) option" where
  "const_fold m = const_fold_from [0..<length (insts m)] (m, False)"

section \<open>The reference machine\<close>

text \<open>
  Scalars are 64-bit words and booleans; \<open>other\<close> interprets every instruction the
  arithmetic clauses do not. Division by zero is left to \<open>other\<close>.
\<close>

datatype 'e mval = MInt "64 word" | MBool bool | MOther 'e

definition sword :: "int \<Rightarrow> 64 word" where
  "sword = word_of_int"

fun machine_bin :: "bin_op \<Rightarrow> 64 word \<Rightarrow> 64 word \<Rightarrow> 'e mval option" where
  "machine_bin BinAdd x y = Some (MInt (x + y))"
| "machine_bin BinSub x y = Some (MInt (x - y))"
| "machine_bin BinMul x y = Some (MInt (x * y))"
| "machine_bin BinDiv x y = (if y = 0 then None else Some (MInt (sword (sint x sdiv sint y))))"
| "machine_bin BinRem x y = (if y = 0 then None else Some (MInt (sword (sint x smod sint y))))"
| "machine_bin BinLt x y = Some (MBool (sint x < sint y))"
| "machine_bin BinLe x y = Some (MBool (sint x \<le> sint y))"
| "machine_bin BinGt x y = Some (MBool (sint x > sint y))"
| "machine_bin BinGe x y = Some (MBool (sint x \<ge> sint y))"
| "machine_bin BinEq x y = Some (MBool (x = y))"
| "machine_bin BinNe x y = Some (MBool (x \<noteq> y))"
| "machine_bin _ x y = None"

fun machine_un :: "un_op \<Rightarrow> 64 word \<Rightarrow> 'e mval option" where
  "machine_un UnPlus x = Some (MInt x)"
| "machine_un UnNeg x = Some (MInt (- x))"
| "machine_un UnBitNot x = Some (MInt (- x - 1))"
| "machine_un UnNot x = None"

fun machine_un_val :: "un_op \<Rightarrow> 'e mval \<Rightarrow> 'e mval option" where
  "machine_un_val op (MInt x) = machine_un op x"
| "machine_un_val op (MBool b) = (if op = UnNot then Some (MBool (\<not> b)) else None)"
| "machine_un_val op (MOther e) = None"

definition machine_bin_val :: "bin_op \<Rightarrow> 'e mval \<Rightarrow> 'e mval \<Rightarrow> 'e mval option" where
  "machine_bin_val op v w = (case (v, w) of (MInt x, MInt y) \<Rightarrow> machine_bin op x y | _ \<Rightarrow> None)"

fun machine_scalar :: "inst_data \<Rightarrow> 'e mval list \<Rightarrow> 'e mval option" where
  "machine_scalar (InstConstInt t) vs =
     (if vs = [] then map_option (\<lambda>n. MInt (sword n)) (parse_int_lit t) else None)"
| "machine_scalar (InstConstBool b) vs = (if vs = [] then Some (MBool b) else None)"
| "machine_scalar (InstUnary op src) vs = (case vs of [v] \<Rightarrow> machine_un_val op v | _ \<Rightarrow> None)"
| "machine_scalar (InstBinOp op lhs rhs) vs =
     (case vs of [v, w] \<Rightarrow> machine_bin_val op v w | _ \<Rightarrow> None)"
| "machine_scalar d vs = None"

definition machine :: "('e mval, 's) interp \<Rightarrow> ('e mval, 's) interp" where
  "machine other d vs s =
     (case machine_scalar d vs of Some v \<Rightarrow> Some (v, s) | None \<Rightarrow> other d vs s)"

lemma sint_sword: "in_int64 i \<Longrightarrow> sint (sword i) = i"
  by (auto simp: sword_def sint_sbintrunc' in_int64_def int64_min_def int64_max_def
      intro!: signed_take_bit_int_eq_self)

lemma sword_hom:
  "sword a + sword b = sword (a + b)" "sword a - sword b = sword (a - b)"
  "sword a * sword b = sword (a * b)" "- sword a = sword (- a)" "sword 0 = 0"
  by (simp_all add: sword_def)

lemma sword_compl: "sword a - 1 = sword (a - 1)"
  by (simp add: sword_def)

lemma sword_eq_iff: "in_int64 a \<Longrightarrow> in_int64 b \<Longrightarrow> sword a = sword b \<longleftrightarrow> a = b"
  by (metis sint_sword)

lemma int64_result_machine:
  "int64_result i = FoldTo d \<Longrightarrow> machine_scalar d [] = Some (MInt (sword i))"
  by (auto simp: int64_result_def parse_dec_int split: if_splits)

text \<open>What a folded instruction computes is what the machine computed for the original.\<close>

lemma fold_bin_int_machine:
  assumes "fold_bin_int op lhs a b = FoldTo d" "in_int64 a" "in_int64 b"
  shows "\<exists>v. machine_scalar d [] = Some v \<and> machine_bin op (sword a) (sword b) = Some v"
proof -
  have z: "sword b = 0 \<longleftrightarrow> b = 0" using sword_eq_iff [of b 0] assms(3)
    by (simp add: sword_hom in_int64_def int64_min_def int64_max_def)
  show ?thesis
    using assms by (cases op)
      (auto simp: sint_sword sword_hom sword_eq_iff z split: if_splits dest: int64_result_machine)
qed

lemma fold_unary_int_machine:
  assumes "fold_unary_int op a = FoldTo d" "in_int64 a" "op \<noteq> UnNot"
  shows "\<exists>v. machine_scalar d [] = Some v \<and> machine_un op (sword a) = Some v"
  using assms by (cases op)
    (auto simp: fold_unary_int_def sword_hom sword_compl dest: int64_result_machine)

section \<open>Single definitions\<close>

text \<open>
  The contract on \<open>def_a\<close> and \<open>def_b\<close>: the result of an instruction points back at it, a
  block parameter has a parameter index.
\<close>

definition ssa_defs :: "omodule \<Rightarrow> ofunc \<Rightarrow> bool" where
  "ssa_defs m f \<longleftrightarrow>
     (\<forall>b \<in> set (fblocks f).
        (\<forall>iid \<in> set (binsts (blocks m ! b)). iid < length (insts m)
           \<and> (let r = iresult (insts m ! iid) in r \<noteq> kInvalidId \<longrightarrow>
                r < length (vals m) \<and> vdef_a (vals m ! r) = iid \<and> vdef_b (vals m ! r) = kInvalidId))
        \<and> (\<forall>p \<in> set (bparams (blocks m ! b)). p < length (vals m) \<and> vdef_b (vals m ! p) \<noteq> kInvalidId))"

lemma def_inst_None: "vdef_a (vals m ! v) = kInvalidId \<Longrightarrow> def_inst m v = None"
  "vdef_b (vals m ! v) \<noteq> kInvalidId \<Longrightarrow> def_inst m v = None"
  by (simp_all add: def_inst_def)

lemma as_const_None: "def_inst m v = None \<Longrightarrow> as_const_int m v = None \<and> as_const_bool m v = None"
  by (simp add: as_const_int_def as_const_bool_def)

section \<open>Constants along a run\<close>

definition const_env :: "omodule \<Rightarrow> nat set \<Rightarrow> (nat \<Rightarrow> 'e mval) \<Rightarrow> bool" where
  "const_env m A env \<longleftrightarrow>
     (\<forall>v \<in> A. (\<forall>n. as_const_int m v = Some n \<longrightarrow> env v = MInt (sword n))
            \<and> (\<forall>c. as_const_bool m v = Some c \<longrightarrow> env v = MBool c))"

definition result_def_ok :: "omodule \<Rightarrow> nat \<Rightarrow> bool" where
  "result_def_ok m iid \<longleftrightarrow>
     iid < length (insts m) \<and> (let r = iresult (insts m ! iid) in r \<noteq> kInvalidId \<longrightarrow>
       r < length (vals m) \<and> vdef_a (vals m ! r) = iid \<and> vdef_b (vals m ! r) = kInvalidId)"

lemma const_env_exec:
  assumes env: "const_env m A env" and d: "result_def_ok m iid"
    and ex: "exec_inst (machine other) (insts m ! iid) (env, s) = Some (env', s')"
  shows "const_env m (insert (iresult (insts m ! iid)) A) env'"
proof -
  let ?i = "insts m ! iid" and ?r = "iresult (insts m ! iid)"
  show ?thesis
  proof (cases "?r = kInvalidId")
    case True
    then have "env' = env" using ex by (auto simp: exec_inst_def)
    moreover have "def_inst m ?r = None" using True by (simp add: def_inst_def)
    ultimately show ?thesis using env as_const_None by (auto simp: const_env_def)
  next
    case False
    then obtain v where v: "machine other (opcode (idata ?i)) (map env (data_operands (idata ?i))) s = Some (v, s')"
      "env' = env(?r := v)" using ex by (auto simp: exec_inst_def)
    have "as_const_int m ?r = Some n \<Longrightarrow> v = MInt (sword n)"
      and "as_const_bool m ?r = Some c \<Longrightarrow> v = MBool c" for n c
      using v(1) by (auto simp: as_const_int_def as_const_bool_def def_inst_def machine_def opcode_def
          split: option.splits inst_data.splits if_splits) (use d False in \<open>auto simp: result_def_ok_def Let_def\<close>)
    with env v(2) show ?thesis by (auto simp: const_env_def)
  qed
qed

text \<open>
  Two instruction sequences that agree where the constants are known: \<open>m2\<close> differs from
  \<open>m1\<close> only in the data of instructions, and each of them computes the same in both from an
  environment that knows the constants assigned so far.
\<close>

lemma exec_insts_agree:
  assumes len: "length (insts m2) = length (insts m1)"
    and same: "\<And>iid A env s. iid \<in> set xs \<Longrightarrow> const_env m1 A env \<Longrightarrow>
      (\<forall>v \<in> set (for_each_inst_operand (idata (insts m1 ! iid))). v \<in> A \<or> vdef_a (vals m1 ! v) = kInvalidId) \<Longrightarrow>
      exec_inst (machine other) (insts m2 ! iid) (env, s) = exec_inst (machine other) (insts m1 ! iid) (env, s)"
    and d: "\<forall>iid \<in> set xs. result_def_ok m1 iid"
    and uses: "\<forall>k < length xs. \<forall>v \<in> set (for_each_inst_operand (idata (insts m1 ! (xs ! k)))).
      v \<in> A \<union> block_results m1 (take k xs) \<or> vdef_a (vals m1 ! v) = kInvalidId"
    and env: "const_env m1 A env"
  shows "exec_insts (machine other) (map (\<lambda>iid. insts m2 ! iid) xs) (env, s)
           = exec_insts (machine other) (map (\<lambda>iid. insts m1 ! iid) xs) (env, s)
    \<and> (\<forall>env' s'. exec_insts (machine other) (map (\<lambda>iid. insts m1 ! iid) xs) (env, s) = Some (env', s')
         \<longrightarrow> const_env m1 (A \<union> block_results m1 xs) env')"
  using same d uses env
proof (induction xs arbitrary: A env s)
  case Nil
  then show ?case by (simp add: block_results_def)
next
  case (Cons iid xs)
  let ?r = "iresult (insts m1 ! iid)"
  have ops: "\<forall>v \<in> set (for_each_inst_operand (idata (insts m1 ! iid))). v \<in> A \<or> vdef_a (vals m1 ! v) = kInvalidId"
    using spec [OF Cons.prems(3), of 0] by (simp add: block_results_def)
  have e: "exec_inst (machine other) (insts m2 ! iid) (env, s) = exec_inst (machine other) (insts m1 ! iid) (env, s)"
    using Cons.prems(1) [OF _ Cons.prems(4) ops] by simp
  have iid: "iid < length (insts m1)" using Cons.prems(2) by (simp add: result_def_ok_def)
  have res: "insert ?r A \<union> block_results m1 ys = A \<union> block_results m1 (iid # ys)" for ys
    using iid by (auto simp: block_results_def)
  show ?case
  proof (cases "exec_inst (machine other) (insts m1 ! iid) (env, s)")
    case None
    with e show ?thesis by simp
  next
    case (Some st)
    obtain env1 s1 where st: "st = (env1, s1)" by fastforce
    have c1: "const_env m1 (insert ?r A) env1"
      by (rule const_env_exec [OF Cons.prems(4) _ Some [unfolded st]]) (use Cons.prems(2) in simp)
    have "\<forall>k < length xs. \<forall>v \<in> set (for_each_inst_operand (idata (insts m1 ! (xs ! k)))).
        v \<in> insert ?r A \<union> block_results m1 (take k xs) \<or> vdef_a (vals m1 ! v) = kInvalidId"
      unfolding res
    proof (intro allI impI)
      fix k assume "k < length xs"
      then show "\<forall>v \<in> set (for_each_inst_operand (idata (insts m1 ! (xs ! k)))).
          v \<in> A \<union> block_results m1 (iid # take k xs) \<or> vdef_a (vals m1 ! v) = kInvalidId"
        using spec [OF Cons.prems(3), of "Suc k"] by simp
    qed
    from Cons.IH [OF _ _ this c1, of s1] Cons.prems(1,2)
    have "exec_insts (machine other) (map (\<lambda>iid. insts m2 ! iid) xs) (env1, s1)
           = exec_insts (machine other) (map (\<lambda>iid. insts m1 ! iid) xs) (env1, s1)
      \<and> (\<forall>env' s'. exec_insts (machine other) (map (\<lambda>iid. insts m1 ! iid) xs) (env1, s1) = Some (env', s')
         \<longrightarrow> const_env m1 (insert ?r A \<union> block_results m1 xs) env')" by auto
    with e Some st show ?thesis unfolding res by simp
  qed
qed

lemma bind_params_const_env:
  assumes "const_env m A env" "\<forall>p \<in> set ps. def_inst m p = None" "set ps' \<subseteq> set ps"
  shows "const_env m (A \<union> set ps') (bind_params ps vs env)"
proof -
  have other: "fold (\<lambda>(p, v) e. e(p := v)) zs env0 x = env0 x" if "x \<notin> fst ` set zs"
    for zs :: "(nat \<times> 'a mval) list" and env0 x
    using that by (induction zs arbitrary: env0) auto
  have "bind_params ps vs env x = env x" if "x \<notin> set ps" for x
    unfolding bind_params_def by (rule other) (use that in \<open>auto dest: set_zip_leftD\<close>)
  moreover have "x \<in> A" if "x \<in> A \<union> set ps'" "x \<notin> set ps" for x
    using that assms(3) by blast
  moreover have "as_const_int m x = None \<and> as_const_bool m x = None" if "x \<in> set ps" for x
    using as_const_None assms(2) that by blast
  ultimately show ?thesis
    using assms(1) unfolding const_env_def by (metis option.distinct(1))
qed

section \<open>Folding one instruction keeps what it computes\<close>

lemma fold_inst_exec:
  assumes f: "fold_inst m inst = FoldTo d" and env: "const_env m A env"
    and ops: "\<forall>v \<in> set (for_each_inst_operand (idata inst)). v \<in> A \<or> vdef_a (vals m ! v) = kInvalidId"
  shows "exec_inst (machine other) (inst\<lparr>idata := d, ieff := EffPure\<rparr>) (env, s)
    = exec_inst (machine other) inst (env, s)"
proof -
  have known: "env v = MInt (sword n)" if "as_const_int m v = Some n" "v \<in> set (for_each_inst_operand (idata inst))" for v n
    using env ops that def_inst_None(1) [of m v] as_const_None [of m v] by (fastforce simp: const_env_def)
  have knownb: "env v = MBool c" if "as_const_bool m v = Some c" "v \<in> set (for_each_inst_operand (idata inst))" for v c
    using env ops that def_inst_None(1) [of m v] as_const_None [of m v] by (fastforce simp: const_env_def)
  have rng: "in_int64 n" if "as_const_int m v = Some n" for v n
    using that parse_in_range by (auto simp: as_const_int_def split: option.splits inst_data.splits)
  have "\<exists>v. machine_scalar (opcode d) (map env (data_operands d)) = Some v
      \<and> machine_scalar (opcode (idata inst)) (map env (data_operands (idata inst))) = Some v"
  proof (cases "idata inst")
    case (InstUnary op src)
    with f have fu: "fold_unary m op src = FoldTo d" by (simp add: fold_inst_def split: if_splits)
    show ?thesis
    proof (cases "if op \<in> {UnNeg, UnPlus, UnBitNot} then as_const_int m src else None")
      case (Some iv)
      with fu have i: "fold_unary_int op iv = FoldTo d" "as_const_int m src = Some iv" "op \<noteq> UnNot"
        by (auto simp: fold_unary_def split: if_splits)
      then obtain t where "d = InstConstInt t"
        by (auto simp: fold_unary_int_def int64_result_def split: un_op.splits if_splits)
      with fold_unary_int_machine [OF i(1) rng [OF i(2)] i(3)] known [OF i(2)] InstUnary show ?thesis
        by (auto simp: opcode_def)
    next
      case None
      with fu obtain bv where "op = UnNot" "as_const_bool m src = Some bv" "d = InstConstBool (\<not> bv)"
        by (auto simp: fold_unary_def split: option.splits if_splits)
      with knownb [of src bv] InstUnary show ?thesis by (simp add: opcode_def)
    qed
  next
    case (InstBinOp op lhs rhs)
    with f have "fold_bin m op lhs rhs = FoldTo d" by (simp add: fold_inst_def split: if_splits)
    then obtain a b where ab: "as_const_int m lhs = Some a" "as_const_int m rhs = Some b"
      "fold_bin_int op lhs a b = FoldTo d"
      by (auto simp: fold_bin_def split: option.splits if_splits)
    then have "(\<exists>t. d = InstConstInt t) \<or> (\<exists>c. d = InstConstBool c)"
      by (cases op) (auto simp: int64_result_def split: if_splits)
    with fold_bin_int_machine [OF ab(3) rng [OF ab(1)] rng [OF ab(2)]] known [OF ab(1)] known [OF ab(2)] InstBinOp
    show ?thesis by (auto simp: opcode_def machine_bin_val_def)
  qed (use f in \<open>auto simp: fold_inst_def split: if_splits\<close>)
  then show ?thesis by (auto simp: exec_inst_def machine_def)
qed

section \<open>One step of the pass\<close>

lemma set_inst_simps [simp]:
  "blocks (set_inst m i x) = blocks m" "vals (set_inst m i x) = vals m"
  "funcs (set_inst m i x) = funcs m" "length (insts (set_inst m i x)) = length (insts m)"
  by (simp_all add: set_inst_def)

lemma insts_set_inst:
  "insts (set_inst m i x) ! j = (if j = i \<and> i < length (insts m) then x else insts m ! j)"
  by (auto simp: set_inst_def nth_list_update not_less list_update_beyond)

text \<open>What the steps keep: single definitions, assigned uses, no null coalescing.\<close>

definition foldable :: "omodule \<Rightarrow> ofunc \<Rightarrow> bool" where
  "foldable m f \<longleftrightarrow>
     ssa_defs m f \<and> uses_assigned m f
     \<and> list_all (\<lambda>i. \<forall>lhs rhs. idata i \<noteq> InstBinOp BinNullCoalesce lhs rhs) (insts m)"

lemma fold_inst_no_alias:
  "\<forall>lhs rhs. idata i \<noteq> InstBinOp BinNullCoalesce lhs rhs \<Longrightarrow> fold_inst m i \<noteq> FoldAlias v"
proof -
  assume n: "\<forall>lhs rhs. idata i \<noteq> InstBinOp BinNullCoalesce lhs rhs"
  have "fold_unary m op src \<noteq> FoldAlias v" for op src
    by (auto simp: fold_unary_def fold_unary_int_def int64_result_def split: option.splits un_op.splits if_splits)
  moreover have "fold_bin_int op lhs a b \<noteq> FoldAlias v" if "op \<noteq> BinNullCoalesce" for op lhs a b
    using that by (cases op) (auto simp: int64_result_def)
  ultimately show ?thesis
    using n by (auto simp: fold_inst_def fold_bin_def split: inst_data.splits option.splits if_splits)
qed

lemma fold_inst_const:
  "fold_inst m i = FoldTo d \<Longrightarrow> (\<exists>t. d = InstConstInt t) \<or> (\<exists>c. d = InstConstBool c)"
proof -
  have r: "int64_result x = FoldTo d \<Longrightarrow> \<exists>t. d = InstConstInt t" for x
    by (auto simp: int64_result_def split: if_splits)
  have "fold_unary m op src = FoldTo d \<Longrightarrow> ?thesis" for op src
    using r by (auto simp: fold_unary_def fold_unary_int_def split: option.splits un_op.splits if_splits)
  moreover have "fold_bin_int op lhs a b = FoldTo d \<Longrightarrow> ?thesis" for op lhs a b
    using r by (cases op) (auto split: if_splits)
  ultimately show "fold_inst m i = FoldTo d \<Longrightarrow> ?thesis"
    by (auto simp: fold_inst_def fold_bin_def split: inst_data.splits option.splits if_splits)
qed

lemma ssa_run_blocks:
  assumes "ssa_run m1 f b A" "blocks m2 = blocks m1" "\<And>xs. block_results m2 xs = block_results m1 xs"
  shows "ssa_run m2 f b A"
  using assms(1)
proof (induction rule: ssa_run.induct)
  case ssa_start
  show ?case using ssa_run.ssa_start [of m2 f] by (simp add: assms(2))
next
  case (ssa_edge b A t args)
  show ?case
    using ssa_run.ssa_edge [OF ssa_edge.IH, of t args] ssa_edge.hyps by (simp add: assms(2,3))
qed

lemma ssa_run_set_inst:
  assumes "iresult x = iresult (insts m ! i)"
  shows "ssa_run (set_inst m i x) f b A \<longleftrightarrow> ssa_run m f b A"
proof -
  have r: "block_results (set_inst m i x) xs = block_results m xs" for xs
    using assms by (auto simp: block_results_def insts_set_inst)
  show ?thesis
    using ssa_run_blocks [of m f b A "set_inst m i x"] ssa_run_blocks [of "set_inst m i x" f b A m] r
    by auto
qed

lemma foldable_set_inst:
  assumes fb: "foldable m f" and x: "iresult x = iresult (insts m ! i)"
    and d: "(\<exists>t. idata x = InstConstInt t) \<or> (\<exists>c. idata x = InstConstBool c)"
  shows "foldable (set_inst m i x) f"
proof -
  have r: "block_results (set_inst m i x) xs = block_results m xs" for xs
    using x by (auto simp: block_results_def insts_set_inst)
  have res: "iresult (insts (set_inst m i x) ! j) = iresult (insts m ! j)" for j
    using x by (simp add: insts_set_inst)
  have ops: "set (for_each_inst_operand (idata (insts (set_inst m i x) ! j)))
      \<subseteq> set (for_each_inst_operand (idata (insts m ! j)))" for j
    using d by (auto simp: insts_set_inst)
  have "ssa_defs (set_inst m i x) f"
    using fb unfolding foldable_def ssa_defs_def by (simp add: res)
  moreover have "uses_assigned (set_inst m i x) f"
    using fb ops unfolding foldable_def uses_assigned_def by (simp add: ssa_run_set_inst [OF x] r) blast
  moreover have "list_all (\<lambda>i. \<forall>lhs rhs. idata i \<noteq> InstBinOp BinNullCoalesce lhs rhs) (insts (set_inst m i x))"
    using fb d by (auto simp: foldable_def list_all_length insts_set_inst)
  ultimately show ?thesis by (simp add: foldable_def)
qed

lemma exec_fold_step:
  assumes f: "fold_inst m (insts m ! i) = FoldTo d" and fb: "foldable m f"
    and run: "ssa_run m f b A" and env: "const_env m A env"
  defines "m2 \<equiv> set_inst m i ((insts m ! i)\<lparr>idata := d, ieff := EffPure\<rparr>)"
  shows "exec_insts (machine other) (block_insts m2 b) (env, s) = exec_insts (machine other) (block_insts m b) (env, s)
    \<and> (\<forall>env' s'. exec_insts (machine other) (block_insts m b) (env, s) = Some (env', s')
         \<longrightarrow> const_env m (A \<union> block_results m (binsts (blocks m ! b))) env')"
proof -
  let ?xs = "binsts (blocks m ! b)"
  have bin: "b \<in> set (fblocks f)"
    and uses: "\<forall>k < length ?xs. \<forall>v \<in> set (for_each_inst_operand (idata (insts m ! (?xs ! k)))).
      v \<in> A \<union> block_results m (take k ?xs) \<or> vdef_a (vals m ! v) = kInvalidId"
    using fb run unfolding foldable_def uses_assigned_def by blast+
  have d: "\<forall>iid \<in> set ?xs. result_def_ok m iid"
    using fb bin unfolding foldable_def ssa_defs_def result_def_ok_def by blast
  have len: "length (insts m2) = length (insts m)" by (simp add: m2_def)
  have "exec_inst (machine other) (insts m2 ! iid) (env, s) = exec_inst (machine other) (insts m ! iid) (env, s)"
    if "const_env m A env"
      "\<forall>v \<in> set (for_each_inst_operand (idata (insts m ! iid))). v \<in> A \<or> vdef_a (vals m ! v) = kInvalidId"
    for iid A env s
    using fold_inst_exec [OF f that(1)] that(2) by (auto simp: m2_def insts_set_inst)
  from exec_insts_agree [OF len this d uses env] show ?thesis
    by (simp add: block_insts_def m2_def)
qed

lemma runs_fold_step:
  assumes f: "fold_inst m (insts m ! i) = FoldTo d" and fb: "foldable m f"
  shows "runs (machine other) truth (set_inst m i ((insts m ! i)\<lparr>idata := d, ieff := EffPure\<rparr>)) f (fentry f) env s r
    \<longleftrightarrow> runs (machine other) truth m f (fentry f) env s r"
proof (rule runs_transfer [where J = "\<lambda>b env. \<exists>A. ssa_run m f b A \<and> const_env m A env"])
  have params: "\<forall>p \<in> set (bparams (blocks m ! b)). def_inst m p = None" if "b \<in> set (fblocks f)" for b
    using fb that def_inst_None(2) unfolding foldable_def ssa_defs_def by blast
  have owned: "b \<in> set (fblocks f)" if "ssa_run m f b A" for b A
    using fb that unfolding foldable_def uses_assigned_def by blast
  have "const_env m (set (bparams (blocks m ! fentry f))) env"
    using params [OF owned [OF ssa_start]] as_const_None [of m] by (simp add: const_env_def)
  with ssa_start show "\<exists>A. ssa_run m f (fentry f) A \<and> const_env m A env" by blast
  show "\<exists>A. ssa_run m f t A \<and> const_env m A (bind_params (bparams (blocks m ! t)) (map env' args) env')"
    if J: "\<exists>A. ssa_run m f b A \<and> const_env m A env" and "owned_by m f b" and ht: "bhas_term (blocks m ! b)"
      and ex: "exec_insts (machine other) (block_insts m b) (env, s) = Some (env', s')"
      and nx: "next_edge truth env' (bterm (blocks m ! b)) = Some (t, args)"
    for b env s env' s' t args
  proof -
    from J obtain A where A: "ssa_run m f b A" "const_env m A env" by blast
    from exec_fold_step [OF f fb A, of other s] ex
    have c: "const_env m (A \<union> block_results m (binsts (blocks m ! b))) env'" by blast
    note run = ssa_edge [OF A(1) ht next_edge_in [OF nx]]
    from bind_params_const_env [OF c params [OF owned [OF run]] set_take_subset [of "length args"]] run
    show ?thesis by blast
  qed
  show "exec_insts (machine other) (block_insts (set_inst m i ((insts m ! i)\<lparr>idata := d, ieff := EffPure\<rparr>)) b) (env, s)
      = exec_insts (machine other) (block_insts m b) (env, s)"
    if "\<exists>A. ssa_run m f b A \<and> const_env m A env" for b env s
    using that exec_fold_step [OF f fb, of b _ env other s] by blast
qed simp

lemma const_fold_from_runs:
  assumes "const_fold_from is (m, ch) = Some (m', ch')" "foldable m f" "\<forall>i \<in> set is. i < length (insts m)"
  shows "runs (machine other) truth m' f (fentry f) env s r \<longleftrightarrow> runs (machine other) truth m f (fentry f) env s r"
  using assms
proof (induction "is" arbitrary: m ch)
  case (Cons i "is")
  show ?case
  proof (cases "fold_inst m (insts m ! i)")
    case (FoldTo d)
    let ?x = "(insts m ! i)\<lparr>idata := d, ieff := EffPure\<rparr>"
    have "const_fold_from is (set_inst m i ?x, True) = Some (m', ch')"
      using Cons.prems(1) FoldTo by (simp add: const_fold_at_def)
    moreover have "foldable (set_inst m i ?x) f"
      by (rule foldable_set_inst [OF Cons.prems(2)]) (use fold_inst_const [OF FoldTo] in simp_all)
    ultimately show ?thesis
      using Cons.IH [of "set_inst m i ?x" True] Cons.prems(3) runs_fold_step [OF FoldTo Cons.prems(2), of other truth env s r] by simp
  next
    case FoldSkip
    with Cons show ?thesis by (simp add: const_fold_at_def)
  next
    case (FoldAlias v)
    have "\<forall>lhs rhs. idata (insts m ! i) \<noteq> InstBinOp BinNullCoalesce lhs rhs"
      using Cons.prems(2,3) by (auto simp: foldable_def list_all_length)
    from fold_inst_no_alias [OF this] FoldAlias show ?thesis by blast
  next
    case FoldUB
    with Cons.prems(1) show ?thesis by (simp add: const_fold_at_def)
  qed
qed simp

section \<open>Properties\<close>

lemma sdiv_overflow:
  assumes "in_int64 a" "in_int64 b" "b \<noteq> 0"
  shows "\<not> in_int64 (a sdiv b) \<longleftrightarrow> a = int64_min \<and> b = - 1"
proof
  assume o: "\<not> in_int64 (a sdiv b)"
  have r: "- \<bar>a\<bar> \<le> a sdiv b" "a sdiv b \<le> \<bar>a\<bar>" using sdiv_int_range [of a b] by simp_all
  with o assms(1) have a: "a = int64_min"
    by (simp add: in_int64_def int64_min_def int64_max_def abs_if split: if_splits)
  moreover have "a sdiv b = - a"
    using r o a by (simp add: in_int64_def int64_min_def int64_max_def)
  ultimately show "a = int64_min \<and> b = - 1" using int_sdiv_negated_is_minus1 [of a b]
    by (simp add: int64_min_def)
qed (auto simp: in_int64_def int64_min_def int64_max_def)

lemma smod_in_int64: "in_int64 b \<Longrightarrow> b \<noteq> 0 \<Longrightarrow> in_int64 (a smod b)"
  using smod_int_range [of b a] by (auto simp: in_int64_def int64_min_def int64_max_def)

text \<open>integer text survives printing and parsing: the parser reads back what the folder
  prints for exactly the numbers of 64 bits, and it ignores a suffix that starts with neither
  a digit nor an underscore.\<close>
theorem parse_int_lit_reads_back:
  assumes "rest \<noteq> [] \<Longrightarrow> \<not> is_digit (hd rest) \<and> hd rest \<noteq> CHR ''_''"
  shows "parse_int_lit (dec_int n @ rest) = (if in_int64 n then Some n else None)"
proof -
  have "lit_digits (ds @ rest) = ds" if "list_all is_digit ds" for ds
    using that assms by (induction ds) (cases rest; auto)+
  note lit = this [OF dec_digits_all]
  have fc: "from_chars (dec_int n) = (if in_int64 n then Some n else None)"
    using dec_hd(1) [of "nat n"] by (auto simp: from_chars_def dec_int_def dec_digits_all Let_def)
  show ?thesis
    using fc lit dec_hd [of "nat n"] by (auto simp: parse_int_lit_def dec_int_def Let_def)
qed

lemma parse_int_lit_reads_back_witness: "parse_int_lit (dec_int (- 42) @ ''i32'') = Some (- 42)"
  using parse_int_lit_reads_back [of "''i32''" "- 42"]
  by (simp add: is_digit_def in_int64_def int64_min_def int64_max_def)

text \<open>the folder's own arithmetic leaves the 64-bit range, which C++ leaves undefined, in
  exactly these cases: a sum, difference or product out of range, and the quotient or
  remainder of the least number by minus one.\<close>
theorem fold_undefined_cases:
  assumes "in_int64 a" "in_int64 b"
  shows "fold_bin_int op lhs a b = FoldUB \<longleftrightarrow>
      (op = BinAdd \<and> \<not> in_int64 (a + b)) \<or> (op = BinSub \<and> \<not> in_int64 (a - b))
    \<or> (op = BinMul \<and> \<not> in_int64 (a * b))
    \<or> (op \<in> {BinDiv, BinRem} \<and> a = int64_min \<and> b = - 1)"
proof (cases "b = 0")
  case True
  then show ?thesis by (cases op) (auto simp: int64_result_def)
next
  case False
  show ?thesis
    using sdiv_overflow [OF assms False] smod_in_int64 [OF assms(2) False, of a] False
    by (cases op) (auto simp: int64_result_def)
qed

lemma fold_undefined_cases_witness: "fold_bin_int BinAdd 0 int64_max 1 = FoldUB"
  using fold_undefined_cases [of int64_max 1 BinAdd 0]
  by (simp add: in_int64_def int64_min_def int64_max_def)

definition ex_sum_fn :: ofunc where
  "ex_sum_fn = mk_func ''sum'' [0] 0"

definition ex_sum :: omodule where
  "ex_sum = mk_module [ex_sum_fn] [ex_block [0, 1, 2] (TermRet True 2)]
     [ex_inst (InstConstInt ''2'') 0, ex_inst (InstConstInt ''40'') 1, ex_inst (InstBinOp BinAdd 0 1) 2]
     [ex_value 3 0, ex_value 3 1, ex_value 3 2]"



end
