(* ===== verification/OIR_DCE.thy ===== *)
theory OIR_DCE
  imports OIR_Rewrite
begin

text \<open>
  Removal of unused pure instructions (\<open>dce_pure_insts_\<close> of \<open>oir_passes.cpp\<close>). The use
  counts are those of all instructions of the module, also of the ones no block holds any
  more: what the pass removes is decided by the module it starts from.
\<close>

section \<open>The pass\<close>

definition dce_removable :: "nat list \<Rightarrow> oinst \<Rightarrow> bool" where
  "dce_removable use_count inst =
     (let has_result = (iresult inst \<noteq> kInvalidId);
          unused = (has_result \<and> iresult inst < length use_count \<and> use_count ! iresult inst = 0)
      in unused \<and> ieff inst = EffPure)"

definition dce_keep :: "nat list \<Rightarrow> omodule \<Rightarrow> nat \<Rightarrow> bool" where
  "dce_keep use_count m iid = (iid < length (insts m) \<and> \<not> dce_removable use_count (insts m ! iid))"

definition dce_block :: "nat list \<Rightarrow> omodule \<Rightarrow> oblock \<Rightarrow> oblock" where
  "dce_block use_count m b = b\<lparr>binsts := filter (dce_keep use_count m) (binsts b)\<rparr>"

text \<open>Only a removal counts as a change; an id out of range is dropped silently.\<close>

definition dce_round :: "omodule \<Rightarrow> omodule \<times> bool" where
  "dce_round m =
     (let use_count = build_use_count m in
      (m\<lparr>blocks := map (dce_block use_count m) (blocks m)\<rparr>,
       list_ex (\<lambda>b. list_ex (\<lambda>iid. iid < length (insts m) \<and> dce_removable use_count (insts m ! iid))
                      (binsts b)) (blocks m)))"

definition held_insts :: "omodule \<Rightarrow> nat" where
  "held_insts m = sum_list (map (\<lambda>b. length (binsts b)) (blocks m))"

lemma sum_list_mono_strict:
  "\<forall>x \<in> set xs. (f x :: nat) \<le> g x \<Longrightarrow> x \<in> set xs \<Longrightarrow> f x < g x \<Longrightarrow>
   sum_list (map f xs) < sum_list (map g xs)"
proof (induction xs)
  case (Cons y ys)
  then show ?case
    using sum_list_mono [of ys f g] by (auto intro: add_less_le_mono add_le_less_mono)
qed simp

lemma dce_round_smaller:
  assumes "snd (dce_round m)"
  shows "held_insts (fst (dce_round m)) < held_insts m"
proof -
  let ?u = "build_use_count m"
  obtain b iid where b: "b \<in> set (blocks m)" "iid \<in> set (binsts b)" "\<not> dce_keep ?u m iid"
    using assms by (auto simp: dce_round_def list_ex_iff dce_keep_def Let_def)
  then have "length (filter (dce_keep ?u m) (binsts b)) < length (binsts b)"
    by (auto intro: length_filter_less)
  then have "sum_list (map (\<lambda>b. length (filter (dce_keep ?u m) (binsts b))) (blocks m))
      < sum_list (map (\<lambda>b. length (binsts b)) (blocks m))"
    by (intro sum_list_mono_strict [OF _ b(1)]) auto
  then show ?thesis by (simp add: held_insts_def dce_round_def dce_block_def comp_def Let_def)
qed

function dce_loop :: "omodule \<Rightarrow> bool \<Rightarrow> omodule \<times> bool" where
  "dce_loop m changed =
     (if snd (dce_round m) then dce_loop (fst (dce_round m)) True else (fst (dce_round m), changed))"
  by pat_completeness auto
termination
  by (relation "measure (\<lambda>(m, changed). held_insts m)") (auto intro: dce_round_smaller)

declare dce_loop.simps [simp del]

definition dce_pure_insts :: "omodule \<Rightarrow> omodule \<times> bool" where
  "dce_pure_insts m = dce_loop m False"

section \<open>The second round\<close>

lemma dce_round_simps [simp]:
  "insts (fst (dce_round m)) = insts m" "vals (fst (dce_round m)) = vals m"
  "funcs (fst (dce_round m)) = funcs m" "length (blocks (fst (dce_round m))) = length (blocks m)"
  by (simp_all add: dce_round_def Let_def)

lemma dce_round_block:
  "b < length (blocks m) \<Longrightarrow>
   blocks (fst (dce_round m)) ! b = dce_block (build_use_count m) m (blocks m ! b)"
  by (simp add: dce_round_def Let_def)

lemma dce_block_simps [simp]:
  "bterm (dce_block u m b) = bterm b" "bhas_term (dce_block u m b) = bhas_term b"
  "bparams (dce_block u m b) = bparams b"
  "binsts (dce_block u m b) = filter (dce_keep u m) (binsts b)"
  by (simp_all add: dce_block_def)

lemma visited_operands_round: "visited_operands (fst (dce_round m)) = visited_operands m"
proof -
  have "map (\<lambda>b. if bhas_term b then for_each_term_operand (bterm b) else []) (blocks (fst (dce_round m)))
      = map (\<lambda>b. if bhas_term b then for_each_term_operand (bterm b) else []) (blocks m)"
    by (simp add: dce_round_def Let_def dce_block_def)
  then show ?thesis unfolding visited_operands_def by (simp only: dce_round_simps)
qed

lemma build_use_count_round: "build_use_count (fst (dce_round m)) = build_use_count m"
  by (simp add: build_use_count_def visited_operands_round)

lemma dce_round_idem: "dce_round (fst (dce_round m)) = (fst (dce_round m), False)"
proof -
  let ?u = "build_use_count m"
  have k: "dce_keep ?u (fst (dce_round m)) = dce_keep ?u m" by (simp add: dce_keep_def fun_eq_iff)
  have "dce_block ?u (fst (dce_round m)) \<circ> dce_block ?u m = dce_block ?u m"
    by (simp add: fun_eq_iff dce_block_def k)
  then have "fst (dce_round (fst (dce_round m))) = fst (dce_round m)"
    by (subst dce_round_def) (simp add: build_use_count_round, simp add: dce_round_def Let_def)
  moreover have "\<not> snd (dce_round (fst (dce_round m)))"
    by (subst dce_round_def) (simp add: build_use_count_round,
        auto simp: dce_round_def Let_def list_ex_iff dce_keep_def)
  ultimately show ?thesis by (metis prod.collapse)
qed

lemma dce_one_round: "dce_pure_insts m = dce_round m"
proof (cases "snd (dce_round m)")
  case True
  then have "dce_pure_insts m = dce_loop (fst (dce_round m)) True"
    by (simp add: dce_pure_insts_def dce_loop.simps [of m])
  also have "\<dots> = (fst (dce_round m), True)"
    by (simp add: dce_loop.simps [of "fst (dce_round m)"] dce_round_idem)
  finally show ?thesis using True by (metis prod.collapse)
next
  case False
  then show ?thesis
    by (simp add: dce_pure_insts_def dce_loop.simps [of m]) (metis prod.collapse)
qed

section \<open>Removal preserves runs\<close>

text \<open>Environments that agree on every operand the module's traversals visit.\<close>

definition agree_used :: "omodule \<Rightarrow> (nat \<Rightarrow> 'v) \<Rightarrow> (nat \<Rightarrow> 'v) \<Rightarrow> bool" where
  "agree_used m e1 e2 \<longleftrightarrow> (\<forall>v \<in> set (visited_operands m). e1 v = e2 v)"

text \<open>A pure instruction gives a value and leaves the state alone, whatever its operands.\<close>

definition pure_total :: "('v, 's) interp \<Rightarrow> omodule \<Rightarrow> bool" where
  "pure_total ieval m \<longleftrightarrow>
     (\<forall>i \<in> set (insts m). ieff i = EffPure \<longrightarrow>
        (\<forall>vs s. \<exists>v. ieval (opcode (idata i)) vs s = Some (v, s)))"

definition array_lens_used :: "omodule \<Rightarrow> bool" where
  "array_lens_used m \<longleftrightarrow>
     (\<forall>i \<in> set (insts m). \<forall>base. idata i = InstArrayLen base \<longrightarrow> base \<in> set (visited_operands m))"

definition inst_ids_ok :: "omodule \<Rightarrow> bool" where
  "inst_ids_ok m \<longleftrightarrow> (\<forall>b \<in> set (blocks m). \<forall>iid \<in> set (binsts b). iid < length (insts m))"

lemma agree_update: "agree_used m e1 e2 \<Longrightarrow> agree_used m (e1(r := v)) (e2(r := v))"
  by (simp add: agree_used_def)

lemma agree_unused: "agree_used m e1 e2 \<Longrightarrow> r \<notin> set (visited_operands m) \<Longrightarrow> agree_used m (e1(r := v)) e2"
  by (auto simp: agree_used_def)

lemma agree_bind: "agree_used m e1 e2 \<Longrightarrow> agree_used m (bind_params ps vs e1) (bind_params ps vs e2)"
proof -
  have "agree_used m (fold (\<lambda>(p, v) e. e(p := v)) xs e1) (fold (\<lambda>(p, v) e. e(p := v)) xs e2)"
    if "agree_used m e1 e2" for xs e1 e2
    using that by (induction xs arbitrary: e1 e2) (auto intro: agree_update)
  then show "agree_used m e1 e2 \<Longrightarrow> ?thesis" by (simp add: bind_params_def)
qed

lemma agree_sym: "agree_used m e1 e2 \<Longrightarrow> agree_used m e2 e1"
  by (simp add: agree_used_def)

lemma operands_visited:
  assumes "array_lens_used m" "i \<in> set (insts m)"
  shows "set (data_operands (idata i)) \<subseteq> set (visited_operands m)"
proof (cases "\<exists>base. idata i = InstArrayLen base")
  case True
  with assms show ?thesis by (auto simp: array_lens_used_def)
next
  case False
  then have "data_operands (idata i) = for_each_inst_operand (idata i)" by (cases "idata i") auto
  with assms(2) show ?thesis by (auto simp: visited_operands_def)
qed

lemma removable_unused:
  assumes "dce_removable (build_use_count m) i" "length (visited_operands m) < 4294967296"
  shows "iresult i \<noteq> kInvalidId" "iresult i \<notin> set (visited_operands m)" "ieff i = EffPure"
proof -
  from assms(1) have "valid_id (vals m) (iresult i)" "build_use_count m ! iresult i = 0"
    by (auto simp: dce_removable_def Let_def valid_id_def build_use_count_def)
  with build_use_count_nth [OF this(1) assms(2)]
  show "iresult i \<notin> set (visited_operands m)" by (simp add: count_list_0_iff)
qed (use assms(1) in \<open>simp_all add: dce_removable_def Let_def\<close>)

definition same_outcome :: "omodule \<Rightarrow> ((nat \<Rightarrow> 'v) \<times> 's) option \<Rightarrow> ((nat \<Rightarrow> 'v) \<times> 's) option \<Rightarrow> bool" where
  "same_outcome m = rel_option (\<lambda>(e1, s1) (e2, s2). s1 = s2 \<and> agree_used m e1 e2)"

lemma exec_inst_agree:
  assumes "set (data_operands (idata i)) \<subseteq> set (visited_operands m)" "agree_used m e1 e2"
  shows "same_outcome m (exec_inst ieval i (e1, s)) (exec_inst ieval i (e2, s))"
proof -
  have "map e1 (data_operands (idata i)) = map e2 (data_operands (idata i))"
    using assms by (auto simp: agree_used_def)
  then have "ieval (opcode (idata i)) (map e1 (data_operands (idata i))) s
      = ieval (opcode (idata i)) (map e2 (data_operands (idata i))) s" by (rule arg_cong)
  with assms(2) show ?thesis
    by (cases "ieval (opcode (idata i)) (map e2 (data_operands (idata i))) s")
      (auto simp: exec_inst_def same_outcome_def simp del: fun_upd_apply intro: agree_update)
qed

lemma dce_exec:
  assumes len: "length (visited_operands m) < 4294967296" and al: "array_lens_used m"
    and pt: "pure_total ieval m" and ids: "\<forall>iid \<in> set xs. iid < length (insts m)"
    and agree: "agree_used m e1 e2"
  shows "same_outcome m (exec_insts ieval (map (\<lambda>iid. insts m ! iid) xs) (e1, s))
    (exec_insts ieval (map (\<lambda>iid. insts m ! iid) (filter (dce_keep (build_use_count m) m) xs)) (e2, s))"
  using ids agree
proof (induction xs arbitrary: e1 e2 s)
  case (Cons iid xs)
  let ?i = "insts m ! iid"
  have i: "?i \<in> set (insts m)" using Cons.prems(1) by simp
  show ?case
  proof (cases "dce_removable (build_use_count m) ?i")
    case True
    note rm = removable_unused [OF True len]
    obtain v where "ieval (opcode (idata ?i)) (map e1 (data_operands (idata ?i))) s = Some (v, s)"
      using pt i rm(3) unfolding pure_total_def by blast
    then have "exec_inst ieval ?i (e1, s) = Some (e1(iresult ?i := v), s)"
      using rm(1) by (simp add: exec_inst_def)
    with Cons.IH [OF _ agree_unused [OF Cons.prems(2) rm(2)], of v s] Cons.prems(1) True
    show ?thesis by (simp add: dce_keep_def del: fun_upd_apply)
  next
    case False
    with Cons.prems(1) have k: "dce_keep (build_use_count m) m iid" by (simp add: dce_keep_def)
    from exec_inst_agree [OF operands_visited [OF al i] Cons.prems(2), of ieval s] Cons.IH Cons.prems(1) k
    show ?thesis by (auto simp: same_outcome_def split: option.splits)
  qed
qed (simp add: same_outcome_def)

lemma dce_block_exec:
  assumes "length (visited_operands m) < 4294967296" "array_lens_used m" "pure_total ieval m" "inst_ids_ok m"
    and "owned_by m f b" "agree_used m e1 e2"
  shows "same_outcome m (exec_insts ieval (block_insts m b) (e1, s))
    (exec_insts ieval (block_insts (fst (dce_round m)) b) (e2, s))"
proof -
  have b: "b < length (blocks m)" using assms(5) by (simp add: owned_by_def valid_id_def)
  then have "\<forall>iid \<in> set (binsts (blocks m ! b)). iid < length (insts m)"
    using assms(4) nth_mem unfolding inst_ids_ok_def by blast
  from dce_exec [OF assms(1-3) this assms(6)] show ?thesis
    by (simp add: block_insts_def dce_round_block [OF b])
qed

section \<open>Properties\<close>

text \<open>C9: removal of unused pure instructions preserves runs: when pure instructions only compute
  a value and every array-length operand is also used elsewhere, every run of every function
  gives the same result before and after.\<close>
theorem dce_preserves_runs:
  assumes "length (visited_operands m) < 4294967296" "array_lens_used m" "pure_total ieval m" "inst_ids_ok m"
  shows "runs ieval truth (fst (dce_pure_insts m)) f b env s r \<longleftrightarrow> runs ieval truth m f b env s r"
proof -
  let ?m = "fst (dce_round m)"
  have own: "owned_by ?m f b \<longleftrightarrow> owned_by m f b" for b by (simp add: owned_by_def valid_id_def)
  have blk: "bterm (blocks ?m ! b) = bterm (blocks m ! b) \<and> bhas_term (blocks ?m ! b) = bhas_term (blocks m ! b)
      \<and> bparams (blocks ?m ! b) = bparams (blocks m ! b)" if "owned_by m f b" for b
    using that by (simp add: owned_by_def valid_id_def dce_round_block)
  have trm: "v \<in> set (visited_operands m)"
    if "owned_by m f b" "bhas_term (blocks m ! b)" "v \<in> set (for_each_term_operand (bterm (blocks m ! b)))" for b v
  proof -
    have "blocks m ! b \<in> set (blocks m)" using that(1) by (simp add: owned_by_def valid_id_def)
    with that(2,3) show ?thesis by (force simp: visited_operands_def)
  qed
  have fwd: "\<exists>e2'. exec_insts ieval (block_insts ?m b) (e2, s) = Some (e2', s') \<and> agree_used m e1' e2'"
    if "agree_used m e1 e2" "owned_by m f b" "exec_insts ieval (block_insts m b) (e1, s) = Some (e1', s')" for b e1 e2 s e1' s'
    using dce_block_exec [OF assms that(2,1), of s] that(3) by (auto simp: same_outcome_def option_rel_Some1)
  have bwd: "\<exists>e2'. exec_insts ieval (block_insts m b) (e2, s) = Some (e2', s') \<and> agree_used m e1' e2'"
    if "agree_used m e1 e2" "owned_by ?m f b" "exec_insts ieval (block_insts ?m b) (e1, s) = Some (e1', s')" for b e1 e2 s e1' s'
    using dce_block_exec [OF assms _ agree_sym [OF that(1)], of f b s] that(2,3) own [of b]
    by (auto simp: same_outcome_def option_rel_Some2 dest: agree_sym)
  have refl: "agree_used m env env" by (simp add: agree_used_def)
  have "runs ieval truth ?m f b env s r" if "runs ieval truth m f b env s r"
    by (rule runs_simulate [where R = "agree_used m", OF _ blk fwd _ agree_bind that refl])
      (use own trm in \<open>auto simp: agree_used_def\<close>)
  moreover have "runs ieval truth m f b env s r" if "runs ieval truth ?m f b env s r"
    by (rule runs_simulate [where R = "agree_used m", OF _ _ bwd _ agree_bind that refl])
      (use own trm blk in \<open>auto simp: agree_used_def\<close>)
  ultimately show ?thesis by (auto simp: dce_one_round)
qed

definition ex_dead_fn :: ofunc where
  "ex_dead_fn = mk_func ''dead'' [0] 0"

definition ex_dead :: omodule where
  "ex_dead = mk_module [ex_dead_fn] [ex_block [0, 1, 2] (TermRet True 2)]
     [ex_inst (InstConstInt ''1'') 0, ex_inst (InstUnary UnNeg 0) 1, ex_inst (InstConstInt ''7'') 2]
     [ex_value 3 0, ex_value 3 1, ex_value 3 2]"

lemma dce_preserves_runs_witness:
  "map binsts (blocks (fst (dce_pure_insts ex_dead))) = [[0, 2]]
   \<and> (\<forall>r. runs (\<lambda>d vs s. Some (0 :: int, s)) (\<lambda>_. True) (fst (dce_pure_insts ex_dead)) ex_dead_fn 0 (\<lambda>_. 0) () r
        \<longleftrightarrow> runs (\<lambda>d vs s. Some (0, s)) (\<lambda>_. True) ex_dead ex_dead_fn 0 (\<lambda>_. 0) () r)"
proof -
  have v: "visited_operands ex_dead = [0, 2]" "inst_ids_ok ex_dead" by code_simp+
  have a: "array_lens_used ex_dead" "pure_total (\<lambda>d vs s. Some (0 :: int, s :: unit)) ex_dead"
    by (simp_all add: ex_dead_def ex_defs array_lens_used_def pure_total_def ex_inst_def)
  have l: "length (visited_operands ex_dead) < 4294967296" by (simp add: v)
  have "map binsts (blocks (fst (dce_pure_insts ex_dead))) = [[0, 2]]"
    unfolding dce_one_round by code_simp
  moreover have "runs (\<lambda>d vs s. Some (0 :: int, s)) (\<lambda>_. True) (fst (dce_pure_insts ex_dead)) ex_dead_fn 0 (\<lambda>_. 0) () r
      \<longleftrightarrow> runs (\<lambda>d vs s. Some (0, s)) (\<lambda>_. True) ex_dead ex_dead_fn 0 (\<lambda>_. 0) () r" for r
    by (rule dce_preserves_runs [OF l a v(2)])
  ultimately show ?thesis by (intro conjI allI)
qed

text \<open>what the pass removes is decided once: after all its rounds a block holds the
  instructions it held, less the pure ones whose result no instruction of the module and no
  terminator used at the start. An instruction used only by removed ones stays.\<close>
theorem dce_removes_directly_unused:
  assumes "length (visited_operands m) < 4294967296"
  shows "blocks (fst (dce_pure_insts m)) = map (\<lambda>b. b\<lparr>binsts := filter (\<lambda>iid. iid < length (insts m)
      \<and> \<not> (ieff (insts m ! iid) = EffPure \<and> valid_id (vals m) (iresult (insts m ! iid))
           \<and> iresult (insts m ! iid) \<notin> set (visited_operands m))) (binsts b)\<rparr>) (blocks m)"
proof -
  have "dce_removable (build_use_count m) i \<longleftrightarrow> ieff i = EffPure \<and> valid_id (vals m) (iresult i)
      \<and> iresult i \<notin> set (visited_operands m)" for i
  proof (cases "valid_id (vals m) (iresult i)")
    case True
    with build_use_count_nth [OF True assms] show ?thesis
      by (auto simp: dce_removable_def valid_id_def count_list_0_iff length_build_use_count)
  next
    case False
    then show ?thesis by (auto simp: dce_removable_def valid_id_def length_build_use_count)
  qed
  then have "dce_keep (build_use_count m) m = (\<lambda>iid. iid < length (insts m)
      \<and> \<not> (ieff (insts m ! iid) = EffPure \<and> valid_id (vals m) (iresult (insts m ! iid))
           \<and> iresult (insts m ! iid) \<notin> set (visited_operands m)))"
    by (simp add: dce_keep_def fun_eq_iff)
  then show ?thesis by (simp add: dce_one_round dce_round_def dce_block_def Let_def)
qed

lemma dce_removes_directly_unused_witness:
  "map binsts (blocks (fst (dce_pure_insts ex_dead))) = [[0, 2]]
   \<and> set (visited_operands (fst (dce_pure_insts ex_dead))) = {0, 2}"
proof -
  have v: "visited_operands ex_dead = [0, 2]" by code_simp
  from dce_removes_directly_unused [of ex_dead] v
  have "map binsts (blocks (fst (dce_pure_insts ex_dead))) = [[0, 2]]"
    by (simp add: ex_dead_def ex_inst_def ex_defs valid_id_def)
  with v show ?thesis by (simp add: dce_one_round visited_operands_round)
qed

end
