(* ===== verification/OIR_Forward.thy ===== *)
theory OIR_Forward
  imports OIR_Alias
begin

text \<open>
  Block-local forwarding of stores to loads (\<open>local_load_forward_\<close> of \<open>oir_passes.cpp\<close>)
  and the escape test of slots it shares with the promotion to registers. The memo table of
  the escape test is left out: the module does not change while it lives.
\<close>

section \<open>Escaping slots\<close>

fun used_as_escape :: "nat \<Rightarrow> inst_data \<Rightarrow> bool" where
  "used_as_escape slot (InstLoad s) = False"
| "used_as_escape slot (InstStore s v) = (v = slot)"
| "used_as_escape slot d = (slot \<in> set (for_each_inst_operand d))"

definition inst_lets_escape :: "nat \<Rightarrow> inst_data \<Rightarrow> bool" where
  "inst_lets_escape slot d =
     (case d of
        InstLoad s \<Rightarrow> if s = slot then False else used_as_escape slot d
      | InstStore s v \<Rightarrow> if s = slot then v = slot else used_as_escape slot d
      | _ \<Rightarrow> used_as_escape slot d)"

definition is_non_escaping_slot :: "omodule \<Rightarrow> ofunc \<Rightarrow> nat \<Rightarrow> bool" where
  "is_non_escaping_slot m f slot =
     list_all (\<lambda>bb.
        bb = kInvalidId \<or> length (blocks m) \<le> bb
        \<or> (list_all (\<lambda>iid. length (insts m) \<le> iid \<or> \<not> inst_lets_escape slot (idata (insts m ! iid)))
             (binsts (blocks m ! bb))
           \<and> (\<not> bhas_term (blocks m ! bb)
              \<or> slot \<notin> set (for_each_term_operand (bterm (blocks m ! bb))))))
       (fblocks f)"

definition is_alloca_slot :: "omodule \<Rightarrow> nat \<Rightarrow> bool" where
  "is_alloca_slot m slot = (case def_inst m slot of Some (InstAllocaLocal ty) \<Rightarrow> True | _ \<Rightarrow> False)"

definition is_nonescape :: "omodule \<Rightarrow> ofunc \<Rightarrow> nat \<Rightarrow> bool" where
  "is_nonescape m f slot = (is_alloca_slot m slot \<and> is_non_escaping_slot m f slot)"

definition is_forwardable_value :: "omodule \<Rightarrow> nat \<Rightarrow> bool" where
  "is_forwardable_value m v =
     (if v = kInvalidId \<or> length (vals m) \<le> v then False
      else if vdef_b (vals m ! v) \<noteq> kInvalidId then False
      else if vdef_a (vals m ! v) = kInvalidId \<or> length (insts m) \<le> vdef_a (vals m ! v) then False
      else ieff (insts m ! vdef_a (vals m ! v)) = EffPure)"

section \<open>The cache of known contents\<close>

record cache_entry =
  ce_loc :: mem_loc
  ce_value :: nat

definition invalidate_aliases :: "cache_entry list \<Rightarrow> mem_loc \<Rightarrow> cache_entry list" where
  "invalidate_aliases cache written = filter (\<lambda>e. \<not> may_alias_memory_loc (ce_loc e) written) cache"

definition invalidate_base :: "cache_entry list \<Rightarrow> nat \<Rightarrow> cache_entry list" where
  "invalidate_base cache base = filter (\<lambda>e. ml_base (ce_loc e) \<noteq> base) cache"

definition clobber :: "omodule \<Rightarrow> ofunc \<Rightarrow> cache_entry list \<Rightarrow> cache_entry list" where
  "clobber m f cache = filter (\<lambda>e. is_nonescape m f (ml_base (ce_loc e))) cache"

type_synonym forward_state = "cache_entry list \<times> (nat \<rightharpoonup> nat) \<times> bool"

definition forward_store :: "omodule \<Rightarrow> ofunc \<Rightarrow> nat \<Rightarrow> nat \<Rightarrow> forward_state \<Rightarrow> forward_state" where
  "forward_store m f slot v = (\<lambda>(cache, repl, changed).
     let loc = resolve_memory_loc_from_value m slot in
     if \<not> has_memory_base loc then (clobber m f cache, repl, changed)
     else if ml_precision loc = LocExact
     then (invalidate_aliases cache loc @ [\<lparr>ce_loc = loc, ce_value = resolve_alias repl v\<rparr>], repl, changed)
     else (invalidate_base cache (ml_base loc), repl, changed))"

definition forward_load :: "omodule \<Rightarrow> nat \<Rightarrow> nat \<Rightarrow> forward_state \<Rightarrow> forward_state" where
  "forward_load m slot result = (\<lambda>(cache, repl, changed).
     let loc = resolve_memory_loc_from_value m slot in
     if result = kInvalidId \<or> \<not> (has_memory_base loc \<and> ml_precision loc = LocExact)
     then (cache, repl, changed)
     else (case find (\<lambda>e. must_alias_memory_loc (ce_loc e) loc) (rev cache) of
             None \<Rightarrow> (cache, repl, changed)
           | Some e \<Rightarrow>
               if is_forwardable_value m (ce_value e)
               then (cache, repl(result \<mapsto> resolve_alias repl (ce_value e)), True)
               else (cache, repl, changed)))"

definition forward_other :: "omodule \<Rightarrow> ofunc \<Rightarrow> oinst \<Rightarrow> forward_state \<Rightarrow> forward_state" where
  "forward_other m f inst = (\<lambda>(cache, repl, changed).
     let fx = build_inst_access_model m inst;
         cache1 = (if ia_write_fp fx = FpLocalMemory \<and> has_memory_base (ia_write_loc fx)
                   then if ml_precision (ia_write_loc fx) = LocExact
                        then invalidate_aliases cache (ia_write_loc fx)
                        else invalidate_base cache (ml_base (ia_write_loc fx))
                   else cache);
         cache2 = (if ia_write_fp fx = FpUnknown \<or> ia_may_call fx \<or> ia_may_trap fx
                   then clobber m f cache1 else cache1)
     in (cache2, repl, changed))"

definition forward_inst :: "omodule \<Rightarrow> ofunc \<Rightarrow> nat \<Rightarrow> forward_state \<Rightarrow> forward_state" where
  "forward_inst m f iid st =
     (if length (insts m) \<le> iid then st
      else (case idata (insts m ! iid) of
              InstStore slot v \<Rightarrow> forward_store m f slot v st
            | InstLoad slot \<Rightarrow> forward_load m slot (iresult (insts m ! iid)) st
            | _ \<Rightarrow> forward_other m f (insts m ! iid) st))"

definition forward_block :: "omodule \<Rightarrow> ofunc \<Rightarrow> nat \<Rightarrow> (nat \<rightharpoonup> nat) \<times> bool \<Rightarrow> (nat \<rightharpoonup> nat) \<times> bool" where
  "forward_block m f bb = (\<lambda>(repl, changed).
     if bb = kInvalidId \<or> length (blocks m) \<le> bb then (repl, changed)
     else snd (fold (forward_inst m f) (binsts (blocks m ! bb)) ([], repl, changed)))"

definition local_load_forward :: "omodule \<Rightarrow> omodule \<times> bool" where
  "local_load_forward m =
     (let (repl, changed) = fold (\<lambda>f. fold (forward_block m f) (fblocks f)) (funcs m) (Map.empty, False)
      in (if changed then rewrite_operands m repl else m, changed))"

section \<open>What forwarding changes\<close>

lemma forward_inst_unchanged:
  "forward_inst m f iid (cache, repl, changed) = (cache', repl', changed') \<Longrightarrow>
   (changed \<longrightarrow> changed') \<and> (\<not> changed' \<longrightarrow> repl' = repl)"
  by (auto simp: forward_inst_def forward_store_def forward_load_def forward_other_def Let_def
      split: if_splits inst_data.splits option.splits)

text \<open>Only results of loads are replaced.\<close>

definition load_results :: "omodule \<Rightarrow> nat set" where
  "load_results m =
     {iresult (insts m ! iid) |iid slot. iid < length (insts m) \<and> idata (insts m ! iid) = InstLoad slot}"

lemma forward_load_dom:
  "dom repl \<subseteq> load_results m \<Longrightarrow> result \<in> load_results m \<Longrightarrow>
   dom (fst (snd (forward_load m slot result (cache, repl, changed)))) \<subseteq> load_results m"
  by (auto simp: forward_load_def Let_def split: option.split)

lemma forward_inst_dom:
  assumes "dom (fst (snd st)) \<subseteq> load_results m"
  shows "dom (fst (snd (forward_inst m f iid st))) \<subseteq> load_results m"
proof -
  obtain cache repl changed where st: "st = (cache, repl, changed)" by (metis prod_cases3)
  show ?thesis
  proof (cases "iid < length (insts m)")
    case True
    show ?thesis
    proof (cases "idata (insts m ! iid)")
      case (InstLoad slot)
      then have "iresult (insts m ! iid) \<in> load_results m"
        using True by (auto simp: load_results_def)
      with forward_load_dom assms True InstLoad show ?thesis by (simp add: st forward_inst_def)
    qed (use assms st in \<open>auto simp: forward_inst_def forward_store_def forward_other_def Let_def\<close>)
  qed (use assms in \<open>simp add: forward_inst_def\<close>)
qed

lemma fold_invariant_simple: "Q st \<Longrightarrow> (\<And>x st. Q st \<Longrightarrow> Q (g x st)) \<Longrightarrow> Q (fold g xs st)"
  by (induction xs arbitrary: st) auto

lemma forward_block_dom:
  "dom (fst st) \<subseteq> load_results m \<Longrightarrow> dom (fst (forward_block m f bb st)) \<subseteq> load_results m"
  using fold_invariant_simple [of "\<lambda>st. dom (fst (snd st)) \<subseteq> load_results m" "([], st)" "forward_inst m f"
      "binsts (blocks m ! bb)"] forward_inst_dom
  by (auto simp: forward_block_def split: prod.split)

section \<open>Properties\<close>

text \<open>forwarding only redirects operands: the module it leaves is the original with the
  operands rewritten by a table whose keys are results of loads, or the original itself when
  no change is reported.\<close>
theorem load_forward_only_redirects:
  "\<exists>repl. dom repl \<subseteq> load_results m
     \<and> fst (local_load_forward m) = (if snd (local_load_forward m) then rewrite_operands m repl else m)"
proof -
  let ?st = "fold (\<lambda>f. fold (forward_block m f) (fblocks f)) (funcs m) (Map.empty, False)"
  have "dom (fst ?st) \<subseteq> load_results m"
    by (rule fold_invariant_simple [where Q = "\<lambda>st. dom (fst st) \<subseteq> load_results m"])
      (simp, rule fold_invariant_simple [where Q = "\<lambda>st. dom (fst st) \<subseteq> load_results m"],
        simp_all add: forward_block_dom)
  then show ?thesis
    by (intro exI [of _ "fst ?st"]) (simp add: local_load_forward_def case_prod_beta Let_def)
qed

text \<open>a store to a field leaves the cached content of the whole object in place: the entry
  for an object survives a store to any of its fields, so a later load of the object is
  replaced by the value stored before the field changed.\<close>
theorem field_store_keeps_cached_object:
  assumes "place m ival 33 v slot ss" "place m ival 33 w slot (ss @ [PField x])"
    and "\<not> list_ex is_index ss" "e \<in> set cache" "ce_loc e = resolve_memory_loc_from_value m v"
  shows "e \<in> set (fst (forward_store m f w val (cache, repl, changed)))"
proof -
  have v: "resolve_memory_loc_from_value m v = \<lparr>ml_base = slot, ml_path = render_place ss, ml_precision = LocExact\<rparr>"
    and w: "resolve_memory_loc_from_value m w
      = \<lparr>ml_base = slot, ml_path = render_place ss @ CHR ''.'' # x, ml_precision = LocExact\<rparr>"
    using resolve_loc_place [OF assms(1)] resolve_loc_place [OF assms(2)] assms(3)
    by (simp_all add: resolve_memory_loc_from_value_def)
  have "\<not> may_alias_memory_loc (ce_loc e) (resolve_memory_loc_from_value m w)"
    using place_slot_valid [OF assms(1)]
    by (simp add: assms(5) v w may_alias_memory_loc_def has_memory_base_def)
  then show ?thesis
    using assms(4) place_slot_valid [OF assms(1)]
    by (simp add: forward_store_def w invalidate_aliases_def has_memory_base_def Let_def)
qed

text \<open>A block that writes the object, then its field, then reads the object.\<close>

definition ex_stale :: omodule where
  "ex_stale = mk_module [mk_func ''main'' [0] 0]
     [ex_block [0, 1, 2, 3, 4, 5, 6] (TermRet True 4)]
     [ex_inst (InstAllocaLocal 9) 0, ex_inst (InstConstInt ''1'') 1,
      (ex_inst (InstStore 0 1) kInvalidId)\<lparr>ieff := EffMayWriteMem\<rparr>,
      (ex_inst (InstField 0 ''x'' no_bits) 2)\<lparr>ieff := EffMayReadMem\<rparr>, ex_inst (InstConstInt ''2'') 3,
      (ex_inst (InstStore 2 3) kInvalidId)\<lparr>ieff := EffMayWriteMem\<rparr>,
      (ex_inst (InstLoad 0) 4)\<lparr>ieff := EffMayReadMem\<rparr>]
     [ex_value 9 0, ex_value 9 1, ex_value 4 3, ex_value 4 4, ex_value 9 6]"

lemma field_store_keeps_cached_object_witness:
  "ce_value (hd (fst (forward_store ex_stale (mk_func ''main'' [0] 0) 2 3
      ([\<lparr>ce_loc = resolve_memory_loc_from_value ex_stale 0, ce_value = 1\<rparr>], Map.empty, False)))) = 1
   \<and> map bterm (blocks (fst (local_load_forward ex_stale))) = [TermRet True 1]"
proof -
  have d: "def_inst ex_stale 0 = Some (InstAllocaLocal 9)"
    "def_inst ex_stale 2 = Some (InstField 0 ''x'' no_bits)" by code_simp+
  have p0: "place ex_stale (\<lambda>i. i) (Suc n) 0 0 []" for n using d(1) by (rule place_alloca)
  have "place ex_stale (\<lambda>i. i) 33 0 0 []" "place ex_stale (\<lambda>i. i) 33 2 0 ([] @ [PField ''x''])"
    using p0 [of 32] place_field [OF d(2) p0 [of 31]] by simp_all
  from field_store_keeps_cached_object [OF this,
      of "\<lparr>ce_loc = resolve_memory_loc_from_value ex_stale 0, ce_value = 1\<rparr>"
         "[\<lparr>ce_loc = resolve_memory_loc_from_value ex_stale 0, ce_value = 1\<rparr>]"
         "mk_func ''main'' [0] 0" 3 Map.empty False]
  have "\<lparr>ce_loc = resolve_memory_loc_from_value ex_stale 0, ce_value = 1\<rparr>
      \<in> set (fst (forward_store ex_stale (mk_func ''main'' [0] 0) 2 3
          ([\<lparr>ce_loc = resolve_memory_loc_from_value ex_stale 0, ce_value = 1\<rparr>], Map.empty, False)))"
    by simp
  moreover have "ce_value (hd (fst (forward_store ex_stale (mk_func ''main'' [0] 0) 2 3
      ([\<lparr>ce_loc = resolve_memory_loc_from_value ex_stale 0, ce_value = 1\<rparr>], Map.empty, False)))) = 1"
    by code_simp
  moreover have "map bterm (blocks (fst (local_load_forward ex_stale))) = [TermRet True 1]" by code_simp
  ultimately show ?thesis by blast
qed

end
