(* ===== verification/OIR_Mem2Reg.thy ===== *)
theory OIR_Mem2Reg
  imports OIR_Guard OIR_Forward
begin

text \<open>
  Promotion of slots to registers (\<open>promote_slot_mem2reg_\<close>, \<open>slot_touches_loop_\<close>,
  \<open>global_mem2reg_ssa_\<close> of \<open>oir_passes.cpp\<close>). The set of defining blocks is a hash set
  whose iteration order the source leaves open: \<open>ord\<close> is that order, a parameter. The map
  of placed parameters is an association list, the sets of the source are lists.
\<close>

section \<open>Placing block parameters\<close>

definition slot_store_at :: "omodule \<Rightarrow> nat \<Rightarrow> nat \<Rightarrow> bool" where
  "slot_store_at m slot iid =
     (iid < length (insts m)
      \<and> (case idata (insts m ! iid) of InstStore s v \<Rightarrow> s = slot | _ \<Rightarrow> False))"

definition def_block_indices :: "omodule \<Rightarrow> ofunc \<Rightarrow> dom_info \<Rightarrow> nat \<Rightarrow> nat list" where
  "def_block_indices m f di slot =
     fold (\<lambda>bb acc.
         if bb = kInvalidId \<or> length (blocks m) \<le> bb then acc
         else if \<not> list_ex (slot_store_at m slot) (binsts (blocks m ! bb)) then acc
         else (case di_index_of di bb of
                 None \<Rightarrow> acc
               | Some i \<Rightarrow> if i \<in> set acc then acc else acc @ [i]))
       (fblocks f) []"

record phi_state =
  ps_mod :: omodule
  ps_work :: "nat list"
  ps_has_phi :: "bool list"
  ps_phis :: "(nat \<times> nat) list"

text \<open>One frontier block \<open>y\<close>: the parameter is added the first time.\<close>

definition place_phi :: "dom_info \<Rightarrow> nat list \<Rightarrow> nat \<Rightarrow> nat \<Rightarrow> phi_state \<Rightarrow> phi_state" where
  "place_phi di defs slot_ty y st =
     (if ps_has_phi st ! y then st
      else
        let ybb = di_blocks di ! y;
            (m1, phi) = add_block_param (ps_mod st) ybb slot_ty;
            m2 = m1\<lparr>stats := (stats m1)\<lparr>mem2reg_phi_params := u32 (mem2reg_phi_params (stats m1) + 1)\<rparr>\<rparr>
        in st\<lparr>ps_mod := m2, ps_has_phi := (ps_has_phi st)[y := True],
              ps_phis := (ybb, phi) # ps_phis st,
              ps_work := (if y \<in> set defs then ps_work st else ps_work st @ [y])\<rparr>)"

text \<open>One unit of fuel per popped index; each index enters the queue at most twice.\<close>

fun place_phis :: "nat \<Rightarrow> dom_info \<Rightarrow> nat list \<Rightarrow> nat \<Rightarrow> phi_state \<Rightarrow> phi_state" where
  "place_phis 0 di defs slot_ty st = st"
| "place_phis (Suc fuel) di defs slot_ty st =
     (case ps_work st of
        [] \<Rightarrow> st
      | x # work \<Rightarrow>
          place_phis fuel di defs slot_ty
            (fold (place_phi di defs slot_ty) (di_df di ! x) (st\<lparr>ps_work := work\<rparr>)))"

section \<open>Renaming\<close>

record rename_state =
  rn_mod :: omodule
  rn_repl :: "nat \<rightharpoonup> nat"
  rn_remove :: "nat list"
  rn_stack :: "nat list"

definition current_value :: "nat \<Rightarrow> nat list \<Rightarrow> nat" where
  "current_value undef stack = (if stack = [] then undef else hd stack)"

text \<open>One instruction; the flag counts a push. The stack's top is its head.\<close>

definition rename_inst :: "nat \<Rightarrow> nat \<Rightarrow> nat \<Rightarrow> rename_state \<times> nat \<Rightarrow> rename_state \<times> nat" where
  "rename_inst slot undef iid = (\<lambda>(st, pushed).
     let m = rn_mod st in
     if length (insts m) \<le> iid then (st, pushed)
     else
       let inst = insts m ! iid in
       (case idata inst of
          InstAllocaLocal ty \<Rightarrow>
            if iresult inst = slot then (st\<lparr>rn_remove := iid # rn_remove st\<rparr>, pushed) else (st, pushed)
        | InstStore s v \<Rightarrow>
            if s \<noteq> slot then (st, pushed)
            else (st\<lparr>rn_stack := resolve_alias (rn_repl st) v # rn_stack st,
                     rn_remove := iid # rn_remove st\<rparr>, pushed + 1)
        | InstLoad s \<Rightarrow>
            if s \<noteq> slot \<or> iresult inst = kInvalidId then (st, pushed)
            else (st\<lparr>rn_repl := (rn_repl st)(iresult inst \<mapsto> current_value undef (rn_stack st)),
                     rn_remove := iid # rn_remove st\<rparr>, pushed)
        | _ \<Rightarrow> (st, pushed)))"

text \<open>The block: its parameter, its instructions, the edge arguments.\<close>

definition rename_block ::
  "dom_info \<Rightarrow> (nat \<times> nat) list \<Rightarrow> nat \<Rightarrow> nat \<Rightarrow> nat \<Rightarrow> rename_state \<Rightarrow> rename_state \<times> nat" where
  "rename_block di phis slot undef bi st =
     (let bb = di_blocks di ! bi;
          (st0, pushed0) = (case map_of phis bb of
                              Some phi \<Rightarrow> (st\<lparr>rn_stack := phi # rn_stack st\<rparr>, 1)
                            | None \<Rightarrow> (st, 0));
          (st1, pushed) = fold (rename_inst slot undef) (binsts (blocks (rn_mod st0) ! bb)) (st0, pushed0);
          outv = current_value undef (rn_stack st1);
          m' = fold (\<lambda>s m. if map_of phis s = None then m else append_edge_arg m bb s outv)
                 (di_succs di ! bb) (rn_mod st1)
      in (st1\<lparr>rn_mod := m'\<rparr>, pushed))"

text \<open>The walk over the dominator tree; one unit of fuel per level of the tree.\<close>

fun rename_tree ::
  "nat \<Rightarrow> dom_info \<Rightarrow> (nat \<times> nat) list \<Rightarrow> nat \<Rightarrow> nat \<Rightarrow> nat \<Rightarrow> rename_state \<Rightarrow> rename_state" where
  "rename_tree 0 di phis slot undef bi st = st"
| "rename_tree (Suc fuel) di phis slot undef bi st =
     (let (st1, pushed) = rename_block di phis slot undef bi st;
          st2 = fold (rename_tree fuel di phis slot undef) (di_dom_tree di ! bi) st1
      in st2\<lparr>rn_stack := drop pushed (rn_stack st2)\<rparr>)"

section \<open>Promotion of one slot\<close>

definition drop_insts :: "nat list \<Rightarrow> nat list \<Rightarrow> omodule \<Rightarrow> omodule" where
  "drop_insts bs remove m =
     fold (\<lambda>bb m. if bb = kInvalidId \<or> length (blocks m) \<le> bb then m
                  else upd_block m bb (\<lambda>b. b\<lparr>binsts := filter (\<lambda>iid. iid \<notin> set remove) (binsts b)\<rparr>)) bs m"

definition promote_slot_mem2reg ::
  "(nat list \<Rightarrow> nat list) \<Rightarrow> omodule \<Rightarrow> ofunc \<Rightarrow> nat \<Rightarrow> nat \<Rightarrow> omodule \<times> bool" where
  "promote_slot_mem2reg ord m f slot slot_ty =
     (let di = build_dom_info m f in
      case di_entry_index di of
        None \<Rightarrow> (m, False)
      | Some e \<Rightarrow>
          let n = length (di_blocks di);
              defs = def_block_indices m f di slot;
              st = place_phis (Suc (2 * n)) di defs slot_ty
                     \<lparr>ps_mod = m, ps_work = ord defs, ps_has_phi = replicate n False, ps_phis = []\<rparr>;
              phis = ps_phis st;
              (m1, undef) = make_undef_value (ps_mod st) slot_ty;
              rn = rename_tree (Suc n) di phis slot undef e
                     \<lparr>rn_mod = m1, rn_repl = Map.empty, rn_remove = [], rn_stack = []\<rparr>;
              m2 = rewrite_operands (rn_mod rn) (rn_repl rn)
          in if rn_remove rn = [] \<and> phis = [] then (m2, False)
             else
               let m3 = drop_insts (fblocks f) (rn_remove rn) m2
               in (m3\<lparr>stats := (stats m3)\<lparr>mem2reg_promoted_slots := u32 (mem2reg_promoted_slots (stats m3) + 1)\<rparr>\<rparr>,
                   True))"

section \<open>The pass\<close>

definition slot_access_at :: "omodule \<Rightarrow> nat \<Rightarrow> nat \<Rightarrow> bool" where
  "slot_access_at m slot iid =
     (iid < length (insts m)
      \<and> (case idata (insts m ! iid) of
           InstLoad s \<Rightarrow> s = slot | InstStore s v \<Rightarrow> s = slot | _ \<Rightarrow> False))"

definition slot_touches_loop :: "omodule \<Rightarrow> ofunc \<Rightarrow> nat \<Rightarrow> bool" where
  "slot_touches_loop m f slot =
     (let di = build_dom_info m f in
      if di_entry_index di = None then False
      else
        let loops = collect_loops m f di in
        list_ex (\<lambda>bb.
            list_ex (\<lambda>l. bb \<in> lp_blocks l) loops
            \<and> \<not> (bb = kInvalidId \<or> length (blocks m) \<le> bb)
            \<and> list_ex (slot_access_at m slot) (binsts (blocks m ! bb)))
          (fblocks f))"

definition alloca_candidates :: "omodule \<Rightarrow> ofunc \<Rightarrow> (nat \<times> nat) list" where
  "alloca_candidates m f =
     concat (map (\<lambda>bb.
        if bb = kInvalidId \<or> length (blocks m) \<le> bb then []
        else concat (map (\<lambda>iid.
            if length (insts m) \<le> iid then []
            else (case idata (insts m ! iid) of
                    InstAllocaLocal ty \<Rightarrow>
                      if iresult (insts m ! iid) = kInvalidId then [] else [(iresult (insts m ! iid), ty)]
                  | _ \<Rightarrow> [])) (binsts (blocks m ! bb))))
       (fblocks f))"

definition promote_candidate ::
  "(nat list \<Rightarrow> nat list) \<Rightarrow> ofunc \<Rightarrow> nat \<times> nat \<Rightarrow> omodule \<times> bool \<Rightarrow> omodule \<times> bool" where
  "promote_candidate ord f = (\<lambda>(slot, slot_ty) (m, changed).
     if \<not> is_non_escaping_slot m f slot then (m, changed)
     else if slot_touches_loop m f slot then (m, changed)
     else (case promote_slot_mem2reg ord m f slot slot_ty of (m', ch) \<Rightarrow> (m', changed \<or> ch)))"

text \<open>Rounds until nothing changes; \<open>None\<close> when the fuel runs out first.\<close>

fun mem2reg_rounds ::
  "nat \<Rightarrow> (nat list \<Rightarrow> nat list) \<Rightarrow> ofunc \<Rightarrow> omodule \<times> bool \<Rightarrow> (omodule \<times> bool) option" where
  "mem2reg_rounds 0 ord f (m, changed) = None"
| "mem2reg_rounds (Suc fuel) ord f (m, changed) =
     (case fold (promote_candidate ord f) (alloca_candidates m f) (m, False) of
        (m', round_changed) \<Rightarrow>
          if round_changed then mem2reg_rounds fuel ord f (m', True) else Some (m', changed))"

fun global_mem2reg_ssa ::
  "nat \<Rightarrow> (nat list \<Rightarrow> nat list) \<Rightarrow> ofunc list \<Rightarrow> omodule \<times> bool \<Rightarrow> (omodule \<times> bool) option" where
  "global_mem2reg_ssa fuel ord [] st = Some st"
| "global_mem2reg_ssa fuel ord (f # fs) st =
     (case mem2reg_rounds fuel ord f st of
        None \<Rightarrow> None
      | Some st' \<Rightarrow> global_mem2reg_ssa fuel ord fs st')"

section \<open>The parameter placement ends\<close>

lemma place_phi_measure:
  assumes "y < length (ps_has_phi st)"
  shows "length (ps_work (place_phi di defs ty y st)) + unreached (ps_has_phi (place_phi di defs ty y st))
      \<le> length (ps_work st) + unreached (ps_has_phi st)"
    and "length (ps_has_phi (place_phi di defs ty y st)) = length (ps_has_phi st)"
  using unreached_update [OF assms] by (auto simp: place_phi_def Let_def split: prod.split)

lemma place_phis_step_measure:
  assumes "\<forall>y \<in> set ys. y < length (ps_has_phi st)"
  shows "length (ps_work (fold (place_phi di defs ty) ys st)) + unreached (ps_has_phi (fold (place_phi di defs ty) ys st))
      \<le> length (ps_work st) + unreached (ps_has_phi st)
    \<and> length (ps_has_phi (fold (place_phi di defs ty) ys st)) = length (ps_has_phi st)"
  using assms
proof (induction ys arbitrary: st)
  case (Cons y ys)
  then have y: "y < length (ps_has_phi st)" by simp
  note p = place_phi_measure [OF y, of di defs ty]
  from Cons.IH [of "place_phi di defs ty y st"] Cons.prems p show ?case by (simp add: p(2))
qed simp

text \<open>With one unit of fuel per queued index and per block without a parameter the queue empties.\<close>

lemma place_phis_ends:
  assumes "\<forall>x. \<forall>y \<in> set (di_df di ! x). y < length (ps_has_phi st)"
    and "length (ps_work st) + unreached (ps_has_phi st) \<le> fuel"
  shows "ps_work (place_phis fuel di defs ty st) = []"
  using assms
proof (induction fuel arbitrary: st)
  case (Suc fuel)
  show ?case
  proof (cases "ps_work st")
    case (Cons x work)
    let ?st = "fold (place_phi di defs ty) (di_df di ! x) (st\<lparr>ps_work := work\<rparr>)"
    from place_phis_step_measure [of "di_df di ! x" "st\<lparr>ps_work := work\<rparr>" di defs ty] Suc.prems Cons
    have "length (ps_work ?st) + unreached (ps_has_phi ?st) \<le> fuel"
      "length (ps_has_phi ?st) = length (ps_has_phi st)" by auto
    with Suc.IH [of ?st] Suc.prems(1) Cons show ?thesis by simp
  qed simp
qed simp

section \<open>The walk over a flat tree\<close>

lemma build_dom_tree_nth:
  assumes "k < n"
  shows "build_dom_tree n idom ! k = filter (\<lambda>bi. idom ! bi = int k) [0..<n]"
proof -
  have "build_dom_tree n idom = fold (\<lambda>x. if idom ! x \<ge> 0 then push_at (nat (idom ! x)) x else (\<lambda>L. L)) [0..<n] (replicate n [])"
    unfolding build_dom_tree_def by (rule fold_cong) auto
  also have "\<dots> = fold (\<lambda>(k, x). push_at k x) (map (\<lambda>x. (nat (idom ! x), x)) (filter (\<lambda>x. idom ! x \<ge> 0) [0..<n])) (replicate n [])"
    by (rule fold_filter_push)
  also have "\<dots> ! k = map snd (filter (\<lambda>(k', x). k' = k) (map (\<lambda>x. (nat (idom ! x), x)) (filter (\<lambda>x. idom ! x \<ge> 0) [0..<n])))"
    using assms by (subst fold_push_at_nth) simp_all
  also have "\<dots> = filter (\<lambda>bi. idom ! bi = int k) [0..<n]"
  proof -
    have "(\<lambda>x. 0 \<le> idom ! x \<and> nat (idom ! x) = k) = (\<lambda>x. idom ! x = int k)" by auto
    then show ?thesis by (simp add: filter_map comp_def conj_commute)
  qed
  finally show ?thesis .
qed

lemma dom_tree_flat:
  assumes ok: "block_list_ok m f" and r: "all_reachable m f"
    and e: "e < length (fblocks f)" "fblocks f ! e = fentry f"
  shows "di_entry_index (build_dom_info m f) = Some e"
    and "di_dom_tree (build_dom_info m f) ! e = filter (\<lambda>bi. bi \<noteq> e) [0..<length (fblocks f)]"
    and "bi < length (fblocks f) \<Longrightarrow> bi \<noteq> e \<Longrightarrow> di_dom_tree (build_dom_info m f) ! bi = []"
proof -
  let ?di = "build_dom_info m f" and ?n = "length (fblocks f)"
  have ix: "build_index_of (fblocks f) (fentry f) = Some e"
    using index_of_nth [OF block_list_okD(1) [OF ok] e(1)] e(2) by simp
  then show "di_entry_index ?di = Some e" by (simp add: build_dom_info_def Let_def)
  have tree: "di_dom_tree ?di = build_dom_tree ?n (di_idom ?di)"
    using ix by (simp add: build_dom_info_def Let_def)
  have idom_e: "di_idom ?di ! e = -1"
    using ix e(1) by (simp add: build_dom_info_def Let_def find_idom_def)
  have idom: "di_idom ?di ! bi = (if bi = e then -1 else int e)" if "bi < ?n" for bi
    using find_idom_is_entry [OF ok r e that] idom_e by simp
  show "di_dom_tree ?di ! e = filter (\<lambda>bi. bi \<noteq> e) [0..<?n]"
    unfolding tree build_dom_tree_nth [OF e(1)] by (rule filter_cong) (auto simp: idom)
  show "di_dom_tree ?di ! bi = []" if "bi < ?n" "bi \<noteq> e"
    unfolding tree build_dom_tree_nth [OF that(1)] using that by (auto simp: idom filter_empty_conv)
qed

text \<open>A block pushes on top of the stack it is given, as many values as it counts.\<close>

lemma rename_inst_stack:
  assumes "drop pushed (rn_stack st) = S" "pushed \<le> length (rn_stack st)"
    "rename_inst slot undef iid (st, pushed) = (st', pushed')"
  shows "drop pushed' (rn_stack st') = S \<and> pushed' \<le> length (rn_stack st') \<and> rn_mod st' = rn_mod st"
  using assms by (auto simp: rename_inst_def Let_def split: if_splits inst_data.splits)

lemma rename_insts_stack:
  assumes "drop pushed (rn_stack st) = S" "pushed \<le> length (rn_stack st)"
    "fold (rename_inst slot undef) is (st, pushed) = (st', pushed')"
  shows "drop pushed' (rn_stack st') = S \<and> pushed' \<le> length (rn_stack st') \<and> rn_mod st' = rn_mod st"
  using assms
proof (induction "is" arbitrary: st pushed)
  case (Cons i "is")
  obtain st1 p1 where s: "rename_inst slot undef i (st, pushed) = (st1, p1)" by fastforce
  from rename_inst_stack [OF Cons.prems(1,2) s]
  have "drop p1 (rn_stack st1) = S" "p1 \<le> length (rn_stack st1)" "rn_mod st1 = rn_mod st" by simp_all
  with Cons.IH [OF this(1,2)] Cons.prems(3) s show ?case by simp
qed simp

lemma rename_block_stack:
  assumes "rename_block di phis slot undef bi st = (st', pushed)"
  shows "drop pushed (rn_stack st') = rn_stack st"
proof -
  define st0 where "st0 = (case map_of phis (di_blocks di ! bi) of
      Some phi \<Rightarrow> (st\<lparr>rn_stack := phi # rn_stack st\<rparr>, 1 :: nat) | None \<Rightarrow> (st, 0))"
  have d0: "drop (snd st0) (rn_stack (fst st0)) = rn_stack st" "snd st0 \<le> length (rn_stack (fst st0))"
    by (auto simp: st0_def split: option.split)
  obtain st1 p1 where f: "fold (rename_inst slot undef) (binsts (blocks (rn_mod (fst st0)) ! (di_blocks di ! bi)))
      (fst st0, snd st0) = (st1, p1)" by fastforce
  from rename_insts_stack [OF d0 f] f assms show ?thesis
    by (auto simp: rename_block_def Let_def st0_def split: prod.splits)
qed

lemma rename_tree_flat:
  assumes leaf: "\<And>bi. bi \<in> set (di_dom_tree di ! e) \<Longrightarrow> di_dom_tree di ! bi = []"
  shows "rename_tree (Suc (Suc fuel)) di phis slot undef e st =
    (let (st1, pushed) = rename_block di phis slot undef e st;
         st2 = fold (\<lambda>bi s. (fst (rename_block di phis slot undef bi s))\<lparr>rn_stack := rn_stack s\<rparr>)
                 (di_dom_tree di ! e) st1
     in st2\<lparr>rn_stack := drop pushed (rn_stack st2)\<rparr>)"
proof -
  have "rename_tree (Suc fuel) di phis slot undef bi s
      = (fst (rename_block di phis slot undef bi s))\<lparr>rn_stack := rn_stack s\<rparr>"
    if "bi \<in> set (di_dom_tree di ! e)" for bi s
    using leaf [OF that] rename_block_stack [of di phis slot undef bi s]
    by (cases "rename_block di phis slot undef bi s") simp
  then have "fold (rename_tree (Suc fuel) di phis slot undef) (di_dom_tree di ! e) s
      = fold (\<lambda>bi s. (fst (rename_block di phis slot undef bi s))\<lparr>rn_stack := rn_stack s\<rparr>) (di_dom_tree di ! e) s" for s
    by (intro fold_cong) auto
  then show ?thesis by (simp add: case_prod_beta Let_def)
qed

section \<open>Property\<close>

text \<open>C21: in a function whose blocks are all reachable, renaming starts every block but the entry
  from the stack of values at the end of the entry: a load in such a block that no store and
  no parameter of the same block precedes is replaced by the entry's last value, whatever
  the blocks between them store.\<close>
theorem rename_restarts_at_entry:
  assumes "block_list_ok m f" "all_reachable m f" "e < length (fblocks f)" "fblocks f ! e = fentry f"
  shows "rename_tree (Suc (Suc fuel)) (build_dom_info m f) phis slot undef e st =
    (let (st1, pushed) = rename_block (build_dom_info m f) phis slot undef e st;
         st2 = fold (\<lambda>bi s. (fst (rename_block (build_dom_info m f) phis slot undef bi s))\<lparr>rn_stack := rn_stack st1\<rparr>)
                 (filter (\<lambda>bi. bi \<noteq> e) [0..<length (fblocks f)]) st1
     in st2\<lparr>rn_stack := drop pushed (rn_stack st2)\<rparr>)"
proof -
  let ?di = "build_dom_info m f"
  note flat = dom_tree_flat [OF assms]
  have same: "fold (\<lambda>bi s. (fst (rename_block ?di phis slot undef bi s))\<lparr>rn_stack := rn_stack s\<rparr>) bs s
      = fold (\<lambda>bi s. (fst (rename_block ?di phis slot undef bi s))\<lparr>rn_stack := S\<rparr>) bs s"
    if "rn_stack s = S" for bs s S
    using that by (induction bs arbitrary: s) auto
  have "rename_tree (Suc (Suc fuel)) ?di phis slot undef e st =
    (let (st1, pushed) = rename_block ?di phis slot undef e st;
         st2 = fold (\<lambda>bi s. (fst (rename_block ?di phis slot undef bi s))\<lparr>rn_stack := rn_stack s\<rparr>)
                 (di_dom_tree ?di ! e) st1
     in st2\<lparr>rn_stack := drop pushed (rn_stack st2)\<rparr>)"
    by (rule rename_tree_flat) (use flat in auto)
  then show ?thesis
    unfolding flat(2) by (simp add: case_prod_beta Let_def same)
qed

text \<open>
  A straight line of three blocks: the entry stores 1, the second block stores 2, the third
  reads the slot and returns it.
\<close>

definition ex_line_slot :: omodule where
  "ex_line_slot = mk_module [ex_chain]
     [ex_block [0, 1, 2] (TermBr 1 []), ex_block [3, 4] (TermBr 2 []), ex_block [5] (TermRet True 3)]
     [ex_inst (InstAllocaLocal 3) 0, ex_inst (InstConstInt ''1'') 1,
      (ex_inst (InstStore 0 1) kInvalidId)\<lparr>ieff := EffMayWriteMem\<rparr>,
      ex_inst (InstConstInt ''2'') 2,
      (ex_inst (InstStore 0 2) kInvalidId)\<lparr>ieff := EffMayWriteMem\<rparr>,
      (ex_inst (InstLoad 0) 3)\<lparr>ieff := EffMayReadMem\<rparr>]
     [ex_value 3 0, ex_value 3 1, ex_value 3 3, ex_value 3 5]"

text \<open>A machine with one cell.\<close>

definition cell_interp :: "(int, int) interp" where
  "cell_interp d vs s =
     (case d of
        InstConstInt t \<Rightarrow> Some (if t = ''1'' then 1 else 2, s)
      | InstStore a b \<Rightarrow> Some (0, vs ! 1)
      | InstLoad a \<Rightarrow> Some (s, s)
      | _ \<Rightarrow> Some (0, s))"

definition ex_rename :: rename_state where
  "ex_rename = \<lparr>rn_mod = ex_line_slot, rn_repl = Map.empty, rn_remove = [], rn_stack = []\<rparr>"

lemma ex_line_slot_ok: "block_list_ok ex_line_slot ex_chain" "all_reachable ex_line_slot ex_chain"
proof -
  show "block_list_ok ex_line_slot ex_chain"
    by (auto simp: block_list_ok_def ex_line_slot_def ex_defs valid_id_def)
  have e: "cfg_edge ex_line_slot ex_chain 0 1" "cfg_edge ex_line_slot ex_chain 1 2" by code_simp+
  then have "(cfg_edge ex_line_slot ex_chain)\<^sup>*\<^sup>* 0 2"
    by (meson r_into_rtranclp rtranclp.rtrancl_into_rtrancl)
  with e show "all_reachable ex_line_slot ex_chain"
    by (auto simp: all_reachable_def ex_chain_def mk_func_def)
qed

text \<open>The load of the third block becomes value 1, the constant 1 of the entry: the function
  returned 2 and returns 1 after the promotion, and the pipeline check accepts it.\<close>

lemma rename_restarts_at_entry_witness:
  "rn_repl (rename_tree 4 (build_dom_info ex_line_slot ex_chain) [] 0 4 0 ex_rename) 3 = Some 1
   \<and> exec_fuel 3 cell_interp (\<lambda>_. True) ex_line_slot ex_chain 0 (\<lambda>_. 0) 0 = Some (Some 2, 2)
   \<and> map_option (\<lambda>(m, changed). (changed, verify_pipeline_invariants m True,
         map_option fst (exec_fuel 3 cell_interp (\<lambda>_. True) m ex_chain 0 (\<lambda>_. 0) 0)))
       (global_mem2reg_ssa 2 (\<lambda>xs. xs) (funcs ex_line_slot) (ex_line_slot, False))
     = Some (True, True, Some (Some 1))"
proof -
  have "0 < length (fblocks ex_chain)" "fblocks ex_chain ! 0 = fentry ex_chain"
    by (simp_all add: ex_chain_def mk_func_def)
  note th = rename_restarts_at_entry [OF ex_line_slot_ok this, of 2 "[]" 0 4 ex_rename]
  have "rn_repl (let (st1, pushed) = rename_block (build_dom_info ex_line_slot ex_chain) [] 0 4 0 ex_rename;
         st2 = fold (\<lambda>bi s. (fst (rename_block (build_dom_info ex_line_slot ex_chain) [] 0 4 bi s))\<lparr>rn_stack := rn_stack st1\<rparr>)
                 (filter (\<lambda>bi. bi \<noteq> 0) [0..<length (fblocks ex_chain)]) st1
     in st2\<lparr>rn_stack := drop pushed (rn_stack st2)\<rparr>) 3 = Some 1"
    by code_simp
  then have "rn_repl (rename_tree 4 (build_dom_info ex_line_slot ex_chain) [] 0 4 0 ex_rename) 3 = Some 1"
    unfolding th [symmetric] by (simp only: numeral_eq_Suc pred_numeral_simps One_nat_def BitM.simps)
  moreover have "exec_fuel 3 cell_interp (\<lambda>_. True) ex_line_slot ex_chain 0 (\<lambda>_. 0) 0 = Some (Some 2, 2)"
    by code_simp
  moreover have "map_option (\<lambda>(m, changed). (changed, verify_pipeline_invariants m True,
         map_option fst (exec_fuel 3 cell_interp (\<lambda>_. True) m ex_chain 0 (\<lambda>_. 0) 0)))
       (global_mem2reg_ssa 2 (\<lambda>xs. xs) (funcs ex_line_slot) (ex_line_slot, False))
     = Some (True, True, Some (Some 1))"
    by code_simp
  ultimately show ?thesis by blast
qed

end
