(* ===== verification/OIR_Split.thy ===== *)
theory OIR_Split
  imports OIR_Sem
begin

text \<open>
  Splitting of critical edges (\<open>split_critical_edges_\<close> of \<open>oir_passes.cpp\<close>). The source
  keeps a reference into \<open>m.blocks\<close> and iterators of \<open>f.blocks\<close> while it appends to both
  vectors: appending to a full vector moves its elements and leaves them dangling. The
  capacities are parameters \<open>bcap\<close> and \<open>fcap\<close>, and growing beyond them makes the model
  return \<open>None\<close>, the source's undefined behaviour.
\<close>

section \<open>One edge\<close>

text \<open>The copy of the terminator the source edits is written back at once.\<close>

fun split_target :: "bool \<Rightarrow> terminator \<Rightarrow> (nat \<times> nat list) option" where
  "split_target True (TermCondBr c tb targs eb eargs) = Some (tb, targs)"
| "split_target False (TermCondBr c tb targs eb eargs) = Some (eb, eargs)"
| "split_target side t = None"

fun retarget :: "bool \<Rightarrow> nat \<Rightarrow> terminator \<Rightarrow> terminator" where
  "retarget True mid (TermCondBr c tb targs eb eargs) = TermCondBr c mid [] eb eargs"
| "retarget False mid (TermCondBr c tb targs eb eargs) = TermCondBr c tb targs mid []"
| "retarget side mid t = t"

type_synonym split_state = "omodule \<times> ofunc \<times> bool"

definition split_edge :: "nat \<Rightarrow> bool \<Rightarrow> nat \<Rightarrow> nat list \<Rightarrow> omodule \<times> ofunc \<Rightarrow> omodule \<times> ofunc" where
  "split_edge pred side succ args = (\<lambda>(m, f).
     let (m1, mid) = add_block m empty_block;
         m2 = upd_block m1 mid (\<lambda>b. b\<lparr>bterm := TermBr succ args, bhas_term := True\<rparr>);
         m3 = upd_block m2 pred (\<lambda>b. b\<lparr>bterm := retarget side mid (bterm b)\<rparr>);
         m4 = m3\<lparr>stats := (stats m3)\<lparr>critical_edges_split := u32 (critical_edges_split (stats m3) + 1)\<rparr>\<rparr>
     in (m4, f\<lparr>fblocks := fblocks f @ [mid]\<rparr>))"

definition split_side ::
  "nat \<Rightarrow> nat \<Rightarrow> bool list \<Rightarrow> nat list list \<Rightarrow> nat \<Rightarrow> bool \<Rightarrow> split_state \<Rightarrow> split_state option" where
  "split_side bcap fcap owned preds pred side = (\<lambda>(m, f, changed).
     case split_target side (bterm (blocks m ! pred)) of
       None \<Rightarrow> Some (m, f, changed)
     | Some (succ, args) \<Rightarrow>
         if succ = kInvalidId \<or> length (blocks m) \<le> succ then Some (m, f, changed)
         else if \<not> owned ! succ then Some (m, f, changed)
         else if length (preds ! succ) \<le> 1 then Some (m, f, changed)
         else if bcap \<le> length (blocks m) \<or> fcap \<le> length (fblocks f) then None
         else (case split_edge pred side succ args (m, f) of (m', f') \<Rightarrow> Some (m', f', True)))"

definition split_pred ::
  "nat \<Rightarrow> nat \<Rightarrow> bool list \<Rightarrow> nat list list \<Rightarrow> nat \<Rightarrow> split_state \<Rightarrow> split_state option" where
  "split_pred bcap fcap owned preds pred = (\<lambda>(m, f, changed).
     if pred = kInvalidId \<or> length (blocks m) \<le> pred then Some (m, f, changed)
     else if \<not> bhas_term (blocks m ! pred) then Some (m, f, changed)
     else if succ_count (bterm (blocks m ! pred)) \<le> 1 then Some (m, f, changed)
     else (case split_side bcap fcap owned preds pred True (m, f, changed) of
             None \<Rightarrow> None
           | Some st \<Rightarrow> split_side bcap fcap owned preds pred False st))"

fun split_preds ::
  "nat \<Rightarrow> nat \<Rightarrow> bool list \<Rightarrow> nat list list \<Rightarrow> nat list \<Rightarrow> split_state \<Rightarrow> split_state option" where
  "split_preds bcap fcap owned preds [] st = Some st"
| "split_preds bcap fcap owned preds (p # ps) st =
     (case split_pred bcap fcap owned preds p st of
        None \<Rightarrow> None
      | Some st' \<Rightarrow> split_preds bcap fcap owned preds ps st')"

text \<open>A round goes over the block list it started with.\<close>

definition split_round :: "nat \<Rightarrow> nat \<Rightarrow> omodule \<Rightarrow> ofunc \<Rightarrow> split_state option" where
  "split_round bcap fcap m f =
     split_preds bcap fcap (build_owned_block_mask m f) (build_preds m f) (fblocks f) (m, f, False)"

fun split_critical_edges :: "nat \<Rightarrow> nat \<Rightarrow> nat \<Rightarrow> omodule \<Rightarrow> ofunc \<Rightarrow> bool \<Rightarrow> split_state option" where
  "split_critical_edges 0 bcap fcap m f changed = None"
| "split_critical_edges (Suc rounds) bcap fcap m f changed =
     (case split_round bcap fcap m f of
        None \<Rightarrow> None
      | Some (m', f', round_changed) \<Rightarrow>
          if round_changed then split_critical_edges rounds bcap fcap m' f' True
          else Some (m', f', changed))"

section \<open>The graph after a split\<close>

definition indeg :: "omodule \<Rightarrow> ofunc \<Rightarrow> nat \<Rightarrow> nat" where
  "indeg m f t = sum_list (map (\<lambda>bb. count_list (block_targets m bb) t) (fblocks f))"

lemma length_preds_indeg:
  "owned_by m f t \<Longrightarrow> length (build_preds m f ! t) = indeg m f t"
proof -
  have "length (filter (\<lambda>s. s = t) xs) = count_list xs t" for xs
    by (induction xs) simp_all
  then have "length (concat (map (\<lambda>bb. map (\<lambda>_. bb) (filter (\<lambda>s. s = t) (block_targets m bb))) bs))
      = sum_list (map (\<lambda>bb. count_list (block_targets m bb) t) bs)" for bs
    by (induction bs) simp_all
  then show "owned_by m f t \<Longrightarrow> ?thesis"
    by (simp add: build_preds_nth owned_by_def valid_id_def indeg_def)
qed

definition critical_edge :: "omodule \<Rightarrow> ofunc \<Rightarrow> nat \<Rightarrow> nat \<Rightarrow> bool" where
  "critical_edge m f p s \<longleftrightarrow>
     p \<in> set (fblocks f) \<and> s \<in> set (block_targets m p) \<and> 1 < succ_count (bterm (blocks m ! p))
     \<and> 1 < indeg m f s"

text \<open>Block lists as the clean-up leaves them, with room for new ids.\<close>

definition split_ok :: "omodule \<Rightarrow> ofunc \<Rightarrow> bool" where
  "split_ok m f \<longleftrightarrow>
     distinct (fblocks f) \<and> (\<forall>b \<in> set (fblocks f). valid_id (blocks m) b)
     \<and> (\<forall>b \<in> set (fblocks f). set (block_targets m b) \<subseteq> set (fblocks f))"

lemma split_okD:
  assumes "split_ok m f"
  shows "distinct (fblocks f)" "b \<in> set (fblocks f) \<Longrightarrow> valid_id (blocks m) b"
    "b \<in> set (fblocks f) \<Longrightarrow> b < length (blocks m)"
    "b \<in> set (fblocks f) \<Longrightarrow> t \<in> set (block_targets m b) \<Longrightarrow> t \<in> set (fblocks f)"
  using assms by (auto simp: split_ok_def valid_id_def)

lemma sum_list_change_one:
  "distinct xs \<Longrightarrow> p \<in> set xs \<Longrightarrow> (\<And>x. x \<in> set xs \<Longrightarrow> x \<noteq> p \<Longrightarrow> g x = h x) \<Longrightarrow>
   sum_list (map g xs) + (h p :: nat) = sum_list (map h xs) + g p"
proof (induction xs)
  case (Cons x xs)
  show ?case
  proof (cases "x = p")
    case True
    with Cons.prems have "map g xs = map h xs" by auto
    then have "sum_list (map g xs) = sum_list (map h xs)" by (rule arg_cong)
    with True show ?thesis by simp
  next
    case False
    with Cons show ?thesis by simp
  qed
qed simp

text \<open>What a split is applied to, and what it gives.\<close>

definition edge_split ::
  "omodule \<Rightarrow> ofunc \<Rightarrow> nat \<Rightarrow> bool \<Rightarrow> nat \<Rightarrow> nat list \<Rightarrow> omodule \<Rightarrow> ofunc \<Rightarrow> bool" where
  "edge_split m f pred side succ args m' f' \<longleftrightarrow>
     split_ok m f \<and> pred \<in> set (fblocks f) \<and> bhas_term (blocks m ! pred)
     \<and> split_target side (bterm (blocks m ! pred)) = Some (succ, args)
     \<and> length (blocks m) < kInvalidId
     \<and> split_edge pred side succ args (m, f) = (m', f')"

lemma edge_splitD:
  assumes "edge_split m f pred side succ args m' f'"
  shows "split_ok m f" "pred \<in> set (fblocks f)" "bhas_term (blocks m ! pred)"
    "split_target side (bterm (blocks m ! pred)) = Some (succ, args)"
    "u32 (length (blocks m)) = length (blocks m)" "length (blocks m) \<noteq> kInvalidId"
    "split_edge pred side succ args (m, f) = (m', f')" "pred < length (blocks m)"
    "b \<in> set (fblocks f) \<Longrightarrow> valid_id (blocks m) b" "b \<in> set (fblocks f) \<Longrightarrow> b < length (blocks m)"
    "distinct (fblocks f)" "length (blocks m) \<notin> set (fblocks f)"
proof -
  show ok: "split_ok m f" and pin: "pred \<in> set (fblocks f)" and "bhas_term (blocks m ! pred)"
    "split_target side (bterm (blocks m ! pred)) = Some (succ, args)"
    "split_edge pred side succ args (m, f) = (m', f')"
    using assms by (simp_all add: edge_split_def)
  have "length (blocks m) < kInvalidId" using assms by (simp add: edge_split_def)
  then show "u32 (length (blocks m)) = length (blocks m)" "length (blocks m) \<noteq> kInvalidId" by simp_all
  show "b \<in> set (fblocks f) \<Longrightarrow> valid_id (blocks m) b" "b \<in> set (fblocks f) \<Longrightarrow> b < length (blocks m)"
    "distinct (fblocks f)" by (rule split_okD [OF ok]; assumption?)+
  show "pred < length (blocks m)" by (rule split_okD(3) [OF ok pin])
  show "length (blocks m) \<notin> set (fblocks f)" using split_okD(3) [OF ok] by blast
qed

lemma edge_split_new:
  assumes es: "edge_split m f pred side succ args m' f'"
  shows "blocks m' = (blocks m @ [\<lparr>bparams = [], binsts = [], bterm = TermBr succ args, bhas_term = True\<rparr>])
     [pred := (blocks m ! pred)\<lparr>bterm := retarget side (length (blocks m)) (bterm (blocks m ! pred))\<rparr>]"
    and "insts m' = insts m" "vals m' = vals m" "funcs m' = funcs m"
    "fblocks f' = fblocks f @ [length (blocks m)]" "fentry f' = fentry f"
proof -
  note [simp] = edge_splitD(5) [OF es] and res = edge_splitD(7) [OF es]
  have p: "(blocks m @ [b]) ! pred = blocks m ! pred" for b
    using edge_splitD(8) [OF es] by (simp add: nth_append)
  have m': "m' = fst (split_edge pred side succ args (m, f))"
    and f': "f' = snd (split_edge pred side succ args (m, f))" by (simp_all add: res)
  show "insts m' = insts m" "vals m' = vals m" "funcs m' = funcs m"
    "fblocks f' = fblocks f @ [length (blocks m)]" "fentry f' = fentry f"
    unfolding m' f' by (simp_all add: split_edge_def add_block_def Let_def)
  show "blocks m' = (blocks m @ [\<lparr>bparams = [], binsts = [], bterm = TermBr succ args, bhas_term = True\<rparr>])
     [pred := (blocks m ! pred)\<lparr>bterm := retarget side (length (blocks m)) (bterm (blocks m ! pred))\<rparr>]"
    unfolding m' by (simp add: split_edge_def add_block_def Let_def upd_block_def empty_block_def p)
qed

lemma edge_split_blocks:
  assumes es: "edge_split m f pred side succ args m' f'"
  shows "length (blocks m') = Suc (length (blocks m))"
    and "b \<noteq> pred \<Longrightarrow> b < length (blocks m) \<Longrightarrow> blocks m' ! b = blocks m ! b"
    and "blocks m' ! pred = (blocks m ! pred)\<lparr>bterm := retarget side (length (blocks m)) (bterm (blocks m ! pred))\<rparr>"
    and "blocks m' ! length (blocks m) = \<lparr>bparams = [], binsts = [], bterm = TermBr succ args, bhas_term = True\<rparr>"
    and "valid_id (blocks m') b \<longleftrightarrow> valid_id (blocks m) b \<or> b = length (blocks m)"
  using edge_splitD(6,8) [OF es] by (auto simp: edge_split_new(1) [OF es] nth_append nth_list_update valid_id_def)

lemma edge_split_targets:
  assumes es: "edge_split m f pred side succ args m' f'"
  shows "b \<noteq> pred \<Longrightarrow> b < length (blocks m) \<Longrightarrow> block_targets m' b = block_targets m b"
    and "block_targets m' (length (blocks m)) = [succ]"
  by (simp_all add: block_targets_def edge_split_blocks [OF es])

lemma edge_split_term:
  assumes es: "edge_split m f pred side succ args m' f'"
  obtains c tb targs eb eargs where "bterm (blocks m ! pred) = TermCondBr c tb targs eb eargs"
    "block_targets m pred = [tb, eb]"
    "(succ, args) = (if side then (tb, targs) else (eb, eargs))"
    "bterm (blocks m' ! pred) = retarget side (length (blocks m)) (TermCondBr c tb targs eb eargs)"
    "block_targets m' pred = (if side then [length (blocks m), eb] else [tb, length (blocks m)])"
proof -
  note t = edge_splitD(4) [OF es]
  obtain c tb targs eb eargs where c: "bterm (blocks m ! pred) = TermCondBr c tb targs eb eargs"
    using t by (cases "bterm (blocks m ! pred)"; cases side) auto
  have v: "valid_id (blocks m) pred" "valid_id (blocks m') pred"
    using edge_splitD(9) [OF es edge_splitD(2) [OF es]] by (simp_all add: edge_split_blocks(5) [OF es])
  have "block_targets m pred = [tb, eb]"
    using c v(1) edge_splitD(3) [OF es] by (simp add: block_targets_def)
  moreover have "block_targets m' pred = (if side then [length (blocks m), eb] else [tb, length (blocks m)])"
    using c v(2) edge_splitD(3) [OF es] by (cases side) (simp_all add: block_targets_def edge_split_blocks(3) [OF es])
  moreover have "(succ, args) = (if side then (tb, targs) else (eb, eargs))"
    using t c by (cases side) auto
  ultimately show thesis using that c by (simp add: edge_split_blocks(3) [OF es])
qed

lemma edge_split_succ:
  assumes es: "edge_split m f pred side succ args m' f'"
  shows "succ \<in> set (fblocks f)"
proof -
  obtain c tb targs eb eargs where "block_targets m pred = [tb, eb]"
    "(succ, args) = (if side then (tb, targs) else (eb, eargs))" by (rule edge_split_term [OF es])
  then have "succ \<in> set (block_targets m pred)" by (cases side) simp_all
  then show ?thesis by (rule split_okD(4) [OF edge_splitD(1,2) [OF es]])
qed

lemma edge_split_target_less:
  assumes es: "edge_split m f pred side succ args m' f'"
  shows "b \<in> set (fblocks f) \<Longrightarrow> t \<in> set (block_targets m b) \<Longrightarrow> t < length (blocks m)"
  using split_okD(3) [OF edge_splitD(1) [OF es] split_okD(4) [OF edge_splitD(1) [OF es]]] .

lemma edge_split_targets_subset:
  assumes es: "edge_split m f pred side succ args m' f'" and b: "b \<in> set (fblocks f)"
  shows "set (block_targets m' b) \<subseteq> insert (length (blocks m)) (set (fblocks f))"
proof (cases "b = pred")
  case True
  note sub = split_okD(4) [OF edge_splitD(1,2) [OF es]]
  obtain c tb targs eb eargs where xy: "block_targets m pred = [tb, eb]"
    "block_targets m' pred = (if side then [length (blocks m), eb] else [tb, length (blocks m)])"
    by (rule edge_split_term [OF es])
  have "tb \<in> set (fblocks f)" "eb \<in> set (fblocks f)" using sub by (simp_all add: xy(1))
  with True xy(2) show ?thesis by (cases side) simp_all
next
  case False
  then have "block_targets m' b = block_targets m b"
    using edge_split_targets(1) [OF es _ edge_splitD(10) [OF es b]] by simp
  with split_okD(4) [OF edge_splitD(1) [OF es] b] show ?thesis by auto
qed

lemma edge_split_ok:
  assumes es: "edge_split m f pred side succ args m' f'"
  shows "split_ok m' f'"
  unfolding split_ok_def
proof (intro conjI ballI)
  show "distinct (fblocks f')" using edge_splitD(11,12) [OF es] by (simp add: edge_split_new(5) [OF es])
next
  fix b assume "b \<in> set (fblocks f')"
  then show "valid_id (blocks m') b"
    using edge_splitD(9) [OF es] by (auto simp: edge_split_new(5) [OF es] edge_split_blocks(5) [OF es])
next
  fix b assume "b \<in> set (fblocks f')"
  then consider "b \<in> set (fblocks f)" | "b = length (blocks m)" by (auto simp: edge_split_new(5) [OF es])
  then show "set (block_targets m' b) \<subseteq> set (fblocks f')"
  proof cases
    case 1
    from edge_split_targets_subset [OF es this] show ?thesis by (auto simp: edge_split_new(5) [OF es])
  next
    case 2
    then show ?thesis
      using edge_split_targets(2) [OF es] edge_split_succ [OF es] by (simp add: edge_split_new(5) [OF es])
  qed
qed

lemma edge_split_indeg:
  assumes es: "edge_split m f pred side succ args m' f'"
  shows "t < length (blocks m) \<Longrightarrow> indeg m' f' t = indeg m f t"
    and "indeg m' f' (length (blocks m)) = 1"
proof -
  let ?mid = "length (blocks m)"
  obtain c tb targs eb eargs where xy: "block_targets m pred = [tb, eb]"
    "(succ, args) = (if side then (tb, targs) else (eb, eargs))"
    "block_targets m' pred = (if side then [?mid, eb] else [tb, ?mid])"
    by (rule edge_split_term [OF es])
  have less: "tb < ?mid" "eb < ?mid"
    using edge_split_target_less [OF es edge_splitD(2) [OF es]] by (simp_all add: xy(1))
  note change = sum_list_change_one [OF edge_splitD(11,2) [OF es]]
  have split: "indeg m' f' t = sum_list (map (\<lambda>bb. count_list (block_targets m' bb) t) (fblocks f))
      + count_list [succ] t" for t
    by (simp add: indeg_def edge_split_new(5) [OF es] edge_split_targets(2) [OF es])
  show "indeg m' f' t = indeg m f t" if t: "t < ?mid"
  proof -
    have "sum_list (map (\<lambda>bb. count_list (block_targets m' bb) t) (fblocks f)) + count_list (block_targets m pred) t
        = sum_list (map (\<lambda>bb. count_list (block_targets m bb) t) (fblocks f)) + count_list (block_targets m' pred) t"
      by (rule change) (simp add: edge_split_targets(1) [OF es] edge_splitD(10) [OF es])
    moreover have "count_list (block_targets m pred) t = count_list (block_targets m' pred) t + count_list [succ] t"
      using t xy by (cases side) simp_all
    ultimately show ?thesis unfolding split indeg_def [of m f] by linarith
  qed
  have "sum_list (map (\<lambda>bb. count_list (block_targets m' bb) ?mid) (fblocks f)) + 0
      = sum_list (map (\<lambda>bb. 0) (fblocks f)) + count_list (block_targets m' pred) ?mid"
  proof (rule change)
    fix x assume x: "x \<in> set (fblocks f)" "x \<noteq> pred"
    have "?mid \<notin> set (block_targets m x)" using edge_split_target_less [OF es x(1)] by blast
    then show "count_list (block_targets m' x) ?mid = 0"
      using x edge_splitD(10) [OF es x(1)] by (simp add: edge_split_targets(1) [OF es] count_list_0_iff)
  qed
  moreover have "count_list (block_targets m' pred) ?mid = 1" using xy(3) less by (cases side) simp_all
  moreover have "succ \<noteq> ?mid" using edge_splitD(10) [OF es edge_split_succ [OF es]] by simp
  ultimately show "indeg m' f' ?mid = 1" by (simp add: split)
qed

section \<open>Runs across a split\<close>

lemma edge_split_same_block:
  assumes es: "edge_split m f pred side succ args m' f'" and b: "b < length (blocks m)"
  shows "bparams (blocks m' ! b) = bparams (blocks m ! b)" "bhas_term (blocks m' ! b) = bhas_term (blocks m ! b)"
    "block_insts m' b = block_insts m b" "owned_by m' f' b \<longleftrightarrow> owned_by m f b"
proof -
  have e: "blocks m' ! b = blocks m ! b
      \<or> (\<exists>t. blocks m' ! b = (blocks m ! b)\<lparr>bterm := t\<rparr>)"
    using edge_split_blocks(2) [OF es _ b] edge_split_blocks(3) [OF es] by (cases "b = pred") auto
  then show "bparams (blocks m' ! b) = bparams (blocks m ! b)" "bhas_term (blocks m' ! b) = bhas_term (blocks m ! b)"
    by auto
  from e show "block_insts m' b = block_insts m b"
    by (auto simp: block_insts_def edge_split_new(2) [OF es])
  show "owned_by m' f' b \<longleftrightarrow> owned_by m f b"
    using b by (auto simp: owned_by_def edge_split_new(5) [OF es] edge_split_blocks(5) [OF es])
qed

lemma edge_split_next:
  assumes es: "edge_split m f pred side succ args m' f'" and b: "b < length (blocks m)"
  shows "next_edge truth env (bterm (blocks m' ! b)) = next_edge truth env (bterm (blocks m ! b))
    \<or> next_edge truth env (bterm (blocks m' ! b)) = Some (length (blocks m), [])
      \<and> next_edge truth env (bterm (blocks m ! b)) = Some (succ, args)"
proof (cases "b = pred")
  case True
  obtain c tb targs eb eargs where t: "bterm (blocks m ! pred) = TermCondBr c tb targs eb eargs"
    "(succ, args) = (if side then (tb, targs) else (eb, eargs))"
    "bterm (blocks m' ! pred) = retarget side (length (blocks m)) (TermCondBr c tb targs eb eargs)"
    by (rule edge_split_term [OF es])
  with True show ?thesis by (cases side) auto
next
  case False
  with edge_split_blocks(2) [OF es False b] show ?thesis by simp
qed

lemma edge_split_ret:
  assumes es: "edge_split m f pred side succ args m' f'" and b: "b < length (blocks m)"
  shows "bterm (blocks m' ! b) = TermRet has v \<longleftrightarrow> bterm (blocks m ! b) = TermRet has v"
proof (cases "b = pred")
  case True
  obtain c tb targs eb eargs where t: "bterm (blocks m ! pred) = TermCondBr c tb targs eb eargs"
    "bterm (blocks m' ! pred) = retarget side (length (blocks m)) (TermCondBr c tb targs eb eargs)"
    by (rule edge_split_term [OF es])
  with True show ?thesis by (cases side) auto
next
  case False
  with edge_split_blocks(2) [OF es False b] show ?thesis by simp
qed

lemma edge_split_mid_run:
  assumes es: "edge_split m f pred side succ args m' f'"
  shows "runs ieval truth m' f' (length (blocks m)) env s r \<longleftrightarrow>
    runs ieval truth m' f' succ (bind_params (bparams (blocks m ! succ)) (map env args) env) s r"
proof -
  let ?mid = "length (blocks m)"
  have succ: "succ < ?mid" by (rule edge_splitD(10) [OF es edge_split_succ [OF es]])
  have own: "owned_by m' f' ?mid" by (simp add: owned_by_def edge_split_new(5) [OF es] edge_split_blocks(5) [OF es])
  have bi: "block_insts m' ?mid = []" by (simp add: block_insts_def edge_split_blocks(4) [OF es])
  note mid = edge_split_blocks(4) [OF es] and par = edge_split_same_block(1) [OF es succ]
  show ?thesis
  proof
    assume "runs ieval truth m' f' ?mid env s r"
    then show "runs ieval truth m' f' succ (bind_params (bparams (blocks m ! succ)) (map env args) env) s r"
      by (rule runsE) (auto simp: mid bi par)
  next
    assume "runs ieval truth m' f' succ (bind_params (bparams (blocks m ! succ)) (map env args) env) s r"
    then show "runs ieval truth m' f' ?mid env s r"
      using runs.jump [OF own, of ieval env s env s truth succ args r] by (simp add: mid bi par)
  qed
qed

lemma edge_split_runs:
  assumes es: "edge_split m f pred side succ args m' f'" and b: "b < length (blocks m)"
  shows "runs ieval truth m' f' b env s r \<longleftrightarrow> runs ieval truth m f b env s r"
proof
  let ?mid = "length (blocks m)"
  have target: "t < ?mid" if "runs ieval truth m f t env s r" for t env s r
    using runs_owned [OF that] edge_splitD(10) [OF es] by (simp add: owned_by_def)
  show "runs ieval truth m' f' b env s r" if "runs ieval truth m f b env s r"
    using that b
  proof (induction rule: runs.induct)
    case (ret b env s env' s' has v)
    note same = edge_split_same_block [OF es ret.prems]
    show ?case by (rule runs.ret) (use ret same edge_split_ret [OF es ret.prems] in simp_all)
  next
    case (jump b env s env' s' t args' r)
    note same = edge_split_same_block [OF es jump.prems]
    have own: "owned_by m' f' b" "bhas_term (blocks m' ! b)"
      "exec_insts ieval (block_insts m' b) (env, s) = Some (env', s')" using jump.hyps same by simp_all
    have t: "t < ?mid" by (rule target [OF jump.hyps(5)])
    from edge_split_next [OF es jump.prems, of truth env'] show ?case
    proof
      assume "next_edge truth env' (bterm (blocks m' ! b)) = next_edge truth env' (bterm (blocks m ! b))"
      with jump.hyps(4) jump.IH [OF t] edge_split_same_block(1) [OF es t] show ?thesis
        by (intro runs.jump [OF own, of truth t args']) simp_all
    next
      assume nx: "next_edge truth env' (bterm (blocks m' ! b)) = Some (?mid, [])
        \<and> next_edge truth env' (bterm (blocks m ! b)) = Some (succ, args)"
      with jump.hyps(4) have eq: "t = succ" "args' = args" by simp_all
      from jump.IH [OF t] have "runs ieval truth m' f' ?mid env' s' r"
        unfolding edge_split_mid_run [OF es] eq .
      with nx show ?thesis
        by (intro runs.jump [OF own, of truth ?mid "[]"]) (simp_all add: edge_split_blocks(4) [OF es] bind_params_def)
    qed
  qed
  have conv: "(b < ?mid \<longrightarrow> runs ieval truth m f b env s r)
      \<and> (b = ?mid \<longrightarrow> runs ieval truth m f succ (bind_params (bparams (blocks m ! succ)) (map env args) env) s r)"
    if "runs ieval truth m' f' b env s r" for b env s r
    using that
  proof (induction rule: runs.induct)
    case (ret b env s env' s' has v)
    have "b \<noteq> ?mid" using ret.hyps(4) by (auto simp: edge_split_blocks(4) [OF es])
    moreover have "runs ieval truth m f b env s (if has then Some (env' v) else None, s')" if b: "b < ?mid"
      by (rule runs.ret) (use ret edge_split_same_block [OF es b] edge_split_ret [OF es b] in simp_all)
    ultimately show ?case by blast
  next
    case (jump b env s env' s' t args' r)
    have succ: "succ < ?mid" by (rule edge_splitD(10) [OF es edge_split_succ [OF es]])
    show ?case
    proof (intro conjI impI)
      assume "b = ?mid"
      with jump.hyps(3,4) have "env' = env" "s' = s" "t = succ" "args' = args"
        by (simp_all add: block_insts_def edge_split_blocks(4) [OF es])
      with jump.IH succ edge_split_same_block(1) [OF es succ]
      show "runs ieval truth m f succ (bind_params (bparams (blocks m ! succ)) (map env args) env) s r" by simp
    next
      assume b: "b < ?mid"
      note same = edge_split_same_block [OF es b]
      have own: "owned_by m f b" "bhas_term (blocks m ! b)"
        "exec_insts ieval (block_insts m b) (env, s) = Some (env', s')" using jump.hyps same by simp_all
      from edge_split_next [OF es b, of truth env'] show "runs ieval truth m f b env s r"
      proof
        assume nx: "next_edge truth env' (bterm (blocks m' ! b)) = next_edge truth env' (bterm (blocks m ! b))"
        with jump.hyps(4) have "(t, args') \<in> set (term_edges (bterm (blocks m ! b)))"
          by (auto intro: next_edge_in)
        then have "t \<in> set (block_targets m b)"
          using own edge_splitD(9) [OF es, of b] by (cases "bterm (blocks m ! b)") (auto simp: block_targets_def owned_by_def)
        from edge_split_target_less [OF es _ this] own(1) have t: "t < ?mid" by (simp add: owned_by_def)
        with jump.IH jump.hyps(4) nx edge_split_same_block(1) [OF es t] show ?thesis
          by (intro runs.jump [OF own, of truth t args']) simp_all
      next
        assume nx: "next_edge truth env' (bterm (blocks m' ! b)) = Some (?mid, [])
          \<and> next_edge truth env' (bterm (blocks m ! b)) = Some (succ, args)"
        with jump.hyps(4) have "t = ?mid" "args' = []" by simp_all
        with jump.IH have "runs ieval truth m f succ (bind_params (bparams (blocks m ! succ)) (map env' args) env') s' r"
          by (simp add: edge_split_blocks(4) [OF es] bind_params_def)
        with nx show ?thesis by (intro runs.jump [OF own, of truth succ args]) simp_all
      qed
    qed
  qed
  show "runs ieval truth m f b env s r" if "runs ieval truth m' f' b env s r"
    using conv [OF that] b by blast
qed

section \<open>A round\<close>

text \<open>
  Between the blocks of a round: the new blocks follow the old ones and have one
  predecessor each, old blocks keep their number of predecessors, the blocks outside \<open>ch\<close>
  are untouched and those in \<open>dn\<close> have no critical edge left.
\<close>

definition round_inv ::
  "omodule \<Rightarrow> ofunc \<Rightarrow> nat set \<Rightarrow> nat set \<Rightarrow> omodule \<Rightarrow> ofunc \<Rightarrow> bool" where
  "round_inv m0 f0 ch dn m f \<longleftrightarrow>
     split_ok m f
     \<and> length (blocks m0) \<le> length (blocks m)
     \<and> fblocks f = fblocks f0 @ [length (blocks m0)..<length (blocks m)]
     \<and> (\<forall>t < length (blocks m0). indeg m f t = indeg m0 f0 t)
     \<and> (\<forall>t < length (blocks m). length (blocks m0) \<le> t \<longrightarrow>
          indeg m f t = 1 \<and> succ_count (bterm (blocks m ! t)) \<le> 1)
     \<and> (\<forall>b \<in> set (fblocks f0) - ch. blocks m ! b = blocks m0 ! b)
     \<and> (\<forall>p \<in> dn. p \<in> set (fblocks f0)
          \<and> (1 < succ_count (bterm (blocks m ! p)) \<longrightarrow> (\<forall>s \<in> set (block_targets m p). indeg m f s \<le> 1)))"

lemma round_invD:
  assumes "round_inv m0 f0 ch dn m f"
  shows "split_ok m f" "length (blocks m0) \<le> length (blocks m)"
    "fblocks f = fblocks f0 @ [length (blocks m0)..<length (blocks m)]"
    "t < length (blocks m0) \<Longrightarrow> indeg m f t = indeg m0 f0 t"
    "t < length (blocks m) \<Longrightarrow> length (blocks m0) \<le> t \<Longrightarrow>
       indeg m f t = 1 \<and> succ_count (bterm (blocks m ! t)) \<le> 1"
    "b \<in> set (fblocks f0) \<Longrightarrow> b \<notin> ch \<Longrightarrow> blocks m ! b = blocks m0 ! b"
    "q \<in> dn \<Longrightarrow> q \<in> set (fblocks f0)
       \<and> (1 < succ_count (bterm (blocks m ! q)) \<longrightarrow> (\<forall>s \<in> set (block_targets m q). indeg m f s \<le> 1))"
  using assms unfolding round_inv_def by blast+

lemma round_inv_start: "split_ok m f \<Longrightarrow> round_inv m f {} {} m f"
  by (simp add: round_inv_def)

lemma round_inv_split:
  assumes inv: "round_inv m0 f0 ch dn m f" and ok0: "split_ok m0 f0"
    and es: "edge_split m f p side succ args m' f'"
    and p: "p \<in> set (fblocks f0)" "p \<in> ch" "p \<notin> dn"
  shows "round_inv m0 f0 ch dn m' f'"
proof -
  let ?old = "length (blocks m0)" and ?L = "length (blocks m)"
  note le = round_invD(2) [OF inv] and fb = round_invD(3) [OF inv] and old = round_invD(4) [OF inv]
    and new = round_invD(5) [OF inv] and keep = round_invD(6) [OF inv] and dn = round_invD(7) [OF inv]
  have pL0: "p < ?old" by (rule split_okD(3) [OF ok0 p(1)])
  note blk = edge_split_blocks [OF es] and ind = edge_split_indeg [OF es]
  have "split_ok m' f'" by (rule edge_split_ok [OF es])
  moreover have "?old \<le> length (blocks m')" using le by (simp add: blk(1))
  moreover have "fblocks f' = fblocks f0 @ [?old..<length (blocks m')]"
    using le by (simp add: edge_split_new(5) [OF es] fb blk(1))
  moreover have "\<forall>t < ?old. indeg m' f' t = indeg m0 f0 t" using old ind(1) le by simp
  moreover have "indeg m' f' t = 1 \<and> succ_count (bterm (blocks m' ! t)) \<le> 1"
    if t: "t < length (blocks m')" "?old \<le> t" for t
  proof (cases "t = ?L")
    case True
    with ind(2) blk(4) show ?thesis by simp
  next
    case False
    with t have "t < ?L" "t \<noteq> p" using pL0 by (simp_all add: blk(1))
    with new [OF this(1) t(2)] ind(1) blk(2) show ?thesis by simp
  qed
  moreover have "blocks m' ! b = blocks m0 ! b" if "b \<in> set (fblocks f0) - ch" for b
  proof -
    have "b \<noteq> p" "b < ?L" using that p(2) split_okD(3) [OF ok0, of b] le by auto
    with keep [of b] that blk(2) show ?thesis by simp
  qed
  moreover have "q \<in> set (fblocks f0) \<and> (1 < succ_count (bterm (blocks m' ! q)) \<longrightarrow>
      (\<forall>s \<in> set (block_targets m' q). indeg m' f' s \<le> 1))" if q: "q \<in> dn" for q
  proof -
    have q': "q \<noteq> p" "q < ?L" "q \<in> set (fblocks f)"
      using q p(3) dn [OF q] split_okD(3) [OF ok0, of q] le fb by auto
    then have "blocks m' ! q = blocks m ! q" "block_targets m' q = block_targets m q"
      using blk(2) edge_split_targets(1) [OF es] by simp_all
    with dn [OF q] ind(1) edge_split_target_less [OF es q'(3)] show ?thesis by simp
  qed
  ultimately show ?thesis unfolding round_inv_def by blast
qed

text \<open>What is preserved from module to module: the runs from the blocks of the first.\<close>

definition same_runs_below ::
  "nat \<Rightarrow> ('v, 's) interp \<Rightarrow> ('v \<Rightarrow> bool) \<Rightarrow> omodule \<Rightarrow> ofunc \<Rightarrow> omodule \<Rightarrow> ofunc \<Rightarrow> bool" where
  "same_runs_below n ieval truth m f m' f' \<longleftrightarrow>
     fentry f' = fentry f
     \<and> (\<forall>b < n. \<forall>env s r. runs ieval truth m' f' b env s r \<longleftrightarrow> runs ieval truth m f b env s r)"

lemma split_side_step:
  assumes inv: "round_inv m0 f0 ch dn m f" and ok0: "split_ok m0 f0"
    and p: "p \<in> set (fblocks f0)" "p \<in> ch" "p \<notin> dn" "bhas_term (blocks m ! p)"
    and tgt: "split_target side (bterm (blocks m ! p)) = Some (succ, args)" "succ \<in> set (fblocks f0)"
    and room: "length (blocks m) < bcap" "length (fblocks f) < fcap" "length (blocks m) < kInvalidId"
    and st: "split_side bcap fcap (build_owned_block_mask m0 f0) (build_preds m0 f0) p side (m, f, c) = st"
  shows "\<exists>m' f' c'. st = Some (m', f', c')
    \<and> round_inv m0 f0 ch dn m' f'
    \<and> ((m', f', c') = (m, f, c) \<and> indeg m f succ \<le> 1
       \<or> c' \<and> edge_split m f p side succ args m' f')"
proof -
  let ?old = "length (blocks m0)"
  note ok = round_invD(1) [OF inv] and le = round_invD(2) [OF inv] and fb = round_invD(3) [OF inv]
    and old = round_invD(4) [OF inv]
  have succ: "succ \<noteq> kInvalidId" "succ < ?old" "owned_by m0 f0 succ" "valid_id (blocks m0) succ"
    using split_okD(2) [OF ok0 tgt(2)] tgt(2) by (simp_all add: valid_id_def owned_by_def)
  have own: "build_owned_block_mask m0 f0 ! succ" using owned_block_mask [OF succ(4)] succ(3) by simp
  have cnt: "length (build_preds m0 f0 ! succ) = indeg m f succ"
    using length_preds_indeg [OF succ(3)] old [OF succ(2)] by simp
  show ?thesis
  proof (cases "indeg m f succ \<le> 1")
    case True
    then have "st = Some (m, f, c)" using st tgt(1) succ own cnt by (auto simp: split_side_def)
    with True inv show ?thesis by blast
  next
    case False
    obtain m' f' where e: "split_edge p side succ args (m, f) = (m', f')" by fastforce
    have "p \<in> set (fblocks f)" using p(1) fb by simp
    then have es: "edge_split m f p side succ args m' f'"
      using ok p(4) tgt(1) room(3) e by (simp add: edge_split_def)
    have "st = Some (m', f', True)"
      using st tgt(1) succ own cnt False room le e by (auto simp: split_side_def)
    with es round_inv_split [OF inv ok0 es p(1-3)] show ?thesis by blast
  qed
qed

lemma round_inv_more:
  "round_inv m0 f0 ch dn m f \<Longrightarrow> ch \<subseteq> ch' \<Longrightarrow> round_inv m0 f0 ch' dn m f"
  unfolding round_inv_def by blast

lemma same_runs_refl: "same_runs_below n ieval truth m f m f"
  by (simp add: same_runs_below_def)

lemma same_runs_trans:
  "same_runs_below n ieval truth m f m1 f1 \<Longrightarrow> same_runs_below n ieval truth m1 f1 m2 f2 \<Longrightarrow>
   same_runs_below n ieval truth m f m2 f2"
  by (simp add: same_runs_below_def)

lemma same_runs_split:
  "edge_split m f p side succ args m' f' \<Longrightarrow> n \<le> length (blocks m) \<Longrightarrow>
   same_runs_below n ieval truth m f m' f'"
  unfolding same_runs_below_def
  by (intro conjI allI impI edge_split_new(6) edge_split_runs less_le_trans [of _ n "length (blocks m)"])

text \<open>
  The result of visiting one side or one block: where it leaves the invariant, how much it
  grew, and that nothing is reported exactly when nothing changed.
\<close>

definition visit_ok ::
  "omodule \<Rightarrow> ofunc \<Rightarrow> nat set \<Rightarrow> nat set \<Rightarrow> nat \<Rightarrow> split_state \<Rightarrow> split_state option \<Rightarrow> bool" where
  "visit_ok m0 f0 ch dn k = (\<lambda>(m, f, c) st. \<exists>m' f' c'. st = Some (m', f', c')
     \<and> round_inv m0 f0 ch dn m' f'
     \<and> length (blocks m') \<le> length (blocks m) + k
     \<and> (\<not> c' \<longrightarrow> (m', f', c') = (m, f, c)))"

lemma split_side_visit:
  assumes inv: "round_inv m0 f0 ch dn m f" and ok0: "split_ok m0 f0"
    and p: "p \<in> set (fblocks f0)" "p \<in> ch" "p \<notin> dn" "bhas_term (blocks m ! p)"
    and trm: "bterm (blocks m ! p) = TermCondBr c tb targs eb eargs"
    and tgt: "(if side then tb else eb) \<in> set (fblocks f0)"
    and room: "length (blocks m) < bcap" "length (fblocks f) < fcap" "length (blocks m) < kInvalidId"
    and st: "split_side bcap fcap (build_owned_block_mask m0 f0) (build_preds m0 f0) p side (m, f, was) = st"
  shows "\<exists>m' f' c' tb' targs' eb' eargs'. st = Some (m', f', c')
    \<and> round_inv m0 f0 ch dn m' f' \<and> length (blocks m') \<le> Suc (length (blocks m))
    \<and> (\<not> c' \<longrightarrow> m' = m \<and> f' = f \<and> \<not> was)
    \<and> bterm (blocks m' ! p) = TermCondBr c tb' targs' eb' eargs' \<and> bhas_term (blocks m' ! p)
    \<and> (if side then eb' = eb \<and> eargs' = eargs \<and> indeg m' f' tb' \<le> 1 \<and> tb' < length (blocks m')
       else tb' = tb \<and> targs' = targs \<and> indeg m' f' eb' \<le> 1)
    \<and> (\<forall>t < length (blocks m). indeg m' f' t = indeg m f t)
    \<and> same_runs_below (length (blocks m0)) ieval truth m f m' f'"
proof -
  let ?succ = "if side then tb else eb" and ?args = "if side then targs else eargs"
  have t: "split_target side (bterm (blocks m ! p)) = Some (?succ, ?args)"
    using trm by (cases side) simp_all
  have less: "?succ < length (blocks m)"
    using split_okD(3) [OF ok0 tgt] round_invD(2) [OF inv] by simp
  from split_side_step [OF inv ok0 p t tgt room st] obtain m' f' c' where
    r: "st = Some (m', f', c')" "round_inv m0 f0 ch dn m' f'"
    and d: "(m', f', c') = (m, f, was) \<and> indeg m f ?succ \<le> 1 \<or> c' \<and> edge_split m f p side ?succ ?args m' f'"
    by blast
  from d show ?thesis
  proof
    assume "(m', f', c') = (m, f, was) \<and> indeg m f ?succ \<le> 1"
    with r p(4) trm less show ?thesis
      by (intro exI [of _ m'] exI [of _ f'] exI [of _ c'] exI [of _ tb] exI [of _ targs] exI [of _ eb] exI [of _ eargs])
        (cases side; simp add: same_runs_refl)
  next
    assume e: "c' \<and> edge_split m f p side ?succ ?args m' f'"
    then have es: "edge_split m f p side ?succ ?args m' f'" by simp
    have "bterm (blocks m' ! p) = retarget side (length (blocks m)) (TermCondBr c tb targs eb eargs)"
      "bhas_term (blocks m' ! p)"
      using edge_split_blocks(3) [OF es] trm p(4) by simp_all
    with r e edge_split_blocks(1) [OF es] edge_split_indeg [OF es] same_runs_split [OF es round_invD(2) [OF inv], of ieval truth]
    show ?thesis by (cases side) (simp_all, auto)
  qed
qed

lemma split_pred_visit:
  assumes inv: "round_inv m0 f0 dn dn m f" and ok0: "split_ok m0 f0"
    and p: "p \<in> set (fblocks f0)" "p \<notin> dn"
    and room: "length (blocks m) + 2 \<le> bcap" "length (fblocks f) + 2 \<le> fcap" "length (blocks m) + 2 \<le> kInvalidId"
  shows "\<exists>m' f' c'. split_pred bcap fcap (build_owned_block_mask m0 f0) (build_preds m0 f0) p (m, f, ch) = Some (m', f', c')
    \<and> round_inv m0 f0 (insert p dn) (insert p dn) m' f' \<and> length (blocks m') \<le> length (blocks m) + 2
    \<and> (\<not> c' \<longrightarrow> m' = m \<and> f' = f \<and> \<not> ch)
    \<and> same_runs_below (length (blocks m0)) ieval truth m f m' f'"
proof -
  let ?side = "\<lambda>side. split_side bcap fcap (build_owned_block_mask m0 f0) (build_preds m0 f0) p side"
  have same: "blocks m ! p = blocks m0 ! p" by (rule round_invD(6) [OF inv p])
  have pf: "p \<in> set (fblocks f)" using p(1) round_invD(3) [OF inv] by simp
  have v: "valid_id (blocks m) p" by (rule split_okD(2) [OF round_invD(1) [OF inv] pf])
  have inv1: "round_inv m0 f0 (insert p dn) dn m f" by (rule round_inv_more [OF inv]) blast
  show ?thesis
  proof (cases "bhas_term (blocks m ! p) \<and> 1 < succ_count (bterm (blocks m ! p))")
    case False
    then have "round_inv m0 f0 (insert p dn) (insert p dn) m f"
      using inv1 p(1) unfolding round_inv_def by (auto simp: block_targets_def)
    with False show ?thesis by (auto simp: split_pred_def same_runs_refl)
  next
    case True
    then obtain c tb targs eb eargs where trm: "bterm (blocks m ! p) = TermCondBr c tb targs eb eargs"
      by (cases "bterm (blocks m ! p)") auto
    have "set (block_targets m0 p) \<subseteq> set (fblocks f0)" using ok0 p(1) by (simp add: split_ok_def)
    then have in0: "tb \<in> set (fblocks f0)" "eb \<in> set (fblocks f0)"
      using True trm same split_okD(2) [OF ok0 p(1)] by (auto simp: block_targets_def)
    have r1: "length (blocks m) < bcap" "length (fblocks f) < fcap" "length (blocks m) < kInvalidId"
      using room by simp_all
    note v1 = split_side_visit [where side = True and was = ch and ieval = ieval and truth = truth,
        OF inv1 ok0 p(1) insertI1 p(2) conjunct1 [OF True] trm, unfolded if_True, OF in0(1) r1 refl]
    then
    obtain m1 f1 c1 tb1 targs1 where
      s1: "?side True (m, f, ch) = Some (m1, f1, c1)" "round_inv m0 f0 (insert p dn) dn m1 f1"
        "length (blocks m1) \<le> Suc (length (blocks m))" "\<not> c1 \<longrightarrow> m1 = m \<and> f1 = f \<and> \<not> ch"
        "bterm (blocks m1 ! p) = TermCondBr c tb1 targs1 eb eargs" "bhas_term (blocks m1 ! p)"
        "indeg m1 f1 tb1 \<le> 1" "tb1 < length (blocks m1)"
        "same_runs_below (length (blocks m0)) ieval truth m f m1 f1" by metis
    have r2: "length (blocks m1) < bcap" "length (fblocks f1) < fcap" "length (blocks m1) < kInvalidId"
      using room s1(3) round_invD(2,3) [OF inv] round_invD(2,3) [OF s1(2)] by simp_all
    note v2 = split_side_visit [where side = False and was = c1 and ieval = ieval and truth = truth,
        OF s1(2) ok0 p(1) insertI1 p(2) s1(6) s1(5), unfolded if_False, OF in0(2) r2 refl]
    then
    obtain m2 f2 c2 eb2 eargs2 where
      s2: "?side False (m1, f1, c1) = Some (m2, f2, c2)" "round_inv m0 f0 (insert p dn) dn m2 f2"
        "length (blocks m2) \<le> Suc (length (blocks m1))" "\<not> c2 \<longrightarrow> m2 = m1 \<and> f2 = f1 \<and> \<not> c1"
        "bterm (blocks m2 ! p) = TermCondBr c tb1 targs1 eb2 eargs2" "bhas_term (blocks m2 ! p)"
        "indeg m2 f2 eb2 \<le> 1" "\<forall>t < length (blocks m1). indeg m2 f2 t = indeg m1 f1 t"
        "same_runs_below (length (blocks m0)) ieval truth m1 f1 m2 f2" by metis
    have "\<forall>s \<in> set (block_targets m2 p). indeg m2 f2 s \<le> 1"
      using s2(5,6,7,8) s1(7,8) by (auto simp: block_targets_def)
    with s2(2) p(1) have "round_inv m0 f0 (insert p dn) (insert p dn) m2 f2"
      unfolding round_inv_def by blast
    moreover have "split_pred bcap fcap (build_owned_block_mask m0 f0) (build_preds m0 f0) p (m, f, ch) = Some (m2, f2, c2)"
      using True v s1(1) s2(1) by (auto simp: split_pred_def valid_id_def)
    ultimately show ?thesis
      using s1(3,4) s2(3,4) same_runs_trans [OF s1(9) s2(9)] by auto
  qed
qed

lemma split_preds_visit:
  assumes inv: "round_inv m0 f0 dn dn m f" and ok0: "split_ok m0 f0"
    and ps: "set ps \<subseteq> set (fblocks f0)" "distinct ps" "set ps \<inter> dn = {}"
    and room: "length (blocks m) + 2 * length ps \<le> bcap" "length (fblocks f) + 2 * length ps \<le> fcap"
      "length (blocks m) + 2 * length ps \<le> kInvalidId"
  shows "\<exists>m' f' c'. split_preds bcap fcap (build_owned_block_mask m0 f0) (build_preds m0 f0) ps (m, f, ch) = Some (m', f', c')
    \<and> round_inv m0 f0 (dn \<union> set ps) (dn \<union> set ps) m' f'
    \<and> (\<not> c' \<longrightarrow> m' = m \<and> f' = f \<and> \<not> ch)
    \<and> same_runs_below (length (blocks m0)) ieval truth m f m' f'"
  using inv ps room
proof (induction ps arbitrary: m f ch dn)
  case Nil
  then show ?case by (simp add: same_runs_refl)
next
  case (Cons p ps)
  from split_pred_visit [OF Cons.prems(1) ok0, of p bcap fcap ch ieval truth] Cons.prems(2-)
  obtain m1 f1 c1 where s1: "split_pred bcap fcap (build_owned_block_mask m0 f0) (build_preds m0 f0) p (m, f, ch) = Some (m1, f1, c1)"
    "round_inv m0 f0 (insert p dn) (insert p dn) m1 f1" "length (blocks m1) \<le> length (blocks m) + 2"
    "\<not> c1 \<longrightarrow> m1 = m \<and> f1 = f \<and> \<not> ch"
    "same_runs_below (length (blocks m0)) ieval truth m f m1 f1" by auto
  have "length (fblocks f1) \<le> length (fblocks f) + 2"
    using s1(3) round_invD(2,3) [OF Cons.prems(1)] round_invD(2,3) [OF s1(2)] by simp
  with Cons.IH [OF s1(2), of c1] Cons.prems(2-) s1(3)
  obtain m2 f2 c2 where s2: "split_preds bcap fcap (build_owned_block_mask m0 f0) (build_preds m0 f0) ps (m1, f1, c1) = Some (m2, f2, c2)"
    "round_inv m0 f0 (insert p dn \<union> set ps) (insert p dn \<union> set ps) m2 f2" "\<not> c2 \<longrightarrow> m2 = m1 \<and> f2 = f1 \<and> \<not> c1"
    "same_runs_below (length (blocks m0)) ieval truth m1 f1 m2 f2" by auto
  have "insert p dn \<union> set ps = dn \<union> set (p # ps)" by auto
  with s1 s2 same_runs_trans [OF s1(5) s2(4)] show ?case by auto
qed

section \<open>The pass\<close>

lemma split_side_quiet:
  assumes ok: "split_ok m f" and p: "p \<in> set (fblocks f)" "bhas_term (blocks m ! p)"
    and few: "\<And>s. s \<in> set (block_targets m p) \<Longrightarrow> indeg m f s \<le> 1"
  shows "split_side bcap fcap (build_owned_block_mask m f) (build_preds m f) p side (m, f, c) = Some (m, f, c)"
proof (cases "split_target side (bterm (blocks m ! p))")
  case (Some st)
  then obtain s a where t: "split_target side (bterm (blocks m ! p)) = Some (s, a)" by (cases st) auto
  then have "s \<in> set (block_targets m p)"
    using p(2) split_okD(2) [OF ok p(1)] by (cases side; cases "bterm (blocks m ! p)") (auto simp: block_targets_def)
  from few [OF this] split_okD(4) [OF ok p(1) this] split_okD(2) [OF ok split_okD(4) [OF ok p(1) this]]
  have "length (build_preds m f ! s) \<le> 1" by (simp add: length_preds_indeg owned_by_def)
  with t show ?thesis by (simp add: split_side_def)
qed (simp add: split_side_def)

lemma split_round_quiet:
  assumes ok: "split_ok m f" and no: "\<And>p s. \<not> critical_edge m f p s"
  shows "split_round bcap fcap m f = Some (m, f, False)"
proof -
  have "split_preds bcap fcap (build_owned_block_mask m f) (build_preds m f) ps (m, f, False) = Some (m, f, False)"
    if "set ps \<subseteq> set (fblocks f)" for ps
    using that
  proof (induction ps)
    case (Cons p ps)
    have "split_pred bcap fcap (build_owned_block_mask m f) (build_preds m f) p (m, f, False) = Some (m, f, False)"
    proof (cases "bhas_term (blocks m ! p) \<and> 1 < succ_count (bterm (blocks m ! p))")
      case True
      have "indeg m f s \<le> 1" if "s \<in> set (block_targets m p)" for s
        using no [of p s] that True Cons.prems by (auto simp: critical_edge_def)
      with split_side_quiet [OF ok, of p] True Cons.prems show ?thesis by (simp add: split_pred_def)
    qed (auto simp: split_pred_def)
    with Cons show ?case by simp
  qed simp
  then show ?thesis by (simp add: split_round_def)
qed

lemma split_round_visit:
  assumes ok: "split_ok m f"
    and room: "length (blocks m) + 2 * length (fblocks f) \<le> bcap" "3 * length (fblocks f) \<le> fcap"
      "length (blocks m) + 2 * length (fblocks f) \<le> kInvalidId"
  shows "\<exists>m' f' c'. split_round bcap fcap m f = Some (m', f', c') \<and> split_ok m' f'
    \<and> (\<forall>p s. \<not> critical_edge m' f' p s) \<and> (\<not> c' \<longrightarrow> m' = m \<and> f' = f)
    \<and> same_runs_below (length (blocks m)) ieval truth m f m' f'"
proof -
  from split_preds_visit [OF round_inv_start [OF ok] ok subset_refl split_okD(1) [OF ok], of bcap fcap False ieval truth] room
  obtain m' f' c' where r: "split_round bcap fcap m f = Some (m', f', c')"
    "round_inv m f (set (fblocks f)) (set (fblocks f)) m' f'" "\<not> c' \<longrightarrow> m' = m \<and> f' = f"
    "same_runs_below (length (blocks m)) ieval truth m f m' f'"
    by (auto simp: split_round_def)
  have "\<not> critical_edge m' f' p s" for p s
  proof
    assume c: "critical_edge m' f' p s"
    then have "p \<in> set (fblocks f) \<or> p \<in> {length (blocks m)..<length (blocks m')}"
      using round_invD(3) [OF r(2)] by (auto simp: critical_edge_def)
    then show False
    proof
      assume "p \<in> set (fblocks f)"
      from round_invD(7) [OF r(2) this] c show False by (auto simp: critical_edge_def)
    next
      assume "p \<in> {length (blocks m)..<length (blocks m')}"
      with round_invD(5) [OF r(2), of p] c show False by (auto simp: critical_edge_def)
    qed
  qed
  with r round_invD(1) [OF r(2)] show ?thesis by blast
qed

lemma split_two_rounds:
  assumes ok: "split_ok m f"
    and room: "length (blocks m) + 2 * length (fblocks f) \<le> bcap" "3 * length (fblocks f) \<le> fcap"
      "length (blocks m) + 2 * length (fblocks f) \<le> kInvalidId"
  shows "\<exists>m' f' ch. split_critical_edges 2 bcap fcap m f False = Some (m', f', ch) \<and> split_ok m' f'
    \<and> (\<forall>p s. \<not> critical_edge m' f' p s)
    \<and> same_runs_below (length (blocks m)) ieval truth m f m' f'"
proof -
  from split_round_visit [OF assms, of ieval truth] obtain m' f' c' where
    r: "split_round bcap fcap m f = Some (m', f', c')" "split_ok m' f'"
      "\<forall>p s. \<not> critical_edge m' f' p s" "\<not> c' \<longrightarrow> m' = m \<and> f' = f"
      "same_runs_below (length (blocks m)) ieval truth m f m' f'" by blast
  have "split_round bcap fcap m' f' = Some (m', f', False)"
    using split_round_quiet [OF r(2)] r(3) by blast
  with r show ?thesis by (cases c') (auto simp: numeral_2_eq_2)
qed

lemma split_full_undefined:
  assumes ok: "split_ok m f" and full: "bcap \<le> length (blocks m) \<or> fcap \<le> length (fblocks f)"
    and crit: "critical_edge m f p s"
  shows "split_round bcap fcap m f = None"
proof -
  let ?own = "build_owned_block_mask m f" and ?preds = "build_preds m f"
  have "split_preds bcap fcap ?own ?preds ps (m, f, False) = None"
    if "set ps \<subseteq> set (fblocks f)" "\<exists>p \<in> set ps. \<exists>s. critical_edge m f p s" for ps
    using that
  proof (induction ps)
    case (Cons q ps)
    have q: "q \<in> set (fblocks f)" using Cons.prems(1) by simp
    have side: "split_side bcap fcap ?own ?preds q side (m, f, False)
        = (case split_target side (bterm (blocks m ! q)) of None \<Rightarrow> Some (m, f, False)
           | Some (s, a) \<Rightarrow> if indeg m f s \<le> 1 then Some (m, f, False) else None)"
      if ht: "bhas_term (blocks m ! q)" for side
    proof (cases "split_target side (bterm (blocks m ! q))")
      case (Some st)
      then obtain s a where t: "split_target side (bterm (blocks m ! q)) = Some (s, a)" by (cases st) auto
      then have s: "s \<in> set (block_targets m q)"
        using ht split_okD(2) [OF ok q] by (cases side; cases "bterm (blocks m ! q)") (auto simp: block_targets_def)
      note sf = split_okD(4) [OF ok q s]
      have v: "valid_id (blocks m) s" "owned_by m f s" using split_okD(2) [OF ok sf] sf by (simp_all add: owned_by_def)
      then show ?thesis
        using t full owned_block_mask [OF v(1)] length_preds_indeg [OF v(2)]
        by (auto simp: split_side_def valid_id_def)
    qed (simp add: split_side_def)
    show ?case
    proof (cases "\<exists>s. critical_edge m f q s")
      case True
      then obtain s where c: "critical_edge m f q s" by blast
      then have ht: "bhas_term (blocks m ! q)" "1 < succ_count (bterm (blocks m ! q))"
        by (auto simp: critical_edge_def block_targets_def split: if_splits)
      then obtain cnd tb targs eb eargs where t: "bterm (blocks m ! q) = TermCondBr cnd tb targs eb eargs"
        by (cases "bterm (blocks m ! q)") auto
      have "s = tb \<or> s = eb" using c t by (auto simp: critical_edge_def block_targets_def split: if_splits)
      then have "split_pred bcap fcap ?own ?preds q (m, f, False) = None"
        using c ht t side [OF ht(1)] split_okD(2) [OF ok q]
        by (auto simp: split_pred_def valid_id_def critical_edge_def)
      then show ?thesis by simp
    next
      case False
      have "split_pred bcap fcap ?own ?preds q (m, f, False) = Some (m, f, False)"
      proof (cases "bhas_term (blocks m ! q) \<and> 1 < succ_count (bterm (blocks m ! q))")
        case True
        have "indeg m f s \<le> 1" if "s \<in> set (block_targets m q)" for s
          using False that True q by (force simp: critical_edge_def)
        with split_side_quiet [OF ok q] True show ?thesis by (simp add: split_pred_def)
      qed (auto simp: split_pred_def)
      with Cons False show ?thesis by auto
    qed
  qed simp
  with crit show ?thesis by (auto simp: split_round_def critical_edge_def)
qed

section \<open>Properties\<close>

text \<open>A branch around a block: the edge from the first block to the last is critical.\<close>

definition ex_around_fn :: ofunc where
  "ex_around_fn = mk_func ''around'' [0, 1, 2] 0"

definition ex_around :: omodule where
  "ex_around = mk_module [ex_around_fn]
     [ex_block [0] (TermCondBr 0 1 [] 2 []), ex_block [] (TermBr 2 []), ex_block [] (TermRet True 0)]
     [ex_inst (InstConstBool True) 0] [ex_value 4 0]"

lemma ex_around_ok: "split_ok ex_around ex_around_fn" "fentry ex_around_fn \<in> set (fblocks ex_around_fn)"
  "length (blocks ex_around) + 2 * length (fblocks ex_around_fn) \<le> 9" "3 * length (fblocks ex_around_fn) \<le> 9"
  "length (blocks ex_around) + 2 * length (fblocks ex_around_fn) \<le> kInvalidId"
  by code_simp+

text \<open>C20: splitting ends: when both vectors have room for the new blocks, two rounds are enough,
  and no edge of the result goes from a block with two successors to a block with two
  predecessors.\<close>
theorem split_critical_edges_ends:
  assumes "split_ok m f"
    and "length (blocks m) + 2 * length (fblocks f) \<le> bcap" "3 * length (fblocks f) \<le> fcap"
      "length (blocks m) + 2 * length (fblocks f) \<le> kInvalidId"
  shows "\<exists>m' f' ch. split_critical_edges 2 bcap fcap m f False = Some (m', f', ch) \<and> split_ok m' f'
    \<and> (\<forall>p s. \<not> critical_edge m' f' p s)"
  using split_two_rounds [OF assms, of "\<lambda>_ _ _. None" "\<lambda>_. True"] by blast

lemma split_critical_edges_ends_witness:
  "critical_edge ex_around ex_around_fn 0 2
   \<and> (\<exists>m' f' ch. split_critical_edges 2 9 9 ex_around ex_around_fn False = Some (m', f', ch)
        \<and> (\<forall>p s. \<not> critical_edge m' f' p s))"
proof -
  have "critical_edge ex_around ex_around_fn 0 2" by code_simp
  with split_critical_edges_ends [OF ex_around_ok(1,3-5)] show ?thesis by blast
qed



text \<open>splitting is undefined on full vectors: when the module's blocks or the function's block
  list has no spare capacity, any critical edge makes the pass write through a reference or
  iterator that the append has invalidated.\<close>
theorem split_undefined_when_full:
  assumes "split_ok m f" "bcap \<le> length (blocks m) \<or> fcap \<le> length (fblocks f)" "critical_edge m f p s"
  shows "split_critical_edges (Suc rounds) bcap fcap m f ch = None"
  using split_full_undefined [OF assms] by simp

lemma split_undefined_when_full_witness:
  "split_critical_edges 1 3 9 ex_around ex_around_fn False = None"
proof -
  have "3 \<le> length (blocks ex_around) \<or> 9 \<le> length (fblocks ex_around_fn)"
    "critical_edge ex_around ex_around_fn 0 2" by code_simp+
  from split_undefined_when_full [OF ex_around_ok(1) this, of 0 False] show ?thesis by simp
qed

end
