(* ===== verification/OIR_Loops.thy ===== *)
theory OIR_Loops
  imports OIR_Split OIR_Guard OIR_Examples
begin

text \<open>
  The two passes that give loops and edges their canonical form (\<open>oir_passes.cpp\<close>):
  preheaders (\<open>canonicalize_loops_\<close>) and casts of edge arguments to the types of the block
  parameters they bind (\<open>normalize_phi_edge_casts_\<close>). The latter keeps references into
  \<open>m.blocks\<close> while it appends a block: \<open>bcap\<close> is the vector's capacity and \<open>None\<close> the
  undefined behaviour beyond it.
\<close>

section \<open>Casts on edges\<close>

fun set_side_args :: "bool \<Rightarrow> nat list \<Rightarrow> terminator \<Rightarrow> terminator" where
  "set_side_args True args' (TermCondBr c tb targs eb eargs) = TermCondBr c tb args' eb eargs"
| "set_side_args False args' (TermCondBr c tb targs eb eargs) = TermCondBr c tb targs eb args'"
| "set_side_args side args' (TermBr t args) = TermBr t args'"
| "set_side_args side args' (TermRet has v) = TermRet has v"

definition edge_mismatch :: "omodule \<Rightarrow> nat list \<Rightarrow> nat list \<Rightarrow> bool" where
  "edge_mismatch m args params =
     list_ex (\<lambda>(arg, param).
        \<not> (arg = kInvalidId \<or> param = kInvalidId)
        \<and> \<not> (length (vals m) \<le> arg \<or> length (vals m) \<le> param)
        \<and> vty (vals m ! arg) \<noteq> vty (vals m ! param)) (zip args params)"

text \<open>Casting in block \<open>bb\<close> and writing the arguments back to its terminator.\<close>

definition cast_edge :: "nat \<Rightarrow> bool \<Rightarrow> nat list \<Rightarrow> nat \<Rightarrow> omodule \<Rightarrow> omodule \<times> bool" where
  "cast_edge bb side args target m =
     (case normalize_edge_args_to_target_types m bb args (bparams (blocks m ! target)) of
        (m', args', changed) \<Rightarrow>
          (upd_block m' bb (\<lambda>b. b\<lparr>bterm := set_side_args side args' (bterm b)\<rparr>), changed))"

definition normalize_side ::
  "nat \<Rightarrow> bool list \<Rightarrow> nat \<Rightarrow> bool \<Rightarrow> split_state \<Rightarrow> split_state option" where
  "normalize_side bcap owned pred side = (\<lambda>(m, f, changed).
     case split_target side (bterm (blocks m ! pred)) of
       None \<Rightarrow> Some (m, f, changed)
     | Some (target, args) \<Rightarrow>
         if target = kInvalidId \<or> length (blocks m) \<le> target then Some (m, f, changed)
         else if \<not> owned ! target then Some (m, f, changed)
         else if \<not> edge_mismatch m args (bparams (blocks m ! target)) then Some (m, f, changed)
         else if succ_count (bterm (blocks m ! pred)) > 1
         then (if bcap \<le> length (blocks m) then None
               else
                 let mid = u32 (length (blocks m));
                     (m1, f1) = split_edge pred side target args (m, f);
                     (m2, ch) = cast_edge mid side args target m1
                 in Some (m2, f1, True))
         else (case cast_edge pred side args target m of (m', ch) \<Rightarrow> Some (m', f, changed \<or> ch)))"

definition normalize_pred ::
  "nat \<Rightarrow> bool list \<Rightarrow> nat \<Rightarrow> split_state \<Rightarrow> split_state option" where
  "normalize_pred bcap owned pred = (\<lambda>(m, f, changed).
     if pred = kInvalidId \<or> length (blocks m) \<le> pred then Some (m, f, changed)
     else if \<not> bhas_term (blocks m ! pred) then Some (m, f, changed)
     else (case bterm (blocks m ! pred) of
             TermBr t args \<Rightarrow>
               if t = kInvalidId \<or> length (blocks m) \<le> t then Some (m, f, changed)
               else if \<not> owned ! t then Some (m, f, changed)
               else (case cast_edge pred True args t m of (m', ch) \<Rightarrow> Some (m', f, changed \<or> ch))
           | TermCondBr c tb targs eb eargs \<Rightarrow>
               (case normalize_side bcap owned pred True (m, f, changed) of
                  None \<Rightarrow> None
                | Some st \<Rightarrow> normalize_side bcap owned pred False st)
           | TermRet has v \<Rightarrow> Some (m, f, changed)))"

text \<open>The index loop reaches the blocks it appends; one unit of fuel per index.\<close>

fun normalize_from :: "nat \<Rightarrow> nat \<Rightarrow> bool list \<Rightarrow> nat \<Rightarrow> split_state \<Rightarrow> split_state option" where
  "normalize_from 0 bcap owned fi (m, f, changed) = None"
| "normalize_from (Suc fuel) bcap owned fi (m, f, changed) =
     (if length (fblocks f) \<le> fi then Some (m, f, changed)
      else (case normalize_pred bcap owned (fblocks f ! fi) (m, f, changed) of
              None \<Rightarrow> None
            | Some st \<Rightarrow> normalize_from fuel bcap owned (Suc fi) st))"

definition normalize_phi_edge_casts :: "nat \<Rightarrow> omodule \<Rightarrow> ofunc \<Rightarrow> split_state option" where
  "normalize_phi_edge_casts bcap m f =
     normalize_from (Suc (3 * length (fblocks f))) bcap (build_owned_block_mask m f) 0 (m, f, False)"

section \<open>Preheaders\<close>

text \<open>One parameter of the preheader for each parameter of the header, of the same type.\<close>

definition clone_param :: "nat \<Rightarrow> nat \<Rightarrow> omodule \<times> nat list \<Rightarrow> omodule \<times> nat list" where
  "clone_param pre hparam = (\<lambda>(m, pre_args).
     let ty = (if hparam \<noteq> kInvalidId \<and> hparam < length (vals m) then vty (vals m ! hparam) else kInvalidId)
     in (case add_block_param m pre ty of (m', v) \<Rightarrow> (m', pre_args @ [v])))"

definition make_preheader :: "dom_info \<Rightarrow> loop_desc \<Rightarrow> omodule \<times> ofunc \<Rightarrow> omodule \<times> ofunc" where
  "make_preheader di loop = (\<lambda>(m, f).
     let (m1, pre) = add_block m empty_block;
         f1 = f\<lparr>fblocks := fblocks f @ [pre]\<rparr>;
         (m2, pre_args) = fold (clone_param pre) (bparams (blocks m1 ! lp_header loop)) (m1, []);
         m3 = upd_block m2 pre (\<lambda>b. b\<lparr>bterm := TermBr (lp_header loop) pre_args, bhas_term := True\<rparr>);
         m4 = fold (\<lambda>p m. fst (redirect_edge_target m p (lp_header loop) pre)) (outside_preds di loop) m3;
         m5 = m4\<lparr>stats := (stats m4)\<lparr>loop_canonicalized := u32 (loop_canonicalized (stats m4) + 1)\<rparr>\<rparr>
     in (m5, f1))"

definition loop_canonical :: "omodule \<Rightarrow> dom_info \<Rightarrow> loop_desc \<Rightarrow> bool" where
  "loop_canonical m di loop =
     (let outside = outside_preds di loop in
      outside = [] \<or> length outside = 1 \<and> is_preheader_block m (outside ! 0) (lp_header loop))"

definition canonicalize_round :: "dom_info \<Rightarrow> loop_desc list \<Rightarrow> split_state \<Rightarrow> split_state" where
  "canonicalize_round di loops st =
     fold (\<lambda>loop (m, f, changed).
        if loop_canonical m di loop then (m, f, changed)
        else (case make_preheader di loop (m, f) of (m', f') \<Rightarrow> (m', f', True))) loops st"

text \<open>Rounds until a round changes nothing; \<open>None\<close> when the fuel runs out first.\<close>

fun canonicalize_loops :: "nat \<Rightarrow> split_state \<Rightarrow> split_state option" where
  "canonicalize_loops 0 (m, f, changed) = None"
| "canonicalize_loops (Suc fuel) (m, f, changed) =
     (let di = build_dom_info m f; loops = collect_loops m f di in
      if di_entry_index di = None then Some (m, f, changed)
      else if loops = [] then Some (m, f, changed)
      else (case canonicalize_round di loops (m, f, False) of
              (m', f', round_changed) \<Rightarrow>
                if round_changed then canonicalize_loops fuel (m', f', True)
                else Some (m', f', changed)))"

section \<open>Casts give the parameter types\<close>

lemma make_edge_cast_simps:
  assumes "length (vals m) < kInvalidId"
  shows "vals (fst (make_edge_cast_value m bb src ty)) =
      vals m @ [\<lparr>vty = ty, veff = EffPure, vdef_a = u32 (length (insts m)), vdef_b = kInvalidId\<rparr>]"
    and "snd (make_edge_cast_value m bb src ty) = length (vals m)"
  using assms by (simp_all add: make_edge_cast_value_def add_value_def add_inst_def Let_def)

lemma normalize_edge_args_spec:
  assumes "length (vals m) + length args < kInvalidId"
    and "list_all (valid_id (vals m)) args" "list_all (valid_id (vals m)) params"
    and "normalize_edge_args_to_target_types m bb args params = (m', args', changed)"
  shows "length args' = length args
    \<and> (\<exists>new. vals m' = vals m @ new \<and> length new \<le> length args)
    \<and> list_all (valid_id (vals m')) args'
    \<and> (\<forall>i < min (length args) (length params). vty (vals m' ! (args' ! i)) = vty (vals m ! (params ! i)))
    \<and> (\<not> changed \<longrightarrow> m' = m \<and> args' = args)"
  using assms
proof (induction m bb args params arbitrary: m' args' changed rule: normalize_edge_args_to_target_types.induct)
  case (1 m bb arg args param params)
  have v: "valid_id (vals m) arg" "valid_id (vals m) param" using "1.prems" by simp_all
  have less: "arg < length (vals m)" "param < length (vals m)" using v by (simp_all add: valid_id_def)
  let ?skip = "arg = kInvalidId \<or> param = kInvalidId \<or> length (vals m) \<le> arg \<or> length (vals m) \<le> param
      \<or> vty (vals m ! arg) = vty (vals m ! param)"
  show ?case
  proof (cases ?skip)
    case True
    then have same: "vty (vals m ! arg) = vty (vals m ! param)" using v by (auto simp: valid_id_def)
    obtain m1 args1 ch1 where r: "normalize_edge_args_to_target_types m bb args params = (m1, args1, ch1)"
      by (metis prod_cases3)
    with True "1.prems"(4) have e: "m' = m1" "args' = arg # args1" "changed = ch1" by simp_all
    from "1.IH"(1) [OF True _ _ _ r] "1.prems"
    have IH: "length args1 = length args" "\<exists>new. vals m1 = vals m @ new \<and> length new \<le> length args"
      "list_all (valid_id (vals m1)) args1"
      "\<forall>i < min (length args) (length params). vty (vals m1 ! (args1 ! i)) = vty (vals m ! (params ! i))"
      "\<not> ch1 \<longrightarrow> m1 = m \<and> args1 = args" by auto
    then obtain new where new: "vals m1 = vals m @ new" "length new \<le> length args" by blast
    have "valid_id (vals m1) arg" "vty (vals m1 ! arg) = vty (vals m ! param)"
      using v(1) less same by (simp_all add: new nth_append)
    with IH new show ?thesis
      unfolding e by (auto simp: nth_Cons split: nat.split)
  next
    case False
    obtain m1 w where c: "make_edge_cast_value m bb arg (vty (vals m ! param)) = (m1, w)" by fastforce
    have room: "length (vals m) < kInvalidId" using "1.prems"(1) by simp
    from make_edge_cast_simps [OF room, of bb arg "vty (vals m ! param)"] c
    have m1: "vals m1 = vals m @ [\<lparr>vty = vty (vals m ! param), veff = EffPure,
        vdef_a = u32 (length (insts m)), vdef_b = kInvalidId\<rparr>]" and w: "w = length (vals m)" by simp_all
    obtain m2 args2 ch2 where r: "normalize_edge_args_to_target_types m1 bb args params = (m2, args2, ch2)"
      by (metis prod_cases3)
    with False c "1.prems"(4) have e: "m' = m2" "args' = w # args2" "changed = True" by simp_all
    have mono: "valid_id (vals m) x \<Longrightarrow> valid_id (vals m1) x" for x by (simp add: m1)
    have "list_all (valid_id (vals m1)) args" "list_all (valid_id (vals m1)) params"
      using "1.prems"(2,3) mono by (auto simp: list_all_iff)
    from "1.IH"(2) [OF False c [symmetric] _ this r] "1.prems"(1)
    have IH: "length args2 = length args" "\<exists>new. vals m2 = vals m1 @ new \<and> length new \<le> length args"
      "list_all (valid_id (vals m2)) args2"
      "\<forall>i < min (length args) (length params). vty (vals m2 ! (args2 ! i)) = vty (vals m1 ! (params ! i))"
      by (auto simp: m1)
    then obtain new where new: "vals m2 = vals m1 @ new" "length new \<le> length args" by blast
    have "vty (vals m1 ! (params ! i)) = vty (vals m ! (params ! i))" if "i < length params" for i
      using "1.prems"(3) nth_mem [OF that] by (auto simp: m1 list_all_iff valid_id_def nth_append)
    with IH(4) have "\<forall>i < min (length args) (length params). vty (vals m2 ! (args2 ! i)) = vty (vals m ! (params ! i))"
      by simp
    moreover have "valid_id (vals m2) w" "vty (vals m2 ! w) = vty (vals m ! param)"
      using room by (simp_all add: new m1 w valid_id_def nth_append)
    ultimately show ?thesis
      using IH(1,3) new unfolding e by (auto simp: m1 nth_Cons split: nat.split)
  qed
qed simp_all

section \<open>After canonicalisation\<close>

lemma canonicalize_round_quiet:
  "canonicalize_round di loops (m, f, False) = (m', f', False) \<Longrightarrow>
   m' = m \<and> f' = f \<and> (\<forall>l \<in> set loops. loop_canonical m di l)"
proof -
  have keep: "snd (snd (canonicalize_round di ls (m, f, True)))" for ls m f
    unfolding canonicalize_round_def
    by (induction ls arbitrary: m f) (auto split: prod.split)
  show "canonicalize_round di loops (m, f, False) = (m', f', False) \<Longrightarrow> ?thesis"
  proof (induction loops)
    case Nil
    then show ?case by (simp add: canonicalize_round_def)
  next
    case (Cons l loops)
    show ?case
    proof (cases "loop_canonical m di l")
      case True
      with Cons show ?thesis by (simp add: canonicalize_round_def)
    next
      case False
      obtain m1 f1 where "make_preheader di l (m, f) = (m1, f1)" by fastforce
      with False Cons.prems keep [of loops m1 f1] show ?thesis
        by (simp add: canonicalize_round_def)
    qed
  qed
qed

lemma canonicalize_loops_done:
  "canonicalize_loops fuel (m, f, ch) = Some (m', f', ch') \<Longrightarrow>
   \<forall>l \<in> set (collect_loops m' f' (build_dom_info m' f')).
     di_entry_index (build_dom_info m' f') \<noteq> None \<longrightarrow> loop_canonical m' (build_dom_info m' f') l"
proof (induction fuel arbitrary: m f ch)
  case (Suc fuel)
  let ?di = "build_dom_info m f" and ?loops = "collect_loops m f (build_dom_info m f)"
  obtain m1 f1 rc where r: "canonicalize_round ?di ?loops (m, f, False) = (m1, f1, rc)" by (metis prod_cases3)
  show ?case
  proof (cases "di_entry_index ?di = None \<or> ?loops = []")
    case True
    with Suc.prems show ?thesis by (auto simp: Let_def split: if_splits)
  next
    case False
    then have step: "canonicalize_loops (Suc fuel) (m, f, ch) =
        (if rc then canonicalize_loops fuel (m1, f1, True) else Some (m1, f1, ch))"
      by (auto simp: Let_def r)
    show ?thesis
    proof (cases rc)
      case True
      with step Suc.prems have "canonicalize_loops fuel (m1, f1, True) = Some (m', f', ch')" by simp
      then show ?thesis by (rule Suc.IH)
    next
      case rc: False
      with step Suc.prems have "m' = m1" "f' = f1" by simp_all
      moreover from r rc have "canonicalize_round ?di ?loops (m, f, False) = (m1, f1, False)" by simp
      ultimately show ?thesis by (auto dest: canonicalize_round_quiet)
    qed
  qed
qed simp

lemma canonicalize_round_canonical:
  "\<forall>l \<in> set loops. loop_canonical m di l \<Longrightarrow> canonicalize_round di loops (m, f, ch) = (m, f, ch)"
  unfolding canonicalize_round_def by (induction loops) auto

lemma canonicalize_loops_stable:
  assumes "\<forall>l \<in> set (collect_loops m f (build_dom_info m f)).
      di_entry_index (build_dom_info m f) \<noteq> None \<longrightarrow> loop_canonical m (build_dom_info m f) l"
  shows "canonicalize_loops (Suc fuel) (m, f, ch) = Some (m, f, ch)"
proof (cases "di_entry_index (build_dom_info m f)")
  case (Some e)
  with assms have "canonicalize_round (build_dom_info m f) (collect_loops m f (build_dom_info m f)) (m, f, False)
      = (m, f, False)" by (intro canonicalize_round_canonical) simp
  with Some show ?thesis by (simp add: Let_def)
qed simp

section \<open>Properties\<close>

text \<open>casting the arguments of an edge for its target keeps their number, gives each argument
  that has a parameter the type of that parameter, only appends values, and changes nothing when it
  reports no change, as long as the ids of the new values fit in 32 bits.\<close>

theorem normalize_edge_args_types:
  assumes "length (vals m) + length args < kInvalidId"
    and "list_all (valid_id (vals m)) args" "list_all (valid_id (vals m)) params"
    and "normalize_edge_args_to_target_types m bb args params = (m', args', changed)"
  shows "length args' = length args
    \<and> (\<exists>new. vals m' = vals m @ new \<and> length new \<le> length args)
    \<and> (\<forall>i < min (length args) (length params). vty (vals m' ! (args' ! i)) = vty (vals m ! (params ! i)))
    \<and> (\<not> changed \<longrightarrow> m' = m \<and> args' = args)"
  using normalize_edge_args_spec [OF assms] by blast

text \<open>A branch passes a value of type 4 to a parameter of type 7.\<close>

definition ex_cast :: omodule where
  "ex_cast = mk_module [mk_func ''main'' [0, 1] 0]
     [ex_block [0] (TermBr 1 [0]), \<lparr>bparams = [1], binsts = [], bterm = TermRet True 1, bhas_term = True\<rparr>]
     [ex_inst (InstConstBool True) 0]
     [ex_value 4 0, \<lparr>vty = 7, veff = EffPure, vdef_a = 1, vdef_b = 0\<rparr>]"

theorem normalize_edge_args_types_witness:
  "case normalize_edge_args_to_target_types ex_cast 0 [0] [1] of (m', args', changed) \<Rightarrow>
     changed \<and> args' = [2] \<and> vty (vals m' ! 2) = 7"
proof -
  obtain m' args' changed where r: "normalize_edge_args_to_target_types ex_cast 0 [0] [1] = (m', args', changed)"
    by (metis prod_cases3)
  have c: "case normalize_edge_args_to_target_types ex_cast 0 [0] [1] of (m', args', changed) \<Rightarrow>
      changed \<and> args' = [2]" "length (vals ex_cast) + length [0 :: nat] < kInvalidId"
    "list_all (valid_id (vals ex_cast)) [0]" "list_all (valid_id (vals ex_cast)) [1]"
    "vty (vals ex_cast ! ([1] ! 0)) = 7" by code_simp+
  from c(1) have "changed" "args' = [2]" unfolding r by simp_all
  moreover from normalize_edge_args_types [OF c(2-4) r] c(5) calculation have "vty (vals m' ! 2) = 7" by simp
  ultimately show ?thesis unfolding r by simp
qed

text \<open>once loop canonicalisation returns, every loop it then detects in the function either has
  no predecessor outside or exactly one, which ends in a plain branch to the header, and running the
  pass again returns after one round with nothing changed.\<close>

theorem canonicalize_loops_fixpoint:
  assumes "canonicalize_loops fuel (m, f, False) = Some (m', f', ch')"
    and "di_entry_index (build_dom_info m' f') \<noteq> None"
  shows "(\<forall>l \<in> set (collect_loops m' f' (build_dom_info m' f')).
      let outside = outside_preds (build_dom_info m' f') l in
      outside = [] \<or> length outside = 1 \<and> is_preheader_block m' (outside ! 0) (lp_header l))
    \<and> canonicalize_loops 1 (m', f', False) = Some (m', f', False)"
proof -
  have ready: "\<forall>l \<in> set (collect_loops m' f' (build_dom_info m' f')). loop_canonical m' (build_dom_info m' f') l"
    using canonicalize_loops_done [OF assms(1)] assms(2) by blast
  then have "canonicalize_loops (Suc 0) (m', f', False) = Some (m', f', False)"
    by (intro canonicalize_loops_stable) blast
  with ready show ?thesis unfolding loop_canonical_def by (simp add: Let_def)
qed

text \<open>A loop entered by a conditional branch: block 1 is the header, 2 the latch.\<close>

definition ex_loop :: omodule where
  "ex_loop = mk_module [mk_func ''main'' [0, 1, 2, 3] 0]
     [ex_block [0] (TermCondBr 0 1 [] 3 []), ex_block [] (TermCondBr 0 2 [] 3 []),
      ex_block [] (TermBr 1 []), ex_block [] (TermRet True 0)]
     [ex_inst (InstConstBool True) 0]
     [ex_value 4 0]"

theorem canonicalize_loops_fixpoint_witness:
  "case canonicalize_loops 2 (ex_loop, mk_func ''main'' [0, 1, 2, 3] 0, False) of
     None \<Rightarrow> False
   | Some (m', f', ch') \<Rightarrow>
       ch' \<and> fblocks f' = [0, 1, 2, 3, 4] \<and> bterm (blocks m' ! 0) = TermCondBr 0 4 [] 3 []
       \<and> canonicalize_loops 1 (m', f', False) = Some (m', f', False)"
proof -
  let ?run = "canonicalize_loops 2 (ex_loop, mk_func ''main'' [0, 1, 2, 3] 0, False)"
  have c: "case ?run of None \<Rightarrow> False | Some (m', f', ch') \<Rightarrow>
      ch' \<and> fblocks f' = [0, 1, 2, 3, 4] \<and> bterm (blocks m' ! 0) = TermCondBr 0 4 [] 3 []
      \<and> di_entry_index (build_dom_info m' f') \<noteq> None" by code_simp
  then obtain m' f' ch' where r: "?run = Some (m', f', ch')" by (auto split: option.splits)
  from c have e: "ch' \<and> fblocks f' = [0, 1, 2, 3, 4] \<and> bterm (blocks m' ! 0) = TermCondBr 0 4 [] 3 []
      \<and> di_entry_index (build_dom_info m' f') \<noteq> None" unfolding r by simp
  with canonicalize_loops_fixpoint [OF r] show ?thesis unfolding r by (simp del: canonicalize_loops.simps One_nat_def)
qed

end
