(* ===== verification/OIR_GVN.thy ===== *)
theory OIR_GVN
  imports OIR_Mem2Reg
begin

text \<open>
  Value numbering (\<open>gvn_cse_\<close> of \<open>oir_passes.cpp\<close>): the textual key of a pure
  instruction, the walk over the dominator tree with a stack of available values per key, the
  rewriting of the replaced results and the removal of their instructions. A key is a string
  as in the source; \<open>value_form\<close> is what it stands for.
\<close>

section \<open>Keys\<close>

fun is_commutative :: "bin_op \<Rightarrow> bool" where
  "is_commutative BinAdd = True"
| "is_commutative BinMul = True"
| "is_commutative BinEq = True"
| "is_commutative BinNe = True"
| "is_commutative BinLogicalAnd = True"
| "is_commutative BinLogicalOr = True"
| "is_commutative _ = False"

text \<open>The casts \<open>(uint32_t)x.op\<close> of the enumerators.\<close>

fun bin_op_code :: "bin_op \<Rightarrow> nat" where
  "bin_op_code BinAdd = 0" | "bin_op_code BinSub = 1" | "bin_op_code BinMul = 2"
| "bin_op_code BinDiv = 3" | "bin_op_code BinRem = 4" | "bin_op_code BinLt = 5"
| "bin_op_code BinLe = 6" | "bin_op_code BinGt = 7" | "bin_op_code BinGe = 8"
| "bin_op_code BinEq = 9" | "bin_op_code BinNe = 10" | "bin_op_code BinLogicalAnd = 11"
| "bin_op_code BinLogicalOr = 12" | "bin_op_code BinNullCoalesce = 13"

fun un_op_code :: "un_op \<Rightarrow> nat" where
  "un_op_code UnPlus = 0" | "un_op_code UnNeg = 1" | "un_op_code UnNot = 2" | "un_op_code UnBitNot = 3"

fun cast_kind_code :: "cast_kind \<Rightarrow> nat" where
  "cast_kind_code CastAs = 0" | "cast_kind_code CastAsQ = 1" | "cast_kind_code CastAsB = 2"

text \<open>The visitor; \<open>ty\<close> is the type of the result and \<open>rv\<close> the lambda of the same name.\<close>

fun gvn_data_key :: "nat \<Rightarrow> (nat \<Rightarrow> nat) \<Rightarrow> inst_data \<Rightarrow> string" where
  "gvn_data_key ty rv (InstConstInt t) = ''ci:'' @ dec ty @ '':'' @ t"
| "gvn_data_key ty rv (InstConstFloat t) = ''cf:'' @ dec ty @ '':'' @ t"
| "gvn_data_key ty rv (InstConstChar c) = ''cc:'' @ dec ty @ '':'' @ dec c"
| "gvn_data_key ty rv (InstConstBool b) = ''cb:'' @ dec ty @ '':'' @ (if b then ''1'' else ''0'')"
| "gvn_data_key ty rv (InstConstText t) = ''ct:'' @ dec ty @ '':'' @ t"
| "gvn_data_key ty rv InstConstNull = ''cn:'' @ dec ty"
| "gvn_data_key ty rv (InstUnary op src) = ''u:'' @ dec (un_op_code op) @ '':'' @ dec (rv src)"
| "gvn_data_key ty rv (InstBinOp op lhs rhs) =
     (let a = rv lhs; b = rv rhs;
          (a, b) = (if is_commutative op \<and> b < a then (b, a) else (a, b))
      in ''b:'' @ dec (bin_op_code op) @ '':'' @ dec a @ '':'' @ dec b)"
| "gvn_data_key ty rv (InstCast k to src) =
     ''c:'' @ dec (cast_kind_code k) @ '':'' @ dec to @ '':'' @ dec (rv src)"
| "gvn_data_key ty rv _ = []"

definition gvn_key :: "omodule \<Rightarrow> oinst \<Rightarrow> (nat \<rightharpoonup> nat) \<Rightarrow> string" where
  "gvn_key m inst repl =
     (if iresult inst = kInvalidId then []
      else if ieff inst \<noteq> EffPure then []
      else
        let result_ty = (if iresult inst < length (vals m) then vty (vals m ! iresult inst) else kInvalidId)
        in gvn_data_key result_ty (resolve_alias repl) (idata inst))"

section \<open>The walk\<close>

record gvn_state =
  gv_env :: "string \<rightharpoonup> nat list"
  gv_repl :: "nat \<rightharpoonup> nat"
  gv_remove :: "nat list"
  gv_count :: nat

text \<open>One instruction. The stack of a key has its top first, and so has the list \<open>pushed\<close>.\<close>

definition gvn_inst ::
  "omodule \<Rightarrow> nat \<Rightarrow> gvn_state \<times> (string \<times> nat) list \<Rightarrow> gvn_state \<times> (string \<times> nat) list" where
  "gvn_inst m iid = (\<lambda>(st, pushed).
     if length (insts m) \<le> iid then (st, pushed)
     else if iresult (insts m ! iid) = kInvalidId then (st, pushed)
     else
       let inst = insts m ! iid; key = gvn_key m inst (gv_repl st) in
       if key = [] then (st, pushed)
       else (case gv_env st key of
               Some (v # vs) \<Rightarrow>
                 (st\<lparr>gv_repl := (gv_repl st)(iresult inst \<mapsto> v), gv_remove := iid # gv_remove st,
                     gv_count := u32 (gv_count st + 1)\<rparr>, pushed)
             | _ \<Rightarrow>
                 (st\<lparr>gv_env := (gv_env st)(key \<mapsto> [iresult inst])\<rparr>, (key, iresult inst) # pushed)))"

definition gvn_block :: "omodule \<Rightarrow> dom_info \<Rightarrow> nat \<Rightarrow> gvn_state \<Rightarrow> gvn_state \<times> (string \<times> nat) list" where
  "gvn_block m di bi st = fold (gvn_inst m) (binsts (blocks m ! (di_blocks di ! bi))) (st, [])"

definition gvn_pop :: "string \<times> nat \<Rightarrow> gvn_state \<Rightarrow> gvn_state" where
  "gvn_pop = (\<lambda>(key, v) st.
     (case gv_env st key of
        Some (w # ws) \<Rightarrow>
          if w = v then st\<lparr>gv_env := (gv_env st)(key := if ws = [] then None else Some ws)\<rparr> else st
      | _ \<Rightarrow> st))"

text \<open>The recursion over the dominator tree; one unit of fuel per level.\<close>

fun gvn_tree :: "nat \<Rightarrow> omodule \<Rightarrow> dom_info \<Rightarrow> nat \<Rightarrow> gvn_state \<Rightarrow> gvn_state" where
  "gvn_tree 0 m di bi st = st"
| "gvn_tree (Suc fuel) m di bi st =
     (case gvn_block m di bi st of
        (st1, pushed) \<Rightarrow> fold gvn_pop pushed (fold (gvn_tree fuel m di) (di_dom_tree di ! bi) st1))"

section \<open>The pass\<close>

text \<open>A replacement is recorded together with a removal, so one test for emptiness serves both.\<close>

definition gvn_cse_function :: "omodule \<Rightarrow> ofunc \<Rightarrow> omodule \<times> bool" where
  "gvn_cse_function m f =
     (let di = build_dom_info m f in
      case di_entry_index di of
        None \<Rightarrow> (m, False)
      | Some e \<Rightarrow>
          let st = gvn_tree (Suc (length (di_blocks di))) m di e
                     \<lparr>gv_env = Map.empty, gv_repl = Map.empty, gv_remove = [],
                      gv_count = gvn_cse_eliminated (stats m)\<rparr>
          in if gv_remove st = [] then (m, False)
             else
               let m1 = m\<lparr>stats := (stats m)\<lparr>gvn_cse_eliminated := gv_count st\<rparr>\<rparr>;
                   m2 = rewrite_operands m1 (gv_repl st)
               in (drop_insts (fblocks f) (gv_remove st) m2, True))"

text \<open>The loops \<open>for (auto& f : m.funcs) changed |= q(m, f)\<close> of passes that leave \<open>f\<close> alone.\<close>

definition on_func :: "(omodule \<Rightarrow> ofunc \<Rightarrow> omodule \<times> bool) \<Rightarrow> ofunc \<Rightarrow> omodule \<times> bool \<Rightarrow> omodule \<times> bool" where
  "on_func q f st = (case st of (m, changed) \<Rightarrow> case q m f of (m', ch) \<Rightarrow> (m', changed \<or> ch))"

definition gvn_cse :: "omodule \<Rightarrow> omodule \<times> bool" where
  "gvn_cse m = fold (on_func gvn_cse_function) (funcs m) (m, False)"

section \<open>What a key stands for\<close>

text \<open>The operation and its resolved operands, those of a commutative operation in order; the
  constants and the casts carry the type of their result or target.\<close>

fun value_form :: "(nat \<Rightarrow> nat) \<Rightarrow> inst_data \<Rightarrow> inst_data" where
  "value_form rv (InstBinOp op lhs rhs) =
     (if is_commutative op then InstBinOp op (min (rv lhs) (rv rhs)) (max (rv lhs) (rv rhs))
      else InstBinOp op (rv lhs) (rv rhs))"
| "value_form rv d = map_operands rv d"

fun is_constant :: "inst_data \<Rightarrow> bool" where
  "is_constant (InstConstInt t) = True"
| "is_constant (InstConstFloat t) = True"
| "is_constant (InstConstChar c) = True"
| "is_constant (InstConstBool b) = True"
| "is_constant (InstConstText t) = True"
| "is_constant InstConstNull = True"
| "is_constant d = False"

lemma colon_not_digit: "CHR '':'' \<notin> set (dec n)"
proof
  assume "CHR '':'' \<in> set (dec n)"
  then have "is_digit (CHR '':'')" by (rule is_digit_dec)
  then show False by (simp add: is_digit_def)
qed

lemma dec_colon [simp]:
  "dec a @ CHR '':'' # xs = dec b @ CHR '':'' # ys \<longleftrightarrow> a = b \<and> xs = ys"
proof
  let ?h = "takeWhile (\<lambda>c. c \<noteq> CHR '':'')" and ?t = "dropWhile (\<lambda>c. c \<noteq> CHR '':'')"
  have h: "?h (dec n @ CHR '':'' # zs) = dec n" "?t (dec n @ CHR '':'' # zs) = CHR '':'' # zs" for n zs
    using colon_not_digit [of n] by (subst takeWhile_append2 dropWhile_append2; auto)+
  assume "dec a @ CHR '':'' # xs = dec b @ CHR '':'' # ys"
  then show "a = b \<and> xs = ys" using h by (metis dec_inj list.inject)
qed simp

lemma dec_eq [simp]: "dec a = dec b \<longleftrightarrow> a = b"
  by (auto dest: dec_inj)

lemma bin_op_code_inj [simp]: "bin_op_code op = bin_op_code op' \<longleftrightarrow> op = op'"
  by (cases op; cases op') simp_all

lemma un_op_code_inj [simp]: "un_op_code op = un_op_code op' \<longleftrightarrow> op = op'"
  by (cases op; cases op') simp_all

lemma cast_kind_code_inj [simp]: "cast_kind_code k = cast_kind_code k' \<longleftrightarrow> k = k'"
  by (cases k; cases k') simp_all

lemma gvn_data_key_bin:
  "gvn_data_key ty rv (InstBinOp op lhs rhs) =
   (if is_commutative op
    then ''b:'' @ dec (bin_op_code op) @ '':'' @ dec (min (rv lhs) (rv rhs)) @ '':'' @ dec (max (rv lhs) (rv rhs))
    else ''b:'' @ dec (bin_op_code op) @ '':'' @ dec (rv lhs) @ '':'' @ dec (rv rhs))"
  by (auto simp: Let_def min_def max_def)

lemma gvn_data_key_inj:
  assumes "gvn_data_key ty rv d = gvn_data_key ty' rv' d'" "gvn_data_key ty rv d \<noteq> []"
  shows "value_form rv d = value_form rv' d' \<and> (is_constant d \<longrightarrow> ty = ty')"
  using assms
  by (cases d; cases d')
    (simp_all add: gvn_data_key_bin del: gvn_data_key.simps(8) split: if_splits)

section \<open>Property\<close>

text \<open>two instructions share a value-numbering key only when they are pure, apply the same
  operation to the same operands after replacement (in either order for a commutative operation),
  and, when they are constants, have results of the same type.\<close>

theorem gvn_key_identifies:
  assumes "gvn_key m i repl = gvn_key m j repl'" "gvn_key m i repl \<noteq> []"
    and "iresult i < length (vals m)" "iresult j < length (vals m)"
  shows "ieff i = EffPure \<and> ieff j = EffPure
    \<and> value_form (resolve_alias repl) (idata i) = value_form (resolve_alias repl') (idata j)
    \<and> (is_constant (idata i) \<longrightarrow> vty (vals m ! iresult i) = vty (vals m ! iresult j))"
proof -
  have keyed: "ieff x = EffPure \<and> gvn_key m x r = gvn_data_key (vty (vals m ! iresult x)) (resolve_alias r) (idata x)"
    if "gvn_key m x r \<noteq> []" "iresult x < length (vals m)" for x r
    using that by (auto simp: gvn_key_def split: if_splits)
  note i = keyed [OF assms(2,3)] and j = keyed [OF assms(2) [unfolded assms(1)] assms(4)]
  from assms(1,2) i j gvn_data_key_inj show ?thesis by metis
qed

lemma gvn_key_identifies_witness:
  "value_form (resolve_alias [5 \<mapsto> 1]) (InstBinOp BinAdd 5 0) = value_form (resolve_alias Map.empty) (InstBinOp BinAdd 0 1)"
proof -
  define m where "m = mk_module [] [] [] (map (ex_value 3) [0 ..< 8])"
  let ?i = "ex_inst (InstBinOp BinAdd 5 0) 6" and ?j = "ex_inst (InstBinOp BinAdd 0 1) 7"
  have "gvn_key m ?i [5 \<mapsto> 1] = gvn_key m ?j Map.empty" "gvn_key m ?i [5 \<mapsto> 1] \<noteq> []"
    "iresult ?i < length (vals m)" "iresult ?j < length (vals m)"
    unfolding m_def by code_simp+
  from gvn_key_identifies [OF this] show ?thesis by (simp add: ex_inst_def)
qed

end
