(* ===== verification/OIR_LICM.thy ===== *)
theory OIR_LICM
  imports OIR_GVN OIR_Loops "HOL-Library.Multiset"
begin

text \<open>
  Loop-invariant code motion (\<open>licm_\<close> of \<open>oir_passes.cpp\<close>): for every loop with a
  preheader, the instructions of the loop whose operands are invariant are moved, in the order
  they are found, to the end of the preheader. \<open>loop.blocks\<close> and the set of mutated slots
  are sets whose order nothing depends on; the memo of the escape test is left out, since moving
  instructions between the blocks of the function does not change its answers.
\<close>

section \<open>Candidates\<close>

text \<open>\<open>inst_operands_\<close>: again no case for \<open>InstArrayLen\<close>.\<close>

fun inst_operands :: "inst_data \<Rightarrow> nat list" where
  "inst_operands (InstUnary op src) = [src]"
| "inst_operands (InstBinOp op lhs rhs) = [lhs, rhs]"
| "inst_operands (InstCast k to src) = [src]"
| "inst_operands (InstCall c) = call_callee c # call_args c"
| "inst_operands (InstIndex base index) = [base, index]"
| "inst_operands (InstSliceView base lo hi incl) = [base, lo, hi]"
| "inst_operands (InstField base fld bf) = [base]"
| "inst_operands (InstActorCommit ctx) = [ctx]"
| "inst_operands (InstActorRecast ctx) = [ctx]"
| "inst_operands (InstDrop slot owner) = [slot]"
| "inst_operands (InstLoad slot) = [slot]"
| "inst_operands (InstStore slot v) = [slot, v]"
| "inst_operands _ = []"

definition value_defined_in_loop :: "omodule \<Rightarrow> nat \<Rightarrow> nat set \<Rightarrow> (nat \<rightharpoonup> nat) \<Rightarrow> bool" where
  "value_defined_in_loop m v loop_blocks inst_block =
     (if v = kInvalidId \<or> length (vals m) \<le> v then False
      else
        let w = vals m ! v in
        if vdef_a w = kInvalidId then False
        else if vdef_b w \<noteq> kInvalidId then vdef_a w \<in> loop_blocks
        else (case inst_block (vdef_a w) of None \<Rightarrow> False | Some b \<Rightarrow> b \<in> loop_blocks))"

definition stored_slots :: "omodule \<Rightarrow> nat \<Rightarrow> nat list" where
  "stored_slots m bb =
     (if bb = kInvalidId \<or> length (blocks m) \<le> bb then []
      else concat (map (\<lambda>iid.
          if length (insts m) \<le> iid then []
          else (case idata (insts m ! iid) of InstStore slot v \<Rightarrow> [slot] | _ \<Rightarrow> []))
        (binsts (blocks m ! bb))))"

definition mutated_slots :: "omodule \<Rightarrow> nat set \<Rightarrow> nat set" where
  "mutated_slots m loop_blocks = (\<Union>bb \<in> loop_blocks. set (stored_slots m bb))"

definition initial_invariants :: "omodule \<Rightarrow> nat set \<Rightarrow> (nat \<rightharpoonup> nat) \<Rightarrow> nat set" where
  "initial_invariants m loop_blocks inst_block =
     set (filter (\<lambda>v. \<not> value_defined_in_loop m v loop_blocks inst_block) [0 ..< length (vals m)])"

definition hoistable :: "omodule \<Rightarrow> ofunc \<Rightarrow> nat set \<Rightarrow> oinst \<Rightarrow> bool" where
  "hoistable m f mutated inst =
     (case idata inst of
        InstLoad slot \<Rightarrow> is_non_escaping_slot m f slot \<and> slot \<notin> mutated
      | _ \<Rightarrow> ieff inst = EffPure)"

section \<open>Collecting what is hoisted\<close>

text \<open>The hoisted instructions in order, the invariant values, and whether this round found one.\<close>

type_synonym hoist_state = "nat list \<times> nat set \<times> bool"

definition hoist_inst :: "omodule \<Rightarrow> ofunc \<Rightarrow> nat set \<Rightarrow> nat \<Rightarrow> hoist_state \<Rightarrow> hoist_state" where
  "hoist_inst m f mutated iid = (\<lambda>(order, known, round).
     if length (insts m) \<le> iid then (order, known, round)
     else if iid \<in> set order then (order, known, round)
     else if iresult (insts m ! iid) = kInvalidId then (order, known, round)
     else if \<not> hoistable m f mutated (insts m ! iid) then (order, known, round)
     else if \<not> list_all (\<lambda>v. v \<in> known) (inst_operands (idata (insts m ! iid))) then (order, known, round)
     else (order @ [iid], insert (iresult (insts m ! iid)) known, True))"

definition loop_insts :: "omodule \<Rightarrow> ofunc \<Rightarrow> nat set \<Rightarrow> nat list" where
  "loop_insts m f loop_blocks = concat (map (\<lambda>bb. binsts (blocks m ! bb)) (filter (\<lambda>bb. bb \<in> loop_blocks) (fblocks f)))"

definition hoist_round :: "omodule \<Rightarrow> ofunc \<Rightarrow> nat set \<Rightarrow> nat set \<Rightarrow> hoist_state \<Rightarrow> hoist_state" where
  "hoist_round m f loop_blocks mutated st = fold (hoist_inst m f mutated) (loop_insts m f loop_blocks) st"

text \<open>The \<open>do ... while\<close>: every round but the last adds an instruction of the loop, so one unit
  of fuel per instruction and one for the last round are enough (\<open>hoist_rounds_spec\<close>).\<close>

fun hoist_rounds :: "nat \<Rightarrow> omodule \<Rightarrow> ofunc \<Rightarrow> nat set \<Rightarrow> nat set \<Rightarrow> nat list \<Rightarrow> nat set \<Rightarrow> nat list \<times> nat set" where
  "hoist_rounds 0 m f loop_blocks mutated order known = (order, known)"
| "hoist_rounds (Suc fuel) m f loop_blocks mutated order known =
     (case hoist_round m f loop_blocks mutated (order, known, False) of
        (order', known', round) \<Rightarrow>
          if round then hoist_rounds fuel m f loop_blocks mutated order' known' else (order', known'))"

section \<open>The pass\<close>

text \<open>Removal from every block of the loop.\<close>

definition remove_hoisted :: "nat set \<Rightarrow> nat list \<Rightarrow> omodule \<Rightarrow> omodule" where
  "remove_hoisted loop_blocks order m =
     m\<lparr>blocks := map (\<lambda>(bb, b).
         if bb \<in> loop_blocks \<and> bb \<noteq> kInvalidId
         then b\<lparr>binsts := filter (\<lambda>iid. iid \<notin> set order) (binsts b)\<rparr> else b)
       (List.enumerate 0 (blocks m))\<rparr>"

definition hoist_order :: "omodule \<Rightarrow> ofunc \<Rightarrow> loop_desc \<Rightarrow> (nat \<rightharpoonup> nat) \<Rightarrow> nat list" where
  "hoist_order m f loop inst_block =
     fst (hoist_rounds (Suc (length (loop_insts m f (lp_blocks loop)))) m f (lp_blocks loop)
            (mutated_slots m (lp_blocks loop)) [] (initial_invariants m (lp_blocks loop) inst_block))"

definition licm_loop ::
  "ofunc \<Rightarrow> dom_info \<Rightarrow> (nat \<rightharpoonup> nat) \<Rightarrow> loop_desc \<Rightarrow> omodule \<times> bool \<Rightarrow> omodule \<times> bool" where
  "licm_loop f di inst_block loop = (\<lambda>(m, changed).
     let outside = outside_preds di loop in
     if length outside \<noteq> 1 then (m, changed)
     else if \<not> is_preheader_block m (outside ! 0) (lp_header loop) then (m, changed)
     else
       let order = hoist_order m f loop inst_block in
       if order = [] then (m, changed)
       else
         let m1 = remove_hoisted (lp_blocks loop) order m;
             m2 = upd_block m1 (outside ! 0) (\<lambda>b. b\<lparr>binsts := binsts b @ order\<rparr>)
         in (m2\<lparr>stats := (stats m2)\<lparr>licm_hoisted := u32 (licm_hoisted (stats m2) + length order)\<rparr>\<rparr>, True))"

definition licm_function :: "omodule \<Rightarrow> ofunc \<Rightarrow> omodule \<times> bool" where
  "licm_function m f =
     (let di = build_dom_info m f in
      if di_entry_index di = None then (m, False)
      else
        let loops = collect_loops m f di in
        if loops = [] then (m, False)
        else fold (licm_loop f di (build_inst_block_map m f)) loops (m, False))"

definition licm :: "omodule \<Rightarrow> omodule \<times> bool" where
  "licm m = fold (on_func licm_function) (funcs m) (m, False)"

section \<open>What is collected\<close>

text \<open>
  \<open>hoist_order_ok\<close>: each instruction of the list may be moved, and its operands were invariant
  from the start or are results of instructions before it.
\<close>

definition results_of :: "omodule \<Rightarrow> nat list \<Rightarrow> nat set" where
  "results_of m order = (\<lambda>iid. iresult (insts m ! iid)) ` set order"

definition hoist_order_ok :: "omodule \<Rightarrow> ofunc \<Rightarrow> nat set \<Rightarrow> nat set \<Rightarrow> nat list \<Rightarrow> bool" where
  "hoist_order_ok m f mutated known order \<longleftrightarrow>
     distinct order
     \<and> (\<forall>k < length order.
          order ! k < length (insts m) \<and> iresult (insts m ! (order ! k)) \<noteq> kInvalidId
          \<and> hoistable m f mutated (insts m ! (order ! k))
          \<and> set (inst_operands (idata (insts m ! (order ! k)))) \<subseteq> known \<union> results_of m (take k order))"

definition hoist_candidate :: "omodule \<Rightarrow> ofunc \<Rightarrow> nat set \<Rightarrow> nat set \<Rightarrow> nat \<Rightarrow> bool" where
  "hoist_candidate m f mutated known iid \<longleftrightarrow>
     iid < length (insts m) \<and> iresult (insts m ! iid) \<noteq> kInvalidId \<and> hoistable m f mutated (insts m ! iid)
     \<and> set (inst_operands (idata (insts m ! iid))) \<subseteq> known"

lemma hoist_inst_step:
  "hoist_inst m f mutated iid (order, known, round) =
   (if iid \<notin> set order \<and> hoist_candidate m f mutated known iid
    then (order @ [iid], insert (iresult (insts m ! iid)) known, True) else (order, known, round))"
  by (auto simp: hoist_inst_def hoist_candidate_def list_all_iff)

lemma results_of_snoc [simp]: "results_of m (order @ [iid]) = insert (iresult (insts m ! iid)) (results_of m order)"
  by (simp add: results_of_def)

lemma hoist_order_ok_snoc:
  assumes "hoist_order_ok m f mutated known order" "iid \<notin> set order"
    "hoist_candidate m f mutated (known \<union> results_of m order) iid"
  shows "hoist_order_ok m f mutated known (order @ [iid])"
  using assms unfolding hoist_order_ok_def hoist_candidate_def
  by (auto simp: nth_append less_Suc_eq)

lemma fold_hoist_inst:
  assumes "hoist_order_ok m f mutated known0 order" "known = known0 \<union> results_of m order"
    "fold (hoist_inst m f mutated) is (order, known, round) = (order', known', round')"
  shows "hoist_order_ok m f mutated known0 order' \<and> known' = known0 \<union> results_of m order'
    \<and> (\<exists>new. order' = order @ new \<and> set new \<subseteq> set is \<and> (new \<noteq> [] \<longrightarrow> round'))
    \<and> (\<not> round' \<longrightarrow> \<not> round \<and> order' = order \<and> known' = known
         \<and> (\<forall>iid \<in> set is. iid \<notin> set order \<longrightarrow> \<not> hoist_candidate m f mutated known iid))"
  using assms
proof (induction "is" arbitrary: order known round)
  case (Cons i "is")
  show ?case
  proof (cases "i \<notin> set order \<and> hoist_candidate m f mutated known i")
    case True
    with Cons.prems have "hoist_order_ok m f mutated known0 (order @ [i])"
      by (intro hoist_order_ok_snoc) simp_all
    with Cons.IH [of "order @ [i]" "insert (iresult (insts m ! i)) known" True] Cons.prems True
    show ?thesis by (auto simp: hoist_inst_step)
  next
    case False
    with Cons.prems(3) have "fold (hoist_inst m f mutated) is (order, known, round) = (order', known', round')"
      by (auto simp: hoist_inst_step)
    from Cons.IH [OF Cons.prems(1,2) this] False show ?thesis by auto
  qed
qed auto

lemma fold_hoist_inst_grows:
  "fold (hoist_inst m f mutated) is (order, known, False) = (order', known', round') \<Longrightarrow>
   \<exists>new. order' = order @ new \<and> set new \<subseteq> set is \<and> (new = [] \<longrightarrow> \<not> round')"
proof -
  have "\<exists>new. order' = order @ new \<and> set new \<subseteq> set is \<and> (new = [] \<longrightarrow> round' = round)"
    if "fold (hoist_inst m f mutated) is (order, known, round) = (order', known', round')" for order known round
    using that
  proof (induction "is" arbitrary: order known round)
    case (Cons i "is")
    show ?case
    proof (cases "i \<notin> set order \<and> hoist_candidate m f mutated known i")
      case True
      with Cons.prems Cons.IH [of "order @ [i]" "insert (iresult (insts m ! i)) known" True]
      show ?thesis by (fastforce simp: hoist_inst_step)
    next
      case False
      with Cons.prems Cons.IH [of order known round] show ?thesis by (fastforce simp: hoist_inst_step)
    qed
  qed simp
  then show "fold (hoist_inst m f mutated) is (order, known, False) = (order', known', round') \<Longrightarrow> ?thesis"
    by blast
qed

text \<open>The rounds end with nothing left to move.\<close>

lemma hoist_rounds_ends:
  assumes "hoist_order_ok m f mutated known0 order" "known = known0 \<union> results_of m order"
    and "set order \<subseteq> set (loop_insts m f loop_blocks)"
    and "length (loop_insts m f loop_blocks) < fuel + length order"
    and "hoist_rounds fuel m f loop_blocks mutated order known = (order', known')"
  shows "hoist_order_ok m f mutated known0 order' \<and> known' = known0 \<union> results_of m order'
    \<and> set order' \<subseteq> set (loop_insts m f loop_blocks)
    \<and> (\<forall>iid \<in> set (loop_insts m f loop_blocks). iid \<notin> set order' \<longrightarrow> \<not> hoist_candidate m f mutated known' iid)"
  using assms
proof (induction fuel arbitrary: order known)
  case 0
  have "length order \<le> length (loop_insts m f loop_blocks)"
    using 0(1,3) card_mono [of "set (loop_insts m f loop_blocks)" "set order"]
      card_length [of "loop_insts m f loop_blocks"] distinct_card [of order]
    by (simp add: hoist_order_ok_def)
  with 0 show ?case by simp
next
  case (Suc fuel)
  obtain order1 known1 round where r:
    "fold (hoist_inst m f mutated) (loop_insts m f loop_blocks) (order, known, False) = (order1, known1, round)"
    by (metis prod_cases3)
  note step = fold_hoist_inst [OF Suc.prems(1,2) r]
  show ?case
  proof (cases round)
    case True
    from r have ch: "\<exists>new. order1 = order @ new \<and> set new \<subseteq> set (loop_insts m f loop_blocks) \<and> (new = [] \<longrightarrow> \<not> round)"
      by (rule fold_hoist_inst_grows)
    with True obtain new where new: "order1 = order @ new" "set new \<subseteq> set (loop_insts m f loop_blocks)" "new \<noteq> []"
      by blast
    from True r Suc.prems(5) have rest: "hoist_rounds fuel m f loop_blocks mutated order1 known1 = (order', known')"
      by (simp add: hoist_round_def)
    show ?thesis
    proof (rule Suc.IH [OF _ _ _ _ rest])
      show "length (loop_insts m f loop_blocks) < fuel + length order1"
        using Suc.prems(4) new(1,3) by (cases new) simp_all
    qed (use step Suc.prems(3) new in auto)
  next
    case False
    with r Suc.prems(5) have "order' = order1" "known' = known1" by (simp_all add: hoist_round_def)
    with step False Suc.prems(3) show ?thesis by auto
  qed
qed

lemma hoist_order_spec:
  fixes m f loop inst_block
  defines "start \<equiv> initial_invariants m (lp_blocks loop) inst_block"
    and "order \<equiv> hoist_order m f loop inst_block" and "mutated \<equiv> mutated_slots m (lp_blocks loop)"
  shows "hoist_order_ok m f mutated start order \<and> set order \<subseteq> set (loop_insts m f (lp_blocks loop))
    \<and> (\<forall>iid \<in> set (loop_insts m f (lp_blocks loop)). iid \<notin> set order \<longrightarrow>
         \<not> hoist_candidate m f mutated (start \<union> results_of m order) iid)"
proof -
  obtain order' known' where r: "hoist_rounds (Suc (length (loop_insts m f (lp_blocks loop)))) m f
      (lp_blocks loop) mutated [] start = (order', known')" by fastforce
  have nil: "hoist_order_ok m f mutated start []" "start = start \<union> results_of m []"
    "set [] \<subseteq> set (loop_insts m f (lp_blocks loop))"
    by (simp_all add: hoist_order_ok_def results_of_def)
  have "hoist_order_ok m f mutated start order' \<and> known' = start \<union> results_of m order'
    \<and> set order' \<subseteq> set (loop_insts m f (lp_blocks loop))
    \<and> (\<forall>iid \<in> set (loop_insts m f (lp_blocks loop)). iid \<notin> set order' \<longrightarrow> \<not> hoist_candidate m f mutated known' iid)"
    by (rule hoist_rounds_ends [OF nil _ r]) simp
  moreover have "order = order'" using r by (simp add: order_def hoist_order_def start_def mutated_def)
  ultimately show ?thesis by blast
qed

section \<open>What is moved\<close>

definition func_insts :: "omodule \<Rightarrow> ofunc \<Rightarrow> nat list" where
  "func_insts m f = concat (map (\<lambda>bb. binsts (blocks m ! bb)) (fblocks f))"

lemma remove_hoisted_simps [simp]:
  "funcs (remove_hoisted L order m) = funcs m" "insts (remove_hoisted L order m) = insts m"
  "vals (remove_hoisted L order m) = vals m" "stats (remove_hoisted L order m) = stats m"
  "length (blocks (remove_hoisted L order m)) = length (blocks m)"
  by (simp_all add: remove_hoisted_def)

lemma remove_hoisted_block:
  "bb < length (blocks m) \<Longrightarrow> blocks (remove_hoisted L order m) ! bb =
     (if bb \<in> L \<and> bb \<noteq> kInvalidId
      then (blocks m ! bb)\<lparr>binsts := filter (\<lambda>iid. iid \<notin> set order) (binsts (blocks m ! bb))\<rparr>
      else blocks m ! bb)"
  by (simp add: remove_hoisted_def nth_enumerate_eq)

text \<open>A list split in those an order takes and those it leaves.\<close>

lemma mset_taken:
  assumes "distinct order" "set order \<subseteq> set xs" "distinct xs"
  shows "mset (filter (\<lambda>x. x \<notin> set order) xs) + mset order = mset xs"
proof -
  have "mset order = mset (filter (\<lambda>x. x \<in> set order) xs)"
    using assms by (intro set_eq_iff_mset_eq_distinct [THEN iffD1]) auto
  then show ?thesis by (metis add.commute mset_filter multiset_partition)
qed

lemma concat_map_disjoint:
  "distinct (concat (map g bs)) \<Longrightarrow> b \<in> set bs \<Longrightarrow> c \<in> set bs \<Longrightarrow> x \<in> set (g b) \<Longrightarrow> x \<in> set (g c) \<Longrightarrow> b = c"
  by (induction bs) auto

lemma concat_filter_blocks:
  assumes "\<forall>b \<in> set bs. \<not> P b \<longrightarrow> set order \<inter> set (g b) = {}"
  shows "concat (map (\<lambda>b. if P b then filter (\<lambda>x. x \<notin> set order) (g b) else g b) bs)
    = filter (\<lambda>x. x \<notin> set order) (concat (map g bs))"
  using assms
proof (induction bs)
  case (Cons b bs)
  have "filter (\<lambda>x. x \<notin> set order) (g b) = g b" if "\<not> P b"
    using Cons.prems that by (simp add: filter_id_conv disjoint_iff) blast
  with Cons show ?case by simp
qed simp

text \<open>Blocks keep everything but their instruction lists.\<close>

definition same_skeleton :: "omodule \<Rightarrow> omodule \<Rightarrow> bool" where
  "same_skeleton m m' \<longleftrightarrow>
     funcs m' = funcs m \<and> insts m' = insts m \<and> vals m' = vals m \<and> length (blocks m') = length (blocks m)
     \<and> (\<forall>bb < length (blocks m). bparams (blocks m' ! bb) = bparams (blocks m ! bb)
          \<and> bterm (blocks m' ! bb) = bterm (blocks m ! bb) \<and> bhas_term (blocks m' ! bb) = bhas_term (blocks m ! bb))"

lemma same_skeleton_refl: "same_skeleton m m"
  by (simp add: same_skeleton_def)

lemma same_skeleton_trans: "same_skeleton m m1 \<Longrightarrow> same_skeleton m1 m2 \<Longrightarrow> same_skeleton m m2"
  by (simp add: same_skeleton_def)

text \<open>One loop: its instructions move to a block of the function outside the loop.\<close>

definition move_insts :: "nat set \<Rightarrow> nat list \<Rightarrow> nat \<Rightarrow> omodule \<Rightarrow> omodule" where
  "move_insts L order pre m = upd_block (remove_hoisted L order m) pre (\<lambda>b. b\<lparr>binsts := binsts b @ order\<rparr>)"

lemma move_insts_skeleton:
  assumes "pre < length (blocks m)"
  shows "same_skeleton m (move_insts L order pre m)"
  using assms by (simp add: same_skeleton_def move_insts_def blocks_upd_block remove_hoisted_block)

lemma move_insts_mset:
  assumes ok: "list_all (valid_id (blocks m)) (fblocks f)" and ds: "distinct (fblocks f)"
    and insts: "distinct (func_insts m f)" and order: "distinct order" "set order \<subseteq> set (loop_insts m f L)"
    and pre: "pre \<in> set (fblocks f)" "pre \<notin> L"
  shows "mset (func_insts (move_insts L order pre m) f) = mset (func_insts m f)"
proof -
  let ?g = "\<lambda>bb. binsts (blocks m ! bb)" and ?m1 = "remove_hoisted L order m"
  have valid: "bb < length (blocks m)" "bb \<noteq> kInvalidId" if "bb \<in> set (fblocks f)" for bb
    using ok that by (auto simp: list_all_iff valid_id_def)
  have "set order \<inter> set (?g b) = {}" if "b \<in> set (fblocks f)" "b \<notin> L" for b
    using order(2) that concat_map_disjoint [OF insts [unfolded func_insts_def]]
    unfolding loop_insts_def by fastforce
  then have "concat (map (\<lambda>b. if b \<in> L then filter (\<lambda>x. x \<notin> set order) (?g b) else ?g b) (fblocks f))
      = filter (\<lambda>x. x \<notin> set order) (func_insts m f)"
    unfolding func_insts_def by (intro concat_filter_blocks) blast
  moreover have "map (\<lambda>bb. binsts (blocks ?m1 ! bb)) (fblocks f)
      = map (\<lambda>b. if b \<in> L then filter (\<lambda>x. x \<notin> set order) (?g b) else ?g b) (fblocks f)"
    using valid by (auto simp: remove_hoisted_block)
  ultimately have removed: "func_insts ?m1 f = filter (\<lambda>x. x \<notin> set order) (func_insts m f)"
    unfolding func_insts_def by (simp only:)
  obtain xs ys where fb: "fblocks f = xs @ pre # ys" "pre \<notin> set xs" "pre \<notin> set ys"
    using split_list [OF pre(1)] ds by force
  have eq: "map (\<lambda>bb. binsts (blocks (move_insts L order pre m) ! bb)) zs = map (\<lambda>bb. binsts (blocks ?m1 ! bb)) zs"
    if "pre \<notin> set zs" for zs
    using that valid(1) [OF pre(1)] by (auto simp: move_insts_def blocks_upd_block)
  have "mset (func_insts (move_insts L order pre m) f) = mset (func_insts ?m1 f) + mset order"
    using valid(1) [OF pre(1)]
    by (simp add: func_insts_def fb(1) eq [OF fb(2)] eq [OF fb(3)])
      (simp add: move_insts_def blocks_upd_block)
  also have "\<dots> = mset (func_insts m f)"
    unfolding removed using order insts
    by (intro mset_taken) (auto simp: loop_insts_def func_insts_def)
  finally show ?thesis .
qed

lemma licm_loop_moves:
  "licm_loop f di ib loop (m, changed) =
     (let pre = outside_preds di loop ! 0; order = hoist_order m f loop ib in
      if length (outside_preds di loop) \<noteq> 1 \<or> \<not> is_preheader_block m pre (lp_header loop) \<or> order = []
      then (m, changed)
      else ((move_insts (lp_blocks loop) order pre m)\<lparr>stats := (stats m)\<lparr>licm_hoisted :=
              u32 (licm_hoisted (stats m) + length order)\<rparr>\<rparr>, True))"
  by (simp add: licm_loop_def Let_def move_insts_def)

text \<open>The header of a detected loop and its predecessors are blocks of the function.\<close>

lemma loop_at_headers: "lp_header ` set (loop_at preds pred succ ls) \<subseteq> insert succ (lp_header ` set ls)"
  by (induction preds pred succ ls rule: loop_at.induct) (auto simp: loop_add_latch_def Let_def)

lemma fold_loop_at_headers:
  "lp_header ` set (fold (\<lambda>s ls. if P s then ls else loop_at preds pred s ls) succs ls) \<subseteq> set succs \<union> lp_header ` set ls"
proof (induction succs arbitrary: ls)
  case (Cons s succs)
  show ?case
    using Cons.IH [of "if P s then ls else loop_at preds pred s ls"] loop_at_headers [of preds pred s ls]
    by (cases "P s") auto
qed simp

lemma collect_loops_header:
  assumes "l \<in> set (collect_loops m f (build_dom_info m f))"
  shows "owned_by m f (lp_header l)"
proof -
  let ?di = "build_dom_info m f"
  have "\<forall>l \<in> set (fold (\<lambda>pred out.
         if pred = kInvalidId \<or> length (blocks m) \<le> pred then out
         else fold (\<lambda>succ out.
             if \<not> dominates ?di succ pred then out else loop_at (di_preds ?di) pred succ out)
           (di_succs ?di ! pred) out) bs out). owned_by m f (lp_header l)"
    if "\<forall>l \<in> set out. owned_by m f (lp_header l)" for bs out
    using that
  proof (induction bs arbitrary: out)
    case (Cons pred bs)
    show ?case
    proof (cases "pred = kInvalidId \<or> length (blocks m) \<le> pred")
      case True
      with Cons show ?thesis by simp
    next
      case False
      then have own: "\<forall>s \<in> set (di_succs ?di ! pred). owned_by m f s"
        by (auto simp: build_dom_info_def Let_def set_build_succs cfg_edge_def split: option.split)
      let ?out = "fold (\<lambda>succ out. if \<not> dominates ?di succ pred then out else loop_at (di_preds ?di) pred succ out)
          (di_succs ?di ! pred) out"
      have "\<forall>l \<in> set ?out. owned_by m f (lp_header l)"
      proof
        fix l assume "l \<in> set ?out"
        then have "lp_header l \<in> set (di_succs ?di ! pred) \<union> lp_header ` set out"
          using fold_loop_at_headers [of "\<lambda>s. \<not> dominates ?di s pred" "di_preds ?di" pred "di_succs ?di ! pred" out]
          by blast
        with own Cons.prems show "owned_by m f (lp_header l)" by auto
      qed
      from Cons.IH [OF this] False show ?thesis by simp
    qed
  qed simp
  from this [of "[]" "fblocks f"] assms show ?thesis by (simp add: collect_loops_def)
qed

lemma outside_pred_owned:
  assumes "owned_by m f (lp_header l)" "p \<in> set (outside_preds (build_dom_info m f) l)"
  shows "owned_by m f p \<and> p \<notin> lp_blocks l"
  using assms by (auto simp: outside_preds_def build_dom_info_def Let_def set_build_preds cfg_edge_def
      owned_by_def valid_id_def split: option.splits)

definition licm_inv :: "ofunc \<Rightarrow> omodule \<Rightarrow> omodule \<times> bool \<Rightarrow> bool" where
  "licm_inv f m0 st \<longleftrightarrow>
     same_skeleton m0 (fst st) \<and> mset (func_insts (fst st) f) = mset (func_insts m0 f)
     \<and> (\<not> snd st \<longrightarrow> fst st = m0)"

lemma licm_loop_inv:
  assumes ok: "block_list_ok m0 f" "distinct (func_insts m0 f)"
    and pres: "\<forall>p \<in> set (outside_preds di loop). owned_by m0 f p \<and> p \<notin> lp_blocks loop"
    and inv: "licm_inv f m0 st"
  shows "licm_inv f m0 (licm_loop f di ib loop st)"
proof (cases st)
  case (Pair m changed)
  let ?pre = "outside_preds di loop ! 0" and ?order = "hoist_order m f loop ib"
  let ?L = "lp_blocks loop"
  show ?thesis
  proof (cases "length (outside_preds di loop) \<noteq> 1 \<or> \<not> is_preheader_block m ?pre (lp_header loop) \<or> ?order = []")
    case True
    with inv Pair show ?thesis by (simp add: licm_loop_moves Let_def)
  next
    case False
    then have pre: "owned_by m0 f ?pre" "?pre \<notin> ?L" using pres by auto
    have skel: "same_skeleton m0 m" and ms: "mset (func_insts m f) = mset (func_insts m0 f)"
      using inv Pair by (simp_all add: licm_inv_def)
    have len: "length (blocks m) = length (blocks m0)" using skel by (simp add: same_skeleton_def)
    have blk: "list_all (valid_id (blocks m)) (fblocks f)" "distinct (fblocks f)"
      using ok(1) len by (auto simp: block_list_ok_def list_all_iff valid_id_def)
    have ds: "distinct (func_insts m f)" using ms ok(2) by (metis mset_eq_imp_distinct_iff)
    have order: "distinct ?order" "set ?order \<subseteq> set (loop_insts m f ?L)"
      using hoist_order_spec [of m f loop ib] by (auto simp: hoist_order_ok_def)
    have preb: "?pre \<in> set (fblocks f)" "?pre < length (blocks m)"
      using pre(1) len by (auto simp: owned_by_def valid_id_def)
    have "mset (func_insts (move_insts ?L ?order ?pre m) f) = mset (func_insts m f)"
      by (rule move_insts_mset [OF blk ds order preb(1) pre(2)])
    moreover have "same_skeleton m0 (move_insts ?L ?order ?pre m)"
      using skel move_insts_skeleton [OF preb(2)] by (rule same_skeleton_trans)
    ultimately show ?thesis
      using False ms Pair by (simp add: licm_loop_moves Let_def licm_inv_def same_skeleton_def func_insts_def)
  qed
qed

lemma licm_function_inv:
  assumes "block_list_ok m f" "distinct (func_insts m f)"
  shows "licm_inv f m (licm_function m f)"
proof -
  let ?di = "build_dom_info m f"
  have start: "licm_inv f m (m, False)" by (simp add: licm_inv_def same_skeleton_refl)
  have "licm_inv f m (fold (licm_loop f ?di ib) ls st)"
    if "\<forall>l \<in> set ls. owned_by m f (lp_header l)" "licm_inv f m st" for ls ib st
    using that
  proof (induction ls arbitrary: st)
    case (Cons l ls)
    have "licm_inv f m (licm_loop f ?di ib l st)"
      using outside_pred_owned Cons.prems by (intro licm_loop_inv [OF assms]) auto
    with Cons show ?case by simp
  qed simp
  with start collect_loops_header show ?thesis by (auto simp: licm_function_def Let_def)
qed

section \<open>Properties\<close>

text \<open>hoisting only moves instructions: on a function with distinct valid blocks, each of its
  instructions in one place, the pass leaves functions, instructions, values, parameters and
  terminators as they are, the function keeps exactly its instructions, and a pass that reports
  no change returns the module it was given.\<close>

theorem licm_only_moves:
  assumes "block_list_ok m f" "distinct (func_insts m f)" "licm_function m f = (m', changed)"
  shows "funcs m' = funcs m \<and> insts m' = insts m \<and> vals m' = vals m
    \<and> (\<forall>bb < length (blocks m). bparams (blocks m' ! bb) = bparams (blocks m ! bb)
         \<and> bterm (blocks m' ! bb) = bterm (blocks m ! bb))
    \<and> mset (func_insts m' f) = mset (func_insts m f)
    \<and> (\<not> changed \<longrightarrow> m' = m)"
  using licm_function_inv [OF assms(1,2)] assms(3) by (simp add: licm_inv_def same_skeleton_def)

text \<open>The body of a loop with a preheader negates a value of the entry.\<close>

definition ex_hoist_func :: ofunc where
  "ex_hoist_func = mk_func ''main'' [0, 1, 2, 3] 0"

definition ex_hoist :: omodule where
  "ex_hoist = mk_module [ex_hoist_func]
     [ex_block [0] (TermBr 1 []), ex_block [] (TermCondBr 0 2 [] 3 []),
      ex_block [1, 2] (TermBr 1 []), ex_block [] (TermRet True 0)]
     [ex_inst (InstConstBool True) 0, ex_inst (InstUnary UnNot 0) 1, ex_inst (InstUnary UnNot 1) 2]
     [ex_value 4 0, ex_value 4 1, ex_value 4 2]"

lemma ex_hoist_ok: "block_list_ok ex_hoist ex_hoist_func" "distinct (func_insts ex_hoist ex_hoist_func)"
  by (auto simp: block_list_ok_def ex_hoist_def ex_hoist_func_def ex_defs valid_id_def func_insts_def)

lemma licm_only_moves_witness:
  "case licm_function ex_hoist ex_hoist_func of (m', changed) \<Rightarrow>
     changed \<and> binsts (blocks m' ! 0) = [0, 1, 2] \<and> binsts (blocks m' ! 2) = []
     \<and> mset (func_insts m' ex_hoist_func) = mset [0, 1, 2]"
proof -
  obtain m' changed where r: "licm_function ex_hoist ex_hoist_func = (m', changed)" by fastforce
  have "case licm_function ex_hoist ex_hoist_func of (m', changed) \<Rightarrow>
     changed \<and> binsts (blocks m' ! 0) = [0, 1, 2] \<and> binsts (blocks m' ! 2) = []" by code_simp
  moreover have "func_insts ex_hoist ex_hoist_func = [0, 1, 2]" by code_simp
  ultimately show ?thesis using licm_only_moves [OF ex_hoist_ok r] unfolding r by simp
qed



end
