(* ===== verification/OIR_Pipeline.thy ===== *)
theory OIR_Pipeline
  imports OIR_Fold OIR_DCE OIR_LICM "HOL-Library.Monad_Syntax"
begin

text \<open>
  The clean-up of escape handles and the whole pass pipeline of \<open>oir_passes.cpp\<close>
  (\<open>optimize_escape_handles_\<close>, \<open>run_passes\<close>). The parameters of the pipeline are what
  the source leaves open: \<open>fuel\<close> bounds the rounds of the loops that run to a fixpoint,
  \<open>ord\<close> is the iteration order of a hash set, \<open>bcap\<close> and \<open>fcap\<close> are the capacities of
  the vectors of blocks a pass starts with, by phase and function index; \<open>None\<close> is running out
  of fuel or undefined behaviour.
\<close>

section \<open>Escape handles\<close>

definition escape_values :: "omodule \<Rightarrow> nat set" where
  "escape_values m = set (map eh_value (escape_hints m))"

definition elide_cast :: "omodule \<Rightarrow> oinst \<Rightarrow> (nat \<rightharpoonup> nat) \<times> nat \<Rightarrow> (nat \<rightharpoonup> nat) \<times> nat" where
  "elide_cast m inst = (\<lambda>(repl, elided).
     case idata inst of
       InstCast kind to src \<Rightarrow>
         if iresult inst = kInvalidId \<or> length (vals m) \<le> iresult inst then (repl, elided)
         else if kind \<noteq> CastAs then (repl, elided)
         else if src \<notin> escape_values m then (repl, elided)
         else if length (vals m) \<le> src then (repl, elided)
         else if vty (vals m ! src) \<noteq> vty (vals m ! iresult inst) then (repl, elided)
         else (repl(iresult inst \<mapsto> src), elided + 1)
     | _ \<Rightarrow> (repl, elided))"

definition elided_casts :: "omodule \<Rightarrow> (nat \<rightharpoonup> nat) \<times> nat" where
  "elided_casts m = fold (elide_cast m) (insts m) (Map.empty, 0)"

text \<open>The table is empty exactly when nothing was counted.\<close>

definition optimize_escape_handles :: "omodule \<Rightarrow> omodule \<times> bool" where
  "optimize_escape_handles m =
     (if escape_hints m = [] then (m, False)
      else
        let (repl, elided) = elided_casts m
        in if elided = 0 then (m, False)
           else
             let m1 = m\<lparr>stats := (stats m)\<lparr>escape_pack_elided := u32 (escape_pack_elided (stats m) + elided)\<rparr>\<rparr>;
                 rewrites = u32 (rewrite_counter m1 repl);
                 m2 = rewrite_operands m1 repl;
                 m3 = m2\<lparr>stats := (stats m2)\<lparr>escape_boundary_rewrites :=
                        u32 (escape_boundary_rewrites (stats m2) + rewrites)\<rparr>\<rparr>
             in (m3\<lparr>escape_hints := map (\<lambda>h. h\<lparr>eh_value := resolve_alias repl (eh_value h)\<rparr>) (escape_hints m3)\<rparr>,
                 True))"

section \<open>The pipeline\<close>

text \<open>\<open>for (auto& f : m.funcs)\<close>: the pass may change the function it is given.\<close>

fun over_funcs ::
  "(nat \<Rightarrow> omodule \<Rightarrow> ofunc \<Rightarrow> split_state option) \<Rightarrow> nat list \<Rightarrow> omodule \<times> bool \<Rightarrow> (omodule \<times> bool) option" where
  "over_funcs p [] (m, changed) = Some (m, changed)"
| "over_funcs p (i # is) (m, changed) =
     (case p i m (funcs m ! i) of
        None \<Rightarrow> None
      | Some (m', f', ch) \<Rightarrow> over_funcs p is (upd_func m' i (\<lambda>_. f'), changed \<or> ch))"

definition each_func ::
  "(nat \<Rightarrow> omodule \<Rightarrow> ofunc \<Rightarrow> split_state option) \<Rightarrow> omodule \<Rightarrow> (omodule \<times> bool) option" where
  "each_func p m = over_funcs p [0 ..< length (funcs m)] (m, False)"

definition canonicalize_func :: "nat \<Rightarrow> nat \<Rightarrow> omodule \<Rightarrow> ofunc \<Rightarrow> split_state option" where
  "canonicalize_func fuel i m f = canonicalize_loops fuel (m, f, False)"

definition canonicalize_pass :: "nat \<Rightarrow> pass" where
  "canonicalize_pass fuel m = each_func (canonicalize_func fuel) m"

definition normalize_func :: "(nat \<Rightarrow> nat) \<Rightarrow> nat \<Rightarrow> omodule \<Rightarrow> ofunc \<Rightarrow> split_state option" where
  "normalize_func bcap i m f = normalize_phi_edge_casts (bcap i) m f"

definition split_func :: "nat \<Rightarrow> (nat \<Rightarrow> nat) \<Rightarrow> (nat \<Rightarrow> nat) \<Rightarrow> nat \<Rightarrow> omodule \<Rightarrow> ofunc \<Rightarrow> split_state option" where
  "split_func fuel bcap fcap i m f = split_critical_edges fuel (bcap i) (fcap i) m f False"

definition shape_loops_func :: "nat \<Rightarrow> (nat \<Rightarrow> nat) \<Rightarrow> nat \<Rightarrow> omodule \<Rightarrow> ofunc \<Rightarrow> split_state option" where
  "shape_loops_func fuel bcap i m f =
     (case canonicalize_loops fuel (m, f, False) of
        None \<Rightarrow> None
      | Some (m', f', ch) \<Rightarrow> normalize_phi_edge_casts (bcap i) m' f')"

definition pipeline_ok :: "omodule \<Rightarrow> bool" where
  "pipeline_ok m = verify_pipeline_invariants m True"

definition guarded :: "pass \<Rightarrow> omodule \<Rightarrow> omodule option" where
  "guarded p m =
     map_option fst (run_guarded_pass_fixpoint 4 pipeline_ok p m)"

definition gvn_pass :: pass where
  "gvn_pass m = Some (gvn_cse m)"

definition licm_pass :: pass where
  "licm_pass m = Some (licm m)"

definition mem2reg_pass :: "nat \<Rightarrow> (nat list \<Rightarrow> nat list) \<Rightarrow> pass" where
  "mem2reg_pass fuel ord m = global_mem2reg_ssa fuel ord (funcs m) (m, False)"

text \<open>The passes over values and loops that run under the guard after the promotion of slots.\<close>

definition guarded_value_passes :: "nat \<Rightarrow> omodule \<Rightarrow> omodule option" where
  "guarded_value_passes fuel m =
     do {
       m \<leftarrow> guarded gvn_pass m;
       m \<leftarrow> guarded licm_pass m;
       guarded (canonicalize_pass fuel) m
     }"

definition prepare_passes :: "nat \<Rightarrow> (nat \<Rightarrow> nat \<Rightarrow> nat) \<Rightarrow> (nat \<Rightarrow> nat) \<Rightarrow> omodule \<Rightarrow> omodule option" where
  "prepare_passes fuel bcap fcap m =
     do {
       (m, _) \<leftarrow> each_func (split_func fuel (bcap 0) fcap) (fst (simplify_cfg m));
       (m, _) \<leftarrow> each_func (shape_loops_func fuel (bcap 1)) m;
       (m, _) \<leftarrow> const_fold m;
       Some (fst (local_load_forward m))
     }"

definition finish_passes :: "(nat \<Rightarrow> nat \<Rightarrow> nat) \<Rightarrow> omodule \<Rightarrow> omodule option" where
  "finish_passes bcap m =
     do {
       (m, _) \<leftarrow> each_func (normalize_func (bcap 2)) (fst (local_load_forward m));
       Some (fst (simplify_cfg (fst (dce_pure_insts (fst (optimize_escape_handles m))))))
     }"

definition run_passes ::
  "nat \<Rightarrow> (nat list \<Rightarrow> nat list) \<Rightarrow> (nat \<Rightarrow> nat \<Rightarrow> nat) \<Rightarrow> (nat \<Rightarrow> nat) \<Rightarrow> omodule \<Rightarrow> omodule option" where
  "run_passes fuel ord bcap fcap m =
     do {
       m \<leftarrow> prepare_passes fuel bcap fcap m;
       m \<leftarrow> guarded (mem2reg_pass fuel ord) m;
       m \<leftarrow> guarded_value_passes fuel m;
       finish_passes bcap m
     }"

section \<open>Passes that are quiet when nothing changes\<close>

lemma fold_funcs_quiet:
  assumes "\<And>m f m'. q m f = (m', False) \<Longrightarrow> m' = m"
  shows "fold (on_func q) fs (m, ch) = (m', False) \<Longrightarrow> m' = m \<and> \<not> ch"
proof (induction fs arbitrary: m ch)
  case (Cons f fs)
  obtain m1 c1 where q: "q m f = (m1, c1)" by fastforce
  with Cons.prems have "fold (on_func q) fs (m1, ch \<or> c1) = (m', False)" by (simp add: on_func_def [of q f])
  from Cons.IH [OF this] q assms show ?case by auto
qed simp

lemma gvn_cse_quiet: "gvn_cse m = (m', False) \<Longrightarrow> m' = m"
  unfolding gvn_cse_def
  by (drule fold_funcs_quiet [rotated])
    (auto simp: gvn_cse_function_def Let_def split: option.splits if_splits)

lemma licm_function_quiet: "licm_function m f = (m', False) \<Longrightarrow> m' = m"
proof -
  have "fold (licm_loop f di ib) ls (m, ch) = (m', False) \<Longrightarrow> m' = m \<and> \<not> ch" for di ib ls m ch
  proof (induction ls arbitrary: m ch)
    case (Cons l ls)
    obtain m1 c1 where q: "licm_loop f di ib l (m, ch) = (m1, c1)" by fastforce
    with Cons.prems have "fold (licm_loop f di ib) ls (m1, c1) = (m', False)" by simp
    from Cons.IH [OF this] q show ?case by (auto simp: licm_loop_moves Let_def split: if_splits)
  qed simp
  then show "licm_function m f = (m', False) \<Longrightarrow> m' = m"
    by (auto simp: licm_function_def Let_def split: if_splits)
qed

lemma licm_quiet: "licm m = (m', False) \<Longrightarrow> m' = m"
  unfolding licm_def by (drule fold_funcs_quiet [rotated]) (auto dest: licm_function_quiet)

lemma canonicalize_loops_quiet:
  "canonicalize_loops fuel (m, f, ch) = Some (m', f', False) \<Longrightarrow> m' = m \<and> f' = f \<and> \<not> ch"
proof (induction fuel arbitrary: m f ch)
  case (Suc fuel)
  obtain m1 f1 c1 where r: "canonicalize_round (build_dom_info m f) (collect_loops m f (build_dom_info m f)) (m, f, False)
      = (m1, f1, c1)" by (metis prod_cases3)
  show ?case
  proof (cases c1)
    case True
    with Suc.prems Suc.IH [of m1 f1 True] r show ?thesis by (auto simp: Let_def split: if_splits)
  next
    case False
    with canonicalize_round_quiet [of _ _ m f m1 f1] r have "m1 = m" "f1 = f" by simp_all
    with False Suc.prems r show ?thesis by (auto simp: Let_def split: if_splits)
  qed
qed simp

lemma over_funcs_quiet:
  assumes "\<And>i m f m' f'. p i m f = Some (m', f', False) \<Longrightarrow> m' = m \<and> f' = f"
  shows "over_funcs p is (m, ch) = Some (m', False) \<Longrightarrow> m' = m \<and> \<not> ch"
proof (induction "is" arbitrary: m ch)
  case (Cons i "is")
  from Cons.prems obtain m1 f1 c1 where q: "p i m (funcs m ! i) = Some (m1, f1, c1)" by (auto split: option.splits)
  with Cons.prems have "over_funcs p is (upd_func m1 i (\<lambda>_. f1), ch \<or> c1) = Some (m', False)" by simp
  from Cons.IH [OF this] have "m' = upd_func m1 i (\<lambda>_. f1)" "\<not> ch" "\<not> c1" by simp_all
  with q assms [of i m "funcs m ! i" m1 f1] show ?case by (simp add: upd_func_def)
qed simp

lemma canonicalize_pass_quiet: "canonicalize_pass fuel m = Some (m', False) \<Longrightarrow> m' = m"
  unfolding canonicalize_pass_def each_func_def
  by (drule over_funcs_quiet [rotated]) (auto simp: canonicalize_func_def dest: canonicalize_loops_quiet)

interpretation gvn: tidy_pass pipeline_ok gvn_pass
  by unfold_locales (simp add: gvn_pass_def gvn_cse_quiet)

interpretation licm: tidy_pass pipeline_ok licm_pass
  by unfold_locales (simp add: licm_pass_def licm_quiet)

interpretation canonical: tidy_pass pipeline_ok "canonicalize_pass fuel" for fuel
  by unfold_locales (rule canonicalize_pass_quiet)

section \<open>Replaced escape values\<close>

definition keeps_types :: "omodule \<Rightarrow> (nat \<rightharpoonup> nat) \<Rightarrow> bool" where
  "keeps_types m repl \<longleftrightarrow> (\<forall>v w. repl v = Some w \<longrightarrow> vty (vals m ! w) = vty (vals m ! v))"

lemma keeps_typesD: "keeps_types m repl \<Longrightarrow> repl v = Some w \<Longrightarrow> vty (vals m ! w) = vty (vals m ! v)"
  by (simp add: keeps_types_def)

lemma elide_cast_keeps_types:
  assumes "keeps_types m repl"
  shows "keeps_types m (fst (elide_cast m i (repl, n)))"
proof -
  have "keeps_types m (repl(v \<mapsto> w))" if "vty (vals m ! w) = vty (vals m ! v)" for v w
    unfolding keeps_types_def using that keeps_typesD [OF assms] by (simp split: if_split)
  then show ?thesis
    using assms by (cases "idata i") (simp_all add: elide_cast_def)
qed

lemma elided_casts_keep_types: "keeps_types m (fst (elided_casts m))"
proof -
  have "keeps_types m (fst (fold (elide_cast m) is (repl, n)))" if "keeps_types m repl" for "is" repl n
    using that
  proof (induction "is" arbitrary: repl n)
    case (Cons i "is")
    obtain repl' n' where e: "elide_cast m i (repl, n) = (repl', n')" by fastforce
    with elide_cast_keeps_types [OF Cons.prems, of i n] have "keeps_types m repl'" by simp
    from Cons.IH [OF this] e show ?case by simp
  qed simp
  moreover have "keeps_types m Map.empty" by (simp add: keeps_types_def)
  ultimately show ?thesis by (simp add: elided_casts_def)
qed

lemma resolve_alias_keeps_types:
  assumes "keeps_types m repl"
  shows "vty (vals m ! resolve_alias repl v) = vty (vals m ! v)"
proof -
  have "vty (vals m ! resolve_alias_loop n repl v) = vty (vals m ! v)" for n
  proof (induction n arbitrary: v)
    case (Suc n)
    show ?case
    proof (cases "repl v")
      case (Some w)
      with Suc.IH [of w] keeps_typesD [OF assms Some] show ?thesis by simp
    qed simp
  qed simp
  then show ?thesis by (simp add: resolve_alias_def)
qed

section \<open>Properties\<close>

text \<open>The value numbering, hoisting and preheader passes that run under the guard leave either
  the module they were given or one that satisfies the pipeline check: valid ids and types,
  operands available under dominance, and canonical loops.\<close>

theorem guarded_value_passes_safe:
  assumes "guarded_value_passes fuel m = Some m'"
  shows "m' = m \<or> verify_pipeline_invariants m' True"
proof -
  obtain m1 m2 where s: "guarded gvn_pass m = Some m1" "guarded licm_pass m1 = Some m2"
    "guarded (canonicalize_pass fuel) m2 = Some m'"
    using assms by (auto simp: guarded_value_passes_def bind_eq_Some_conv)
  have "pipeline_ok m1 \<or> m1 = m" "pipeline_ok m2 \<or> m2 = m1" "pipeline_ok m' \<or> m' = m2"
    using s unfolding guarded_def
    by (auto dest!: gvn.fixpoint_ok_or_same licm.fixpoint_ok_or_same canonical.fixpoint_ok_or_same)
  then show ?thesis unfolding pipeline_ok_def by blast
qed

lemma guarded_value_passes_safe_witness:
  "case guarded_value_passes 3 ex_hoist of None \<Rightarrow> False
   | Some m' \<Rightarrow> m' \<noteq> ex_hoist \<and> binsts (blocks m' ! 0) = [0, 1, 2] \<and> verify_pipeline_invariants m' True"
proof -
  have c: "case guarded_value_passes 3 ex_hoist of None \<Rightarrow> False
     | Some m' \<Rightarrow> binsts (blocks m' ! 0) = [0, 1, 2]" by code_simp
  then obtain m' where r: "guarded_value_passes 3 ex_hoist = Some m'" "binsts (blocks m' ! 0) = [0, 1, 2]"
    by (auto split: option.splits)
  have "binsts (blocks ex_hoist ! 0) = [0]" by code_simp
  with r have "m' \<noteq> ex_hoist" by auto
  with guarded_value_passes_safe [OF r(1)] r show ?thesis by simp
qed

text \<open>C23: cleaning up escape handles replaces every operand of the module and every escape hint by a
  value of the same type.\<close>

theorem escape_handles_keep_types:
  "let (m', changed) = optimize_escape_handles m in
     vals m' = vals m
     \<and> map (\<lambda>v. vty (vals m ! v)) (visited_operands m') = map (\<lambda>v. vty (vals m ! v)) (visited_operands m)
     \<and> map (\<lambda>h. vty (vals m ! eh_value h)) (escape_hints m') = map (\<lambda>h. vty (vals m ! eh_value h)) (escape_hints m)"
proof -
  note keep = resolve_alias_keeps_types [OF elided_casts_keep_types [of m]]
  have stats: "visited_operands (m'\<lparr>stats := s\<rparr>) = visited_operands m'"
    "visited_operands (m'\<lparr>escape_hints := hs\<rparr>) = visited_operands m'"
    "rewrite_operands (m'\<lparr>stats := s\<rparr>) repl = (rewrite_operands m' repl)\<lparr>stats := s\<rparr>" for m' s hs repl
    by (simp_all add: visited_operands_def rewrite_operands_def)
  show ?thesis
    by (simp add: optimize_escape_handles_def Let_def case_prod_beta stats visited_operands_rewrite
        apply_repl_def keep comp_def)
qed

end
