(* ===== verification/BigInt.thy ===== *)
theory BigInt
  imports Prelude
begin

text \<open>
  Decimal big integers (\<open>frontend/src/num/big_int.cpp\<close>): sign and magnitude with limbs in base
  \<open>10\<^sup>9\<close>, least significant first. Limbs are \<open>uint32_t\<close>, intermediate products
  \<open>uint64_t\<close>: they stay below \<open>2\<^sup>6\<^sup>4\<close>, and the cast of the last carry is written out.
  \<open>big_val\<close> is the integer a value denotes; the lemmas say that parsing, printing, comparing
  and the range checks are what they should be on it.
\<close>

section \<open>The type and its operations\<close>

abbreviation kBase :: nat where
  "kBase \<equiv> 1000000000"

record big_int =
  bi_neg :: bool
  bi_limbs :: "nat list"

definition big_zero :: big_int where
  "big_zero = \<lparr>bi_neg = False, bi_limbs = []\<rparr>"

definition is_zero :: "big_int \<Rightarrow> bool" where
  "is_zero x = (bi_limbs x = [])"

definition is_neg :: "big_int \<Rightarrow> bool" where
  "is_neg x = (bi_neg x \<and> \<not> is_zero x)"

fun strip_zeros :: "nat list \<Rightarrow> nat list" where
  "strip_zeros ls = (if ls \<noteq> [] \<and> last ls = 0 then strip_zeros (butlast ls) else ls)"

declare strip_zeros.simps [simp del]

definition normalize :: "big_int \<Rightarrow> big_int" where
  "normalize x =
     (let ls = strip_zeros (bi_limbs x)
      in \<lparr>bi_neg = (if ls = [] then False else bi_neg x), bi_limbs = ls\<rparr>)"

text \<open>The loop of \<open>mul_add_dec_\<close>; the final carry becomes a new limb.\<close>

fun mul_add_limbs :: "nat \<Rightarrow> nat \<Rightarrow> nat list \<Rightarrow> nat list" where
  "mul_add_limbs mul carry [] = (if carry \<noteq> 0 then [u32 carry] else [])"
| "mul_add_limbs mul carry (l # ls) =
     (let x = l * mul + carry in (x mod kBase) # mul_add_limbs mul (x div kBase) ls)"

definition mul_add_dec :: "nat \<Rightarrow> nat \<Rightarrow> big_int \<Rightarrow> big_int" where
  "mul_add_dec mul add x = x\<lparr>bi_limbs := mul_add_limbs mul add (bi_limbs x)\<rparr>"

fun parse_digits :: "string \<Rightarrow> big_int \<Rightarrow> bool \<times> big_int" where
  "parse_digits [] out = (True, out)"
| "parse_digits (c # cs) out =
     (if \<not> is_digit c then (False, out) else parse_digits cs (mul_add_dec 10 (char_digit c) out))"

text \<open>The result and what \<open>out\<close> holds; after a failure, the digits read so far.\<close>

definition parse_dec :: "string \<Rightarrow> bool \<times> big_int" where
  "parse_dec txt =
     (if txt = [] then (False, big_zero)
      else
        let neg = (hd txt = CHR ''-''); ds = (if neg then tl txt else txt) in
        if ds = [] then (False, big_zero)
        else (case parse_digits ds big_zero of
                (ok, out) \<Rightarrow>
                  if \<not> ok then (False, out)
                  else let out1 = normalize out in (True, out1\<lparr>bi_neg := neg \<and> \<not> is_zero out1\<rparr>)))"

text \<open>The comparison from the most significant limb down.\<close>

fun compare_limbs :: "nat list \<Rightarrow> nat list \<Rightarrow> int" where
  "compare_limbs (a # as) (b # bs) = (if a < b then -1 else if a > b then 1 else compare_limbs as bs)"
| "compare_limbs as bs = 0"

definition compare_abs :: "big_int \<Rightarrow> big_int \<Rightarrow> int" where
  "compare_abs x y =
     (if length (bi_limbs x) < length (bi_limbs y) then -1
      else if length (bi_limbs x) > length (bi_limbs y) then 1
      else compare_limbs (rev (bi_limbs x)) (rev (bi_limbs y)))"

definition compare :: "big_int \<Rightarrow> big_int \<Rightarrow> int" where
  "compare x y =
     (if is_neg x \<noteq> is_neg y then (if is_neg x then -1 else 1)
      else if \<not> is_neg x then compare_abs x y
      else - compare_abs x y)"

text \<open>\<open>append_uint\<close>: the buffer \<open>tmp\<close> of the first loop, last digit first, and the nine
  digits of the second.\<close>

fun tmp_digits :: "nat \<Rightarrow> nat list" where
  "tmp_digits x = (x mod 10) # (if x div 10 \<noteq> 0 then tmp_digits (x div 10) else [])"

declare tmp_digits.simps [simp del]

fun pad_digits :: "nat \<Rightarrow> nat \<Rightarrow> nat list" where
  "pad_digits 0 v = []"
| "pad_digits (Suc k) v = pad_digits k (v div 10) @ [v mod 10]"

definition append_uint :: "nat \<Rightarrow> bool \<Rightarrow> string" where
  "append_uint v pad9 = map digit_char (if pad9 then pad_digits 9 v else rev (tmp_digits v))"

definition big_to_string :: "nat \<Rightarrow> big_int \<Rightarrow> string" where
  "big_to_string max_digits x =
     (if is_zero x then ''0''
      else
        let ls = rev (bi_limbs x);
            s = (if is_neg x then ''-'' else []) @ append_uint (hd ls) False
                @ concat (map (\<lambda>l. append_uint l True) (tl ls))
        in if length s > max_digits then take max_digits s @ ''...'' else s)"

section \<open>Ranges\<close>

definition parse_const :: "string \<Rightarrow> big_int" where
  "parse_const d = snd (parse_dec d)"

definition const_i128_min_abs :: big_int where
  "const_i128_min_abs = parse_const ''170141183460469231731687303715884105728''"
definition const_i128_max :: big_int where
  "const_i128_max = parse_const ''170141183460469231731687303715884105727''"
definition const_u128_max :: big_int where
  "const_u128_max = parse_const ''340282366920938463463374607431768211455''"
definition const_u64_max :: big_int where
  "const_u64_max = parse_const ''18446744073709551615''"
definition const_i64_max :: big_int where
  "const_i64_max = parse_const ''9223372036854775807''"
definition const_i64_min_abs :: big_int where
  "const_i64_min_abs = parse_const ''9223372036854775808''"
definition const_u32_max :: big_int where
  "const_u32_max = parse_const ''4294967295''"
definition const_i32_max :: big_int where
  "const_i32_max = parse_const ''2147483647''"
definition const_i32_min_abs :: big_int where
  "const_i32_min_abs = parse_const ''2147483648''"
definition const_u16_max :: big_int where
  "const_u16_max = parse_const ''65535''"
definition const_i16_max :: big_int where
  "const_i16_max = parse_const ''32767''"
definition const_i16_min_abs :: big_int where
  "const_i16_min_abs = parse_const ''32768''"
definition const_u8_max :: big_int where
  "const_u8_max = parse_const ''255''"
definition const_i8_max :: big_int where
  "const_i8_max = parse_const ''127''"
definition const_i8_min_abs :: big_int where
  "const_i8_min_abs = parse_const ''128''"

text \<open>The bodies of the five signed and of the five unsigned checks.\<close>

definition fits_signed :: "big_int \<Rightarrow> big_int \<Rightarrow> big_int \<Rightarrow> bool" where
  "fits_signed lo_abs hi x =
     (if is_zero x then True
      else if is_neg x then compare_abs x lo_abs \<le> 0
      else compare_abs x hi \<le> 0)"

definition fits_unsigned :: "big_int \<Rightarrow> big_int \<Rightarrow> bool" where
  "fits_unsigned hi x = (\<not> is_neg x \<and> compare_abs x hi \<le> 0)"

definition fits_i8 :: "big_int \<Rightarrow> bool" where
  "fits_i8 = fits_signed const_i8_min_abs const_i8_max"
definition fits_i16 :: "big_int \<Rightarrow> bool" where
  "fits_i16 = fits_signed const_i16_min_abs const_i16_max"
definition fits_i32 :: "big_int \<Rightarrow> bool" where
  "fits_i32 = fits_signed const_i32_min_abs const_i32_max"
definition fits_i64 :: "big_int \<Rightarrow> bool" where
  "fits_i64 = fits_signed const_i64_min_abs const_i64_max"
definition fits_i128 :: "big_int \<Rightarrow> bool" where
  "fits_i128 = fits_signed const_i128_min_abs const_i128_max"
definition fits_u8 :: "big_int \<Rightarrow> bool" where
  "fits_u8 = fits_unsigned const_u8_max"
definition fits_u16 :: "big_int \<Rightarrow> bool" where
  "fits_u16 = fits_unsigned const_u16_max"
definition fits_u32 :: "big_int \<Rightarrow> bool" where
  "fits_u32 = fits_unsigned const_u32_max"
definition fits_u64 :: "big_int \<Rightarrow> bool" where
  "fits_u64 = fits_unsigned const_u64_max"
definition fits_u128 :: "big_int \<Rightarrow> bool" where
  "fits_u128 = fits_unsigned const_u128_max"

section \<open>Values\<close>

fun limbs_val :: "nat list \<Rightarrow> nat" where
  "limbs_val [] = 0"
| "limbs_val (l # ls) = l + kBase * limbs_val ls"

definition big_val :: "big_int \<Rightarrow> int" where
  "big_val x = (if bi_neg x then - int (limbs_val (bi_limbs x)) else int (limbs_val (bi_limbs x)))"

definition limbs_ok :: "nat list \<Rightarrow> bool" where
  "limbs_ok ls \<longleftrightarrow> (\<forall>l \<in> set ls. l < kBase)"

text \<open>The invariant: limbs in range, no leading zero limb, and zero is not negative.\<close>

definition big_ok :: "big_int \<Rightarrow> bool" where
  "big_ok x \<longleftrightarrow> limbs_ok (bi_limbs x) \<and> (bi_limbs x \<noteq> [] \<longrightarrow> last (bi_limbs x) \<noteq> 0)
     \<and> (bi_neg x \<longrightarrow> bi_limbs x \<noteq> [])"

lemma limbs_ok_simps [simp]: "limbs_ok []" "limbs_ok (l # ls) \<longleftrightarrow> l < kBase \<and> limbs_ok ls"
  by (auto simp: limbs_ok_def)

lemma limbs_val_append: "limbs_val (xs @ ys) = limbs_val xs + kBase ^ length xs * limbs_val ys"
  by (induction xs) (simp_all add: algebra_simps)

lemma mul_add_limbs_val:
  "mul \<le> 10 \<Longrightarrow> carry < kBase \<Longrightarrow> limbs_ok ls \<Longrightarrow>
   limbs_val (mul_add_limbs mul carry ls) = mul * limbs_val ls + carry
   \<and> limbs_ok (mul_add_limbs mul carry ls)"
proof (induction mul carry ls rule: mul_add_limbs.induct)
  case (2 mul carry l ls)
  let ?x = "l * mul + carry"
  have "l * mul \<le> l * 10" using 2(2) by (rule mult_le_mono2)
  moreover have "l < kBase" using 2(4) by simp
  ultimately have "?x < kBase * kBase" using 2(3) by linarith
  then have "?x div kBase < kBase" by (simp add: less_mult_imp_div_less)
  with 2 have IH: "limbs_val (mul_add_limbs mul (?x div kBase) ls) = mul * limbs_val ls + ?x div kBase"
    "limbs_ok (mul_add_limbs mul (?x div kBase) ls)" by simp_all
  have "limbs_val (mul_add_limbs mul carry (l # ls))
      = ?x mod kBase + kBase * (mul * limbs_val ls + ?x div kBase)"
    by (simp add: Let_def IH(1))
  also have "\<dots> = ?x + kBase * (mul * limbs_val ls)"
    by (simp add: distrib_left)
  also have "\<dots> = mul * limbs_val (l # ls) + carry" by (simp add: algebra_simps)
  finally show ?case using IH(2) by (simp add: Let_def)
qed simp

lemma strip_zeros_val: "limbs_val (strip_zeros ls) = limbs_val ls"
proof (induction ls rule: strip_zeros.induct)
  case (1 ls)
  show ?case
  proof (cases "ls \<noteq> [] \<and> last ls = 0")
    case True
    then have "limbs_val ls = limbs_val (butlast ls)"
      using limbs_val_append [of "butlast ls" "[0]"] append_butlast_last_id [of ls] by simp
    with 1 True show ?thesis by (subst strip_zeros.simps) simp
  next
    case False
    then show ?thesis by (subst strip_zeros.simps) auto
  qed
qed

lemma strip_zeros_ok:
  "limbs_ok ls \<Longrightarrow> limbs_ok (strip_zeros ls) \<and> (strip_zeros ls \<noteq> [] \<longrightarrow> last (strip_zeros ls) \<noteq> 0)"
proof (induction ls rule: strip_zeros.induct)
  case (1 ls)
  then show ?case
    by (subst (1 2 3) strip_zeros.simps) (auto simp: limbs_ok_def dest: in_set_butlastD)
qed

lemma limbs_val_pos: "ls \<noteq> [] \<Longrightarrow> last ls \<noteq> 0 \<Longrightarrow> kBase ^ (length ls - 1) \<le> limbs_val ls"
  by (cases ls rule: rev_cases) (simp_all add: limbs_val_append trans_le_add2)

lemma limbs_val_bound: "limbs_ok ls \<Longrightarrow> limbs_val ls < kBase ^ length ls"
proof (induction ls)
  case (Cons l ls)
  then have "limbs_val ls + 1 \<le> kBase ^ length ls" "l < kBase" by simp_all
  then have "l + kBase * limbs_val ls < kBase * (limbs_val ls + 1)" by simp
  also have "\<dots> \<le> kBase * kBase ^ length ls"
    using \<open>limbs_val ls + 1 \<le> kBase ^ length ls\<close> by (intro mult_le_mono) simp_all
  finally show ?case by simp
qed simp

definition order_of :: "nat \<Rightarrow> nat \<Rightarrow> int" where
  "order_of a b = (if a < b then -1 else if a > b then 1 else 0)"

lemma compare_limbs_val:
  "length as = length bs \<Longrightarrow> limbs_ok as \<Longrightarrow> limbs_ok bs \<Longrightarrow>
   compare_limbs as bs = order_of (limbs_val (rev as)) (limbs_val (rev bs))"
proof (induction as bs rule: list_induct2)
  case (Cons a as b bs)
  let ?A = "limbs_val (rev as)" and ?B = "limbs_val (rev bs)" and ?K = "kBase ^ length bs"
  have lim: "?A < ?K" "?B < ?K"
    using Cons limbs_val_bound [of "rev as"] limbs_val_bound [of "rev bs"] by (simp_all add: limbs_ok_def)
  have v: "limbs_val (rev (a # as)) = ?A + ?K * a" "limbs_val (rev (b # bs)) = ?B + ?K * b"
    using Cons.hyps by (simp_all add: limbs_val_append)
  have less: "X + ?K * x < Y + ?K * y" if "x < y" "X < ?K" for x y X Y
  proof -
    have "X + ?K * x < ?K * (x + 1)" using that by simp
    also have "\<dots> \<le> ?K * y" using that by (intro mult_le_mono) simp_all
    finally show ?thesis by simp
  qed
  consider "a < b" | "a = b" | "b < a" by linarith
  then show ?case
    using Cons less [of a b ?A ?B] less [of b a ?B ?A] lim unfolding v
    by cases (simp_all add: order_of_def)
qed (simp add: order_of_def)

lemma compare_abs_val:
  assumes "big_ok x" "big_ok y"
  shows "compare_abs x y = order_of (limbs_val (bi_limbs x)) (limbs_val (bi_limbs y))"
proof -
  have less: "limbs_val xs < limbs_val ys"
    if "limbs_ok xs" "length xs < length ys" "last ys \<noteq> 0" for xs ys
  proof -
    have "limbs_val xs < kBase ^ length xs" using that(1) by (rule limbs_val_bound)
    also have "\<dots> \<le> kBase ^ (length ys - 1)" using that(2) by (intro power_increasing) simp_all
    also have "\<dots> \<le> limbs_val ys" using that(2,3) by (intro limbs_val_pos) auto
    finally show ?thesis .
  qed
  have ok: "limbs_ok (bi_limbs x)" "limbs_ok (bi_limbs y)"
    "bi_limbs x \<noteq> [] \<longrightarrow> last (bi_limbs x) \<noteq> 0" "bi_limbs y \<noteq> [] \<longrightarrow> last (bi_limbs y) \<noteq> 0"
    using assms by (simp_all add: big_ok_def)
  consider "length (bi_limbs x) < length (bi_limbs y)" | "length (bi_limbs y) < length (bi_limbs x)"
    | "length (bi_limbs x) = length (bi_limbs y)" by linarith
  then show ?thesis
  proof cases
    case 1
    with less [of "bi_limbs x" "bi_limbs y"] ok show ?thesis by (auto simp: compare_abs_def order_of_def)
  next
    case 2
    with less [of "bi_limbs y" "bi_limbs x"] ok show ?thesis by (auto simp: compare_abs_def order_of_def)
  next
    case 3
    with compare_limbs_val [of "rev (bi_limbs x)" "rev (bi_limbs y)"] ok show ?thesis
      by (simp add: compare_abs_def limbs_ok_def)
  qed
qed

lemma big_val_sign:
  assumes "big_ok x"
  shows "is_neg x \<longleftrightarrow> big_val x < 0" "is_zero x \<longleftrightarrow> big_val x = 0"
proof -
  have "0 < kBase ^ (length (bi_limbs x) - 1)" by simp
  then have "bi_limbs x \<noteq> [] \<longrightarrow> limbs_val (bi_limbs x) \<noteq> 0"
    using assms limbs_val_pos [of "bi_limbs x"] unfolding big_ok_def by linarith
  then show "is_neg x \<longleftrightarrow> big_val x < 0" "is_zero x \<longleftrightarrow> big_val x = 0"
    using assms by (auto simp: is_neg_def is_zero_def big_val_def big_ok_def)
qed

text \<open>A value in normal form is determined by its integer.\<close>

lemma limbs_val_inj:
  "length xs = length ys \<Longrightarrow> limbs_ok xs \<Longrightarrow> limbs_ok ys \<Longrightarrow> limbs_val xs = limbs_val ys \<Longrightarrow> xs = ys"
proof (induction xs ys rule: list_induct2)
  case (Cons x xs y ys)
  then have lt: "x < kBase" "y < kBase" "x + kBase * limbs_val xs = y + kBase * limbs_val ys" by simp_all
  then have "x = y" by (metis mod_less mod_mult_self2)
  with lt Cons show ?case by simp
qed simp

lemma big_val_inj:
  assumes "big_ok x" "big_ok y" "big_val x = big_val y"
  shows "x = y"
proof -
  have "compare_abs x y = 0"
    using assms by (auto simp: compare_abs_val order_of_def big_val_def split: if_splits)
  then have "length (bi_limbs x) = length (bi_limbs y)" by (auto simp: compare_abs_def split: if_splits)
  moreover have "limbs_val (bi_limbs x) = limbs_val (bi_limbs y)"
    using assms(3) by (auto simp: big_val_def split: if_splits)
  ultimately have "bi_limbs x = bi_limbs y"
    using assms(1,2) by (intro limbs_val_inj) (auto simp: big_ok_def)
  moreover have "is_neg x = is_neg y" using assms by (simp add: big_val_sign)
  ultimately show ?thesis
    using assms(1,2) by (intro big_int.equality) (auto simp: is_neg_def is_zero_def big_ok_def)
qed

section \<open>Parsing\<close>

definition digits_val :: "nat \<Rightarrow> string \<Rightarrow> nat" where
  "digits_val a ds = foldl (\<lambda>a c. a * 10 + char_digit c) a ds"

lemma parse_digits_val:
  assumes "limbs_ok (bi_limbs out)"
  shows "fst (parse_digits ds out) = list_all is_digit ds
    \<and> limbs_ok (bi_limbs (snd (parse_digits ds out)))
    \<and> bi_neg (snd (parse_digits ds out)) = bi_neg out
    \<and> (list_all is_digit ds \<longrightarrow>
         limbs_val (bi_limbs (snd (parse_digits ds out))) = digits_val (limbs_val (bi_limbs out)) ds)"
  using assms
proof (induction ds arbitrary: out)
  case (Cons c ds)
  show ?case
  proof (cases "is_digit c")
    case True
    then have "char_digit c < kBase" by (auto simp: is_digit_def char_digit_def)
    from mul_add_limbs_val [OF _ this Cons.prems, of 10] True Cons.IH [of "mul_add_dec 10 (char_digit c) out"]
    show ?thesis by (simp add: mul_add_dec_def digits_val_def mult.commute)
  next
    case False
    with Cons.prems show ?thesis by simp
  qed
qed (simp add: digits_val_def)

lemma normalize_spec:
  assumes "limbs_ok (bi_limbs x)"
  shows "limbs_val (bi_limbs (normalize x)) = limbs_val (bi_limbs x)"
    and "limbs_ok (bi_limbs (normalize x))"
    and "bi_limbs (normalize x) \<noteq> [] \<longrightarrow> last (bi_limbs (normalize x)) \<noteq> 0"
  using strip_zeros_ok [OF assms] by (simp_all add: normalize_def Let_def strip_zeros_val)

text \<open>Sign and digits of a text.\<close>

definition dec_text :: "string \<Rightarrow> bool \<times> string" where
  "dec_text txt = (if txt \<noteq> [] \<and> hd txt = CHR ''-'' then (True, tl txt) else (False, txt))"

lemma parse_dec_spec:
  assumes "dec_text txt = (neg, ds)"
  shows "fst (parse_dec txt) \<longleftrightarrow> ds \<noteq> [] \<and> list_all is_digit ds"
    and "fst (parse_dec txt) \<Longrightarrow> big_ok (snd (parse_dec txt))
      \<and> big_val (snd (parse_dec txt)) = (if neg then - int (digits_val 0 ds) else int (digits_val 0 ds))"
proof -
  have zero: "limbs_ok (bi_limbs big_zero)" by (simp add: big_zero_def)
  note digits = parse_digits_val [OF zero, of ds]
  have parse: "parse_dec txt =
      (if ds = [] then (False, big_zero)
       else case parse_digits ds big_zero of (ok, out) \<Rightarrow>
         if \<not> ok then (False, out)
         else (True, (normalize out)\<lparr>bi_neg := neg \<and> \<not> is_zero (normalize out)\<rparr>))"
    using assms by (auto simp: parse_dec_def dec_text_def Let_def split: if_splits prod.split)
  show ok: "fst (parse_dec txt) \<longleftrightarrow> ds \<noteq> [] \<and> list_all is_digit ds"
    unfolding parse using digits by (cases "parse_digits ds big_zero") simp
  show "big_ok (snd (parse_dec txt))
      \<and> big_val (snd (parse_dec txt)) = (if neg then - int (digits_val 0 ds) else int (digits_val 0 ds))"
    if "fst (parse_dec txt)"
  proof -
    define out where "out = snd (parse_digits ds big_zero)"
    have out: "parse_digits ds big_zero = (True, out)"
      using digits ok that by (simp add: prod_eq_iff out_def)
    with digits have o: "limbs_ok (bi_limbs out)" by simp
    have v: "limbs_val (bi_limbs out) = digits_val 0 ds"
      using digits out ok that by (simp add: big_zero_def)
    note n = normalize_spec [OF o]
    have res: "snd (parse_dec txt) = (normalize out)\<lparr>bi_neg := neg \<and> \<not> is_zero (normalize out)\<rparr>"
      unfolding parse using ok that out by simp
    have "bi_limbs (normalize out) = [] \<Longrightarrow> digits_val 0 ds = 0" using n(1) v by simp
    then show ?thesis
      unfolding res using n v by (auto simp: big_ok_def big_val_def is_zero_def)
  qed
qed

section \<open>Printing\<close>

lemma rev_tmp_digits: "rev (tmp_digits v) = dec_digits v"
proof (induction v rule: dec_digits.induct)
  case (1 n)
  show ?case
  proof (cases "n < 10")
    case True
    then show ?thesis by (subst tmp_digits.simps, subst dec_digits.simps) simp
  next
    case False
    then have "n div 10 \<noteq> 0" by (simp add: div_eq_0_iff)
    with 1 False show ?thesis by (subst tmp_digits.simps, subst dec_digits.simps) simp
  qed
qed

lemma dec_digits_snoc: "0 < a \<Longrightarrow> d < 10 \<Longrightarrow> dec_digits (a * 10 + d) = dec_digits a @ [d]"
  by (subst dec_digits.simps) simp

lemma dec_digits_pad:
  "0 < a \<Longrightarrow> b < 10 ^ k \<Longrightarrow> dec_digits (a * 10 ^ k + b) = dec_digits a @ pad_digits k b"
proof (induction k arbitrary: b)
  case (Suc k)
  have "a * 10 ^ Suc k + b = (a * 10 ^ k + b div 10) * 10 + b mod 10" by simp
  then have "dec_digits (a * 10 ^ Suc k + b) = dec_digits (a * 10 ^ k + b div 10) @ [b mod 10]"
    using Suc.prems(1) by (simp only:) (rule dec_digits_snoc; simp)
  moreover have "b div 10 < 10 ^ k" using Suc.prems by (simp add: div_less_iff_less_mult mult.commute)
  ultimately show ?case using Suc.IH Suc.prems(1) by simp
qed simp

lemma append_uint_dec: "append_uint v False = dec v"
  by (simp add: append_uint_def dec_def rev_tmp_digits)

lemma print_limbs:
  assumes "limbs_ok ls" "l \<noteq> 0"
  shows "append_uint l False @ concat (map (\<lambda>l. append_uint l True) (rev ls)) = dec (limbs_val (ls @ [l]))"
  using assms
proof (induction ls)
  case Nil
  then show ?case by (simp add: append_uint_dec)
next
  case (Cons x ls)
  have pos: "0 < limbs_val (ls @ [l])" using Cons.prems(2) by (simp add: limbs_val_append)
  have "limbs_val ((x # ls) @ [l]) = limbs_val (ls @ [l]) * 10 ^ 9 + x" by simp
  moreover have "x < 10 ^ 9" using Cons.prems by simp
  ultimately have "dec (limbs_val ((x # ls) @ [l])) = dec (limbs_val (ls @ [l])) @ append_uint x True"
    using pos by (simp only: dec_def dec_digits_pad) (simp add: append_uint_def)
  with Cons show ?case by (simp only: rev.simps map_append concat_append append_assoc [symmetric]) simp
qed

lemma big_to_string_dec:
  assumes "big_ok x" "0 < max_digits"
  shows "big_to_string max_digits x =
    (let s = dec_int (big_val x) in if length s > max_digits then take max_digits s @ ''...'' else s)"
proof (cases "is_zero x")
  case True
  then have "big_val x = 0" using assms(1) by (simp add: big_val_sign)
  moreover have "dec_int 0 = ''0''" by code_simp
  ultimately show ?thesis using True assms(2) by (simp add: big_to_string_def)
next
  case False
  then obtain ls l where ls: "bi_limbs x = ls @ [l]" by (cases "bi_limbs x" rule: rev_cases) (auto simp: is_zero_def)
  have "limbs_ok ls" "l \<noteq> 0" using assms(1) ls by (auto simp: big_ok_def limbs_ok_def)
  from print_limbs [OF this] have p: "append_uint l False @ concat (map (\<lambda>l. append_uint l True) (rev ls))
      = dec (limbs_val (bi_limbs x))" by (simp only: ls)
  have "dec_int (big_val x) = (if is_neg x then ''-'' else []) @ dec (limbs_val (bi_limbs x))"
    using big_val_sign [OF assms(1)] False
    by (auto simp: dec_int_def big_val_def is_neg_def)
  with p have "(if is_neg x then ''-'' else []) @ append_uint l False @ concat (map (\<lambda>l. append_uint l True) (rev ls))
      = dec_int (big_val x)" by simp
  with False ls show ?thesis by (simp only: big_to_string_def Let_def rev_append rev.simps append_Nil append_Cons list.sel if_False)
qed

section \<open>Ranges\<close>

lemma fits_signed_iff:
  assumes "big_ok x" "big_ok lo_abs" "big_ok hi" "0 \<le> big_val lo_abs" "0 \<le> big_val hi"
  shows "fits_signed lo_abs hi x \<longleftrightarrow> - big_val lo_abs \<le> big_val x \<and> big_val x \<le> big_val hi"
proof -
  have "\<not> bi_neg lo_abs" "\<not> bi_neg hi"
    using big_val_sign(1) [OF assms(2)] big_val_sign(1) [OF assms(3)] assms by (auto simp: is_neg_def is_zero_def big_ok_def)
  then show ?thesis
    using assms(4,5) big_val_sign [OF assms(1)]
    by (auto simp: fits_signed_def compare_abs_val assms order_of_def big_val_def is_neg_def split: if_splits)
qed

lemma fits_unsigned_iff:
  assumes "big_ok x" "big_ok hi" "0 \<le> big_val hi"
  shows "fits_unsigned hi x \<longleftrightarrow> 0 \<le> big_val x \<and> big_val x \<le> big_val hi"
proof -
  have "\<not> bi_neg hi"
    using big_val_sign(1) [OF assms(2)] assms by (auto simp: is_neg_def is_zero_def big_ok_def)
  then show ?thesis
    using big_val_sign [OF assms(1)]
    by (auto simp: fits_unsigned_def compare_abs_val assms order_of_def big_val_def is_neg_def split: if_splits)
qed

lemma parse_const_val:
  assumes "list_all is_digit ds" "ds \<noteq> []"
  shows "big_ok (parse_const ds)" "big_val (parse_const ds) = int (digits_val 0 ds)"
proof -
  have "hd ds \<noteq> CHR ''-''" using assms by (cases ds) (auto simp: is_digit_def)
  then have "dec_text ds = (False, ds)" by (simp add: dec_text_def)
  from parse_dec_spec [OF this] assms show "big_ok (parse_const ds)" "big_val (parse_const ds) = int (digits_val 0 ds)"
    by (simp_all add: parse_const_def)
qed

lemmas digit_simps = digits_val_def char_digit_def is_digit_def

lemma constants_ok:
  "big_ok const_i8_min_abs" "big_ok const_i8_max" "big_ok const_i16_min_abs" "big_ok const_i16_max"
  "big_ok const_i32_min_abs" "big_ok const_i32_max" "big_ok const_i64_min_abs" "big_ok const_i64_max"
  "big_ok const_i128_min_abs" "big_ok const_i128_max" "big_ok const_u8_max" "big_ok const_u16_max"
  "big_ok const_u32_max" "big_ok const_u64_max" "big_ok const_u128_max"
  unfolding const_i8_min_abs_def const_i8_max_def const_i16_min_abs_def const_i16_max_def
    const_i32_min_abs_def const_i32_max_def const_i64_min_abs_def const_i64_max_def
    const_i128_min_abs_def const_i128_max_def const_u8_max_def const_u16_max_def
    const_u32_max_def const_u64_max_def const_u128_max_def
  by (rule parse_const_val(1); simp add: digit_simps)+

lemma constants_val:
  "big_val const_i8_min_abs = 2 ^ 7" "big_val const_i8_max = 2 ^ 7 - 1"
  "big_val const_i16_min_abs = 2 ^ 15" "big_val const_i16_max = 2 ^ 15 - 1"
  "big_val const_i32_min_abs = 2 ^ 31" "big_val const_i32_max = 2 ^ 31 - 1"
  "big_val const_i64_min_abs = 2 ^ 63" "big_val const_i64_max = 2 ^ 63 - 1"
  "big_val const_i128_min_abs = 2 ^ 127" "big_val const_i128_max = 2 ^ 127 - 1"
  "big_val const_u8_max = 2 ^ 8 - 1" "big_val const_u16_max = 2 ^ 16 - 1"
  "big_val const_u32_max = 2 ^ 32 - 1" "big_val const_u64_max = 2 ^ 64 - 1"
  "big_val const_u128_max = 2 ^ 128 - 1"
  by (simp_all add: const_i8_min_abs_def const_i8_max_def const_i16_min_abs_def const_i16_max_def
    const_i32_min_abs_def const_i32_max_def const_i64_min_abs_def const_i64_max_def
    const_i128_min_abs_def const_i128_max_def const_u8_max_def const_u16_max_def
    const_u32_max_def const_u64_max_def const_u128_max_def parse_const_val digit_simps)

lemmas constants = constants_ok constants_val

section \<open>Properties\<close>

text \<open>C38: a text is accepted exactly when it is an optional minus sign and at least one digit; the
  result is in normal form and denotes that integer.\<close>

theorem parse_dec_correct:
  "let (neg, ds) = dec_text txt; (ok, x) = parse_dec txt in
     ok = (ds \<noteq> [] \<and> list_all is_digit ds)
     \<and> (if ok then big_ok x \<and> big_val x = (if neg then -1 else 1) * int (digits_val 0 ds) else True)"
  using parse_dec_spec [of "txt" "fst (dec_text txt)" "snd (dec_text txt)"]
  by (auto simp: case_prod_beta Let_def)



text \<open>C40: comparison and the ten range checks agree with the integers: on numbers in normal form
  compare gives the sign of the difference and each check holds exactly on its range.\<close>

theorem big_int_order_and_ranges:
  assumes "big_ok x" "big_ok y"
  shows "compare x y = sgn (big_val x - big_val y)
    \<and> (fits_i8 x \<longleftrightarrow> big_val x \<in> {- (2 ^ 7) ..< 2 ^ 7}) \<and> (fits_i16 x \<longleftrightarrow> big_val x \<in> {- (2 ^ 15) ..< 2 ^ 15})
    \<and> (fits_i32 x \<longleftrightarrow> big_val x \<in> {- (2 ^ 31) ..< 2 ^ 31}) \<and> (fits_i64 x \<longleftrightarrow> big_val x \<in> {- (2 ^ 63) ..< 2 ^ 63})
    \<and> (fits_i128 x \<longleftrightarrow> big_val x \<in> {- (2 ^ 127) ..< 2 ^ 127})
    \<and> (fits_u8 x \<longleftrightarrow> big_val x \<in> {0 ..< 2 ^ 8}) \<and> (fits_u16 x \<longleftrightarrow> big_val x \<in> {0 ..< 2 ^ 16})
    \<and> (fits_u32 x \<longleftrightarrow> big_val x \<in> {0 ..< 2 ^ 32}) \<and> (fits_u64 x \<longleftrightarrow> big_val x \<in> {0 ..< 2 ^ 64})
    \<and> (fits_u128 x \<longleftrightarrow> big_val x \<in> {0 ..< 2 ^ 128})"
proof -
  have "compare x y = sgn (big_val x - big_val y)"
    using big_val_sign [OF assms(1)] big_val_sign [OF assms(2)]
    by (auto simp: compare_def compare_abs_val assms order_of_def big_val_def is_neg_def sgn_if split: if_splits)
  then show ?thesis
    by (simp add: fits_i8_def fits_i16_def fits_i32_def fits_i64_def fits_i128_def fits_u8_def fits_u16_def
        fits_u32_def fits_u64_def fits_u128_def fits_signed_iff fits_unsigned_iff assms(1) constants) linarith
qed

lemma big_int_order_and_ranges_witness:
  "\<exists>x y. big_ok x \<and> big_ok y \<and> compare x y = -1 \<and> fits_i64 y \<and> \<not> fits_i64 x \<and> fits_i128 x"
proof -
  let ?x = "\<lparr>bi_neg = True, bi_limbs = [854775809, 223372036, 9]\<rparr>" and ?y = "\<lparr>bi_neg = False, bi_limbs = [3]\<rparr>"
  have ok: "big_ok ?x" "big_ok ?y" and v: "big_val ?x = - 9223372036854775809" "big_val ?y = 3" by code_simp+
  from big_int_order_and_ranges [OF ok] big_int_order_and_ranges [OF ok(2,1)] v
  have "compare ?x ?y = -1 \<and> fits_i64 ?y \<and> \<not> fits_i64 ?x \<and> fits_i128 ?x" by (simp add: sgn_if)
  with ok show ?thesis by blast
qed

end
