(* ===== verification/SymbolTable.thy ===== *)
theory SymbolTable
  imports Prelude
begin

text \<open>
  The symbol table of name resolution and type checking
  (\<open>frontend/include/parus/sema/SymbolTable.hpp\<close>): a vector of scopes linked by parents, a stack
  of the open ones, and a vector of symbols. Its contract is the interface \<open>scoped_names\<close>: the
  open scopes denote a list of maps, innermost first, and the operations are those of nested
  environments. Scope and symbol ids are vector sizes cast to 32 bits; the invariant bounds both
  vectors, and \<open>table_room\<close> counts what still fits.
\<close>

section \<open>State\<close>

datatype symbol_kind = SymVar | SymFn | SymType | SymField | SymAct | SymInst

record symbol =
  sy_kind :: symbol_kind
  sy_name :: string
  sy_link_name :: string
  sy_external_payload :: string
  sy_external_field_payload :: string
  sy_declared_type :: nat
  sy_decl_span :: source_span
  sy_owner_scope :: nat
  sy_decl_file_id :: nat
  sy_decl_bundle_name :: string
  sy_decl_module_head :: string
  sy_decl_source_dir_norm :: string
  sy_is_export :: bool
  sy_is_external :: bool

record shadowing =
  sh_old_symbol :: nat
  sh_new_symbol :: nat
  sh_span :: source_span

record scope =
  sc_parent :: nat
  sc_table :: "string \<rightharpoonup> nat"

record symbol_table =
  st_scopes :: "scope list"
  st_stack :: "nat list"
  st_symbols :: "symbol list"
  st_shadowings :: "shadowing list"

abbreviation kNoScope :: nat where
  "kNoScope \<equiv> 4294967295"

definition new_table :: symbol_table where
  "new_table =
     \<lparr>st_scopes = [\<lparr>sc_parent = kNoScope, sc_table = Map.empty\<rparr>], st_stack = [0], st_symbols = [],
      st_shadowings = []\<rparr>"

section \<open>Operations\<close>

definition current_scope :: "symbol_table \<Rightarrow> nat" where
  "current_scope st = (if st_stack st = [] then 0 else last (st_stack st))"

definition push_scope :: "symbol_table \<Rightarrow> symbol_table \<times> nat" where
  "push_scope st =
     (let scopes = st_scopes st @ [\<lparr>sc_parent = current_scope st, sc_table = Map.empty\<rparr>];
          sid = u32 (length scopes - 1)
      in (st\<lparr>st_scopes := scopes, st_stack := st_stack st @ [sid]\<rparr>, sid))"

definition pop_scope :: "symbol_table \<Rightarrow> symbol_table" where
  "pop_scope st = (if length (st_stack st) \<le> 1 then st else st\<lparr>st_stack := butlast (st_stack st)\<rparr>)"

text \<open>The walk along the parents; one unit of fuel per scope.\<close>

fun lookup_from :: "nat \<Rightarrow> scope list \<Rightarrow> nat \<Rightarrow> string \<Rightarrow> nat option" where
  "lookup_from 0 scopes s name = None"
| "lookup_from (Suc fuel) scopes s name =
     (if s = kNoScope then None
      else (case sc_table (scopes ! s) name of
              Some v \<Rightarrow> Some v
            | None \<Rightarrow> lookup_from fuel scopes (sc_parent (scopes ! s)) name))"

definition lookup :: "symbol_table \<Rightarrow> string \<Rightarrow> nat option" where
  "lookup st name = lookup_from (length (st_scopes st)) (st_scopes st) (current_scope st) name"

definition lookup_in_current :: "symbol_table \<Rightarrow> string \<Rightarrow> nat option" where
  "lookup_in_current st name = sc_table (st_scopes st ! current_scope st) name"

definition lookup_in_scope :: "symbol_table \<Rightarrow> nat \<Rightarrow> string \<Rightarrow> nat option" where
  "lookup_in_scope st scope_id name =
     (if length (st_scopes st) \<le> scope_id then None else sc_table (st_scopes st ! scope_id) name)"

record insert_result =
  ir_ok :: bool
  ir_is_duplicate :: bool
  ir_is_shadowing :: bool
  ir_symbol_id :: nat
  ir_shadowed_symbol_id :: nat

definition no_result :: insert_result where
  "no_result = \<lparr>ir_ok = False, ir_is_duplicate = False, ir_is_shadowing = False, ir_symbol_id = 0,
                ir_shadowed_symbol_id = 0\<rparr>"

text \<open>The arguments of \<open>insert\<close>.\<close>

record decl_args =
  de_kind :: symbol_kind
  de_name :: string
  de_declared_type :: nat
  de_decl_span :: source_span
  de_decl_file_id :: nat
  de_decl_bundle_name :: string
  de_is_export :: bool
  de_is_external :: bool
  de_decl_module_head :: string
  de_decl_source_dir_norm :: string
  de_link_name :: string
  de_external_payload :: string

definition make_symbol :: "decl_args \<Rightarrow> nat \<Rightarrow> symbol" where
  "make_symbol d owner =
     \<lparr>sy_kind = de_kind d, sy_name = de_name d, sy_link_name = de_link_name d,
      sy_external_payload = de_external_payload d, sy_external_field_payload = [],
      sy_declared_type = de_declared_type d, sy_decl_span = de_decl_span d, sy_owner_scope = owner,
      sy_decl_file_id = de_decl_file_id d, sy_decl_bundle_name = de_decl_bundle_name d,
      sy_decl_module_head = de_decl_module_head d, sy_decl_source_dir_norm = de_decl_source_dir_norm d,
      sy_is_export = de_is_export d, sy_is_external = de_is_external d\<rparr>"

text \<open>The common tail: the symbol is appended, entered in the table of its scope (\<open>emplace\<close> keeps
  an existing entry), and a shadowing is recorded.\<close>

definition add_symbol :: "nat \<Rightarrow> decl_args \<Rightarrow> nat option \<Rightarrow> symbol_table \<Rightarrow> symbol_table \<times> insert_result" where
  "add_symbol owner d outer st =
     (let symbols = st_symbols st @ [make_symbol d owner];
          sid = u32 (length symbols - 1);
          tab = sc_table (st_scopes st ! owner);
          tab' = (if tab (de_name d) = None then tab(de_name d \<mapsto> sid) else tab);
          scopes = (st_scopes st)[owner := (st_scopes st ! owner)\<lparr>sc_table := tab'\<rparr>];
          shadows = (case outer of
                       None \<Rightarrow> st_shadowings st
                     | Some v \<Rightarrow> st_shadowings st @
                         [\<lparr>sh_old_symbol = v, sh_new_symbol = sid, sh_span = de_decl_span d\<rparr>])
      in (st\<lparr>st_symbols := symbols, st_scopes := scopes, st_shadowings := shadows\<rparr>,
          \<lparr>ir_ok = True, ir_is_duplicate = False, ir_is_shadowing = (outer \<noteq> None), ir_symbol_id = sid,
           ir_shadowed_symbol_id = (case outer of None \<Rightarrow> 0 | Some v \<Rightarrow> v)\<rparr>))"

definition duplicate_result :: "nat \<Rightarrow> insert_result" where
  "duplicate_result sid = no_result\<lparr>ir_is_duplicate := True, ir_symbol_id := sid\<rparr>"

definition insert_symbol :: "symbol_table \<Rightarrow> decl_args \<Rightarrow> symbol_table \<times> insert_result" where
  "insert_symbol st d =
     (case lookup_in_current st (de_name d) of
        Some v \<Rightarrow> (st, duplicate_result v)
      | None \<Rightarrow> add_symbol (current_scope st) d (lookup st (de_name d)) st)"

definition insert_into_scope :: "symbol_table \<Rightarrow> nat \<Rightarrow> decl_args \<Rightarrow> symbol_table \<times> insert_result" where
  "insert_into_scope st scope_id d =
     (if length (st_scopes st) \<le> scope_id then (st, no_result)
      else (case sc_table (st_scopes st ! scope_id) (de_name d) of
              Some v \<Rightarrow> (st, duplicate_result v)
            | None \<Rightarrow>
                add_symbol scope_id d
                  (lookup_from (length (st_scopes st)) (st_scopes st) (sc_parent (st_scopes st ! scope_id))
                    (de_name d)) st))"

definition update_declared_type :: "symbol_table \<Rightarrow> nat \<Rightarrow> nat \<Rightarrow> symbol_table \<times> bool" where
  "update_declared_type st sid new_type =
     (if length (st_symbols st) \<le> sid then (st, False)
      else (st\<lparr>st_symbols := (st_symbols st)[sid := (st_symbols st ! sid)\<lparr>sy_declared_type := new_type\<rparr>]\<rparr>, True))"

section \<open>Invariant\<close>

text \<open>The open scopes, outermost first, are linked by their parents; parents precede their children;
  an entry of a table names a symbol of that scope, and every symbol has its entry.\<close>

definition stack_linked :: "scope list \<Rightarrow> nat list \<Rightarrow> bool" where
  "stack_linked scopes stack \<longleftrightarrow>
     stack \<noteq> [] \<and> hd stack = 0 \<and> (\<forall>s \<in> set stack. s < length scopes)
     \<and> (\<forall>i. Suc i < length stack \<longrightarrow> sc_parent (scopes ! (stack ! Suc i)) = stack ! i)"

definition parents_ok :: "scope list \<Rightarrow> bool" where
  "parents_ok scopes \<longleftrightarrow>
     scopes \<noteq> [] \<and> sc_parent (scopes ! 0) = kNoScope
     \<and> (\<forall>s < length scopes. s \<noteq> 0 \<longrightarrow> sc_parent (scopes ! s) < s)"

definition entries_ok :: "scope list \<Rightarrow> symbol list \<Rightarrow> bool" where
  "entries_ok scopes symbols \<longleftrightarrow>
     (\<forall>s < length scopes. \<forall>n v. sc_table (scopes ! s) n = Some v \<longrightarrow>
         v < length symbols \<and> sy_name (symbols ! v) = n \<and> sy_owner_scope (symbols ! v) = s)
     \<and> (\<forall>v < length symbols. sy_owner_scope (symbols ! v) < length scopes
         \<and> sc_table (scopes ! sy_owner_scope (symbols ! v)) (sy_name (symbols ! v)) = Some v)"

definition table_inv :: "symbol_table \<Rightarrow> bool" where
  "table_inv st \<longleftrightarrow>
     stack_linked (st_scopes st) (st_stack st) \<and> parents_ok (st_scopes st)
     \<and> entries_ok (st_scopes st) (st_symbols st)
     \<and> length (st_scopes st) \<le> kNoScope \<and> length (st_symbols st) \<le> kNoScope"

definition table_room :: "symbol_table \<Rightarrow> nat" where
  "table_room st = kNoScope - max (length (st_scopes st)) (length (st_symbols st))"

text \<open>What the open scopes denote.\<close>

definition env_of :: "symbol_table \<Rightarrow> (string \<rightharpoonup> nat) list" where
  "env_of st = map (\<lambda>s. sc_table (st_scopes st ! s)) (rev (st_stack st))"

fun env_lookup :: "(string \<rightharpoonup> nat) list \<Rightarrow> string \<Rightarrow> nat option" where
  "env_lookup [] n = None"
| "env_lookup (t # ts) n = (case t n of Some v \<Rightarrow> Some v | None \<Rightarrow> env_lookup ts n)"

lemma table_invD:
  assumes "table_inv st"
  shows "st_stack st \<noteq> []" "current_scope st = last (st_stack st)" "current_scope st < length (st_scopes st)"
    "stack_linked (st_scopes st) (st_stack st)" "parents_ok (st_scopes st)"
    "entries_ok (st_scopes st) (st_symbols st)"
  using assms by (auto simp: table_inv_def stack_linked_def current_scope_def)

text \<open>Fuel: a scope's chain is shorter than its index.\<close>

lemma lookup_from_enough:
  assumes "parents_ok scopes" "s < length scopes" "length scopes \<le> kNoScope" "s < fuel" "s < fuel'"
  shows "lookup_from fuel scopes s name = lookup_from fuel' scopes s name"
  using assms(2,4,5)
proof (induction s arbitrary: fuel fuel' rule: less_induct)
  case (less s)
  obtain k k' where k: "fuel = Suc k" "fuel' = Suc k'" using less.prems by (cases fuel; cases fuel') auto
  have "lookup_from k scopes (sc_parent (scopes ! s)) name = lookup_from k' scopes (sc_parent (scopes ! s)) name"
  proof (cases "s = 0")
    case True
    with assms(1) have "sc_parent (scopes ! s) = kNoScope" by (simp add: parents_ok_def)
    then show ?thesis by (cases k; cases k') simp_all
  next
    case False
    with assms(1) less.prems have p: "sc_parent (scopes ! s) < s" by (simp add: parents_ok_def)
    show ?thesis by (rule less.IH [OF p]) (use p k less.prems in linarith)+
  qed
  then show ?case by (simp add: k split: option.split)
qed

lemma stack_linked_snoc:
  assumes "stack \<noteq> []"
  shows "stack_linked scopes (stack @ [s]) \<longleftrightarrow>
    stack_linked scopes stack \<and> s < length scopes \<and> sc_parent (scopes ! s) = last stack"
proof -
  have "(\<forall>i. Suc i < length (stack @ [s]) \<longrightarrow> sc_parent (scopes ! ((stack @ [s]) ! Suc i)) = (stack @ [s]) ! i)
    \<longleftrightarrow> (\<forall>i. Suc i < length stack \<longrightarrow> sc_parent (scopes ! (stack ! Suc i)) = stack ! i)
      \<and> sc_parent (scopes ! s) = last stack" (is "(\<forall>i. ?P i) \<longleftrightarrow> ?Q")
  proof
    assume L: "\<forall>i. ?P i"
    have "sc_parent (scopes ! (stack ! Suc i)) = stack ! i" if "Suc i < length stack" for i
      using spec [OF L, of i] that by (simp add: nth_append)
    moreover have "sc_parent (scopes ! s) = last stack"
      using spec [OF L, of "length stack - 1"] assms by (simp add: nth_append last_conv_nth)
    ultimately show ?Q by blast
  next
    assume Q: ?Q
    have "?P i" for i
    proof (cases "Suc i < length stack")
      case True
      with Q show ?thesis by (simp add: nth_append)
    next
      case False
      show ?thesis
      proof
        assume "Suc i < length (stack @ [s])"
        with False have "i = length stack - 1" "Suc i = length stack" using assms by auto
        with Q assms show "sc_parent (scopes ! ((stack @ [s]) ! Suc i)) = (stack @ [s]) ! i"
          by (simp add: nth_append last_conv_nth)
      qed
    qed
    then show "\<forall>i. ?P i" by blast
  qed
  moreover have "stack @ [s] \<noteq> [] \<and> hd (stack @ [s]) = 0 \<longleftrightarrow> stack \<noteq> [] \<and> hd stack = 0"
    "(\<forall>x \<in> set (stack @ [s]). x < length scopes) \<longleftrightarrow> (\<forall>x \<in> set stack. x < length scopes) \<and> s < length scopes"
    using assms by auto
  ultimately show ?thesis unfolding stack_linked_def by blast
qed

lemma lookup_from_chain:
  assumes "stack_linked scopes stack" "parents_ok scopes" "length scopes \<le> kNoScope" "last stack < fuel"
  shows "lookup_from fuel scopes (last stack) name = env_lookup (map (\<lambda>s. sc_table (scopes ! s)) (rev stack)) name"
  using assms(1,4)
proof (induction stack arbitrary: fuel rule: rev_induct)
  case (snoc s stack)
  obtain k where k: "fuel = Suc k" using snoc.prems by (cases fuel) auto
  have s: "s < length scopes" "s \<noteq> kNoScope" using snoc.prems assms(3) by (auto simp: stack_linked_def)
  show ?case
  proof (cases "stack = []")
    case True
    with snoc.prems assms(2) have "sc_parent (scopes ! s) = kNoScope" by (simp add: stack_linked_def parents_ok_def)
    then have "lookup_from k scopes (sc_parent (scopes ! s)) name = None" by (cases k) simp_all
    with k s True show ?thesis by (simp split: option.split)
  next
    case False
    have link: "stack_linked scopes stack" and parent: "sc_parent (scopes ! s) = last stack"
      using snoc.prems(1) False by (simp_all add: stack_linked_snoc)
    have "s \<noteq> 0"
    proof
      assume "s = 0"
      with assms(2) parent have "last stack = kNoScope" by (simp add: parents_ok_def)
      with link False assms(3) show False unfolding stack_linked_def by (metis last_in_set linorder_not_less)
    qed
    with assms(2) s parent have "last stack < s" by (metis parents_ok_def)
    with snoc k have "last stack < k" by simp
    with snoc.IH [OF link this] k s parent show ?thesis by (simp split: option.split)
  qed
qed (simp add: stack_linked_def)

lemma lookup_env:
  assumes "table_inv st"
  shows "lookup st name = env_lookup (env_of st) name"
  using lookup_from_chain [of "st_scopes st" "st_stack st" "length (st_scopes st)" name] assms table_invD [OF assms]
  by (simp add: lookup_def env_of_def table_inv_def)

lemma lookup_in_current_env:
  assumes "table_inv st"
  shows "lookup_in_current st name = hd (env_of st) name"
  using table_invD(1,2) [OF assms] by (simp add: lookup_in_current_def env_of_def hd_rev hd_map)

section \<open>Opening and closing scopes\<close>

lemma stack_linked_append:
  "stack_linked scopes stack \<Longrightarrow> stack_linked (scopes @ [x]) stack"
  unfolding stack_linked_def by (auto simp: nth_append dest: nth_mem)

lemma stack_linked_cong:
  assumes "length scopes' = length scopes" "\<And>s. s < length scopes \<Longrightarrow> sc_parent (scopes' ! s) = sc_parent (scopes ! s)"
  shows "stack_linked scopes' stack = stack_linked scopes stack"
proof -
  have "(Suc i < length stack \<longrightarrow> sc_parent (scopes' ! (stack ! Suc i)) = stack ! i)
      = (Suc i < length stack \<longrightarrow> sc_parent (scopes ! (stack ! Suc i)) = stack ! i)"
    if "\<forall>s \<in> set stack. s < length scopes" for i
    using assms(2) that nth_mem [of "Suc i" stack] by auto
  then show ?thesis unfolding stack_linked_def assms(1) by blast
qed

lemma push_scope_inv:
  assumes inv: "table_inv st" and room: "0 < table_room st"
  shows "table_inv (fst (push_scope st))" "env_of (fst (push_scope st)) = Map.empty # env_of st"
    "snd (push_scope st) = length (st_scopes st)" "table_room st \<le> Suc (table_room (fst (push_scope st)))"
proof -
  let ?scopes = "st_scopes st" and ?new = "\<lparr>sc_parent = current_scope st, sc_table = Map.empty\<rparr>"
  note I = table_invD [OF inv]
  have len: "length ?scopes < kNoScope" "length (st_symbols st) \<le> kNoScope"
    using room inv by (auto simp: table_room_def table_inv_def)
  then have push: "push_scope st = (st\<lparr>st_scopes := ?scopes @ [?new], st_stack := st_stack st @ [length ?scopes]\<rparr>, length ?scopes)"
    by (simp add: push_scope_def Let_def)
  have old: "s < length ?scopes" if "s \<in> set (st_stack st)" for s
    using I(4) that by (simp add: stack_linked_def)
  have "stack_linked (?scopes @ [?new]) (st_stack st @ [length ?scopes])"
    using I(1,2) stack_linked_append [OF I(4)] by (simp add: stack_linked_snoc)
  moreover have "parents_ok (?scopes @ [?new])"
    using I(3,5) by (auto simp: parents_ok_def nth_append less_Suc_eq)
  moreover have "entries_ok (?scopes @ [?new]) (st_symbols st)"
    using I(6) unfolding entries_ok_def by (auto simp: nth_append less_Suc_eq)
  ultimately show "table_inv (fst (push_scope st))"
    using len by (simp add: push table_inv_def)
  show "env_of (fst (push_scope st)) = Map.empty # env_of st"
    using old by (simp add: push env_of_def nth_append)
  show "snd (push_scope st) = length ?scopes" by (simp add: push)
  show "table_room st \<le> Suc (table_room (fst (push_scope st)))" by (simp add: push table_room_def)
qed

lemma pop_scope_inv:
  assumes inv: "table_inv st" and more: "1 < length (env_of st)"
  shows "table_inv (pop_scope st)" "env_of (pop_scope st) = tl (env_of st)" "table_room (pop_scope st) = table_room st"
proof -
  obtain stack s where stack: "st_stack st = stack @ [s]"
    using table_invD(1) [OF inv] by (metis rev_exhaust)
  with more have ne: "stack \<noteq> []" by (auto simp: env_of_def)
  have pop: "pop_scope st = st\<lparr>st_stack := stack\<rparr>" using stack ne by (simp add: pop_scope_def)
  show "table_inv (pop_scope st)"
    using inv stack ne by (simp add: pop table_inv_def stack_linked_snoc)
  show "env_of (pop_scope st) = tl (env_of st)" by (simp add: pop env_of_def stack)
  show "table_room (pop_scope st) = table_room st" by (simp add: pop table_room_def)
qed

section \<open>Inserting\<close>

lemma stack_below_last:
  "stack_linked scopes (stack @ [s]) \<Longrightarrow> parents_ok scopes \<Longrightarrow> length scopes \<le> kNoScope \<Longrightarrow> t \<in> set stack \<Longrightarrow> t < s"
proof (induction stack arbitrary: s t rule: rev_induct)
  case (snoc u stack)
  have link: "stack_linked scopes (stack @ [u])" and p: "sc_parent (scopes ! s) = u" "s < length scopes"
    using snoc.prems(1) stack_linked_snoc [of "stack @ [u]" scopes s] by simp_all
  then have u: "u < length scopes" by (simp add: stack_linked_def)
  have "s \<noteq> 0" using snoc.prems(2,3) p u by (auto simp: parents_ok_def)
  with snoc.prems(2) p have "u < s" by (auto simp: parents_ok_def)
  with snoc.IH [OF link] snoc.prems show ?case by fastforce
qed simp

lemma add_symbol_simps:
  assumes "length (st_symbols st) < kNoScope"
  shows "st_symbols (fst (add_symbol owner d outer st)) = st_symbols st @ [make_symbol d owner]"
    "st_stack (fst (add_symbol owner d outer st)) = st_stack st"
    "length (st_scopes (fst (add_symbol owner d outer st))) = length (st_scopes st)"
    "ir_symbol_id (snd (add_symbol owner d outer st)) = length (st_symbols st)"
    "ir_ok (snd (add_symbol owner d outer st))" "\<not> ir_is_duplicate (snd (add_symbol owner d outer st))"
    "ir_is_shadowing (snd (add_symbol owner d outer st)) = (outer \<noteq> None)"
    "ir_is_shadowing (snd (add_symbol owner d outer st)) \<Longrightarrow>
       outer = Some (ir_shadowed_symbol_id (snd (add_symbol owner d outer st)))"
  using assms by (auto simp: add_symbol_def Let_def split: option.splits)

lemma add_symbol_scopes:
  assumes "length (st_symbols st) < kNoScope" "sc_table (st_scopes st ! owner) (de_name d) = None"
  shows "st_scopes (fst (add_symbol owner d outer st)) =
    (st_scopes st)[owner := (st_scopes st ! owner)\<lparr>sc_table :=
       (sc_table (st_scopes st ! owner))(de_name d \<mapsto> length (st_symbols st))\<rparr>]"
  using assms by (simp add: add_symbol_def Let_def)

lemma add_symbol_inv:
  assumes inv: "table_inv st" and room: "0 < table_room st" and owner: "owner < length (st_scopes st)"
    and new: "sc_table (st_scopes st ! owner) (de_name d) = None"
  shows "table_inv (fst (add_symbol owner d outer st))"
    "table_room st \<le> Suc (table_room (fst (add_symbol owner d outer st)))"
proof -
  let ?st = "fst (add_symbol owner d outer st)" and ?n = "length (st_symbols st)"
  note I = table_invD [OF inv]
  have len: "?n < kNoScope" "length (st_scopes st) \<le> kNoScope"
    using room inv by (auto simp: table_room_def table_inv_def)
  note S = add_symbol_simps [OF len(1), of owner d outer] and scopes = add_symbol_scopes [where outer = outer, OF len(1) new]
  have par: "sc_parent (st_scopes ?st ! s) = sc_parent (st_scopes st ! s)" if "s < length (st_scopes st)" for s
    using that owner by (simp add: scopes nth_list_update)
  have tab: "sc_table (st_scopes ?st ! s) = (if s = owner then (sc_table (st_scopes st ! owner))(de_name d \<mapsto> ?n)
      else sc_table (st_scopes st ! s))" if "s < length (st_scopes st)" for s
    using that owner by (simp add: scopes nth_list_update)
  have "stack_linked (st_scopes ?st) (st_stack ?st)"
    unfolding S(2) using I(4) stack_linked_cong [OF S(3) par] by blast
  moreover have "parents_ok (st_scopes ?st)"
  proof -
    have "st_scopes ?st \<noteq> []" "0 < length (st_scopes st)" using I(5) S(3) by (auto simp: parents_ok_def)
    with I(5) par show ?thesis unfolding parents_ok_def S(3) by simp
  qed
  moreover have "entries_ok (st_scopes ?st) (st_symbols ?st)"
    unfolding entries_ok_def S(1,3)
  proof (intro conjI allI impI)
    fix s n v assume s: "s < length (st_scopes st)" and v: "sc_table (st_scopes ?st ! s) n = Some v"
    let ?syms = "st_symbols st @ [make_symbol d owner]"
    have "(s = owner \<and> n = de_name d \<and> v = ?n) \<or> sc_table (st_scopes st ! s) n = Some v"
      using s v by (auto simp: tab split: if_splits)
    then have "v < length ?syms \<and> sy_name (?syms ! v) = n \<and> sy_owner_scope (?syms ! v) = s"
    proof
      assume "sc_table (st_scopes st ! s) n = Some v"
      with I(6) s have "v < ?n \<and> sy_name (st_symbols st ! v) = n \<and> sy_owner_scope (st_symbols st ! v) = s"
        unfolding entries_ok_def by blast
      then show ?thesis by (simp add: nth_append)
    qed (simp add: make_symbol_def)
    then show "v < length ?syms" "sy_name (?syms ! v) = n" "sy_owner_scope (?syms ! v) = s" by blast+
  next
    fix v assume v: "v < length (st_symbols st @ [make_symbol d owner])"
    let ?sym = "(st_symbols st @ [make_symbol d owner]) ! v"
    have "sy_owner_scope ?sym < length (st_scopes st)
        \<and> sc_table (st_scopes ?st ! sy_owner_scope ?sym) (sy_name ?sym) = Some v"
    proof (cases "v = ?n")
      case True
      then show ?thesis using owner by (simp add: make_symbol_def tab)
    next
      case False
      with v have "v < ?n" by simp
      then have old: "sy_owner_scope (st_symbols st ! v) < length (st_scopes st)"
        "sc_table (st_scopes st ! sy_owner_scope (st_symbols st ! v)) (sy_name (st_symbols st ! v)) = Some v"
        using I(6) unfolding entries_ok_def by blast+
      have "\<not> (sy_owner_scope (st_symbols st ! v) = owner \<and> sy_name (st_symbols st ! v) = de_name d)"
        using old(2) new by (metis option.distinct(1))
      then have "sc_table (st_scopes ?st ! sy_owner_scope (st_symbols st ! v)) (sy_name (st_symbols st ! v)) = Some v"
        using old by (cases "sy_owner_scope (st_symbols st ! v) = owner") (simp_all add: tab)
      moreover have "?sym = st_symbols st ! v" using \<open>v < ?n\<close> by (simp add: nth_append)
      ultimately show ?thesis using old(1) by (simp only: simp_thms)
    qed
    then show "sy_owner_scope ?sym < length (st_scopes st)"
      "sc_table (st_scopes ?st ! sy_owner_scope ?sym) (sy_name ?sym) = Some v" by blast+
  qed
  ultimately show "table_inv ?st" using len by (simp add: table_inv_def S(1-3))
  show "table_room st \<le> Suc (table_room ?st)" using len by (simp add: table_room_def S(1-3))
qed

lemma add_symbol_env:
  assumes inv: "table_inv st" and room: "0 < table_room st"
    and new: "sc_table (st_scopes st ! current_scope st) (de_name d) = None"
  shows "env_of (fst (add_symbol (current_scope st) d outer st)) =
    (hd (env_of st))(de_name d \<mapsto> length (st_symbols st)) # tl (env_of st)"
proof -
  let ?st = "fst (add_symbol (current_scope st) d outer st)"
  note I = table_invD [OF inv]
  have len: "length (st_symbols st) < kNoScope" "length (st_scopes st) \<le> kNoScope"
    using room inv by (auto simp: table_room_def table_inv_def)
  obtain stack s where stack: "st_stack st = stack @ [s]" using I(1) by (metis rev_exhaust)
  then have s: "current_scope st = s" "s < length (st_scopes st)" using I(2,3) by simp_all
  have "s \<notin> set stack"
    using stack_below_last [of "st_scopes st" stack s s] I(4,5) stack len(2) by auto
  then have "sc_table (st_scopes ?st ! u) = sc_table (st_scopes st ! u)" if "u \<in> set stack" for u
    using that new s by (cases "u = s") (simp_all add: add_symbol_scopes [OF len(1)])
  then have "map (\<lambda>u. sc_table (st_scopes ?st ! u)) (rev stack) = map (\<lambda>u. sc_table (st_scopes st ! u)) (rev stack)"
    by simp
  then show ?thesis
    using new s by (simp add: env_of_def add_symbol_simps(2) [OF len(1)] stack add_symbol_scopes [OF len(1)])
qed

section \<open>The interface of nested environments\<close>

text \<open>What a client of the table relies on: \<open>abs\<close> is the list of open environments, innermost
  first; \<open>bind\<close> declares in the innermost unless the name is there already.\<close>

definition bind_env :: "string \<Rightarrow> nat \<Rightarrow> (string \<rightharpoonup> nat) list \<Rightarrow> (string \<rightharpoonup> nat) list" where
  "bind_env n v env = (if hd env n = None then (hd env)(n \<mapsto> v) # tl env else env)"

datatype 'd scope_op = OpPush | OpPop | OpBind 'd

text \<open>\<open>closes d ops\<close>: starting inside \<open>d\<close> open blocks, \<open>ops\<close> ends exactly where the outermost
  of them closes.\<close>

fun closes :: "nat \<Rightarrow> 'd scope_op list \<Rightarrow> bool" where
  "closes 0 ops = (ops = [])"
| "closes (Suc d) [] = False"
| "closes (Suc d) (OpPush # ops) = closes (Suc (Suc d)) ops"
| "closes (Suc d) (OpPop # ops) = closes d ops"
| "closes (Suc d) (OpBind x # ops) = closes (Suc d) ops"

locale scoped_names =
  fixes inv :: "'s \<Rightarrow> bool" and room :: "'s \<Rightarrow> nat"
    and push :: "'s \<Rightarrow> 's" and pop :: "'s \<Rightarrow> 's" and bind :: "'d \<Rightarrow> 's \<Rightarrow> 's"
    and look :: "'s \<Rightarrow> string \<Rightarrow> nat option"
    and abs :: "'s \<Rightarrow> (string \<rightharpoonup> nat) list" and name :: "'d \<Rightarrow> string" and fresh :: "'s \<Rightarrow> nat"
  assumes nonempty: "inv s \<Longrightarrow> abs s \<noteq> []"
    and push: "inv s \<Longrightarrow> 0 < room s \<Longrightarrow>
      inv (push s) \<and> abs (push s) = Map.empty # abs s \<and> room s \<le> Suc (room (push s))"
    and pop: "inv s \<Longrightarrow> 1 < length (abs s) \<Longrightarrow> inv (pop s) \<and> abs (pop s) = tl (abs s) \<and> room (pop s) = room s"
    and bind: "inv s \<Longrightarrow> 0 < room s \<Longrightarrow>
      inv (bind d s) \<and> abs (bind d s) = bind_env (name d) (fresh s) (abs s) \<and> room s \<le> Suc (room (bind d s))"
    and look: "inv s \<Longrightarrow> look s n = env_lookup (abs s) n"
begin

definition apply_op :: "'d scope_op \<Rightarrow> 's \<Rightarrow> 's" where
  "apply_op x s = (case x of OpPush \<Rightarrow> push s | OpPop \<Rightarrow> pop s | OpBind d \<Rightarrow> bind d s)"

text \<open>Whatever a block does inside, it leaves the environments below as they were.\<close>

lemma run_closes:
  assumes "inv s" "abs s = xs @ ys" "ys \<noteq> []" "closes (length xs) ops" "length ops \<le> room s"
  shows "inv (fold apply_op ops s) \<and> abs (fold apply_op ops s) = ys"
  using assms
proof (induction ops arbitrary: s xs)
  case Nil
  then show ?case by (cases xs) simp_all
next
  case (Cons x ops)
  obtain t ts where xs: "xs = t # ts" using Cons.prems(4) by (cases xs) auto
  have room: "0 < room s" using Cons.prems(5) by simp
  show ?case
  proof (cases x)
    case OpPush
    with push [OF Cons.prems(1) room] Cons.prems xs Cons.IH [of "push s" "Map.empty # xs"] show ?thesis
      by (simp add: apply_op_def)
  next
    case OpPop
    have "1 < length (abs s)" using Cons.prems(2,3) xs by (cases ys) simp_all
    from OpPop pop [OF Cons.prems(1) this] Cons.prems xs Cons.IH [of "pop s" ts] show ?thesis
      by (simp add: apply_op_def)
  next
    case (OpBind d)
    have "abs (bind d s) = (if t (name d) = None then t(name d \<mapsto> fresh s) else t) # ts @ ys"
      using bind [OF Cons.prems(1) room, of d] Cons.prems(2) xs by (simp add: bind_env_def)
    with OpBind bind [OF Cons.prems(1) room, of d] Cons.prems xs
      Cons.IH [of "bind d s" "(if t (name d) = None then t(name d \<mapsto> fresh s) else t) # ts"]
    show ?thesis by (simp add: apply_op_def)
  qed
qed

lemma block_restores:
  assumes "inv s" "closes 1 ops" "length ops < room s"
  shows "inv (fold apply_op (OpPush # ops) s) \<and> abs (fold apply_op (OpPush # ops) s) = abs s
    \<and> look (fold apply_op (OpPush # ops) s) n = look s n"
proof -
  have p: "inv (push s)" "abs (push s) = [Map.empty] @ abs s" "length ops \<le> room (push s)"
    using push [OF assms(1)] assms(3) by auto
  from run_closes [OF p(1,2) nonempty [OF assms(1)] _ p(3)] assms(2)
  have "inv (fold apply_op ops (push s)) \<and> abs (fold apply_op ops (push s)) = abs s" by simp
  then show ?thesis using look assms(1) by (simp add: apply_op_def)
qed

end

definition push_op :: "symbol_table \<Rightarrow> symbol_table" where
  "push_op st = fst (push_scope st)"

definition bind_op :: "decl_args \<Rightarrow> symbol_table \<Rightarrow> symbol_table" where
  "bind_op d st = fst (insert_symbol st d)"

definition next_id :: "symbol_table \<Rightarrow> nat" where
  "next_id st = length (st_symbols st)"

lemma insert_symbol_inv:
  assumes inv: "table_inv st" and room: "0 < table_room st"
  shows "table_inv (fst (insert_symbol st d))"
    "env_of (fst (insert_symbol st d)) = bind_env (de_name d) (next_id st) (env_of st)"
    "table_room st \<le> Suc (table_room (fst (insert_symbol st d)))"
proof -
  note I = table_invD [OF inv]
  have cur: "lookup_in_current st (de_name d) = sc_table (st_scopes st ! current_scope st) (de_name d)"
    by (simp add: lookup_in_current_def)
  show "table_inv (fst (insert_symbol st d))" "table_room st \<le> Suc (table_room (fst (insert_symbol st d)))"
    using inv add_symbol_inv [OF inv room I(3)] cur by (auto simp: insert_symbol_def split: option.split)
  show "env_of (fst (insert_symbol st d)) = bind_env (de_name d) (next_id st) (env_of st)"
    using add_symbol_env [OF inv room] lookup_in_current_env [OF inv, of "de_name d"] cur
    by (auto simp: insert_symbol_def bind_env_def next_id_def split: option.split)
qed

interpretation names: scoped_names table_inv table_room push_op pop_scope bind_op lookup env_of de_name next_id
proof
  fix st assume "table_inv st"
  then show "env_of st \<noteq> []" using table_invD(1) by (simp add: env_of_def)
next
  fix st assume "table_inv st" "0 < table_room st"
  then show "table_inv (push_op st) \<and> env_of (push_op st) = Map.empty # env_of st
      \<and> table_room st \<le> Suc (table_room (push_op st))"
    using push_scope_inv by (simp add: push_op_def)
next
  fix st assume "table_inv st" "1 < length (env_of st)"
  then show "table_inv (pop_scope st) \<and> env_of (pop_scope st) = tl (env_of st) \<and> table_room (pop_scope st) = table_room st"
    using pop_scope_inv by simp
next
  fix st d assume "table_inv st" "0 < table_room st"
  then show "table_inv (bind_op d st) \<and> env_of (bind_op d st) = bind_env (de_name d) (next_id st) (env_of st)
      \<and> table_room st \<le> Suc (table_room (bind_op d st))"
    using insert_symbol_inv by (simp add: bind_op_def)
next
  fix st n assume "table_inv st"
  then show "lookup st n = env_lookup (env_of st) n" by (rule lookup_env)
qed

section \<open>Reachable tables\<close>

inductive table_reachable :: "symbol_table \<Rightarrow> bool" where
  reach_new: "table_reachable new_table"
| reach_push: "table_reachable st \<Longrightarrow> 0 < table_room st \<Longrightarrow> table_reachable (fst (push_scope st))"
| reach_pop: "table_reachable st \<Longrightarrow> table_reachable (pop_scope st)"
| reach_insert: "table_reachable st \<Longrightarrow> 0 < table_room st \<Longrightarrow> table_reachable (fst (insert_symbol st d))"
| reach_insert_into: "table_reachable st \<Longrightarrow> 0 < table_room st \<Longrightarrow> table_reachable (fst (insert_into_scope st sid d))"
| reach_update: "table_reachable st \<Longrightarrow> table_reachable (fst (update_declared_type st v ty))"

lemma update_declared_type_inv:
  assumes "table_inv st"
  shows "table_inv (fst (update_declared_type st v ty))"
proof (cases "v < length (st_symbols st)")
  case True
  let ?syms = "(st_symbols st)[v := (st_symbols st ! v)\<lparr>sy_declared_type := ty\<rparr>]"
  have "sy_name (?syms ! w) = sy_name (st_symbols st ! w) \<and> sy_owner_scope (?syms ! w) = sy_owner_scope (st_symbols st ! w)"
    if "w < length (st_symbols st)" for w
    using that True by (simp add: nth_list_update)
  then have "entries_ok (st_scopes st) ?syms"
    using table_invD(6) [OF assms] unfolding entries_ok_def by simp
  with True assms show ?thesis by (simp add: update_declared_type_def table_inv_def)
next
  case False
  with assms show ?thesis by (simp add: update_declared_type_def)
qed

lemma table_reachable_inv: "table_reachable st \<Longrightarrow> table_inv st"
proof (induction rule: table_reachable.induct)
  case reach_new
  show ?case
    by (simp add: new_table_def table_inv_def stack_linked_def parents_ok_def entries_ok_def)
next
  case (reach_pop st)
  then show ?case
    using pop_scope_inv(1) [of st] by (cases "1 < length (env_of st)") (simp_all add: pop_scope_def env_of_def)
next
  case (reach_insert_into st sid d)
  then show ?case
    using add_symbol_inv(1) [of st sid d] by (auto simp: insert_into_scope_def not_le split: option.split)
qed (simp_all add: push_scope_inv insert_symbol_inv update_declared_type_inv)

section \<open>Properties\<close>

text \<open>C33: in every table reached by the operations, with room left at each insertion, each symbol is
  what its own scope finds under its name, and what a scope finds is a symbol of that scope with
  that name.\<close>

theorem symbols_found_in_their_scope:
  assumes "table_reachable st"
  shows "(\<forall>v < length (st_symbols st).
      lookup_in_scope st (sy_owner_scope (st_symbols st ! v)) (sy_name (st_symbols st ! v)) = Some v)
    \<and> (\<forall>s n v. lookup_in_scope st s n = Some v \<longrightarrow>
         v < length (st_symbols st) \<and> sy_name (st_symbols st ! v) = n \<and> sy_owner_scope (st_symbols st ! v) = s)"
  using table_invD(6) [OF table_reachable_inv [OF assms]]
  by (auto simp: lookup_in_scope_def entries_ok_def not_le split: if_splits)

definition ex_decl :: "string \<Rightarrow> nat \<Rightarrow> decl_args" where
  "ex_decl n ty = \<lparr>de_kind = SymVar, de_name = n, de_declared_type = ty,
     de_decl_span = \<lparr>sp_file_id = 0, sp_lo = 0, sp_hi = 1\<rparr>, de_decl_file_id = 0, de_decl_bundle_name = [],
     de_is_export = False, de_is_external = False, de_decl_module_head = [], de_decl_source_dir_norm = [],
     de_link_name = [], de_external_payload = []\<rparr>"

text \<open>An outer name, shadowed in a block that is still open.\<close>

definition ex_table :: symbol_table where
  "ex_table = fst (insert_symbol (fst (push_scope (fst (insert_symbol new_table (ex_decl ''x'' 3))))) (ex_decl ''x'' 5))"

lemma ex_table_reachable: "table_reachable ex_table"
proof -
  have "0 < table_room new_table" "0 < table_room (fst (insert_symbol new_table (ex_decl ''x'' 3)))"
    "0 < table_room (fst (push_scope (fst (insert_symbol new_table (ex_decl ''x'' 3)))))" by code_simp+
  then show ?thesis unfolding ex_table_def by (intro reach_insert reach_push reach_new)
qed

lemma ex_table_room: "100 < table_room ex_table"
  by code_simp

lemma symbols_found_in_their_scope_witness:
  "length (st_symbols ex_table) = 2 \<and> lookup_in_scope ex_table 1 ''x'' = Some 1 \<and> lookup_in_scope ex_table 0 ''x'' = Some 0"
proof -
  have "length (st_symbols ex_table) = 2" "sy_owner_scope (st_symbols ex_table ! 1) = 1"
    "sy_name (st_symbols ex_table ! 1) = ''x''" "sy_owner_scope (st_symbols ex_table ! 0) = 0"
    "sy_name (st_symbols ex_table ! 0) = ''x''" by code_simp+
  moreover from this symbols_found_in_their_scope [OF ex_table_reachable]
  have "lookup_in_scope ex_table 1 ''x'' = Some 1" "lookup_in_scope ex_table 0 ''x'' = Some 0"
    by (metis one_less_numeral_iff semiring_norm(76), metis zero_less_numeral)
  ultimately show ?thesis by blast
qed

text \<open>C34: an insertion is refused exactly when the current scope has the name, with the id it has;
  otherwise the new symbol is what the name means from then on, all other names keep their
  meaning, and a shadowing is reported exactly when the name had an outer meaning, which it gives.\<close>

theorem insert_symbol_meaning:
  assumes "table_inv st" "0 < table_room st" "insert_symbol st d = (st', r)"
  shows "(ir_is_duplicate r \<longleftrightarrow> lookup_in_current st (de_name d) \<noteq> None)
    \<and> (ir_is_duplicate r \<longrightarrow> st' = st \<and> \<not> ir_ok r \<and> lookup st (de_name d) = Some (ir_symbol_id r))
    \<and> (\<not> ir_is_duplicate r \<longrightarrow>
         ir_ok r \<and> st_symbols st' = st_symbols st @ [make_symbol d (current_scope st)]
         \<and> ir_symbol_id r = length (st_symbols st)
         \<and> (\<forall>n. lookup st' n = (if n = de_name d then Some (ir_symbol_id r) else lookup st n))
         \<and> (ir_is_shadowing r \<longleftrightarrow> lookup st (de_name d) \<noteq> None)
         \<and> (ir_is_shadowing r \<longrightarrow> lookup st (de_name d) = Some (ir_shadowed_symbol_id r)))"
proof (cases "lookup_in_current st (de_name d)")
  case (Some v)
  obtain t ts where env: "env_of st = t # ts" using names.nonempty [OF assms(1)] by (cases "env_of st") auto
  have "lookup st (de_name d) = Some v"
    using Some lookup_in_current_env [OF assms(1), of "de_name d"] lookup_env [OF assms(1), of "de_name d"] env
    by simp
  with Some assms(3) show ?thesis
    by (auto simp: insert_symbol_def duplicate_result_def no_result_def)
next
  case None
  have len: "length (st_symbols st) < kNoScope" using assms(2) by (auto simp: table_room_def)
  note S = add_symbol_simps [OF len, of "current_scope st" d "lookup st (de_name d)"]
  have res: "st' = fst (add_symbol (current_scope st) d (lookup st (de_name d)) st)"
    "r = snd (add_symbol (current_scope st) d (lookup st (de_name d)) st)"
    using None assms(3) by (simp_all add: insert_symbol_def)
  obtain t ts where env: "env_of st = t # ts" using names.nonempty [OF assms(1)] by (cases "env_of st") auto
  have tn: "t (de_name d) = None"
    using None lookup_in_current_env [OF assms(1), of "de_name d"] env by simp
  have inv': "table_inv st'" and env': "env_of st' = t(de_name d \<mapsto> length (st_symbols st)) # ts"
    using insert_symbol_inv(1,2) [OF assms(1,2), of d] assms(3) env tn
    by (simp_all add: bind_env_def next_id_def)
  note S = S [folded res]
  have "\<forall>n. lookup st' n = (if n = de_name d then Some (ir_symbol_id r) else lookup st n)"
    by (simp add: S(4) lookup_env [OF inv'] lookup_env [OF assms(1)] env env')
  with S None show ?thesis by blast
qed

lemma insert_symbol_meaning_witness:
  "case insert_symbol (push_op ex_table) (ex_decl ''x'' 7) of (st', r) \<Rightarrow>
     ir_is_shadowing r \<and> ir_shadowed_symbol_id r = 1 \<and> ir_symbol_id r = 2 \<and> lookup st' ''x'' = Some 2"
proof -
  let ?st = "push_op ex_table"
  have inv: "table_inv ?st"
    using names.push [OF table_reachable_inv [OF ex_table_reachable]] ex_table_room by simp
  obtain st' r where i: "insert_symbol ?st (ex_decl ''x'' 7) = (st', r)" by fastforce
  have c: "0 < table_room ?st" "lookup_in_current ?st (de_name (ex_decl ''x'' 7)) = None"
    "lookup ?st (de_name (ex_decl ''x'' 7)) = Some 1" "length (st_symbols ?st) = 2" "de_name (ex_decl ''x'' 7) = ''x''"
    by code_simp+
  note m = insert_symbol_meaning [OF inv c(1) i, unfolded c(4,5) c(2,3) [unfolded c(5)]]
  then have "\<not> ir_is_duplicate r" by simp
  with m have "ir_is_shadowing r" "ir_shadowed_symbol_id r = 1" "ir_symbol_id r = 2" "lookup st' ''x'' = Some 2"
    by auto
  then show ?thesis unfolding i by simp
qed

fun table_op :: "decl_args scope_op \<Rightarrow> symbol_table \<Rightarrow> symbol_table" where
  "table_op OpPush st = fst (push_scope st)"
| "table_op OpPop st = pop_scope st"
| "table_op (OpBind d) st = fst (insert_symbol st d)"

lemma apply_op_table: "names.apply_op = table_op"
proof (intro ext)
  fix x st show "names.apply_op x st = table_op x st"
    by (cases x) (simp_all add: names.apply_op_def push_op_def bind_op_def)
qed

text \<open>C35: a block of declarations and nested blocks leaves no trace in the meaning of names: after it
  closes, every name means what it meant before.\<close>

theorem block_leaves_no_trace:
  assumes "table_reachable st" "closes 1 ops" "length ops < table_room st"
  shows "lookup (fold table_op (OpPush # ops) st) n = lookup st n
    \<and> table_inv (fold table_op (OpPush # ops) st)"
  using names.block_restores [OF table_reachable_inv [OF assms(1)] assms(2,3)] unfolding apply_op_table by blast

lemma block_leaves_no_trace_witness:
  "lookup (fold table_op [OpPush, OpBind (ex_decl ''x'' 9), OpPush, OpBind (ex_decl ''y'' 9), OpPop, OpPop] ex_table) ''x''
   = Some 1"
proof -
  have "closes 1 [OpBind (ex_decl ''x'' 9), OpPush, OpBind (ex_decl ''y'' 9), OpPop, OpPop]" by simp
  moreover have "length [OpBind (ex_decl ''x'' 9), OpPush, OpBind (ex_decl ''y'' 9), OpPop, OpPop] < table_room ex_table"
    using ex_table_room by simp
  moreover have "lookup ex_table ''x'' = Some 1" by code_simp
  ultimately show ?thesis using block_leaves_no_trace [OF ex_table_reachable] by metis
qed

text \<open>Inserting into the current scope by its id is inserting: same table, same answer.\<close>

lemma insert_into_current_scope:
  assumes "table_inv st"
  shows "insert_into_scope st (current_scope st) d = insert_symbol st d"
proof (cases "lookup_in_current st (de_name d)")
  case None
  note I = table_invD [OF assms]
  let ?s = "current_scope st" and ?n = "length (st_scopes st)"
  obtain k where k: "?n = Suc k" using I(3) by (cases ?n) auto
  have len: "?n \<le> kNoScope" using assms by (simp add: table_inv_def)
  have none: "sc_table (st_scopes st ! ?s) (de_name d) = None" using None by (simp add: lookup_in_current_def)
  have "lookup_from ?n (st_scopes st) (sc_parent (st_scopes st ! ?s)) (de_name d)
      = lookup_from k (st_scopes st) (sc_parent (st_scopes st ! ?s)) (de_name d)"
  proof (cases "?s = 0")
    case True
    with I(5) have "sc_parent (st_scopes st ! ?s) = kNoScope" by (simp add: parents_ok_def)
    then show ?thesis by (cases k) (simp_all add: k)
  next
    case False
    with I(3,5) have "sc_parent (st_scopes st ! ?s) < ?s" by (simp add: parents_ok_def)
    with I(3) k show ?thesis by (intro lookup_from_enough [OF I(5) _ len]) simp_all
  qed
  moreover have "lookup st (de_name d) = lookup_from k (st_scopes st) (sc_parent (st_scopes st ! ?s)) (de_name d)"
    using none I(3) len by (simp add: lookup_def k)
  ultimately show ?thesis using None none I(3) by (simp add: insert_into_scope_def insert_symbol_def)
next
  case (Some v)
  with table_invD(3) [OF assms] show ?thesis
    by (simp add: insert_into_scope_def insert_symbol_def lookup_in_current_def)
qed

end
