(* ===== verification/Type_Pool.thy ===== *)
theory Type_Pool
  imports Prelude
begin

text \<open>
  The type pool (\<open>frontend/include/parus/ty/Type.hpp\<close>, \<open>TypePool.hpp\<close>): types are indices
  into one vector, their variable parts slices of side vectors, and every constructor searches for
  an equal type before it appends one. A pair of a pointer and a count is a list; a null pointer
  for labels or defaults is \<open>None\<close>. Counts and sizes are cast to 32 bits with \<open>u32\<close>.
\<close>

section \<open>Builtin types\<close>

datatype builtin =
    BNull | BUnit | BNever | BBool | BChar | BText | BI8 | BI16 | BI32 | BI64 | BI128 | BU8 | BU16
     | BU32 | BU64 | BU128 | BISize | BUSize | BF32 | BF64 | BF128 | BCVoid | BCChar | BCSChar
     | BCUChar | BCShort | BCUShort | BCInt | BCUInt | BCLong | BCULong | BCLongLong | BCULongLong
     | BCFloat | BCDouble | BCSize | BCSSize | BCPtrDiff | BVaList | BInferInteger

text \<open>The enumeration in order.\<close>

definition all_builtins :: "builtin list" where
  "all_builtins =
    [BNull, BUnit, BNever, BBool, BChar, BText, BI8, BI16, BI32, BI64, BI128, BU8, BU16, BU32, BU64
     , BU128, BISize, BUSize, BF32, BF64, BF128, BCVoid, BCChar, BCSChar, BCUChar, BCShort, BCUShort
     , BCInt, BCUInt, BCLong, BCULong, BCLongLong, BCULongLong, BCFloat, BCDouble, BCSize, BCSSize
     , BCPtrDiff, BVaList, BInferInteger]"

fun builtin_name :: "builtin \<Rightarrow> string" where
  "builtin_name BNull = ''null''"
| "builtin_name BUnit = ''void''"
| "builtin_name BNever = ''never''"
| "builtin_name BBool = ''bool''"
| "builtin_name BChar = ''char''"
| "builtin_name BText = ''text''"
| "builtin_name BI8 = ''i8''"
| "builtin_name BI16 = ''i16''"
| "builtin_name BI32 = ''i32''"
| "builtin_name BI64 = ''i64''"
| "builtin_name BI128 = ''i128''"
| "builtin_name BU8 = ''u8''"
| "builtin_name BU16 = ''u16''"
| "builtin_name BU32 = ''u32''"
| "builtin_name BU64 = ''u64''"
| "builtin_name BU128 = ''u128''"
| "builtin_name BISize = ''isize''"
| "builtin_name BUSize = ''usize''"
| "builtin_name BF32 = ''f32''"
| "builtin_name BF64 = ''f64''"
| "builtin_name BF128 = ''f128''"
| "builtin_name BCVoid = ''c_void''"
| "builtin_name BCChar = ''c_char''"
| "builtin_name BCSChar = ''c_schar''"
| "builtin_name BCUChar = ''c_uchar''"
| "builtin_name BCShort = ''c_short''"
| "builtin_name BCUShort = ''c_ushort''"
| "builtin_name BCInt = ''c_int''"
| "builtin_name BCUInt = ''c_uint''"
| "builtin_name BCLong = ''c_long''"
| "builtin_name BCULong = ''c_ulong''"
| "builtin_name BCLongLong = ''c_longlong''"
| "builtin_name BCULongLong = ''c_ulonglong''"
| "builtin_name BCFloat = ''c_float''"
| "builtin_name BCDouble = ''c_double''"
| "builtin_name BCSize = ''c_size''"
| "builtin_name BCSSize = ''c_ssize''"
| "builtin_name BCPtrDiff = ''c_ptrdiff''"
| "builtin_name BVaList = ''vaList''"
| "builtin_name BInferInteger = ''unsuffixed integer literal''"

text \<open>The chains of comparisons of \<open>builtin_from_name\<close> and \<open>c_builtin_from_name\<close>.\<close>

definition builtin_names :: "(string \<times> builtin) list" where
  "builtin_names =
    [(''null'', BNull), (''void'', BUnit), (''never'', BNever), (''bool'', BBool), (''char'', BChar)
     , (''text'', BText), (''i8'', BI8), (''i16'', BI16), (''i32'', BI32), (''i64'', BI64)
     , (''i128'', BI128), (''u8'', BU8), (''u16'', BU16), (''u32'', BU32), (''u64'', BU64)
     , (''u128'', BU128), (''isize'', BISize), (''usize'', BUSize), (''f32'', BF32), (''f64'', BF64)
     , (''f128'', BF128)]"

definition c_builtin_names :: "(string \<times> builtin) list" where
  "c_builtin_names =
    [(''c_void'', BCVoid), (''c_char'', BCChar), (''c_schar'', BCSChar), (''c_uchar'', BCUChar)
     , (''c_short'', BCShort), (''c_ushort'', BCUShort), (''c_int'', BCInt), (''c_uint'', BCUInt)
     , (''c_long'', BCLong), (''c_ulong'', BCULong), (''c_longlong'', BCLongLong)
     , (''c_ulonglong'', BCULongLong), (''c_float'', BCFloat), (''c_double'', BCDouble)
     , (''c_size'', BCSize), (''c_ssize'', BCSSize), (''c_ptrdiff'', BCPtrDiff)
     , (''vaList'', BVaList)]"

definition builtin_from_name :: "string \<Rightarrow> builtin option" where
  "builtin_from_name name = map_of builtin_names name"

definition c_builtin_from_name :: "string \<Rightarrow> builtin option" where
  "c_builtin_from_name name = map_of c_builtin_names name"

section \<open>Types and the pool\<close>

datatype type_kind =
  KError | KBuiltin | KOptional | KArray | KNamedUser | KBorrow | KEscape | KPtr | KFn

datatype fn_call_conv =
  ConvDefault | ConvCdecl | ConvStdCall | ConvFastCall | ConvVectorCall | ConvWin64 | ConvSysV

record ty =
  ty_kind :: type_kind
  ty_builtin :: builtin
  ty_elem :: nat
  ty_array_has_size :: bool
  ty_array_size :: nat
  ty_path_begin :: nat
  ty_path_count :: nat
  ty_named_arg_begin :: nat
  ty_named_arg_count :: nat
  ty_borrow_is_mut :: bool
  ty_ptr_is_mut :: bool
  ty_ret :: nat
  ty_param_begin :: nat
  ty_param_count :: nat
  ty_positional_param_count :: nat
  ty_label_begin :: nat
  ty_default_begin :: nat
  ty_fn_is_throwing :: bool
  ty_fn_is_c_abi :: bool
  ty_fn_is_c_variadic :: bool
  ty_fn_callconv :: fn_call_conv

abbreviation kInvalidType :: nat where
  "kInvalidType \<equiv> 4294967295"

definition empty_type :: "type_kind \<Rightarrow> ty" where
  "empty_type k =
     \<lparr>ty_kind = k, ty_builtin = BNull, ty_elem = kInvalidType, ty_array_has_size = False,
      ty_array_size = 0, ty_path_begin = 0, ty_path_count = 0, ty_named_arg_begin = 0,
      ty_named_arg_count = 0, ty_borrow_is_mut = False, ty_ptr_is_mut = False, ty_ret = kInvalidType,
      ty_param_begin = 0, ty_param_count = 0, ty_positional_param_count = 0, ty_label_begin = 0,
      ty_default_begin = 0, ty_fn_is_throwing = False, ty_fn_is_c_abi = False,
      ty_fn_is_c_variadic = False, ty_fn_callconv = ConvDefault\<rparr>"

record type_pool =
  tp_error_id :: nat
  tp_types :: "ty list"
  tp_fn_params :: "nat list"
  tp_fn_param_labels :: "string list"
  tp_fn_param_has_default :: "nat list"
  tp_builtin_ids :: "nat list"
  tp_user_path_segs :: "string list"
  tp_named_type_args :: "nat list"

definition new_pool :: type_pool where
  "new_pool =
     \<lparr>tp_error_id = 0,
      tp_types = empty_type KError # map (\<lambda>b. (empty_type KBuiltin)\<lparr>ty_builtin := b\<rparr>) all_builtins,
      tp_fn_params = [], tp_fn_param_labels = [], tp_fn_param_has_default = [],
      tp_builtin_ids = map Suc [0 ..< length all_builtins],
      tp_user_path_segs = [], tp_named_type_args = []\<rparr>"

definition push_type :: "ty \<Rightarrow> type_pool \<Rightarrow> type_pool \<times> nat" where
  "push_type t p = (p\<lparr>tp_types := tp_types p @ [t]\<rparr>, u32 (length (tp_types p)))"

fun index_in_order :: "builtin \<Rightarrow> builtin list \<Rightarrow> nat" where
  "index_in_order b [] = 0"
| "index_in_order b (x # xs) = (if x = b then 0 else Suc (index_in_order b xs))"

text \<open>\<open>builtin_ids_[(int)b]\<close>.\<close>

definition builtin_id :: "type_pool \<Rightarrow> builtin \<Rightarrow> nat" where
  "builtin_id p b = tp_builtin_ids p ! index_in_order b all_builtins"

section \<open>Interning\<close>

text \<open>The linear search of every constructor: the first index whose type matches.\<close>

fun find_type :: "(ty \<Rightarrow> bool) \<Rightarrow> nat \<Rightarrow> ty list \<Rightarrow> nat option" where
  "find_type same i [] = None"
| "find_type same i (t # ts) = (if same t then Some i else find_type same (Suc i) ts)"

definition slice :: "'a list \<Rightarrow> nat \<Rightarrow> nat \<Rightarrow> 'a list" where
  "slice xs b n = map (\<lambda>k. xs ! (b + k)) [0 ..< n]"

definition same_optional :: "nat \<Rightarrow> ty \<Rightarrow> bool" where
  "same_optional elem t = (ty_kind t = KOptional \<and> ty_elem t = elem)"

definition make_optional :: "nat \<Rightarrow> type_pool \<Rightarrow> type_pool \<times> nat" where
  "make_optional elem p =
     (case find_type (same_optional elem) 0 (tp_types p) of
        Some i \<Rightarrow> (p, i)
      | None \<Rightarrow> push_type ((empty_type KOptional)\<lparr>ty_elem := elem\<rparr>) p)"

definition same_array :: "nat \<Rightarrow> bool \<Rightarrow> nat \<Rightarrow> ty \<Rightarrow> bool" where
  "same_array elem has_size sz t =
     (ty_kind t = KArray \<and> ty_elem t = elem \<and> ty_array_has_size t = has_size
      \<and> (has_size \<longrightarrow> ty_array_size t = sz))"

definition make_array :: "nat \<Rightarrow> bool \<Rightarrow> nat \<Rightarrow> type_pool \<Rightarrow> type_pool \<times> nat" where
  "make_array elem has_size sz p =
     (case find_type (same_array elem has_size sz) 0 (tp_types p) of
        Some i \<Rightarrow> (p, i)
      | None \<Rightarrow> push_type ((empty_type KArray)\<lparr>ty_elem := elem, ty_array_has_size := has_size,
                  ty_array_size := sz\<rparr>) p)"

definition same_borrow :: "nat \<Rightarrow> bool \<Rightarrow> ty \<Rightarrow> bool" where
  "same_borrow elem is_mut t = (ty_kind t = KBorrow \<and> ty_elem t = elem \<and> ty_borrow_is_mut t = is_mut)"

definition make_borrow :: "nat \<Rightarrow> bool \<Rightarrow> type_pool \<Rightarrow> type_pool \<times> nat" where
  "make_borrow elem is_mut p =
     (case find_type (same_borrow elem is_mut) 0 (tp_types p) of
        Some i \<Rightarrow> (p, i)
      | None \<Rightarrow> push_type ((empty_type KBorrow)\<lparr>ty_elem := elem, ty_borrow_is_mut := is_mut\<rparr>) p)"

definition same_escape :: "nat \<Rightarrow> ty \<Rightarrow> bool" where
  "same_escape elem t = (ty_kind t = KEscape \<and> ty_elem t = elem)"

definition make_escape :: "nat \<Rightarrow> type_pool \<Rightarrow> type_pool \<times> nat" where
  "make_escape elem p =
     (case find_type (same_escape elem) 0 (tp_types p) of
        Some i \<Rightarrow> (p, i)
      | None \<Rightarrow> push_type ((empty_type KEscape)\<lparr>ty_elem := elem\<rparr>) p)"

definition same_ptr :: "nat \<Rightarrow> bool \<Rightarrow> ty \<Rightarrow> bool" where
  "same_ptr elem is_mut t = (ty_kind t = KPtr \<and> ty_elem t = elem \<and> ty_ptr_is_mut t = is_mut)"

definition make_ptr :: "nat \<Rightarrow> bool \<Rightarrow> type_pool \<Rightarrow> type_pool \<times> nat" where
  "make_ptr elem is_mut p =
     (case find_type (same_ptr elem is_mut) 0 (tp_types p) of
        Some i \<Rightarrow> (p, i)
      | None \<Rightarrow> push_type ((empty_type KPtr)\<lparr>ty_elem := elem, ty_ptr_is_mut := is_mut\<rparr>) p)"

text \<open>A function signature as \<open>make_fn\<close> is given it.\<close>

record fn_sig =
  sg_ret :: nat
  sg_params :: "nat list"
  sg_positional :: nat
  sg_labels :: "string list option"
  sg_has_default :: "nat list option"
  sg_c_abi :: bool
  sg_c_variadic :: bool
  sg_callconv :: fn_call_conv
  sg_throwing :: bool

definition positional_of :: "fn_sig \<Rightarrow> nat" where
  "positional_of s =
     (let n = length (sg_params s); k = (if sg_positional s = 4294967295 then n else sg_positional s)
      in if k > n then n else k)"

definition label_at :: "fn_sig \<Rightarrow> nat \<Rightarrow> string" where
  "label_at s k = (case sg_labels s of Some ls \<Rightarrow> ls ! k | None \<Rightarrow> [])"

definition default_at :: "fn_sig \<Rightarrow> nat \<Rightarrow> nat" where
  "default_at s k = (case sg_has_default s of Some ds \<Rightarrow> ds ! k | None \<Rightarrow> 0)"

definition same_fn :: "type_pool \<Rightarrow> fn_sig \<Rightarrow> ty \<Rightarrow> bool" where
  "same_fn p s t =
     (ty_kind t = KFn \<and> ty_ret t = sg_ret s \<and> ty_param_count t = length (sg_params s)
      \<and> ty_positional_param_count t = positional_of s \<and> ty_fn_is_throwing t = sg_throwing s
      \<and> ty_fn_is_c_abi t = sg_c_abi s \<and> ty_fn_is_c_variadic t = sg_c_variadic s
      \<and> ty_fn_callconv t = sg_callconv s
      \<and> list_all (\<lambda>k. tp_fn_params p ! (ty_param_begin t + k) = sg_params s ! k) [0 ..< length (sg_params s)]
      \<and> list_all (\<lambda>k. tp_fn_param_labels p ! (ty_label_begin t + k) = label_at s k
           \<and> tp_fn_param_has_default p ! (ty_default_begin t + k) = default_at s k)
         [0 ..< length (sg_params s)])"

definition make_fn :: "fn_sig \<Rightarrow> type_pool \<Rightarrow> type_pool \<times> nat" where
  "make_fn s p =
     (case find_type (same_fn p s) 0 (tp_types p) of
        Some i \<Rightarrow> (p, i)
      | None \<Rightarrow>
          push_type ((empty_type KFn)\<lparr>ty_ret := sg_ret s, ty_param_begin := u32 (length (tp_fn_params p)),
              ty_param_count := length (sg_params s), ty_positional_param_count := positional_of s,
              ty_label_begin := u32 (length (tp_fn_param_labels p)),
              ty_default_begin := u32 (length (tp_fn_param_has_default p)),
              ty_fn_is_throwing := sg_throwing s, ty_fn_is_c_abi := sg_c_abi s,
              ty_fn_is_c_variadic := sg_c_variadic s, ty_fn_callconv := sg_callconv s\<rparr>)
            (p\<lparr>tp_fn_params := tp_fn_params p @ sg_params s,
               tp_fn_param_labels := tp_fn_param_labels p @ map (label_at s) [0 ..< length (sg_params s)],
               tp_fn_param_has_default :=
                 tp_fn_param_has_default p @ map (default_at s) [0 ..< length (sg_params s)]\<rparr>))"

definition same_named :: "type_pool \<Rightarrow> string list \<Rightarrow> nat list \<Rightarrow> ty \<Rightarrow> bool" where
  "same_named p segs args t =
     (ty_kind t = KNamedUser \<and> ty_path_count t = length segs \<and> ty_named_arg_count t = length args
      \<and> list_all (\<lambda>k. tp_user_path_segs p ! (ty_path_begin t + k) = segs ! k) [0 ..< length segs]
      \<and> list_all (\<lambda>k. tp_named_type_args p ! (ty_named_arg_begin t + k) = args ! k) [0 ..< length args])"

text \<open>Without segments a new nameless type is pushed every time.\<close>

definition make_named_user_path_with_args :: "string list \<Rightarrow> nat list \<Rightarrow> type_pool \<Rightarrow> type_pool \<times> nat" where
  "make_named_user_path_with_args segs args p =
     (if segs = [] then push_type (empty_type KNamedUser) p
      else (case find_type (same_named p segs args) 0 (tp_types p) of
              Some i \<Rightarrow> (p, i)
            | None \<Rightarrow>
                if length (tp_user_path_segs p) + length segs > 4294967295
                   \<or> length (tp_named_type_args p) + length args > 4294967295
                then (p, tp_error_id p)
                else push_type ((empty_type KNamedUser)\<lparr>ty_path_begin := u32 (length (tp_user_path_segs p)),
                         ty_path_count := length segs, ty_named_arg_begin := u32 (length (tp_named_type_args p)),
                         ty_named_arg_count := length args\<rparr>)
                       (p\<lparr>tp_user_path_segs := tp_user_path_segs p @ segs,
                          tp_named_type_args := tp_named_type_args p @ args\<rparr>)))"

definition make_named_user_path :: "string list \<Rightarrow> type_pool \<Rightarrow> type_pool \<times> nat" where
  "make_named_user_path segs p = make_named_user_path_with_args segs [] p"

definition intern_path :: "string list \<Rightarrow> type_pool \<Rightarrow> type_pool \<times> nat" where
  "intern_path segs p =
     (if length segs = 1
      then (case builtin_from_name (segs ! 0) of
              Some b \<Rightarrow> (p, builtin_id p b)
            | None \<Rightarrow> make_named_user_path segs p)
      else make_named_user_path segs p)"

section \<open>Queries\<close>

definition is_fn :: "type_pool \<Rightarrow> nat \<Rightarrow> bool" where
  "is_fn p i = (i \<noteq> kInvalidType \<and> i < length (tp_types p) \<and> ty_kind (tp_types p ! i) = KFn)"

definition fn_param_at :: "type_pool \<Rightarrow> nat \<Rightarrow> nat \<Rightarrow> nat" where
  "fn_param_at p d i =
     (if \<not> is_fn p d then tp_error_id p
      else if ty_param_count (tp_types p ! d) \<le> i then tp_error_id p
      else tp_fn_params p ! (ty_param_begin (tp_types p ! d) + i))"

definition fn_positional_count :: "type_pool \<Rightarrow> nat \<Rightarrow> nat" where
  "fn_positional_count p d = (if \<not> is_fn p d then 0 else ty_positional_param_count (tp_types p ! d))"

definition fn_param_label_at :: "type_pool \<Rightarrow> nat \<Rightarrow> nat \<Rightarrow> string" where
  "fn_param_label_at p d i =
     (if \<not> is_fn p d then []
      else if ty_param_count (tp_types p ! d) \<le> i then []
      else tp_fn_param_labels p ! (ty_label_begin (tp_types p ! d) + i))"

definition fn_param_has_default_at :: "type_pool \<Rightarrow> nat \<Rightarrow> nat \<Rightarrow> bool" where
  "fn_param_has_default_at p d i =
     (if \<not> is_fn p d then False
      else if ty_param_count (tp_types p ! d) \<le> i then False
      else tp_fn_param_has_default p ! (ty_default_begin (tp_types p ! d) + i) \<noteq> 0)"

definition fn_is_c_abi :: "type_pool \<Rightarrow> nat \<Rightarrow> bool" where
  "fn_is_c_abi p d = (if \<not> is_fn p d then False else ty_fn_is_c_abi (tp_types p ! d))"

definition fn_is_throwing :: "type_pool \<Rightarrow> nat \<Rightarrow> bool" where
  "fn_is_throwing p d = (if \<not> is_fn p d then False else ty_fn_is_throwing (tp_types p ! d))"

definition fn_is_c_variadic :: "type_pool \<Rightarrow> nat \<Rightarrow> bool" where
  "fn_is_c_variadic p d = (if \<not> is_fn p d then False else ty_fn_is_c_variadic (tp_types p ! d))"

definition fn_callconv :: "type_pool \<Rightarrow> nat \<Rightarrow> fn_call_conv" where
  "fn_callconv p d = (if \<not> is_fn p d then ConvDefault else ty_fn_callconv (tp_types p ! d))"

definition decompose_named_user :: "type_pool \<Rightarrow> nat \<Rightarrow> (string list \<times> nat list) option" where
  "decompose_named_user p i =
     (if i = kInvalidType \<or> length (tp_types p) \<le> i then None
      else
        let t = tp_types p ! i in
        if ty_kind t \<noteq> KNamedUser then None
        else if ty_path_count t = 0 then None
        else Some (slice (tp_user_path_segs p) (ty_path_begin t) (ty_path_count t),
                   slice (tp_named_type_args p) (ty_named_arg_begin t) (ty_named_arg_count t)))"

section \<open>What a type is\<close>

datatype type_view =
    VError
  | VBuiltin builtin
  | VOptional nat
  | VArray nat "nat option"
  | VNamed "string list" "nat list"
  | VBorrow nat bool
  | VEscape nat
  | VPtr nat bool
  | VFn nat "nat list" nat "string list" "nat list" bool bool bool fn_call_conv

definition view_of :: "type_pool \<Rightarrow> ty \<Rightarrow> type_view" where
  "view_of p t =
     (case ty_kind t of
        KError \<Rightarrow> VError
      | KBuiltin \<Rightarrow> VBuiltin (ty_builtin t)
      | KOptional \<Rightarrow> VOptional (ty_elem t)
      | KArray \<Rightarrow> VArray (ty_elem t) (if ty_array_has_size t then Some (ty_array_size t) else None)
      | KNamedUser \<Rightarrow> VNamed (slice (tp_user_path_segs p) (ty_path_begin t) (ty_path_count t))
                       (slice (tp_named_type_args p) (ty_named_arg_begin t) (ty_named_arg_count t))
      | KBorrow \<Rightarrow> VBorrow (ty_elem t) (ty_borrow_is_mut t)
      | KEscape \<Rightarrow> VEscape (ty_elem t)
      | KPtr \<Rightarrow> VPtr (ty_elem t) (ty_ptr_is_mut t)
      | KFn \<Rightarrow> VFn (ty_ret t) (slice (tp_fn_params p) (ty_param_begin t) (ty_param_count t))
                 (ty_positional_param_count t)
                 (slice (tp_fn_param_labels p) (ty_label_begin t) (ty_param_count t))
                 (slice (tp_fn_param_has_default p) (ty_default_begin t) (ty_param_count t))
                 (ty_fn_is_throwing t) (ty_fn_is_c_abi t) (ty_fn_is_c_variadic t) (ty_fn_callconv t))"

definition pool_view :: "type_pool \<Rightarrow> nat \<Rightarrow> type_view option" where
  "pool_view p i = (if i < length (tp_types p) then Some (view_of p (tp_types p ! i)) else None)"

text \<open>The slices of a type lie inside the side vectors.\<close>

definition slices_ok :: "type_pool \<Rightarrow> ty \<Rightarrow> bool" where
  "slices_ok p t \<longleftrightarrow>
     (ty_kind t = KNamedUser \<longrightarrow>
        ty_path_begin t + ty_path_count t \<le> length (tp_user_path_segs p)
        \<and> ty_named_arg_begin t + ty_named_arg_count t \<le> length (tp_named_type_args p))
     \<and> (ty_kind t = KFn \<longrightarrow>
        ty_param_begin t + ty_param_count t \<le> length (tp_fn_params p)
        \<and> ty_label_begin t + ty_param_count t \<le> length (tp_fn_param_labels p)
        \<and> ty_default_begin t + ty_param_count t \<le> length (tp_fn_param_has_default p))"

definition pool_sizes :: "type_pool \<Rightarrow> nat" where
  "pool_sizes p =
     Max {length (tp_types p), length (tp_fn_params p), length (tp_fn_param_labels p),
          length (tp_fn_param_has_default p), length (tp_user_path_segs p), length (tp_named_type_args p)}"

definition nameless :: type_view where
  "nameless = VNamed [] []"

definition pool_inv :: "type_pool \<Rightarrow> bool" where
  "pool_inv p \<longleftrightarrow>
     (\<forall>t \<in> set (tp_types p). slices_ok p t)
     \<and> (\<forall>i j. pool_view p i = pool_view p j \<longrightarrow> pool_view p i \<noteq> None \<longrightarrow> pool_view p i \<noteq> Some nameless \<longrightarrow> i = j)
     \<and> pool_sizes p \<le> kInvalidType"

definition pool_room :: "type_pool \<Rightarrow> nat" where
  "pool_room p = kInvalidType - pool_sizes p"

lemma pool_sizes_le:
  "pool_sizes p \<le> n \<longleftrightarrow> length (tp_types p) \<le> n \<and> length (tp_fn_params p) \<le> n
     \<and> length (tp_fn_param_labels p) \<le> n \<and> length (tp_fn_param_has_default p) \<le> n
     \<and> length (tp_user_path_segs p) \<le> n \<and> length (tp_named_type_args p) \<le> n"
  by (simp add: pool_sizes_def)

lemma find_type_Some:
  "find_type same k ts = Some i \<Longrightarrow> k \<le> i \<and> i < k + length ts \<and> same (ts ! (i - k))"
proof (induction same k ts rule: find_type.induct)
  case (2 same k t ts)
  show ?case
  proof (cases "same t")
    case True
    then show ?thesis using 2 by auto
  next
    case False
    then have "Suc k \<le> i \<and> i < Suc k + length ts \<and> same (ts ! (i - Suc k))" using 2 by auto
    moreover from this have "i - k = Suc (i - Suc k)" by linarith
    ultimately show ?thesis by simp
  qed
qed simp

lemma find_type_None: "find_type same k ts = None \<longleftrightarrow> (\<forall>t \<in> set ts. \<not> same t)"
  by (induction same k ts rule: find_type.induct) auto

lemma slice_eq_iff: "slice xs b n = ys \<longleftrightarrow> length ys = n \<and> (\<forall>k < n. xs ! (b + k) = ys ! k)"
  by (auto simp: slice_def list_eq_iff_nth_eq)

lemma slice_append: "b + n \<le> length xs \<Longrightarrow> slice (xs @ ys) b n = slice xs b n"
  by (simp add: slice_def nth_append)

lemma slice_end: "n = length ys \<Longrightarrow> slice (xs @ ys) (length xs) n = ys"
  by (simp add: slice_eq_iff)

text \<open>The growth of the pool: types and side vectors are appended to.\<close>

definition pool_extends :: "type_pool \<Rightarrow> type_pool \<Rightarrow> bool" where
  "pool_extends p p' \<longleftrightarrow>
     (\<exists>a b c d e. tp_fn_params p' = tp_fn_params p @ a \<and> tp_fn_param_labels p' = tp_fn_param_labels p @ b
       \<and> tp_fn_param_has_default p' = tp_fn_param_has_default p @ c
       \<and> tp_user_path_segs p' = tp_user_path_segs p @ d \<and> tp_named_type_args p' = tp_named_type_args p @ e)"

lemma view_extends:
  assumes "pool_extends p p'" "slices_ok p t"
  shows "view_of p' t = view_of p t" "slices_ok p' t"
  using assms by (cases "ty_kind t"; auto simp: pool_extends_def view_of_def slices_ok_def slice_append)+

lemma intern_push:
  assumes inv: "pool_inv p" and ext: "pool_extends p p'" and types: "tp_types p' = tp_types p"
    and new: "\<forall>t \<in> set (tp_types p). view_of p t \<noteq> v \<or> v = nameless"
    and t: "slices_ok p' t" "view_of p' t = v"
    and room: "length (tp_types p) < kInvalidType" "pool_sizes p' \<le> kInvalidType"
  defines "p2 \<equiv> p'\<lparr>tp_types := tp_types p @ [t]\<rparr>"
  shows "push_type t p' = (p2, length (tp_types p))" "pool_inv p2" "pool_view p2 (length (tp_types p)) = Some v"
    "\<forall>j u. pool_view p j = Some u \<longrightarrow> pool_view p2 j = Some u"
proof -
  have view2: "view_of p2 u = view_of p' u" "slices_ok p2 u = slices_ok p' u" for u
    by (simp_all add: p2_def view_of_def slices_ok_def split: type_kind.split)
  have old: "slices_ok p u" if "u \<in> set (tp_types p)" for u using inv that by (simp add: pool_inv_def)
  have tys: "tp_types p2 = tp_types p @ [t]" by (simp add: p2_def)
  have pv: "pool_view p2 j = (if j = length (tp_types p) then Some v else pool_view p j)" for j
    using t(2) view_extends(1) [OF ext old [OF nth_mem]]
    unfolding pool_view_def view2 tys by (auto simp: nth_append less_Suc_eq)
  show "push_type t p' = (p2, length (tp_types p))" using room types by (simp add: push_type_def p2_def)
  show "pool_view p2 (length (tp_types p)) = Some v" by (simp add: pv)
  show "\<forall>j u. pool_view p j = Some u \<longrightarrow> pool_view p2 j = Some u"
    unfolding pv by (auto simp: pool_view_def)
  have "pool_view p j \<noteq> Some v" if "v \<noteq> nameless" for j
    using new that by (auto simp: pool_view_def)
  then have "\<forall>i j. pool_view p2 i = pool_view p2 j \<longrightarrow> pool_view p2 i \<noteq> None \<longrightarrow> pool_view p2 i \<noteq> Some nameless \<longrightarrow> i = j"
    using inv unfolding pool_inv_def pv by (smt (verit) option.inject)
  moreover have "\<forall>u \<in> set (tp_types p2). slices_ok p2 u"
    using old view_extends(2) [OF ext] t(1) by (auto simp: p2_def view2 [unfolded p2_def])
  moreover have "pool_sizes p2 \<le> kInvalidType"
    using room by (simp add: p2_def pool_sizes_le)
  ultimately show "pool_inv p2" by (simp add: pool_inv_def)
qed


text \<open>One request: \<open>interned p n v r\<close> says that \<open>r\<close> is a pool and the id of the view \<open>v\<close> in
  it, that \<open>p\<close>'s types are kept and nothing but \<open>v\<close> is new, and that at most \<open>n\<close> places are used.\<close>

definition interned :: "type_pool \<Rightarrow> nat \<Rightarrow> type_view \<Rightarrow> type_pool \<times> nat \<Rightarrow> bool" where
  "interned p n v r \<longleftrightarrow>
     pool_inv (fst r) \<and> pool_view (fst r) (snd r) = Some v
     \<and> (\<forall>j u. pool_view p j = Some u \<longrightarrow> pool_view (fst r) j = Some u)
     \<and> (\<forall>j u. pool_view (fst r) j = Some u \<longrightarrow> pool_view p j = Some u \<or> u = v)
     \<and> (fst r = p \<or> pool_sizes (fst r) \<le> pool_sizes p + n)"

lemma find_or_push:
  assumes inv: "pool_inv p" and same: "\<forall>t \<in> set (tp_types p). same t \<longleftrightarrow> view_of p t = v" and v: "v \<noteq> nameless"
    and ext: "pool_extends p p'" and types: "tp_types p' = tp_types p"
    and t: "slices_ok p' t" "view_of p' t = v"
    and room: "0 < n" "pool_sizes p + n \<le> kInvalidType" "pool_sizes p' \<le> pool_sizes p + n"
  shows "interned p n v (case find_type same 0 (tp_types p) of Some i \<Rightarrow> (p, i) | None \<Rightarrow> push_type t p')"
proof (cases "find_type same 0 (tp_types p)")
  case (Some i)
  from find_type_Some [OF this] have "i < length (tp_types p)" "same (tp_types p ! i)" by auto
  with same have "pool_view p i = Some v" by (simp add: pool_view_def)
  with Some inv show ?thesis by (simp add: interned_def)
next
  case None
  then have "\<forall>t \<in> set (tp_types p). view_of p t \<noteq> v \<or> v = nameless"
    using same by (simp add: find_type_None)
  moreover have "length (tp_types p) < kInvalidType" "length (tp_types p) \<le> pool_sizes p"
    using room pool_sizes_le [of p "pool_sizes p"] by auto
  ultimately have push: "push_type t p' = (p'\<lparr>tp_types := tp_types p @ [t]\<rparr>, length (tp_types p))"
      "pool_inv (p'\<lparr>tp_types := tp_types p @ [t]\<rparr>)"
      "pool_view (p'\<lparr>tp_types := tp_types p @ [t]\<rparr>) (length (tp_types p)) = Some v"
      "\<forall>j u. pool_view p j = Some u \<longrightarrow> pool_view (p'\<lparr>tp_types := tp_types p @ [t]\<rparr>) j = Some u"
    using intern_push [OF inv ext types _ t] room by auto
  have "pool_sizes (p'\<lparr>tp_types := tp_types p @ [t]\<rparr>) \<le> pool_sizes p + n"
    using room \<open>length (tp_types p) \<le> pool_sizes p\<close> by (simp add: pool_sizes_le)
  moreover have "pool_view p j = Some u \<or> u = v"
    if "pool_view (p'\<lparr>tp_types := tp_types p @ [t]\<rparr>) j = Some u" for j u
  proof (cases "j = length (tp_types p)")
    case True
    then show ?thesis using that push(3) by simp
  next
    case False
    then have j: "j < length (tp_types p)" using that by (simp add: pool_view_def split: if_splits)
    then have "pool_view p j = Some (view_of p (tp_types p ! j))" by (simp add: pool_view_def)
    moreover from this push(4) that have "u = view_of p (tp_types p ! j)" by (metis option.inject)
    ultimately show ?thesis by simp
  qed
  ultimately show ?thesis using None push by (simp add: interned_def)
qed

section \<open>Requests\<close>

text \<open>The calls of the constructors, and the type each of them asks for.\<close>

datatype type_req =
    ReqOptional nat
  | ReqArray nat bool nat
  | ReqBorrow nat bool
  | ReqEscape nat
  | ReqPtr nat bool
  | ReqFn fn_sig
  | ReqNamed "string list" "nat list"

fun make_type :: "type_req \<Rightarrow> type_pool \<Rightarrow> type_pool \<times> nat" where
  "make_type (ReqOptional e) p = make_optional e p"
| "make_type (ReqArray e h n) p = make_array e h n p"
| "make_type (ReqBorrow e m) p = make_borrow e m p"
| "make_type (ReqEscape e) p = make_escape e p"
| "make_type (ReqPtr e m) p = make_ptr e m p"
| "make_type (ReqFn s) p = make_fn s p"
| "make_type (ReqNamed segs args) p = make_named_user_path_with_args segs args p"

fun described :: "type_req \<Rightarrow> type_view" where
  "described (ReqOptional e) = VOptional e"
| "described (ReqArray e h n) = VArray e (if h then Some n else None)"
| "described (ReqBorrow e m) = VBorrow e m"
| "described (ReqEscape e) = VEscape e"
| "described (ReqPtr e m) = VPtr e m"
| "described (ReqFn s) =
     VFn (sg_ret s) (sg_params s) (positional_of s) (map (label_at s) [0 ..< length (sg_params s)])
       (map (default_at s) [0 ..< length (sg_params s)]) (sg_throwing s) (sg_c_abi s)
       (sg_c_variadic s) (sg_callconv s)"
| "described (ReqNamed segs args) = VNamed segs args"

fun accepted :: "type_req \<Rightarrow> bool" where
  "accepted (ReqNamed segs args) = (segs \<noteq> [])"
| "accepted r = True"

fun places :: "type_req \<Rightarrow> nat" where
  "places (ReqFn s) = Suc (length (sg_params s))"
| "places (ReqNamed segs args) = Suc (length segs + length args)"
| "places r = 1"

lemma slice_map_upt: "slice xs b n = map f [0 ..< n] \<longleftrightarrow> (\<forall>k < n. xs ! (b + k) = f k)"
  by (auto simp: slice_def)

lemma same_views:
  "same_optional e t \<longleftrightarrow> view_of p t = VOptional e"
  "same_array e h n t \<longleftrightarrow> view_of p t = VArray e (if h then Some n else None)"
  "same_borrow e m t \<longleftrightarrow> view_of p t = VBorrow e m"
  "same_escape e t \<longleftrightarrow> view_of p t = VEscape e"
  "same_ptr e m t \<longleftrightarrow> view_of p t = VPtr e m"
  by (auto simp: same_optional_def same_array_def same_borrow_def same_escape_def same_ptr_def view_of_def
      split: type_kind.split)

lemma same_named_view: "same_named p segs args t \<longleftrightarrow> view_of p t = VNamed segs args"
  by (auto simp: same_named_def view_of_def slice_eq_iff list_all_iff split: type_kind.split)

lemma same_fn_view: "same_fn p s t \<longleftrightarrow> view_of p t = described (ReqFn s)"
  by (cases "ty_kind t") (auto simp: same_fn_def view_of_def slice_map_upt slice_eq_iff [of _ _ _ "sg_params s"] list_all_iff)

lemma pool_extends_refl [simp]: "pool_extends p p"
  by (simp add: pool_extends_def)

lemma make_type_interned:
  assumes inv: "pool_inv p" and ok: "accepted r" and room: "places r \<le> pool_room p"
  shows "interned p (places r) (described r) (make_type r p)"
proof -
  have room': "pool_sizes p + places r \<le> kInvalidType"
    using room inv by (cases r) (auto simp: pool_room_def pool_inv_def)
  note lens = pool_sizes_le [of p "pool_sizes p", simplified]
  show ?thesis
  proof (cases r)
    case (ReqFn s)
    show ?thesis
      unfolding ReqFn make_type.simps make_fn_def
      by (rule find_or_push [OF inv])
        (use room' lens in \<open>auto simp: ReqFn same_fn_view nameless_def pool_extends_def slices_ok_def
          view_of_def empty_type_def slice_end pool_sizes_le u32_small\<close>)
  next
    case (ReqNamed segs args)
    then have "segs \<noteq> []" using ok by simp
    then have "make_type r p =
        (case find_type (same_named p segs args) 0 (tp_types p) of Some i \<Rightarrow> (p, i)
         | None \<Rightarrow> push_type ((empty_type KNamedUser)\<lparr>ty_path_begin := length (tp_user_path_segs p),
             ty_path_count := length segs, ty_named_arg_begin := length (tp_named_type_args p),
             ty_named_arg_count := length args\<rparr>)
             (p\<lparr>tp_user_path_segs := tp_user_path_segs p @ segs,
                tp_named_type_args := tp_named_type_args p @ args\<rparr>))"
      using room' lens by (simp add: ReqNamed make_named_user_path_with_args_def cong: option.case_cong)
    then show ?thesis
      by (simp only:, intro find_or_push [OF inv])
        (use room' lens \<open>segs \<noteq> []\<close> in \<open>auto simp: ReqNamed same_named_view nameless_def pool_extends_def
          slices_ok_def view_of_def empty_type_def slice_end pool_sizes_le\<close>)
  qed (use room' in \<open>simp_all only: make_type.simps make_optional_def make_array_def make_borrow_def
      make_escape_def make_ptr_def described.simps places.simps\<close>,
      (rule find_or_push [OF inv _ _ pool_extends_refl refl];
        simp add: same_views [where p = p] nameless_def slices_ok_def view_of_def empty_type_def)+)
qed

section \<open>What an interner promises\<close>

text \<open>A row of requests, one after the other.\<close>

fun make_all :: "('r \<Rightarrow> 'p \<Rightarrow> 'p \<times> nat) \<Rightarrow> 'r list \<Rightarrow> 'p \<Rightarrow> 'p \<times> nat list" where
  "make_all mk [] p = (p, [])"
| "make_all mk (r # rs) p =
     (let (p', i) = mk r p; (p'', ids) = make_all mk rs p' in (p'', i # ids))"

locale interner =
  fixes mk :: "'r \<Rightarrow> 'p \<Rightarrow> 'p \<times> nat"
    and sound :: "'p \<Rightarrow> bool"
    and lookup_id :: "'p \<Rightarrow> nat \<Rightarrow> 'v option"
    and asked :: "'r \<Rightarrow> 'v"
    and ok :: "'r \<Rightarrow> bool"
    and cost :: "'r \<Rightarrow> nat"
    and room :: "'p \<Rightarrow> nat"
  assumes make_sound: "sound p \<Longrightarrow> ok r \<Longrightarrow> cost r \<le> room p \<Longrightarrow> sound (fst (mk r p))"
    and make_id: "sound p \<Longrightarrow> ok r \<Longrightarrow> cost r \<le> room p \<Longrightarrow> lookup_id (fst (mk r p)) (snd (mk r p)) = Some (asked r)"
    and make_keeps: "sound p \<Longrightarrow> ok r \<Longrightarrow> cost r \<le> room p \<Longrightarrow> lookup_id p j = Some u \<Longrightarrow> lookup_id (fst (mk r p)) j = Some u"
    and make_room: "sound p \<Longrightarrow> ok r \<Longrightarrow> cost r \<le> room p \<Longrightarrow> room p \<le> room (fst (mk r p)) + cost r"
    and one_id: "sound p \<Longrightarrow> ok r \<Longrightarrow> lookup_id p i = Some (asked r) \<Longrightarrow> lookup_id p j = Some (asked r) \<Longrightarrow> i = j"
begin

lemma make_all_views:
  assumes "sound p" "list_all ok rs" "sum_list (map cost rs) \<le> room p" "make_all mk rs p = (p', ids)"
  shows "sound p' \<and> length ids = length rs \<and> (\<forall>k < length rs. lookup_id p' (ids ! k) = Some (asked (rs ! k)))
    \<and> (\<forall>j u. lookup_id p j = Some u \<longrightarrow> lookup_id p' j = Some u)"
  using assms
proof (induction rs arbitrary: p ids)
  case (Cons r rs)
  obtain p1 i where r: "mk r p = (p1, i)" by force
  obtain ids' where rs: "make_all mk rs p1 = (p', ids')" "ids = i # ids'"
    using Cons.prems(4) by (auto simp: r split: prod.splits)
  have pre: "sound p" "ok r" "cost r \<le> room p" using Cons.prems by auto
  have "room p \<le> room p1 + cost r" using make_room [OF pre] r by simp
  then have "sum_list (map cost rs) \<le> room p1" using Cons.prems(3) by simp
  with Cons.IH [OF _ _ _ rs(1)] Cons.prems(2) make_sound [OF pre] r
  have IH: "sound p' \<and> length ids' = length rs \<and> (\<forall>k < length rs. lookup_id p' (ids' ! k) = Some (asked (rs ! k)))
      \<and> (\<forall>j u. lookup_id p1 j = Some u \<longrightarrow> lookup_id p' j = Some u)"
    by simp
  moreover have "lookup_id p1 i = Some (asked r)" using make_id [OF pre] r by simp
  ultimately show ?case
    using make_keeps [OF pre] r rs(2) by (auto simp: nth_Cons split: nat.split)
qed simp

lemma same_id_iff:
  assumes "sound p" "list_all ok rs" "sum_list (map cost rs) \<le> room p" "make_all mk rs p = (p', ids)"
    "a < length rs" "b < length rs"
  shows "ids ! a = ids ! b \<longleftrightarrow> asked (rs ! a) = asked (rs ! b)"
  using make_all_views [OF assms(1-4)] one_id [of p' "rs ! a" "ids ! a" "ids ! b"] assms(2,5,6)
  unfolding list_all_length by (metis option.inject)

end

lemma described_nameless: "accepted r \<Longrightarrow> described r \<noteq> nameless"
  by (cases r) (simp_all add: nameless_def)

interpretation pool: interner make_type pool_inv pool_view described accepted places pool_room
proof unfold_locales
  fix p :: type_pool and r j u
  assume pre: "pool_inv p" "accepted r" "places r \<le> pool_room p"
  note made = make_type_interned [OF pre, unfolded interned_def]
  show "pool_inv (fst (make_type r p))" "pool_view (fst (make_type r p)) (snd (make_type r p)) = Some (described r)"
    "pool_view p j = Some u \<Longrightarrow> pool_view (fst (make_type r p)) j = Some u"
    using made by auto
  show "pool_room p \<le> pool_room (fst (make_type r p)) + places r"
    using made by (auto simp: pool_room_def)
next
  fix p :: type_pool and r i j
  assume "pool_inv p" "accepted r" "pool_view p i = Some (described r)" "pool_view p j = Some (described r)"
  then show "i = j" using described_nameless unfolding pool_inv_def by (metis option.distinct(1) option.inject)
qed

section \<open>The fresh pool\<close>

lemma new_pool_view:
  "pool_view new_pool i =
     (if i = 0 then Some VError else if i \<le> 40 then Some (VBuiltin (all_builtins ! (i - 1))) else None)"
proof (cases i)
  case (Suc k)
  have "length all_builtins = 40" by (simp add: all_builtins_def)
  then show ?thesis using Suc by (auto simp: pool_view_def new_pool_def view_of_def empty_type_def)
qed (simp add: pool_view_def new_pool_def view_of_def empty_type_def)

lemma new_pool_inv: "pool_inv new_pool"
proof -
  have dist: "distinct all_builtins" "length all_builtins = 40" by (simp_all add: all_builtins_def)
  have "i = j" if "pool_view new_pool i = pool_view new_pool j" "pool_view new_pool i \<noteq> None" for i j
    using that dist by (auto simp: new_pool_view nth_eq_iff_index_eq split: if_splits)
  moreover have "\<forall>t \<in> set (tp_types new_pool). slices_ok new_pool t"
    by (auto simp: new_pool_def slices_ok_def empty_type_def)
  moreover have "pool_sizes new_pool \<le> kInvalidType"
    by (simp add: pool_sizes_le) (simp add: new_pool_def dist)
  ultimately show ?thesis by (simp add: pool_inv_def)
qed

lemma builtin_id_new: "pool_view new_pool (builtin_id new_pool b) = Some (VBuiltin b)"
  by (cases b) (simp_all add: builtin_id_def new_pool_def pool_view_def all_builtins_def view_of_def empty_type_def)

lemma builtin_tables:
  "list_all (\<lambda>(n, b). builtin_name b = n) builtin_names" "list_all (\<lambda>(n, b). builtin_name b = n) c_builtin_names"
  by (simp_all add: builtin_names_def c_builtin_names_def)

lemma builtin_from_name_sound:
  "builtin_from_name name = Some b \<Longrightarrow> builtin_name b = name"
  "c_builtin_from_name name = Some b \<Longrightarrow> builtin_name b = name"
  using builtin_tables by (auto simp: builtin_from_name_def c_builtin_from_name_def list_all_iff dest!: map_of_SomeD)

lemma make_type_builtin_ids [simp]: "tp_builtin_ids (fst (make_type r p)) = tp_builtin_ids p"
  by (cases r)
    (simp_all add: make_optional_def make_array_def make_borrow_def make_escape_def make_ptr_def make_fn_def
      make_named_user_path_with_args_def push_type_def split: option.split)

lemma make_all_builtin_ids: "make_all make_type rs p = (p', ids) \<Longrightarrow> tp_builtin_ids p' = tp_builtin_ids p"
proof (induction rs arbitrary: p ids)
  case (Cons r rs)
  obtain p1 i where r: "make_type r p = (p1, i)" by force
  with make_type_builtin_ids [of r p] have "tp_builtin_ids p1 = tp_builtin_ids p" by simp
  with Cons r show ?case by (auto split: prod.splits)
qed simp

section \<open>Properties\<close>


text \<open>Two spellings of an unsized array, and an optional.\<close>

definition example_reqs :: "type_req list" where
  "example_reqs = [ReqArray 9 False 3, ReqOptional 9, ReqArray 9 False 5]"

lemma example_reqs_run:
  "make_all make_type example_reqs new_pool = (fst (make_all make_type example_reqs new_pool), [41, 42, 41])"
  by code_simp

lemma example_reqs_room: "sum_list (map places example_reqs) \<le> pool_room new_pool"
  by (simp add: pool_room_def example_reqs_def pool_sizes_def) (simp add: new_pool_def all_builtins_def)


text \<open>
  A builtin type is found by its name for as long as the pool lives: after any row of
  requests to a fresh pool, interning the path that consists of one builtin name adds nothing and
  gives the id of that builtin, and its printed name is the name it was found by.
\<close>

theorem builtin_names_resolve:
  assumes "builtin_from_name name = Some b" "list_all accepted rs" "sum_list (map places rs) \<le> pool_room new_pool"
    "make_all make_type rs new_pool = (p, ids)"
  shows "fst (intern_path [name] p) = p \<and> pool_view p (snd (intern_path [name] p)) = Some (VBuiltin b)
    \<and> builtin_name b = name"
proof -
  have "builtin_id p b = builtin_id new_pool b"
    using make_all_builtin_ids [OF assms(4)] by (simp add: builtin_id_def)
  with pool.make_all_views [OF new_pool_inv assms(2-4)] builtin_id_new [of b]
  have "pool_view p (builtin_id p b) = Some (VBuiltin b)" by simp
  then show ?thesis using assms(1) by (simp add: intern_path_def builtin_from_name_sound(1))
qed

theorem builtin_names_resolve_witness:
  "pool_view (fst (make_all make_type example_reqs new_pool))
     (snd (intern_path [''i32''] (fst (make_all make_type example_reqs new_pool)))) = Some (VBuiltin BI32)"
  using builtin_names_resolve [of "''i32''" BI32, OF _ _ example_reqs_room example_reqs_run]
  by (simp add: example_reqs_def builtin_from_name_def builtin_names_def)

end
