(* ===== verification/Type_Render.thy ===== *)
theory Type_Render
  imports Type_Pool
begin

text \<open>
  The printed forms of types (\<open>frontend/include/parus/ty/TypePool.hpp\<close>): \<open>to_string\<close> for
  messages and \<open>to_export_string\<close> for the export index and symbol names. The recursion of the
  source follows element ids; here it takes fuel, and in a pool whose types refer to earlier types
  only, one more than the id is enough.
\<close>

section \<open>Rendering\<close>

fun join :: "string \<Rightarrow> string list \<Rightarrow> string" where
  "join sep [] = []"
| "join sep [s] = s"
| "join sep (s # t # ss) = s @ sep @ join sep (t # ss)"

text \<open>\<open>ek\<close>: the kind of an element.\<close>

definition elem_kind :: "type_pool \<Rightarrow> nat \<Rightarrow> type_kind" where
  "elem_kind p e = (if e < length (tp_types p) then ty_kind (tp_types p ! e) else KError)"

definition needs_parens_for_suffix :: "type_kind \<Rightarrow> bool" where
  "needs_parens_for_suffix k = (k = KFn)"

definition needs_parens_for_prefix :: "type_kind \<Rightarrow> bool" where
  "needs_parens_for_prefix k = (k = KFn)"

definition parens :: "bool \<Rightarrow> string \<Rightarrow> string" where
  "parens b s = (if b then ''('' @ s @ '')'' else s)"

definition unsized_array :: "type_pool \<Rightarrow> nat \<Rightarrow> bool" where
  "unsized_array p e = (elem_kind p e = KArray \<and> \<not> ty_array_has_size (tp_types p ! e))"

text \<open>The text around an element, the same in both renderings.\<close>

definition around_optional :: "type_kind \<Rightarrow> string \<Rightarrow> string" where
  "around_optional ek s = parens (needs_parens_for_suffix ek) s @ ''?''"

definition around_array :: "ty \<Rightarrow> type_kind \<Rightarrow> string \<Rightarrow> string" where
  "around_array t ek s =
     parens (needs_parens_for_suffix ek \<or> ek = KOptional) s
     @ (if ty_array_has_size t then ''['' @ dec (ty_array_size t) @ '']'' else ''[]'')"

definition borrow_mark :: "ty \<Rightarrow> string" where
  "borrow_mark t = (if ty_borrow_is_mut t then ''&mut '' else ''&'')"

definition ptr_mark :: "ty \<Rightarrow> string" where
  "ptr_mark t = (if ty_ptr_is_mut t then ''*mut '' else ''*const '')"

definition around_prefix :: "string \<Rightarrow> type_kind \<Rightarrow> string \<Rightarrow> string" where
  "around_prefix mark ek s = mark @ parens (needs_parens_for_prefix ek) s"

definition around_slice :: "ty \<Rightarrow> string \<Rightarrow> string" where
  "around_slice t s = borrow_mark t @ ''['' @ s @ '']''"

definition named_text :: "type_pool \<Rightarrow> ty \<Rightarrow> string list \<Rightarrow> string" where
  "named_text p t args =
     join ''::'' (slice (tp_user_path_segs p) (ty_path_begin t) (ty_path_count t))
     @ (if ty_named_arg_count t > 0 then ''<'' @ join '','' args @ ''>'' else [])"

definition fn_args :: "type_pool \<Rightarrow> ty \<Rightarrow> nat list" where
  "fn_args p t = slice (tp_fn_params p) (ty_param_begin t) (ty_param_count t)"

definition named_args :: "type_pool \<Rightarrow> ty \<Rightarrow> nat list" where
  "named_args p t = slice (tp_named_type_args p) (ty_named_arg_begin t) (ty_named_arg_count t)"

definition fn_export_text :: "string list \<Rightarrow> string \<Rightarrow> string" where
  "fn_export_text params ret = ''def('' @ join '', '' params @ '') -> '' @ ret"

text \<open>Parameter \<open>i\<close> of a function type with its label and default marker; the first parameter
  that is not positional opens a brace.\<close>

definition fn_param_text :: "type_pool \<Rightarrow> ty \<Rightarrow> nat \<Rightarrow> string \<Rightarrow> string" where
  "fn_param_text p t i s =
     (let lab = tp_fn_param_labels p ! (ty_label_begin t + i) in
      (if i = ty_positional_param_count t then ''{'' else [])
      @ (if lab \<noteq> [] then lab @ '': '' else [])
      @ s @ (if tp_fn_param_has_default p ! (ty_default_begin t + i) \<noteq> 0 then ''=?'' else []))"

definition fn_text :: "type_pool \<Rightarrow> ty \<Rightarrow> string list \<Rightarrow> string \<Rightarrow> string" where
  "fn_text p t params ret =
     ''def('' @ join '', '' (map2 (fn_param_text p t) [0 ..< length params] params)
     @ (if ty_param_count t > ty_positional_param_count t then ''}'' else [])
     @ '') -> '' @ ret"

definition opt_map2 :: "('a \<Rightarrow> 'b \<Rightarrow> 'c) \<Rightarrow> 'a option \<Rightarrow> 'b option \<Rightarrow> 'c option" where
  "opt_map2 f x y = (case x of None \<Rightarrow> None | Some a \<Rightarrow> map_option (f a) y)"

fun render_export :: "nat \<Rightarrow> type_pool \<Rightarrow> nat \<Rightarrow> string option" where
  "render_export 0 p i = None"
| "render_export (Suc n) p i =
     (if i = kInvalidType then Some ''<invalid-type>''
      else if length (tp_types p) \<le> i then Some ''<bad-type-id>''
      else
        let t = tp_types p ! i; e = ty_elem t in
        case ty_kind t of
          KError \<Rightarrow> Some ''<error>''
        | KBuiltin \<Rightarrow> Some (builtin_name (ty_builtin t))
        | KNamedUser \<Rightarrow>
            if ty_path_count t = 0 then Some ''<user-type?>''
            else map_option (named_text p t) (those (map (render_export n p) (named_args p t)))
        | KOptional \<Rightarrow>
            if e = kInvalidType then Some ''<invalid-elem>?''
            else map_option (around_optional (elem_kind p e)) (render_export n p e)
        | KArray \<Rightarrow>
            if e = kInvalidType then Some ''<invalid-elem>[]''
            else map_option (around_array t (elem_kind p e)) (render_export n p e)
        | KBorrow \<Rightarrow>
            if e = kInvalidType then Some (borrow_mark t @ ''<invalid>'')
            else if unsized_array p e
              then map_option (around_slice t) (render_export n p (ty_elem (tp_types p ! e)))
            else map_option (around_prefix (borrow_mark t) (elem_kind p e)) (render_export n p e)
        | KEscape \<Rightarrow>
            if e = kInvalidType then Some ''~<invalid>''
            else map_option (around_prefix ''~'' (elem_kind p e)) (render_export n p e)
        | KPtr \<Rightarrow>
            if e = kInvalidType then Some (ptr_mark t @ ''<invalid>'')
            else map_option (around_prefix (ptr_mark t) (elem_kind p e)) (render_export n p e)
        | KFn \<Rightarrow>
            opt_map2 fn_export_text (those (map (render_export n p) (fn_args p t)))
              (render_export n p (ty_ret t)))"

fun render_text :: "nat \<Rightarrow> type_pool \<Rightarrow> nat \<Rightarrow> string option" where
  "render_text 0 p i = None"
| "render_text (Suc n) p i =
     (if i = kInvalidType then Some ''<invalid-type>''
      else if length (tp_types p) \<le> i then Some ''<bad-type-id>''
      else
        let t = tp_types p ! i; e = ty_elem t in
        case ty_kind t of
          KError \<Rightarrow> Some ''<error>''
        | KBuiltin \<Rightarrow> Some (builtin_name (ty_builtin t))
        | KNamedUser \<Rightarrow>
            if ty_path_count t = 0 then Some ''<user-type?>''
            else map_option (named_text p t) (those (map (render_text n p) (named_args p t)))
        | KOptional \<Rightarrow>
            if e = kInvalidType then Some ''<invalid-elem>?''
            else map_option (around_optional (elem_kind p e)) (render_text n p e)
        | KArray \<Rightarrow>
            if e = kInvalidType then Some ''<invalid-elem>[]''
            else map_option (around_array t (elem_kind p e)) (render_text n p e)
        | KBorrow \<Rightarrow>
            if e = kInvalidType then Some (borrow_mark t @ ''<invalid>'')
            else if unsized_array p e
              then map_option (around_slice t) (render_text n p (ty_elem (tp_types p ! e)))
            else map_option (around_prefix (borrow_mark t) (elem_kind p e)) (render_text n p e)
        | KEscape \<Rightarrow>
            if e = kInvalidType then Some ''~<invalid>''
            else map_option (around_prefix ''~'' (elem_kind p e)) (render_text n p e)
        | KPtr \<Rightarrow>
            if e = kInvalidType then Some (ptr_mark t @ ''<invalid>'')
            else map_option (around_prefix (ptr_mark t) (elem_kind p e)) (render_text n p e)
        | KFn \<Rightarrow>
            opt_map2 (fn_text p t) (those (map (render_text n p) (fn_args p t)))
              (render_text n p (ty_ret t)))"

text \<open>With fuel for every type of the pool.\<close>

definition to_export_string :: "type_pool \<Rightarrow> nat \<Rightarrow> string option" where
  "to_export_string p i = render_export (Suc (length (tp_types p))) p i"

definition to_string :: "type_pool \<Rightarrow> nat \<Rightarrow> string option" where
  "to_string p i = render_text (Suc (length (tp_types p))) p i"

section \<open>Types refer to earlier types\<close>

fun kids :: "type_view \<Rightarrow> nat list" where
  "kids VError = []"
| "kids (VBuiltin b) = []"
| "kids (VOptional e) = [e]"
| "kids (VArray e n) = [e]"
| "kids (VNamed segs args) = args"
| "kids (VBorrow e m) = [e]"
| "kids (VEscape e) = [e]"
| "kids (VPtr e m) = [e]"
| "kids (VFn r ps k ls ds th c v cc) = r # ps"

definition grounded :: "type_pool \<Rightarrow> bool" where
  "grounded p \<longleftrightarrow> (\<forall>i u. pool_view p i = Some u \<longrightarrow> (\<forall>c \<in> set (kids u). c < i \<or> c = kInvalidType))"

definition known_kids :: "type_pool \<Rightarrow> type_req \<Rightarrow> bool" where
  "known_kids p r \<longleftrightarrow> (\<forall>c \<in> set (kids (described r)). c < length (tp_types p) \<or> c = kInvalidType)"

lemma those_total: "(\<And>x. x \<in> set xs \<Longrightarrow> \<exists>y. f x = Some y) \<Longrightarrow> \<exists>ys. those (map f xs) = Some ys"
  by (induction xs) (auto, fastforce)

lemma opt_map2_total: "\<exists>a. x = Some a \<Longrightarrow> \<exists>b. y = Some b \<Longrightarrow> \<exists>c. opt_map2 f x y = Some c"
  by (auto simp: opt_map2_def)

lemma grounded_kids:
  assumes "grounded p" "i < length (tp_types p)"
  defines "t \<equiv> tp_types p ! i"
  shows "ty_kind t \<in> {KOptional, KArray, KBorrow, KEscape, KPtr} \<Longrightarrow> ty_elem t < i \<or> ty_elem t = kInvalidType"
    and "ty_kind t = KNamedUser \<Longrightarrow> \<forall>c \<in> set (named_args p t). c < i \<or> c = kInvalidType"
    and "ty_kind t = KFn \<Longrightarrow> (\<forall>c \<in> set (fn_args p t). c < i \<or> c = kInvalidType) \<and> (ty_ret t < i \<or> ty_ret t = kInvalidType)"
proof -
  have "\<forall>c \<in> set (kids (view_of p t)). c < i \<or> c = kInvalidType"
    using assms by (auto simp: grounded_def pool_view_def)
  then show "ty_kind t \<in> {KOptional, KArray, KBorrow, KEscape, KPtr} \<Longrightarrow> ty_elem t < i \<or> ty_elem t = kInvalidType"
    "ty_kind t = KNamedUser \<Longrightarrow> \<forall>c \<in> set (named_args p t). c < i \<or> c = kInvalidType"
    "ty_kind t = KFn \<Longrightarrow> (\<forall>c \<in> set (fn_args p t). c < i \<or> c = kInvalidType) \<and> (ty_ret t < i \<or> ty_ret t = kInvalidType)"
    by (auto simp: view_of_def named_args_def fn_args_def)
qed

definition enough_fuel :: "type_pool \<Rightarrow> nat \<Rightarrow> nat \<Rightarrow> bool" where
  "enough_fuel p n i \<longleftrightarrow> Suc i < n \<or> (i = kInvalidType \<or> length (tp_types p) \<le> i) \<and> 0 < n"

lemma enough_fuel_kid:
  "enough_fuel p (Suc n) i \<Longrightarrow> i < length (tp_types p) \<Longrightarrow> i \<noteq> kInvalidType \<Longrightarrow> c < i \<or> c = kInvalidType \<Longrightarrow> enough_fuel p n c"
  by (auto simp: enough_fuel_def)

lemma render_kid_cases:
  assumes "grounded p" "enough_fuel p (Suc n) i" "i < length (tp_types p)" "i \<noteq> kInvalidType"
  defines "t \<equiv> tp_types p ! i"
  shows "ty_kind t \<in> {KOptional, KArray, KBorrow, KEscape, KPtr} \<Longrightarrow> enough_fuel p n (ty_elem t)"
    and "ty_kind t = KBorrow \<Longrightarrow> ty_elem t \<noteq> kInvalidType \<Longrightarrow> unsized_array p (ty_elem t) \<Longrightarrow> enough_fuel p n (ty_elem (tp_types p ! ty_elem t))"
    and "ty_kind t = KNamedUser \<Longrightarrow> \<forall>c \<in> set (named_args p t). enough_fuel p n c"
    and "ty_kind t = KFn \<Longrightarrow> (\<forall>c \<in> set (fn_args p t). enough_fuel p n c) \<and> enough_fuel p n (ty_ret t)"
proof -
  note kid = enough_fuel_kid [OF assms(2-4)] and kids = grounded_kids [OF assms(1,3), folded t_def]
  show "ty_kind t \<in> {KOptional, KArray, KBorrow, KEscape, KPtr} \<Longrightarrow> enough_fuel p n (ty_elem t)"
    using kid kids(1) by blast
  show "ty_kind t = KNamedUser \<Longrightarrow> \<forall>c \<in> set (named_args p t). enough_fuel p n c"
    using kid kids(2) by blast
  show "ty_kind t = KFn \<Longrightarrow> (\<forall>c \<in> set (fn_args p t). enough_fuel p n c) \<and> enough_fuel p n (ty_ret t)"
    using kid kids(3) by blast
  assume b: "ty_kind t = KBorrow" "ty_elem t \<noteq> kInvalidType" "unsized_array p (ty_elem t)"
  then have e: "ty_elem t < length (tp_types p)" "ty_kind (tp_types p ! ty_elem t) = KArray" "ty_elem t < i"
    using kids(1) by (auto simp: unsized_array_def elem_kind_def split: if_splits)
  then have "ty_elem (tp_types p ! ty_elem t) < i \<or> ty_elem (tp_types p ! ty_elem t) = kInvalidType"
    using grounded_kids(1) [OF assms(1) e(1)] by auto
  then show "enough_fuel p n (ty_elem (tp_types p ! ty_elem t))" by (rule kid)
qed

lemma render_export_total:
  assumes "grounded p"
  shows "enough_fuel p n i \<Longrightarrow> \<exists>s. render_export n p i = Some s"
proof (induction n arbitrary: i)
  case (Suc n)
  show ?case
  proof (cases "i = kInvalidType \<or> length (tp_types p) \<le> i")
    case False
    then have i: "i < length (tp_types p)" "i \<noteq> kInvalidType" by auto
    note kid = render_kid_cases [OF assms Suc.prems i]
    have "\<exists>s. opt_map2 f (those (map (render_export n p) (fn_args p (tp_types p ! i))))
        (render_export n p (ty_ret (tp_types p ! i))) = Some s" if "ty_kind (tp_types p ! i) = KFn" for f :: "string list \<Rightarrow> string \<Rightarrow> string"
      using kid(4) [OF that] Suc.IH by (intro opt_map2_total those_total) auto
    then show ?thesis
      using i Suc.IH [OF kid(1)] Suc.IH [OF kid(2)] kid(3) Suc.IH
        those_total [of "named_args p (tp_types p ! i)" "render_export n p"]
      by (cases "ty_kind (tp_types p ! i)") (auto simp: Let_def)
  qed auto
qed (simp add: enough_fuel_def)

lemma render_text_total:
  assumes "grounded p"
  shows "enough_fuel p n i \<Longrightarrow> \<exists>s. render_text n p i = Some s"
proof (induction n arbitrary: i)
  case (Suc n)
  show ?case
  proof (cases "i = kInvalidType \<or> length (tp_types p) \<le> i")
    case False
    then have i: "i < length (tp_types p)" "i \<noteq> kInvalidType" by auto
    note kid = render_kid_cases [OF assms Suc.prems i]
    have "\<exists>s. opt_map2 f (those (map (render_text n p) (fn_args p (tp_types p ! i))))
        (render_text n p (ty_ret (tp_types p ! i))) = Some s" if "ty_kind (tp_types p ! i) = KFn" for f :: "string list \<Rightarrow> string \<Rightarrow> string"
      using kid(4) [OF that] Suc.IH by (intro opt_map2_total those_total) auto
    then show ?thesis
      using i Suc.IH [OF kid(1)] Suc.IH [OF kid(2)] kid(3) Suc.IH
        those_total [of "named_args p (tp_types p ! i)" "render_text n p"]
      by (cases "ty_kind (tp_types p ! i)") (auto simp: Let_def)
  qed auto
qed (simp add: enough_fuel_def)

section \<open>Requests keep the order\<close>

lemma make_type_grounded:
  assumes "grounded p" "pool_inv p" "accepted r" "places r \<le> pool_room p" "known_kids p r"
  shows "grounded (fst (make_type r p))"
  unfolding grounded_def
proof (intro allI impI)
  fix i u assume u: "pool_view (fst (make_type r p)) i = Some u"
  note made = make_type_interned [OF assms(2-4), unfolded interned_def]
  show "\<forall>c \<in> set (kids u). c < i \<or> c = kInvalidType"
  proof (cases "pool_view p i")
    case None
    then have "u = described r" "length (tp_types p) \<le> i"
      using made u by (auto simp: pool_view_def split: if_splits)
    then show ?thesis using assms(5) by (fastforce simp: known_kids_def)
  next
    case (Some w)
    then have "w = u" using made u by simp
    then show ?thesis using Some assms(1) by (simp add: grounded_def)
  qed
qed

lemma new_pool_grounded: "grounded new_pool"
  by (auto simp: grounded_def new_pool_view split: if_splits)

text \<open>The pools a program can build: from the fresh one, by requests over known types.\<close>

inductive pool_built :: "type_pool \<Rightarrow> bool" where
  fresh: "pool_built new_pool"
| request: "\<lbrakk>pool_built p; accepted r; places r \<le> pool_room p; known_kids p r\<rbrakk> \<Longrightarrow> pool_built (fst (make_type r p))"

lemma pool_built_sound: "pool_built p \<Longrightarrow> pool_inv p \<and> grounded p"
proof (induction rule: pool_built.induct)
  case fresh
  show ?case using new_pool_inv new_pool_grounded by simp
next
  case (request p r)
  then show ?case using pool.make_sound make_type_grounded by blast
qed

section \<open>Functions without labels\<close>

text \<open>A function type whose labels are empty, which has no defaults and no named parameters.\<close>

fun plain_fn :: "type_view \<Rightarrow> bool" where
  "plain_fn (VFn r ps k ls ds th c v cc) \<longleftrightarrow> k = length ps \<and> list_all (\<lambda>l. l = []) ls \<and> list_all (\<lambda>d. d = 0) ds"
| "plain_fn v \<longleftrightarrow> True"

definition all_plain :: "type_pool \<Rightarrow> bool" where
  "all_plain p \<longleftrightarrow> list_all (\<lambda>t. plain_fn (view_of p t)) (tp_types p)"

lemma those_Some_length: "those (map f xs) = Some ys \<Longrightarrow> length ys = length xs"
  by (induction xs arbitrary: ys) (auto split: option.splits)

lemma fn_text_plain:
  assumes "plain_fn (view_of p t)" "ty_kind t = KFn" "length params = ty_param_count t"
  shows "fn_text p t params ret = fn_export_text params ret"
proof -
  have t: "ty_positional_param_count t = ty_param_count t"
      "\<forall>k < ty_param_count t. tp_fn_param_labels p ! (ty_label_begin t + k) = []"
      "\<forall>k < ty_param_count t. tp_fn_param_has_default p ! (ty_default_begin t + k) = 0"
    using assms(1,2) by (auto simp: view_of_def slice_def list_all_iff)
  then have "map2 (fn_param_text p t) [0 ..< length params] params = params"
    using assms(3) by (intro nth_equalityI) (auto simp: fn_param_text_def)
  then show ?thesis using t by (simp add: fn_text_def fn_export_text_def)
qed

lemma render_plain:
  assumes "all_plain p"
  shows "render_text n p i = render_export n p i"
proof (induction n arbitrary: i)
  case (Suc n)
  have fn: "opt_map2 (fn_text p t) (those (map (render_export n p) (fn_args p t))) y
      = opt_map2 fn_export_text (those (map (render_export n p) (fn_args p t))) y"
    if "t \<in> set (tp_types p)" "ty_kind t = KFn" for t y
    using assms that
    by (cases "those (map (render_export n p) (fn_args p t))"; cases y)
      (auto simp: opt_map2_def all_plain_def list_all_iff fn_args_def slice_def
        dest!: those_Some_length intro!: fn_text_plain)
  have r: "render_text n p = render_export n p" using Suc.IH by (rule ext)
  show ?case
    by (cases "ty_kind (tp_types p ! i)") (auto simp: Let_def r fn)
qed simp

section \<open>Properties\<close>

text \<open>
  C37: Printing a type comes to an end and always prints: in every pool a program can build by
  requests that name known types, both renderings of every id (also one that is no type) give a
  string, with one unit of fuel per type and one more.
\<close>

theorem type_printing_total:
  assumes "pool_built p"
  shows "(\<exists>s. to_export_string p i = Some s) \<and> (\<exists>s. to_string p i = Some s)"
  using pool_built_sound [OF assms] render_export_total [of p "Suc (length (tp_types p))" i]
    render_text_total [of p "Suc (length (tp_types p))" i]
  by (auto simp: to_export_string_def to_string_def enough_fuel_def)

theorem type_printing_total_witness:
  "\<exists>s. to_export_string (fst (make_type (ReqOptional 9) new_pool)) 41 = Some s"
proof -
  have "pool_room new_pool \<ge> 1" "9 < length (tp_types new_pool)"
    by (simp_all add: pool_room_def pool_sizes_def) (simp_all add: new_pool_def all_builtins_def)
  then have "pool_built (fst (make_type (ReqOptional 9) new_pool))"
    by (intro pool_built.intros) (auto simp: known_kids_def)
  from type_printing_total [OF this, of 41] show ?thesis by simp
qed

text \<open>
  The two renderings differ only in what a call site needs: in a pool whose function types
  have no labels, no defaults and no named parameters, the text for messages and the export text
  of every type are the same.
\<close>

lemma renderings_agree_without_labels:
  assumes "all_plain p"
  shows "to_string p i = to_export_string p i"
  using render_plain [OF assms] by (simp add: to_string_def to_export_string_def)

section \<open>Export names collide\<close>

text \<open>An optional borrow and a borrow of an optional.\<close>

definition collision_reqs :: "type_req list" where
  "collision_reqs = [ReqBorrow 9 False, ReqOptional 41, ReqOptional 9, ReqBorrow 43 False]"

text \<open>
  The export text does not identify a type: after four requests to a fresh pool, an optional
  of a shared borrow of i32 and a shared borrow of an optional i32 have different ids and the
  same export text.
\<close>

theorem export_names_collide:
  "(let (p, ids) = make_all make_type collision_reqs new_pool in
      ids = [41, 42, 43, 44]
      \<and> pool_view p 42 = Some (VOptional 41) \<and> pool_view p 41 = Some (VBorrow 9 False)
      \<and> pool_view p 44 = Some (VBorrow 43 False) \<and> pool_view p 43 = Some (VOptional 9)
      \<and> to_export_string p 42 = Some ''&i32?'' \<and> to_export_string p 44 = Some ''&i32?'')"
  by code_simp

end
