(* ===== verification/Token_Kind.thy ===== *)
theory Token_Kind
  imports Prelude
begin

text \<open>
  Token kinds (\<open>frontend/include/parus/syntax/TokenKind.hpp\<close>), their names, the keyword chain of
  the lexer and the punctuation table (\<open>syntax/Punct.hpp\<close>). The enumeration is cut into
  keywords, punctuation and the rest, in the order of the source.
\<close>

section \<open>Kinds\<close>

datatype (plugins only: code) keyword =
    KwTrue | KwFalse | KwNull | KwAnd | KwOr | KwNot | KwXor | KwMut | KwStatic | KwConst
   | KwLet | KwSet | KwFix | KwIf | KwElif | KwElse | KwFor | KwWhile | KwDo | KwReturn
   | KwBreak | KwContinue | KwManual | KwThrow | KwTry | KwCatch | KwCopy | KwClone | KwExport
   | KwExtern | KwLayout | KwAlign | KwFn | KwMacro | KwField | KwEnum | KwProto | KwClass
   | KwActor | KwInst | KwInit | KwDeinit | KwDraft | KwActs | KwSwitch | KwCase | KwDefault
   | KwLoop | KwIn | KwCommit | KwRecast | KwPub | KwSub | KwPure | KwComptime | KwUse
   | KwImport | KwModule | KwAs | KwNest | KwWith | KwRequire | KwProvide

datatype (plugins only: code) punct =
    PAt | PDollar | PArrow | PLParen | PRParen | PLBrace | PRBrace | PLBracket | PRBracket
   | PComma | PColon | PSemicolon | PQuestion | PQuestionQuestion | PQuestionQuestionAssign
   | PEllipsis | PDot | PAssign | PPlusAssign | PMinusAssign | PStarAssign | PSlashAssign
   | PPercentAssign | PPlus | PMinus | PStar | PSlash | PPercent | PPlusPlus | PBang | PCaret
   | PTilde | PAmp | PAmpAmp | PCaretAmp | PPipePipe | PEqEq | PBangEq | PLt | PLtEq | PGt
   | PGtEq | PShiftLeft | PShiftRight | PPipeFwd | PPipeRev | PDotDot | PDotDotColon
   | PColonColon

datatype token_kind =
    TkEof | TkError | TkIdent | TkHole | TkIntLit | TkFloatLit | TkStringLit | TkCharLit
  | TkKeyword keyword | TkPunct punct | TkUnknownPunct

section \<open>Names\<close>

fun keyword_name :: "keyword \<Rightarrow> string" where
  "keyword_name KwTrue = ''true''"
| "keyword_name KwFalse = ''false''"
| "keyword_name KwNull = ''null''"
| "keyword_name KwAnd = ''and''"
| "keyword_name KwOr = ''or''"
| "keyword_name KwNot = ''not''"
| "keyword_name KwXor = ''xor''"
| "keyword_name KwMut = ''mut''"
| "keyword_name KwStatic = ''static''"
| "keyword_name KwConst = ''const''"
| "keyword_name KwLet = ''let''"
| "keyword_name KwSet = ''set''"
| "keyword_name KwFix = ''fix''"
| "keyword_name KwIf = ''if''"
| "keyword_name KwElif = ''elif''"
| "keyword_name KwElse = ''else''"
| "keyword_name KwFor = ''for''"
| "keyword_name KwWhile = ''while''"
| "keyword_name KwDo = ''do''"
| "keyword_name KwReturn = ''return''"
| "keyword_name KwBreak = ''break''"
| "keyword_name KwContinue = ''continue''"
| "keyword_name KwManual = ''manual''"
| "keyword_name KwThrow = ''throw''"
| "keyword_name KwTry = ''try''"
| "keyword_name KwCatch = ''catch''"
| "keyword_name KwCopy = ''copy''"
| "keyword_name KwClone = ''clone''"
| "keyword_name KwExport = ''export''"
| "keyword_name KwExtern = ''extern''"
| "keyword_name KwLayout = ''layout''"
| "keyword_name KwAlign = ''align''"
| "keyword_name KwFn = ''def''"
| "keyword_name KwMacro = ''macro''"
| "keyword_name KwField = ''struct''"
| "keyword_name KwEnum = ''enum''"
| "keyword_name KwProto = ''proto''"
| "keyword_name KwClass = ''class''"
| "keyword_name KwActor = ''actor''"
| "keyword_name KwInst = ''inst''"
| "keyword_name KwInit = ''init''"
| "keyword_name KwDeinit = ''deinit''"
| "keyword_name KwDraft = ''draft''"
| "keyword_name KwActs = ''acts''"
| "keyword_name KwSwitch = ''switch''"
| "keyword_name KwCase = ''case''"
| "keyword_name KwDefault = ''default''"
| "keyword_name KwLoop = ''loop''"
| "keyword_name KwIn = ''in''"
| "keyword_name KwCommit = ''commit''"
| "keyword_name KwRecast = ''recast''"
| "keyword_name KwPub = ''pub''"
| "keyword_name KwSub = ''sub''"
| "keyword_name KwPure = ''pure''"
| "keyword_name KwComptime = ''comptime''"
| "keyword_name KwUse = ''use''"
| "keyword_name KwImport = ''import''"
| "keyword_name KwModule = ''module''"
| "keyword_name KwAs = ''as''"
| "keyword_name KwNest = ''nest''"
| "keyword_name KwWith = ''with''"
| "keyword_name KwRequire = ''require''"
| "keyword_name KwProvide = ''provide''"

fun punct_name :: "punct \<Rightarrow> string" where
  "punct_name PAt = ''@''"
| "punct_name PDollar = ''$''"
| "punct_name PArrow = ''->''"
| "punct_name PLParen = ''(''"
| "punct_name PRParen = '')''"
| "punct_name PLBrace = ''{''"
| "punct_name PRBrace = ''}''"
| "punct_name PLBracket = ''[''"
| "punct_name PRBracket = '']''"
| "punct_name PComma = '',''"
| "punct_name PColon = '':''"
| "punct_name PSemicolon = '';''"
| "punct_name PQuestion = ''?''"
| "punct_name PQuestionQuestion = ''??''"
| "punct_name PQuestionQuestionAssign = ''??=''"
| "punct_name PEllipsis = ''...''"
| "punct_name PDot = ''.''"
| "punct_name PAssign = ''=''"
| "punct_name PPlusAssign = ''+=''"
| "punct_name PMinusAssign = ''-=''"
| "punct_name PStarAssign = ''*=''"
| "punct_name PSlashAssign = ''/=''"
| "punct_name PPercentAssign = ''%=''"
| "punct_name PPlus = ''+''"
| "punct_name PMinus = ''-''"
| "punct_name PStar = ''*''"
| "punct_name PSlash = ''/''"
| "punct_name PPercent = ''%''"
| "punct_name PPlusPlus = ''++''"
| "punct_name PBang = ''!''"
| "punct_name PCaret = ''^''"
| "punct_name PTilde = ''~''"
| "punct_name PAmp = ''&''"
| "punct_name PAmpAmp = ''&&''"
| "punct_name PCaretAmp = ''^&''"
| "punct_name PPipePipe = ''||''"
| "punct_name PEqEq = ''==''"
| "punct_name PBangEq = ''!=''"
| "punct_name PLt = ''<''"
| "punct_name PLtEq = ''<=''"
| "punct_name PGt = ''>''"
| "punct_name PGtEq = ''>=''"
| "punct_name PShiftLeft = ''<<''"
| "punct_name PShiftRight = ''>>''"
| "punct_name PPipeFwd = ''|>''"
| "punct_name PPipeRev = ''<|''"
| "punct_name PDotDot = ''..''"
| "punct_name PDotDotColon = ''..:''"
| "punct_name PColonColon = ''::''"

fun token_kind_name :: "token_kind \<Rightarrow> string" where
  "token_kind_name TkEof = ''eof''"
| "token_kind_name TkError = ''error''"
| "token_kind_name TkIdent = ''ident''"
| "token_kind_name TkHole = ''hole''"
| "token_kind_name TkIntLit = ''int_lit''"
| "token_kind_name TkFloatLit = ''float_lit''"
| "token_kind_name TkStringLit = ''string_lit''"
| "token_kind_name TkCharLit = ''char_lit''"
| "token_kind_name (TkKeyword k) = keyword_name k"
| "token_kind_name (TkPunct p) = punct_name p"
| "token_kind_name TkUnknownPunct = ''unknown_punct''"

section \<open>Tables\<close>

text \<open>The chain of comparisons of \<open>lex_ident_or_kw\<close> after the hole.\<close>

definition keyword_table :: "(string \<times> keyword) list" where
  "keyword_table =
    [(''true'', KwTrue), (''false'', KwFalse), (''null'', KwNull), (''and'', KwAnd),
     (''or'', KwOr), (''not'', KwNot), (''xor'', KwXor), (''mut'', KwMut),
     (''static'', KwStatic), (''const'', KwConst), (''let'', KwLet), (''set'', KwSet),
     (''fix'', KwFix), (''if'', KwIf), (''elif'', KwElif), (''else'', KwElse),
     (''for'', KwFor), (''while'', KwWhile), (''do'', KwDo), (''loop'', KwLoop),
     (''in'', KwIn), (''return'', KwReturn), (''break'', KwBreak), (''continue'', KwContinue),
     (''manual'', KwManual), (''throw'', KwThrow), (''try'', KwTry), (''catch'', KwCatch),
     (''copy'', KwCopy), (''clone'', KwClone), (''switch'', KwSwitch), (''case'', KwCase),
     (''default'', KwDefault), (''use'', KwUse), (''import'', KwImport),
     (''module'', KwModule), (''as'', KwAs), (''nest'', KwNest), (''with'', KwWith),
     (''require'', KwRequire), (''provide'', KwProvide), (''commit'', KwCommit),
     (''recast'', KwRecast), (''pub'', KwPub), (''sub'', KwSub), (''def'', KwFn),
     (''macro'', KwMacro), (''struct'', KwField), (''field'', KwField), (''enum'', KwEnum),
     (''proto'', KwProto), (''class'', KwClass), (''actor'', KwActor), (''inst'', KwInst),
     (''init'', KwInit), (''deinit'', KwDeinit), (''draft'', KwDraft), (''acts'', KwActs),
     (''export'', KwExport), (''extern'', KwExtern), (''layout'', KwLayout),
     (''align'', KwAlign)]"

definition punct_table :: "(string \<times> punct) list" where
  "punct_table =
    [(''...'', PEllipsis), (''..:'', PDotDotColon), (''..'', PDotDot), (''.'', PDot),
     (''::'', PColonColon), (''->'', PArrow), (''|>'', PPipeFwd), (''<|'', PPipeRev),
     (''<<'', PShiftLeft), (''>>'', PShiftRight), (''&&'', PAmpAmp), (''&'', PAmp),
     (''||'', PPipePipe), (''=='', PEqEq), (''!='', PBangEq), (''<='', PLtEq), (''>='', PGtEq),
     (''++'', PPlusPlus), (''+='', PPlusAssign), (''-='', PMinusAssign), (''*='', PStarAssign),
     (''/='', PSlashAssign), (''%='', PPercentAssign), (''@'', PAt), (''$'', PDollar),
     (''('', PLParen), ('')'', PRParen), (''{'', PLBrace), (''}'', PRBrace),
     (''['', PLBracket), ('']'', PRBracket), ('','', PComma), ('':'', PColon),
     ('';'', PSemicolon), (''??='', PQuestionQuestionAssign), (''??'', PQuestionQuestion),
     (''?'', PQuestion), (''='', PAssign), (''+'', PPlus), (''-'', PMinus), (''*'', PStar),
     (''/'', PSlash), (''%'', PPercent), (''!'', PBang), (''~'', PTilde), (''^&'', PCaretAmp),
     (''^'', PCaret), (''<'', PLt), (''>'', PGt)]"

section \<open>Lists of all\<close>

definition all_keywords :: "keyword list" where
  "all_keywords =
    [KwTrue, KwFalse, KwNull, KwAnd, KwOr, KwNot, KwXor, KwMut, KwStatic, KwConst, KwLet,
     KwSet, KwFix, KwIf, KwElif, KwElse, KwFor, KwWhile, KwDo, KwReturn, KwBreak, KwContinue,
     KwManual, KwThrow, KwTry, KwCatch, KwCopy, KwClone, KwExport, KwExtern, KwLayout, KwAlign,
     KwFn, KwMacro, KwField, KwEnum, KwProto, KwClass, KwActor, KwInst, KwInit, KwDeinit,
     KwDraft, KwActs, KwSwitch, KwCase, KwDefault, KwLoop, KwIn, KwCommit, KwRecast, KwPub,
     KwSub, KwPure, KwComptime, KwUse, KwImport, KwModule, KwAs, KwNest, KwWith, KwRequire,
     KwProvide]"

definition all_puncts :: "punct list" where
  "all_puncts =
    [PAt, PDollar, PArrow, PLParen, PRParen, PLBrace, PRBrace, PLBracket, PRBracket, PComma,
     PColon, PSemicolon, PQuestion, PQuestionQuestion, PQuestionQuestionAssign, PEllipsis,
     PDot, PAssign, PPlusAssign, PMinusAssign, PStarAssign, PSlashAssign, PPercentAssign,
     PPlus, PMinus, PStar, PSlash, PPercent, PPlusPlus, PBang, PCaret, PTilde, PAmp, PAmpAmp,
     PCaretAmp, PPipePipe, PEqEq, PBangEq, PLt, PLtEq, PGt, PGtEq, PShiftLeft, PShiftRight,
     PPipeFwd, PPipeRev, PDotDot, PDotDotColon, PColonColon]"

end
