(* ===== verification/Lexer.thy ===== *)
theory Lexer
  imports Token_Kind
begin

text \<open>
  The lexer (\<open>frontend/src/lex/lexer.cpp\<close>). A source is a list of bytes (\<open>char\<close>); the position is
  held as the part of the source that is left, so \<open>bump\<close> is the tail and an offset is the length
  of the source less the length of what is left. Offsets are cast to 32 bits with \<open>u32\<close>.
  Character classes are those of the C locale.
\<close>

section \<open>Strict UTF-8\<close>

definition is_cont :: "nat \<Rightarrow> bool" where
  "is_cont b = (and b 192 = 128)"

text \<open>\<open>utf8_validate_strict\<close> at offset \<open>i\<close>: \<open>None\<close> accepts, \<open>Some\<close> is \<open>bad_off\<close>.\<close>

fun utf8_bad :: "nat \<Rightarrow> string \<Rightarrow> nat option" where
  "utf8_bad i [] = None"
| "utf8_bad i (c0 # s) =
     (let b0 = ubyte c0; b1 = ubyte (s ! 0); b2 = ubyte (s ! 1); b3 = ubyte (s ! 2) in
      if b0 < 128 then utf8_bad (i + 1) s
      else if 128 \<le> b0 \<and> b0 \<le> 191 then Some (u32 i)
      else if 194 \<le> b0 \<and> b0 \<le> 223 then
        (if length s < 1 then Some (u32 i)
         else if \<not> is_cont b1 then Some (u32 i)
         else utf8_bad (i + 2) (drop 1 s))
      else if 224 \<le> b0 \<and> b0 \<le> 239 then
        (if length s < 2 then Some (u32 i)
         else if \<not> is_cont b1 \<or> \<not> is_cont b2 then Some (u32 i)
         else if b0 = 224 \<and> b1 < 160 then Some (u32 i)
         else if b0 = 237 \<and> 160 \<le> b1 then Some (u32 i)
         else utf8_bad (i + 3) (drop 2 s))
      else if 240 \<le> b0 \<and> b0 \<le> 244 then
        (if length s < 3 then Some (u32 i)
         else if \<not> is_cont b1 \<or> \<not> is_cont b2 \<or> \<not> is_cont b3 then Some (u32 i)
         else if b0 = 240 \<and> b1 < 144 then Some (u32 i)
         else if b0 = 244 \<and> 143 < b1 then Some (u32 i)
         else utf8_bad (i + 4) (drop 3 s))
      else Some (u32 i))"

definition utf8_validate_strict :: "string \<Rightarrow> nat option" where
  "utf8_validate_strict s = utf8_bad 0 s"

section \<open>Characters\<close>

definition is_alpha :: "char \<Rightarrow> bool" where
  "is_alpha c = ((65 \<le> ubyte c \<and> ubyte c \<le> 90) \<or> (97 \<le> ubyte c \<and> ubyte c \<le> 122))"

definition is_alnum :: "char \<Rightarrow> bool" where
  "is_alnum c = (is_alpha c \<or> is_digit c)"

definition is_ident_start :: "char \<Rightarrow> bool" where
  "is_ident_start c = (if 128 \<le> ubyte c then True else is_alpha c \<or> c = CHR ''_'')"

definition is_ident_cont :: "char \<Rightarrow> bool" where
  "is_ident_cont c = (if 128 \<le> ubyte c then True else is_alnum c \<or> c = CHR ''_'')"

text \<open>\<open>peek k\<close>: the byte \<open>k\<close> places on, or NUL at the end.\<close>

definition peek :: "nat \<Rightarrow> string \<Rightarrow> char" where
  "peek k r = (if k < length r then r ! k else CHR 0x00)"

definition triple_quote :: "nat \<Rightarrow> string \<Rightarrow> bool" where
  "triple_quote k r = (peek k r = CHR 0x22 \<and> peek (k + 1) r = CHR 0x22 \<and> peek (k + 2) r = CHR 0x22)"

section \<open>Skipping\<close>

text \<open>After the opening of a block comment.\<close>

fun skip_block_comment :: "string \<Rightarrow> string" where
  "skip_block_comment [] = []"
| "skip_block_comment (c # r) =
     (if c = CHR ''*'' \<and> peek 0 r = CHR ''/'' then drop 1 r else skip_block_comment r)"

definition skip_line_comment :: "string \<Rightarrow> string" where
  "skip_line_comment r = dropWhile (\<lambda>c. c \<noteq> CHR 0x0A) r"

lemma length_skip_block_comment: "length (skip_block_comment r) \<le> length r"
  by (induction r rule: skip_block_comment.induct) auto

function skip_ws_and_comments :: "string \<Rightarrow> string" where
  "skip_ws_and_comments r0 =
     (let r = dropWhile is_space r0 in
      if peek 0 r = CHR ''/'' \<and> peek 1 r = CHR ''/'' then skip_ws_and_comments (skip_line_comment (drop 2 r))
      else if peek 0 r = CHR ''/'' \<and> peek 1 r = CHR ''*'' then skip_ws_and_comments (skip_block_comment (drop 2 r))
      else r)"
  by pat_completeness auto

lemma peek_nonzero: "peek 0 r = c \<Longrightarrow> c \<noteq> CHR 0x00 \<Longrightarrow> r \<noteq> []"
  by (auto simp: peek_def)

termination skip_ws_and_comments
proof (relation "measure length")
  fix r0 r :: string
  assume r: "r = dropWhile is_space r0"
  have le: "length r \<le> length r0" unfolding r by (rule length_dropWhile_le)
  show "peek 0 r = CHR ''/'' \<and> peek 1 r = CHR ''/'' \<Longrightarrow> (skip_line_comment (drop 2 r), r0) \<in> measure length"
    using le length_dropWhile_le [of "\<lambda>c. c \<noteq> CHR 0x0A" "drop 2 r"] peek_nonzero [of r "CHR ''/''"]
    by (cases r) (auto simp: skip_line_comment_def)
  show "peek 0 r = CHR ''/'' \<and> peek 1 r = CHR ''*'' \<Longrightarrow> (skip_block_comment (drop 2 r), r0) \<in> measure length"
    using le length_skip_block_comment [of "drop 2 r"] peek_nonzero [of r "CHR ''/''"]
    by (cases r) auto
qed simp

declare skip_ws_and_comments.simps [simp del]

section \<open>Scanners\<close>

text \<open>Each takes what is left at the start of the token and gives the kind and what is left after it.\<close>

definition scan_digits :: "string \<Rightarrow> string" where
  "scan_digits r = dropWhile (\<lambda>c. is_digit c \<or> c = CHR ''_'') r"

text \<open>The suffix of a number: what is left, and whether it is a floating suffix.\<close>

definition number_suffix :: "string \<Rightarrow> string \<times> bool" where
  "number_suffix r =
     (if r \<noteq> [] \<and> is_alpha (peek 0 r) then
        (if peek 0 r = CHR ''l'' \<and> peek 1 r = CHR ''f'' then (dropWhile is_digit (drop 2 r), True)
         else if peek 0 r = CHR ''f'' then (dropWhile is_digit (drop 1 r), True)
         else (dropWhile (\<lambda>c. is_alnum c \<or> c = CHR ''_'') r, False))
      else (r, False))"

definition lex_number :: "string \<Rightarrow> token_kind \<times> string" where
  "lex_number r =
     (let r1 = scan_digits r;
          dot = (peek 0 r1 = CHR ''.'' \<and> is_digit (peek 1 r1));
          r2 = (if dot then scan_digits (drop 1 r1) else r1);
          (r3, float_suffix) = number_suffix r2
      in (if dot \<or> float_suffix then TkFloatLit else TkIntLit, r3))"

text \<open>The body of a string up to and with the closing quote; in a raw one the backslash is a
  character like others.\<close>

fun scan_string :: "bool \<Rightarrow> string \<Rightarrow> string" where
  "scan_string raw [] = []"
| "scan_string raw (c # r) =
     (if \<not> raw \<and> c = CHR 0x5C then scan_string raw (drop 1 r)
      else if c = CHR 0x22 then r
      else scan_string raw r)"

definition lex_string :: "string \<Rightarrow> token_kind \<times> string" where
  "lex_string r = (TkStringLit, scan_string False (drop 1 r))"

fun scan_triple :: "string \<Rightarrow> string" where
  "scan_triple [] = []"
| "scan_triple (c # r) =
     (if triple_quote 0 (c # r) then drop 3 (c # r) else scan_triple r)"

definition lex_prefixed_triple_string :: "string \<Rightarrow> token_kind \<times> string" where
  "lex_prefixed_triple_string r = (TkStringLit, scan_triple (drop 4 r))"

definition lex_dollar_string :: "string \<Rightarrow> token_kind \<times> string" where
  "lex_dollar_string r = (TkStringLit, scan_string False (drop 2 r))"

definition lex_c_prefixed_string :: "bool \<Rightarrow> string \<Rightarrow> token_kind \<times> string" where
  "lex_c_prefixed_string raw r = (TkStringLit, scan_string raw (drop (if raw then 3 else 2) r))"

definition codepoint_len :: "char \<Rightarrow> nat" where
  "codepoint_len c =
     (let c0 = ubyte c in
      if and c0 128 = 0 then 1
      else if and c0 224 = 192 then 2
      else if and c0 240 = 224 then 3
      else if and c0 248 = 240 then 4
      else 1)"

definition lex_char :: "string \<Rightarrow> token_kind \<times> string" where
  "lex_char r =
     (let r1 = drop 1 r in
      if r1 = [] then (TkError, r1)
      else
        let r2 = (if peek 0 r1 = CHR 0x5C then drop 2 r1 else drop (codepoint_len (peek 0 r1)) r1) in
        if peek 0 r2 = CHR 0x27 then (TkCharLit, drop 1 r2)
        else
          let r3 = dropWhile (\<lambda>c. c \<noteq> CHR 0x27 \<and> c \<noteq> CHR 0x0A) r2
          in (TkError, if peek 0 r3 = CHR 0x27 then drop 1 r3 else r3))"

fun scan_ident :: "string \<Rightarrow> string" where
  "scan_ident [] = []"
| "scan_ident (c # r) =
     (if \<not> is_ident_cont c then c # r
      else if (c = CHR ''R'' \<or> c = CHR ''F'') \<and> triple_quote 1 (c # r) then c # r
      else scan_ident r)"

text \<open>The kind of a word.\<close>

definition word_kind :: "string \<Rightarrow> token_kind" where
  "word_kind w =
     (if w = ''_'' then TkHole
      else (case map_of keyword_table w of
              Some k \<Rightarrow> TkKeyword k
            | None \<Rightarrow> TkIdent))"

definition lexeme_of :: "string \<Rightarrow> string \<Rightarrow> string" where
  "lexeme_of r r' = take (length r - length r') r"

definition lex_ident_or_kw :: "string \<Rightarrow> token_kind \<times> string" where
  "lex_ident_or_kw r = (let r' = scan_ident (drop 1 r) in (word_kind (lexeme_of r r'), r'))"

definition punct_matches :: "string \<Rightarrow> string \<times> punct \<Rightarrow> bool" where
  "punct_matches r e = list_all (\<lambda>i. peek i r = fst e ! i) [0 ..< length (fst e)]"

definition lex_punct_or_unknown :: "string \<Rightarrow> token_kind \<times> string" where
  "lex_punct_or_unknown r =
     (case find (punct_matches r) punct_table of
        Some e \<Rightarrow> (TkPunct (snd e), drop (length (fst e)) r)
      | None \<Rightarrow> (TkUnknownPunct, drop 1 r))"

section \<open>Tokens\<close>

record token =
  tok_kind :: token_kind
  tok_span :: source_span
  tok_lexeme :: string

text \<open>The body of the loop of \<open>lex_all\<close>: the scanner is chosen by the first bytes.\<close>

definition lex_token :: "string \<Rightarrow> token_kind \<times> string" where
  "lex_token r =
     (let c = peek 0 r in
      if is_digit c then lex_number r
      else if (c = CHR ''R'' \<or> c = CHR ''F'') \<and> triple_quote 1 r then lex_prefixed_triple_string r
      else if c = CHR ''c'' \<and> peek 1 r = CHR ''r'' \<and> peek 2 r = CHR 0x22 then lex_c_prefixed_string True r
      else if c = CHR ''c'' \<and> peek 1 r = CHR 0x22 then lex_c_prefixed_string False r
      else if c = CHR ''$'' \<and> peek 1 r = CHR 0x22 then lex_dollar_string r
      else if c = CHR 0x22 then lex_string r
      else if c = CHR 0x27 then lex_char r
      else if is_ident_start c then lex_ident_or_kw r
      else lex_punct_or_unknown r)"

definition span_of :: "nat \<Rightarrow> nat \<Rightarrow> nat \<Rightarrow> source_span" where
  "span_of fid lo hi = \<lparr>sp_file_id = fid, sp_lo = u32 lo, sp_hi = u32 hi\<rparr>"

text \<open>The token between two positions of a source of \<open>n\<close> bytes.\<close>

definition make_token :: "nat \<Rightarrow> nat \<Rightarrow> string \<Rightarrow> token_kind \<times> string \<Rightarrow> token" where
  "make_token fid n r kr =
     \<lparr>tok_kind = fst kr, tok_span = span_of fid (n - length r) (n - length (snd kr)),
      tok_lexeme = lexeme_of r (snd kr)\<rparr>"

definition eof_token :: "nat \<Rightarrow> nat \<Rightarrow> token" where
  "eof_token fid n = \<lparr>tok_kind = TkEof, tok_span = span_of fid n n, tok_lexeme = []\<rparr>"

section \<open>Progress\<close>

lemma suffix_drop_suffix: "suffix a b \<Longrightarrow> suffix (drop n a) b"
  using suffix_drop suffix_order.trans by blast

lemma suffix_dropWhile_suffix: "suffix a b \<Longrightarrow> suffix (dropWhile P a) b"
  using suffix_dropWhile suffix_order.trans by blast

lemmas suffix_rules = suffix_drop_suffix suffix_dropWhile_suffix suffix_order.refl

lemma suffix_skip_block: "suffix (skip_block_comment r) r"
  by (induction r rule: skip_block_comment.induct) (auto intro: suffix_ConsI suffix_drop_suffix)

lemma suffix_skip: "suffix (skip_ws_and_comments r) r"
proof (induction r rule: skip_ws_and_comments.induct)
  case (1 r0)
  let ?r = "dropWhile is_space r0"
  have r: "suffix ?r r0" by (intro suffix_rules)
  have "suffix (skip_line_comment (drop 2 ?r)) r0" unfolding skip_line_comment_def by (intro suffix_rules)
  moreover have "suffix (skip_block_comment (drop 2 ?r)) r0"
    using suffix_skip_block suffix_drop_suffix [OF r] by (rule suffix_order.trans)
  ultimately show ?case
    using 1 r by (subst skip_ws_and_comments.simps) (auto simp: Let_def intro: suffix_order.trans)
qed

lemma suffix_scan_string: "suffix (scan_string raw r) r"
  by (induction raw r rule: scan_string.induct)
    (auto intro: suffix_ConsI suffix_order.trans [OF _ suffix_drop])

lemma suffix_scan_triple: "suffix (scan_triple r) r"
  by (induction r rule: scan_triple.induct) (auto intro: suffix_ConsI suffix_drop_suffix)

lemma suffix_scan_ident: "suffix (scan_ident r) r"
  by (induction r rule: scan_ident.induct) (auto intro: suffix_ConsI)

lemma suffix_number_suffix: "suffix (fst (number_suffix r)) r"
  by (auto simp: number_suffix_def intro!: suffix_rules)

lemma find_SomeD: "find P xs = Some x \<Longrightarrow> x \<in> set xs \<and> P x"
  by (induction xs) (auto split: if_splits)

lemma punct_table_nonempty: "list_all (\<lambda>e. fst e \<noteq> [] \<and> CHR 0x00 \<notin> set (fst e)) punct_table"
  by (simp add: punct_table_def)

definition shorter :: "string \<Rightarrow> string \<Rightarrow> bool" where
  "shorter r' r \<longleftrightarrow> suffix r' r \<and> length r' < length r"

lemma shorter_drop: "r \<noteq> [] \<Longrightarrow> 0 < n \<Longrightarrow> suffix r' (drop n r) \<Longrightarrow> shorter r' r"
  unfolding shorter_def using suffix_length_le [of r' "drop n r"]
  by (cases r) (auto intro: suffix_order.trans [OF _ suffix_drop])

lemma digits_progress:
  assumes "r \<noteq> []" "is_digit (peek 0 r)"
  shows "shorter (snd (lex_number r)) r"
proof -
  have digits: "suffix (scan_digits r) (drop 1 r)"
    using assms by (cases r) (auto simp: scan_digits_def suffix_dropWhile peek_def)
  define r2 where "r2 = (if peek 0 (scan_digits r) = CHR ''.'' \<and> is_digit (peek 1 (scan_digits r))
      then scan_digits (drop 1 (scan_digits r)) else scan_digits r)"
  have "suffix r2 (scan_digits r)"
    unfolding r2_def by (subst scan_digits_def) (auto intro!: suffix_rules)
  with suffix_number_suffix [of r2] digits have "suffix (fst (number_suffix r2)) (drop 1 r)"
    by (meson suffix_order.trans)
  then have "suffix (snd (lex_number r)) (drop 1 r)"
    by (simp add: lex_number_def Let_def r2_def split_beta split del: if_split)
  with assms(1) show ?thesis by (intro shorter_drop [of r 1]) auto
qed

lemma char_progress:
  assumes "r \<noteq> []"
  shows "shorter (snd (lex_char r)) r"
proof -
  define r1 where "r1 = drop 1 r"
  define r2 where "r2 = (if peek 0 r1 = CHR 0x5C then drop 2 r1 else drop (codepoint_len (peek 0 r1)) r1)"
  have "suffix r2 r1" by (auto simp: r2_def intro!: suffix_rules)
  then have "suffix (snd (lex_char r)) r1"
    unfolding lex_char_def Let_def r1_def [symmetric] r2_def [symmetric]
    by (auto intro!: suffix_drop_suffix suffix_dropWhile_suffix)
  with assms show ?thesis unfolding r1_def by (intro shorter_drop [of r 1]) auto
qed

lemma punct_progress:
  assumes "r \<noteq> []"
  shows "shorter (snd (lex_punct_or_unknown r)) r"
proof (cases "find (punct_matches r) punct_table")
  case None
  with assms show ?thesis by (auto simp: lex_punct_or_unknown_def intro: shorter_drop)
next
  case (Some e)
  from find_SomeD [OF this] punct_table_nonempty have "fst e \<noteq> []" by (auto simp: list_all_iff)
  with Some assms show ?thesis
    by (auto simp: lex_punct_or_unknown_def intro!: shorter_drop [of r "length (fst e)"])
qed

lemma lex_token_progress:
  assumes "r \<noteq> []"
  shows "shorter (snd (lex_token r)) r"
  using assms
  by (auto simp: lex_token_def Let_def digits_progress char_progress punct_progress
      lex_prefixed_triple_string_def lex_c_prefixed_string_def lex_dollar_string_def lex_string_def
      lex_ident_or_kw_def suffix_scan_triple suffix_scan_string suffix_scan_ident
      intro!: shorter_drop [OF _ _ suffix_scan_triple] shorter_drop [OF _ _ suffix_scan_string]
        shorter_drop [OF _ _ suffix_scan_ident])

section \<open>The loop\<close>

text \<open>\<open>lex_all\<close> from where \<open>r\<close> is left of a source of \<open>n\<close> bytes.\<close>

function lex_from :: "nat \<Rightarrow> nat \<Rightarrow> string \<Rightarrow> token list" where
  "lex_from fid n r =
     (if r = [] then [eof_token fid n]
      else
        let r1 = skip_ws_and_comments r in
        if r1 = [] then [eof_token fid n]
        else make_token fid n r1 (lex_token r1) # lex_from fid n (snd (lex_token r1)))"
  by pat_completeness auto

termination lex_from
proof (relation "measure (\<lambda>(fid, n, r). length r)")
  fix fid n :: nat and r r1 :: string
  assume "r1 = skip_ws_and_comments r" "r1 \<noteq> []"
  then show "((fid, n, snd (lex_token r1)), (fid, n, r)) \<in> measure (\<lambda>(fid, n, r). length r)"
    using lex_token_progress [of r1] suffix_length_le [OF suffix_skip [of r]] by (simp add: shorter_def)
qed simp

declare lex_from.simps [simp del]

text \<open>What \<open>report_invalid_utf8\<close> adds to the bag: span, offset and the byte in hexadecimal.\<close>

record utf8_report =
  ur_span :: source_span
  ur_offset :: int
  ur_hex :: string

definition byte_hex2 :: "nat \<Rightarrow> string" where
  "byte_hex2 b = [''0123456789ABCDEF'' ! (and (drop_bit 4 b) 15), ''0123456789ABCDEF'' ! (and b 15)]"

text \<open>\<open>(int)\<close> of a 32-bit offset.\<close>

definition int_cast :: "nat \<Rightarrow> int" where
  "int_cast n = (if n < 2147483648 then int n else int n - 4294967296)"

definition report_invalid_utf8 :: "nat \<Rightarrow> string \<Rightarrow> nat \<Rightarrow> utf8_report" where
  "report_invalid_utf8 fid src bad_off =
     \<lparr>ur_span = \<lparr>sp_file_id = fid, sp_lo = bad_off, sp_hi = min (u32 (bad_off + 1)) (u32 (length src))\<rparr>,
      ur_offset = int_cast bad_off,
      ur_hex = byte_hex2 (if bad_off < length src then ubyte (src ! bad_off) else 0)\<rparr>"

text \<open>The tokens and what is reported, when there is a bag to report to.\<close>

definition lex_all :: "nat \<Rightarrow> bool \<Rightarrow> string \<Rightarrow> token list \<times> utf8_report list" where
  "lex_all fid has_bag src =
     (case utf8_validate_strict src of
        Some bad_off \<Rightarrow> ([eof_token fid (length src)], if has_bag then [report_invalid_utf8 fid src bad_off] else [])
      | None \<Rightarrow> (lex_from fid (length src) src, []))"

end
