(* ===== verification/Lexer_Spec.thy ===== *)
theory Lexer_Spec
  imports Lexer
begin

text \<open>
  What the lexer promises (\<open>frontend/src/lex/lexer.cpp\<close>): the UTF-8 gate accepts exactly the
  encodings of sequences of Unicode scalar values, the tokens and the skipped text tile the source,
  punctuation is matched greedily, and words and fixed spellings come back as one token.
\<close>

section \<open>Skipped text\<close>

text \<open>White space and comments; \<open>last\<close> when the source ends after them, where a comment may be
  left open.\<close>

inductive trivia :: "bool \<Rightarrow> string \<Rightarrow> bool" where
  none: "trivia at_end []"
| space: "is_space c \<Longrightarrow> trivia at_end g \<Longrightarrow> trivia at_end (c # g)"
| line: "CHR 0x0A \<notin> set body \<Longrightarrow> trivia at_end g \<Longrightarrow> (if g = [] then at_end else hd g = CHR 0x0A) \<Longrightarrow>
    trivia at_end (''//'' @ body @ g)"
| block: "\<not> sublist ''*/'' body \<Longrightarrow> trivia at_end g \<Longrightarrow> trivia at_end (''/*'' @ body @ ''*/'' @ g)"
| open_block: "\<not> sublist ''*/'' body \<Longrightarrow> trivia True (''/*'' @ body)"

definition starts_trivia :: "string \<Rightarrow> bool" where
  "starts_trivia r \<longleftrightarrow> r \<noteq> [] \<and> (is_space (hd r) \<or> take 2 r = ''//'' \<or> take 2 r = ''/*'')"

lemma trivia_spaces: "list_all is_space s \<Longrightarrow> trivia e g \<Longrightarrow> trivia e (s @ g)"
  by (induction s) (auto intro: trivia.space)

lemma skip_block_spec:
  "(\<exists>body. t = body @ ''*/'' @ skip_block_comment t \<and> \<not> sublist ''*/'' body)
   \<or> (skip_block_comment t = [] \<and> \<not> sublist ''*/'' t)"
proof (induction t rule: skip_block_comment.induct)
  case (2 c r)
  show ?case
  proof (cases "c = CHR ''*'' \<and> peek 0 r = CHR ''/''")
    case True
    then obtain r' where "r = CHR ''/'' # r'" by (cases r) (auto simp: peek_def)
    with True have "c # r = [] @ ''*/'' @ skip_block_comment (c # r)" by simp
    then show ?thesis using sublist_Nil_right by blast
  next
    case False
    then have no: "\<not> prefix ''*/'' (c # r)" by (cases r) (auto simp: peek_def)
    from False have eq: "skip_block_comment (c # r) = skip_block_comment r" by auto
    from 2 False consider body where "r = body @ ''*/'' @ skip_block_comment r" "\<not> sublist ''*/'' body"
      | "skip_block_comment r = []" "\<not> sublist ''*/'' r" by blast
    then show ?thesis
    proof cases
      case 1
      then have "\<not> prefix ''*/'' (c # body)"
        using no by (metis append_Cons append_prefixD prefixI prefix_append prefix_order.trans)
      with 1 have "\<not> sublist ''*/'' (c # body)" by (simp add: sublist_Cons_right)
      moreover have "c # r = (c # body) @ ''*/'' @ skip_block_comment (c # r)" using 1 eq by simp
      ultimately show ?thesis by blast
    next
      case 2
      then show ?thesis using no eq by (simp add: sublist_Cons_right)
    qed
  qed
qed simp

lemma take2: "peek 0 r = a \<Longrightarrow> peek 1 r = b \<Longrightarrow> a \<noteq> CHR 0x00 \<Longrightarrow> b \<noteq> CHR 0x00 \<Longrightarrow> r = [a, b] @ drop 2 r"
  by (cases r rule: remdups_adj.cases) (auto simp: peek_def)

lemma not_starts_trivia:
  "\<not> is_space (hd r) \<or> r = [] \<Longrightarrow> \<not> (peek 0 r = CHR ''/'' \<and> peek 1 r = CHR ''/'')
   \<Longrightarrow> \<not> (peek 0 r = CHR ''/'' \<and> peek 1 r = CHR ''*'') \<Longrightarrow> \<not> starts_trivia r"
  by (cases r rule: remdups_adj.cases) (auto simp: peek_def starts_trivia_def)

lemma skip_spec:
  "\<exists>g. r = g @ skip_ws_and_comments r \<and> trivia (skip_ws_and_comments r = []) g
     \<and> \<not> starts_trivia (skip_ws_and_comments r)"
proof (induction r rule: skip_ws_and_comments.induct)
  case (1 r0)
  define sp r where "sp = takeWhile is_space r0" and "r = dropWhile is_space r0"
  have r0: "r0 = sp @ r" "list_all is_space sp"
    by (auto simp: sp_def r_def list_all_iff dest: set_takeWhileD)
  let ?s = "skip_ws_and_comments r0"
  note unfold = skip_ws_and_comments.simps [of r0, folded r_def, unfolded Let_def]
  consider (line) "peek 0 r = CHR ''/''" "peek 1 r = CHR ''/''"
    | (block) "peek 0 r = CHR ''/''" "peek 1 r = CHR ''*''"
    | (none) "\<not> (peek 0 r = CHR ''/'' \<and> peek 1 r = CHR ''/'')" "\<not> (peek 0 r = CHR ''/'' \<and> peek 1 r = CHR ''*'')"
    by blast
  then have "\<exists>g. r = g @ ?s \<and> trivia (?s = []) g \<and> \<not> starts_trivia ?s"
  proof cases
    case line
    define t where "t = drop 2 r"
    have r: "r = ''//'' @ t" using take2 [OF line] by (simp add: t_def)
    have s: "?s = skip_ws_and_comments (skip_line_comment t)" using unfold line by (simp add: t_def)
    obtain g where g: "skip_line_comment t = g @ ?s" "trivia (?s = []) g" "\<not> starts_trivia ?s"
      using 1(1) [OF r_def] line s by (auto simp: t_def)
    define body where "body = takeWhile (\<lambda>c. c \<noteq> CHR 0x0A) t"
    have t: "t = body @ g @ ?s" "CHR 0x0A \<notin> set body"
      using g(1) by (auto simp: body_def skip_line_comment_def dest: set_takeWhileD)
        (metis takeWhile_dropWhile_id)
    have "if g = [] then ?s = [] else hd g = CHR 0x0A"
    proof (cases "skip_line_comment t")
      case Nil
      then show ?thesis using g(1) by simp
    next
      case (Cons c cs)
      then have "c = CHR 0x0A" using hd_dropWhile [of "\<lambda>c. c \<noteq> CHR 0x0A" t] by (auto simp: skip_line_comment_def)
      then show ?thesis
        using Cons g(1,3) by (cases g) (auto simp: starts_trivia_def is_space_def ubyte_def)
    qed
    then have "trivia (?s = []) (''//'' @ body @ g)" using t(2) g(2) by (intro trivia.line) auto
    then show ?thesis using r t(1) g(3) by (intro exI [of _ "''//'' @ body @ g"]) simp
  next
    case block
    define t where "t = drop 2 r"
    have r: "r = ''/*'' @ t" using take2 [OF block] by (simp add: t_def)
    have s: "?s = skip_ws_and_comments (skip_block_comment t)" using unfold block by (simp add: t_def)
    obtain g where g: "skip_block_comment t = g @ ?s" "trivia (?s = []) g" "\<not> starts_trivia ?s"
      using 1(2) [OF r_def] block s by (auto simp: t_def)
    from skip_block_spec [of t] show ?thesis
    proof
      assume "\<exists>body. t = body @ ''*/'' @ skip_block_comment t \<and> \<not> sublist ''*/'' body"
      then obtain body where body: "t = body @ ''*/'' @ g @ ?s" "\<not> sublist ''*/'' body" using g(1) by auto
      have "trivia (?s = []) (''/*'' @ body @ ''*/'' @ g)" using body(2) g(2) by (rule trivia.block)
      then show ?thesis using r g(3) body(1) by (intro exI [of _ "''/*'' @ body @ ''*/'' @ g"]) simp
    next
      assume open_c: "skip_block_comment t = [] \<and> \<not> sublist ''*/'' t"
      then have "?s = []" using g(1) by simp
      moreover have "trivia True (''/*'' @ t)" using open_c by (intro trivia.open_block) simp
      ultimately show ?thesis using r by (intro exI [of _ "''/*'' @ t"]) (simp add: starts_trivia_def)
    qed
  next
    case none
    then have s: "?s = r" using unfold by auto
    have "\<not> is_space (hd r) \<or> r = []" using hd_dropWhile [of is_space r0] by (auto simp: r_def)
    then show ?thesis using s none not_starts_trivia trivia.none by auto
  qed
  then show ?case using r0 trivia_spaces by (metis append.assoc)
qed

section \<open>Tokens tile the source\<close>

text \<open>From byte \<open>pos\<close> on, \<open>src\<close> is skipped text and the tokens in turn, and ends with \<open>eof\<close>.\<close>

fun covers :: "string \<Rightarrow> nat \<Rightarrow> token list \<Rightarrow> bool" where
  "covers src pos [] \<longleftrightarrow> False"
| "covers src pos (t # ts) \<longleftrightarrow>
     (let lo = sp_lo (tok_span t); hi = sp_hi (tok_span t) in
      if ts = [] then
        tok_kind t = TkEof \<and> lo = length src \<and> hi = length src \<and> tok_lexeme t = []
        \<and> pos \<le> length src \<and> trivia True (drop pos src)
      else
        tok_kind t \<noteq> TkEof \<and> pos \<le> lo \<and> lo < hi \<and> hi \<le> length src
        \<and> trivia False (take (lo - pos) (drop pos src)) \<and> \<not> starts_trivia (drop lo src)
        \<and> tok_lexeme t = take (hi - lo) (drop lo src) \<and> covers src hi ts)"

text \<open>The kinds the scanners give.\<close>

lemma number_kind: "fst (lex_number r) = TkIntLit \<or> fst (lex_number r) = TkFloatLit"
  by (simp add: lex_number_def Let_def split_beta)

lemma char_kind: "fst (lex_char r) = TkCharLit \<or> fst (lex_char r) = TkError"
  by (simp add: lex_char_def Let_def)

lemma word_kind_cases: "word_kind w = TkHole \<or> word_kind w = TkIdent \<or> (\<exists>k. word_kind w = TkKeyword k)"
  by (simp add: word_kind_def split: option.split)

lemma string_kinds:
  "fst (lex_prefixed_triple_string r) = TkStringLit" "fst (lex_c_prefixed_string raw r) = TkStringLit"
  "fst (lex_dollar_string r) = TkStringLit" "fst (lex_string r) = TkStringLit"
  by (simp_all add: lex_prefixed_triple_string_def lex_c_prefixed_string_def lex_dollar_string_def lex_string_def)

lemma punct_kind: "fst (lex_punct_or_unknown r) \<noteq> TkEof"
  by (simp add: lex_punct_or_unknown_def split: option.split)

lemma ident_kind: "fst (lex_ident_or_kw r) = word_kind (lexeme_of r (scan_ident (drop 1 r)))"
  by (simp add: lex_ident_or_kw_def Let_def)

lemma lex_token_cases:
  "fst (lex_token r) \<in> {TkIntLit, TkFloatLit, TkStringLit, TkCharLit, TkError, TkHole, TkIdent} \<union> range TkKeyword
   \<or> lex_token r = lex_punct_or_unknown r"
  unfolding lex_token_def Let_def
  using number_kind [of r] char_kind [of r] word_kind_cases [of "lexeme_of r (scan_ident (drop 1 r))"]
  by (auto simp: string_kinds ident_kind)

lemma lex_token_not_eof: "fst (lex_token r) \<noteq> TkEof"
  using lex_token_cases [of r] punct_kind [of r] by auto

lemma lex_token_punct: "fst (lex_token r) \<in> {TkUnknownPunct} \<union> range TkPunct \<Longrightarrow> lex_token r = lex_punct_or_unknown r"
  using lex_token_cases [of r] by auto

lemma lex_from_not_Nil: "lex_from fid n r \<noteq> []"
  by (subst lex_from.simps) (simp add: Let_def)

lemma suffix_drop_eq: "suffix r src \<Longrightarrow> r = drop (length src - length r) src"
  by (auto simp: suffix_def)

lemma lex_from_covers:
  assumes "length src < 4294967296"
  shows "suffix r src \<Longrightarrow> covers src (length src - length r) (lex_from fid (length src) r)"
proof (induction r rule: measure_induct_rule [of length])
  case (less r)
  define r1 where "r1 = skip_ws_and_comments r"
  obtain g where g: "r = g @ r1" "trivia (r1 = []) g" "\<not> starts_trivia r1"
    using skip_spec [of r] by (auto simp: r1_def)
  have r: "r = drop (length src - length r) src" using less.prems by (rule suffix_drop_eq)
  show ?case
  proof (cases "r1 = []")
    case True
    have "lex_from fid (length src) r = [eof_token fid (length src)]"
      using True by (subst lex_from.simps) (simp add: r1_def)
    moreover have "trivia True (drop (length src - length r) src)"
      using g(1,2) True by (subst r [symmetric]) simp
    ultimately show ?thesis using assms by (simp add: eof_token_def span_of_def)
  next
    case False
    have "r \<noteq> []" using False g(1) by simp
    define r2 where "r2 = snd (lex_token r1)"
    have lex: "lex_from fid (length src) r = make_token fid (length src) r1 (lex_token r1) # lex_from fid (length src) r2"
      using False \<open>r \<noteq> []\<close> by (subst lex_from.simps) (simp add: r1_def [symmetric] r2_def [symmetric])
    have r2: "suffix r2 r1" "length r2 < length r1"
      using lex_token_progress [OF False] by (auto simp: shorter_def r2_def)
    have suf: "suffix r1 src" "suffix r2 src"
      using g(1) less.prems r2(1) by (auto simp: suffix_def)
    then have len: "length r2 < length r1" "length r1 \<le> length r" "length r \<le> length src"
      using r2 g(1) less.prems by (auto dest: suffix_length_le)
    let ?lo = "length src - length r1" and ?hi = "length src - length r2"
    have "covers src ?hi (lex_from fid (length src) r2)"
      using less.IH [of r2] suf len by simp
    moreover have "take (?lo - (length src - length r)) (drop (length src - length r) src) = g"
    proof -
      have "?lo - (length src - length r) = length g" using g(1) len by simp
      moreover have "take (length g) r = g" using g(1) by (metis append_eq_conv_conj)
      ultimately show ?thesis by (simp only: r [symmetric])
    qed
    moreover have "drop ?lo src = r1" using suffix_drop_eq [OF suf(1)] by (rule sym)
    moreover have "u32 ?lo = ?lo" "u32 ?hi = ?hi" using assms by auto
    moreover have "?hi - ?lo = length r1 - length r2" using len by simp
    moreover have "length src - length r \<le> ?lo" "?lo < ?hi" using len by auto
    ultimately show ?thesis
      using g(2,3) False lex_token_not_eof [of r1] lex_from_not_Nil
      by (simp add: lex make_token_def span_of_def lexeme_of_def r2_def [symmetric] Let_def)
  qed
qed

lemma lex_from_tokens:
  assumes "t \<in> set (lex_from fid n r)" "tok_kind t \<noteq> TkEof"
  shows "\<exists>r'. suffix r' r \<and> r' \<noteq> [] \<and> t = make_token fid n r' (lex_token r')"
  using assms
proof (induction fid n r rule: lex_from.induct)
  case (1 fid n r)
  define r1 where "r1 = skip_ws_and_comments r"
  have r1: "suffix r1 r" by (simp add: r1_def suffix_skip)
  have ne: "r \<noteq> []" "r1 \<noteq> []"
    using 1(2,3) by (auto simp: lex_from.simps [of fid n r] eof_token_def r1_def Let_def split: if_splits)
  then have "t = make_token fid n r1 (lex_token r1) \<or> t \<in> set (lex_from fid n (snd (lex_token r1)))"
    using 1(2) by (auto simp: lex_from.simps [of fid n r] r1_def Let_def)
  then show ?case
  proof
    assume "t \<in> set (lex_from fid n (snd (lex_token r1)))"
    with 1(1) ne 1(3) obtain r' where "suffix r' (snd (lex_token r1))" "r' \<noteq> []" "t = make_token fid n r' (lex_token r')"
      by (auto simp: r1_def)
    moreover have "suffix (snd (lex_token r1)) r1" using lex_token_progress [OF ne(2)] by (simp add: shorter_def)
    with \<open>suffix r' (snd (lex_token r1))\<close> r1 have "suffix r' r" by (meson suffix_order.trans)
    ultimately show ?thesis by blast
  qed (use r1 ne in blast)
qed

section \<open>Punctuation\<close>

text \<open>No entry is a prefix of a later one.\<close>

fun longest_first :: "(string \<times> punct) list \<Rightarrow> bool" where
  "longest_first [] \<longleftrightarrow> True"
| "longest_first (e # es) \<longleftrightarrow> list_all (\<lambda>e'. \<not> prefix (fst e) (fst e')) es \<and> longest_first es"

lemma punct_table_longest_first: "longest_first punct_table"
  by (simp add: punct_table_def)

lemma punct_table_names: "list_all (\<lambda>e. punct_name (snd e) = fst e) punct_table"
  by (simp add: punct_table_def)

lemma punct_matches_prefix: "e \<in> set punct_table \<Longrightarrow> punct_matches r e \<longleftrightarrow> prefix (fst e) r"
proof -
  assume "e \<in> set punct_table"
  then have nz: "CHR 0x00 \<notin> set (fst e)" using punct_table_nonempty by (auto simp: list_all_iff)
  show ?thesis
  proof
    assume m: "punct_matches r e"
    have at: "i < length r \<and> r ! i = fst e ! i" if "i < length (fst e)" for i
    proof -
      have "peek i r = fst e ! i" using m that by (simp add: punct_matches_def list_all_iff)
      moreover have "fst e ! i \<noteq> CHR 0x00" using nz that nth_mem by metis
      ultimately show ?thesis by (auto simp: peek_def split: if_splits)
    qed
    have "length (fst e) \<le> length r" using at by (meson leI less_irrefl)
    moreover have "take (length (fst e)) r = fst e"
      using calculation at by (intro nth_equalityI) auto
    ultimately show "prefix (fst e) r" by (metis append_take_drop_id prefixI)
  next
    assume "prefix (fst e) r"
    then show "punct_matches r e" by (auto simp: prefix_def punct_matches_def list_all_iff peek_def nth_append)
  qed
qed

lemma find_longest:
  assumes "longest_first es" "find P es = Some e" "\<And>e. e \<in> set es \<Longrightarrow> P e \<longleftrightarrow> prefix (fst e) r" "e' \<in> set es" "prefix (fst e') r"
  shows "length (fst e') \<le> length (fst e)"
  using assms
proof (induction es)
  case (Cons x xs)
  show ?case
  proof (cases "P x")
    case True
    then have "prefix (fst x) r" "e = x" using Cons.prems by auto
    then show ?thesis using Cons.prems(1,4,5) prefix_same_cases [of "fst x" r "fst e'"]
      by (auto simp: list_all_iff dest: prefix_length_le)
  next
    case False
    then show ?thesis using Cons by auto
  qed
qed simp

section \<open>Well-formed UTF-8\<close>

text \<open>Unicode scalar values and their encoding.\<close>

definition scalar :: "nat \<Rightarrow> bool" where
  "scalar cp \<longleftrightarrow> cp \<le> 1114111 \<and> \<not> (55296 \<le> cp \<and> cp \<le> 57343)"

definition utf8_encode :: "nat \<Rightarrow> string" where
  "utf8_encode cp =
     map char_of
       (if cp < 128 then [cp]
        else if cp < 2048 then [192 + cp div 64, 128 + cp mod 64]
        else if cp < 65536 then [224 + cp div 4096, 128 + cp div 64 mod 64, 128 + cp mod 64]
        else [240 + cp div 262144, 128 + cp div 4096 mod 64, 128 + cp div 64 mod 64, 128 + cp mod 64])"

definition utf8_text :: "nat list \<Rightarrow> string" where
  "utf8_text cps = concat (map utf8_encode cps)"

lemma and_push_bit: "and b (push_bit k c) = push_bit k (and (drop_bit k b) c)" for b c :: nat
  by (rule bit_eqI) (auto simp: bit_simps)

lemma and_192: "and b 192 = (b div 64 mod 4) * (64 :: nat)"
proof -
  have "and b 192 = push_bit 6 (and (drop_bit 6 b) 3)" using and_push_bit [of b 6 3] by simp
  moreover have "and (drop_bit 6 b) 3 = take_bit 2 (drop_bit 6 b)"
    by (simp add: take_bit_eq_mask mask_eq_exp_minus_1)
  ultimately show ?thesis
    by (simp add: push_bit_eq_mult drop_bit_eq_div take_bit_eq_mod)
qed

lemma ubyte_less: "ubyte c < 256"
  unfolding ubyte_def using of_char_mod_256 [of c, where 'a = nat] by (metis mod_less_divisor zero_less_numeral)

lemma div_mod_64: "n = 64 * (n div 64) + n mod 64 \<and> n mod 64 < 64" for n :: nat
  by simp

lemma is_cont_iff:
  assumes "b < 256"
  shows "is_cont b \<longleftrightarrow> 128 \<le> b \<and> b \<le> 191"
proof -
  have "b div 64 < 4" using assms by simp
  then have "is_cont b \<longleftrightarrow> b div 64 = 2" unfolding is_cont_def and_192 by simp
  then show ?thesis using div_mod_64 [of b] by linarith
qed

lemma ubyte_char_of: "n < 256 \<Longrightarrow> ubyte (char_of n) = n"
  by (simp add: ubyte_def)

lemma char_of_ubyte [simp]: "char_of (ubyte c) = c"
  by (simp add: ubyte_def)

text \<open>One step of the check: the head is an encoded scalar value, or the offset is reported.\<close>

lemma utf8_step_ok:
  assumes "scalar cp"
  shows "utf8_bad i (utf8_encode cp @ s) = utf8_bad (i + length (utf8_encode cp)) s"
proof -
  have cont: "is_cont (ubyte (char_of (128 + n mod 64)))" for n :: nat
  proof -
    have "n mod 64 < 64" by simp
    then have "128 + n mod 64 < 256" "128 + n mod 64 \<le> 191" by linarith+
    then show ?thesis by (simp add: is_cont_iff ubyte_char_of)
  qed
  have mod: "n mod 64 < 64" for n :: nat by simp
  note ub = ubyte_char_of
  consider "cp < 128" | "128 \<le> cp" "cp < 2048" | "2048 \<le> cp" "cp < 65536" | "65536 \<le> cp" by linarith
  then show ?thesis
  proof cases
    case 1
    then show ?thesis by (simp add: utf8_encode_def ub)
  next
    case 2
    then have "2 \<le> cp div 64" "cp div 64 < 32" by auto
    with 2 show ?thesis using cont [of cp] by (simp add: utf8_encode_def ub)
  next
    case 3
    define q where "q = cp div 64"
    have q: "cp div 4096 = q div 64" by (simp add: q_def div_mult2_eq [symmetric])
    have bounds: "32 \<le> q" "q < 1024" using 3 by (auto simp: q_def)
    then have "cp div 4096 < 16" by (simp add: q)
    moreover have "cp div 4096 = 0 \<Longrightarrow> 32 \<le> q mod 64"
      using bounds div_mod_64 [of q] unfolding q by linarith
    moreover have "224 + cp div 4096 = 237 \<Longrightarrow> q mod 64 < 32"
      using assms div_mod_64 [of q] div_mod_64 [of cp] unfolding scalar_def q q_def [symmetric] by linarith
    ultimately show ?thesis using 3 cont [of cp] cont [of q] mod [of q]
      by (auto simp: utf8_encode_def ub q_def [symmetric] Let_def numeral_2_eq_2 numeral_3_eq_3 not_le)
  next
    case 4
    define q where "q = cp div 4096"
    have q: "cp div 262144 = q div 64" by (simp add: q_def div_mult2_eq [symmetric])
    have bounds: "16 \<le> q" "q \<le> 271" using 4 assms by (auto simp: q_def scalar_def)
    then have "cp div 262144 < 5" by (simp add: q)
    moreover have "cp div 262144 = 0 \<Longrightarrow> 16 \<le> q mod 64"
      using bounds div_mod_64 [of q] unfolding q by linarith
    moreover have "240 + cp div 262144 = 244 \<Longrightarrow> q mod 64 < 16"
      using bounds div_mod_64 [of q] unfolding q by linarith
    moreover have four: "i + 4 = Suc (Suc (Suc (Suc i)))" by simp
    ultimately show ?thesis using 4 cont [of cp] cont [of "cp div 64"] cont [of q] mod [of q]
      by (auto simp: four utf8_encode_def ub q_def [symmetric] Let_def numeral_2_eq_2 numeral_3_eq_3 not_le)
  qed
qed

lemma utf8_encode_length: "0 < length (utf8_encode cp)"
  by (simp add: utf8_encode_def)

text \<open>The value of the bytes of one sequence.\<close>

lemma div_mod_digit: "(b :: nat) \<le> 63 \<Longrightarrow> (a * 64 + b) div 64 = a \<and> (a * 64 + b) mod 64 = b"
  by simp

lemma encode2:
  fixes b0 b1 :: nat
  assumes "194 \<le> b0" "b0 \<le> 223" "128 \<le> b1" "b1 \<le> 191"
  shows "\<exists>cp. scalar cp \<and> utf8_encode cp = [char_of b0, char_of b1]"
proof -
  obtain a b where ab: "b0 = 192 + a" "b1 = 128 + b" "2 \<le> a" "a \<le> 31" "b \<le> 63"
    using assms that [of "b0 - 192" "b1 - 128"] by auto
  have "(a * 64 + b) div 64 = a" "(a * 64 + b) mod 64 = b" using ab(5) by auto
  moreover have "128 \<le> a * 64 + b" "a * 64 + b < 2048" using ab(3,4,5) by auto
  ultimately have "scalar (a * 64 + b) \<and> utf8_encode (a * 64 + b) = [char_of b0, char_of b1]"
    by (simp add: scalar_def utf8_encode_def ab(1,2))
  then show ?thesis by blast
qed

lemma encode3:
  fixes b0 b1 b2 :: nat
  assumes "224 \<le> b0" "b0 \<le> 239" "128 \<le> b1" "b1 \<le> 191" "128 \<le> b2" "b2 \<le> 191"
    "b0 = 224 \<longrightarrow> 160 \<le> b1" "b0 = 237 \<longrightarrow> b1 < 160"
  shows "\<exists>cp. scalar cp \<and> utf8_encode cp = [char_of b0, char_of b1, char_of b2]"
proof -
  obtain a b c where abc: "b0 = 224 + a" "b1 = 128 + b" "b2 = 128 + c" "a \<le> 15" "b \<le> 63" "c \<le> 63"
    using assms that [of "b0 - 224" "b1 - 128" "b2 - 128"] by auto
  define q where "q = a * 64 + b"
  define cp where "cp = q * 64 + c"
  have q: "q div 64 = a" "q mod 64 = b" and cp: "cp div 64 = q" "cp mod 64 = c"
    using div_mod_digit [OF abc(5), of a] div_mod_digit [OF abc(6), of q] unfolding q_def cp_def by blast+
  have "cp div 4096 = cp div 64 div 64" by (simp add: div_mult2_eq [symmetric])
  then have "cp div 4096 = a" using q cp by simp
  moreover have "\<not> (864 \<le> q \<and> q \<le> 895)"
  proof -
    consider "a \<le> 12" | "a = 13" | "14 \<le> a" by linarith
    then show ?thesis using assms(8) abc(1,2,5) unfolding q_def by cases auto
  qed
  with abc assms(7) have "32 \<le> q" "q \<le> 1023" "\<not> (864 \<le> q \<and> q \<le> 895)" unfolding q_def by auto
  then have "2048 \<le> cp" "cp < 65536" "\<not> (55296 \<le> cp \<and> cp \<le> 57343)"
    using abc(6) unfolding cp_def by auto
  ultimately have "scalar cp \<and> utf8_encode cp = [char_of b0, char_of b1, char_of b2]"
    using q cp by (simp add: scalar_def utf8_encode_def abc(1,2,3))
  then show ?thesis by blast
qed

lemma encode4:
  fixes b0 b1 b2 b3 :: nat
  assumes "240 \<le> b0" "b0 \<le> 244" "128 \<le> b1" "b1 \<le> 191" "128 \<le> b2" "b2 \<le> 191" "128 \<le> b3" "b3 \<le> 191"
    "b0 = 240 \<longrightarrow> 144 \<le> b1" "b0 = 244 \<longrightarrow> b1 \<le> 143"
  shows "\<exists>cp. scalar cp \<and> utf8_encode cp = [char_of b0, char_of b1, char_of b2, char_of b3]"
proof -
  obtain a b c d where abc: "b0 = 240 + a" "b1 = 128 + b" "b2 = 128 + c" "b3 = 128 + d" "a \<le> 4" "b \<le> 63" "c \<le> 63" "d \<le> 63"
    using assms that [of "b0 - 240" "b1 - 128" "b2 - 128" "b3 - 128"] by auto
  define p where "p = a * 64 + b"
  define q where "q = p * 64 + c"
  define cp where "cp = q * 64 + d"
  have p: "p div 64 = a" "p mod 64 = b" and q: "q div 64 = p" "q mod 64 = c" and cp: "cp div 64 = q" "cp mod 64 = d"
    using div_mod_digit [OF abc(6), of a] div_mod_digit [OF abc(7), of p] div_mod_digit [OF abc(8), of q]
    unfolding p_def q_def cp_def by blast+
  have "cp div 4096 = cp div 64 div 64" "cp div 262144 = cp div 64 div 64 div 64"
    by (simp_all add: div_mult2_eq [symmetric])
  then have div: "cp div 4096 = p" "cp div 262144 = a" using p q cp by simp_all
  have "16 \<le> p" "p \<le> 271" using assms(9,10) abc(1,2,5,6) unfolding p_def by auto
  then have "65536 \<le> cp" "cp \<le> 1114111" using abc(7,8) unfolding cp_def q_def by auto
  then have "scalar cp \<and> utf8_encode cp = [char_of b0, char_of b1, char_of b2, char_of b3]"
    using p q cp div by (simp add: scalar_def utf8_encode_def abc(1,2,3,4))
  then show ?thesis by blast
qed

lemma utf8_step_bad:
  assumes "s \<noteq> []"
  shows "(\<exists>cp r. scalar cp \<and> s = utf8_encode cp @ r) \<or> utf8_bad i s = Some (u32 i)"
proof (rule disjCI)
  assume bad: "utf8_bad i s \<noteq> Some (u32 i)"
  obtain c0 t where s: "s = c0 # t" using assms by (cases s) auto
  note less = ubyte_less [of c0] and cont = is_cont_iff [OF ubyte_less]
  note bad' = bad [unfolded s utf8_bad.simps Let_def]
  consider "ubyte c0 < 128" | "194 \<le> ubyte c0" "ubyte c0 \<le> 223" | "224 \<le> ubyte c0" "ubyte c0 \<le> 239"
    | "240 \<le> ubyte c0" "ubyte c0 \<le> 244"
    using bad' less by (auto split: if_splits)
  then show "\<exists>cp r. scalar cp \<and> s = utf8_encode cp @ r"
  proof cases
    case 1
    then have "scalar (ubyte c0) \<and> s = utf8_encode (ubyte c0) @ t" by (simp add: s scalar_def utf8_encode_def)
    then show ?thesis by blast
  next
    case 2
    then obtain c1 t' where t: "t = c1 # t'" using bad' by (cases t) (auto split: if_splits)
    have "128 \<le> ubyte c1" "ubyte c1 \<le> 191" using bad' 2 by (auto simp: t cont split: if_splits)
    from encode2 [OF 2 this] show ?thesis unfolding s t by fastforce
  next
    case 3
    then have "\<not> length t < 2" using bad' by (auto split: if_splits)
    then obtain c1 c2 t' where t: "t = c1 # c2 # t'" by (cases t rule: remdups_adj.cases) auto
    have "128 \<le> ubyte c1" "ubyte c1 \<le> 191" "128 \<le> ubyte c2" "ubyte c2 \<le> 191"
      "ubyte c0 = 224 \<longrightarrow> 160 \<le> ubyte c1" "ubyte c0 = 237 \<longrightarrow> ubyte c1 < 160"
      using bad' 3 by (auto simp: t cont split: if_splits)
    from encode3 [OF 3 this] show ?thesis unfolding s t by fastforce
  next
    case 4
    then have len: "\<not> length t < 3" using bad' by (auto split: if_splits)
    then obtain c1 t1 where t1: "t = c1 # t1" by (cases t) auto
    with len obtain c2 c3 t' where t: "t = c1 # c2 # c3 # t'" by (cases t1 rule: remdups_adj.cases) auto
    have "128 \<le> ubyte c1" "ubyte c1 \<le> 191" "128 \<le> ubyte c2" "ubyte c2 \<le> 191" "128 \<le> ubyte c3" "ubyte c3 \<le> 191"
      "ubyte c0 = 240 \<longrightarrow> 144 \<le> ubyte c1" "ubyte c0 = 244 \<longrightarrow> ubyte c1 \<le> 143"
      using bad' 4 by (auto simp: t cont numeral_2_eq_2 split: if_splits)
    from encode4 [OF 4 this] show ?thesis unfolding s t by fastforce
  qed
qed

lemma utf8_bad_spec:
  "i + length s < 4294967296 \<Longrightarrow>
   (case utf8_bad i s of
      None \<Rightarrow> \<exists>cps. list_all scalar cps \<and> s = utf8_text cps
    | Some off \<Rightarrow> i \<le> off \<and> off < i + length s
        \<and> (\<exists>cps. list_all scalar cps \<and> take (off - i) s = utf8_text cps)
        \<and> \<not> (\<exists>cp r. scalar cp \<and> drop (off - i) s = utf8_encode cp @ r))"
proof (induction s arbitrary: i rule: measure_induct_rule [of length])
  case (less s)
  consider "s = []" | cp r where "scalar cp" "s = utf8_encode cp @ r"
    | "s \<noteq> []" "\<not> (\<exists>cp r. scalar cp \<and> s = utf8_encode cp @ r)" by blast
  then show ?case
  proof cases
    case 1
    then show ?thesis by (auto simp: utf8_text_def intro: exI [of _ "[]"])
  next
    case (2 cp r)
    let ?n = "length (utf8_encode cp)"
    have eq: "utf8_bad i s = utf8_bad (i + ?n) r" using utf8_step_ok [OF 2(1)] 2(2) by simp
    have IH: "case utf8_bad (i + ?n) r of
        None \<Rightarrow> \<exists>cps. list_all scalar cps \<and> r = utf8_text cps
      | Some off \<Rightarrow> i + ?n \<le> off \<and> off < i + ?n + length r
          \<and> (\<exists>cps. list_all scalar cps \<and> take (off - (i + ?n)) r = utf8_text cps)
          \<and> \<not> (\<exists>cp r'. scalar cp \<and> drop (off - (i + ?n)) r = utf8_encode cp @ r')"
      using less.IH [of r "i + ?n"] less.prems utf8_encode_length [of cp] by (simp add: 2(2))
    have enc: "utf8_encode cp @ utf8_text cps = utf8_text (cp # cps)" for cps by (simp add: utf8_text_def)
    show ?thesis
    proof (cases "utf8_bad i s")
      case None
      with IH eq obtain cps where "list_all scalar cps" "r = utf8_text cps" by auto
      then have "list_all scalar (cp # cps) \<and> s = utf8_text (cp # cps)" using 2 enc by simp
      with None show ?thesis by (auto intro: exI [of _ "cp # cps"])
    next
      case (Some off)
      with eq have some: "utf8_bad (i + ?n) r = Some off" by simp
      from IH [unfolded some option.case] obtain cps where off: "i + ?n \<le> off" "off < i + ?n + length r" "list_all scalar cps"
          "take (off - (i + ?n)) r = utf8_text cps"
          "\<not> (\<exists>cp r'. scalar cp \<and> drop (off - (i + ?n)) r = utf8_encode cp @ r')" by blast
      have "off - i = ?n + (off - (i + ?n))" using off(1) by simp
      then have "take (off - i) s = utf8_text (cp # cps)" "drop (off - i) s = drop (off - (i + ?n)) r"
        using off(4) enc [of cps] by (simp_all add: 2(2))
      moreover have "list_all scalar (cp # cps)" using off(3) 2(1) by simp
      moreover have "i \<le> off" "off < i + length s" using off(1,2) by (simp_all add: 2(2))
      ultimately show ?thesis using off(5) unfolding Some option.case by metis
    qed
  next
    case 3
    then have "utf8_bad i s = Some i" using utf8_step_bad [OF 3(1), of i] less.prems by auto
    moreover have "list_all scalar [] \<and> take 0 s = utf8_text []" by (simp add: utf8_text_def)
    ultimately show ?thesis using 3 by (auto intro: exI [of _ "[]"])
  qed
qed

section \<open>Words and fixed spellings\<close>

definition whole_token :: "nat \<Rightarrow> token_kind \<Rightarrow> string \<Rightarrow> token" where
  "whole_token fid k w = \<lparr>tok_kind = k, tok_span = span_of fid 0 (length w), tok_lexeme = w\<rparr>"

lemma utf8_text_ok: "list_all scalar cps \<Longrightarrow> utf8_bad i (utf8_text cps) = None"
  by (induction cps arbitrary: i) (simp_all add: utf8_text_def utf8_step_ok)

lemma scan_ident_word: "list_all is_ident_cont w \<Longrightarrow> scan_ident w = []"
proof (induction w)
  case (Cons c w)
  have "\<not> triple_quote 1 (c # w)"
  proof
    assume "triple_quote 1 (c # w)"
    then have "CHR 0x22 \<in> set w" by (cases w) (auto simp: triple_quote_def peek_def split: if_splits)
    with Cons.prems have "is_ident_cont CHR 0x22" by (auto simp: list_all_iff)
    then show False by (simp add: is_ident_cont_def is_alnum_def is_alpha_def is_digit_def ubyte_def)
  qed
  with Cons show ?case by simp
qed simp

lemma lex_token_word:
  assumes "w \<noteq> []" "is_ident_start (hd w)" "list_all is_ident_cont (tl w)"
  shows "lex_token w = (word_kind w, [])"
proof -
  obtain c cs where w: "w = c # cs" using assms(1) by (cases w) auto
  have cs: "is_ident_cont d" if "d \<in> set cs" for d using assms(3) that by (simp add: w list_all_iff)
  have quote: "\<not> is_ident_cont CHR 0x22"
    by (simp add: is_ident_cont_def is_alnum_def is_alpha_def is_digit_def ubyte_def)
  have no_quote: "peek k w \<noteq> CHR 0x22" if "0 < k" for k
    using cs [OF nth_mem] quote that by (auto simp: w peek_def nth_Cons split: nat.split) metis
  have "\<not> is_digit c" "c \<noteq> CHR ''$''" "c \<noteq> CHR 0x22" "c \<noteq> CHR 0x27"
    using assms(2) by (auto simp: w is_ident_start_def is_alpha_def is_digit_def ubyte_def)
  moreover have "scan_ident cs = []" using assms(3) by (intro scan_ident_word) (simp add: w)
  moreover have "\<not> triple_quote 1 w" using no_quote by (simp add: triple_quote_def)
  moreover have "peek 0 w = c" "is_ident_start c" using assms(2) by (simp_all add: w peek_def)
  moreover have "lex_ident_or_kw w = (word_kind w, [])"
    using \<open>scan_ident cs = []\<close> by (simp add: w lex_ident_or_kw_def lexeme_of_def)
  ultimately show ?thesis
    using no_quote [of 1] no_quote [of 2] unfolding lex_token_def Let_def by simp
qed

lemma lex_one_token:
  assumes "utf8_validate_strict w = None" "w \<noteq> []" "\<not> starts_trivia w" "lex_token w = (k, [])"
  shows "fst (lex_all fid b w) = [whole_token fid k w, eof_token fid (length w)]"
proof -
  have "skip_ws_and_comments w = w"
    using assms(2,3) by (subst skip_ws_and_comments.simps)
      (cases w rule: remdups_adj.cases; auto simp: starts_trivia_def Let_def peek_def)
  then have "lex_from fid (length w) w = [whole_token fid k w, eof_token fid (length w)]"
    using assms(2,4) by (simp add: lex_from.simps [of fid _ w] lex_from.simps [of fid _ "[]"] make_token_def
        whole_token_def lexeme_of_def)
  then show ?thesis using assms(1) by (simp add: lex_all_def)
qed

lemma ident_start_no_trivia: "is_ident_start (hd w) \<Longrightarrow> \<not> starts_trivia w"
  by (cases w rule: remdups_adj.cases)
    (auto simp: starts_trivia_def is_ident_start_def is_space_def is_alpha_def ubyte_def)

lemma lex_word:
  assumes "utf8_validate_strict w = None" "w \<noteq> []" "is_ident_start (hd w)" "list_all is_ident_cont (tl w)"
  shows "fst (lex_all fid b w) = [whole_token fid (word_kind w) w, eof_token fid (length w)]"
  using lex_one_token [OF assms(1,2) ident_start_no_trivia [OF assms(3)] lex_token_word [OF assms(2-4)]] .

lemma keyword_back: "k \<noteq> KwPure \<Longrightarrow> k \<noteq> KwComptime \<Longrightarrow> map_of keyword_table (keyword_name k) = Some k"
  by (cases k) (simp_all add: keyword_table_def)

lemma keyword_words:
  "list_all (\<lambda>e. fst e \<noteq> [] \<and> fst e \<noteq> ''_'' \<and> is_ident_start (hd (fst e)) \<and> list_all is_ident_cont (tl (fst e))
      \<and> utf8_validate_strict (fst e) = None) keyword_table"
  by code_simp

lemma punct_tokens:
  "list_all (\<lambda>e. lex_token (fst e) = (TkPunct (snd e), []) \<and> fst e \<noteq> [] \<and> \<not> starts_trivia (fst e)
      \<and> utf8_validate_strict (fst e) = None) punct_table"
  by code_simp

lemma punct_in_table: "(punct_name p, p) \<in> set punct_table"
  by (cases p) (simp_all add: punct_table_def)

section \<open>Properties\<close>

text \<open>
  C29: The gate in front of the lexer accepts exactly well-formed UTF-8: the texts that are the
  encoding of a row of Unicode scalar values (no surrogate, nothing above 10FFFF, no overlong form).
  The offset it reports for another text is the end of its longest well-formed beginning: the
  bytes before are such an encoding, and no encoded scalar value starts there.
\<close>

theorem utf8_gate:
  assumes "length s < 4294967296"
  shows "(utf8_validate_strict s = None \<longleftrightarrow> (\<exists>cps. list_all scalar cps \<and> s = utf8_text cps))
    \<and> (\<forall>off. utf8_validate_strict s = Some off \<longrightarrow>
         off < length s \<and> (\<exists>cps. list_all scalar cps \<and> take off s = utf8_text cps)
         \<and> \<not> (\<exists>cp r. scalar cp \<and> drop off s = utf8_encode cp @ r))"
  using utf8_bad_spec [of 0 s] assms utf8_text_ok
  unfolding utf8_validate_strict_def by (cases "utf8_bad 0 s") auto

theorem utf8_gate_witness:
  "utf8_validate_strict [CHR ''a'', CHR 0xC0, CHR 0x80] = Some 1
   \<and> \<not> (\<exists>cp r. scalar cp \<and> [CHR 0xC0, CHR 0x80] = utf8_encode cp @ r)"
proof -
  have "utf8_validate_strict [CHR ''a'', CHR 0xC0, CHR 0x80] = Some 1" by code_simp
  with utf8_gate [of "[CHR ''a'', CHR 0xC0, CHR 0x80]"] show ?thesis by simp
qed

text \<open>
  C30: The tokens of a well-formed source tile it: in order and without overlap each token has a
  nonempty range of the source and the bytes of that range as its lexeme, between two tokens lies
  only white space and closed comments and no token starts with them, and the list ends with the
  one token for the end of the file, before which a comment may be left open. Every token carries
  the file's id.
\<close>

theorem tokens_tile_source:
  assumes "length src < 4294967296" "utf8_validate_strict src = None"
  shows "covers src 0 (fst (lex_all fid has_bag src))
    \<and> list_all (\<lambda>t. sp_file_id (tok_span t) = fid) (fst (lex_all fid has_bag src))"
proof
  show "covers src 0 (fst (lex_all fid has_bag src))"
    using lex_from_covers [OF assms(1), of src fid] assms(2) by (simp add: lex_all_def)
  have "list_all (\<lambda>t. sp_file_id (tok_span t) = fid) (lex_from fid n r)" for n r
    by (induction fid n r rule: lex_from.induct)
      (subst lex_from.simps, auto simp: Let_def eof_token_def make_token_def span_of_def)
  then show "list_all (\<lambda>t. sp_file_id (tok_span t) = fid) (fst (lex_all fid has_bag src))"
    using assms(2) by (simp add: lex_all_def)
qed

theorem tokens_tile_source_witness:
  "covers ''x/**/+1 //'' 0 (fst (lex_all 0 True ''x/**/+1 //''))"
proof -
  have "utf8_validate_strict ''x/**/+1 //'' = None" by code_simp
  then show ?thesis using tokens_tile_source [of "''x/**/+1 //''" 0 True] by simp
qed

text \<open>
  C31: Punctuation is matched greedily: where a token of punctuation starts, the source goes on
  with the spelling of its kind, and no spelling of the table that the source goes on with there
  is longer.
\<close>

theorem punctuation_greedy:
  assumes "length src < 4294967296" "t \<in> set (fst (lex_all fid has_bag src))" "tok_kind t = TkPunct p"
  shows "tok_lexeme t = punct_name p
    \<and> (\<forall>e \<in> set punct_table. prefix (fst e) (drop (sp_lo (tok_span t)) src) \<longrightarrow> length (fst e) \<le> length (punct_name p))"
proof -
  have t: "t \<in> set (lex_from fid (length src) src)"
    using assms(2,3) by (auto simp: lex_all_def eof_token_def split: option.splits)
  with lex_from_tokens [OF t] assms(3) obtain r where r: "suffix r src" "r \<noteq> []"
    "t = make_token fid (length src) r (lex_token r)" by auto
  then have kind: "fst (lex_token r) = TkPunct p" using assms(3) by (simp add: make_token_def)
  with lex_token_punct [of r] have lex: "lex_token r = lex_punct_or_unknown r" by auto
  with kind obtain e where e: "find (punct_matches r) punct_table = Some e" "snd e = p"
    by (auto simp: lex_punct_or_unknown_def split: option.splits)
  have "sp_lo (tok_span t) = length src - length r" using r(3) assms(1) by (simp add: make_token_def span_of_def)
  with suffix_drop_eq [OF r(1)] have at: "drop (sp_lo (tok_span t)) src = r" by simp
  have mem: "e \<in> set punct_table" "punct_matches r e" using find_SomeD [OF e(1)] by auto
  then have "prefix (fst e) r" "fst e = punct_name p"
    using punct_matches_prefix punct_table_names e(2) by (auto simp: list_all_iff)
  moreover have "tok_lexeme t = take (length (fst e)) r"
    using r(3) lex e(1) \<open>prefix (fst e) r\<close> by (auto simp: make_token_def lexeme_of_def lex_punct_or_unknown_def prefix_def)
  moreover have "length (fst e') \<le> length (fst e)" if "e' \<in> set punct_table" "prefix (fst e') r" for e'
    using find_longest [OF punct_table_longest_first e(1) punct_matches_prefix that] .
  ultimately show ?thesis unfolding at by (auto simp: prefix_def)
qed

theorem punctuation_greedy_witness:
  "prefix (punct_name PDotDotColon) (drop 1 ''a..:b'')"
proof -
  have "\<lparr>tok_kind = TkPunct PDotDotColon, tok_span = span_of 0 1 4, tok_lexeme = ''..:''\<rparr> \<in> set (fst (lex_all 0 True ''a..:b''))"
    by code_simp
  from punctuation_greedy [OF _ this] show ?thesis by (simp add: span_of_def)
qed

text \<open>
  C32: The fixed spellings come back: the name of every kind of punctuation, and of every keyword
  but the two that are spelled as attributes now (pure, comptime), lexes to one token of that
  kind over the whole text and the end of the file.
\<close>

theorem fixed_spellings_lex_back:
  assumes "k \<in> range TkPunct \<union> TkKeyword ` (- {KwPure, KwComptime})"
  shows "fst (lex_all fid has_bag (token_kind_name k)) =
    [whole_token fid k (token_kind_name k), eof_token fid (length (token_kind_name k))]"
  using assms
proof
  assume "k \<in> range TkPunct"
  then obtain p where "k = TkPunct p" by auto
  then show ?thesis
    using punct_tokens punct_in_table [of p] by (auto simp: list_all_iff intro!: lex_one_token dest!: bspec)
next
  assume "k \<in> TkKeyword ` (- {KwPure, KwComptime})"
  then obtain w where k: "k = TkKeyword w" "map_of keyword_table (keyword_name w) = Some w"
    using keyword_back by auto
  from map_of_SomeD [OF this(2)] keyword_words
  have word: "keyword_name w \<noteq> []" "keyword_name w \<noteq> ''_''" "is_ident_start (hd (keyword_name w))"
    "list_all is_ident_cont (tl (keyword_name w))" "utf8_validate_strict (keyword_name w) = None"
    by (auto simp: list_all_iff dest!: bspec)
  from lex_word [OF word(5,1,3,4)] k word(2) show ?thesis by (simp add: word_kind_def)
qed

theorem fixed_spellings_lex_back_witness:
  "fst (lex_all 7 True ''def'') = [whole_token 7 (TkKeyword KwFn) ''def'', eof_token 7 (length ''def'')]"
  using fixed_spellings_lex_back [of "TkKeyword KwFn" 7 True] by simp

end
