(* ===== verification/Bytes.thy ===== *)
theory Bytes
  imports Prelude "HOL-Library.Word"
begin

unbundle bit_operations_syntax

text \<open>
  Bytes and words of the binary formats (the helpers of
  \<open>backend/src/parlib/Parlib_codec_helpers.cpp\<close>): little-endian writes into a buffer and reads
  from one, fixed text fields, alignment and the FNV-1a hash. A byte is an \<open>8 word\<close>, the integers
  of the format are words of their width, buffer offsets and sizes are natural numbers.
\<close>

type_synonym byte = "8 word"
type_synonym u16 = "16 word"
type_synonym u32w = "32 word"
type_synonym u64 = "64 word"

section \<open>Buffers\<close>

text \<open>The bytes \<open>bs\<close> written over a buffer from \<open>off\<close> on; every write of the source is in range.\<close>

definition put_bytes :: "nat \<Rightarrow> byte list \<Rightarrow> byte list \<Rightarrow> byte list" where
  "put_bytes off bs out = take off out @ bs @ drop (off + length bs) out"

definition slice_bytes :: "nat \<Rightarrow> nat \<Rightarrow> byte list \<Rightarrow> byte list" where
  "slice_bytes off n bs = take n (drop off bs)"

lemma length_put_bytes [simp]: "off + length bs \<le> length out \<Longrightarrow> length (put_bytes off bs out) = length out"
  by (simp add: put_bytes_def)

lemma nth_put_bytes:
  "off + length bs \<le> length out \<Longrightarrow> i < length out \<Longrightarrow>
   put_bytes off bs out ! i = (if off \<le> i \<and> i < off + length bs then bs ! (i - off) else out ! i)"
  by (auto simp: put_bytes_def nth_append min_def)

section \<open>Little-endian integers\<close>

text \<open>Byte \<open>i\<close> is \<open>(v >> 8 * i) & 0xFF\<close>.\<close>

definition le_bytes :: "nat \<Rightarrow> 'a::len word \<Rightarrow> byte list" where
  "le_bytes n v = map (\<lambda>i. ucast (drop_bit (8 * i) v)) [0 ..< n]"

text \<open>The bytes from \<open>off\<close> on, shifted to their places and joined by \<open>|\<close>.\<close>

definition le_word :: "nat \<Rightarrow> nat \<Rightarrow> byte list \<Rightarrow> 'a::len word" where
  "le_word n off bs = fold (\<lambda>i v. v OR push_bit (8 * i) (ucast (bs ! (off + i)))) [0 ..< n] 0"

definition write_u16_le :: "nat \<Rightarrow> u16 \<Rightarrow> byte list \<Rightarrow> byte list" where
  "write_u16_le off v out = put_bytes off (le_bytes 2 v) out"

definition write_u32_le :: "nat \<Rightarrow> u32w \<Rightarrow> byte list \<Rightarrow> byte list" where
  "write_u32_le off v out = put_bytes off (le_bytes 4 v) out"

definition write_u64_le :: "nat \<Rightarrow> u64 \<Rightarrow> byte list \<Rightarrow> byte list" where
  "write_u64_le off v out = put_bytes off (le_bytes 8 v) out"

text \<open>A read past the end gives nothing.\<close>

definition read_u16_le :: "byte list \<Rightarrow> nat \<Rightarrow> u16 option" where
  "read_u16_le bs off = (if off + 2 > length bs then None else Some (le_word 2 off bs))"

definition read_u32_le :: "byte list \<Rightarrow> nat \<Rightarrow> u32w option" where
  "read_u32_le bs off = (if off + 4 > length bs then None else Some (le_word 4 off bs))"

definition read_u64_le :: "byte list \<Rightarrow> nat \<Rightarrow> u64 option" where
  "read_u64_le bs off = (if off + 8 > length bs then None else Some (le_word 8 off bs))"

lemma length_le_bytes [simp]: "length (le_bytes n v) = n"
  by (simp add: le_bytes_def)

lemma bit_le_word:
  "bit (le_word n off bs :: 'a::len word) k \<longleftrightarrow>
     k < LENGTH('a) \<and> k < 8 * n \<and> bit (bs ! (off + k div 8)) (k mod 8)"
proof (induction n)
  case (Suc n)
  have "bit (le_word (Suc n) off bs :: 'a word) k \<longleftrightarrow>
      bit (le_word n off bs :: 'a word) k
      \<or> (8 * n \<le> k \<and> k < LENGTH('a) \<and> k - 8 * n < 8 \<and> bit (bs ! (off + n)) (k - 8 * n))"
    by (auto simp: le_word_def bit_simps dest: bit_imp_le_length)
  moreover have "k div 8 = n" "k mod 8 = k - 8 * n" if "8 * n \<le> k" "k < 8 * n + 8"
    using that by (auto simp: div_nat_eqI mod_nat_eqI)
  ultimately show ?case unfolding Suc by fastforce
qed (simp add: le_word_def)

lemma bit_le_bytes:
  "i < n \<Longrightarrow> bit (le_bytes n v ! i) k \<longleftrightarrow> k < 8 \<and> bit v (8 * i + k)"
  by (auto simp: le_bytes_def bit_simps dest: bit_imp_le_length)

text \<open>Reading back what was written, there and elsewhere.\<close>

lemma le_word_same:
  fixes v :: "'a::len word"
  assumes "LENGTH('a) = 8 * n" "off + n \<le> length out"
  shows "(le_word n off (put_bytes off (le_bytes n v) out) :: 'a word) = v"
proof (rule bit_word_eqI)
  fix k assume k: "k < LENGTH('a)"
  then have i: "k div 8 < n" using assms(1) by auto
  have "put_bytes off (le_bytes n v) out ! (off + k div 8) = le_bytes n v ! (k div 8)"
    using assms(2) i by (simp add: nth_put_bytes)
  then show "bit (le_word n off (put_bytes off (le_bytes n v) out) :: 'a word) k = bit v k"
    using k assms(1) i by (simp add: bit_le_word bit_le_bytes)
qed

lemma le_word_other:
  assumes "off + length bs \<le> length out" "off' + n \<le> off \<or> off + length bs \<le> off'" "off' + n \<le> length out"
  shows "le_word n off' (put_bytes off bs out) = le_word n off' out"
proof -
  have "put_bytes off bs out ! (off' + i) = out ! (off' + i)" if "i < n" for i
    using assms that by (auto simp: nth_put_bytes)
  then show ?thesis unfolding le_word_def by (intro fold_cong) auto
qed

section \<open>Text fields\<close>

definition byte_of :: "char \<Rightarrow> byte" where
  "byte_of c = word_of_nat (of_char c)"

definition char_of_byte :: "byte \<Rightarrow> char" where
  "char_of_byte b = char_of (unat b)"

lemma char_of_byte_of [simp]: "char_of_byte (byte_of c) = c"
proof -
  have "of_char c mod (256 :: nat) = of_char c" by (rule of_char_mod_256)
  then show ?thesis by (simp add: byte_of_def char_of_byte_def unat_of_nat)
qed

lemma byte_of_0 [simp]: "byte_of CHR 0x00 = 0"
  by (simp add: byte_of_def)

text \<open>At most \<open>field_size - 1\<close> bytes and a terminator.\<close>

definition write_cstr_field :: "nat \<Rightarrow> nat \<Rightarrow> string \<Rightarrow> byte list \<Rightarrow> byte list" where
  "write_cstr_field off field_size s out =
     (let n = min (field_size - 1) (length s)
      in (put_bytes off (map byte_of (take n s)) out)[off + n := 0])"

definition read_cstr_field :: "byte list \<Rightarrow> nat \<Rightarrow> nat \<Rightarrow> string" where
  "read_cstr_field bs off field_size =
     takeWhile (\<lambda>c. c \<noteq> CHR 0x00) (map char_of_byte (slice_bytes off field_size bs))"

section \<open>Alignment\<close>

definition is_power_of_two :: "u32w \<Rightarrow> bool" where
  "is_power_of_two x = (x \<noteq> 0 \<and> x AND (x - 1) = 0)"

definition align_up :: "u64 \<Rightarrow> u32w \<Rightarrow> u64" where
  "align_up value align =
     (if align \<le> 1 then value
      else let mask = (ucast align :: u64) - 1 in (value + mask) AND NOT mask)"

section \<open>FNV-1a\<close>

definition fnv1a64_update :: "u64 \<Rightarrow> byte list \<Rightarrow> u64" where
  "fnv1a64_update h bs = fold (\<lambda>b h. (h XOR ucast b) * 1099511628211) bs h"

lemma fnv1a64_update_append: "fnv1a64_update h (as @ bs) = fnv1a64_update (fnv1a64_update h as) bs"
  by (simp add: fnv1a64_update_def)

lemma align_up_small: "align \<le> 1 \<Longrightarrow> align_up v align = v"
  by (simp add: align_up_def)

end
