(* ===== verification/Parlib_Format.thy ===== *)
theory Parlib_Format
  imports Bytes "HOL-Library.Monad_Syntax"
begin

text \<open>
  The parlib container format (\<open>backend/include/parus/backend/parlib/Parlib.hpp\<close>,
  \<open>backend/src/parlib/Parlib_codec_helpers.cpp\<close>): the header, the table of contents, the footer
  and the two text indexes, each with its writer and its reader. Chunk kinds, lanes and
  compressions are 16-bit numbers, since the reader casts whatever it finds.
\<close>

section \<open>Data\<close>

type_synonym chunk_kind = u16
type_synonym lane = u16
type_synonym compression = u16

abbreviation kManifest :: chunk_kind where "kManifest \<equiv> 1"
abbreviation kStringTable :: chunk_kind where "kStringTable \<equiv> 2"
abbreviation kExportCIndex :: chunk_kind where "kExportCIndex \<equiv> 3"
abbreviation kNativeDeps :: chunk_kind where "kNativeDeps \<equiv> 4"
abbreviation kSymbolIndex :: chunk_kind where "kSymbolIndex \<equiv> 5"
abbreviation kTypeMeta :: chunk_kind where "kTypeMeta \<equiv> 6"
abbreviation kOirArchive :: chunk_kind where "kOirArchive \<equiv> 7"
abbreviation kObjectArchive :: chunk_kind where "kObjectArchive \<equiv> 8"
abbreviation kDebug :: chunk_kind where "kDebug \<equiv> 9"
abbreviation kSourceMap :: chunk_kind where "kSourceMap \<equiv> 10"
abbreviation kNativeArchivePayload :: chunk_kind where "kNativeArchivePayload \<equiv> 11"
abbreviation kReserved :: chunk_kind where "kReserved \<equiv> 32767"

abbreviation kGlobal :: lane where "kGlobal \<equiv> 0"
abbreviation kPcore :: lane where "kPcore \<equiv> 1"
abbreviation kPrt :: lane where "kPrt \<equiv> 2"
abbreviation kPstd :: lane where "kPstd \<equiv> 3"
abbreviation kVendorBegin :: lane where "kVendorBegin \<equiv> 32768"

abbreviation kNone :: compression where "kNone \<equiv> 0"

datatype native_dep_kind = DepStatic | DepShared | DepFramework | DepSystem
datatype native_dep_mode = DepEmbed | DepReference

record export_entry =
  ex_symbol :: string
  ex_signature :: string
  ex_lane :: lane
  ex_chunk_kind :: chunk_kind
  ex_target_id :: u32w
  ex_visible :: bool

record native_dep =
  nd_name :: string
  nd_kind :: native_dep_kind
  nd_mode :: native_dep_mode
  nd_target_filter :: string
  nd_link_order :: u32w
  nd_required :: bool
  nd_hash :: u64
  nd_reference :: string

record chunk_payload =
  cp_kind :: chunk_kind
  cp_lane :: lane
  cp_target_id :: u32w
  cp_alignment :: u32w
  cp_compression :: compression
  cp_bytes :: "byte list"

record header_info =
  hd_format_major :: u16
  hd_format_minor :: u16
  hd_flags :: u32w
  hd_feature_bits :: u64
  hd_compiler_hash :: u64
  hd_bundle_id :: string
  hd_target_triple :: string
  hd_target_summary :: string
  hd_header_size :: u32w
  hd_chunk_stream_offset :: u64
  hd_chunk_stream_size :: u64
  hd_toc_offset :: u64
  hd_toc_size :: u64
  hd_toc_entry_size :: u32w
  hd_toc_entry_count :: u32w
  hd_footer_offset :: u64
  hd_file_size :: u64

record chunk_record =
  cr_kind :: chunk_kind
  cr_lane :: lane
  cr_target_id :: u32w
  cr_alignment :: u32w
  cr_compression :: compression
  cr_offset :: u64
  cr_size :: u64
  cr_checksum :: u64
  cr_content_hash :: u64
  cr_deduplicated :: bool

abbreviation k_format_major_v1 :: u16 where "k_format_major_v1 \<equiv> 1"
abbreviation k_format_minor_v1 :: u16 where "k_format_minor_v1 \<equiv> 1"
abbreviation k_header_size_v1 :: nat where "k_header_size_v1 \<equiv> 256"
abbreviation k_toc_entry_size_v1 :: nat where "k_toc_entry_size_v1 \<equiv> 64"
abbreviation k_footer_size_v1 :: nat where "k_footer_size_v1 \<equiv> 32"
abbreviation k_hash_seed_content :: u64 where "k_hash_seed_content \<equiv> 1469598103934665603"
abbreviation k_hash_seed_checksum :: u64 where "k_hash_seed_checksum \<equiv> 1099511628211"

section \<open>Names\<close>

definition lane_name :: "lane \<Rightarrow> string" where
  "lane_name l =
     (if l = kGlobal then ''global'' else if l = kPcore then ''pcore'' else if l = kPrt then ''prt''
      else if l = kPstd then ''pstd'' else if l = kVendorBegin then ''vendor'' else ''unknown'')"

definition chunk_kind_name :: "chunk_kind \<Rightarrow> string" where
  "chunk_kind_name k =
     (if k = kManifest then ''Manifest'' else if k = kStringTable then ''StringTable''
      else if k = kExportCIndex then ''ExportCIndex'' else if k = kNativeDeps then ''NativeDeps''
      else if k = kSymbolIndex then ''SymbolIndex'' else if k = kTypeMeta then ''TypeMeta''
      else if k = kOirArchive then ''OIRArchive'' else if k = kObjectArchive then ''ObjectArchive''
      else if k = kDebug then ''Debug'' else if k = kSourceMap then ''SourceMap''
      else if k = kNativeArchivePayload then ''NativeArchivePayload''
      else if k = kReserved then ''Reserved'' else ''Unknown'')"

definition compression_name :: "compression \<Rightarrow> string" where
  "compression_name c = (if c = kNone then ''none'' else ''unknown'')"

fun native_dep_kind_name :: "native_dep_kind \<Rightarrow> string" where
  "native_dep_kind_name DepStatic = ''static''"
| "native_dep_kind_name DepShared = ''shared''"
| "native_dep_kind_name DepFramework = ''framework''"
| "native_dep_kind_name DepSystem = ''system''"

fun native_dep_mode_name :: "native_dep_mode \<Rightarrow> string" where
  "native_dep_mode_name DepEmbed = ''embed''"
| "native_dep_mode_name DepReference = ''reference''"

definition parse_lane_name :: "string \<Rightarrow> lane option" where
  "parse_lane_name = map_of [(''global'', kGlobal), (''pcore'', kPcore), (''prt'', kPrt), (''pstd'', kPstd),
     (''vendor'', kVendorBegin)]"

definition parse_chunk_kind_name :: "string \<Rightarrow> chunk_kind option" where
  "parse_chunk_kind_name = map_of [(''Manifest'', kManifest), (''StringTable'', kStringTable),
     (''ExportCIndex'', kExportCIndex), (''NativeDeps'', kNativeDeps), (''SymbolIndex'', kSymbolIndex),
     (''TypeMeta'', kTypeMeta), (''OIRArchive'', kOirArchive), (''ObjectArchive'', kObjectArchive),
     (''Debug'', kDebug), (''SourceMap'', kSourceMap), (''NativeArchivePayload'', kNativeArchivePayload),
     (''Reserved'', kReserved)]"

definition parse_native_dep_kind_name :: "string \<Rightarrow> native_dep_kind option" where
  "parse_native_dep_kind_name = map_of [(''static'', DepStatic), (''shared'', DepShared),
     (''framework'', DepFramework), (''system'', DepSystem)]"

definition parse_native_dep_mode_name :: "string \<Rightarrow> native_dep_mode option" where
  "parse_native_dep_mode_name = map_of [(''embed'', DepEmbed), (''reference'', DepReference)]"

section \<open>Text indexes\<close>

definition sanitize_line_field :: "string \<Rightarrow> string" where
  "sanitize_line_field s = map (\<lambda>c. if c = CHR 0x09 \<or> c = CHR 0x0A \<or> c = CHR 0x0D then CHR '' '' else c) s"

text \<open>\<open>std::stoull\<close> in base ten; a value out of range and text without digits give 0 here.\<close>

definition parse_u64_or_zero :: "string \<Rightarrow> u64" where
  "parse_u64_or_zero s =
     (let t = dropWhile is_space s;
          neg = (t \<noteq> [] \<and> hd t = CHR ''-'');
          u = (if t \<noteq> [] \<and> (hd t = CHR ''-'' \<or> hd t = CHR ''+'') then tl t else t);
          ds = takeWhile is_digit u;
          n = undec (map char_digit ds)
      in if ds = [] then 0
         else if 18446744073709551615 < n then 0
         else if neg then - word_of_nat n else word_of_nat n)"

definition bytes_of :: "string \<Rightarrow> byte list" where
  "bytes_of s = map byte_of s"

definition text_of :: "byte list \<Rightarrow> string" where
  "text_of bs = map char_of_byte bs"

definition dec_word :: "'a::len word \<Rightarrow> string" where
  "dec_word w = dec (unat w)"

text \<open>Fields with tabs between and a newline at the end.\<close>

fun tab_line :: "string list \<Rightarrow> string" where
  "tab_line [] = [CHR 0x0A]"
| "tab_line [f] = f @ [CHR 0x0A]"
| "tab_line (f # g # fs) = f @ CHR 0x09 # tab_line (g # fs)"

definition export_fields :: "export_entry \<Rightarrow> string list" where
  "export_fields e =
     [sanitize_line_field (ex_symbol e), sanitize_line_field (ex_signature e), lane_name (ex_lane e),
      chunk_kind_name (ex_chunk_kind e), dec_word (ex_target_id e), if ex_visible e then ''1'' else ''0'']"

definition encode_export_c_index :: "export_entry list \<Rightarrow> byte list" where
  "encode_export_c_index es = bytes_of (concat (map (\<lambda>e. tab_line (export_fields e)) es))"

definition dep_fields :: "native_dep \<Rightarrow> string list" where
  "dep_fields e =
     [sanitize_line_field (nd_name e), native_dep_kind_name (nd_kind e), native_dep_mode_name (nd_mode e),
      sanitize_line_field (nd_target_filter e), dec_word (nd_link_order e), if nd_required e then ''1'' else ''0'',
      dec_word (nd_hash e), sanitize_line_field (nd_reference e)]"

definition encode_native_deps :: "native_dep list \<Rightarrow> byte list" where
  "encode_native_deps es = bytes_of (concat (map (\<lambda>e. tab_line (dep_fields e)) es))"

text \<open>\<open>split_view_\<close>: the parts between separators, one more than there are separators.\<close>

fun split_from :: "char \<Rightarrow> string \<Rightarrow> string \<Rightarrow> string list" where
  "split_from sep acc [] = [rev acc]"
| "split_from sep acc (c # s) = (if c = sep then rev acc # split_from sep [] s else split_from sep (c # acc) s)"

definition split_view :: "string \<Rightarrow> char \<Rightarrow> string list" where
  "split_view s sep = split_from sep [] s"

text \<open>The lines \<open>std::getline\<close> gives: no line after a last newline.\<close>

fun lines_from :: "string \<Rightarrow> string \<Rightarrow> string list" where
  "lines_from acc [] = (if acc = [] then [] else [rev acc])"
| "lines_from acc (c # s) = (if c = CHR 0x0A then rev acc # lines_from [] s else lines_from (c # acc) s)"

definition text_lines :: "string \<Rightarrow> string list" where
  "text_lines s = lines_from [] s"

definition parse_export_line :: "string \<Rightarrow> export_entry option" where
  "parse_export_line line =
     (let f = split_view line CHR 0x09 in
      if line = [] \<or> length f < 6 then None
      else do {
        l \<leftarrow> parse_lane_name (f ! 2);
        k \<leftarrow> parse_chunk_kind_name (f ! 3);
        Some \<lparr>ex_symbol = f ! 0, ex_signature = f ! 1, ex_lane = l, ex_chunk_kind = k,
              ex_target_id = ucast (parse_u64_or_zero (f ! 4)), ex_visible = (parse_u64_or_zero (f ! 5) \<noteq> 0)\<rparr>
      })"

definition parse_export_c_index :: "byte list \<Rightarrow> export_entry list" where
  "parse_export_c_index bs = List.map_filter parse_export_line (text_lines (text_of bs))"

definition parse_dep_line :: "string \<Rightarrow> native_dep option" where
  "parse_dep_line line =
     (let f = split_view line CHR 0x09 in
      if line = [] \<or> length f < 8 then None
      else do {
        k \<leftarrow> parse_native_dep_kind_name (f ! 1);
        m \<leftarrow> parse_native_dep_mode_name (f ! 2);
        Some \<lparr>nd_name = f ! 0, nd_kind = k, nd_mode = m, nd_target_filter = f ! 3,
              nd_link_order = ucast (parse_u64_or_zero (f ! 4)), nd_required = (parse_u64_or_zero (f ! 5) \<noteq> 0),
              nd_hash = parse_u64_or_zero (f ! 6), nd_reference = f ! 7\<rparr>
      })"

definition parse_native_deps :: "byte list \<Rightarrow> native_dep list" where
  "parse_native_deps bs = List.map_filter parse_dep_line (text_lines (text_of bs))"

section \<open>Header, table of contents, footer\<close>

definition k_magic :: "byte list" where
  "k_magic = bytes_of ''PRLB''"

definition k_footer_magic :: "byte list" where
  "k_footer_magic = bytes_of ''PFT1''"

definition serialize_header :: "header_info \<Rightarrow> byte list" where
  "serialize_header h =
     write_cstr_field 144 32 (hd_target_summary h)
      (write_cstr_field 112 32 (hd_bundle_id h)
       (write_cstr_field 80 32 (hd_target_triple h)
        (write_u32_le 76 (hd_toc_entry_size h)
         (write_u32_le 72 (hd_toc_entry_count h)
          (write_u64_le 64 (hd_compiler_hash h)
           (write_u64_le 56 (hd_feature_bits h)
            (write_u64_le 48 (hd_file_size h)
             (write_u64_le 40 (hd_toc_size h)
              (write_u64_le 32 (hd_toc_offset h)
               (write_u64_le 24 (hd_chunk_stream_size h)
                (write_u64_le 16 (hd_chunk_stream_offset h)
                 (write_u32_le 12 (hd_header_size h)
                  (write_u32_le 8 (hd_flags h)
                   (write_u16_le 6 (hd_format_minor h)
                    (write_u16_le 4 (hd_format_major h)
                     (put_bytes 0 k_magic (replicate k_header_size_v1 0)))))))))))))))))"

definition deserialize_header :: "byte list \<Rightarrow> header_info option" where
  "deserialize_header bs =
     (if length bs < k_header_size_v1 then None
      else if slice_bytes 0 4 bs \<noteq> k_magic then None
      else do {
        major \<leftarrow> read_u16_le bs 4;
        minor \<leftarrow> read_u16_le bs 6;
        flags \<leftarrow> read_u32_le bs 8;
        header_size \<leftarrow> read_u32_le bs 12;
        stream_offset \<leftarrow> read_u64_le bs 16;
        stream_size \<leftarrow> read_u64_le bs 24;
        toc_offset \<leftarrow> read_u64_le bs 32;
        toc_size \<leftarrow> read_u64_le bs 40;
        file_size \<leftarrow> read_u64_le bs 48;
        feature_bits \<leftarrow> read_u64_le bs 56;
        compiler_hash \<leftarrow> read_u64_le bs 64;
        toc_entry_count \<leftarrow> read_u32_le bs 72;
        toc_entry_size \<leftarrow> read_u32_le bs 76;
        Some \<lparr>hd_format_major = major, hd_format_minor = minor, hd_flags = flags,
              hd_feature_bits = feature_bits, hd_compiler_hash = compiler_hash,
              hd_bundle_id = read_cstr_field bs 112 32, hd_target_triple = read_cstr_field bs 80 32,
              hd_target_summary = read_cstr_field bs 144 32, hd_header_size = header_size,
              hd_chunk_stream_offset = stream_offset, hd_chunk_stream_size = stream_size,
              hd_toc_offset = toc_offset, hd_toc_size = toc_size, hd_toc_entry_size = toc_entry_size,
              hd_toc_entry_count = toc_entry_count, hd_footer_offset = 0, hd_file_size = file_size\<rparr>
      })"

definition serialize_toc_entry :: "chunk_record \<Rightarrow> byte list" where
  "serialize_toc_entry r =
     write_u64_le 56 0
      (write_u64_le 48 0
       (write_u64_le 40 (cr_content_hash r)
        (write_u64_le 32 (cr_checksum r)
         (write_u64_le 24 (cr_size r)
          (write_u64_le 16 (cr_offset r)
           (write_u16_le 14 0
            (write_u16_le 12 (cr_compression r)
             (write_u32_le 8 (cr_alignment r)
              (write_u32_le 4 (cr_target_id r)
               (write_u16_le 2 (cr_lane r)
                (write_u16_le 0 (cr_kind r) (replicate k_toc_entry_size_v1 0))))))))))))"

definition deserialize_toc_entry :: "byte list \<Rightarrow> nat \<Rightarrow> chunk_record option" where
  "deserialize_toc_entry bs off = do {
     kind \<leftarrow> read_u16_le bs (off + 0);
     lane \<leftarrow> read_u16_le bs (off + 2);
     target \<leftarrow> read_u32_le bs (off + 4);
     alignment \<leftarrow> read_u32_le bs (off + 8);
     comp \<leftarrow> read_u16_le bs (off + 12);
     offset \<leftarrow> read_u64_le bs (off + 16);
     size \<leftarrow> read_u64_le bs (off + 24);
     checksum \<leftarrow> read_u64_le bs (off + 32);
     content_hash \<leftarrow> read_u64_le bs (off + 40);
     Some \<lparr>cr_kind = kind, cr_lane = lane, cr_target_id = target, cr_alignment = alignment,
           cr_compression = comp, cr_offset = offset, cr_size = size, cr_checksum = checksum,
           cr_content_hash = content_hash, cr_deduplicated = False\<rparr>
   }"

definition footer_body :: "u64 \<Rightarrow> u64 \<Rightarrow> byte list" where
  "footer_body toc_offset toc_size =
     write_u64_le 16 toc_size
      (write_u64_le 8 toc_offset
       (write_u32_le 4 1 (put_bytes 0 k_footer_magic (replicate k_footer_size_v1 0))))"

definition serialize_footer :: "u64 \<Rightarrow> u64 \<Rightarrow> byte list" where
  "serialize_footer toc_offset toc_size =
     (let out = footer_body toc_offset toc_size
      in write_u64_le 24 (fnv1a64_update k_hash_seed_content (slice_bytes 0 24 out)) out)"

definition deserialize_footer :: "byte list \<Rightarrow> (u64 \<times> u64) option" where
  "deserialize_footer bs =
     (if length bs \<noteq> k_footer_size_v1 then None
      else if slice_bytes 0 4 bs \<noteq> k_footer_magic then None
      else do {
        ver \<leftarrow> read_u32_le bs 4;
        toc_offset \<leftarrow> read_u64_le bs 8;
        toc_size \<leftarrow> read_u64_le bs 16;
        checksum \<leftarrow> read_u64_le bs 24;
        if ver \<noteq> 1 then None
        else if checksum \<noteq> fnv1a64_update k_hash_seed_content (slice_bytes 0 24 bs) then None
        else Some (toc_offset, toc_size)
      })"

section \<open>Reading back\<close>

lemmas word_writes = write_u16_le_def write_u32_le_def write_u64_le_def
lemmas word_reads = read_u16_le_def read_u32_le_def read_u64_le_def

text \<open>The text a field of \<open>n\<close> bytes keeps.\<close>

definition field_text :: "nat \<Rightarrow> string \<Rightarrow> string" where
  "field_text n s = takeWhile (\<lambda>c. c \<noteq> CHR 0x00) (take (n - 1) s)"

lemma length_write_cstr [simp]:
  "off + n \<le> length out \<Longrightarrow> 0 < n \<Longrightarrow> length (write_cstr_field off n s out) = length out"
  by (simp add: write_cstr_field_def Let_def)

lemma le_word_write_cstr:
  assumes "off + n \<le> length out" "0 < n" "off' + m \<le> off \<or> off + n \<le> off'" "off' + m \<le> length out"
  shows "le_word m off' (write_cstr_field off n s out) = le_word m off' out"
proof -
  let ?k = "min (n - 1) (length s)"
  have "write_cstr_field off n s out ! (off' + i) = out ! (off' + i)" if "i < m" for i
    using assms that by (auto simp: write_cstr_field_def Let_def nth_put_bytes nth_list_update)
  then show ?thesis unfolding le_word_def by (intro fold_cong) auto
qed

lemma slice_put_other:
  assumes "off + length bs \<le> length out" "off' + n \<le> off \<or> off + length bs \<le> off'" "off' + n \<le> length out"
  shows "slice_bytes off' n (put_bytes off bs out) = slice_bytes off' n out"
  using assms by (intro nth_equalityI) (auto simp: slice_bytes_def nth_put_bytes)

lemma slice_put_same:
  "off + length bs \<le> length out \<Longrightarrow> slice_bytes off (length bs) (put_bytes off bs out) = bs"
  by (simp add: slice_bytes_def put_bytes_def)

lemma slice_write_cstr_other:
  assumes "off + n \<le> length out" "0 < n" "off' + m \<le> off \<or> off + n \<le> off'" "off' + m \<le> length out"
  shows "slice_bytes off' m (write_cstr_field off n s out) = slice_bytes off' m out"
  using assms
  by (intro nth_equalityI)
    (auto simp: slice_bytes_def write_cstr_field_def Let_def nth_put_bytes nth_list_update)

lemma read_write_cstr_other:
  assumes "off + n \<le> length out" "0 < n" "off' + m \<le> off \<or> off + n \<le> off'" "off' + m \<le> length out"
  shows "read_cstr_field (write_cstr_field off n s out) off' m = read_cstr_field out off' m"
  using slice_write_cstr_other [OF assms] by (simp add: read_cstr_field_def)

lemma read_write_cstr_same:
  assumes "off + n \<le> length out" "0 < n"
  shows "read_cstr_field (write_cstr_field off n s out) off n = field_text n s"
proof -
  define k where "k = min (n - 1) (length s)"
  have k: "k < n" using assms(2) by (simp add: k_def)
  let ?w = "write_cstr_field off n s out"
  have at: "?w ! (off + i) = (if i < k then byte_of (s ! i) else if i = k then 0 else out ! (off + i))"
    if "i < n" for i
    using assms that k by (auto simp: write_cstr_field_def Let_def nth_put_bytes nth_list_update k_def)
  have "map char_of_byte (slice_bytes off n ?w) = map char_of_byte (map (\<lambda>i. ?w ! (off + i)) [0 ..< n])"
    using assms by (intro nth_equalityI) (auto simp: slice_bytes_def)
  also have "\<dots> = map (\<lambda>i. char_of_byte (?w ! (off + i))) ([0 ..< k] @ [k ..< n])"
    using k upt_add_eq_append [of 0 k "n - k"] by simp
  also have "\<dots> = take k s @ map (\<lambda>i. char_of_byte (?w ! (off + i))) [k ..< n]"
    using k by (auto simp: at k_def intro!: nth_equalityI)
  also have "map (\<lambda>i. char_of_byte (?w ! (off + i))) [k ..< n]
      = CHR 0x00 # map (\<lambda>i. char_of_byte (?w ! (off + i))) [Suc k ..< n]"
    using k by (simp add: upt_conv_Cons at char_of_byte_of [of "CHR 0x00", simplified])
  finally have "read_cstr_field ?w off n = takeWhile (\<lambda>c. c \<noteq> CHR 0x00) (take k s @ CHR 0x00 # map (\<lambda>i. char_of_byte (?w ! (off + i))) [Suc k ..< n])"
    by (simp only: read_cstr_field_def)
  also have "\<dots> = takeWhile (\<lambda>c. c \<noteq> CHR 0x00) (take k s)" by (simp add: takeWhile_tail)
  also have "take k s = take (n - 1) s" by (simp add: k_def min_def)
  finally show ?thesis by (simp add: field_text_def)
qed

text \<open>The header as it is read back.\<close>

definition stored_header :: "header_info \<Rightarrow> header_info" where
  "stored_header h = h\<lparr>hd_bundle_id := field_text 32 (hd_bundle_id h), hd_target_triple := field_text 32 (hd_target_triple h),
     hd_target_summary := field_text 32 (hd_target_summary h), hd_footer_offset := 0\<rparr>"

lemma length_k_magic [simp]: "length k_magic = 4" "length k_footer_magic = 4"
  by (simp_all add: k_magic_def k_footer_magic_def bytes_of_def)

end
