(* ===== verification/Parlib_Layout.thy ===== *)
theory Parlib_Layout
  imports Parlib_Format
begin

text \<open>
  The formats of \<open>Parlib_Format\<close> read back what they write: the header but for what its text
  fields cut off, an entry of the table of contents at any place of a buffer, the footer, and the
  two indexes but for tabs and line ends in their texts.
\<close>

section \<open>Rows of writes\<close>

text \<open>A row of writes that do not touch each other, in ascending order.\<close>

definition puts :: "(nat \<times> byte list) list \<Rightarrow> byte list \<Rightarrow> byte list" where
  "puts ws out = fold (\<lambda>(off, bs). put_bytes off bs) ws out"

fun apart :: "nat \<Rightarrow> nat \<Rightarrow> (nat \<times> byte list) list \<Rightarrow> bool" where
  "apart lo n [] \<longleftrightarrow> True"
| "apart lo n ((off, bs) # ws) \<longleftrightarrow> lo \<le> off \<and> off + length bs \<le> n \<and> apart (off + length bs) n ws"

lemma puts_length: "apart lo (length out) ws \<Longrightarrow> length (puts ws out) = length out"
  by (induction ws arbitrary: lo out) (auto simp: puts_def)

lemma puts_below:
  "apart lo (length out) ws \<Longrightarrow> off + n \<le> lo \<Longrightarrow> lo \<le> length out \<Longrightarrow> slice_bytes off n (puts ws out) = slice_bytes off n out"
proof (induction ws arbitrary: lo out)
  case (Cons w ws)
  obtain o' b where w: "w = (o', b)" by (cases w)
  have "slice_bytes off n (puts ws (put_bytes o' b out)) = slice_bytes off n (put_bytes o' b out)"
    using Cons w by (intro Cons.IH [of "o' + length b"]) auto
  also have "\<dots> = slice_bytes off n out"
    using Cons.prems w by (intro slice_put_other) auto
  finally show ?case by (simp add: puts_def w)
qed (simp add: puts_def)

lemma puts_slice:
  "apart lo (length out) ws \<Longrightarrow> (off, bs) \<in> set ws \<Longrightarrow> slice_bytes off (length bs) (puts ws out) = bs"
proof (induction ws arbitrary: lo out)
  case (Cons w ws)
  obtain o' b where w: "w = (o', b)" by (cases w)
  have puts: "puts (w # ws) out = puts ws (put_bytes o' b out)" by (simp add: puts_def w)
  show ?case
  proof (cases "w = (off, bs)")
    case True
    then have "slice_bytes off (length bs) (puts ws (put_bytes o' b out)) = slice_bytes off (length bs) (put_bytes o' b out)"
      using Cons.prems w by (intro puts_below [of "o' + length b"]) auto
    then show ?thesis using True w Cons.prems puts slice_put_same by auto
  next
    case False
    then show ?thesis using Cons w puts by auto
  qed
qed simp

lemma le_word_of_slice:
  fixes v :: "'a::len word"
  assumes "slice_bytes off n bs = le_bytes n v" "LENGTH('a) = 8 * n"
  shows "le_word n off bs = v"
proof (rule bit_word_eqI)
  fix k assume k: "k < LENGTH('a)"
  then have i: "k div 8 < n" using assms(2) by auto
  have "n \<le> length bs - off" using arg_cong [OF assms(1), of length] by (simp add: slice_bytes_def)
  with i have "off \<le> length bs" by simp
  then have "bs ! (off + k div 8) = le_bytes n v ! (k div 8)"
    using i by (simp add: assms(1) [symmetric] slice_bytes_def)
  then show "bit (le_word n off bs :: 'a word) k = bit v k"
    using k assms(2) i by (simp add: bit_le_word bit_le_bytes)
qed

lemma read_cstr_of_slice:
  assumes "slice_bytes off (Suc (length s)) bs = map byte_of s @ [0]" "Suc (length s) \<le> n"
  shows "read_cstr_field bs off n = takeWhile (\<lambda>c. c \<noteq> CHR 0x00) s"
proof -
  have "slice_bytes off n bs = slice_bytes off (Suc (length s)) bs @ slice_bytes (off + Suc (length s)) (n - Suc (length s)) bs"
    using assms(2) take_add [of "Suc (length s)" "n - Suc (length s)" "drop off bs"]
    by (simp add: slice_bytes_def add.commute)
  then have "map char_of_byte (slice_bytes off n bs)
      = s @ CHR 0x00 # map char_of_byte (slice_bytes (off + Suc (length s)) (n - Suc (length s)) bs)"
    using assms(1) by (simp add: comp_def char_of_byte_of [of "CHR 0x00", simplified])
  then show ?thesis by (simp add: read_cstr_field_def takeWhile_tail)
qed

lemma put_bytes_snoc:
  assumes "off + length bs < length out"
  shows "(put_bytes off bs out)[off + length bs := b] = put_bytes off (bs @ [b]) out"
proof -
  have "drop (off + length bs) out = out ! (off + length bs) # drop (Suc (off + length bs)) out"
    using assms by (simp add: Cons_nth_drop_Suc)
  then show ?thesis using assms by (simp add: put_bytes_def list_update_append)
qed

lemma write_cstr_put:
  assumes "off + n \<le> length out" "1 < n"
  shows "write_cstr_field off n s out = put_bytes off (map byte_of (take (n - 1) s) @ [0]) out"
proof -
  have "take (min (n - 1) (length s)) s = take (n - 1) s" by (simp add: min_def)
  then show ?thesis
    using put_bytes_snoc [of off "map byte_of (take (n - 1) s)" out 0] assms
    by (simp add: write_cstr_field_def Let_def min.commute)
qed

section \<open>Header, entry, footer\<close>

definition header_writes :: "header_info \<Rightarrow> (nat \<times> byte list) list" where
  "header_writes h =
     [(0, k_magic), (4, le_bytes 2 (hd_format_major h)), (6, le_bytes 2 (hd_format_minor h)), (8, le_bytes 4 (hd_flags h)),
      (12, le_bytes 4 (hd_header_size h)), (16, le_bytes 8 (hd_chunk_stream_offset h)), (24, le_bytes 8 (hd_chunk_stream_size h)),
      (32, le_bytes 8 (hd_toc_offset h)), (40, le_bytes 8 (hd_toc_size h)), (48, le_bytes 8 (hd_file_size h)),
      (56, le_bytes 8 (hd_feature_bits h)), (64, le_bytes 8 (hd_compiler_hash h)), (72, le_bytes 4 (hd_toc_entry_count h)),
      (76, le_bytes 4 (hd_toc_entry_size h)), (80, map byte_of (take 31 (hd_target_triple h)) @ [0]),
      (112, map byte_of (take 31 (hd_bundle_id h)) @ [0]), (144, map byte_of (take 31 (hd_target_summary h)) @ [0])]"

lemma header_apart: "apart 0 256 (header_writes h)"
  by (simp add: header_writes_def min_le_iff_disj)

lemma puts_append: "puts (ws @ ws') out = puts ws' (puts ws out)"
  by (simp add: puts_def)

lemma puts_write_cstr:
  assumes "apart 0 (length out) ws" "off + n \<le> length out" "1 < n"
  shows "write_cstr_field off n s (puts ws out) = puts (ws @ [(off, map byte_of (take (n - 1) s) @ [0])]) out"
proof -
  have "length (puts ws out) = length out" using assms(1) by (rule puts_length)
  then show ?thesis using assms(2,3) write_cstr_put [of off n "puts ws out" s] by (simp add: puts_append) (simp add: puts_def)
qed

lemma apart_append: "apart lo n (ws @ ws') \<Longrightarrow> apart lo n ws"
  by (induction ws arbitrary: lo) auto

lemma serialize_header_puts: "serialize_header h = puts (header_writes h) (replicate 256 0)"
proof -
  let ?out = "replicate 256 (0 :: byte)"
  let ?t = "map byte_of (take 31 (hd_target_triple h)) @ [0]" and ?b = "map byte_of (take 31 (hd_bundle_id h)) @ [0]"
  let ?s = "map byte_of (take 31 (hd_target_summary h)) @ [0]"
  define words where "words = take 14 (header_writes h)"
  have all: "header_writes h = ((words @ [(80, ?t)]) @ [(112, ?b)]) @ [(144, ?s)]"
    by (simp add: words_def header_writes_def)
  have "length ?out = 256" by simp
  then have "apart 0 (length ?out) (header_writes h)" using header_apart by simp
  note apart1 = apart_append [OF this [unfolded all]]
  note apart2 = apart_append [OF apart1]
  note apart = apart1 apart2 apart_append [OF apart2]
  have "serialize_header h = write_cstr_field 144 32 (hd_target_summary h) (write_cstr_field 112 32 (hd_bundle_id h)
      (write_cstr_field 80 32 (hd_target_triple h) (puts words ?out)))"
    by (simp add: serialize_header_def words_def header_writes_def puts_def word_writes)
  also have "\<dots> = puts (header_writes h) ?out"
    unfolding all
    using puts_write_cstr [OF apart(3), of 80 32 "hd_target_triple h"] puts_write_cstr [OF apart(2), of 112 32 "hd_bundle_id h"]
      puts_write_cstr [OF apart(1), of 144 32 "hd_target_summary h"] by simp
  finally show ?thesis .
qed

lemma length_header [simp]: "length (serialize_header h) = 256"
  using puts_length [of 0 "replicate 256 0" "header_writes h"] header_apart by (simp add: serialize_header_puts)

lemma header_slice: "(off, bs) \<in> set (header_writes h) \<Longrightarrow> slice_bytes off (length bs) (serialize_header h) = bs"
  using puts_slice [of 0 "replicate 256 0" "header_writes h"] header_apart by (simp add: serialize_header_puts)

lemma header_word:
  fixes v :: "'a::len word"
  shows "(off, le_bytes n v) \<in> set (header_writes h) \<Longrightarrow> LENGTH('a) = 8 * n \<Longrightarrow> le_word n off (serialize_header h) = v"
  using header_slice [of off "le_bytes n v" h] by (intro le_word_of_slice) auto

lemma header_text:
  assumes "(off, map byte_of (take 31 s) @ [0]) \<in> set (header_writes h)"
  shows "read_cstr_field (serialize_header h) off 32 = field_text 32 s"
  using read_cstr_of_slice [of off "take 31 s" "serialize_header h" 32] header_slice [OF assms]
  by (simp add: field_text_def)

lemma header_roundtrip: "deserialize_header (serialize_header h) = Some (stored_header h)"
proof -
  have "slice_bytes 0 4 (serialize_header h) = k_magic"
    using header_slice [of 0 k_magic h] by (simp add: header_writes_def)
  moreover have "le_word 2 4 (serialize_header h) = hd_format_major h" "le_word 2 6 (serialize_header h) = hd_format_minor h"
    "le_word 4 8 (serialize_header h) = hd_flags h" "le_word 4 12 (serialize_header h) = hd_header_size h"
    "le_word 8 16 (serialize_header h) = hd_chunk_stream_offset h" "le_word 8 24 (serialize_header h) = hd_chunk_stream_size h"
    "le_word 8 32 (serialize_header h) = hd_toc_offset h" "le_word 8 40 (serialize_header h) = hd_toc_size h"
    "le_word 8 48 (serialize_header h) = hd_file_size h" "le_word 8 56 (serialize_header h) = hd_feature_bits h"
    "le_word 8 64 (serialize_header h) = hd_compiler_hash h" "le_word 4 72 (serialize_header h) = hd_toc_entry_count h"
    "le_word 4 76 (serialize_header h) = hd_toc_entry_size h"
    by (rule header_word; simp add: header_writes_def)+
  moreover have "read_cstr_field (serialize_header h) 80 32 = field_text 32 (hd_target_triple h)"
    "read_cstr_field (serialize_header h) 112 32 = field_text 32 (hd_bundle_id h)"
    "read_cstr_field (serialize_header h) 144 32 = field_text 32 (hd_target_summary h)"
    by (rule header_text; simp add: header_writes_def)+
  ultimately show ?thesis
    by (simp add: deserialize_header_def word_reads stored_header_def)
qed

definition toc_writes :: "chunk_record \<Rightarrow> (nat \<times> byte list) list" where
  "toc_writes r =
     [(0, le_bytes 2 (cr_kind r)), (2, le_bytes 2 (cr_lane r)), (4, le_bytes 4 (cr_target_id r)), (8, le_bytes 4 (cr_alignment r)),
      (12, le_bytes 2 (cr_compression r)), (14, le_bytes 2 (0 :: u16)), (16, le_bytes 8 (cr_offset r)), (24, le_bytes 8 (cr_size r)),
      (32, le_bytes 8 (cr_checksum r)), (40, le_bytes 8 (cr_content_hash r)), (48, le_bytes 8 (0 :: u64)), (56, le_bytes 8 (0 :: u64))]"

lemma serialize_toc_puts: "serialize_toc_entry r = puts (toc_writes r) (replicate 64 0)"
  by (simp add: serialize_toc_entry_def toc_writes_def puts_def word_writes)

lemma length_toc_entry [simp]: "length (serialize_toc_entry r) = 64"
  using puts_length [of 0 "replicate 64 0" "toc_writes r"] by (simp add: serialize_toc_puts) (simp add: toc_writes_def)

lemma toc_slice: "(off, bs) \<in> set (toc_writes r) \<Longrightarrow> slice_bytes off (length bs) (serialize_toc_entry r) = bs"
  using puts_slice [of 0 "replicate 64 0" "toc_writes r"] by (simp add: serialize_toc_puts) (simp add: toc_writes_def)

lemma slice_slice: "k + n \<le> m \<Longrightarrow> slice_bytes (off + k) n bs = slice_bytes k n (slice_bytes off m bs)"
  by (simp add: slice_bytes_def drop_take add.commute min_def)

lemma toc_word:
  fixes v :: "'a::len word"
  assumes "slice_bytes off 64 bs = serialize_toc_entry r" "(k, le_bytes n v) \<in> set (toc_writes r)" "k + n \<le> 64" "LENGTH('a) = 8 * n"
  shows "le_word n (off + k) bs = v"
  using assms toc_slice [OF assms(2)] slice_slice [of k n 64 off bs] by (intro le_word_of_slice) auto

lemma toc_roundtrip:
  assumes "off + 64 \<le> length bs" "slice_bytes off 64 bs = serialize_toc_entry r"
  shows "deserialize_toc_entry bs off = Some (r\<lparr>cr_deduplicated := False\<rparr>)"
proof -
  have "le_word 2 (off + 0) bs = cr_kind r" "le_word 2 (off + 2) bs = cr_lane r" "le_word 4 (off + 4) bs = cr_target_id r"
    "le_word 4 (off + 8) bs = cr_alignment r" "le_word 2 (off + 12) bs = cr_compression r" "le_word 8 (off + 16) bs = cr_offset r"
    "le_word 8 (off + 24) bs = cr_size r" "le_word 8 (off + 32) bs = cr_checksum r" "le_word 8 (off + 40) bs = cr_content_hash r"
    by (rule toc_word [OF assms(2)]; simp add: toc_writes_def)+
  then show ?thesis using assms(1)
    by (simp add: deserialize_toc_entry_def word_reads del: add_2_eq_Suc add_2_eq_Suc')
qed

lemma length_footer [simp]: "length (footer_body a b) = 32" "length (serialize_footer a b) = 32"
  by (simp_all add: footer_body_def serialize_footer_def word_writes Let_def)

lemma footer_roundtrip: "deserialize_footer (serialize_footer a b) = Some (a, b)"
proof -
  let ?body = "footer_body a b"
  let ?sum = "fnv1a64_update k_hash_seed_content (slice_bytes 0 24 ?body)"
  have "slice_bytes 0 24 (serialize_footer a b) = slice_bytes 0 24 ?body"
    "slice_bytes 0 4 (serialize_footer a b) = slice_bytes 0 4 ?body"
    by (simp_all add: serialize_footer_def Let_def word_writes slice_put_other)
  moreover have "slice_bytes 0 4 ?body = k_footer_magic"
    using slice_put_same [of 0 k_footer_magic "replicate 32 0"]
    by (simp add: footer_body_def word_writes slice_put_other)
  moreover have "le_word 4 4 (serialize_footer a b) = (1 :: u32w)" "le_word 8 8 (serialize_footer a b) = a"
    "le_word 8 16 (serialize_footer a b) = b" "le_word 8 24 (serialize_footer a b) = ?sum"
    by (simp_all add: serialize_footer_def Let_def word_writes le_word_other le_word_same)
      (simp_all add: footer_body_def word_writes le_word_other le_word_same)
  ultimately show ?thesis by (simp add: deserialize_footer_def word_reads)
qed

section \<open>Indexes\<close>

fun tab_join :: "string list \<Rightarrow> string" where
  "tab_join [] = []"
| "tab_join [f] = f"
| "tab_join (f # g # fs) = f @ CHR 0x09 # tab_join (g # fs)"

lemma tab_line_join: "tab_line fs = tab_join fs @ [CHR 0x0A]"
  by (induction fs rule: tab_join.induct) auto

lemma lines_from_line: "CHR 0x0A \<notin> set s \<Longrightarrow> lines_from acc (s @ CHR 0x0A # rest) = (rev acc @ s) # lines_from [] rest"
  by (induction s arbitrary: acc) auto

lemma text_lines_concat:
  "\<forall>s \<in> set ss. CHR 0x0A \<notin> set s \<Longrightarrow> text_lines (concat (map (\<lambda>s. s @ [CHR 0x0A]) ss)) = ss"
  by (induction ss) (auto simp: text_lines_def lines_from_line)

lemma split_from_end: "sep \<notin> set s \<Longrightarrow> split_from sep acc s = [rev acc @ s]"
  by (induction s arbitrary: acc) auto

lemma split_from_sep: "sep \<notin> set s \<Longrightarrow> split_from sep acc (s @ sep # rest) = (rev acc @ s) # split_from sep [] rest"
  by (induction s arbitrary: acc) auto

lemma split_tab_join:
  "fs \<noteq> [] \<Longrightarrow> \<forall>f \<in> set fs. CHR 0x09 \<notin> set f \<Longrightarrow> split_view (tab_join fs) CHR 0x09 = fs"
  by (induction fs rule: tab_join.induct) (auto simp: split_view_def split_from_end split_from_sep)

lemma set_tab_join: "set (tab_join fs) \<subseteq> {CHR 0x09} \<union> \<Union> (set ` set fs)"
  by (induction fs rule: tab_join.induct) auto

text \<open>A field that can stand in a line.\<close>

definition line_field :: "string \<Rightarrow> bool" where
  "line_field f \<longleftrightarrow> CHR 0x09 \<notin> set f \<and> CHR 0x0A \<notin> set f"

lemma text_of_bytes_of [simp]: "text_of (bytes_of s) = s"
  by (simp add: text_of_def bytes_of_def comp_def)

lemma lines_of_index:
  assumes "\<forall>e \<in> set es. cols e \<noteq> [] \<and> (\<forall>f \<in> set (cols e). line_field f)"
  shows "text_lines (concat (map (\<lambda>e. tab_line (cols e)) es)) = map (\<lambda>e. tab_join (cols e)) es"
    and "e \<in> set es \<Longrightarrow> split_view (tab_join (cols e)) CHR 0x09 = cols e"
proof -
  have "CHR 0x0A \<notin> set (tab_join (cols e))" if "e \<in> set es" for e
    using assms that set_tab_join [of "cols e"] by (fastforce simp: line_field_def)
  then show "text_lines (concat (map (\<lambda>e. tab_line (cols e)) es)) = map (\<lambda>e. tab_join (cols e)) es"
    using text_lines_concat [of "map (\<lambda>e. tab_join (cols e)) es"] by (simp add: tab_line_join comp_def)
  show "e \<in> set es \<Longrightarrow> split_view (tab_join (cols e)) CHR 0x09 = cols e"
    using assms by (intro split_tab_join) (auto simp: line_field_def)
qed

lemma line_field_sanitize [simp]: "line_field (sanitize_line_field s)"
  by (auto simp: line_field_def sanitize_line_field_def)

lemma line_field_dec [simp]: "line_field (dec_word w)"
proof -
  have "\<not> is_digit CHR 0x09" "\<not> is_digit CHR 0x0A" by (simp_all add: is_digit_def)
  then show ?thesis using is_digit_dec [of _ "unat w"] by (auto simp: line_field_def dec_word_def)
qed

lemma line_field_names [simp]: "line_field (lane_name l)" "line_field (chunk_kind_name k)"
  by (simp_all add: line_field_def lane_name_def chunk_kind_name_def)

lemma line_field_dep_kind [simp]: "line_field (native_dep_kind_name d)"
  by (cases d) (simp_all add: line_field_def)

lemma line_field_dep_mode [simp]: "line_field (native_dep_mode_name m)"
  by (cases m) (simp_all add: line_field_def)

lemma parse_dec: "n < 2 ^ 64 \<Longrightarrow> parse_u64_or_zero (dec n) = word_of_nat n"
proof -
  assume n: "n < 2 ^ 64"
  obtain c cs where d: "dec n = c # cs" by (cases "dec n") auto
  then have "is_digit c" using is_digit_dec [of c n] by simp
  then have "\<not> is_space c" "c \<noteq> CHR ''-''" "c \<noteq> CHR ''+''"
    by (auto simp: is_digit_def is_space_def ubyte_def)
  moreover have "takeWhile is_digit (dec n) = dec n" using is_digit_dec by (auto simp: takeWhile_eq_all_conv)
  moreover have "undec (map char_digit (dec n)) = n" by simp
  ultimately show ?thesis using n d unfolding parse_u64_or_zero_def by (simp add: Let_def del: map_char_digit_dec)
qed

lemma parse_flags [simp]: "parse_u64_or_zero ''1'' = 1" "parse_u64_or_zero ''0'' = 0"
  by code_simp+

lemma ucast_ucast_u64 [simp]: "ucast (ucast (w :: u32w) :: u64) = w"
  by (simp add: ucast_up_ucast_id is_up)

lemma parse_dec_word: "LENGTH('a::len) \<le> 64 \<Longrightarrow> parse_u64_or_zero (dec_word (w :: 'a word)) = ucast w"
proof -
  assume "LENGTH('a) \<le> 64"
  then have "(2 :: nat) ^ LENGTH('a) \<le> 2 ^ 64" by (intro power_increasing) auto
  moreover have "unat w < 2 ^ LENGTH('a)" by (rule unsigned_less)
  ultimately have "unat w < 2 ^ 64" by (rule order.strict_trans2 [rotated])
  then show ?thesis by (simp add: dec_word_def parse_dec)
qed

text \<open>What the readers give back.\<close>

definition named_lane :: "lane \<Rightarrow> bool" where
  "named_lane l \<longleftrightarrow> l \<in> {kGlobal, kPcore, kPrt, kPstd, kVendorBegin}"

definition named_kind :: "chunk_kind \<Rightarrow> bool" where
  "named_kind k \<longleftrightarrow> k \<in> {kManifest, kStringTable, kExportCIndex, kNativeDeps, kSymbolIndex, kTypeMeta, kOirArchive,
     kObjectArchive, kDebug, kSourceMap, kNativeArchivePayload, kReserved}"

lemma parse_lane_name_back: "parse_lane_name (lane_name l) = (if named_lane l then Some l else None)"
  by (simp add: parse_lane_name_def lane_name_def named_lane_def)

lemma parse_chunk_kind_name_back:
  "parse_chunk_kind_name (chunk_kind_name k) = (if named_kind k then Some k else None)"
  by (simp add: parse_chunk_kind_name_def chunk_kind_name_def named_kind_def)

lemma parse_dep_names_back:
  "parse_native_dep_kind_name (native_dep_kind_name d) = Some d"
  "parse_native_dep_mode_name (native_dep_mode_name m) = Some m"
  by (cases d; simp add: parse_native_dep_kind_name_def) (cases m; simp add: parse_native_dep_mode_name_def)

definition clean_export :: "export_entry \<Rightarrow> export_entry" where
  "clean_export e = e\<lparr>ex_symbol := sanitize_line_field (ex_symbol e), ex_signature := sanitize_line_field (ex_signature e)\<rparr>"

definition clean_dep :: "native_dep \<Rightarrow> native_dep" where
  "clean_dep e = e\<lparr>nd_name := sanitize_line_field (nd_name e), nd_target_filter := sanitize_line_field (nd_target_filter e),
     nd_reference := sanitize_line_field (nd_reference e)\<rparr>"

definition named_export :: "export_entry \<Rightarrow> bool" where
  "named_export e \<longleftrightarrow> named_lane (ex_lane e) \<and> named_kind (ex_chunk_kind e)"

lemma map_filter_map_if: "List.map_filter (\<lambda>x. if P x then Some (f x) else None) xs = map f (filter P xs)"
  by (induction xs) (auto simp: List.map_filter_def)

lemma map_filter_cong: "(\<And>x. x \<in> set xs \<Longrightarrow> f x = g x) \<Longrightarrow> List.map_filter f xs = List.map_filter g xs"
  by (induction xs) (auto simp: List.map_filter_def)

lemma map_filter_map: "List.map_filter f (map g xs) = List.map_filter (\<lambda>x. f (g x)) xs"
  by (induction xs) (auto simp: List.map_filter_def)

lemma export_index_back: "parse_export_c_index (encode_export_c_index es) = map clean_export (filter named_export es)"
proof -
  have fields: "\<forall>e \<in> set es. export_fields e \<noteq> [] \<and> (\<forall>f \<in> set (export_fields e). line_field f)"
    by (auto simp: export_fields_def) (auto simp: line_field_def)
  have line: "parse_export_line (tab_join (export_fields e)) = (if named_export e then Some (clean_export e) else None)"
    if "e \<in> set es" for e
    using lines_of_index(2) [OF fields that]
    by (simp add: parse_export_line_def Let_def)
      (simp add: export_fields_def parse_lane_name_back parse_chunk_kind_name_back parse_dec_word named_export_def clean_export_def)
  have "List.map_filter (\<lambda>e. parse_export_line (tab_join (export_fields e))) es
      = List.map_filter (\<lambda>e. if named_export e then Some (clean_export e) else None) es"
    using line by (intro map_filter_cong) auto
  then show ?thesis
    by (simp only: parse_export_c_index_def encode_export_c_index_def text_of_bytes_of lines_of_index(1) [OF fields]
        map_filter_map map_filter_map_if)
qed

lemma native_deps_back: "parse_native_deps (encode_native_deps es) = map clean_dep es"
proof -
  have fields: "\<forall>e \<in> set es. dep_fields e \<noteq> [] \<and> (\<forall>f \<in> set (dep_fields e). line_field f)"
    by (auto simp: dep_fields_def) (auto simp: line_field_def)
  have line: "parse_dep_line (tab_join (dep_fields e)) = (if True then Some (clean_dep e) else None)"
    if "e \<in> set es" for e
    using lines_of_index(2) [OF fields that]
    by (simp add: parse_dep_line_def Let_def)
      (simp add: dep_fields_def parse_dep_names_back parse_dec_word clean_dep_def)
  have "List.map_filter (\<lambda>e. parse_dep_line (tab_join (dep_fields e))) es
      = List.map_filter (\<lambda>e. if True then Some (clean_dep e) else None) es"
    using line by (intro map_filter_cong) auto
  then show ?thesis
    by (simp only: parse_native_deps_def encode_native_deps_def text_of_bytes_of lines_of_index(1) [OF fields]
        map_filter_map map_filter_map_if) simp
qed

end
