(* ===== verification/Parlib_File.thy ===== *)
theory Parlib_File
  imports Parlib_Format "HOL-Library.Product_Lexorder"
begin

text \<open>
  Writing and reading parlib files (\<open>backend/src/parlib/Parlib_reader_writer.cpp\<close>,
  \<open>Parlib_build_inspect.cpp\<close>). A file is a list of bytes. The output stream fails for good when
  a write does not fit the capacity of the disk; what the file system answers is the record
  \<open>environment\<close>. A \<open>vector\<close> of more than \<open>PTRDIFF_MAX\<close> bytes throws \<open>length_error\<close>: a function
  that can make one gives \<open>None\<close> then. Memory that runs out is not modelled.
\<close>

section \<open>Messages and streams\<close>

record message =
  ms_is_error :: bool
  ms_text :: string

definition error_msg :: "string \<Rightarrow> message" where
  "error_msg t = \<lparr>ms_is_error = True, ms_text = t\<rparr>"

definition info_msg :: "string \<Rightarrow> message" where
  "info_msg t = \<lparr>ms_is_error = False, ms_text = t\<rparr>"

definition has_error_messages :: "message list \<Rightarrow> bool" where
  "has_error_messages ms = list_ex ms_is_error ms"

text \<open>The directory part of a path, whether a directory can be made, whether a file can be
  opened for writing, and how many bytes a file can hold.\<close>

record environment =
  en_parent :: "string \<Rightarrow> string"
  en_mkdir :: "string \<Rightarrow> bool"
  en_open :: "string \<Rightarrow> bool"
  en_capacity :: nat

record out_stream =
  os_data :: "byte list"
  os_good :: bool

definition stream_write :: "environment \<Rightarrow> byte list \<Rightarrow> out_stream \<Rightarrow> out_stream" where
  "stream_write env bs s =
     (if \<not> os_good s \<or> bs = [] then s
      else if en_capacity env < length (os_data s) + length bs then s\<lparr>os_good := False\<rparr>
      else s\<lparr>os_data := os_data s @ bs\<rparr>)"

text \<open>\<open>tellp\<close>: the end of what is written, nothing on a failed stream.\<close>

definition stream_tell :: "out_stream \<Rightarrow> nat option" where
  "stream_tell s = (if os_good s then Some (length (os_data s)) else None)"

text \<open>\<open>seekp(0)\<close> and a write over what is there.\<close>

definition stream_patch :: "byte list \<Rightarrow> out_stream \<Rightarrow> out_stream" where
  "stream_patch bs s = (if \<not> os_good s then s else s\<lparr>os_data := put_bytes 0 bs (os_data s)\<rparr>)"

definition align_output_stream :: "environment \<Rightarrow> u32w \<Rightarrow> out_stream \<Rightarrow> out_stream \<times> bool" where
  "align_output_stream env align s =
     (if align \<le> 1 then (s, True)
      else (case stream_tell s of
              None \<Rightarrow> (s, False)
            | Some pos \<Rightarrow>
                let p = word_of_nat pos :: u64; aligned = align_up p align in
                if aligned = p then (s, True)
                else let s' = stream_write env (replicate (unat (aligned - p)) 0) s in (s', os_good s')))"

section \<open>The writer\<close>

record build_options =
  bo_output_path :: string
  bo_bundle_id :: string
  bo_target_triple :: string
  bo_target_summary :: string
  bo_feature_bits :: u64
  bo_flags :: u32w
  bo_compiler_hash :: u64
  bo_include_pcore :: bool
  bo_include_prt :: bool
  bo_include_pstd :: bool
  bo_include_debug :: bool
  bo_export_c_symbols :: "export_entry list"
  bo_native_deps :: "native_dep list"
  bo_extra_chunks :: "chunk_payload list"

record writer =
  wr_opt :: build_options
  wr_stream :: "out_stream option"
  wr_chunks :: "chunk_record list"
  wr_messages :: "message list"
  wr_begun :: bool
  wr_finalized :: bool

definition push_message :: "message \<Rightarrow> writer \<Rightarrow> writer" where
  "push_message m w = w\<lparr>wr_messages := wr_messages w @ [m]\<rparr>"

definition writer_begin :: "environment \<Rightarrow> build_options \<Rightarrow> writer \<Rightarrow> writer \<times> bool" where
  "writer_begin env opt w0 =
     (let w = w0\<lparr>wr_messages := [], wr_chunks := [], wr_begun := False, wr_finalized := False, wr_opt := opt\<rparr>;
          path = bo_output_path opt; parent = en_parent env path in
      if path = [] then (push_message (error_msg ''parlib writer: output path is empty.'') w, False)
      else if parent \<noteq> [] \<and> \<not> en_mkdir env parent
      then (push_message (error_msg (''parlib writer: failed to create output directory: '' @ parent)) w, False)
      else if \<not> en_open env path
      then (push_message (error_msg (''parlib writer: failed to open output file: '' @ path)) w, False)
      else
        let s = stream_write env (replicate k_header_size_v1 0) \<lparr>os_data = [], os_good = True\<rparr>;
            w1 = w\<lparr>wr_stream := Some s\<rparr> in
        if \<not> os_good s then (push_message (error_msg ''parlib writer: failed to write header placeholder.'') w1, False)
        else (push_message (info_msg (''parlib writer: begin output to '' @ path)) (w1\<lparr>wr_begun := True\<rparr>), True))"

text \<open>The record of a chunk that starts at \<open>pos\<close>, before its bytes are written.\<close>

definition fresh_record :: "chunk_payload \<Rightarrow> nat \<Rightarrow> chunk_record" where
  "fresh_record meta pos =
     \<lparr>cr_kind = cp_kind meta, cr_lane = cp_lane meta, cr_target_id = cp_target_id meta,
      cr_alignment = cp_alignment meta, cr_compression = cp_compression meta, cr_offset = word_of_nat pos,
      cr_size = 0, cr_checksum = k_hash_seed_checksum, cr_content_hash = k_hash_seed_content,
      cr_deduplicated = False\<rparr>"

text \<open>One write of payload bytes, and what it adds to the record.\<close>

definition add_bytes :: "byte list \<Rightarrow> chunk_record \<Rightarrow> chunk_record" where
  "add_bytes bs r = r\<lparr>cr_content_hash := fnv1a64_update (cr_content_hash r) bs,
     cr_checksum := fnv1a64_update (cr_checksum r) bs, cr_size := cr_size r + word_of_nat (length bs)\<rparr>"

text \<open>The checks before the payload; the stream and the record to go on with.\<close>

definition append_start :: "environment \<Rightarrow> chunk_payload \<Rightarrow> writer \<Rightarrow> (writer, out_stream \<times> chunk_record) sum" where
  "append_start env meta w =
     (case wr_stream w of
        None \<Rightarrow> Inl (push_message (error_msg ''parlib writer: append_chunk called in invalid state.'') w)
      | Some s \<Rightarrow>
          if \<not> wr_begun w \<or> wr_finalized w
          then Inl (push_message (error_msg ''parlib writer: append_chunk called in invalid state.'') w)
          else if \<not> is_power_of_two (cp_alignment meta)
          then Inl (push_message (error_msg ''parlib writer: chunk alignment must be power-of-two.'') w)
          else if cp_compression meta \<noteq> kNone
          then Inl (push_message (error_msg ''parlib writer: unsupported compression in v1.'') w)
          else
            let (s', aligned) = align_output_stream env (cp_alignment meta) s; w' = w\<lparr>wr_stream := Some s'\<rparr> in
            if \<not> aligned
            then Inl (push_message (error_msg ''parlib writer: failed to align chunk output position.'') w')
            else (case stream_tell s' of
                    None \<Rightarrow> Inl (push_message (error_msg ''parlib writer: failed to read current output position.'') w')
                  | Some pos \<Rightarrow> Inr (s', fresh_record meta pos)))"

definition append_end :: "out_stream \<Rightarrow> chunk_record \<Rightarrow> writer \<Rightarrow> writer \<times> bool" where
  "append_end s r w =
     (w\<lparr>wr_stream := Some s, wr_chunks := wr_chunks w @ [r\<lparr>cr_checksum := cr_checksum r XOR cr_size r\<rparr>]\<rparr>, True)"

definition append_chunk :: "environment \<Rightarrow> chunk_payload \<Rightarrow> writer \<Rightarrow> writer \<times> bool" where
  "append_chunk env meta w =
     (case append_start env meta w of
        Inl w' \<Rightarrow> (w', False)
      | Inr (s, r) \<Rightarrow>
          if cp_bytes meta = [] then append_end s r w
          else
            let s' = stream_write env (cp_bytes meta) s in
            if \<not> os_good s'
            then (push_message (error_msg ''parlib writer: failed to write chunk payload.'') (w\<lparr>wr_stream := Some s'\<rparr>), False)
            else append_end s' (add_bytes (cp_bytes meta) r) w)"

text \<open>The loop over an input stream in blocks of 64 KiB; a stream that is left with fewer bytes
  than a block ends. \<open>Inl\<close> is the output stream after a failed write.\<close>

abbreviation k_block :: nat where "k_block \<equiv> 65536"

function write_blocks :: "environment \<Rightarrow> byte list \<Rightarrow> out_stream \<Rightarrow> chunk_record \<Rightarrow> (out_stream, out_stream \<times> chunk_record) sum" where
  "write_blocks env input s r =
     (let block = take k_block input;
          s' = (if block = [] then s else stream_write env block s);
          r' = (if block = [] then r else add_bytes block r) in
      if block \<noteq> [] \<and> \<not> os_good s' then Inl s'
      else if length input < k_block then Inr (s', r')
      else write_blocks env (drop k_block input) s' r')"
  by pat_completeness auto

termination write_blocks
  by (relation "measure (\<lambda>(env, input, s, r). length input)") auto

declare write_blocks.simps [simp del]

text \<open>An input stream: its bytes, and whether it breaks after them instead of ending.\<close>

definition append_chunk_stream :: "environment \<Rightarrow> chunk_payload \<Rightarrow> byte list \<Rightarrow> bool \<Rightarrow> writer \<Rightarrow> writer \<times> bool" where
  "append_chunk_stream env meta input breaks w =
     (case append_start env meta w of
        Inl w' \<Rightarrow> (w', False)
      | Inr (s, r) \<Rightarrow>
          (case write_blocks env input s r of
             Inl s' \<Rightarrow> (push_message (error_msg ''parlib writer: failed to write chunk payload stream.'') (w\<lparr>wr_stream := Some s'\<rparr>), False)
           | Inr (s', r') \<Rightarrow>
               if breaks
               then (push_message (error_msg ''parlib writer: failed while reading chunk input stream.'') (w\<lparr>wr_stream := Some s'\<rparr>), False)
               else append_end s' r' w))"

record build_result =
  br_ok :: bool
  br_output_path :: string
  br_file_size :: u64
  br_header :: "header_info"
  br_chunks :: "chunk_record list"
  br_messages :: "message list"

definition empty_header :: header_info where
  "empty_header = \<lparr>hd_format_major = 1, hd_format_minor = 1, hd_flags = 0, hd_feature_bits = 0,
     hd_compiler_hash = 0, hd_bundle_id = [], hd_target_triple = [], hd_target_summary = [],
     hd_header_size = 0, hd_chunk_stream_offset = 0, hd_chunk_stream_size = 0, hd_toc_offset = 0,
     hd_toc_size = 0, hd_toc_entry_size = 0, hd_toc_entry_count = 0, hd_footer_offset = 0, hd_file_size = 0\<rparr>"

definition empty_result :: "string \<Rightarrow> build_result" where
  "empty_result path = \<lparr>br_ok = False, br_output_path = path, br_file_size = 0, br_header = empty_header,
     br_chunks = [], br_messages = []\<rparr>"

definition offset_or_0 :: "nat option \<Rightarrow> u64" where
  "offset_or_0 pos = (case pos of None \<Rightarrow> 0 | Some p \<Rightarrow> word_of_nat p)"

definition final_header :: "build_options \<Rightarrow> nat \<Rightarrow> nat option \<Rightarrow> nat option \<Rightarrow> header_info" where
  "final_header opt n toc_pos end_pos =
     (let toc_offset = offset_or_0 toc_pos; toc_size = word_of_nat n * word_of_nat k_toc_entry_size_v1 in
      \<lparr>hd_format_major = k_format_major_v1, hd_format_minor = k_format_minor_v1, hd_flags = bo_flags opt,
       hd_feature_bits = bo_feature_bits opt, hd_compiler_hash = bo_compiler_hash opt,
       hd_bundle_id = bo_bundle_id opt, hd_target_triple = bo_target_triple opt,
       hd_target_summary = bo_target_summary opt, hd_header_size = word_of_nat k_header_size_v1,
       hd_chunk_stream_offset = word_of_nat k_header_size_v1,
       hd_chunk_stream_size = (if word_of_nat k_header_size_v1 \<le> toc_offset then toc_offset - word_of_nat k_header_size_v1 else 0),
       hd_toc_offset = toc_offset, hd_toc_size = toc_size, hd_toc_entry_size = word_of_nat k_toc_entry_size_v1,
       hd_toc_entry_count = word_of_nat n, hd_footer_offset = toc_offset + toc_size,
       hd_file_size = offset_or_0 end_pos\<rparr>)"

text \<open>A message when a condition fails.\<close>

definition check_msg :: "bool \<Rightarrow> string \<Rightarrow> message list" where
  "check_msg ok t = (if ok then [] else [error_msg t])"

definition writer_finalize :: "environment \<Rightarrow> writer \<Rightarrow> writer \<times> build_result" where
  "writer_finalize env w =
     (let out = empty_result (bo_output_path (wr_opt w)) in
      if \<not> wr_begun w \<or> wr_stream w = None
      then (let w' = push_message (error_msg ''parlib writer: finalize called before begin.'') w
            in (w', out\<lparr>br_messages := wr_messages w'\<rparr>))
      else if wr_finalized w
      then (let w' = push_message (error_msg ''parlib writer: finalize called more than once.'') w
            in (w', out\<lparr>br_messages := wr_messages w'\<rparr>))
      else
        let s0 = the (wr_stream w);
            (s1, aligned) = align_output_stream env 8 s0;
            toc_pos = stream_tell s1;
            s2 = fold (\<lambda>c s. stream_write env (serialize_toc_entry c) s) (wr_chunks w) s1;
            footer_pos = stream_tell s2;
            n = length (wr_chunks w);
            toc_size = word_of_nat n * word_of_nat k_toc_entry_size_v1 :: u64;
            s3 = stream_write env (serialize_footer (offset_or_0 toc_pos) toc_size) s2;
            end_pos = stream_tell s3;
            h = final_header (wr_opt w) n toc_pos end_pos;
            s4 = stream_patch (serialize_header h) s3;
            msgs = wr_messages w
              @ check_msg aligned ''parlib writer: failed to align before TOC.''
              @ check_msg (toc_pos \<noteq> None) ''parlib writer: failed to get TOC offset.''
              @ check_msg (os_good s2) ''parlib writer: failed to write TOC.''
              @ check_msg (footer_pos \<noteq> None) ''parlib writer: failed to get footer offset.''
              @ check_msg (os_good s3) ''parlib writer: failed to write footer.''
              @ check_msg (end_pos \<noteq> None) ''parlib writer: failed to get final file size.''
              @ check_msg (os_good s4) ''parlib writer: failed to patch final header.''
              @ check_msg (os_good s4) ''parlib writer: failed to flush output.'';
            ok = (\<not> has_error_messages msgs);
            info = (if ok then [info_msg (''parlib writer: wrote '' @ dec_word (hd_file_size h) @ '' bytes to '' @ bo_output_path (wr_opt w))] else [])
        in (w\<lparr>wr_stream := Some s4, wr_messages := msgs, wr_finalized := True\<rparr>,
            out\<lparr>br_header := h, br_chunks := wr_chunks w, br_file_size := hd_file_size h,
                br_messages := msgs @ info, br_ok := ok\<rparr>))"

section \<open>Building\<close>

definition collect_enabled_lanes :: "build_options \<Rightarrow> lane list" where
  "collect_enabled_lanes opt =
     (if bo_include_pcore opt then [kPcore] else []) @ (if bo_include_prt opt then [kPrt] else [])
     @ (if bo_include_pstd opt then [kPstd] else [])"

fun comma_names :: "lane list \<Rightarrow> string" where
  "comma_names [] = []"
| "comma_names [l] = lane_name l"
| "comma_names (l # k # ls) = lane_name l @ '','' @ comma_names (k # ls)"

definition text_line :: "string \<Rightarrow> string \<Rightarrow> string" where
  "text_line key val = key @ val @ [CHR 0x0A]"

definition default_manifest_payload :: "build_options \<Rightarrow> lane list \<Rightarrow> byte list" where
  "default_manifest_payload opt lanes = bytes_of
     (text_line ''format='' ''1.1'' @ text_line ''magic='' ''PRLB'' @ text_line ''bundle_id='' (bo_bundle_id opt)
      @ text_line ''target_triple='' (bo_target_triple opt) @ text_line ''target_summary='' (bo_target_summary opt)
      @ text_line ''feature_bits='' (dec_word (bo_feature_bits opt)) @ text_line ''compiler_hash='' (dec_word (bo_compiler_hash opt))
      @ text_line ''lanes='' (comma_names lanes))"

definition encode_cstr_table :: "string list \<Rightarrow> byte list" where
  "encode_cstr_table ss = concat (map (\<lambda>s. bytes_of s @ [0]) ss)"

definition if_nonempty :: "string \<Rightarrow> string list" where
  "if_nonempty s = (if s = [] then [] else [s])"

definition default_string_table_payload :: "build_options \<Rightarrow> lane list \<Rightarrow> byte list" where
  "default_string_table_payload opt lanes = encode_cstr_table
     ([[], ''global'', ''pcore'', ''prt'', ''pstd'', ''Manifest'', ''StringTable'', ''ExportCIndex'', ''NativeDeps'',
       ''SymbolIndex'', ''TypeMeta'', ''OIRArchive'', ''ObjectArchive'', ''Debug'', ''SourceMap'', ''NativeArchivePayload'']
      @ if_nonempty (bo_bundle_id opt) @ if_nonempty (bo_target_triple opt) @ if_nonempty (bo_target_summary opt)
      @ map lane_name lanes)"

definition default_lane_payload :: "chunk_kind \<Rightarrow> lane \<Rightarrow> byte list" where
  "default_lane_payload kind lane = bytes_of (text_line ''lane='' (lane_name lane) @ text_line ''kind='' (chunk_kind_name kind))"

type_synonym chunk_key = "chunk_kind \<times> lane \<times> u32w"

definition key_of :: "chunk_payload \<Rightarrow> chunk_key" where
  "key_of c = (cp_kind c, cp_lane c, cp_target_id c)"

text \<open>\<open>chunk_map[key] = c\<close>: the map is the list of its values.\<close>

definition put_chunk :: "chunk_payload \<Rightarrow> chunk_payload list \<Rightarrow> chunk_payload list" where
  "put_chunk c cs = filter (\<lambda>c'. key_of c' \<noteq> key_of c) cs @ [c]"

definition default_chunk :: "chunk_kind \<Rightarrow> lane \<Rightarrow> byte list \<Rightarrow> chunk_payload" where
  "default_chunk kind lane bs = \<lparr>cp_kind = kind, cp_lane = lane, cp_target_id = 0, cp_alignment = 8,
     cp_compression = kNone, cp_bytes = bs\<rparr>"

text \<open>The chunks in the order they are put into the map, the extra ones last.\<close>

definition requested_chunks :: "build_options \<Rightarrow> chunk_payload list" where
  "requested_chunks opt =
     (let lanes = collect_enabled_lanes opt in
      [default_chunk kManifest kGlobal (default_manifest_payload opt lanes),
       default_chunk kStringTable kGlobal (default_string_table_payload opt lanes),
       default_chunk kExportCIndex kGlobal (encode_export_c_index (bo_export_c_symbols opt)),
       default_chunk kNativeDeps kGlobal (encode_native_deps (bo_native_deps opt))]
      @ concat (map (\<lambda>l. map (\<lambda>k. default_chunk k l (default_lane_payload k l))
            [kSymbolIndex, kTypeMeta, kOirArchive, kObjectArchive]) lanes)
      @ (if bo_include_debug opt then [default_chunk kDebug kGlobal (bytes_of (text_line ''debug='' ''enabled''))] else [])
      @ bo_extra_chunks opt)"

definition sort_order :: "chunk_payload \<Rightarrow> nat \<times> nat \<times> nat" where
  "sort_order c = (unat (cp_lane c), unat (cp_target_id c), unat (cp_kind c))"

definition to_sorted_chunks :: "chunk_payload list \<Rightarrow> chunk_payload list" where
  "to_sorted_chunks cs = sort_key sort_order cs"

fun append_all :: "environment \<Rightarrow> chunk_payload list \<Rightarrow> writer \<Rightarrow> writer \<times> bool" where
  "append_all env [] w = (w, True)"
| "append_all env (c # cs) w =
     (let (w1, ok) = append_chunk env c w; (w2, ok') = append_all env cs w1 in (w2, ok \<and> ok'))"

definition new_writer :: "build_options \<Rightarrow> writer" where
  "new_writer opt = \<lparr>wr_opt = opt, wr_stream = None, wr_chunks = [], wr_messages = [], wr_begun = False, wr_finalized = False\<rparr>"

text \<open>The result and the file that is left, if one was opened.\<close>

definition build_parlib :: "environment \<Rightarrow> build_options \<Rightarrow> build_result \<times> byte list option" where
  "build_parlib env opt =
     (let out = empty_result (bo_output_path opt) in
      if bo_output_path opt = [] then (out\<lparr>br_messages := [error_msg ''parlib: output path is empty.'']\<rparr>, None)
      else if collect_enabled_lanes opt = []
      then (out\<lparr>br_messages := [error_msg ''parlib: at least one lane(pcore/prt/pstd) must be enabled.'']\<rparr>, None)
      else
        let sorted_chunks = to_sorted_chunks (fold put_chunk (requested_chunks opt) []);
            (w, begun) = writer_begin env opt (new_writer opt) in
        if \<not> begun then (out\<lparr>br_messages := wr_messages w\<rparr>, map_option os_data (wr_stream w))
        else
          let (w1, append_ok) = append_all env sorted_chunks w;
              (w2, built) = writer_finalize env w1
          in (if append_ok then built else built\<lparr>br_ok := False\<rparr>, map_option os_data (wr_stream w2)))"

definition build_parlib_skeleton :: "environment \<Rightarrow> build_options \<Rightarrow> build_result \<times> byte list option" where
  "build_parlib_skeleton env opt = build_parlib env opt"

end
