(* ===== verification/Parlib_Reader.thy ===== *)
theory Parlib_Reader
  imports Parlib_File
begin

text \<open>
  Reading parlib files (\<open>ParlibReader\<close>, \<open>ParlibChunkStream\<close> and \<open>inspect_parlib\<close> of
  \<open>Parlib_reader_writer.cpp\<close>, \<open>Parlib_build_inspect.cpp\<close>). The disk gives the file of a path, if it
  opens. Stream positions are signed: a 64-bit offset above \<open>2 ^ 63 - 1\<close> is a failed seek, and the
  read after it gives no bytes. A buffer of more than \<open>2 ^ 63 - 1\<close> bytes is the exception
  \<open>length_error\<close>, here the value \<open>None\<close>.
\<close>

section \<open>Files\<close>

text \<open>The bytes of a file, and whether its end can be found.\<close>

record in_file =
  fi_bytes :: "byte list"
  fi_seekable :: bool

type_synonym disk = "string \<Rightarrow> in_file option"

definition k_max_vector :: nat where
  "k_max_vector = 2 ^ 63 - 1"

text \<open>\<open>seekg(streamoff(offset))\<close> and a read of \<open>n\<close> bytes: what \<open>gcount\<close> reports arrived.\<close>

definition seek_ok :: "u64 \<Rightarrow> bool" where
  "seek_ok offset = (unat offset \<le> k_max_vector)"

definition read_at :: "byte list \<Rightarrow> u64 \<Rightarrow> nat \<Rightarrow> byte list" where
  "read_at bs offset n = (if seek_ok offset then slice_bytes (unat offset) n bs else [])"

section \<open>Opening\<close>

record reader =
  rd_path :: string
  rd_header :: header_info
  rd_chunks :: "chunk_record list"
  rd_messages :: "message list"
  rd_ok :: bool

text \<open>The entries from number \<open>i\<close> on; \<open>Inl\<close> is the text of the error.\<close>

fun read_toc :: "u64 \<Rightarrow> byte list \<Rightarrow> nat \<Rightarrow> nat \<Rightarrow> nat \<Rightarrow> (string, chunk_record list) sum" where
  "read_toc file_size toc entry_size i 0 = Inr []"
| "read_toc file_size toc entry_size i (Suc n) =
     (case deserialize_toc_entry toc (i * entry_size) of
        None \<Rightarrow> Inl (''parlib reader: failed to parse TOC entry #'' @ dec i)
      | Some r \<Rightarrow>
          if cr_offset r + cr_size r > file_size
          then Inl (''parlib reader: chunk range out of file bounds at entry #'' @ dec i)
          else (case read_toc file_size toc entry_size (Suc i) n of
                  Inl t \<Rightarrow> Inl t
                | Inr rs \<Rightarrow> Inr (r # rs)))"

text \<open>The checks of the header, then those of the footer, then those of the layout.\<close>

definition header_error :: "header_info \<Rightarrow> u64 \<Rightarrow> string option" where
  "header_error h file_size =
     (if hd_format_major h \<noteq> k_format_major_v1 \<or> hd_format_minor h \<noteq> k_format_minor_v1
      then Some (if hd_format_major h = 1 \<and> hd_format_minor h = 0
                 then ''parlib reader: legacy parlib format is not supported.''
                 else ''parlib reader: unsupported parlib version.'')
      else if hd_header_size h \<noteq> word_of_nat k_header_size_v1 then Some ''parlib reader: unsupported header size.''
      else if hd_file_size h \<noteq> file_size then Some ''parlib reader: header file_size mismatch.''
      else if file_size < word_of_nat k_footer_size_v1 then Some ''parlib reader: missing footer.''
      else None)"

definition layout_error :: "header_info \<Rightarrow> u64 \<times> u64 \<Rightarrow> u64 \<Rightarrow> string option" where
  "layout_error h footer file_size =
     (if footer \<noteq> (hd_toc_offset h, hd_toc_size h)
      then Some ''parlib reader: TOC pointer mismatch between header and footer.''
      else if hd_toc_entry_size h \<noteq> word_of_nat k_toc_entry_size_v1 then Some ''parlib reader: unsupported TOC entry size.''
      else if hd_toc_offset h + hd_toc_size h + word_of_nat k_footer_size_v1 \<noteq> file_size
      then Some ''parlib reader: file layout is not [Header][Chunk Stream][TOC][Footer].''
      else if hd_toc_size h \<noteq> ucast (hd_toc_entry_size h) * ucast (hd_toc_entry_count h)
      then Some ''parlib reader: TOC size/count mismatch.''
      else None)"

definition open_layout :: "byte list \<Rightarrow> header_info \<Rightarrow> u64 \<Rightarrow> (string, chunk_record list) sum" where
  "open_layout bs h file_size =
     (let footer_bytes = read_at bs (file_size - word_of_nat k_footer_size_v1) k_footer_size_v1 in
      if length footer_bytes \<noteq> k_footer_size_v1 then Inl ''parlib reader: failed to read footer.''
      else (case deserialize_footer footer_bytes of
              None \<Rightarrow> Inl ''parlib reader: invalid footer.''
            | Some footer \<Rightarrow>
                (case layout_error h footer file_size of
                   Some t \<Rightarrow> Inl t
                 | None \<Rightarrow>
                     let n = unat (hd_toc_size h); toc = read_at bs (hd_toc_offset h) n in
                     if n \<noteq> 0 \<and> length toc \<noteq> n then Inl ''parlib reader: failed to read full TOC.''
                     else read_toc file_size toc (unat (hd_toc_entry_size h)) 0 (unat (hd_toc_entry_count h)))))"

definition open_file :: "string \<Rightarrow> in_file \<Rightarrow> (string, header_info \<times> chunk_record list) sum" where
  "open_file path f =
     (let bs = fi_bytes f; file_size = word_of_nat (length bs) :: u64; header_bytes = read_at bs 0 k_header_size_v1 in
      if \<not> fi_seekable f then Inl (''parlib reader: failed to seek end: '' @ path)
      else if file_size < word_of_nat (k_header_size_v1 + k_footer_size_v1)
      then Inl ''parlib reader: file is too small for v1 format.''
      else if length header_bytes \<noteq> k_header_size_v1 then Inl ''parlib reader: failed to read full header.''
      else (case deserialize_header header_bytes of
              None \<Rightarrow> Inl ''parlib reader: invalid header or magic.''
            | Some h \<Rightarrow>
                (case header_error h file_size of
                   Some t \<Rightarrow> Inl t
                 | None \<Rightarrow>
                     (case open_layout bs h file_size of
                        Inl t \<Rightarrow> Inl t
                      | Inr rs \<Rightarrow> Inr (h, rs)))))"

text \<open>The reader, if the file opens, and the messages.\<close>

definition open_reader :: "disk \<Rightarrow> string \<Rightarrow> reader option \<times> message list" where
  "open_reader dsk path =
     (if path = [] then (None, [error_msg ''parlib reader: input path is empty.''])
      else (case dsk path of
              None \<Rightarrow> (None, [error_msg (''parlib reader: failed to open input file: '' @ path)])
            | Some f \<Rightarrow>
                (case open_file path f of
                   Inl t \<Rightarrow> (None, [error_msg t])
                 | Inr (h, rs) \<Rightarrow>
                     let ms = [info_msg (''parlib reader: opened v1 file ('' @ dec (length rs) @ '' chunks).'')] in
                     (Some \<lparr>rd_path = path, rd_header = h\<lparr>hd_footer_offset := hd_toc_offset h + hd_toc_size h\<rparr>,
                            rd_chunks = rs, rd_messages = ms, rd_ok = True\<rparr>, ms))))"

section \<open>Chunks\<close>

definition find_chunk :: "reader \<Rightarrow> chunk_kind \<Rightarrow> lane \<Rightarrow> u32w \<Rightarrow> chunk_record option" where
  "find_chunk rd kind lane target =
     List.find (\<lambda>c. cr_kind c = kind \<and> cr_lane c = lane \<and> cr_target_id c = target) (rd_chunks rd)"

text \<open>The file is opened again at each read.\<close>

definition read_chunk_slice :: "disk \<Rightarrow> reader \<Rightarrow> chunk_record \<Rightarrow> u64 \<Rightarrow> u64 \<Rightarrow> byte list option" where
  "read_chunk_slice dsk rd rec offset count =
     (if \<not> rd_ok rd \<or> count = 0 \<or> offset > cr_size rec then Some []
      else
        let n = min count (cr_size rec - offset) in
        if n = 0 then Some []
        else (case dsk (rd_path rd) of
                None \<Rightarrow> Some []
              | Some f \<Rightarrow>
                  if unat n > k_max_vector then None
                  else Some (read_at (fi_bytes f) (cr_offset rec + offset) (unat n))))"

record chunk_stream =
  st_file :: "byte list option"
  st_pos :: nat
  st_remaining :: u64
  st_ok :: bool

definition closed_stream :: chunk_stream where
  "closed_stream = \<lparr>st_file = None, st_pos = 0, st_remaining = 0, st_ok = False\<rparr>"

definition open_chunk_stream :: "disk \<Rightarrow> reader \<Rightarrow> chunk_record \<Rightarrow> chunk_stream" where
  "open_chunk_stream dsk rd rec =
     (if \<not> rd_ok rd then closed_stream
      else (case dsk (rd_path rd) of
              None \<Rightarrow> closed_stream
            | Some f \<Rightarrow>
                if \<not> seek_ok (cr_offset rec) then closed_stream
                else \<lparr>st_file = Some (fi_bytes f), st_pos = unat (cr_offset rec), st_remaining = cr_size rec, st_ok = True\<rparr>))"

text \<open>The stream, the bytes and whether there are any.\<close>

definition read_some :: "chunk_stream \<Rightarrow> u64 \<Rightarrow> (chunk_stream \<times> byte list \<times> bool) option" where
  "read_some s max_bytes =
     (case st_file s of
        None \<Rightarrow> Some (s, [], False)
      | Some bs \<Rightarrow>
          if \<not> st_ok s \<or> st_remaining s = 0 \<or> max_bytes = 0 then Some (s, [], False)
          else
            let n = unat (min (st_remaining s) max_bytes) in
            if n > k_max_vector then None
            else
              let got = slice_bytes (st_pos s) n bs in
              if got = [] then Some (s\<lparr>st_ok := False\<rparr>, [], False)
              else Some (s\<lparr>st_pos := st_pos s + length got, st_ok := (length got = n),
                           st_remaining := st_remaining s - word_of_nat (length got)\<rparr>, got, True))"

definition read_export_c_index :: "disk \<Rightarrow> reader \<Rightarrow> export_entry list option" where
  "read_export_c_index dsk rd =
     (case find_chunk rd kExportCIndex kGlobal 0 of
        None \<Rightarrow> Some []
      | Some rec \<Rightarrow> map_option parse_export_c_index (read_chunk_slice dsk rd rec 0 (cr_size rec)))"

definition read_native_deps :: "disk \<Rightarrow> reader \<Rightarrow> native_dep list option" where
  "read_native_deps dsk rd =
     (case find_chunk rd kNativeDeps kGlobal 0 of
        None \<Rightarrow> Some []
      | Some rec \<Rightarrow> map_option parse_native_deps (read_chunk_slice dsk rd rec 0 (cr_size rec)))"

definition lookup_export_c :: "disk \<Rightarrow> reader \<Rightarrow> string \<Rightarrow> export_entry option option" where
  "lookup_export_c dsk rd name = map_option (List.find (\<lambda>e. ex_symbol e = name)) (read_export_c_index dsk rd)"

section \<open>Inspection\<close>

record inspect_result =
  in_ok :: bool
  in_path :: string
  in_header :: header_info
  in_chunks :: "chunk_record list"
  in_exports :: "export_entry list"
  in_deps :: "native_dep list"
  in_messages :: "message list"

text \<open>The messages of entry \<open>i\<close>: none when its payload is whole and has its two hashes.\<close>

definition inspect_chunk :: "disk \<Rightarrow> reader \<Rightarrow> nat \<Rightarrow> chunk_record \<Rightarrow> message list option" where
  "inspect_chunk dsk rd i c =
     map_option (\<lambda>payload.
       if word_of_nat (length payload) \<noteq> cr_size c
       then [error_msg (''parlib inspect: failed to read full payload for entry #'' @ dec i)]
       else if fnv1a64_update k_hash_seed_content payload \<noteq> cr_content_hash c
         \<or> fnv1a64_update k_hash_seed_checksum payload XOR word_of_nat (length payload) \<noteq> cr_checksum c
       then [error_msg (''parlib inspect: checksum/hash mismatch at entry #'' @ dec i @ '' (''
               @ chunk_kind_name (cr_kind c) @ '':'' @ lane_name (cr_lane c) @ '')'')]
       else [])
     (read_chunk_slice dsk rd c 0 (cr_size c))"

fun inspect_chunks :: "disk \<Rightarrow> reader \<Rightarrow> nat \<Rightarrow> chunk_record list \<Rightarrow> message list option" where
  "inspect_chunks dsk rd i [] = Some []"
| "inspect_chunks dsk rd i (c # cs) = do {
     ms \<leftarrow> inspect_chunk dsk rd i c;
     rest \<leftarrow> inspect_chunks dsk rd (Suc i) cs;
     Some (ms @ rest)
   }"

definition inspect_parlib :: "disk \<Rightarrow> string \<Rightarrow> inspect_result option" where
  "inspect_parlib dsk path =
     (case open_reader dsk path of
        (None, ms) \<Rightarrow> Some \<lparr>in_ok = False, in_path = path, in_header = empty_header, in_chunks = [], in_exports = [],
                            in_deps = [], in_messages = ms\<rparr>
      | (Some rd, ms) \<Rightarrow> do {
          exports \<leftarrow> read_export_c_index dsk rd;
          deps \<leftarrow> read_native_deps dsk rd;
          errors \<leftarrow> inspect_chunks dsk rd 0 (rd_chunks rd);
          let ok = rd_ok rd \<and> errors = [];
              info = (if ok then [info_msg (''parlib inspect: file is valid ('' @ dec (length (rd_chunks rd)) @ '' chunks).'')] else [])
          in Some \<lparr>in_ok = ok, in_path = path, in_header = rd_header rd, in_chunks = rd_chunks rd,
                   in_exports = exports, in_deps = deps, in_messages = ms @ errors @ info\<rparr>
        })"

end
