(* ===== verification/Parlib_Spec.thy ===== *)
theory Parlib_Spec
  imports Parlib_Layout Parlib_Reader
begin

text \<open>
  The contract of parlib files: a file with the layout of the format opens with its header and its
  records; what the writer leaves has that layout, and each record describes the payload it was
  made for.
\<close>

section \<open>Words of file positions\<close>

lemma unat_pos: "n < 2 ^ 63 \<Longrightarrow> unat (word_of_nat n :: u64) = n"
  by (simp add: unsigned_of_nat take_bit_nat_eq_self_iff)

lemma unat_count: "n < 2 ^ 32 \<Longrightarrow> unat (word_of_nat n :: u32w) = n"
  by (simp add: unsigned_of_nat take_bit_nat_eq_self_iff)

lemma pos_le_iff: "m < 2 ^ 63 \<Longrightarrow> n < 2 ^ 63 \<Longrightarrow> (word_of_nat m :: u64) \<le> word_of_nat n \<longleftrightarrow> m \<le> n"
  by (simp add: word_le_nat_alt unat_pos)

lemma ucast_count: "n < 2 ^ 32 \<Longrightarrow> (ucast (word_of_nat n :: u32w) :: u64) = word_of_nat n"
  by (simp add: word_unat_eq_iff unsigned_ucast_eq unat_count unat_pos take_bit_nat_eq_self_iff)

lemma unat_diff_pos: "m \<le> n \<Longrightarrow> n < 2 ^ 63 \<Longrightarrow> unat (word_of_nat n - word_of_nat m :: u64) = n - m"
  by (simp add: unat_pos unat_sub_if')

lemma slice_middle: "length a = off \<Longrightarrow> length b = n \<Longrightarrow> slice_bytes off n (a @ b @ c) = b"
  by (simp add: slice_bytes_def)

lemma slice_last: "length a = off \<Longrightarrow> length b = n \<Longrightarrow> slice_bytes off n (a @ b) = b"
  by (simp add: slice_bytes_def)

section \<open>Files with the layout of the format\<close>

definition toc_bytes :: "chunk_record list \<Rightarrow> byte list" where
  "toc_bytes rs = concat (map serialize_toc_entry rs)"

lemma length_toc_bytes [simp]: "length (toc_bytes rs) = 64 * length rs"
  by (induction rs) (simp_all add: toc_bytes_def)

lemma slice_toc:
  "slice_bytes (length ps * 64) 64 (toc_bytes (ps @ r # rs)) = serialize_toc_entry r"
proof -
  have "toc_bytes (ps @ r # rs) = toc_bytes ps @ serialize_toc_entry r @ toc_bytes rs" by (simp add: toc_bytes_def)
  then show ?thesis by (simp add: slice_middle)
qed

lemma read_toc_back:
  assumes "\<forall>r \<in> set rs. cr_offset r + cr_size r \<le> file_size \<and> \<not> cr_deduplicated r"
  shows "read_toc file_size (toc_bytes (ps @ rs)) 64 (length ps) (length rs) = Inr rs"
  using assms
proof (induction rs arbitrary: ps)
  case (Cons r rs)
  have "deserialize_toc_entry (toc_bytes (ps @ r # rs)) (length ps * 64) = Some (r\<lparr>cr_deduplicated := False\<rparr>)"
    by (rule toc_roundtrip) (simp_all add: slice_toc)
  moreover have "r\<lparr>cr_deduplicated := False\<rparr> = r" using Cons.prems by (cases r) simp
  moreover have "read_toc file_size (toc_bytes (ps @ r # rs)) 64 (Suc (length ps)) (length rs) = Inr rs"
    using Cons.IH [of "ps @ [r]"] Cons.prems by simp
  ultimately show ?case using Cons.prems by (auto simp: not_less)
qed simp

text \<open>A header that describes a file of \<open>n\<close> bytes with \<open>k\<close> entries and a body of \<open>m\<close> bytes.\<close>

definition header_fits :: "header_info \<Rightarrow> nat \<Rightarrow> nat \<Rightarrow> nat \<Rightarrow> bool" where
  "header_fits h m k n \<longleftrightarrow>
     hd_format_major h = 1 \<and> hd_format_minor h = 1 \<and> hd_header_size h = 256 \<and> hd_file_size h = word_of_nat n
     \<and> hd_toc_offset h = word_of_nat (256 + m) \<and> hd_toc_size h = word_of_nat (64 * k)
     \<and> hd_toc_entry_size h = 64 \<and> hd_toc_entry_count h = word_of_nat k"

definition laid_out :: "header_info \<Rightarrow> byte list \<Rightarrow> chunk_record list \<Rightarrow> byte list" where
  "laid_out h body rs = serialize_header h @ body @ toc_bytes rs @ serialize_footer (hd_toc_offset h) (hd_toc_size h)"

lemma length_laid_out: "length (laid_out h body rs) = 288 + length body + 64 * length rs"
  by (simp add: laid_out_def)

lemma laid_out_reads:
  assumes fits: "header_fits h (length body) (length rs) n" and n: "n = length (laid_out h body rs)"
    and small: "n < 2 ^ 63" and count: "length rs < 2 ^ 32"
  shows "read_at (laid_out h body rs) 0 256 = serialize_header h"
  "read_at (laid_out h body rs) (word_of_nat n - 32) 32 = serialize_footer (hd_toc_offset h) (hd_toc_size h)"
  "read_at (laid_out h body rs) (hd_toc_offset h) (64 * length rs) = toc_bytes rs"
proof -
  have len: "n = 288 + length body + 64 * length rs" using n by (simp add: length_laid_out)
  have pos: "unat (word_of_nat n - 32 :: u64) = n - 32" "unat (hd_toc_offset h) = 256 + length body"
    using unat_diff_pos [of 32 n] len small fits unat_pos [of "256 + length body"] by (simp_all add: header_fits_def)
  show "read_at (laid_out h body rs) 0 256 = serialize_header h"
    by (simp add: read_at_def seek_ok_def laid_out_def slice_bytes_def)
  show "read_at (laid_out h body rs) (word_of_nat n - 32) 32 = serialize_footer (hd_toc_offset h) (hd_toc_size h)"
    using slice_last [of "serialize_header h @ body @ toc_bytes rs" "n - 32" "serialize_footer (hd_toc_offset h) (hd_toc_size h)" 32]
      pos len small by (simp add: read_at_def seek_ok_def k_max_vector_def laid_out_def)
  show "read_at (laid_out h body rs) (hd_toc_offset h) (64 * length rs) = toc_bytes rs"
    using slice_middle [of "serialize_header h @ body" "256 + length body" "toc_bytes rs" "64 * length rs"]
      pos len small by (simp add: read_at_def seek_ok_def k_max_vector_def laid_out_def)
qed

lemma laid_out_header_ok:
  assumes fits: "header_fits h (length body) (length rs) n" and n: "n = length (laid_out h body rs)"
    and small: "n < 2 ^ 63" and count: "length rs < 2 ^ 32"
  shows "header_error (stored_header h) (word_of_nat n) = None"
  using fits small n pos_le_iff [of 32 n]
  by (auto simp: header_error_def header_fits_def stored_header_def length_laid_out not_less)

lemma laid_out_layout_ok:
  assumes fits: "header_fits h (length body) (length rs) n" and n: "n = length (laid_out h body rs)"
    and small: "n < 2 ^ 63" and count: "length rs < 2 ^ 32"
  shows "layout_error (stored_header h) (hd_toc_offset h, hd_toc_size h) (word_of_nat n) = None"
proof -
  have "(word_of_nat n :: u64) = word_of_nat (256 + length body) + word_of_nat (64 * length rs) + 32"
    unfolding n length_laid_out by simp
  then show ?thesis using fits ucast_count [OF count]
    by (simp add: layout_error_def header_fits_def stored_header_def)
qed

lemma open_laid_out:
  assumes fits: "header_fits h (length body) (length rs) n" and n: "n = length (laid_out h body rs)"
    and small: "n < 2 ^ 63" and count: "length rs < 2 ^ 32"
    and ranges: "\<forall>r \<in> set rs. cr_offset r + cr_size r \<le> word_of_nat n \<and> \<not> cr_deduplicated r"
  shows "open_file path \<lparr>fi_bytes = laid_out h body rs, fi_seekable = True\<rparr> = Inr (stored_header h, rs)"
proof -
  note facts = laid_out_reads [OF fits n small count] laid_out_layout_ok [OF fits n small count] laid_out_header_ok [OF fits n small count]
  have same: "hd_toc_size (stored_header h) = hd_toc_size h" "hd_toc_offset (stored_header h) = hd_toc_offset h"
    "hd_toc_entry_count (stored_header h) = hd_toc_entry_count h" "hd_toc_entry_size (stored_header h) = hd_toc_entry_size h"
    by (simp_all add: stored_header_def)
  have sizes: "unat (hd_toc_size h) = 64 * length rs" "unat (hd_toc_entry_count h) = length rs" "hd_toc_entry_size h = 64"
    using fits small n count unat_pos [of "64 * length rs"] unat_count [of "length rs"]
    by (simp_all add: header_fits_def length_laid_out)
  have "open_layout (laid_out h body rs) (stored_header h) (word_of_nat n) = Inr rs"
    using read_toc_back [OF ranges, of "[]"]
    by (simp add: open_layout_def Let_def facts footer_roundtrip same sizes)
  moreover have "\<not> (word_of_nat n :: u64) < 288"
    using pos_le_iff [of 288 n] small n by (simp add: length_laid_out not_less)
  ultimately show ?thesis
    by (simp add: open_file_def Let_def facts header_roundtrip flip: n)
qed

section \<open>Writing\<close>

lemma stream_write_good:
  "os_good (stream_write env bs s) \<longleftrightarrow> os_good s \<and> (bs = [] \<or> length (os_data s) + length bs \<le> en_capacity env)"
  by (auto simp: stream_write_def)

lemma stream_write_data: "os_good (stream_write env bs s) \<Longrightarrow> os_data (stream_write env bs s) = os_data s @ bs"
  by (simp add: stream_write_def split: if_splits)

lemma stream_write_Nil [simp]: "stream_write env [] s = s"
  by (simp add: stream_write_def)

lemma stream_write_append:
  "stream_write env bs (stream_write env as s) = stream_write env (as @ bs) s
   \<or> \<not> os_good (stream_write env bs (stream_write env as s)) \<and> \<not> os_good (stream_write env (as @ bs) s)"
proof (cases "os_good (stream_write env as s)")
  case True
  then show ?thesis by (auto simp: stream_write_def)
next
  case False
  then show ?thesis by (auto simp: stream_write_good)
qed

lemma write_toc_good:
  "os_good (fold (\<lambda>c s. stream_write env (serialize_toc_entry c) s) rs s) \<Longrightarrow>
   os_good s \<and> os_data (fold (\<lambda>c s. stream_write env (serialize_toc_entry c) s) rs s) = os_data s @ toc_bytes rs"
proof (induction rs arbitrary: s)
  case (Cons r rs)
  then show ?case using stream_write_good stream_write_data by (fastforce simp: toc_bytes_def)
qed (simp add: toc_bytes_def)

text \<open>What the bytes add to the record does not depend on the blocks they come in.\<close>

lemma add_bytes_append: "add_bytes bs (add_bytes as r) = add_bytes (as @ bs) r"
  by (simp add: add_bytes_def fnv1a64_update_append)

lemma add_bytes_Nil [simp]: "add_bytes [] r = r"
  by (simp add: add_bytes_def fnv1a64_update_def)

lemma write_blocks_eq:
  "os_good s \<Longrightarrow> case write_blocks env input s r of
     Inl s' \<Rightarrow> \<not> os_good s' \<and> \<not> os_good (stream_write env input s)
   | Inr (s', r') \<Rightarrow> os_good s' \<and> s' = stream_write env input s \<and> r' = add_bytes input r"
proof (induction env input s r rule: write_blocks.induct)
  case (1 env input s r)
  let ?block = "take k_block input"
  let ?s = "if ?block = [] then s else stream_write env ?block s"
  let ?r = "if ?block = [] then r else add_bytes ?block r"
  have all: "stream_write env input s = stream_write env (drop k_block input) ?s
     \<or> \<not> os_good (stream_write env input s) \<and> \<not> os_good (stream_write env (drop k_block input) ?s)"
    using stream_write_append [of env "drop k_block input" ?block s] by auto
  show ?case
  proof (cases "?block \<noteq> [] \<and> \<not> os_good ?s")
    case True
    then have "write_blocks env input s r = Inl ?s"
      by (subst write_blocks.simps) (auto simp: Let_def)
    moreover have "\<not> os_good (stream_write env (drop k_block input) ?s)" using True by (auto simp: stream_write_good)
    ultimately show ?thesis using True all by auto
  next
    case good: False
    then have s: "os_good ?s" using "1.prems" by auto
    show ?thesis
    proof (cases "length input < k_block")
      case True
      then have "?s = stream_write env input s" "?r = add_bytes input r" by auto
      moreover have "write_blocks env input s r = Inr (?s, ?r)"
        using good True by (subst write_blocks.simps) (simp only: Let_def if_False if_True simp_thms)
      ultimately show ?thesis using s by simp
    next
      case False
      have eq: "write_blocks env input s r = write_blocks env (drop k_block input) ?s ?r"
        using good False by (subst write_blocks.simps) (simp only: Let_def if_False simp_thms)
      have r: "add_bytes (drop k_block input) ?r = add_bytes input r" by (simp add: add_bytes_append)
      show ?thesis
        using "1.IH" [OF refl refl refl good False s] all unfolding eq r [symmetric]
        by (auto split: sum.splits)
    qed
  qed
qed

lemma append_start_Inr:
  assumes "append_start env meta w = Inr (s, r)"
  shows "wr_begun w" "\<not> wr_finalized w" "is_power_of_two (cp_alignment meta)" "cp_compression meta = kNone"
    "os_good s" "r = fresh_record meta (length (os_data s))"
    "\<exists>s0. wr_stream w = Some s0 \<and> align_output_stream env (cp_alignment meta) s0 = (s, True)"
  using assms
  by (auto simp: append_start_def stream_tell_def Let_def split: option.splits if_splits prod.splits)

text \<open>Alignment: the padded position is a multiple of a power of two.\<close>

lemma power_of_two_exp:
  assumes "is_power_of_two x"
  obtains k where "unat x = 2 ^ k" "k < 32"
proof -
  have pos: "0 < unat x" using assms by (simp add: is_power_of_two_def unat_gt_0)
  obtain k where k: "2 ^ k \<le> unat x" "unat x < 2 ^ (k + 1)"
    using ex_power_ivl1 [of 2 "unat x"] pos by auto
  have k32: "k < 32"
  proof (rule ccontr)
    assume "\<not> k < 32"
    then have "(2 :: nat) ^ 32 \<le> 2 ^ k" by (intro power_increasing) auto
    moreover have "unat x < 2 ^ LENGTH(32)" by (rule unsigned_less)
    ultimately show False using k by simp
  qed
  have "unat x = 2 ^ k"
  proof (rule ccontr)
    assume ne: "unat x \<noteq> 2 ^ k"
    have "unat (x - 1) = unat x - 1" using pos by (simp add: unat_minus_one unat_gt_0)
    then have "unat (x - 1) div 2 ^ k = 1" "unat x div 2 ^ k = 1" using k ne by (simp_all add: div_nat_eqI)
    then have "bit x k" "bit (x - 1) k" using k32
      by (metis bit_iff_odd bit_unsigned_iff odd_one)+
    then have "bit (x AND (x - 1)) k" by (simp add: bit_and_iff)
    then show False using assms by (simp add: is_power_of_two_def)
  qed
  with k32 that show thesis by blast
qed

lemma align_up_multiple:
  assumes "is_power_of_two a"
  shows "unat (align_up p a) mod unat a = 0"
proof -
  obtain k where k: "unat a = 2 ^ k" "k < 32" by (rule power_of_two_exp [OF assms])
  show ?thesis
  proof (cases "a \<le> 1")
    case True
    then have "unat a \<le> 1" by (simp add: word_le_nat_alt)
    moreover have "1 \<le> unat a" using k by simp
    ultimately have "unat a = 1" by (rule le_antisym)
    then show ?thesis by simp
  next
    case False
    have lt: "(2 :: nat) ^ k < 2 ^ 63" "(2 :: nat) ^ k < 2 ^ 64" using k(2) power_strict_increasing [of k 63 "2 :: nat"] power_strict_increasing [of k 64 "2 :: nat"] by simp_all
    then have "(ucast a :: u64) = word_of_nat (2 ^ k)"
      using unat_pos [OF lt(1)] k by (simp add: word_unat_eq_iff unsigned_ucast_eq take_bit_nat_eq_self_iff)
    then have "(ucast a :: u64) = 2 ^ k" by simp
    then have "align_up p a = (p + mask k) AND NOT (mask k)"
      using False by (simp add: align_up_def mask_eq_exp_minus_1 Let_def)
    then have "take_bit k (align_up p a) = 0"
      by (auto intro!: bit_word_eqI simp: bit_simps)
    then have "take_bit k (unat (align_up p a)) = 0"
      by (metis unsigned_0 unsigned_take_bit_eq)
    then show ?thesis by (simp add: k take_bit_eq_mod)
  qed
qed

lemma align_stream:
  assumes "align_output_stream env a s = (s', True)"
  shows "\<exists>pad. os_data s' = os_data s @ replicate pad 0" "length (os_data s) \<le> en_capacity env \<Longrightarrow> length (os_data s') \<le> en_capacity env"
    "1 < a \<Longrightarrow> os_good s \<and> os_good s'"
    "a \<le> 1 \<Longrightarrow> s' = s"
  using assms stream_write_good [of env _ s]
  by (auto simp: align_output_stream_def stream_tell_def Let_def stream_write_def split: if_splits)

lemma align_stream_pos:
  assumes "align_output_stream env a s = (s', True)" "1 < a" "length (os_data s') < 2 ^ 63"
  shows "unat (align_up (word_of_nat (length (os_data s))) a) = length (os_data s')"
proof -
  let ?p = "word_of_nat (length (os_data s)) :: u64"
  have "length (os_data s') = length (os_data s) + unat (align_up ?p a - ?p)"
    using assms(1,2)
    by (auto simp: align_output_stream_def stream_tell_def Let_def stream_write_def split: if_splits)
  then have "(word_of_nat (length (os_data s')) :: u64) = ?p + (align_up ?p a - ?p)" by simp
  then show ?thesis using unat_pos [OF assms(3)] by simp
qed

section \<open>The writer's invariant\<close>

text \<open>A record that describes a payload which stands in the data.\<close>

definition describes :: "byte list \<Rightarrow> chunk_payload \<Rightarrow> chunk_record \<Rightarrow> bool" where
  "describes data c r \<longleftrightarrow>
     cr_kind r = cp_kind c \<and> cr_lane r = cp_lane c \<and> cr_target_id r = cp_target_id c
     \<and> cr_alignment r = cp_alignment c \<and> is_power_of_two (cp_alignment c) \<and> unat (cr_offset r) mod unat (cp_alignment c) = 0
     \<and> cr_compression r = kNone \<and> \<not> cr_deduplicated r
     \<and> 256 \<le> unat (cr_offset r) \<and> unat (cr_offset r) + unat (cr_size r) \<le> length data
     \<and> unat (cr_size r) = length (cp_bytes c)
     \<and> slice_bytes (unat (cr_offset r)) (length (cp_bytes c)) data = cp_bytes c
     \<and> cr_content_hash r = fnv1a64_update k_hash_seed_content (cp_bytes c)
     \<and> cr_checksum r = fnv1a64_update k_hash_seed_checksum (cp_bytes c) XOR cr_size r"

lemma describes_append: "describes data c r \<Longrightarrow> describes (data @ rest) c r"
  by (auto simp: describes_def slice_bytes_def)

lemma describes_patch:
  assumes "length hdr = 256" "describes data c r"
  shows "describes (put_bytes 0 hdr data) c r"
proof -
  have "256 \<le> length data" using assms(2) by (auto simp: describes_def)
  then show ?thesis using assms by (auto simp: describes_def slice_put_other)
qed

definition good_writer :: "environment \<Rightarrow> chunk_payload list \<Rightarrow> writer \<Rightarrow> bool" where
  "good_writer env cs w \<longleftrightarrow>
     wr_begun w \<and> \<not> wr_finalized w
     \<and> (\<exists>s. wr_stream w = Some s \<and> os_good s \<and> 256 \<le> length (os_data s) \<and> length (os_data s) \<le> en_capacity env
          \<and> list_all2 (describes (os_data s)) cs (wr_chunks w))
     \<and> \<not> has_error_messages (wr_messages w)"

lemma append_chunk_good:
  assumes good: "good_writer env cs w" and cap: "en_capacity env < 2 ^ 63"
    and "append_chunk env c w = (w', True)"
  shows "good_writer env (cs @ [c]) w' \<and> wr_opt w' = wr_opt w"
proof -
  obtain s r where start: "append_start env c w = Inr (s, r)"
    using assms(3) by (auto simp: append_chunk_def split: sum.splits)
  note facts = append_start_Inr [OF start]
  obtain s0 where s0: "wr_stream w = Some s0" "align_output_stream env (cp_alignment c) s0 = (s, True)"
    using facts(7) by auto
  have data0: "256 \<le> length (os_data s0)" "length (os_data s0) \<le> en_capacity env"
    "list_all2 (describes (os_data s0)) cs (wr_chunks w)"
    using good s0(1) by (auto simp: good_writer_def)
  obtain pad where pad: "os_data s = os_data s0 @ replicate pad 0" using align_stream(1) [OF s0(2)] by auto
  have fits: "length (os_data s) \<le> en_capacity env" using align_stream(2) [OF s0(2)] data0 by simp
  define s' where "s' = stream_write env (cp_bytes c) s"
  define r' where "r' = (add_bytes (cp_bytes c) r)\<lparr>cr_checksum := cr_checksum (add_bytes (cp_bytes c) r) XOR cr_size (add_bytes (cp_bytes c) r)\<rparr>"
  have w': "w' = w\<lparr>wr_stream := Some s', wr_chunks := wr_chunks w @ [r']\<rparr>" and s': "os_good s'"
    using assms(3) start facts(5)
    by (auto simp: append_chunk_def append_end_def s'_def r'_def Let_def split: if_splits)
  have data': "os_data s' = os_data s @ cp_bytes c" "length (os_data s') \<le> en_capacity env"
    using stream_write_data [of env "cp_bytes c" s] stream_write_good [of env "cp_bytes c" s] s' fits unfolding s'_def by auto
  have lt: "length (os_data s) < 2 ^ 63" "length (cp_bytes c) < 2 ^ 63" using data' cap by auto
  then have off: "unat (cr_offset r') = length (os_data s)" "unat (cr_size r') = length (cp_bytes c)"
    by (simp_all add: r'_def add_bytes_def facts(6) fresh_record_def unat_pos)
  have "length (os_data s) mod unat (cp_alignment c) = 0"
  proof (cases "cp_alignment c \<le> 1")
    case True
    then have "unat (cp_alignment c) \<le> 1" by (simp add: word_le_nat_alt)
    then have "unat (cp_alignment c) = 0 \<or> unat (cp_alignment c) = 1" by linarith
    then show ?thesis using facts(3) by (auto simp: is_power_of_two_def unat_eq_0)
  next
    case False
    then show ?thesis
      using align_up_multiple [OF facts(3), of "word_of_nat (length (os_data s0))"] align_stream_pos [OF s0(2)] lt(1) by simp
  qed
  then have new: "describes (os_data s') c r'"
    using facts(3,4) data0(1) pad slice_last [of "os_data s" "length (os_data s)" "cp_bytes c"] unfolding describes_def off data'(1)
    by (simp del: append_assoc) (simp add: r'_def add_bytes_def facts(6) fresh_record_def)
  have "list_all2 (describes (os_data s')) cs (wr_chunks w)"
    using data0(3) unfolding data'(1) pad by (auto intro: list_all2_mono describes_append)
  then show ?thesis
    using good new s' data' data0(1) pad by (auto simp: good_writer_def w' list_all2_appendI)
qed

lemma append_all_good:
  "good_writer env cs w \<Longrightarrow> en_capacity env < 2 ^ 63 \<Longrightarrow> append_all env ds w = (w', True) \<Longrightarrow>
   good_writer env (cs @ ds) w' \<and> wr_opt w' = wr_opt w"
proof (induction ds arbitrary: cs w)
  case (Cons d ds)
  obtain w1 where w1: "append_chunk env d w = (w1, True)" "append_all env ds w1 = (w', True)"
    using Cons.prems(3) by (auto simp: Let_def split: prod.splits)
  then show ?case
    using append_chunk_good [OF Cons.prems(1,2) w1(1)] Cons.IH [of "cs @ [d]" w1] Cons.prems(2) by simp
qed simp

lemma writer_begin_good:
  assumes "writer_begin env opt w0 = (w, True)"
  shows "good_writer env [] w" "wr_opt w = opt"
  using assms
  by (auto simp: writer_begin_def good_writer_def Let_def push_message_def has_error_messages_def info_msg_def stream_write_def
      split: if_splits)

lemma has_error_check [simp]:
  "has_error_messages (ms @ ms') \<longleftrightarrow> has_error_messages ms \<or> has_error_messages ms'"
  "has_error_messages (check_msg ok t) \<longleftrightarrow> \<not> ok"
  by (simp_all add: has_error_messages_def check_msg_def error_msg_def)

lemma finalize_good:
  assumes good: "good_writer env cs w" and cap: "en_capacity env < 2 ^ 63"
    and fin: "writer_finalize env w = (w', res)" and ok: "br_ok res"
  obtains body s where "wr_stream w' = Some s" "os_data s = laid_out (br_header res) body (br_chunks res)"
    "header_fits (br_header res) (length body) (length (br_chunks res)) (length (os_data s))"
    "list_all2 (describes (os_data s)) cs (br_chunks res)" "length (os_data s) < 2 ^ 63"
    "hd_footer_offset (br_header res) = hd_toc_offset (br_header res) + hd_toc_size (br_header res)"
    "br_header res = final_header (wr_opt w) (length (br_chunks res)) (Some (256 + length body)) (Some (length (os_data s)))"
proof -
  obtain s0 where s0: "wr_stream w = Some s0" "256 \<le> length (os_data s0)" "length (os_data s0) \<le> en_capacity env"
    "list_all2 (describes (os_data s0)) cs (wr_chunks w)" and begun: "wr_begun w" "\<not> wr_finalized w"
    using good by (auto simp: good_writer_def)
  obtain s1 al where s1: "align_output_stream env 8 s0 = (s1, al)" by fastforce
  define rs where "rs = wr_chunks w"
  define s2 where "s2 = fold (\<lambda>c s. stream_write env (serialize_toc_entry c) s) rs s1"
  define foot where "foot = serialize_footer (offset_or_0 (stream_tell s1)) (word_of_nat (length rs) * word_of_nat 64)"
  define s3 where "s3 = stream_write env foot s2"
  define h where "h = final_header (wr_opt w) (length rs) (stream_tell s1) (stream_tell s3)"
  have res: "br_header res = h" "br_chunks res = rs" "wr_stream w' = Some (stream_patch (serialize_header h) s3)"
    and oks: "al" "os_good s3"
    using fin ok begun s0(1) s1
    by (auto simp: writer_finalize_def Let_def s2_def foot_def s3_def h_def rs_def stream_patch_def empty_result_def split: if_splits)
  have good3: "os_good s1" "os_good s2" using oks(2) write_toc_good [of env rs s1] by (auto simp: s3_def s2_def stream_write_good)
  have aligned: "align_output_stream env 8 s0 = (s1, True)" using s1 oks(1) by simp
  obtain pad where pad: "os_data s1 = os_data s0 @ replicate pad 0" using align_stream(1) [OF aligned] by auto
  define body where "body = drop 256 (os_data s1)"
  have tell: "stream_tell s1 = Some (256 + length body)" using good3(1) pad s0(2) by (simp add: stream_tell_def body_def)
  have data: "os_data s3 = os_data s1 @ toc_bytes rs @ foot"
    using stream_write_data [of env foot s2] write_toc_good [of env rs s1] oks(2) good3 by (simp add: s3_def s2_def)
  have lens: "length (os_data s3) = 288 + length body + 64 * length rs" "length (os_data s3) < 2 ^ 63"
  proof -
    have len: "length foot = 32" by (simp add: foot_def)
    then have "foot \<noteq> []" by auto
    then have "length (os_data s2) + length foot \<le> en_capacity env" "os_data s3 = os_data s2 @ foot"
      using oks(2) stream_write_good [of env foot s2] stream_write_data [of env foot s2] by (auto simp: s3_def)
    then show "length (os_data s3) < 2 ^ 63" using cap by simp
    show "length (os_data s3) = 288 + length body + 64 * length rs"
      using data pad s0(2) len by (simp add: body_def)
  qed
  have fields: "hd_toc_offset h = word_of_nat (256 + length body)" "hd_toc_size h = word_of_nat (length rs) * 64"
    by (simp_all add: h_def final_header_def tell offset_or_0_def Let_def)
  have foot: "foot = serialize_footer (hd_toc_offset h) (hd_toc_size h)"
    by (simp add: foot_def fields tell offset_or_0_def)
  have tell3: "stream_tell s3 = Some (length (os_data s3))" using oks(2) by (simp add: stream_tell_def)
  have patched: "os_data (stream_patch (serialize_header h) s3) = laid_out h body rs"
    using oks(2) data foot pad s0(2) by (simp add: stream_patch_def put_bytes_def laid_out_def body_def)
  have len': "length (laid_out h body rs) = length (os_data s3)" using lens by (simp add: length_laid_out)
  show thesis
  proof (rule that [of "stream_patch (serialize_header h) s3" body])
    show "list_all2 (describes (os_data (stream_patch (serialize_header h) s3))) cs (br_chunks res)"
    proof -
      have "describes (os_data (stream_patch (serialize_header h) s3)) c r" if "describes (os_data s0) c r" for c r
        using describes_patch [OF _ describes_append [OF that]] oks(2) data pad by (simp add: stream_patch_def)
      then show ?thesis using s0(4) unfolding res rs_def by (auto intro: list_all2_mono)
    qed
    show "header_fits (br_header res) (length body) (length (br_chunks res)) (length (os_data (stream_patch (serialize_header h) s3)))"
      unfolding res patched len' header_fits_def fields
      by (simp add: h_def final_header_def Let_def tell3 offset_or_0_def)
    show "hd_footer_offset (br_header res) = hd_toc_offset (br_header res) + hd_toc_size (br_header res)"
      by (simp add: res h_def final_header_def Let_def)
    show "br_header res = final_header (wr_opt w) (length (br_chunks res)) (Some (256 + length body)) (Some (length (os_data (stream_patch (serialize_header h) s3))))"
      unfolding res patched len' by (simp add: h_def tell tell3)
  qed (use res patched lens len' in simp_all)
qed

end
