(* ===== verification/Parlib_Build.thy ===== *)
theory Parlib_Build
  imports Parlib_Spec "HOL-Library.Multiset"
begin

text \<open>
  Building and reading parlib files together: a build with enough room succeeds, what it leaves
  opens, reads back and inspects clean, appending from a stream is appending the bytes, and what the
  range check of the reader lets through.
\<close>

section \<open>Reading what was built\<close>

lemma in_range_word:
  assumes "unat a + unat b \<le> n" "n < 2 ^ 63"
  shows "(a :: u64) + b \<le> word_of_nat n"
proof -
  have "unat (a + b) = unat a + unat b"
    using assms unat_add_lem [of a b] by simp
  then show ?thesis using assms by (simp add: word_le_nat_alt unat_pos)
qed

lemma read_described:
  assumes "describes data c r" "length data < 2 ^ 63" "rd_ok rd" "dsk (rd_path rd) = Some f" "fi_bytes f = data"
  shows "read_chunk_slice dsk rd r 0 (cr_size r) = Some (cp_bytes c)"
proof (cases "cr_size r = 0")
  case True
  then show ?thesis using assms(1) by (auto simp: describes_def read_chunk_slice_def)
next
  case False
  have "unat (cr_offset r) \<le> k_max_vector" "unat (cr_size r) \<le> k_max_vector" "unat (cr_size r) = length (cp_bytes c)"
    "slice_bytes (unat (cr_offset r)) (length (cp_bytes c)) data = cp_bytes c"
    using assms(1,2) by (auto simp: describes_def k_max_vector_def)
  then show ?thesis using assms False by (simp add: read_chunk_slice_def Let_def read_at_def seek_ok_def)
qed

lemma word_of_nat_unat_id: "word_of_nat (unat w) = w"
  by simp

lemma inspect_described:
  assumes "describes data c r" "length data < 2 ^ 63" "rd_ok rd" "dsk (rd_path rd) = Some f" "fi_bytes f = data"
  shows "inspect_chunk dsk rd i r = Some []"
proof -
  have "word_of_nat (length (cp_bytes c)) = cr_size r" using assms(1)
    by (metis describes_def word_of_nat_unat_id)
  moreover have read: "read_chunk_slice dsk rd r 0 (cr_size r) = Some (cp_bytes c)"
    using read_described [of data c r rd dsk f] assms by simp
  ultimately show ?thesis using assms(1) unfolding inspect_chunk_def read by (simp add: describes_def)
qed

lemma inspect_all_described:
  assumes "length data < 2 ^ 63" "rd_ok rd" "dsk (rd_path rd) = Some f" "fi_bytes f = data"
  shows "list_all2 (describes data) cs rs \<Longrightarrow> inspect_chunks dsk rd i rs = Some []"
proof (induction rs arbitrary: cs i)
  case (Cons r rs)
  then obtain c cs' where "cs = c # cs'" "describes data c r" "list_all2 (describes data) cs' rs"
    by (auto simp: list_all2_Cons2)
  then show ?case using Cons.IH [of cs' "Suc i"] inspect_described [of data c r rd dsk f i] assms by simp
qed simp

text \<open>The chunks a build writes, and the header as a reader gives it.\<close>

definition built_chunks :: "build_options \<Rightarrow> chunk_payload list" where
  "built_chunks opt = to_sorted_chunks (fold put_chunk (requested_chunks opt) [])"

definition read_header_of :: "header_info \<Rightarrow> header_info" where
  "read_header_of h = (stored_header h)\<lparr>hd_footer_offset := hd_footer_offset h\<rparr>"

definition one_file :: "string \<Rightarrow> byte list \<Rightarrow> disk" where
  "one_file path bs = [path \<mapsto> \<lparr>fi_bytes = bs, fi_seekable = True\<rparr>]"

lemma build_parts:
  assumes "build_parlib env opt = (res, Some bs)" "br_ok res" "en_capacity env < 2 ^ 63"
  obtains body where "bs = laid_out (br_header res) body (br_chunks res)"
    "header_fits (br_header res) (length body) (length (br_chunks res)) (length bs)"
    "list_all2 (describes bs) (built_chunks opt) (br_chunks res)" "length bs < 2 ^ 63"
    "br_header res = final_header opt (length (br_chunks res)) (Some (256 + length body)) (Some (length bs))"
    "bo_output_path opt \<noteq> []"
proof -
  obtain w where w: "writer_begin env opt (new_writer opt) = (w, True)" and path: "bo_output_path opt \<noteq> []"
    using assms(1,2)
    by (auto simp: build_parlib_def empty_result_def Let_def split: if_splits prod.splits)
  obtain w1 ok where w1: "append_all env (built_chunks opt) w = (w1, ok)" by fastforce
  obtain w2 built where w2: "writer_finalize env w1 = (w2, built)" by fastforce
  have out: "res = (if ok then built else built\<lparr>br_ok := False\<rparr>)" "Some bs = map_option os_data (wr_stream w2)"
    using assms(1,2) w w1 w2
    by (auto simp: build_parlib_def empty_result_def Let_def built_chunks_def split: if_splits)
  have ok: "ok" "res = built" using out(1) assms(2) by (auto split: if_splits)
  have good: "good_writer env (built_chunks opt) w1" "wr_opt w1 = opt"
    using append_all_good [of env "[]" w "built_chunks opt" w1] writer_begin_good [OF w] w1 ok assms(3) by auto
  obtain body s where "wr_stream w2 = Some s" "os_data s = laid_out (br_header res) body (br_chunks res)"
    "header_fits (br_header res) (length body) (length (br_chunks res)) (length (os_data s))"
    "list_all2 (describes (os_data s)) (built_chunks opt) (br_chunks res)" "length (os_data s) < 2 ^ 63"
    "br_header res = final_header opt (length (br_chunks res)) (Some (256 + length body)) (Some (length (os_data s)))"
    using finalize_good [OF good(1) assms(3) w2] assms(2) good(2) ok by metis
  then show thesis using that out(2) path by simp
qed

lemma open_built:
  assumes "build_parlib env opt = (res, Some bs)" "br_ok res" "en_capacity env < 2 ^ 63" "length (br_chunks res) < 2 ^ 32"
  obtains rd ms where "open_reader (one_file (bo_output_path opt) bs) (bo_output_path opt) = (Some rd, ms)"
    "rd_header rd = read_header_of (br_header res)" "rd_chunks rd = br_chunks res" "rd_ok rd"
    "rd_path rd = bo_output_path opt" "list_all2 (describes bs) (built_chunks opt) (br_chunks res)" "length bs < 2 ^ 63"
proof -
  obtain body where parts: "bs = laid_out (br_header res) body (br_chunks res)"
    "header_fits (br_header res) (length body) (length (br_chunks res)) (length bs)"
    "list_all2 (describes bs) (built_chunks opt) (br_chunks res)" "length bs < 2 ^ 63"
    "br_header res = final_header opt (length (br_chunks res)) (Some (256 + length body)) (Some (length bs))"
    "bo_output_path opt \<noteq> []"
    by (rule build_parts [OF assms(1-3)])
  have "cr_offset r + cr_size r \<le> word_of_nat (length bs) \<and> \<not> cr_deduplicated r" if r: "r \<in> set (br_chunks res)" for r
  proof -
    obtain c where "describes bs c r" using parts(3) r by (metis list_all2_conv_all_nth in_set_conv_nth)
    then show ?thesis using in_range_word [OF _ parts(4)] by (auto simp: describes_def)
  qed
  then have "open_file (bo_output_path opt) \<lparr>fi_bytes = bs, fi_seekable = True\<rparr> = Inr (stored_header (br_header res), br_chunks res)"
    using open_laid_out [OF parts(2) arg_cong [OF parts(1), of length] parts(4) assms(4)] parts(1) by metis
  moreover have "hd_footer_offset (br_header res) = hd_toc_offset (br_header res) + hd_toc_size (br_header res)"
    unfolding parts(5) by (simp add: final_header_def Let_def)
  ultimately have "open_reader (one_file (bo_output_path opt) bs) (bo_output_path opt) =
      (Some \<lparr>rd_path = bo_output_path opt, rd_header = read_header_of (br_header res), rd_chunks = br_chunks res,
         rd_messages = [info_msg (''parlib reader: opened v1 file ('' @ dec (length (br_chunks res)) @ '' chunks).'')],
         rd_ok = True\<rparr>,
       [info_msg (''parlib reader: opened v1 file ('' @ dec (length (br_chunks res)) @ '' chunks).'')])"
    using parts(6) by (simp add: open_reader_def one_file_def read_header_of_def stored_header_def Let_def)
  then show thesis by (rule that) (use parts(3,4) in simp_all)
qed

text \<open>The last chunk requested for a key, the one the build keeps.\<close>

definition chunk_pairs :: "chunk_payload list \<Rightarrow> (chunk_key \<times> chunk_payload) list" where
  "chunk_pairs cs = map (\<lambda>c. (key_of c, c)) cs"

definition last_requested :: "build_options \<Rightarrow> chunk_key \<Rightarrow> chunk_payload option" where
  "last_requested opt key = map_of (rev (chunk_pairs (requested_chunks opt))) key"

lemma map_of_pairs_filter:
  "map_of (chunk_pairs (filter (\<lambda>c'. key_of c' \<noteq> k) cs)) key = (if key = k then None else map_of (chunk_pairs cs) key)"
  by (induction cs) (auto simp: chunk_pairs_def)

lemma map_of_put_chunk: "map_of (chunk_pairs (put_chunk c cs)) = (map_of (chunk_pairs cs))(key_of c \<mapsto> c)"
  using map_of_pairs_filter [of "key_of c" cs]
  by (fastforce simp: put_chunk_def chunk_pairs_def map_add_def split: option.splits)

lemma map_of_put_chunks: "map_of (chunk_pairs (fold put_chunk cs [])) = map_of (rev (chunk_pairs cs))"
proof (induction cs rule: rev_induct)
  case (snoc c cs)
  have "rev (chunk_pairs (cs @ [c])) = (key_of c, c) # rev (chunk_pairs cs)" by (simp add: chunk_pairs_def)
  then show ?case using snoc by (simp add: map_of_put_chunk)
qed (simp add: chunk_pairs_def)

lemma distinct_put_chunks: "distinct (map key_of (fold put_chunk cs []))"
  by (induction cs rule: rev_induct) (auto simp: put_chunk_def distinct_map_filter)

lemma map_of_built: "map_of (chunk_pairs (built_chunks opt)) key = last_requested opt key"
proof -
  let ?cs = "fold put_chunk (requested_chunks opt) []"
  have "distinct (map fst (chunk_pairs ?cs))" "distinct (map fst (chunk_pairs (built_chunks opt)))"
    using distinct_put_chunks [of "requested_chunks opt"]
    by (simp_all add: chunk_pairs_def comp_def built_chunks_def to_sorted_chunks_def distinct_map)
  then have "map_of (chunk_pairs (built_chunks opt)) = map_of (chunk_pairs ?cs)"
    by (subst map_of_inject_set) (simp_all add: chunk_pairs_def built_chunks_def to_sorted_chunks_def)
  then show ?thesis by (simp add: map_of_put_chunks last_requested_def)
qed

lemma find_described:
  "list_all2 (describes data) cs rs \<Longrightarrow>
   rel_option (describes data) (map_of (chunk_pairs cs) (k, l, t))
     (List.find (\<lambda>r. cr_kind r = k \<and> cr_lane r = l \<and> cr_target_id r = t) rs)"
proof (induction rs arbitrary: cs)
  case (Cons r rs)
  then obtain c cs' where cs: "cs = c # cs'" "describes data c r" "list_all2 (describes data) cs' rs"
    by (auto simp: list_all2_Cons2)
  then have "key_of c = (cr_kind r, cr_lane r, cr_target_id r)" by (simp add: key_of_def describes_def)
  then show ?case using Cons.IH [OF cs(3)] cs by (auto simp: chunk_pairs_def)
qed (auto simp: chunk_pairs_def)

lemma find_built:
  assumes "list_all2 (describes data) (built_chunks opt) (rd_chunks rd)" "length data < 2 ^ 63" "rd_ok rd"
    "dsk (rd_path rd) = Some f" "fi_bytes f = data"
  shows "case last_requested opt (k, l, t) of
      None \<Rightarrow> find_chunk rd k l t = None
    | Some c \<Rightarrow> \<exists>r. find_chunk rd k l t = Some r \<and> read_chunk_slice dsk rd r 0 (cr_size r) = Some (cp_bytes c)
        \<and> unat (cr_offset r) mod unat (cp_alignment c) = 0"
  using find_described [OF assms(1), of k l t] read_described [of data _ _ rd dsk f] assms(2-)
  by (fastforce simp: map_of_built find_chunk_def describes_def rel_option_iff split: option.splits)

text \<open>The requests of the two indexes come before the chunks of the caller.\<close>

lemma index_requests:
  assumes "\<forall>c \<in> set (bo_extra_chunks opt). key_of c \<notin> {(kExportCIndex, kGlobal, 0), (kNativeDeps, kGlobal, 0)}"
  shows "last_requested opt (kExportCIndex, kGlobal, 0) = Some (default_chunk kExportCIndex kGlobal (encode_export_c_index (bo_export_c_symbols opt)))"
    and "last_requested opt (kNativeDeps, kGlobal, 0) = Some (default_chunk kNativeDeps kGlobal (encode_native_deps (bo_native_deps opt)))"
proof -
  have skip: "map_of (rev (chunk_pairs (as @ c # bs))) k = Some c" if "key_of c = k" "\<forall>b \<in> set bs. key_of b \<noteq> k" for as c bs k
  proof -
    have "map_of (rev (chunk_pairs bs)) k = None" using that(2) by (auto simp: map_of_eq_None_iff chunk_pairs_def)
    then show ?thesis using that(1) by (simp add: chunk_pairs_def map_add_def)
  qed
  define tail where "tail = concat (map (\<lambda>l. map (\<lambda>k. default_chunk k l (default_lane_payload k l))
            [kSymbolIndex, kTypeMeta, kOirArchive, kObjectArchive]) (collect_enabled_lanes opt))
      @ (if bo_include_debug opt then [default_chunk kDebug kGlobal (bytes_of (text_line ''debug='' ''enabled''))] else [])
      @ bo_extra_chunks opt"
  define dep where "dep = default_chunk kNativeDeps kGlobal (encode_native_deps (bo_native_deps opt))"
  define ex where "ex = default_chunk kExportCIndex kGlobal (encode_export_c_index (bo_export_c_symbols opt))"
  have keys: "key_of ex = (kExportCIndex, kGlobal, 0)" "key_of dep = (kNativeDeps, kGlobal, 0)"
    by (simp_all add: ex_def dep_def key_of_def default_chunk_def)
  have tail: "\<forall>b \<in> set tail. key_of b \<notin> {(kExportCIndex, kGlobal, 0), (kNativeDeps, kGlobal, 0)}"
    using assms by (auto simp: tail_def key_of_def default_chunk_def split: if_splits)
  obtain a b where req: "requested_chunks opt = [a, b] @ ex # dep # tail" "requested_chunks opt = [a, b, ex] @ dep # tail"
    by (simp add: requested_chunks_def Let_def tail_def ex_def dep_def)
  show "last_requested opt (kExportCIndex, kGlobal, 0) = Some (default_chunk kExportCIndex kGlobal (encode_export_c_index (bo_export_c_symbols opt)))"
    unfolding last_requested_def req(1) ex_def [symmetric] by (rule skip) (use keys tail in auto)
  show "last_requested opt (kNativeDeps, kGlobal, 0) = Some (default_chunk kNativeDeps kGlobal (encode_native_deps (bo_native_deps opt)))"
    unfolding last_requested_def req(2) dep_def [symmetric] by (rule skip) (use keys tail in auto)
qed

section \<open>A build with enough room succeeds\<close>

lemma and_not_diff: "(x :: 'a::len word) AND NOT m = x - (x AND m)"
proof -
  have "x - (x AND m) = x AND NOT (x AND m)" by (rule disjunctive_diff) (simp add: bit_and_iff)
  also have "\<dots> = x AND NOT m" by (rule bit_word_eqI) (auto simp: bit_simps)
  finally show ?thesis by simp
qed

lemma align_up_padding:
  assumes "1 < a"
  shows "unat (align_up p a - p) < unat a"
proof -
  define m where "m = (ucast a :: u64) - 1"
  have a: "1 < unat a" "\<not> a \<le> 1" using assms by (simp_all add: word_less_nat_alt not_le)
  have "unat a < 2 ^ LENGTH(32)" by (rule unsigned_less)
  then have ucast: "unat (ucast a :: u64) = unat a"
    by (simp add: unsigned_ucast_eq take_bit_nat_eq_self_iff)
  then have m: "unat m = unat a - 1" using a by (simp add: m_def unat_minus_one unat_gt_0 flip: unat_eq_0)
  have "align_up p a - p = (p + m) - ((p + m) AND m) - p"
    using \<open>\<not> a \<le> 1\<close> by (simp add: align_up_def Let_def m_def and_not_diff)
  also have "\<dots> = m - ((p + m) AND m)" by simp
  also have "\<dots> = m AND NOT ((p + m) AND m)" by (rule disjunctive_diff) (simp add: bit_and_iff)
  finally have "align_up p a - p \<le> m" by (simp add: word_and_le2)
  then show ?thesis using m a by (simp add: word_le_nat_alt)
qed

definition chunk_room :: "chunk_payload \<Rightarrow> nat" where
  "chunk_room c = unat (cp_alignment c) + length (cp_bytes c)"

lemma align_has_room:
  assumes "os_good s" "length (os_data s) + unat a \<le> en_capacity env"
  shows "\<exists>s'. align_output_stream env a s = (s', True) \<and> os_good s' \<and> length (os_data s') \<le> length (os_data s) + unat a"
proof (cases "a \<le> 1")
  case True
  then show ?thesis using assms by (simp add: align_output_stream_def)
next
  case False
  let ?p = "word_of_nat (length (os_data s)) :: u64"
  have "unat (align_up ?p a - ?p) < unat a" using align_up_padding False by (simp add: not_le)
  then show ?thesis
    using assms False by (simp add: align_output_stream_def stream_tell_def Let_def stream_write_def)
qed

lemma append_has_room:
  assumes "good_writer env cs w" "wr_stream w = Some s" "is_power_of_two (cp_alignment c)" "cp_compression c = kNone"
    "length (os_data s) + chunk_room c \<le> en_capacity env"
  shows "\<exists>w' s'. append_chunk env c w = (w', True) \<and> wr_stream w' = Some s' \<and> length (os_data s') \<le> length (os_data s) + chunk_room c"
proof -
  have good: "os_good s" "wr_begun w" "\<not> wr_finalized w" using assms(1,2) by (auto simp: good_writer_def)
  obtain s1 where s1: "align_output_stream env (cp_alignment c) s = (s1, True)" "os_good s1"
    "length (os_data s1) \<le> length (os_data s) + unat (cp_alignment c)"
    using align_has_room [of s "cp_alignment c" env] assms(5) good(1) by (auto simp: chunk_room_def)
  have start: "append_start env c w = Inr (s1, fresh_record c (length (os_data s1)))"
    using assms(2-4) good s1 by (simp add: append_start_def stream_tell_def)
  show ?thesis
    using s1(2,3) assms(5) start
    by (simp add: append_chunk_def append_end_def stream_write_def Let_def chunk_room_def)
qed

lemma append_all_has_room:
  "good_writer env cs w \<Longrightarrow> en_capacity env < 2 ^ 63 \<Longrightarrow> wr_stream w = Some s \<Longrightarrow>
   \<forall>c \<in> set ds. is_power_of_two (cp_alignment c) \<and> cp_compression c = kNone \<Longrightarrow>
   length (os_data s) + sum_list (map chunk_room ds) \<le> en_capacity env \<Longrightarrow>
   \<exists>w' s'. append_all env ds w = (w', True) \<and> good_writer env (cs @ ds) w' \<and> wr_stream w' = Some s'
     \<and> length (os_data s') \<le> length (os_data s) + sum_list (map chunk_room ds)"
proof (induction ds arbitrary: cs w s)
  case (Cons d ds)
  obtain w1 s1 where w1: "append_chunk env d w = (w1, True)" "wr_stream w1 = Some s1"
    "length (os_data s1) \<le> length (os_data s) + chunk_room d"
    using append_has_room [OF Cons.prems(1,3)] Cons.prems(4,5) by fastforce
  then have "good_writer env (cs @ [d]) w1" using append_chunk_good [OF Cons.prems(1,2)] by blast
  then obtain w' s' where "append_all env ds w1 = (w', True)" "good_writer env ((cs @ [d]) @ ds) w'" "wr_stream w' = Some s'"
    "length (os_data s') \<le> length (os_data s1) + sum_list (map chunk_room ds)"
    using Cons.IH [of "cs @ [d]" w1 s1] Cons.prems(2,4,5) w1 by fastforce
  then show ?case using w1 by simp
qed simp

lemma finalize_has_room:
  assumes "good_writer env cs w" "wr_stream w = Some s"
    "length (os_data s) + 40 + 64 * length cs \<le> en_capacity env"
  shows "\<exists>w' res s'. writer_finalize env w = (w', res) \<and> br_ok res \<and> wr_stream w' = Some s' \<and> br_chunks res = wr_chunks w"
proof -
  have good: "os_good s" "wr_begun w" "\<not> wr_finalized w" "\<not> has_error_messages (wr_messages w)" "length (wr_chunks w) = length cs"
    using assms(1,2) by (auto simp: good_writer_def list_all2_lengthD)
  obtain s1 where s1: "align_output_stream env 8 s = (s1, True)" "os_good s1" "length (os_data s1) \<le> length (os_data s) + 8"
    using align_has_room [of s 8 env] assms(3) good(1) by auto
  have toc: "os_good t \<Longrightarrow> length (os_data t) + 64 * length rs \<le> en_capacity env \<Longrightarrow>
      os_good (fold (\<lambda>c s. stream_write env (serialize_toc_entry c) s) rs t)" for rs t
  proof (induction rs arbitrary: t)
    case (Cons r rs)
    have "os_good (stream_write env (serialize_toc_entry r) t)" using Cons.prems by (simp add: stream_write_good)
    then show ?case using Cons.IH Cons.prems stream_write_data by simp
  qed simp
  define s2 where "s2 = fold (\<lambda>c s. stream_write env (serialize_toc_entry c) s) (wr_chunks w) s1"
  have s2: "os_good s2" using toc [OF s1(2), of "wr_chunks w"] s1(3) assms(3) good(5) by (simp add: s2_def)
  then have "length (os_data s2) = length (os_data s1) + 64 * length cs"
    using write_toc_good [of env "wr_chunks w" s1] good(5) by (simp add: s2_def)
  then have "os_good (stream_write env (serialize_footer a b) s2)" for a b
    using s2 s1(3) assms(3) by (simp add: stream_write_good)
  then show ?thesis
    using good assms(2) s1(1,2) s2
    by (simp add: writer_finalize_def Let_def s2_def [symmetric] stream_patch_def stream_tell_def empty_result_def)
qed

lemma writer_begin_has_room:
  assumes "bo_output_path opt \<noteq> []" "en_open env (bo_output_path opt)" "256 \<le> en_capacity env"
    "en_parent env (bo_output_path opt) = [] \<or> en_mkdir env (en_parent env (bo_output_path opt))"
  shows "\<exists>w s. writer_begin env opt w0 = (w, True) \<and> wr_stream w = Some s \<and> length (os_data s) = 256"
  using assms by (auto simp: writer_begin_def Let_def stream_write_def push_message_def)

lemma sum_put_chunks: "sum_list (map f (fold put_chunk cs acc)) \<le> sum_list (map f acc) + sum_list (map (f :: _ \<Rightarrow> nat) cs)"
proof (induction cs arbitrary: acc)
  case (Cons c cs)
  have "sum_list (map f (filter P acc)) \<le> sum_list (map f acc)" for P
    by (induction acc) auto
  then have "sum_list (map f (put_chunk c acc)) \<le> sum_list (map f acc) + f c" by (simp add: put_chunk_def)
  then show ?case using Cons.IH [of "put_chunk c acc"] by simp
qed simp

lemma sum_built_chunks: "sum_list (map (f :: _ \<Rightarrow> nat) (built_chunks opt)) \<le> sum_list (map f (requested_chunks opt))"
proof -
  have "sum_list (map f (built_chunks opt)) = sum_list (map f (fold put_chunk (requested_chunks opt) []))"
    unfolding sum_mset_sum_list [symmetric] mset_map built_chunks_def to_sorted_chunks_def by simp
  then show ?thesis using sum_put_chunks [of f "requested_chunks opt" "[]"] by simp
qed

lemma set_put_chunks: "set (fold put_chunk cs acc) \<subseteq> set acc \<union> set cs"
  by (induction cs arbitrary: acc) (fastforce simp: put_chunk_def)+

lemma build_has_room:
  assumes "bo_output_path opt \<noteq> []" "en_open env (bo_output_path opt)" "collect_enabled_lanes opt \<noteq> []"
    "en_parent env (bo_output_path opt) = [] \<or> en_mkdir env (en_parent env (bo_output_path opt))"
    "\<forall>c \<in> set (bo_extra_chunks opt). is_power_of_two (cp_alignment c) \<and> cp_compression c = kNone"
    "296 + sum_list (map (\<lambda>c. chunk_room c + 64) (requested_chunks opt)) \<le> en_capacity env" "en_capacity env < 2 ^ 63"
  shows "\<exists>res bs. build_parlib env opt = (res, Some bs) \<and> br_ok res \<and> length (br_chunks res) \<le> length (requested_chunks opt)"
proof -
  have sums: "sum_list (map (\<lambda>c. chunk_room c + 64) cs) = sum_list (map chunk_room cs) + 64 * length cs" for cs
    by (induction cs) auto
  have room: "296 + (sum_list (map chunk_room (built_chunks opt)) + 64 * length (built_chunks opt)) \<le> en_capacity env"
    using sum_built_chunks [of "\<lambda>c. chunk_room c + 64" opt] assms(6) by (simp only: sums)
  have count: "length (built_chunks opt) \<le> length (requested_chunks opt)"
    using sum_built_chunks [of "\<lambda>_. 1" opt] by (simp add: sum_list_triv)
  have "is_power_of_two 8" by code_simp
  then have "\<forall>c \<in> set (requested_chunks opt). is_power_of_two (cp_alignment c) \<and> cp_compression c = kNone"
    using assms(5) by (auto simp: requested_chunks_def default_chunk_def Let_def split: if_splits)
  then have ok: "\<forall>c \<in> set (built_chunks opt). is_power_of_two (cp_alignment c) \<and> cp_compression c = kNone"
    using set_put_chunks [of "requested_chunks opt" "[]"] by (auto simp: built_chunks_def to_sorted_chunks_def)
  obtain w s where w: "writer_begin env opt (new_writer opt) = (w, True)" "wr_stream w = Some s" "length (os_data s) = 256"
    using writer_begin_has_room [of opt env "new_writer opt"] assms(1,2,4) room by auto
  have "length (os_data s) + sum_list (map chunk_room (built_chunks opt)) \<le> en_capacity env" using w(3) room by simp
  then obtain w1 s1 where w1: "append_all env (built_chunks opt) w = (w1, True)" "good_writer env (built_chunks opt) w1"
    "wr_stream w1 = Some s1" "length (os_data s1) \<le> 256 + sum_list (map chunk_room (built_chunks opt))"
    using append_all_has_room [OF writer_begin_good(1) [OF w(1)] assms(7) w(2) ok] w(3) by auto
  then obtain w2 res s2 where "writer_finalize env w1 = (w2, res)" "br_ok res" "wr_stream w2 = Some s2" "br_chunks res = wr_chunks w1"
    using finalize_has_room [OF w1(2,3)] room by fastforce
  moreover have "length (wr_chunks w1) = length (built_chunks opt)" using w1(2) by (auto simp: good_writer_def list_all2_lengthD)
  ultimately show ?thesis
    using w w1(1) count assms(1,3) by (simp add: build_parlib_def Let_def built_chunks_def)
qed

section \<open>What the range check lets through\<close>

lemma read_toc_ranges:
  "read_toc file_size toc e i n = Inr rs \<Longrightarrow> r \<in> set rs \<Longrightarrow> cr_offset r + cr_size r \<le> file_size"
  by (induction n arbitrary: i rs) (fastforce split: option.splits if_splits sum.splits)+

lemma open_reader_parts:
  assumes "open_reader dsk path = (Some rd, ms)"
  obtains f where "dsk path = Some f" "rd_path rd = path" "rd_ok rd"
    "\<forall>r \<in> set (rd_chunks rd). cr_offset r + cr_size r \<le> word_of_nat (length (fi_bytes f))"
proof -
  obtain f h rs where f: "dsk path = Some f" "open_file path f = Inr (h, rs)" "rd_chunks rd = rs" "rd_path rd = path" "rd_ok rd"
    using assms by (auto simp: open_reader_def Let_def split: if_splits option.splits sum.splits prod.splits)
  have "open_layout (fi_bytes f) h (word_of_nat (length (fi_bytes f))) = Inr rs"
    using f(2) by (auto simp: open_file_def Let_def split: if_splits option.splits sum.splits)
  then have "\<exists>toc e n. read_toc (word_of_nat (length (fi_bytes f))) toc e 0 n = Inr rs"
    by (auto simp: open_layout_def Let_def split: if_splits option.splits sum.splits)
  then show thesis using that f read_toc_ranges by metis
qed

lemma in_range_nat:
  assumes "(a :: u64) + b \<le> word_of_nat n" "n < 2 ^ 63" "unat a + unat b < 2 ^ 64"
  shows "unat a + unat b \<le> n"
proof -
  have "unat (a + b) = unat a + unat b" using assms(3) unat_add_lem [of a b] by simp
  then show ?thesis using assms(1,2) by (simp add: word_le_nat_alt unat_pos)
qed

text \<open>Reading a chunk whose range lies in the file.\<close>

lemma read_in_range:
  assumes "rd_ok rd" "dsk (rd_path rd) = Some f" "unat (cr_offset r) + unat (cr_size r) \<le> length (fi_bytes f)"
    "length (fi_bytes f) < 2 ^ 63"
  shows "read_chunk_slice dsk rd r off n =
    Some (slice_bytes (unat (cr_offset r) + unat off) (min (unat n) (unat (cr_size r) - unat off)) (fi_bytes f))"
proof (cases "n = 0 \<or> cr_size r \<le> off")
  case True
  then have "min (unat n) (unat (cr_size r) - unat off) = 0" by (auto simp: word_le_nat_alt)
  moreover have "read_chunk_slice dsk rd r off n = Some []"
    using True by (auto simp: read_chunk_slice_def Let_def min_def)
  ultimately show ?thesis by (simp add: slice_bytes_def)
next
  case False
  define m where "m = min n (cr_size r - off)"
  have off: "off \<le> cr_size r" "off < cr_size r" using False by auto
  have m: "unat m = min (unat n) (unat (cr_size r) - unat off)"
    using off(1) by (simp add: m_def min_def word_le_nat_alt unat_sub_if')
  have "0 < unat m" using m off(2) False by (simp add: word_less_nat_alt unat_gt_0)
  then have "m \<noteq> 0" by auto
  moreover have "unat (cr_offset r + off) = unat (cr_offset r) + unat off"
    using off assms(3,4) unat_add_lem [of "cr_offset r" off] by (simp add: word_le_nat_alt)
  moreover have "unat m \<le> k_max_vector" "unat (cr_offset r) + unat off \<le> k_max_vector"
    using m assms(3,4) off(1) by (auto simp: k_max_vector_def word_le_nat_alt)
  moreover have "read_chunk_slice dsk rd r off n =
      (if m = 0 then Some [] else if unat m > k_max_vector then None else Some (read_at (fi_bytes f) (cr_offset r + off) (unat m)))"
    using assms(1,2) False leD [OF off(1)] by (simp add: read_chunk_slice_def Let_def m_def [symmetric])
  ultimately show ?thesis by (auto simp: read_at_def seek_ok_def m)
qed

text \<open>Reading a chunk stream in blocks until it gives nothing, at most \<open>n\<close> times.\<close>

fun drain :: "nat \<Rightarrow> u64 \<Rightarrow> chunk_stream \<Rightarrow> byte list option" where
  "drain 0 block s = Some []"
| "drain (Suc n) block s =
     (case read_some s block of
        None \<Rightarrow> None
      | Some (s', bs, got) \<Rightarrow> if got then map_option ((@) bs) (drain n block s') else Some [])"

lemma drain_in_range:
  "st_file s = Some data \<Longrightarrow> st_ok s \<Longrightarrow> st_pos s + unat (st_remaining s) \<le> length data \<Longrightarrow> length data < 2 ^ 63 \<Longrightarrow> block \<noteq> 0 \<Longrightarrow>
   drain n block s = Some (slice_bytes (st_pos s) (min (n * unat block) (unat (st_remaining s))) data)"
proof (induction n arbitrary: s)
  case (Suc n)
  show ?case
  proof (cases "st_remaining s = 0")
    case True
    then show ?thesis using Suc.prems by (simp add: read_some_def slice_bytes_def)
  next
    case False
    define m where "m = unat (min (st_remaining s) block)"
    have m: "m = min (unat (st_remaining s)) (unat block)" by (simp add: m_def min_def word_le_nat_alt)
    have "0 < m" using m False Suc.prems(5) by (simp add: unat_gt_0)
    moreover have len: "length (slice_bytes (st_pos s) m data) = m" using Suc.prems(3) m by (simp add: slice_bytes_def)
    moreover have "m \<le> k_max_vector" using Suc.prems(3,4) m by (simp add: k_max_vector_def)
    moreover have "slice_bytes (st_pos s) m data \<noteq> []" using len \<open>0 < m\<close> by force
    ultimately have read: "read_some s block = Some (s\<lparr>st_pos := st_pos s + m, st_ok := True,
        st_remaining := st_remaining s - word_of_nat m\<rparr>, slice_bytes (st_pos s) m data, True)" (is "_ = Some (?s, _, _)")
      using Suc.prems False by (simp add: read_some_def Let_def m_def [symmetric])
    have left: "unat (st_remaining ?s) = unat (st_remaining s) - m"
      using m by (simp add: m_def unat_sub_if' min_def word_le_nat_alt)
    have "drain n block ?s = Some (slice_bytes (st_pos s + m) (min (n * unat block) (unat (st_remaining s) - m)) data)"
      using Suc.IH [of ?s] Suc.prems left m by simp
    moreover have "min (Suc n * unat block) (unat (st_remaining s)) = m + min (n * unat block) (unat (st_remaining s) - m)"
      using m by auto
    ultimately show ?thesis
      using read by (simp add: slice_bytes_def take_add add.commute)
  qed
qed (simp add: slice_bytes_def)

text \<open>A file whose only entry has a wrapping range.\<close>

definition wrapping_entry :: chunk_record where
  "wrapping_entry = \<lparr>cr_kind = kManifest, cr_lane = kGlobal, cr_target_id = 0, cr_alignment = 8, cr_compression = kNone,
     cr_offset = 1, cr_size = - 1, cr_checksum = 0, cr_content_hash = 0, cr_deduplicated = False\<rparr>"

definition wrapping_file :: "byte list" where
  "wrapping_file = laid_out (empty_header\<lparr>hd_header_size := 256, hd_file_size := 352, hd_toc_offset := 256,
     hd_toc_size := 64, hd_toc_entry_size := 64, hd_toc_entry_count := 1\<rparr>) [] [wrapping_entry]"


section \<open>Properties\<close>

text \<open>C24: A file that a build reports as written opens, with the header of the build (its three
  texts cut to their fields); for every key the reader finds the chunk that was requested last for
  it, at an offset that is a multiple of its alignment, and reads its bytes back, and it finds
  nothing for a key that was not requested. The disk holds less than 2 ^ 63 bytes, and there are
  fewer than 2 ^ 32 chunks.\<close>

theorem built_file_reads_back:
  assumes "build_parlib env opt = (res, Some bs)" "br_ok res"
    "en_capacity env < 2 ^ 63" "length (br_chunks res) < 2 ^ 32"
  shows "\<exists>rd ms. open_reader (one_file (bo_output_path opt) bs) (bo_output_path opt) = (Some rd, ms)
    \<and> rd_header rd = read_header_of (br_header res)
    \<and> (\<forall>k l t. case last_requested opt (k, l, t) of
         None \<Rightarrow> find_chunk rd k l t = None
       | Some c \<Rightarrow> \<exists>r. find_chunk rd k l t = Some r
           \<and> read_chunk_slice (one_file (bo_output_path opt) bs) rd r 0 (cr_size r) = Some (cp_bytes c)
           \<and> unat (cr_offset r) mod unat (cp_alignment c) = 0)"
proof -
  let ?dsk = "one_file (bo_output_path opt) bs"
  obtain rd ms where rd: "open_reader ?dsk (bo_output_path opt) = (Some rd, ms)"
    "rd_header rd = read_header_of (br_header res)" "rd_chunks rd = br_chunks res" "rd_ok rd"
    "rd_path rd = bo_output_path opt" "list_all2 (describes bs) (built_chunks opt) (br_chunks res)" "length bs < 2 ^ 63"
    by (rule open_built [OF assms])
  have "?dsk (rd_path rd) = Some \<lparr>fi_bytes = bs, fi_seekable = True\<rparr>" by (simp add: rd(5) one_file_def)
  then have "case last_requested opt (k, l, t) of
      None \<Rightarrow> find_chunk rd k l t = None
    | Some c \<Rightarrow> \<exists>r. find_chunk rd k l t = Some r \<and> read_chunk_slice ?dsk rd r 0 (cr_size r) = Some (cp_bytes c)
        \<and> unat (cr_offset r) mod unat (cp_alignment c) = 0" for k l t
    using find_built [where data = bs and opt = opt and rd = rd and dsk = ?dsk] rd(3,4,6,7) by simp
  then show ?thesis using rd(1,2) by blast
qed


text \<open>Appending a chunk from an input stream, in blocks of 64 KiB, succeeds exactly when
  appending its bytes at once does, and then leaves the same writer: the same bytes, offset, size
  and hashes. An input that breaks is never recorded.\<close>

theorem stream_append_equals_append:
  "append_chunk_stream env meta input breaks w = (w', True) \<longleftrightarrow>
     \<not> breaks \<and> append_chunk env (meta\<lparr>cp_bytes := input\<rparr>) w = (w', True)"
proof -
  have fresh: "fresh_record (meta\<lparr>cp_bytes := input\<rparr>) = fresh_record meta" by (rule ext) (simp add: fresh_record_def)
  have same: "cp_alignment (meta\<lparr>cp_bytes := input\<rparr>) = cp_alignment meta"
    "cp_compression (meta\<lparr>cp_bytes := input\<rparr>) = cp_compression meta" by simp_all
  have start: "append_start env (meta\<lparr>cp_bytes := input\<rparr>) w = append_start env meta w"
    unfolding append_start_def fresh same ..
  show ?thesis
  proof (cases "append_start env meta w")
    case (Inl w1)
    then show ?thesis by (simp add: append_chunk_stream_def append_chunk_def start)
  next
    case (Inr sr)
    obtain s r where sr: "sr = (s, r)" by (cases sr)
    have good: "os_good s" using append_start_Inr(5) [OF Inr [unfolded sr]] .
    show ?thesis
      using write_blocks_eq [OF good, of env input r] good
      unfolding append_chunk_stream_def append_chunk_def start Inr sr
      by (cases "input = []") (auto simp: Let_def split: sum.splits)
  qed
qed

text \<open>C26: A build is written: when the path has a name and a directory, the file opens, a lane is
  enabled, the extra chunks have power-of-two alignments and no compression, and the disk has room
  for 296 bytes and for every requested chunk its bytes, its alignment and 64 more, the build
  leaves a file and reports success.\<close>

theorem build_succeeds_with_room:
  assumes "bo_output_path opt \<noteq> []" "en_open env (bo_output_path opt)" "collect_enabled_lanes opt \<noteq> []"
    "en_parent env (bo_output_path opt) = [] \<or> en_mkdir env (en_parent env (bo_output_path opt))"
    "\<forall>c \<in> set (bo_extra_chunks opt). is_power_of_two (cp_alignment c) \<and> cp_compression c = kNone"
    "296 + sum_list (map (\<lambda>c. chunk_room c + 64) (requested_chunks opt)) \<le> en_capacity env" "en_capacity env < 2 ^ 63"
  shows "\<exists>res bs. build_parlib env opt = (res, Some bs) \<and> br_ok res \<and> length (br_chunks res) \<le> length (requested_chunks opt)"
  using assms by (rule build_has_room)

text \<open>C27: What the range check of the reader gives: a record of an opened file whose offset and size
  do not add up to 2 ^ 64 lies in the file, every slice of it has the bytes it should, and reading
  its stream in blocks, often enough, gives the whole chunk.\<close>

theorem opened_chunks_read_whole:
  assumes "open_reader dsk path = (Some rd, ms)" "dsk path = Some f" "length (fi_bytes f) < 2 ^ 63"
    "r \<in> set (rd_chunks rd)" "unat (cr_offset r) + unat (cr_size r) < 2 ^ 64" "block \<noteq> 0" "unat (cr_size r) \<le> n * unat block"
  shows "unat (cr_offset r) + unat (cr_size r) \<le> length (fi_bytes f)
    \<and> read_chunk_slice dsk rd r off len =
        Some (slice_bytes (unat (cr_offset r) + unat off) (min (unat len) (unat (cr_size r) - unat off)) (fi_bytes f))
    \<and> drain n block (open_chunk_stream dsk rd r) = read_chunk_slice dsk rd r 0 (cr_size r)"
proof -
  obtain g where "dsk path = Some g" and rd: "rd_path rd = path" "rd_ok rd"
    "\<forall>r \<in> set (rd_chunks rd). cr_offset r + cr_size r \<le> word_of_nat (length (fi_bytes g))"
    by (rule open_reader_parts [OF assms(1)])
  then have "cr_offset r + cr_size r \<le> word_of_nat (length (fi_bytes f))" using assms(2,4) by simp
  then have range: "unat (cr_offset r) + unat (cr_size r) \<le> length (fi_bytes f)" using assms(3,5) by (rule in_range_nat)
  have here: "dsk (rd_path rd) = Some f" using rd(1) assms(2) by simp
  have stream: "open_chunk_stream dsk rd r =
      \<lparr>st_file = Some (fi_bytes f), st_pos = unat (cr_offset r), st_remaining = cr_size r, st_ok = True\<rparr>"
    using here rd(2) range assms(3) by (simp add: open_chunk_stream_def seek_ok_def k_max_vector_def)
  have "drain n block (open_chunk_stream dsk rd r) = Some (slice_bytes (unat (cr_offset r)) (unat (cr_size r)) (fi_bytes f))"
    using drain_in_range [of "open_chunk_stream dsk rd r" "fi_bytes f" block n] range assms(3,6,7)
    by (simp add: stream)
  then show ?thesis using range read_in_range [where dsk = dsk and rd = rd, OF rd(2) here range assms(3)] by simp
qed

text \<open>C28: The range check adds offset and size in 64 bits. A file of 352 bytes with one entry whose
  sum wraps opens without an error; inspecting it asks for a vector of 2 ^ 64 - 1 bytes, which throws.\<close>

theorem wrapping_range_accepted:
  "\<exists>rd ms. open_reader (one_file ''x'' wrapping_file) ''x'' = (Some rd, ms) \<and> \<not> has_error_messages ms
     \<and> rd_chunks rd = [wrapping_entry] \<and> length wrapping_file < unat (cr_size wrapping_entry)
     \<and> inspect_parlib (one_file ''x'' wrapping_file) ''x'' = None"
proof -
  let ?h = "empty_header\<lparr>hd_header_size := 256, hd_file_size := 352, hd_toc_offset := 256,
     hd_toc_size := 64, hd_toc_entry_size := 64, hd_toc_entry_count := 1\<rparr>"
  have len: "length wrapping_file = 352" by (simp add: wrapping_file_def length_laid_out)
  have "open_file ''x'' \<lparr>fi_bytes = wrapping_file, fi_seekable = True\<rparr> = Inr (stored_header ?h, [wrapping_entry])"
    unfolding wrapping_file_def
    by (rule open_laid_out [of _ _ _ 352])
      (simp_all add: header_fits_def empty_header_def length_laid_out wrapping_entry_def)
  then obtain rd ms where rd: "open_reader (one_file ''x'' wrapping_file) ''x'' = (Some rd, ms)" "rd_ok rd" "rd_path rd = ''x''"
    "rd_chunks rd = [wrapping_entry]" "\<not> has_error_messages ms"
    by (simp add: open_reader_def one_file_def Let_def has_error_messages_def info_msg_def)
  have size: "unat (cr_size wrapping_entry) = 2 ^ 64 - 1"
    by (simp add: wrapping_entry_def unsigned_minus_1_eq_mask mask_eq_exp_minus_1)
  then have "inspect_chunk (one_file ''x'' wrapping_file) rd 0 wrapping_entry = None"
    using rd(2,3) by (simp add: inspect_chunk_def read_chunk_slice_def Let_def one_file_def k_max_vector_def) (simp add: wrapping_entry_def)
  then have "inspect_parlib (one_file ''x'' wrapping_file) ''x'' = None"
    using rd(1,4) by (simp add: inspect_parlib_def bind_eq_None_conv split: option.splits)
  then show ?thesis using rd len size by simp
qed

section \<open>Examples\<close>

definition demo_env :: environment where
  "demo_env = \<lparr>en_parent = (\<lambda>_. []), en_mkdir = (\<lambda>_. True), en_open = (\<lambda>_. True), en_capacity = 4096\<rparr>"

definition demo_options :: build_options where
  "demo_options = \<lparr>bo_output_path = ''a.parlib'', bo_bundle_id = ''demo'', bo_target_triple = [], bo_target_summary = [],
     bo_feature_bits = 0, bo_flags = 0, bo_compiler_hash = 7, bo_include_pcore = True, bo_include_prt = False,
     bo_include_pstd = False, bo_include_debug = False,
     bo_export_c_symbols = [\<lparr>ex_symbol = ''f'', ex_signature = ''i32()'', ex_lane = kPcore, ex_chunk_kind = kObjectArchive,
       ex_target_id = 0, ex_visible = True\<rparr>],
     bo_native_deps = [], bo_extra_chunks = [\<lparr>cp_kind = kSourceMap, cp_lane = kGlobal, cp_target_id = 1, cp_alignment = 16,
       cp_compression = kNone, cp_bytes = [1, 2, 3]\<rparr>]\<rparr>"

lemma demo_room: "296 + sum_list (map (\<lambda>c. chunk_room c + 64) (requested_chunks demo_options)) \<le> en_capacity demo_env"
  by code_simp

lemma demo_count: "length (requested_chunks demo_options) = 9"
  by code_simp

lemma demo_extra:
  "\<forall>c \<in> set (bo_extra_chunks demo_options). is_power_of_two (cp_alignment c) \<and> cp_compression c = kNone"
  by code_simp

lemma demo_fields [simp]:
  "bo_output_path demo_options = ''a.parlib''" "en_open demo_env p" "en_parent demo_env p = []" "en_capacity demo_env = 4096"
  "collect_enabled_lanes demo_options = [kPcore]"
  by (simp_all add: demo_options_def demo_env_def collect_enabled_lanes_def)

lemma demo_builds:
  obtains res bs where "build_parlib demo_env demo_options = (res, Some bs)" "br_ok res" "length (br_chunks res) < 2 ^ 32"
  using build_has_room [OF _ _ _ _ demo_extra demo_room] demo_count by auto

lemma demo_request:
  "last_requested demo_options (kSourceMap, kGlobal, 1) = Some \<lparr>cp_kind = kSourceMap, cp_lane = kGlobal, cp_target_id = 1,
     cp_alignment = 16, cp_compression = kNone, cp_bytes = [1, 2, 3]\<rparr>"
  by (simp add: last_requested_def requested_chunks_def Let_def chunk_pairs_def key_of_def)
    (simp add: demo_options_def)

theorem built_file_reads_back_witness:
  "\<exists>res bs rd ms. build_parlib demo_env demo_options = (res, Some bs)
     \<and> open_reader (one_file ''a.parlib'' bs) ''a.parlib'' = (Some rd, ms)
     \<and> (\<exists>r. find_chunk rd kSourceMap kGlobal 1 = Some r
          \<and> read_chunk_slice (one_file ''a.parlib'' bs) rd r 0 (cr_size r) = Some [1, 2, 3] \<and> unat (cr_offset r) mod 16 = 0)"
proof -
  obtain res bs where b: "build_parlib demo_env demo_options = (res, Some bs)" "br_ok res" "length (br_chunks res) < 2 ^ 32"
    by (rule demo_builds)
  have "en_capacity demo_env < 2 ^ 63" by simp
  from built_file_reads_back [OF b(1,2) this b(3)] obtain rd ms where
    rd: "open_reader (one_file ''a.parlib'' bs) ''a.parlib'' = (Some rd, ms)"
    and all: "\<And>k l t. case last_requested demo_options (k, l, t) of
         None \<Rightarrow> find_chunk rd k l t = None
       | Some c \<Rightarrow> \<exists>r. find_chunk rd k l t = Some r
           \<and> read_chunk_slice (one_file ''a.parlib'' bs) rd r 0 (cr_size r) = Some (cp_bytes c)
           \<and> unat (cr_offset r) mod unat (cp_alignment c) = 0"
    unfolding demo_fields by blast
  then show ?thesis using b(1) all [of kSourceMap kGlobal 1] by (auto simp: demo_request)
qed


theorem build_succeeds_with_room_witness:
  "\<exists>res bs. build_parlib demo_env demo_options = (res, Some bs) \<and> br_ok res \<and> length (br_chunks res) \<le> 9"
  using build_succeeds_with_room [OF _ _ _ _ demo_extra demo_room] demo_count by auto

text \<open>The block stream of the wrapping file's twin whose entry is the whole table of contents.\<close>

definition plain_entry :: chunk_record where
  "plain_entry = wrapping_entry\<lparr>cr_offset := 256, cr_size := 64\<rparr>"

definition plain_file :: "byte list" where
  "plain_file = laid_out (empty_header\<lparr>hd_header_size := 256, hd_file_size := 352, hd_toc_offset := 256,
     hd_toc_size := 64, hd_toc_entry_size := 64, hd_toc_entry_count := 1\<rparr>) [] [plain_entry]"

theorem opened_chunks_read_whole_witness:
  "\<exists>rd ms. open_reader (one_file ''x'' plain_file) ''x'' = (Some rd, ms) \<and> rd_chunks rd = [plain_entry]
     \<and> drain 7 10 (open_chunk_stream (one_file ''x'' plain_file) rd plain_entry)
         = read_chunk_slice (one_file ''x'' plain_file) rd plain_entry 0 64"
proof -
  have len: "length plain_file = 352" by (simp add: plain_file_def length_laid_out)
  have "open_file ''x'' \<lparr>fi_bytes = plain_file, fi_seekable = True\<rparr> = Inr (stored_header (empty_header\<lparr>hd_header_size := 256,
     hd_file_size := 352, hd_toc_offset := 256, hd_toc_size := 64, hd_toc_entry_size := 64, hd_toc_entry_count := 1\<rparr>), [plain_entry])"
    unfolding plain_file_def
    by (rule open_laid_out [of _ _ _ 352])
      (simp_all add: header_fits_def empty_header_def length_laid_out plain_entry_def wrapping_entry_def)
  then obtain rd ms where rd: "open_reader (one_file ''x'' plain_file) ''x'' = (Some rd, ms)" "rd_chunks rd = [plain_entry]"
    by (simp add: open_reader_def one_file_def Let_def)
  have e: "cr_offset plain_entry = 256" "cr_size plain_entry = 64" by (simp_all add: plain_entry_def)
  show ?thesis
    using opened_chunks_read_whole [OF rd(1), of "\<lparr>fi_bytes = plain_file, fi_seekable = True\<rparr>" plain_entry 10 7] rd len e
    by (simp add: one_file_def)
qed

end
