(* ===== verification/SIR.thy ===== *)
theory SIR
  imports Type_Pool
begin

text \<open>
  The data model of the structured intermediate representation
  (\<open>frontend/include/parus/sir/SIR.hpp\<close>), field for field: a value, a statement, a declaration is a
  record, a module owns the vectors and every reference is an index. Ids and counts are natural
  numbers below \<open>2\<^sup>3\<^sup>2\<close>, and \<open>kInvalidId\<close> stands for "none". The bits of \<open>manual_perm_mask\<close> and the
  operator codes are numbers, as in the source.
\<close>

section \<open>Values\<close>

datatype value_kind =
    SvError
  | SvIntLit | SvFloatLit | SvStringLit | SvCharLit | SvBoolLit | SvNullLit
  | SvLocal | SvGlobal | SvParam
  | SvArrayLit | SvFieldInit
  | SvBorrow | SvEscape | SvUnary | SvBinary | SvAssign | SvPostfixInc | SvCall | SvPipeCall | SvEnumCtor
  | SvIndex | SvField
  | SvIfExpr | SvBlockExpr | SvLoopExpr
  | SvCast

datatype place_class = PlNotPlace | PlLocal | PlIndex | PlField | PlDeref

datatype effect_class = EcPure | EcMayWrite | EcUnknown

datatype core_call_kind =
    CkNone | CkMemSizeOf | CkMemAlignOf | CkHintSpinLoop | CkStepNext | CkMemSwap | CkMemReplace | CkMemTake
  | CkArraySwapAt | CkArrayOwnerReplaceAt | CkArrayOwnerTakeAt | CkArrayOwnerPutAt

datatype handle_kind = HkTrivial | HkStackSlot | HkCallerSlot | HkHeapBox

datatype boundary_kind = BkNone | BkReturn | BkCallArg | BkAbi

datatype handle_form = FormRValue | FormCell | FormAbiPack

datatype cell_kind = CellNone | CellLocal | CellField | CellStatic | CellOptional

datatype pack_boundary = PackNone | PackCallArg | PackReturn

datatype loop_source_kind =
    LoopNone | LoopSizedArray | LoopSliceView | LoopRangeExclusive | LoopRangeInclusive | LoopSequence
  | LoopIteratorFutureUnsupported

text \<open>Positions of \<open>kDotDot\<close> and \<open>kDotDotColon\<close> in \<open>TokenKind\<close>.\<close>

abbreviation k_dot_dot :: nat where "k_dot_dot \<equiv> 117"
abbreviation k_dot_dot_colon :: nat where "k_dot_dot_colon \<equiv> 118"

record bitfield_access =
  bf_is_valid :: bool
  bf_storage_offset_bytes :: nat
  bf_bit_offset :: nat
  bf_bit_width :: nat
  bf_bit_signed :: bool

record svalue =
  sv_kind :: value_kind
  sv_span :: source_span
  sv_type :: nat
  sv_op :: nat
  sv_a :: nat
  sv_b :: nat
  sv_c :: nat
  sv_text :: string
  sv_sym :: nat
  sv_loop_source_kind :: loop_source_kind
  sv_loop_binder_type :: nat
  sv_loop_iterator_type :: nat
  sv_loop_iter_decl_stmt :: nat
  sv_loop_iter_external_sym :: nat
  sv_loop_iter_fn_type :: nat
  sv_loop_next_decl_stmt :: nat
  sv_loop_next_external_sym :: nat
  sv_loop_next_fn_type :: nat
  sv_callee_sym :: nat
  sv_callee_fn_type :: nat
  sv_callee_decl_stmt :: nat
  sv_call_is_throwing :: bool
  sv_call_is_c_abi :: bool
  sv_call_is_c_variadic :: bool
  sv_call_c_callconv :: fn_call_conv
  sv_call_c_fixed_param_count :: nat
  sv_core_call_kind :: core_call_kind
  sv_core_call_type_arg :: nat
  sv_call_is_ctor :: bool
  sv_ctor_owner_type :: nat
  sv_call_is_enum_ctor :: bool
  sv_enum_ctor_variant_index :: nat
  sv_enum_ctor_tag_value :: int
  sv_origin_sym :: nat
  sv_place :: place_class
  sv_effect :: effect_class
  sv_arg_begin :: nat
  sv_arg_count :: nat
  sv_place_elem_type :: nat
  sv_cast_to :: nat
  sv_borrow_is_mut :: bool
  sv_external_c_bitfield :: bitfield_access

abbreviation no_span :: source_span where
  "no_span \<equiv> \<lparr>sp_file_id = 0, sp_lo = 0, sp_hi = 0\<rparr>"

text \<open>The default-constructed \<open>Value{}\<close>, here with its kind.\<close>

definition new_value :: "value_kind \<Rightarrow> svalue" where
  "new_value k = \<lparr>sv_kind = k, sv_span = no_span, sv_type = kInvalidId, sv_op = 0, sv_a = kInvalidId,
     sv_b = kInvalidId, sv_c = kInvalidId, sv_text = [], sv_sym = kInvalidId, sv_loop_source_kind = LoopNone,
     sv_loop_binder_type = kInvalidId, sv_loop_iterator_type = kInvalidId, sv_loop_iter_decl_stmt = kInvalidId,
     sv_loop_iter_external_sym = kInvalidId, sv_loop_iter_fn_type = kInvalidId, sv_loop_next_decl_stmt = kInvalidId,
     sv_loop_next_external_sym = kInvalidId, sv_loop_next_fn_type = kInvalidId, sv_callee_sym = kInvalidId,
     sv_callee_fn_type = kInvalidId, sv_callee_decl_stmt = kInvalidId, sv_call_is_throwing = False,
     sv_call_is_c_abi = False, sv_call_is_c_variadic = False, sv_call_c_callconv = ConvDefault,
     sv_call_c_fixed_param_count = 0, sv_core_call_kind = CkNone, sv_core_call_type_arg = kInvalidId,
     sv_call_is_ctor = False, sv_ctor_owner_type = kInvalidId, sv_call_is_enum_ctor = False,
     sv_enum_ctor_variant_index = kInvalidId, sv_enum_ctor_tag_value = 0, sv_origin_sym = kInvalidId,
     sv_place = PlNotPlace, sv_effect = EcPure, sv_arg_begin = 0, sv_arg_count = 0,
     sv_place_elem_type = kInvalidId, sv_cast_to = kInvalidId, sv_borrow_is_mut = False,
     sv_external_c_bitfield = \<lparr>bf_is_valid = False, bf_storage_offset_bytes = 0, bf_bit_offset = 0,
       bf_bit_width = 0, bf_bit_signed = False\<rparr>\<rparr>"

datatype arg_kind = ArgPositional | ArgLabeled

record sarg =
  sa_kind :: arg_kind
  sa_has_label :: bool
  sa_is_hole :: bool
  sa_label :: string
  sa_value :: nat
  sa_span :: source_span

definition new_arg :: "nat \<Rightarrow> sarg" where
  "new_arg v = \<lparr>sa_kind = ArgPositional, sa_has_label = False, sa_is_hole = False, sa_label = [], sa_value = v,
     sa_span = no_span\<rparr>"

record sattr =
  at_name :: string
  at_span :: source_span

record sparam =
  pm_name :: string
  pm_type :: nat
  pm_is_mut :: bool
  pm_is_self :: bool
  pm_has_default :: bool
  pm_default_value :: nat
  pm_is_named_group :: bool
  pm_sym :: nat
  pm_span :: source_span

section \<open>Statements\<close>

datatype stmt_kind =
    SsError | SsExprStmt | SsVarDecl | SsThrowStmt | SsTryCatchStmt | SsIfStmt | SsWhileStmt | SsDoScopeStmt
  | SsDoWhileStmt | SsManualStmt | SsCommitStmt | SsRecastStmt | SsReturn | SsBreak | SsContinue | SsSwitch

datatype case_pat_kind = PatError | PatInt | PatChar | PatString | PatBool | PatNull | PatIdent | PatEnumVariant

record enum_bind =
  eb_field_name :: string
  eb_bind_name :: string
  eb_storage_name :: string
  eb_bind_type :: nat
  eb_bind_sym :: nat
  eb_span :: source_span

record switch_case =
  sc_is_default :: bool
  sc_pat_kind :: case_pat_kind
  sc_pat_text :: string
  sc_enum_type :: nat
  sc_enum_variant_name :: string
  sc_enum_tag_value :: int
  sc_enum_bind_begin :: nat
  sc_enum_bind_count :: nat
  sc_body :: nat
  sc_span :: source_span

record catch_clause =
  cc_bind_name :: string
  cc_has_typed_bind :: bool
  cc_bind_type :: nat
  cc_bind_sym :: nat
  cc_body :: nat
  cc_span :: source_span

record sstmt =
  ss_kind :: stmt_kind
  ss_span :: source_span
  ss_expr :: nat
  ss_a :: nat
  ss_b :: nat
  ss_is_set :: bool
  ss_is_mut :: bool
  ss_is_static :: bool
  ss_is_const :: bool
  ss_has_consume_else :: bool
  ss_manual_perm_mask :: nat
  ss_name :: string
  ss_sym :: nat
  ss_declared_type :: nat
  ss_init :: nat
  ss_stmt_begin :: nat
  ss_stmt_count :: nat
  ss_case_begin :: nat
  ss_case_count :: nat
  ss_has_default :: bool
  ss_catch_clause_begin :: nat
  ss_catch_clause_count :: nat

definition new_stmt :: "stmt_kind \<Rightarrow> sstmt" where
  "new_stmt k = \<lparr>ss_kind = k, ss_span = no_span, ss_expr = kInvalidId, ss_a = kInvalidId, ss_b = kInvalidId,
     ss_is_set = False, ss_is_mut = False, ss_is_static = False, ss_is_const = False, ss_has_consume_else = False,
     ss_manual_perm_mask = 0, ss_name = [], ss_sym = kInvalidId, ss_declared_type = kInvalidId,
     ss_init = kInvalidId, ss_stmt_begin = 0, ss_stmt_count = 0, ss_case_begin = 0, ss_case_count = 0,
     ss_has_default = False, ss_catch_clause_begin = 0, ss_catch_clause_count = 0\<rparr>"

record sblock =
  bl_span :: source_span
  bl_stmt_begin :: nat
  bl_stmt_count :: nat

section \<open>Declarations\<close>

datatype fn_mode = ModeNone | ModePub | ModeSub

datatype func_abi = FuncParus | FuncC

datatype sir_call_conv = SConvDefault | SConvCdecl | SConvStdCall | SConvFastCall | SConvVectorCall | SConvWin64 | SConvSysV

datatype decl_layout = DeclLayoutNone | DeclLayoutC

record sfunc =
  fu_span :: source_span
  fu_name :: string
  fu_external_link_name :: string
  fu_external_payload :: string
  fu_sym :: nat
  fu_sig :: nat
  fu_ret :: nat
  fu_is_export :: bool
  fu_is_extern :: bool
  fu_fn_mode :: fn_mode
  fu_abi :: func_abi
  fu_c_callconv :: sir_call_conv
  fu_is_c_variadic :: bool
  fu_c_fixed_param_count :: nat
  fu_is_pure :: bool
  fu_is_comptime :: bool
  fu_is_const :: bool
  fu_is_commit :: bool
  fu_is_recast :: bool
  fu_is_throwing :: bool
  fu_attr_begin :: nat
  fu_attr_count :: nat
  fu_param_begin :: nat
  fu_param_count :: nat
  fu_positional_param_count :: nat
  fu_has_named_group :: bool
  fu_entry :: nat
  fu_origin_stmt :: nat
  fu_has_any_write :: bool
  fu_is_acts_member :: bool
  fu_owner_acts :: nat
  fu_is_actor_member :: bool
  fu_is_actor_init :: bool
  fu_actor_owner_type :: nat

definition new_sfunc :: sfunc where
  "new_sfunc = \<lparr>fu_span = no_span, fu_name = [], fu_external_link_name = [], fu_external_payload = [],
     fu_sym = kInvalidId, fu_sig = kInvalidId, fu_ret = kInvalidId, fu_is_export = False, fu_is_extern = False,
     fu_fn_mode = ModeNone, fu_abi = FuncParus, fu_c_callconv = SConvDefault, fu_is_c_variadic = False,
     fu_c_fixed_param_count = 0, fu_is_pure = False, fu_is_comptime = False, fu_is_const = False,
     fu_is_commit = False, fu_is_recast = False, fu_is_throwing = False, fu_attr_begin = 0, fu_attr_count = 0,
     fu_param_begin = 0, fu_param_count = 0, fu_positional_param_count = 0, fu_has_named_group = False,
     fu_entry = kInvalidId, fu_origin_stmt = kInvalidId, fu_has_any_write = False, fu_is_acts_member = False,
     fu_owner_acts = kInvalidId, fu_is_actor_member = False, fu_is_actor_init = False, fu_actor_owner_type = kInvalidId\<rparr>"

record field_member =
  fm_name :: string
  fm_type :: nat
  fm_span :: source_span

record field_decl =
  fd_span :: source_span
  fd_name :: string
  fd_sym :: nat
  fd_is_export :: bool
  fd_layout :: decl_layout
  fd_align :: nat
  fd_self_type :: nat
  fd_member_begin :: nat
  fd_member_count :: nat

record acts_decl =
  ac_span :: source_span
  ac_name :: string
  ac_sym :: nat
  ac_is_export :: bool
  ac_is_for :: bool
  ac_has_set_name :: bool
  ac_target_type :: nat
  ac_func_begin :: nat
  ac_func_count :: nat

datatype init_kind = InitNone | InitInt | InitFloat | InitBool | InitChar

record init_data =
  in_kind :: init_kind
  in_text :: string

datatype tls_kind = TlsNone | TlsDynamic | TlsStatic

record global_var =
  gv_span :: source_span
  gv_name :: string
  gv_sym :: nat
  gv_is_set :: bool
  gv_is_mut :: bool
  gv_is_static :: bool
  gv_is_const :: bool
  gv_is_export :: bool
  gv_is_extern :: bool
  gv_abi :: func_abi
  gv_c_tls_kind :: tls_kind
  gv_declared_type :: nat
  gv_init :: nat
  gv_const_init :: init_data

record escape_meta =
  em_escape_value :: nat
  em_span :: source_span
  em_origin_sym :: nat
  em_pointee_type :: nat
  em_kind :: handle_kind
  em_boundary :: boundary_kind
  em_from_static :: bool
  em_has_drop :: bool
  em_abi_pack_required :: bool
  em_value_form :: handle_form
  em_cell_kind :: cell_kind
  em_pack_boundary :: pack_boundary
  em_cell_commit_count :: nat
  em_abi_pack_count :: nat

section \<open>Modules\<close>

record smodule =
  sm_bundle_enabled :: bool
  sm_bundle_name :: string
  sm_current_source_norm :: string
  sm_bundle_sources_norm :: "string list"
  sm_values :: "svalue list"
  sm_args :: "sarg list"
  sm_attrs :: "sattr list"
  sm_params :: "sparam list"
  sm_stmts :: "sstmt list"
  sm_blocks :: "sblock list"
  sm_funcs :: "sfunc list"
  sm_field_members :: "field_member list"
  sm_fields :: "field_decl list"
  sm_acts :: "acts_decl list"
  sm_globals :: "global_var list"
  sm_switch_cases :: "switch_case list"
  sm_switch_enum_binds :: "enum_bind list"
  sm_try_catch_clauses :: "catch_clause list"
  sm_escape_handles :: "escape_meta list"
  sm_actor_types :: "nat list"

definition new_smodule :: smodule where
  "new_smodule = \<lparr>sm_bundle_enabled = False, sm_bundle_name = [], sm_current_source_norm = [],
     sm_bundle_sources_norm = [], sm_values = [], sm_args = [], sm_attrs = [], sm_params = [], sm_stmts = [],
     sm_blocks = [], sm_funcs = [], sm_field_members = [], sm_fields = [], sm_acts = [], sm_globals = [],
     sm_switch_cases = [], sm_switch_enum_binds = [], sm_try_catch_clauses = [], sm_escape_handles = [],
     sm_actor_types = []\<rparr>"

text \<open>The \<open>add_*\<close> helpers give the new module and the index, a vector size cast to 32 bits.\<close>

definition last_index :: "'a list \<Rightarrow> nat" where
  "last_index xs = u32 (length xs + kInvalidId)"

definition add_svalue :: "svalue \<Rightarrow> smodule \<Rightarrow> smodule \<times> nat" where
  "add_svalue x m = (let xs = sm_values m @ [x] in (m\<lparr>sm_values := xs\<rparr>, last_index xs))"

definition add_sarg :: "sarg \<Rightarrow> smodule \<Rightarrow> smodule \<times> nat" where
  "add_sarg x m = (let xs = sm_args m @ [x] in (m\<lparr>sm_args := xs\<rparr>, last_index xs))"

definition add_sattr :: "sattr \<Rightarrow> smodule \<Rightarrow> smodule \<times> nat" where
  "add_sattr x m = (let xs = sm_attrs m @ [x] in (m\<lparr>sm_attrs := xs\<rparr>, last_index xs))"

definition add_sparam :: "sparam \<Rightarrow> smodule \<Rightarrow> smodule \<times> nat" where
  "add_sparam x m = (let xs = sm_params m @ [x] in (m\<lparr>sm_params := xs\<rparr>, last_index xs))"

definition add_sstmt :: "sstmt \<Rightarrow> smodule \<Rightarrow> smodule \<times> nat" where
  "add_sstmt x m = (let xs = sm_stmts m @ [x] in (m\<lparr>sm_stmts := xs\<rparr>, last_index xs))"

definition add_sblock :: "sblock \<Rightarrow> smodule \<Rightarrow> smodule \<times> nat" where
  "add_sblock x m = (let xs = sm_blocks m @ [x] in (m\<lparr>sm_blocks := xs\<rparr>, last_index xs))"

definition add_sfunc :: "sfunc \<Rightarrow> smodule \<Rightarrow> smodule \<times> nat" where
  "add_sfunc x m = (let xs = sm_funcs m @ [x] in (m\<lparr>sm_funcs := xs\<rparr>, last_index xs))"

definition add_field_member :: "field_member \<Rightarrow> smodule \<Rightarrow> smodule \<times> nat" where
  "add_field_member x m = (let xs = sm_field_members m @ [x] in (m\<lparr>sm_field_members := xs\<rparr>, last_index xs))"

definition add_field_decl :: "field_decl \<Rightarrow> smodule \<Rightarrow> smodule \<times> nat" where
  "add_field_decl x m = (let xs = sm_fields m @ [x] in (m\<lparr>sm_fields := xs\<rparr>, last_index xs))"

definition add_acts_decl :: "acts_decl \<Rightarrow> smodule \<Rightarrow> smodule \<times> nat" where
  "add_acts_decl x m = (let xs = sm_acts m @ [x] in (m\<lparr>sm_acts := xs\<rparr>, last_index xs))"

definition add_sglobal :: "global_var \<Rightarrow> smodule \<Rightarrow> smodule \<times> nat" where
  "add_sglobal x m = (let xs = sm_globals m @ [x] in (m\<lparr>sm_globals := xs\<rparr>, last_index xs))"

definition add_switch_case :: "switch_case \<Rightarrow> smodule \<Rightarrow> smodule \<times> nat" where
  "add_switch_case x m = (let xs = sm_switch_cases m @ [x] in (m\<lparr>sm_switch_cases := xs\<rparr>, last_index xs))"

definition add_enum_bind :: "enum_bind \<Rightarrow> smodule \<Rightarrow> smodule \<times> nat" where
  "add_enum_bind x m = (let xs = sm_switch_enum_binds m @ [x] in (m\<lparr>sm_switch_enum_binds := xs\<rparr>, last_index xs))"

definition add_catch_clause :: "catch_clause \<Rightarrow> smodule \<Rightarrow> smodule \<times> nat" where
  "add_catch_clause x m = (let xs = sm_try_catch_clauses m @ [x] in (m\<lparr>sm_try_catch_clauses := xs\<rparr>, last_index xs))"

definition add_escape_handle :: "escape_meta \<Rightarrow> smodule \<Rightarrow> smodule \<times> nat" where
  "add_escape_handle x m = (let xs = sm_escape_handles m @ [x] in (m\<lparr>sm_escape_handles := xs\<rparr>, last_index xs))"

definition sir_valid_value :: "smodule \<Rightarrow> nat \<Rightarrow> bool" where
  "sir_valid_value m v = (v \<noteq> kInvalidId \<and> v < length (sm_values m))"

definition sir_valid_block :: "smodule \<Rightarrow> nat \<Rightarrow> bool" where
  "sir_valid_block m b = (b \<noteq> kInvalidId \<and> b < length (sm_blocks m))"

text \<open>Recursions over value ids that remember the ids met get smaller.\<close>

lemma visiting_decreases:
  assumes "\<not> (vid = kInvalidId \<or> n \<le> vid)" "vid \<notin> visiting"
  shows "card ({..< n} - insert vid visiting) < card ({..< n} - visiting)"
proof -
  have "vid \<in> {..< n} - visiting" using assms by simp
  then have "{..< n} - insert vid visiting \<subset> {..< n} - visiting" by blast
  then show ?thesis by (intro psubset_card_mono) simp_all
qed

end
