(* ===== verification/SIR_Verify.thy ===== *)
theory SIR_Verify
  imports SIR
begin

text \<open>
  The structural verifier of the structured representation
  (\<open>frontend/src/sir/verify/sir_verify.cpp\<close>): every check of \<open>verify_module\<close> with its message, in the
  order of the source. Then what a module must satisfy, and that the verifier reports nothing exactly
  on these modules.
\<close>

section \<open>Blocks\<close>

text \<open>The owner of each statement so far, and the messages.\<close>

definition claim_stmt :: "nat \<Rightarrow> nat \<Rightarrow> nat option list \<times> string list \<Rightarrow> nat option list \<times> string list" where
  "claim_stmt bid sid st =
     (case fst st ! sid of
        Some o' \<Rightarrow> (fst st, snd st @ [''stmt #'' @ dec sid @ '' belongs to multiple blocks ('' @ dec o' @ '', '' @ dec bid @ '')''])
      | None \<Rightarrow> ((fst st)[sid := Some bid], snd st))"

definition claim_block :: "smodule \<Rightarrow> nat \<Rightarrow> nat option list \<times> string list \<Rightarrow> nat option list \<times> string list" where
  "claim_block m bid st =
     (let b = sm_blocks m ! bid; n = length (sm_stmts m) in
      if bl_stmt_begin b + bl_stmt_count b > n
      then (fst st, snd st @ [''block #'' @ dec bid @ '' has out-of-range stmt slice: begin='' @ dec (bl_stmt_begin b)
              @ '' count='' @ dec (bl_stmt_count b) @ '' (stmts.size='' @ dec n @ '')''])
      else fold (claim_stmt bid) [bl_stmt_begin b ..< bl_stmt_begin b + bl_stmt_count b] st)"

definition block_errors :: "smodule \<Rightarrow> string list" where
  "block_errors m = snd (fold (claim_block m) [0 ..< length (sm_blocks m)] (replicate (length (sm_stmts m)) None, []))"

section \<open>Declarations\<close>

definition unless :: "bool \<Rightarrow> string \<Rightarrow> string list" where
  "unless ok msg = (if ok then [] else [msg])"

definition func_errors :: "smodule \<Rightarrow> nat \<Rightarrow> sfunc \<Rightarrow> string list" where
  "func_errors m fid f =
     unless (fu_entry f = kInvalidId \<or> sir_valid_block m (fu_entry f))
       (''func #'' @ dec fid @ '' has invalid entry block id '' @ dec (fu_entry f))
     @ unless (fu_attr_begin f + fu_attr_count f \<le> length (sm_attrs m)) (''func #'' @ dec fid @ '' has out-of-range attrs slice'')
     @ unless (fu_param_begin f + fu_param_count f \<le> length (sm_params m)) (''func #'' @ dec fid @ '' has out-of-range params slice'')
     @ (if fu_is_acts_member f
        then unless (fu_owner_acts f \<noteq> kInvalidId \<and> fu_owner_acts f < length (sm_acts m))
               (''func #'' @ dec fid @ '' is acts member but owner_acts is invalid'')
        else [])"

definition field_errors :: "smodule \<Rightarrow> nat \<Rightarrow> field_decl \<Rightarrow> string list" where
  "field_errors m i f = unless (fd_member_begin f + fd_member_count f \<le> length (sm_field_members m))
     (''field #'' @ dec i @ '' has out-of-range member slice'')"

definition acts_errors :: "smodule \<Rightarrow> nat \<Rightarrow> acts_decl \<Rightarrow> string list" where
  "acts_errors m i a =
     (if ac_func_begin a + ac_func_count a > length (sm_funcs m) then [''acts #'' @ dec i @ '' has out-of-range function slice'']
      else concat (map (\<lambda>fid. let f = sm_funcs m ! fid in
             unless (fu_is_acts_member f \<and> fu_owner_acts f = i)
               (''acts #'' @ dec i @ '' function #'' @ dec fid @ '' ownership metadata mismatch''))
           [ac_func_begin a ..< ac_func_begin a + ac_func_count a]))"

section \<open>Statements\<close>

definition need_value :: "smodule \<Rightarrow> nat \<Rightarrow> nat \<Rightarrow> string \<Rightarrow> string list" where
  "need_value m sid v what =
     (if v = kInvalidId then [''stmt #'' @ dec sid @ '' requires '' @ what @ '' value but got invalid id'']
      else unless (sir_valid_value m v) (''stmt #'' @ dec sid @ '' has invalid '' @ what @ '' value id '' @ dec v))"

definition need_block :: "smodule \<Rightarrow> nat \<Rightarrow> nat \<Rightarrow> string \<Rightarrow> string list" where
  "need_block m sid b what = unless (sir_valid_block m b) (''stmt #'' @ dec sid @ '' '' @ what @ '' has invalid block id '' @ dec b)"

definition catch_errors :: "smodule \<Rightarrow> nat \<Rightarrow> sstmt \<Rightarrow> string list" where
  "catch_errors m sid s =
     (if ss_catch_clause_begin s + ss_catch_clause_count s > length (sm_try_catch_clauses m)
      then [''stmt #'' @ dec sid @ '' has out-of-range try-catch clause slice'']
      else if ss_catch_clause_count s = 0 then [''stmt #'' @ dec sid @ '' try-catch has zero catch clauses'']
      else concat (map (\<lambda>i. let c = sm_try_catch_clauses m ! (ss_catch_clause_begin s + i) in
             unless (sir_valid_block m (cc_body c))
               (''stmt #'' @ dec sid @ '' catch clause #'' @ dec i @ '' has invalid body block id '' @ dec (cc_body c)))
           [0 ..< ss_catch_clause_count s]))"

definition case_errors :: "smodule \<Rightarrow> nat \<Rightarrow> sstmt \<Rightarrow> string list" where
  "case_errors m sid s =
     (if ss_case_begin s + ss_case_count s > length (sm_switch_cases m)
      then [''stmt #'' @ dec sid @ '' has out-of-range switch case slice'']
      else concat (map (\<lambda>i. let c = sm_switch_cases m ! (ss_case_begin s + i) in
             unless (sir_valid_block m (sc_body c))
               (''stmt #'' @ dec sid @ '' switch case #'' @ dec i @ '' has invalid body block id '' @ dec (sc_body c))
             @ (if sc_pat_kind c = PatEnumVariant
                then unless (sc_enum_bind_begin c + sc_enum_bind_count c \<le> length (sm_switch_enum_binds m))
                       (''stmt #'' @ dec sid @ '' switch case #'' @ dec i @ '' has out-of-range enum bind slice'')
                else []))
           [0 ..< ss_case_count s]))"

definition stmt_errors :: "smodule \<Rightarrow> nat \<Rightarrow> sstmt \<Rightarrow> string list" where
  "stmt_errors m sid s =
     (case ss_kind s of
        SsExprStmt \<Rightarrow> need_value m sid (ss_expr s) ''expr''
      | SsVarDecl \<Rightarrow> need_value m sid (ss_init s) ''init''
          @ (if ss_has_consume_else s then need_block m sid (ss_b s) ''consume-else block'' else [])
      | SsThrowStmt \<Rightarrow> need_value m sid (ss_expr s) ''throw payload''
      | SsTryCatchStmt \<Rightarrow> need_block m sid (ss_a s) ''try body'' @ catch_errors m sid s
      | SsIfStmt \<Rightarrow> need_value m sid (ss_expr s) ''cond'' @ need_block m sid (ss_a s) ''if-then''
          @ (if ss_b s \<noteq> kInvalidId then need_block m sid (ss_b s) ''if-else'' else [])
      | SsWhileStmt \<Rightarrow> need_value m sid (ss_expr s) ''cond'' @ need_block m sid (ss_a s) ''while-body''
      | SsDoScopeStmt \<Rightarrow> need_block m sid (ss_a s) ''do-scope''
      | SsDoWhileStmt \<Rightarrow> need_value m sid (ss_expr s) ''cond'' @ need_block m sid (ss_a s) ''do-while body''
      | SsManualStmt \<Rightarrow> need_block m sid (ss_a s) ''manual body''
      | SsSwitch \<Rightarrow> need_value m sid (ss_expr s) ''switch scrutinee'' @ case_errors m sid s
      | SsReturn \<Rightarrow> unless (ss_expr s = kInvalidId \<or> sir_valid_value m (ss_expr s))
          (''stmt #'' @ dec sid @ '' has invalid optional expr value id '' @ dec (ss_expr s))
      | SsBreak \<Rightarrow> unless (ss_expr s = kInvalidId \<or> sir_valid_value m (ss_expr s))
          (''stmt #'' @ dec sid @ '' has invalid optional expr value id '' @ dec (ss_expr s))
      | _ \<Rightarrow> [])"

section \<open>Values\<close>

definition need_child :: "smodule \<Rightarrow> nat \<Rightarrow> nat \<Rightarrow> string \<Rightarrow> string list" where
  "need_child m vid c what = unless (sir_valid_value m c) (''value #'' @ dec vid @ '' has invalid '' @ what @ '' child value id '' @ dec c)"

definition may_child :: "smodule \<Rightarrow> nat \<Rightarrow> nat \<Rightarrow> string \<Rightarrow> string list" where
  "may_child m vid c what = unless (c = kInvalidId \<or> sir_valid_value m c) (''value #'' @ dec vid @ what @ dec c)"

definition arg_slice_errors :: "smodule \<Rightarrow> nat \<Rightarrow> svalue \<Rightarrow> string \<Rightarrow> string \<Rightarrow> string list" where
  "arg_slice_errors m vid v whole part =
     (if sv_arg_begin v + sv_arg_count v > length (sm_args m) then [''value #'' @ dec vid @ '' '' @ whole @ '' has out-of-range args slice'']
      else concat (map (\<lambda>i. may_child m vid (sa_value (sm_args m ! i)) ('' '' @ part @ '' has invalid value id ''))
           [sv_arg_begin v ..< sv_arg_begin v + sv_arg_count v]))"

definition loop_errors :: "smodule \<Rightarrow> nat \<Rightarrow> svalue \<Rightarrow> string list" where
  "loop_errors m vid v =
     (let src = sv_loop_source_kind v; pre = ''value #'' @ dec vid in
      unless (\<not> (sv_op v \<noteq> 0 \<and> src \<noteq> LoopNone \<and> src \<noteq> LoopIteratorFutureUnsupported \<and> sv_a v = kInvalidId))
        (pre @ '' loop header is missing primary iterable/start value'')
      @ may_child m vid (sv_a v) '' loop has invalid iter/start value id ''
      @ unless (\<not> ((src = LoopRangeExclusive \<or> src = LoopRangeInclusive) \<and> sv_c v = kInvalidId))
          (pre @ '' range loop is missing end value'')
      @ may_child m vid (sv_c v) '' loop has invalid range end value id ''
      @ (if src = LoopSequence
         then unless (sv_loop_iterator_type v \<noteq> kInvalidId) (pre @ '' sequence loop is missing iterator type metadata'')
           @ unless (sv_loop_iter_decl_stmt v \<noteq> kInvalidId \<or> sv_loop_iter_external_sym v \<noteq> kInvalidId)
               (pre @ '' sequence loop is missing iter() target metadata'')
           @ unless (sv_loop_next_decl_stmt v \<noteq> kInvalidId \<or> sv_loop_next_external_sym v \<noteq> kInvalidId)
               (pre @ '' sequence loop is missing next() target metadata'')
         else [])
      @ unless (sir_valid_block m (sv_b v)) (pre @ '' loop has invalid body block id '' @ dec (sv_b v)))"

definition call_errors :: "smodule \<Rightarrow> nat \<Rightarrow> svalue \<Rightarrow> string list" where
  "call_errors m vid v =
     (if sv_a v \<noteq> kInvalidId then need_child m vid (sv_a v) ''callee''
      else unless (sv_callee_sym v \<noteq> kInvalidId \<or> sv_callee_decl_stmt v \<noteq> kInvalidId \<or> sv_core_call_kind v \<noteq> CkNone)
        (''value #'' @ dec vid @ '' call requires callee value or direct callee metadata''))
     @ arg_slice_errors m vid v ''call'' ''call arg''"

definition value_errors :: "smodule \<Rightarrow> nat \<Rightarrow> svalue \<Rightarrow> string list" where
  "value_errors m vid v =
     (let k = sv_kind v in
      if k \<in> {SvUnary, SvBorrow, SvEscape, SvPostfixInc, SvCast} then need_child m vid (sv_a v) ''a''
      else if k \<in> {SvBinary, SvAssign, SvIndex} then need_child m vid (sv_a v) ''a'' @ need_child m vid (sv_b v) ''b''
      else if k = SvField then need_child m vid (sv_a v) ''base''
      else if k = SvIfExpr
      then need_child m vid (sv_a v) ''a'' @ need_child m vid (sv_b v) ''b'' @ need_child m vid (sv_c v) ''c''
      else if k = SvLoopExpr then loop_errors m vid v
      else if k = SvBlockExpr
      then unless (sir_valid_block m (sv_a v)) (''value #'' @ dec vid @ '' block-expr has invalid block id '' @ dec (sv_a v))
           @ may_child m vid (sv_b v) '' block-expr has invalid tail value id ''
      else if k \<in> {SvCall, SvPipeCall} then call_errors m vid v
      else if k = SvEnumCtor then arg_slice_errors m vid v ''enum ctor'' ''enum ctor arg''
      else if k = SvArrayLit then arg_slice_errors m vid v ''array literal'' ''array literal element''
      else if k = SvFieldInit then arg_slice_errors m vid v ''field initializer'' ''field initializer element''
      else [])"

definition numbered :: "(nat \<Rightarrow> 'a \<Rightarrow> string list) \<Rightarrow> 'a list \<Rightarrow> string list" where
  "numbered check xs = concat (map (\<lambda>i. check i (xs ! i)) [0 ..< length xs])"

definition verify_module :: "smodule \<Rightarrow> string list" where
  "verify_module m =
     block_errors m @ numbered (func_errors m) (sm_funcs m) @ numbered (field_errors m) (sm_fields m)
     @ numbered (acts_errors m) (sm_acts m) @ numbered (stmt_errors m) (sm_stmts m)
     @ numbered (value_errors m) (sm_values m)"

section \<open>Well-formed modules\<close>

text \<open>The statements of a block.\<close>

definition block_range :: "sblock \<Rightarrow> nat set" where
  "block_range b = {bl_stmt_begin b ..< bl_stmt_begin b + bl_stmt_count b}"

definition fits :: "nat \<Rightarrow> nat \<Rightarrow> 'a list \<Rightarrow> bool" where
  "fits start n xs \<longleftrightarrow> start + n \<le> length xs"

definition blocks_disjoint :: "smodule \<Rightarrow> bool" where
  "blocks_disjoint m \<longleftrightarrow>
     (\<forall>b \<in> set (sm_blocks m). fits (bl_stmt_begin b) (bl_stmt_count b) (sm_stmts m))
     \<and> (\<forall>i < length (sm_blocks m). \<forall>j < i. block_range (sm_blocks m ! i) \<inter> block_range (sm_blocks m ! j) = {})"

definition decls_ok :: "smodule \<Rightarrow> bool" where
  "decls_ok m \<longleftrightarrow>
     (\<forall>f \<in> set (sm_funcs m). (fu_entry f = kInvalidId \<or> sir_valid_block m (fu_entry f))
        \<and> fits (fu_attr_begin f) (fu_attr_count f) (sm_attrs m) \<and> fits (fu_param_begin f) (fu_param_count f) (sm_params m)
        \<and> (fu_is_acts_member f \<longrightarrow> fu_owner_acts f \<noteq> kInvalidId \<and> fu_owner_acts f < length (sm_acts m)))
     \<and> (\<forall>f \<in> set (sm_fields m). fits (fd_member_begin f) (fd_member_count f) (sm_field_members m))
     \<and> (\<forall>i < length (sm_acts m). let a = sm_acts m ! i in fits (ac_func_begin a) (ac_func_count a) (sm_funcs m)
        \<and> (\<forall>f \<in> set (take (ac_func_count a) (drop (ac_func_begin a) (sm_funcs m))). fu_is_acts_member f \<and> fu_owner_acts f = i))"

text \<open>The clauses and cases of a statement, the arguments of a value.\<close>

definition stmt_clauses :: "smodule \<Rightarrow> sstmt \<Rightarrow> catch_clause list" where
  "stmt_clauses m s = take (ss_catch_clause_count s) (drop (ss_catch_clause_begin s) (sm_try_catch_clauses m))"

definition stmt_cases :: "smodule \<Rightarrow> sstmt \<Rightarrow> switch_case list" where
  "stmt_cases m s = take (ss_case_count s) (drop (ss_case_begin s) (sm_switch_cases m))"

definition value_args :: "smodule \<Rightarrow> svalue \<Rightarrow> sarg list" where
  "value_args m v = take (sv_arg_count v) (drop (sv_arg_begin v) (sm_args m))"

text \<open>What a statement refers to: values it needs, values it may have, and blocks.\<close>

definition stmt_needs :: "sstmt \<Rightarrow> nat list" where
  "stmt_needs s =
     (if ss_kind s \<in> {SsExprStmt, SsThrowStmt, SsIfStmt, SsWhileStmt, SsDoWhileStmt, SsSwitch} then [ss_expr s]
      else if ss_kind s = SsVarDecl then [ss_init s] else [])"

definition stmt_may :: "sstmt \<Rightarrow> nat list" where
  "stmt_may s = (if ss_kind s \<in> {SsReturn, SsBreak} \<and> ss_expr s \<noteq> kInvalidId then [ss_expr s] else [])"

definition stmt_blocks :: "smodule \<Rightarrow> sstmt \<Rightarrow> nat list" where
  "stmt_blocks m s =
     (case ss_kind s of
        SsVarDecl \<Rightarrow> if ss_has_consume_else s then [ss_b s] else []
      | SsTryCatchStmt \<Rightarrow> ss_a s # map cc_body (stmt_clauses m s)
      | SsIfStmt \<Rightarrow> ss_a s # (if ss_b s \<noteq> kInvalidId then [ss_b s] else [])
      | SsWhileStmt \<Rightarrow> [ss_a s] | SsDoScopeStmt \<Rightarrow> [ss_a s] | SsDoWhileStmt \<Rightarrow> [ss_a s] | SsManualStmt \<Rightarrow> [ss_a s]
      | SsSwitch \<Rightarrow> map sc_body (stmt_cases m s)
      | _ \<Rightarrow> [])"

definition stmt_slices :: "smodule \<Rightarrow> sstmt \<Rightarrow> bool" where
  "stmt_slices m s \<longleftrightarrow>
     (ss_kind s = SsTryCatchStmt \<longrightarrow> fits (ss_catch_clause_begin s) (ss_catch_clause_count s) (sm_try_catch_clauses m)
        \<and> ss_catch_clause_count s \<noteq> 0)
     \<and> (ss_kind s = SsSwitch \<longrightarrow> fits (ss_case_begin s) (ss_case_count s) (sm_switch_cases m)
        \<and> (\<forall>c \<in> set (stmt_cases m s). sc_pat_kind c = PatEnumVariant \<longrightarrow>
             fits (sc_enum_bind_begin c) (sc_enum_bind_count c) (sm_switch_enum_binds m)))"

definition stmt_ok :: "smodule \<Rightarrow> sstmt \<Rightarrow> bool" where
  "stmt_ok m s \<longleftrightarrow> stmt_slices m s \<and> (\<forall>v \<in> set (stmt_needs s @ stmt_may s). sir_valid_value m v)
     \<and> (\<forall>b \<in> set (stmt_blocks m s). sir_valid_block m b)"

text \<open>The same for a value.\<close>

definition has_args :: "value_kind \<Rightarrow> bool" where
  "has_args k \<longleftrightarrow> k \<in> {SvCall, SvPipeCall, SvEnumCtor, SvArrayLit, SvFieldInit}"

definition present :: "nat list \<Rightarrow> nat list" where
  "present vs = filter (\<lambda>v. v \<noteq> kInvalidId) vs"

definition value_children :: "smodule \<Rightarrow> svalue \<Rightarrow> nat list" where
  "value_children m v =
     (let k = sv_kind v in
      if k \<in> {SvUnary, SvBorrow, SvEscape, SvPostfixInc, SvCast, SvField} then [sv_a v]
      else if k \<in> {SvBinary, SvAssign, SvIndex} then [sv_a v, sv_b v]
      else if k = SvIfExpr then [sv_a v, sv_b v, sv_c v]
      else if k = SvLoopExpr then present [sv_a v, sv_c v]
      else if k = SvBlockExpr then present [sv_b v]
      else if k \<in> {SvCall, SvPipeCall} then present (sv_a v # map sa_value (value_args m v))
      else if has_args k then present (map sa_value (value_args m v))
      else [])"

definition value_blocks :: "svalue \<Rightarrow> nat list" where
  "value_blocks v = (if sv_kind v = SvLoopExpr then [sv_b v] else if sv_kind v = SvBlockExpr then [sv_a v] else [])"

definition value_complete :: "svalue \<Rightarrow> bool" where
  "value_complete v \<longleftrightarrow>
     (sv_kind v = SvLoopExpr \<longrightarrow>
        (sv_a v = kInvalidId \<longrightarrow> sv_op v = 0 \<or> sv_loop_source_kind v \<in> {LoopNone, LoopIteratorFutureUnsupported})
        \<and> (sv_loop_source_kind v \<in> {LoopRangeExclusive, LoopRangeInclusive} \<longrightarrow> sv_c v \<noteq> kInvalidId)
        \<and> (sv_loop_source_kind v = LoopSequence \<longrightarrow> sv_loop_iterator_type v \<noteq> kInvalidId
             \<and> (sv_loop_iter_decl_stmt v \<noteq> kInvalidId \<or> sv_loop_iter_external_sym v \<noteq> kInvalidId)
             \<and> (sv_loop_next_decl_stmt v \<noteq> kInvalidId \<or> sv_loop_next_external_sym v \<noteq> kInvalidId)))
     \<and> (sv_kind v \<in> {SvCall, SvPipeCall} \<and> sv_a v = kInvalidId \<longrightarrow>
          sv_callee_sym v \<noteq> kInvalidId \<or> sv_callee_decl_stmt v \<noteq> kInvalidId \<or> sv_core_call_kind v \<noteq> CkNone)"

definition value_ok :: "smodule \<Rightarrow> svalue \<Rightarrow> bool" where
  "value_ok m v \<longleftrightarrow> value_complete v \<and> (has_args (sv_kind v) \<longrightarrow> fits (sv_arg_begin v) (sv_arg_count v) (sm_args m))
     \<and> (\<forall>c \<in> set (value_children m v). sir_valid_value m c) \<and> (\<forall>b \<in> set (value_blocks v). sir_valid_block m b)"

definition wf_sir :: "smodule \<Rightarrow> bool" where
  "wf_sir m \<longleftrightarrow> blocks_disjoint m \<and> decls_ok m \<and> (\<forall>s \<in> set (sm_stmts m). stmt_ok m s) \<and> (\<forall>v \<in> set (sm_values m). value_ok m v)"

section \<open>No message means well formed\<close>

lemma unless_Nil [simp]: "unless ok msg = [] \<longleftrightarrow> ok"
  by (simp add: unless_def)

lemma numbered_Nil: "numbered check xs = [] \<longleftrightarrow> (\<forall>i < length xs. check i (xs ! i) = [])"
  by (auto simp: numbered_def)

lemma claim_stmts:
  fixes bid s n ow er
  defines "st \<equiv> fold (claim_stmt bid) [s ..< s + n] (ow, er)"
  assumes "s + n \<le> length ow"
  shows "length (fst st) = length ow \<and> (snd st = [] \<longleftrightarrow> er = [] \<and> (\<forall>i \<in> {s ..< s + n}. ow ! i = None))
    \<and> (\<forall>i < length ow. fst st ! i = None \<longleftrightarrow> ow ! i = None \<and> i \<notin> {s ..< s + n})"
  using assms(2) unfolding st_def
proof (induction n)
  case (Suc n)
  let ?st = "fold (claim_stmt bid) [s ..< s + n] (ow, er)"
  have IH: "length (fst ?st) = length ow" "snd ?st = [] \<longleftrightarrow> er = [] \<and> (\<forall>i \<in> {s ..< s + n}. ow ! i = None)"
    "\<forall>i < length ow. fst ?st ! i = None \<longleftrightarrow> ow ! i = None \<and> i \<notin> {s ..< s + n}"
    using Suc by simp_all
  have at: "fst ?st ! (s + n) = None \<longleftrightarrow> ow ! (s + n) = None" using IH(3) Suc.prems by auto
  have step: "fold (claim_stmt bid) [s ..< s + Suc n] (ow, er) = claim_stmt bid (s + n) ?st" by simp
  have range: "{s ..< s + Suc n} = insert (s + n) {s ..< s + n}" by auto
  show ?case
  proof (cases "fst ?st ! (s + n)")
    case None
    then have "claim_stmt bid (s + n) ?st = ((fst ?st)[s + n := Some bid], snd ?st)" by (simp add: claim_stmt_def)
    then show ?thesis using IH at None Suc.prems unfolding step range by (auto simp: nth_list_update)
  next
    case (Some o')
    then have "fst (claim_stmt bid (s + n) ?st) = fst ?st" "snd (claim_stmt bid (s + n) ?st) \<noteq> []"
      by (simp_all add: claim_stmt_def)
    then show ?thesis using IH at Some Suc.prems unfolding step range by auto
  qed
qed simp

lemma claim_blocks:
  fixes m n
  defines "st \<equiv> fold (claim_block m) [0 ..< n] (replicate (length (sm_stmts m)) None, [])"
  defines "ok \<equiv> (\<forall>i < n. fits (bl_stmt_begin (sm_blocks m ! i)) (bl_stmt_count (sm_blocks m ! i)) (sm_stmts m))
    \<and> (\<forall>i < n. \<forall>j < i. block_range (sm_blocks m ! i) \<inter> block_range (sm_blocks m ! j) = {})"
  shows "length (fst st) = length (sm_stmts m) \<and> (snd st = [] \<longleftrightarrow> ok)
    \<and> (snd st = [] \<longrightarrow> (\<forall>i < length (sm_stmts m). fst st ! i = None \<longleftrightarrow> (\<forall>j < n. i \<notin> block_range (sm_blocks m ! j))))"
  unfolding st_def ok_def
proof (induction n)
  case (Suc n)
  let ?b = "sm_blocks m ! n" and ?st = "fold (claim_block m) [0 ..< n] (replicate (length (sm_stmts m)) None, [])"
  obtain ow er where st: "?st = (ow, er)" by fastforce
  have len: "length ow = length (sm_stmts m)" using Suc.IH st by simp
  have step: "fold (claim_block m) [0 ..< Suc n] (replicate (length (sm_stmts m)) None, []) = claim_block m n (ow, er)"
    using st by simp
  show ?case
  proof (cases "fits (bl_stmt_begin ?b) (bl_stmt_count ?b) (sm_stmts m)")
    case False
    then show ?thesis using len unfolding step by (auto simp: claim_block_def Let_def fits_def not_le)
  next
    case True
    then have range: "bl_stmt_begin ?b + bl_stmt_count ?b \<le> length ow" using len by (simp add: fits_def)
    note claim = claim_stmts [OF range, where bid = n and er = er]
    have eq: "claim_block m n (ow, er) = fold (claim_stmt n) [bl_stmt_begin ?b ..< bl_stmt_begin ?b + bl_stmt_count ?b] (ow, er)"
      using range len by (simp add: claim_block_def Let_def)
    have free: "(\<forall>i \<in> block_range ?b. ow ! i = None) \<longleftrightarrow> (\<forall>j < n. block_range ?b \<inter> block_range (sm_blocks m ! j) = {})" if "er = []"
      using Suc.IH st that range len by (fastforce simp: block_range_def)
    have all: "(\<forall>i < Suc n. P i) \<longleftrightarrow> (\<forall>i < n. P i) \<and> P n" for P :: "nat \<Rightarrow> bool" by (auto simp: less_Suc_eq)
    let ?new = "fold (claim_stmt n) [bl_stmt_begin ?b ..< bl_stmt_begin ?b + bl_stmt_count ?b] (ow, er)"
    have new: "length (fst ?new) = length ow" "snd ?new = [] \<longleftrightarrow> er = [] \<and> (\<forall>i \<in> block_range ?b. ow ! i = None)"
      "\<And>i. i < length ow \<Longrightarrow> fst ?new ! i = None \<longleftrightarrow> ow ! i = None \<and> i \<notin> block_range ?b"
      using claim by (simp_all add: block_range_def)
    have old: "er = [] \<longleftrightarrow> (\<forall>i < n. fits (bl_stmt_begin (sm_blocks m ! i)) (bl_stmt_count (sm_blocks m ! i)) (sm_stmts m))
        \<and> (\<forall>i < n. \<forall>j < i. block_range (sm_blocks m ! i) \<inter> block_range (sm_blocks m ! j) = {})"
      "er = [] \<Longrightarrow> i < length (sm_stmts m) \<Longrightarrow> ow ! i = None \<longleftrightarrow> (\<forall>j < n. i \<notin> block_range (sm_blocks m ! j))" for i
      using Suc.IH st by simp_all
    show ?thesis unfolding step eq all
    proof (intro conjI impI allI)
      show "length (fst ?new) = length (sm_stmts m)" using new(1) len by simp
      show "snd ?new = [] \<longleftrightarrow>
          ((\<forall>i < n. fits (bl_stmt_begin (sm_blocks m ! i)) (bl_stmt_count (sm_blocks m ! i)) (sm_stmts m))
            \<and> fits (bl_stmt_begin ?b) (bl_stmt_count ?b) (sm_stmts m))
          \<and> (\<forall>i < n. \<forall>j < i. block_range (sm_blocks m ! i) \<inter> block_range (sm_blocks m ! j) = {})
          \<and> (\<forall>j < n. block_range ?b \<inter> block_range (sm_blocks m ! j) = {})"
        using new(2) old(1) free True by blast
      fix i assume "snd ?new = []" "i < length (sm_stmts m)"
      then show "fst ?new ! i = None \<longleftrightarrow> (\<forall>j < n. i \<notin> block_range (sm_blocks m ! j)) \<and> i \<notin> block_range ?b"
        using new(2) new(3) [of i] old(2) [of i] len by simp
    qed
  qed
qed simp

lemma slice_map: "fits b n xs \<Longrightarrow> take n (drop b xs) = map (\<lambda>i. xs ! (b + i)) [0 ..< n]"
  by (rule nth_equalityI) (auto simp: fits_def)

lemma slice_map': "fits b n xs \<Longrightarrow> take n (drop b xs) = map (\<lambda>i. xs ! i) [b ..< b + n]"
  by (rule nth_equalityI) (auto simp: fits_def)

lemma set_slice: "fits b n xs \<Longrightarrow> set (take n (drop b xs)) = (\<lambda>i. xs ! (b + i)) ` {0 ..< n}"
  by (simp add: slice_map)

lemma set_slice': "fits b n xs \<Longrightarrow> set (take n (drop b xs)) = (\<lambda>i. xs ! i) ` {b ..< b + n}"
  by (simp add: slice_map')

lemma all_nth: "(\<forall>x \<in> set xs. P x) \<longleftrightarrow> (\<forall>i < length xs. P (xs ! i))"
  by (simp add: all_set_conv_all_nth)

lemma func_errors_Nil:
  "func_errors m fid f = [] \<longleftrightarrow> (fu_entry f = kInvalidId \<or> sir_valid_block m (fu_entry f))
     \<and> fits (fu_attr_begin f) (fu_attr_count f) (sm_attrs m) \<and> fits (fu_param_begin f) (fu_param_count f) (sm_params m)
     \<and> (fu_is_acts_member f \<longrightarrow> fu_owner_acts f \<noteq> kInvalidId \<and> fu_owner_acts f < length (sm_acts m))"
  by (simp add: func_errors_def fits_def)

lemma acts_errors_Nil:
  "acts_errors m i a = [] \<longleftrightarrow> fits (ac_func_begin a) (ac_func_count a) (sm_funcs m)
     \<and> (\<forall>f \<in> set (take (ac_func_count a) (drop (ac_func_begin a) (sm_funcs m))). fu_is_acts_member f \<and> fu_owner_acts f = i)"
proof (cases "fits (ac_func_begin a) (ac_func_count a) (sm_funcs m)")
  case True
  then show ?thesis by (simp add: acts_errors_def set_slice' Let_def) (simp add: fits_def)
qed (simp add: acts_errors_def fits_def)

lemma need_Nil [simp]:
  "need_value m sid v what = [] \<longleftrightarrow> sir_valid_value m v" "need_block m sid b what = [] \<longleftrightarrow> sir_valid_block m b"
  "need_child m vid c what = [] \<longleftrightarrow> sir_valid_value m c" "may_child m vid c what = [] \<longleftrightarrow> c = kInvalidId \<or> sir_valid_value m c"
  by (auto simp: need_value_def need_block_def need_child_def may_child_def sir_valid_value_def)

lemma catch_errors_Nil:
  "catch_errors m sid s = [] \<longleftrightarrow> fits (ss_catch_clause_begin s) (ss_catch_clause_count s) (sm_try_catch_clauses m)
     \<and> ss_catch_clause_count s \<noteq> 0 \<and> (\<forall>c \<in> set (stmt_clauses m s). sir_valid_block m (cc_body c))"
proof (cases "fits (ss_catch_clause_begin s) (ss_catch_clause_count s) (sm_try_catch_clauses m)")
  case True
  then show ?thesis by (simp add: catch_errors_def stmt_clauses_def set_slice Let_def) (simp add: fits_def)
qed (simp add: catch_errors_def fits_def)

lemma case_errors_Nil:
  "case_errors m sid s = [] \<longleftrightarrow> fits (ss_case_begin s) (ss_case_count s) (sm_switch_cases m)
     \<and> (\<forall>c \<in> set (stmt_cases m s). sir_valid_block m (sc_body c) \<and>
          (sc_pat_kind c = PatEnumVariant \<longrightarrow> fits (sc_enum_bind_begin c) (sc_enum_bind_count c) (sm_switch_enum_binds m)))"
proof (cases "fits (ss_case_begin s) (ss_case_count s) (sm_switch_cases m)")
  case True
  then show ?thesis by (auto simp: case_errors_def stmt_cases_def set_slice Let_def) (auto simp: fits_def)
qed (simp add: case_errors_def fits_def)

lemma stmt_errors_Nil: "stmt_errors m sid s = [] \<longleftrightarrow> stmt_ok m s"
  by (cases "ss_kind s")
    (auto simp: stmt_errors_def stmt_ok_def stmt_slices_def stmt_needs_def stmt_may_def stmt_blocks_def
      catch_errors_Nil case_errors_Nil)

lemma arg_slice_Nil:
  "arg_slice_errors m vid v whole part = [] \<longleftrightarrow> fits (sv_arg_begin v) (sv_arg_count v) (sm_args m)
     \<and> (\<forall>c \<in> set (present (map sa_value (value_args m v))). sir_valid_value m c)"
proof (cases "fits (sv_arg_begin v) (sv_arg_count v) (sm_args m)")
  case True
  then show ?thesis
    by (simp add: arg_slice_errors_def value_args_def set_slice' present_def) (auto simp: fits_def)
qed (simp add: arg_slice_errors_def fits_def)

lemma value_errors_Nil: "value_errors m vid v = [] \<longleftrightarrow> value_ok m v"
  by (cases "sv_kind v")
    (auto simp: value_errors_def value_ok_def value_complete_def value_children_def value_blocks_def has_args_def
      call_errors_def loop_errors_def Let_def arg_slice_Nil present_def)

lemma block_errors_Nil: "block_errors m = [] \<longleftrightarrow> blocks_disjoint m"
  using claim_blocks [of m "length (sm_blocks m)"] by (simp add: block_errors_def blocks_disjoint_def all_nth)

text \<open>C14: The verifier reports nothing exactly on well-formed modules: the statement slices of the
  blocks are in range and share no statement, every slice of a declaration, statement or value is in
  range, members of an acts block name it as their owner, every reference to a value or block that is
  needed or present is valid, and loops and calls carry the parts their kind asks for.\<close>

theorem sir_verify_iff_wf: "verify_module m = [] \<longleftrightarrow> wf_sir m"
  by (simp add: verify_module_def numbered_Nil wf_sir_def decls_ok_def block_errors_Nil func_errors_Nil acts_errors_Nil
      stmt_errors_Nil value_errors_Nil all_nth field_errors_def fits_def [symmetric] Let_def)

end
