(* ===== verification/SIR_Canon.thy ===== *)
theory SIR_Canon
  imports SIR_Verify
begin

text \<open>
  The normalisation before the capability analysis
  (\<open>frontend/src/sir/analysis/canonicalize_for_capability.cpp\<close>): argument slices are laid out anew in
  the order of the values, and every value gets its place class, its root symbol and its effect. The
  two counters of the result are \<open>uint32_t\<close>.
\<close>

section \<open>The pass\<close>

fun effect_rank :: "effect_class \<Rightarrow> nat" where
  "effect_rank EcPure = 0"
| "effect_rank EcMayWrite = 1"
| "effect_rank EcUnknown = 2"

definition join_effect :: "effect_class \<Rightarrow> effect_class \<Rightarrow> effect_class" where
  "join_effect a b = (if effect_rank a \<ge> effect_rank b then a else b)"

definition base_effect :: "value_kind \<Rightarrow> effect_class" where
  "base_effect k =
     (if k \<in> {SvAssign, SvPostfixInc, SvEscape} then EcMayWrite
      else if k \<in> {SvCall, SvPipeCall, SvEnumCtor} then EcUnknown else EcPure)"

definition is_range_op :: "smodule \<Rightarrow> nat \<Rightarrow> bool" where
  "is_range_op m i =
     (i \<noteq> kInvalidId \<and> i < length (sm_values m) \<and>
      (let idx = sm_values m ! i in sv_kind idx = SvBinary \<and> (sv_op idx = k_dot_dot \<or> sv_op idx = k_dot_dot_colon)))"

definition is_range_index :: "smodule \<Rightarrow> svalue \<Rightarrow> bool" where
  "is_range_index m v = (sv_kind v = SvIndex \<and> is_range_op m (sv_b v))"

text \<open>The symbol below indexes, fields, borrows and escapes; a cycle of references has none.\<close>

function root_symbol_from_value :: "smodule \<Rightarrow> nat \<Rightarrow> nat set \<Rightarrow> nat" where
  "root_symbol_from_value m vid visiting =
     (if vid = kInvalidId \<or> length (sm_values m) \<le> vid then kInvalidId
      else if vid \<in> visiting then kInvalidId
      else
        let v = sm_values m ! vid in
        if sv_kind v \<in> {SvLocal, SvGlobal} then sv_sym v
        else if sv_kind v \<in> {SvIndex, SvField, SvBorrow, SvEscape}
        then root_symbol_from_value m (sv_a v) (insert vid visiting)
        else kInvalidId)"
  by pat_completeness simp

termination root_symbol_from_value
  by (relation "measure (\<lambda>(m, vid, visiting). card ({..< length (sm_values m)} - visiting))", simp)
    (simp only: in_measure prod.case, rule visiting_decreases)

declare root_symbol_from_value.simps [simp del]

definition clamp_arg_slice :: "sarg list \<Rightarrow> nat \<Rightarrow> nat \<Rightarrow> nat \<times> nat" where
  "clamp_arg_slice args b n =
     (if b > length args then (u32 (length args), 0)
      else if b + n > length args then (b, u32 (length args - b))
      else (b, n))"

text \<open>The new slices: the values done, the arguments laid out so far, the number of slices moved.\<close>

definition place_args :: "sarg list \<Rightarrow> svalue \<Rightarrow> svalue list \<times> sarg list \<times> nat \<Rightarrow> svalue list \<times> sarg list \<times> nat" where
  "place_args old v st =
     (case st of (vs, new, moved) \<Rightarrow>
        if \<not> has_args (sv_kind v) then (vs @ [v], new, moved)
        else
          let (b, n) = clamp_arg_slice old (sv_arg_begin v) (sv_arg_count v); nb = u32 (length new) in
          (vs @ [v\<lparr>sv_arg_begin := nb, sv_arg_count := n\<rparr>], new @ take n (drop b old),
           if sv_arg_begin v \<noteq> nb \<or> sv_arg_count v \<noteq> n then u32 (moved + 1) else moved))"

definition canonicalize_arg_slices :: "smodule \<Rightarrow> smodule \<times> nat" where
  "canonicalize_arg_slices m =
     (if sm_args m = [] then (m, 0)
      else
        let (vs, new, moved) = fold (place_args (sm_args m)) (sm_values m) ([], [], 0)
        in (m\<lparr>sm_values := vs, sm_args := new\<rparr>, moved))"

definition canonical_place :: "smodule \<Rightarrow> svalue \<Rightarrow> place_class" where
  "canonical_place m v =
     (if sv_kind v \<in> {SvLocal, SvGlobal} then PlLocal
      else if sv_kind v = SvIndex then (if is_range_index m v then PlNotPlace else PlIndex)
      else if sv_kind v = SvField then PlField
      else PlNotPlace)"

definition canonical_origin :: "smodule \<Rightarrow> nat \<Rightarrow> svalue \<Rightarrow> nat" where
  "canonical_origin m vid v =
     (if sv_kind v \<in> {SvBorrow, SvEscape, SvIndex, SvField}
      then (let root = root_symbol_from_value m vid {} in if root \<noteq> kInvalidId then root else sv_origin_sym v)
      else sv_origin_sym v)"

text \<open>The children whose effects count; the arguments only when their slice is in range.\<close>

definition slice_args :: "smodule \<Rightarrow> svalue \<Rightarrow> sarg list" where
  "slice_args m v = (if sv_arg_begin v + sv_arg_count v \<le> length (sm_args m) then value_args m v else [])"

definition effect_children :: "smodule \<Rightarrow> svalue \<Rightarrow> nat list" where
  "effect_children m v =
     (let k = sv_kind v in
      if k \<in> {SvUnary, SvBorrow, SvEscape, SvPostfixInc, SvCast} then [sv_a v]
      else if k \<in> {SvBinary, SvAssign, SvIndex, SvField} then [sv_a v, sv_b v]
      else if k = SvIfExpr then [sv_a v, sv_b v, sv_c v]
      else if k \<in> {SvCall, SvPipeCall, SvEnumCtor} then sv_a v # map sa_value (slice_args m v)
      else if k \<in> {SvArrayLit, SvFieldInit} then map sa_value (slice_args m v)
      else [])"

definition join_child :: "smodule \<Rightarrow> nat \<Rightarrow> effect_class \<Rightarrow> effect_class" where
  "join_child m c e = (if c \<noteq> kInvalidId \<and> c < length (sm_values m) then join_effect e (sv_effect (sm_values m ! c)) else e)"

definition canonical_effect :: "smodule \<Rightarrow> svalue \<Rightarrow> effect_class" where
  "canonical_effect m v = fold (join_child m) (effect_children m v) (base_effect (sv_kind v))"

text \<open>One value: the module and the number of values rewritten. The place and the root symbol are
  set before the effects of the children are read.\<close>

definition canonicalize_value :: "nat \<Rightarrow> smodule \<times> nat \<Rightarrow> smodule \<times> nat" where
  "canonicalize_value vid st =
     (let (m, rewritten) = st; v = sm_values m ! vid;
          v1 = v\<lparr>sv_place := canonical_place m v, sv_origin_sym := canonical_origin m vid v\<rparr>;
          m1 = m\<lparr>sm_values := (sm_values m)[vid := v1]\<rparr>;
          eff = canonical_effect m1 v1
      in (m1\<lparr>sm_values := (sm_values m)[vid := v1\<lparr>sv_effect := eff\<rparr>]\<rparr>,
          if sv_effect v \<noteq> eff \<or> sv_place v1 \<noteq> sv_place v then u32 (rewritten + 1) else rewritten))"

record canonicalize_result =
  cz_rewritten_values :: nat
  cz_rewritten_calls :: nat

definition canonicalize_for_capability :: "smodule \<Rightarrow> smodule \<times> canonicalize_result" where
  "canonicalize_for_capability m0 =
     (let (m1, calls) = canonicalize_arg_slices m0;
          (m2, vals) = fold canonicalize_value [0 ..< length (sm_values m1)] (m1, 0)
      in (m2, \<lparr>cz_rewritten_values = vals, cz_rewritten_calls = calls\<rparr>))"

section \<open>The argument slices\<close>

text \<open>Slices that follow each other, in the order of the values, and use up the arguments.\<close>

fun slices_tile :: "nat \<Rightarrow> svalue list \<Rightarrow> nat \<Rightarrow> bool" where
  "slices_tile b [] n \<longleftrightarrow> b = n"
| "slices_tile b (v # vs) n \<longleftrightarrow>
     (if has_args (sv_kind v) then sv_arg_begin v = b \<and> slices_tile (b + sv_arg_count v) vs n else slices_tile b vs n)"

lemma slices_tile_append:
  "slices_tile b (vs @ ws) n \<longleftrightarrow> (\<exists>k. slices_tile b vs k \<and> slices_tile k ws n)"
  by (induction vs arbitrary: b) auto

lemma slices_tile_le: "slices_tile b vs n \<Longrightarrow> b \<le> n"
  by (induction vs arbitrary: b) (fastforce split: if_splits)+

lemma slices_tile_fits:
  "slices_tile b vs n \<Longrightarrow> v \<in> set vs \<Longrightarrow> has_args (sv_kind v) \<Longrightarrow> sv_arg_begin v + sv_arg_count v \<le> n"
  by (induction vs arbitrary: b) (auto split: if_splits dest: slices_tile_le)

lemma clamp_arg_slice_in:
  "length old < 4294967296 \<Longrightarrow> clamp_arg_slice old b n = (b', n') \<Longrightarrow> b' + n' \<le> length old"
  by (auto simp: clamp_arg_slice_def split: if_splits)

definition total_args :: "smodule \<Rightarrow> nat" where
  "total_args m = sum_list (map sv_arg_count (filter (\<lambda>v. has_args (sv_kind v)) (sm_values m)))"

lemma clamp_arg_slice_le: "length old < 4294967296 \<Longrightarrow> clamp_arg_slice old b n = (b', n') \<Longrightarrow> n' \<le> n"
  by (auto simp: clamp_arg_slice_def split: if_splits)

lemma place_args_fold:
  assumes "length old < 4294967296"
  shows "slices_tile 0 vs0 (length new0) \<Longrightarrow>
     length new0 + sum_list (map sv_arg_count (filter (\<lambda>v. has_args (sv_kind v)) vs)) < 4294967296 \<Longrightarrow>
     fold (place_args old) vs (vs0, new0, k) = (vs', new', k') \<Longrightarrow>
     slices_tile 0 vs' (length new') \<and> (\<exists>ws. vs' = vs0 @ ws \<and> length ws = length vs) \<and> length new' < 4294967296"
proof (induction vs arbitrary: vs0 new0 k)
  case (Cons v vs)
  show ?case
  proof (cases "has_args (sv_kind v)")
    case True
    obtain b n where bn: "clamp_arg_slice old (sv_arg_begin v) (sv_arg_count v) = (b, n)" by fastforce
    have n: "b + n \<le> length old" "n \<le> sv_arg_count v"
      using clamp_arg_slice_in [OF assms bn] clamp_arg_slice_le [OF assms bn] by simp_all
    let ?v = "v\<lparr>sv_arg_begin := length new0, sv_arg_count := n\<rparr>" and ?new = "new0 @ take n (drop b old)"
    obtain k1 where step: "place_args old v (vs0, new0, k) = (vs0 @ [?v], ?new, k1)"
      using True bn Cons.prems(2) by (auto simp: place_args_def Let_def)
    have "slices_tile 0 (vs0 @ [?v]) (length ?new)"
      using Cons.prems(1) True n by (auto simp: slices_tile_append)
    moreover have "length ?new + sum_list (map sv_arg_count (filter (\<lambda>v. has_args (sv_kind v)) vs)) < 4294967296"
      using Cons.prems(2) True n by simp
    ultimately have "slices_tile 0 vs' (length new') \<and> (\<exists>ws. vs' = (vs0 @ [?v]) @ ws \<and> length ws = length vs) \<and> length new' < 4294967296"
      using Cons.IH [of "vs0 @ [?v]" ?new k1] Cons.prems(3) step by simp
    then show ?thesis by auto
  next
    case False
    then have "slices_tile 0 (vs0 @ [v]) (length new0)" using Cons.prems(1) by (auto simp: slices_tile_append)
    moreover have "place_args old v (vs0, new0, k) = (vs0 @ [v], new0, k)" using False by (simp add: place_args_def)
    ultimately have "slices_tile 0 vs' (length new') \<and> (\<exists>ws. vs' = (vs0 @ [v]) @ ws \<and> length ws = length vs) \<and> length new' < 4294967296"
      using Cons.IH [of "vs0 @ [v]" new0 k] Cons.prems(2,3) False by simp
    then show ?thesis by auto
  qed
qed simp

text \<open>Slices that tile the arguments are left as they are.\<close>

lemma place_args_tiled:
  "slices_tile b vs (length old) \<Longrightarrow> length old < 4294967296 \<Longrightarrow>
   fold (place_args old) vs (vs0, take b old, k) = (vs0 @ vs, old, k)"
proof (induction vs arbitrary: b vs0)
  case (Cons v vs)
  show ?case
  proof (cases "has_args (sv_kind v)")
    case True
    then have tile: "sv_arg_begin v = b" "slices_tile (b + sv_arg_count v) vs (length old)" using Cons.prems(1) by auto
    have le: "b + sv_arg_count v \<le> length old" by (rule slices_tile_le [OF tile(2)])
    have "place_args old v (vs0, take b old, k) = (vs0 @ [v], take (b + sv_arg_count v) old, k)"
      using True le tile(1) Cons.prems(2) by (simp add: place_args_def clamp_arg_slice_def Let_def take_add min_def)
    then show ?thesis using Cons.IH [OF tile(2) Cons.prems(2), of "vs0 @ [v]"] by simp
  next
    case False
    then show ?thesis using Cons.IH [of b "vs0 @ [v]"] Cons.prems by (simp add: place_args_def)
  qed
qed simp

section \<open>Places, roots and effects\<close>

text \<open>What the pass does not change of a value.\<close>

definition skeleton :: "svalue \<Rightarrow> svalue" where
  "skeleton v = v\<lparr>sv_place := PlNotPlace, sv_origin_sym := 0, sv_effect := EcPure\<rparr>"

definition same_shape :: "smodule \<Rightarrow> smodule \<Rightarrow> bool" where
  "same_shape m m' \<longleftrightarrow> map skeleton (sm_values m) = map skeleton (sm_values m') \<and> sm_args m = sm_args m'"

lemma skeleton_fields:
  assumes "skeleton v = skeleton w"
  shows "sv_kind v = sv_kind w" "sv_sym v = sv_sym w" "sv_a v = sv_a w" "sv_b v = sv_b w" "sv_c v = sv_c w" "sv_op v = sv_op w"
    "sv_arg_begin v = sv_arg_begin w" "sv_arg_count v = sv_arg_count w"
proof -
  show "sv_kind v = sv_kind w" using arg_cong [OF assms, of sv_kind] by (simp add: skeleton_def)
  show "sv_sym v = sv_sym w" using arg_cong [OF assms, of sv_sym] by (simp add: skeleton_def)
  show "sv_a v = sv_a w" using arg_cong [OF assms, of sv_a] by (simp add: skeleton_def)
  show "sv_b v = sv_b w" using arg_cong [OF assms, of sv_b] by (simp add: skeleton_def)
  show "sv_c v = sv_c w" using arg_cong [OF assms, of sv_c] by (simp add: skeleton_def)
  show "sv_op v = sv_op w" using arg_cong [OF assms, of sv_op] by (simp add: skeleton_def)
  show "sv_arg_begin v = sv_arg_begin w" using arg_cong [OF assms, of sv_arg_begin] by (simp add: skeleton_def)
  show "sv_arg_count v = sv_arg_count w" using arg_cong [OF assms, of sv_arg_count] by (simp add: skeleton_def)
qed

lemma skeleton_update [simp]:
  "skeleton (v\<lparr>sv_place := p, sv_origin_sym := q\<rparr>) = skeleton v" "skeleton (v\<lparr>sv_effect := e\<rparr>) = skeleton v"
  by (simp_all add: skeleton_def)

lemma same_shapeD:
  assumes "same_shape m m'"
  shows "length (sm_values m) = length (sm_values m')" "sm_args m = sm_args m'"
    "i < length (sm_values m) \<Longrightarrow> skeleton (sm_values m ! i) = skeleton (sm_values m' ! i)"
proof -
  show len: "length (sm_values m) = length (sm_values m')"
    using assms by (metis length_map same_shape_def)
  show "sm_args m = sm_args m'" using assms by (simp add: same_shape_def)
  assume "i < length (sm_values m)"
  moreover have "map skeleton (sm_values m) ! i = map skeleton (sm_values m') ! i" using assms by (simp add: same_shape_def)
  ultimately show "skeleton (sm_values m ! i) = skeleton (sm_values m' ! i)" using len by simp
qed

lemma root_symbol_shape:
  "same_shape m m' \<Longrightarrow> root_symbol_from_value m vid S = root_symbol_from_value m' vid S"
proof (induction m vid S rule: root_symbol_from_value.induct)
  case (1 m vid S)
  note shape = same_shapeD [OF "1.prems"]
  show ?case
  proof (cases "vid = kInvalidId \<or> length (sm_values m) \<le> vid \<or> vid \<in> S")
    case True
    then show ?thesis using shape(1) by (subst (1 2) root_symbol_from_value.simps) auto
  next
    case False
    note fields = skeleton_fields [OF shape(3) [of vid]]
    show ?thesis
      using "1.IH" [OF _ _ refl _ _ "1.prems"] False shape(1) fields
      by (subst (1 2) root_symbol_from_value.simps) (simp add: Let_def)
  qed
qed

lemma shape_fields:
  assumes "same_shape m m'" "skeleton v = skeleton w"
  shows "canonical_place m v = canonical_place m' w" "effect_children m v = effect_children m' w"
    "sv_origin_sym v = sv_origin_sym w \<Longrightarrow> canonical_origin m i v = canonical_origin m' i w"
proof -
  note fields = skeleton_fields [OF assms(2)] and shape = same_shapeD [OF assms(1)]
  have "is_range_op m j = is_range_op m' j" for j
    using shape(1) skeleton_fields [OF shape(3) [of j]] by (auto simp: is_range_op_def Let_def)
  then show "canonical_place m v = canonical_place m' w" by (simp add: canonical_place_def is_range_index_def fields)
  have "slice_args m v = slice_args m' w" by (simp add: slice_args_def value_args_def fields shape(2))
  then show "effect_children m v = effect_children m' w" by (simp add: effect_children_def fields Let_def)
  assume "sv_origin_sym v = sv_origin_sym w"
  then show "canonical_origin m i v = canonical_origin m' i w"
    by (simp add: canonical_origin_def fields root_symbol_shape [OF assms(1)] Let_def)
qed

text \<open>The children of a value come before it.\<close>

definition children_below :: "smodule \<Rightarrow> bool" where
  "children_below m \<longleftrightarrow> (\<forall>i < length (sm_values m). \<forall>c \<in> set (effect_children m (sm_values m ! i)).
     c < length (sm_values m) \<longrightarrow> c < i)"

text \<open>The value \<open>i\<close> is as the pass leaves it.\<close>

definition canonical_at :: "smodule \<Rightarrow> nat \<Rightarrow> bool" where
  "canonical_at m i \<longleftrightarrow> (let v = sm_values m ! i in
     sv_place v = canonical_place m v \<and> sv_origin_sym v = canonical_origin m i v \<and> sv_effect v = canonical_effect m v)"

lemma canonicalize_value_parts:
  assumes "i < length (sm_values m)" "canonicalize_value i (m, r) = (m', r')" "children_below m"
  shows "same_shape m m'" "canonical_at m' i" "\<And>j. j \<noteq> i \<Longrightarrow> sm_values m' ! j = sm_values m ! j"
proof -
  define v where "v = sm_values m ! i"
  define v1 where "v1 = v\<lparr>sv_place := canonical_place m v, sv_origin_sym := canonical_origin m i v\<rparr>"
  define m1 where "m1 = m\<lparr>sm_values := (sm_values m)[i := v1]\<rparr>"
  define v2 where "v2 = v1\<lparr>sv_effect := canonical_effect m1 v1\<rparr>"
  have m': "m' = m\<lparr>sm_values := (sm_values m)[i := v2]\<rparr>"
    using assms(2) by (simp add: canonicalize_value_def Let_def v_def v1_def m1_def v2_def)
  have skel: "skeleton v1 = skeleton v" "skeleton v2 = skeleton v" by (simp_all add: v1_def v2_def)
  have upd: "map skeleton ((sm_values m)[i := w]) = map skeleton (sm_values m)" if "skeleton w = skeleton v" for w
    using that assms(1) by (simp add: map_update v_def list_update_same_conv)
  then show shape: "same_shape m m'" using skel(2) by (simp add: same_shape_def m')
  have shape1: "same_shape m m1" using upd [OF skel(1)] by (simp add: same_shape_def m1_def)
  show "\<And>j. j \<noteq> i \<Longrightarrow> sm_values m' ! j = sm_values m ! j" by (simp add: m')
  have at: "sm_values m' ! i = v2" using assms(1) by (simp add: m')
  have fields: "sv_place v2 = canonical_place m v" "sv_origin_sym v2 = canonical_origin m i v" "sv_kind v1 = sv_kind v"
    by (simp_all add: v2_def v1_def)
  have place: "canonical_place m' v2 = canonical_place m v" using shape_fields(1) [OF shape, of v v2] skel by simp
  have origin: "canonical_origin m' i v2 = canonical_origin m i v"
  proof -
    have "canonical_origin m' i v2 = canonical_origin m i v2"
      using shape_fields(3) [OF shape, of v2 v2 i] by simp
    also have "\<dots> = canonical_origin m i v" using fields(2) skeleton_fields(1) [OF skel(2)]
      by (simp add: canonical_origin_def Let_def)
    finally show ?thesis .
  qed
  have kids: "effect_children m1 v1 = effect_children m v" "effect_children m' v2 = effect_children m v"
    using shape_fields(2) [OF shape1, of v v1] shape_fields(2) [OF shape, of v v2] skel by simp_all
  have "fold (join_child m1) (effect_children m v) e = fold (join_child m') (effect_children m v) e" for e
  proof (rule fold_cong)
    fix c assume "c \<in> set (effect_children m v)"
    then have "c < length (sm_values m) \<Longrightarrow> c < i" using assms(1,3) by (simp add: children_below_def v_def)
    then show "join_child m1 c = join_child m' c"
      by (cases "c < length (sm_values m)") (simp_all add: join_child_def m1_def m' fun_eq_iff)
  qed simp_all
  then have "canonical_effect m1 v1 = canonical_effect m' v2"
    using kids skeleton_fields(1) [OF skel(2)] fields(3) by (simp add: canonical_effect_def)
  then show "canonical_at m' i" using at fields place origin by (simp add: canonical_at_def Let_def) (simp add: v2_def)
qed

lemma same_shape_refl [simp]: "same_shape m m"
  by (simp add: same_shape_def)

lemma same_shape_trans: "same_shape a b \<Longrightarrow> same_shape b c \<Longrightarrow> same_shape a c"
  by (simp add: same_shape_def)

lemma children_below_shape: "same_shape m m' \<Longrightarrow> children_below m \<Longrightarrow> children_below m'"
  unfolding children_below_def
proof (intro allI impI ballI)
  fix i c
  assume shape: "same_shape m m'" and i: "i < length (sm_values m')" and c: "c \<in> set (effect_children m' (sm_values m' ! i))" "c < length (sm_values m')"
    and below: "\<forall>i < length (sm_values m). \<forall>c \<in> set (effect_children m (sm_values m ! i)). c < length (sm_values m) \<longrightarrow> c < i"
  note len = same_shapeD(1) [OF shape]
  then have "effect_children m (sm_values m ! i) = effect_children m' (sm_values m' ! i)"
    using i by (intro shape_fields(2) [OF shape] same_shapeD(3) [OF shape]) simp
  then show "c < i" using below i c len by simp
qed

text \<open>A later value does not change what was made of an earlier one.\<close>

lemma canonical_at_keeps:
  assumes "same_shape m m'" "canonical_at m j" "children_below m" "j < length (sm_values m)"
    "\<And>k. k \<le> j \<Longrightarrow> sm_values m' ! k = sm_values m ! k"
  shows "canonical_at m' j"
proof -
  let ?v = "sm_values m ! j"
  have same: "canonical_place m' ?v = canonical_place m ?v" "effect_children m' ?v = effect_children m ?v"
    "canonical_origin m' j ?v = canonical_origin m j ?v"
    using shape_fields [OF assms(1), of ?v ?v] by simp_all
  have "fold (join_child m) (effect_children m ?v) e = fold (join_child m') (effect_children m ?v) e" for e
  proof (rule fold_cong)
    fix c assume "c \<in> set (effect_children m ?v)"
    then have "c < length (sm_values m) \<Longrightarrow> c < j" using assms(3,4) by (simp add: children_below_def)
    then show "join_child m c = join_child m' c"
      using assms(5) [of c] same_shapeD(1) [OF assms(1)] by (cases "c < length (sm_values m)") (simp_all add: join_child_def fun_eq_iff)
  qed simp_all
  then show ?thesis using assms(2,5) same by (simp add: canonical_at_def canonical_effect_def)
qed

lemma canonicalize_values:
  assumes "children_below m" "n \<le> length (sm_values m)"
  shows "\<exists>m' r'. fold canonicalize_value [0 ..< n] (m, r) = (m', r') \<and> same_shape m m' \<and> (\<forall>i < n. canonical_at m' i)
    \<and> (\<forall>i. n \<le> i \<longrightarrow> sm_values m' ! i = sm_values m ! i)"
  using assms(2)
proof (induction n)
  case (Suc n)
  obtain m1 r1 where m1: "fold canonicalize_value [0 ..< n] (m, r) = (m1, r1)" "same_shape m m1" "\<forall>i < n. canonical_at m1 i"
    "\<forall>i. n \<le> i \<longrightarrow> sm_values m1 ! i = sm_values m ! i"
    using Suc by auto
  obtain m2 r2 where m2: "canonicalize_value n (m1, r1) = (m2, r2)" by fastforce
  have len: "n < length (sm_values m1)" using Suc.prems same_shapeD(1) [OF m1(2)] by simp
  have below: "children_below m1" using children_below_shape [OF m1(2) assms(1)] .
  note step = canonicalize_value_parts [OF len m2 below]
  have "canonical_at m2 i" if "i < n" for i
    using canonical_at_keeps [OF step(1) _ below] m1(3) step(3) that len by simp
  moreover have "\<forall>i. Suc n \<le> i \<longrightarrow> sm_values m2 ! i = sm_values m ! i" using step(3) m1(4) by simp
  ultimately show ?case
    using m1(1) m2 step(2) same_shape_trans [OF m1(2) step(1)] by (auto simp: less_Suc_eq)
qed simp

text \<open>On a module that is as the pass leaves it, the pass does nothing.\<close>

lemma canonicalize_value_idle:
  assumes "canonical_at m i" "i < length (sm_values m)"
  shows "canonicalize_value i (m, r) = (m, r)"
proof -
  define v where "v = sm_values m ! i"
  have at: "canonical_place m v = sv_place v" "canonical_origin m i v = sv_origin_sym v" "canonical_effect m v = sv_effect v"
    using assms(1) by (simp_all add: canonical_at_def Let_def v_def)
  have id: "v\<lparr>sv_place := sv_place v, sv_origin_sym := sv_origin_sym v\<rparr> = v" "v\<lparr>sv_effect := sv_effect v\<rparr> = v"
    "(sm_values m)[i := v] = sm_values m" "m\<lparr>sm_values := sm_values m\<rparr> = m"
    by (simp_all add: v_def)
  show ?thesis
    by (simp only: canonicalize_value_def Let_def prod.case v_def [symmetric] at id simp_thms if_False)
qed

lemma canonicalize_values_idle:
  "\<forall>i < n. canonical_at m i \<Longrightarrow> n \<le> length (sm_values m) \<Longrightarrow> fold canonicalize_value [0 ..< n] (m, r) = (m, r)"
  by (induction n) (simp_all add: canonicalize_value_idle)

lemma slices_tile_shape: "map skeleton vs = map skeleton ws \<Longrightarrow> slices_tile b vs n = slices_tile b ws n"
proof (induction vs arbitrary: ws b)
  case (Cons v vs)
  then obtain w ws' where ws: "ws = w # ws'" "skeleton v = skeleton w" "map skeleton vs = map skeleton ws'"
    by (cases ws) auto
  then show ?case using Cons.IH [OF ws(3)] skeleton_fields [OF ws(2)] by simp
qed simp

lemma arg_slices_tile:
  assumes "length (sm_args m) < 4294967296" "total_args m < 4294967296" "canonicalize_arg_slices m = (m1, k)" "sm_args m \<noteq> []"
  shows "slices_tile 0 (sm_values m1) (length (sm_args m1)) \<and> length (sm_args m1) < 4294967296"
proof -
  obtain vs new k' where fold: "fold (place_args (sm_args m)) (sm_values m) ([], [], 0) = (vs, new, k')"
    by (metis prod_cases3)
  then have "m1 = m\<lparr>sm_values := vs, sm_args := new\<rparr>" using assms(3,4) by (simp add: canonicalize_arg_slices_def)
  moreover have "slices_tile 0 vs (length new) \<and> length new < 4294967296"
    using place_args_fold [OF assms(1) _ _ fold] assms(2) by (simp add: total_args_def)
  ultimately show ?thesis by simp
qed

lemma canonicalize_parts:
  assumes "canonicalize_for_capability m = (m', r)" "children_below (fst (canonicalize_arg_slices m))"
  shows "same_shape (fst (canonicalize_arg_slices m)) m'" "i < length (sm_values m') \<Longrightarrow> canonical_at m' i"
    "children_below m'"
proof -
  obtain m1 k where m1: "canonicalize_arg_slices m = (m1, k)" by fastforce
  have "children_below m1" using assms(2) m1 by simp
  from canonicalize_values [OF this order_refl, of 0] obtain m2 r2 where
    m2: "fold canonicalize_value [0 ..< length (sm_values m1)] (m1, 0) = (m2, r2)" "same_shape m1 m2"
    "\<forall>i < length (sm_values m1). canonical_at m2 i" by blast
  have "m' = m2" using assms(1) m1 m2(1) by (simp add: canonicalize_for_capability_def)
  then show "same_shape (fst (canonicalize_arg_slices m)) m'" "i < length (sm_values m') \<Longrightarrow> canonical_at m' i"
    "children_below m'"
    using m1 m2 same_shapeD(1) [OF m2(2)] children_below_shape [OF m2(2) \<open>children_below m1\<close>] by auto
qed

lemma arg_slices_idle:
  assumes "sm_args m \<noteq> [] \<Longrightarrow> slices_tile 0 (sm_values m) (length (sm_args m))" "length (sm_args m) < 4294967296"
  shows "canonicalize_arg_slices m = (m, 0)"
proof (cases "sm_args m = []")
  case False
  then show ?thesis
    using place_args_tiled [OF assms(1) assms(2), of "[]" 0] by (simp add: canonicalize_arg_slices_def)
qed (simp add: canonicalize_arg_slices_def)

section \<open>Effects\<close>

text \<open>The values an effect comes from.\<close>

inductive effect_below :: "smodule \<Rightarrow> nat \<Rightarrow> nat \<Rightarrow> bool" for m where
  effect_here: "i < length (sm_values m) \<Longrightarrow> effect_below m i i"
| effect_child: "i < length (sm_values m) \<Longrightarrow> c \<in> set (effect_children m (sm_values m ! i)) \<Longrightarrow> c \<noteq> kInvalidId \<Longrightarrow>
    effect_below m c j \<Longrightarrow> effect_below m i j"

inductive_cases effect_below_cases: "effect_below m i j"

lemma effect_below_valid: "effect_below m i j \<Longrightarrow> i < length (sm_values m) \<and> j < length (sm_values m)"
  by (induction rule: effect_below.induct) auto

lemma rank_join: "r \<le> effect_rank (join_effect a b) \<longleftrightarrow> r \<le> effect_rank a \<or> r \<le> effect_rank b"
  by (auto simp: join_effect_def)

lemma rank_fold_join:
  "r \<le> effect_rank (fold (join_child m) cs e) \<longleftrightarrow> r \<le> effect_rank e
     \<or> (\<exists>c \<in> set cs. c \<noteq> kInvalidId \<and> c < length (sm_values m) \<and> r \<le> effect_rank (sv_effect (sm_values m ! c)))"
  by (induction cs arbitrary: e) (auto simp: join_child_def rank_join)

lemma rank_of_effect:
  assumes "children_below m" "\<forall>i < length (sm_values m). canonical_at m i"
  shows "i < length (sm_values m) \<Longrightarrow> r \<le> effect_rank (sv_effect (sm_values m ! i)) \<longleftrightarrow>
    (\<exists>j. effect_below m i j \<and> r \<le> effect_rank (base_effect (sv_kind (sm_values m ! j))))"
proof (induction i rule: less_induct)
  case (less i)
  let ?v = "sm_values m ! i"
  have eff: "sv_effect ?v = fold (join_child m) (effect_children m ?v) (base_effect (sv_kind ?v))"
    using assms(2) less.prems by (simp add: canonical_at_def canonical_effect_def Let_def)
  have kid: "r \<le> effect_rank (sv_effect (sm_values m ! c)) \<longleftrightarrow>
      (\<exists>j. effect_below m c j \<and> r \<le> effect_rank (base_effect (sv_kind (sm_values m ! j))))"
    if "c \<in> set (effect_children m ?v)" "c < length (sm_values m)" for c
    using less.IH [of c] that assms(1) less.prems by (simp add: children_below_def)
  show ?case (is "?l \<longleftrightarrow> ?r")
  proof
    assume ?l
    then show ?r unfolding eff rank_fold_join
      using kid effect_here [OF less.prems] effect_child [OF less.prems] by blast
  next
    assume ?r
    then obtain j where j: "effect_below m i j" "r \<le> effect_rank (base_effect (sv_kind (sm_values m ! j)))" by blast
    have "j = i \<or> (\<exists>c \<in> set (effect_children m ?v). c \<noteq> kInvalidId \<and> effect_below m c j)"
      using j(1) by (rule effect_below_cases) auto
    then show ?l
    proof
      assume "j = i"
      then show ?thesis using j(2) by (simp only: eff rank_fold_join simp_thms)
    next
      assume "\<exists>c \<in> set (effect_children m ?v). c \<noteq> kInvalidId \<and> effect_below m c j"
      then obtain c where c: "c \<in> set (effect_children m ?v)" "c \<noteq> kInvalidId" "effect_below m c j" by blast
      have len: "c < length (sm_values m)" using effect_below_valid [OF c(3)] by simp
      have "r \<le> effect_rank (sv_effect (sm_values m ! c))" using kid [OF c(1) len] c(3) j(2) by blast
      then show ?thesis using c(1,2) len unfolding eff rank_fold_join by blast
    qed
  qed
qed

text \<open>C15: The pass is idempotent: on a module it has produced, where the children of a value come
  before it, it changes nothing and reports no rewrite. The compiler runs it before the verifier
  and the analysis runs it again.\<close>

theorem canonicalize_idempotent:
  assumes "canonicalize_for_capability m = (m', r)" "children_below (fst (canonicalize_arg_slices m))"
    "length (sm_args m) < 4294967296" "total_args m < 4294967296"
  shows "canonicalize_for_capability m' = (m', \<lparr>cz_rewritten_values = 0, cz_rewritten_calls = 0\<rparr>)"
proof -
  obtain m1 k where m1: "canonicalize_arg_slices m = (m1, k)" by fastforce
  note parts = canonicalize_parts [OF assms(1,2)]
  have shape: "same_shape m1 m'" using parts(1) m1 by simp
  have len: "length (sm_args m1) < 4294967296 \<and> (sm_args m1 \<noteq> [] \<longrightarrow> slices_tile 0 (sm_values m1) (length (sm_args m1)))"
    using m1 assms(3) arg_slices_tile [OF assms(3,4) m1]
    by (cases "sm_args m = []") (auto simp: canonicalize_arg_slices_def)
  then have "canonicalize_arg_slices m' = (m', 0)"
    using slices_tile_shape [of "sm_values m1" "sm_values m'"] shape
    by (intro arg_slices_idle) (simp_all add: same_shape_def)
  moreover have "fold canonicalize_value [0 ..< length (sm_values m')] (m', 0) = (m', 0)"
    using canonicalize_values_idle [of "length (sm_values m')" m' 0] parts(2) by simp
  ultimately show ?thesis by (simp add: canonicalize_for_capability_def)
qed


text \<open>A module with a call \<open>f(x)\<close>: the slice of the call is moved to the front.\<close>

definition sample_canon :: smodule where
  "sample_canon = new_smodule\<lparr>
     sm_values := [(new_value SvLocal)\<lparr>sv_sym := 7\<rparr>,
       (new_value SvCall)\<lparr>sv_callee_sym := 9, sv_arg_begin := 1, sv_arg_count := 1\<rparr>],
     sm_args := [(new_arg kInvalidId)\<lparr>sa_is_hole := True\<rparr>, new_arg 0]\<rparr>"

lemma sample_canon_facts:
  "children_below (fst (canonicalize_arg_slices sample_canon))" "length (sm_args sample_canon) < 4294967296"
  "total_args sample_canon < 4294967296" "length (sm_values (fst (canonicalize_for_capability sample_canon))) = 2"
  "sv_effect (sm_values (fst (canonicalize_for_capability sample_canon)) ! 1) = EcUnknown"
  "cz_rewritten_values (snd (canonicalize_for_capability sample_canon)) = 2"
proof -
  show "children_below (fst (canonicalize_arg_slices sample_canon))"
    unfolding children_below_def
    by (simp add: sample_canon_def canonicalize_arg_slices_def place_args_def has_args_def new_value_def new_smodule_def new_arg_def
        clamp_arg_slice_def Let_def less_Suc_eq effect_children_def slice_args_def value_args_def slice_def)
qed code_simp+

corollary canonicalize_idempotent_witness:
  "canonicalize_for_capability (fst (canonicalize_for_capability sample_canon)) =
     (fst (canonicalize_for_capability sample_canon), \<lparr>cz_rewritten_values = 0, cz_rewritten_calls = 0\<rparr>)
   \<and> cz_rewritten_values (snd (canonicalize_for_capability sample_canon)) = 2"
  using canonicalize_idempotent [OF prod.collapse [symmetric] sample_canon_facts(1,2,3)] sample_canon_facts(6) by blast

text \<open>After the pass the effect of a value is exact: pure when nothing below it writes or calls,
  unknown when something below it is a call or a constructor, otherwise it may write. Below a value
  are its operands and the arguments of a slice in range, and theirs.\<close>

theorem canonical_effects:
  assumes "canonicalize_for_capability m = (m', r)" "children_below (fst (canonicalize_arg_slices m))"
    "i < length (sm_values m')"
  shows "sv_effect (sm_values m' ! i) =
    (if \<exists>j. effect_below m' i j \<and> sv_kind (sm_values m' ! j) \<in> {SvCall, SvPipeCall, SvEnumCtor} then EcUnknown
     else if \<exists>j. effect_below m' i j \<and> sv_kind (sm_values m' ! j) \<in> {SvAssign, SvPostfixInc, SvEscape} then EcMayWrite
     else EcPure)"
proof -
  note parts = canonicalize_parts [OF assms(1,2)]
  have rank: "r \<le> effect_rank (sv_effect (sm_values m' ! i)) \<longleftrightarrow>
      (\<exists>j. effect_below m' i j \<and> r \<le> effect_rank (base_effect (sv_kind (sm_values m' ! j))))" for r
    using rank_of_effect [OF parts(3) _ assms(3)] parts(2) by blast
  have base: "2 \<le> effect_rank (base_effect k) \<longleftrightarrow> k \<in> {SvCall, SvPipeCall, SvEnumCtor}"
    "1 \<le> effect_rank (base_effect k) \<longleftrightarrow> k \<in> {SvCall, SvPipeCall, SvEnumCtor} \<or> k \<in> {SvAssign, SvPostfixInc, SvEscape}" for k
    by (auto simp: base_effect_def)
  show ?thesis
    using rank [of 2, unfolded base(1)] rank [of 1, unfolded base(2)]
    by (cases "sv_effect (sm_values m' ! i)") (auto simp del: insert_iff)
qed

corollary canonical_effects_witness:
  "sv_effect (sm_values (fst (canonicalize_for_capability sample_canon)) ! 1) =
     (if \<exists>j. effect_below (fst (canonicalize_for_capability sample_canon)) 1 j
          \<and> sv_kind (sm_values (fst (canonicalize_for_capability sample_canon)) ! j) \<in> {SvCall, SvPipeCall, SvEnumCtor} then EcUnknown
      else if \<exists>j. effect_below (fst (canonicalize_for_capability sample_canon)) 1 j
          \<and> sv_kind (sm_values (fst (canonicalize_for_capability sample_canon)) ! j) \<in> {SvAssign, SvPostfixInc, SvEscape} then EcMayWrite
      else EcPure)
   \<and> sv_effect (sm_values (fst (canonicalize_for_capability sample_canon)) ! 1) = EcUnknown"
  using canonical_effects [OF prod.collapse [symmetric] sample_canon_facts(1), of 1] sample_canon_facts(4,5) by simp

text \<open>When the module has arguments, every slice is in range after the pass, so the verifier that
  runs next has nothing to say about slices.\<close>

lemma slices_in_range:
  assumes "canonicalize_for_capability m = (m', r)" "children_below (fst (canonicalize_arg_slices m))"
    "length (sm_args m) < 4294967296" "total_args m < 4294967296" "sm_args m \<noteq> []"
    "v \<in> set (sm_values m')" "has_args (sv_kind v)"
  shows "sv_arg_begin v + sv_arg_count v \<le> length (sm_args m')"
proof -
  obtain m1 k where m1: "canonicalize_arg_slices m = (m1, k)" by fastforce
  have shape: "same_shape m1 m'" using canonicalize_parts(1) [OF assms(1,2)] m1 by simp
  have "slices_tile 0 (sm_values m') (length (sm_args m'))"
    using arg_slices_tile [OF assms(3,4) m1 assms(5)] slices_tile_shape [of "sm_values m1" "sm_values m'"] shape
    by (simp add: same_shape_def)
  from slices_tile_fits [OF this assms(6,7)] show ?thesis .
qed

end
