(* ===== verification/SIR_Handles.thy ===== *)
theory SIR_Handles
  imports SIR_Verify
begin

text \<open>
  The verifier of the escape metadata (\<open>frontend/src/sir/verify/sir_escape_handle_verify.cpp\<close>), with
  its messages, and the well-formedness it decides. The compiler runs it after the capability
  analysis, and the builder of the next representation runs it again.
\<close>

section \<open>Names\<close>

fun boundary_name :: "boundary_kind \<Rightarrow> string" where
  "boundary_name BkNone = ''none''"
| "boundary_name BkReturn = ''return''"
| "boundary_name BkCallArg = ''call_arg''"
| "boundary_name BkAbi = ''abi''"

fun kind_name :: "handle_kind \<Rightarrow> string" where
  "kind_name HkTrivial = ''trivial''"
| "kind_name HkStackSlot = ''stack_slot''"
| "kind_name HkCallerSlot = ''caller_slot''"
| "kind_name HkHeapBox = ''heap_box''"

fun value_form_name :: "handle_form \<Rightarrow> string" where
  "value_form_name FormRValue = ''rvalue''"
| "value_form_name FormCell = ''cell''"
| "value_form_name FormAbiPack = ''abi_pack''"

fun cell_kind_name :: "cell_kind \<Rightarrow> string" where
  "cell_kind_name CellNone = ''none''"
| "cell_kind_name CellLocal = ''local''"
| "cell_kind_name CellField = ''field''"
| "cell_kind_name CellStatic = ''static''"
| "cell_kind_name CellOptional = ''optional''"

fun pack_boundary_name :: "pack_boundary \<Rightarrow> string" where
  "pack_boundary_name PackNone = ''none''"
| "pack_boundary_name PackCallArg = ''call_arg''"
| "pack_boundary_name PackReturn = ''return''"

section \<open>The verifier\<close>

definition build_static_symbols :: "smodule \<Rightarrow> nat set" where
  "build_static_symbols m =
     set (map gv_sym (filter (\<lambda>g. gv_is_static g \<and> gv_sym g \<noteq> kInvalidId) (sm_globals m)))
     \<union> set (map ss_sym (filter (\<lambda>s. ss_kind s = SsVarDecl \<and> ss_is_static s \<and> ss_sym s \<noteq> kInvalidId) (sm_stmts m)))"

text \<open>The rules of the three forms. \<open>pre\<close> is the beginning of every message, \<open>escape-handle #i\<close>.\<close>

definition rvalue_errors :: "string \<Rightarrow> escape_meta \<Rightarrow> string list" where
  "rvalue_errors pre h =
     unless (em_cell_kind h = CellNone \<and> em_pack_boundary h = PackNone \<and> em_cell_commit_count h = 0 \<and> em_abi_pack_count h = 0)
       (pre @ '' form='' @ value_form_name (em_value_form h) @ '' must not record cell/pack accounting'')
     @ unless (em_kind h = HkTrivial \<and> em_boundary h = BkNone \<and> \<not> em_abi_pack_required h)
         (pre @ '' rvalue form must stay trivial and non-packed'')"

definition cell_errors :: "string \<Rightarrow> escape_meta \<Rightarrow> string list" where
  "cell_errors pre h =
     unless (em_cell_kind h \<noteq> CellNone \<and> em_cell_commit_count h \<noteq> 0)
       (pre @ '' cell form requires a concrete cell_kind and nonzero cell_commit_count'' @ '' (got cell_kind=''
         @ cell_kind_name (em_cell_kind h) @ '')'')
     @ unless (em_pack_boundary h = PackNone \<and> em_abi_pack_count h = 0 \<and> \<not> em_abi_pack_required h)
         (pre @ '' cell form must not request ABI packing'')
     @ unless (em_boundary h = BkNone \<and> em_kind h = HkStackSlot)
         (pre @ '' cell form must use boundary=none and kind=stack_slot (got boundary='' @ boundary_name (em_boundary h)
           @ '', kind='' @ kind_name (em_kind h) @ '')'')"

definition pack_errors :: "string \<Rightarrow> escape_meta \<Rightarrow> string list" where
  "pack_errors pre h =
     unless (em_pack_boundary h \<noteq> PackNone \<and> em_abi_pack_count h \<noteq> 0 \<and> em_abi_pack_required h)
       (pre @ '' abi_pack form requires pack_boundary, abi_pack_count, and abi_pack_required=true'')
     @ unless (em_cell_kind h = CellNone \<and> em_cell_commit_count h = 0)
         (pre @ '' abi_pack form must not record cell commit accounting'')
     @ unless (((em_boundary h = BkReturn \<and> em_pack_boundary h = PackReturn)
                \<or> (em_boundary h = BkCallArg \<and> em_pack_boundary h = PackCallArg)) \<and> em_kind h = HkCallerSlot)
         (pre @ '' abi_pack form requires matching return/call_arg boundary and kind=caller_slot'' @ '' (got boundary=''
           @ boundary_name (em_boundary h) @ '', pack_boundary='' @ pack_boundary_name (em_pack_boundary h)
           @ '', kind='' @ kind_name (em_kind h) @ '')'')"

definition form_errors :: "string \<Rightarrow> escape_meta \<Rightarrow> string list" where
  "form_errors pre h =
     (case em_value_form h of FormRValue \<Rightarrow> rvalue_errors pre h | FormCell \<Rightarrow> cell_errors pre h | FormAbiPack \<Rightarrow> pack_errors pre h)"

text \<open>One entry: the flags of the values that have metadata, and the messages.\<close>

definition check_handle :: "smodule \<Rightarrow> nat set \<Rightarrow> nat \<Rightarrow> bool list \<times> string list \<Rightarrow> bool list \<times> string list" where
  "check_handle m statics i st =
     (let (has_meta, errs) = st; h = sm_escape_handles m ! i; pre = ''escape-handle #'' @ dec i in
      if em_escape_value h = kInvalidId \<or> length (sm_values m) \<le> em_escape_value h
      then (has_meta, errs @ [pre @ '' has invalid value id '' @ dec (em_escape_value h)])
      else
        let is_escape = (sv_kind (sm_values m ! em_escape_value h) = SvEscape) in
        (if is_escape then has_meta[em_escape_value h := True] else has_meta,
         errs @ unless is_escape (pre @ '' points to non-escape value #'' @ dec (em_escape_value h))
         @ unless (em_from_static h \<longrightarrow> em_origin_sym h \<noteq> kInvalidId \<and> em_origin_sym h \<in> statics)
             (pre @ '' marked from_static=true but origin symbol is not static'')
         @ unless (em_kind h \<noteq> HkHeapBox) (pre @ '' uses heap_box kind, which is forbidden in v0'')
         @ form_errors pre h))"

definition verify_escape_handles :: "smodule \<Rightarrow> string list" where
  "verify_escape_handles m =
     (let (has_meta, errs) = fold (check_handle m (build_static_symbols m)) [0 ..< length (sm_escape_handles m)]
            (replicate (length (sm_values m)) False, [])
      in errs @ concat (map (\<lambda>vid. unless (sv_kind (sm_values m ! vid) = SvEscape \<longrightarrow> has_meta ! vid)
                  (''escape value #'' @ dec vid @ '' has no EscapeHandle metadata'')) [0 ..< length (sm_values m)]))"

section \<open>What it decides\<close>

text \<open>The three shapes an entry can have.\<close>

definition handle_form_ok :: "escape_meta \<Rightarrow> bool" where
  "handle_form_ok h \<longleftrightarrow>
     (em_value_form h = FormRValue \<and> em_kind h = HkTrivial \<and> em_boundary h = BkNone \<and> em_pack_boundary h = PackNone
        \<and> em_cell_kind h = CellNone \<and> em_cell_commit_count h = 0 \<and> em_abi_pack_count h = 0 \<and> \<not> em_abi_pack_required h)
     \<or> (em_value_form h = FormCell \<and> em_kind h = HkStackSlot \<and> em_boundary h = BkNone \<and> em_pack_boundary h = PackNone
        \<and> em_cell_kind h \<noteq> CellNone \<and> em_cell_commit_count h \<noteq> 0 \<and> em_abi_pack_count h = 0 \<and> \<not> em_abi_pack_required h)
     \<or> (em_value_form h = FormAbiPack \<and> em_kind h = HkCallerSlot
        \<and> (em_boundary h, em_pack_boundary h) \<in> {(BkReturn, PackReturn), (BkCallArg, PackCallArg)}
        \<and> em_cell_kind h = CellNone \<and> em_cell_commit_count h = 0 \<and> em_abi_pack_count h \<noteq> 0 \<and> em_abi_pack_required h)"

definition handle_ok :: "smodule \<Rightarrow> escape_meta \<Rightarrow> bool" where
  "handle_ok m h \<longleftrightarrow> sir_valid_value m (em_escape_value h) \<and> sv_kind (sm_values m ! em_escape_value h) = SvEscape
     \<and> (em_from_static h \<longrightarrow> em_origin_sym h \<in> build_static_symbols m) \<and> handle_form_ok h"

definition escapes_covered :: "smodule \<Rightarrow> bool" where
  "escapes_covered m \<longleftrightarrow> (\<forall>i < length (sm_values m). sv_kind (sm_values m ! i) = SvEscape \<longrightarrow>
     i \<in> em_escape_value ` set (sm_escape_handles m))"

lemma statics_valid: "s \<in> build_static_symbols m \<Longrightarrow> s \<noteq> kInvalidId"
  by (auto simp: build_static_symbols_def)

lemma form_errors_Nil: "em_kind h \<noteq> HkHeapBox \<and> form_errors pre h = [] \<longleftrightarrow> handle_form_ok h"
  by (cases "em_value_form h")
    (auto simp: form_errors_def rvalue_errors_def cell_errors_def pack_errors_def handle_form_ok_def)

text \<open>One entry adds no message exactly when it is in order, and marks its value.\<close>

lemma check_handle_step:
  assumes "length has_meta = length (sm_values m)" "check_handle m (build_static_symbols m) i (has_meta, errs) = (has_meta', errs')"
  shows "length has_meta' = length (sm_values m)" "errs' = [] \<longleftrightarrow> errs = [] \<and> handle_ok m (sm_escape_handles m ! i)"
    "handle_ok m (sm_escape_handles m ! i) \<Longrightarrow> j < length (sm_values m) \<Longrightarrow>
       has_meta' ! j \<longleftrightarrow> has_meta ! j \<or> j = em_escape_value (sm_escape_handles m ! i)"
proof -
  define h where "h = sm_escape_handles m ! i"
  define pre where "pre = ''escape-handle #'' @ dec i"
  note step = assms(2) [unfolded check_handle_def Let_def prod.case, folded h_def, folded pre_def]
  have bad: "handle_ok m h \<Longrightarrow> \<not> (em_escape_value h = kInvalidId \<or> length (sm_values m) \<le> em_escape_value h)"
    by (auto simp: handle_ok_def sir_valid_value_def)
  show "length has_meta' = length (sm_values m)" using step assms(1) by (auto split: if_splits)
  show "errs' = [] \<longleftrightarrow> errs = [] \<and> handle_ok m (sm_escape_handles m ! i)"
  proof (cases "em_escape_value h = kInvalidId \<or> length (sm_values m) \<le> em_escape_value h")
    case True
    then show ?thesis using step bad unfolding h_def [symmetric] by auto
  next
    case False
    let ?esc = "sv_kind (sm_values m ! em_escape_value h) = SvEscape"
    let ?static = "em_from_static h \<longrightarrow> em_origin_sym h \<noteq> kInvalidId \<and> em_origin_sym h \<in> build_static_symbols m"
    have "errs' = errs @ unless ?esc (pre @ '' points to non-escape value #'' @ dec (em_escape_value h))
        @ unless ?static (pre @ '' marked from_static=true but origin symbol is not static'')
        @ (unless (em_kind h \<noteq> HkHeapBox) (pre @ '' uses heap_box kind, which is forbidden in v0'') @ form_errors pre h)"
      using step False by (simp only: if_False prod.inject)
    then have "errs' = [] \<longleftrightarrow> errs = [] \<and> ?esc \<and> ?static \<and> handle_form_ok h"
      using form_errors_Nil [of h pre] by (simp only: append_is_Nil_conv unless_Nil)
    then show ?thesis
      using False statics_valid by (auto simp: h_def [symmetric] handle_ok_def sir_valid_value_def)
  qed
  assume "handle_ok m (sm_escape_handles m ! i)" "j < length (sm_values m)"
  then show "has_meta' ! j \<longleftrightarrow> has_meta ! j \<or> j = em_escape_value (sm_escape_handles m ! i)"
    using step bad assms(1) unfolding h_def [symmetric]
    by (auto simp: handle_ok_def nth_list_update split: if_splits)
qed

lemma check_handles:
  assumes "fold (check_handle m (build_static_symbols m)) [0 ..< n] (replicate (length (sm_values m)) False, []) = (has_meta, errs)"
    "n \<le> length (sm_escape_handles m)"
  shows "length has_meta = length (sm_values m) \<and> (errs = [] \<longleftrightarrow> (\<forall>h \<in> set (take n (sm_escape_handles m)). handle_ok m h))
    \<and> (errs = [] \<longrightarrow> (\<forall>j < length (sm_values m). has_meta ! j \<longleftrightarrow> j \<in> em_escape_value ` set (take n (sm_escape_handles m))))"
  using assms
proof (induction n arbitrary: has_meta errs)
  case (Suc n)
  obtain hm es where prev: "fold (check_handle m (build_static_symbols m)) [0 ..< n] (replicate (length (sm_values m)) False, []) = (hm, es)"
    by fastforce
  have step: "check_handle m (build_static_symbols m) n (hm, es) = (has_meta, errs)" using Suc.prems(1) prev by simp
  note IH = Suc.IH [OF prev Suc_leD [OF Suc.prems(2)]]
  note now = check_handle_step [OF conjunct1 [OF IH] step]
  have take: "set (take (Suc n) (sm_escape_handles m)) = insert (sm_escape_handles m ! n) (set (take n (sm_escape_handles m)))"
    using Suc.prems(2) by (simp add: take_Suc_conv_app_nth)
  show ?case unfolding take using IH now by auto
qed auto

lemma verify_handles_iff:
  "verify_escape_handles m = [] \<longleftrightarrow> (\<forall>h \<in> set (sm_escape_handles m). handle_ok m h) \<and> escapes_covered m"
proof -
  obtain has_meta errs where run: "fold (check_handle m (build_static_symbols m)) [0 ..< length (sm_escape_handles m)]
      (replicate (length (sm_values m)) False, []) = (has_meta, errs)" by fastforce
  have "verify_escape_handles m = [] \<longleftrightarrow> errs = [] \<and> (\<forall>i < length (sm_values m). sv_kind (sm_values m ! i) = SvEscape \<longrightarrow> has_meta ! i)"
    unfolding verify_escape_handles_def run by (auto simp: Let_def)
  then show ?thesis using check_handles [OF run order_refl] by (auto simp: escapes_covered_def)
qed

definition wf_handles :: "smodule \<Rightarrow> bool" where
  "wf_handles m \<longleftrightarrow> (\<forall>h \<in> set (sm_escape_handles m). handle_ok m h) \<and> escapes_covered m"

text \<open>C16: The verifier of the escape metadata is silent exactly when every entry belongs to an escape
  value, claims static origin only for a static symbol and has one of the three allowed shapes, and
  every escape value of the module has an entry.\<close>

theorem verify_escape_handles_iff: "verify_escape_handles m = [] \<longleftrightarrow> wf_handles m"
  by (simp add: verify_handles_iff wf_handles_def)

text \<open>When the entries are in order, the only messages are about escape values without an entry.\<close>

lemma verify_handles_only_missing:
  assumes "\<forall>h \<in> set (sm_escape_handles m). handle_ok m h" "msg \<in> set (verify_escape_handles m)"
  shows "\<exists>i < length (sm_values m). sv_kind (sm_values m ! i) = SvEscape \<and> i \<notin> em_escape_value ` set (sm_escape_handles m)
    \<and> msg = ''escape value #'' @ dec i @ '' has no EscapeHandle metadata''"
proof -
  obtain has_meta errs where run: "fold (check_handle m (build_static_symbols m)) [0 ..< length (sm_escape_handles m)]
      (replicate (length (sm_values m)) False, []) = (has_meta, errs)" by fastforce
  have "errs = []" using check_handles [OF run order_refl] assms(1) by simp
  then show ?thesis
    using assms(2) check_handles [OF run order_refl] unfolding verify_escape_handles_def run
    by (auto simp: Let_def unless_def split: if_splits)
qed

end
