(* ===== verification/SIR_Mut.thy ===== *)
theory SIR_Mut
  imports SIR
begin

text \<open>
  The mutability analysis (\<open>frontend/src/sir/analysis/mut_analysis.cpp\<close>): which symbols are written, and
  a diagnostic for a write to one that is not declared \<open>mut\<close>. \<open>by_symbol\<close> is a map, the bag the
  list of the diagnostics in order. \<open>root_written_symbol\<close> recurses without a guard; \<open>None\<close> stands
  for a recursion that does not end, which is when it comes to a value a second time.
\<close>

section \<open>Diagnostics\<close>

text \<open>The codes the analyses of this representation report; any other code is only carried along.\<close>

datatype diag_code =
    WriteToImmutable
  | SirUseAfterEscapeMove | SirEscapeBoundaryViolation
  | BorrowMutDirectAccessConflict | BorrowSharedWriteConflict | BorrowEscapeToStorage | BorrowEscapeFromReturn
  | BorrowOperandMustBePlace | BorrowOperandMustBeOwnedPlace | BorrowMutRequiresMutablePlace
  | BorrowMutConflict | BorrowMutConflictWithShared | BorrowSharedConflictWithMut
  | EscapeOperandMustBePlace | TypeEscapeNotAllowedInPureComptime | EscapeOperandMustNotBeBorrow
  | EscapeWhileMutBorrowActive | EscapeWhileBorrowActive
  | OtherCode string

record sdiag =
  dg_code :: diag_code
  dg_span :: source_span
  dg_args :: "string list"
  dg_notes :: "string list"
  dg_helps :: "string list"

section \<open>The analysis\<close>

record mut_info =
  mi_declared_mut :: bool
  mi_is_set :: bool
  mi_ever_written :: bool
  mi_illegal_write :: bool

definition new_mut_info :: mut_info where
  "new_mut_info = \<lparr>mi_declared_mut = False, mi_is_set = False, mi_ever_written = False, mi_illegal_write = False\<rparr>"

definition is_mut_borrow_type :: "type_pool \<Rightarrow> nat \<Rightarrow> bool" where
  "is_mut_borrow_type types t =
     (t \<noteq> kInvalidId \<and> t < length (tp_types types)
      \<and> (let tt = tp_types types ! t in ty_kind tt = KBorrow \<and> ty_borrow_is_mut tt))"

definition is_write_through_mut_borrow_lhs :: "smodule \<Rightarrow> type_pool \<Rightarrow> nat \<Rightarrow> bool" where
  "is_write_through_mut_borrow_lhs m types lhs =
     (lhs \<noteq> kInvalidId \<and> lhs < length (sm_values m)
      \<and> (let v = sm_values m ! lhs in
         if sv_kind v = SvLocal then is_mut_borrow_type types (sv_type v)
         else if sv_kind v \<in> {SvIndex, SvField}
         then sv_a v \<noteq> kInvalidId \<and> sv_a v < length (sm_values m) \<and> is_mut_borrow_type types (sv_type (sm_values m ! sv_a v))
         else False))"

function root_written_symbol :: "smodule \<Rightarrow> nat \<Rightarrow> nat set \<Rightarrow> nat option option" where
  "root_written_symbol m lhs met =
     (if lhs = kInvalidId \<or> length (sm_values m) \<le> lhs then Some None
      else if lhs \<in> met then None
      else
        let v = sm_values m ! lhs in
        if sv_kind v = SvLocal \<and> sv_sym v \<noteq> kInvalidId then Some (Some (sv_sym v))
        else if sv_kind v \<in> {SvIndex, SvField} then root_written_symbol m (sv_a v) (insert lhs met)
        else Some None)"
  by pat_completeness simp

termination root_written_symbol
  by (relation "measure (\<lambda>(m, lhs, met). card ({..< length (sm_values m)} - met))", simp)
    (simp only: in_measure prod.case, rule visiting_decreases)

declare root_written_symbol.simps [simp del]

record mut_state =
  ms_by_symbol :: "nat \<Rightarrow> mut_info option"
  ms_bag :: "sdiag list"

definition info_of :: "mut_state \<Rightarrow> nat \<Rightarrow> mut_info" where
  "info_of st sid = (case ms_by_symbol st sid of None \<Rightarrow> new_mut_info | Some i \<Rightarrow> i)"

definition put_info :: "nat \<Rightarrow> mut_info \<Rightarrow> mut_state \<Rightarrow> mut_state" where
  "put_info sid i st = st\<lparr>ms_by_symbol := (ms_by_symbol st)(sid \<mapsto> i)\<rparr>"

definition collect_decl :: "sstmt \<Rightarrow> mut_state \<Rightarrow> mut_state" where
  "collect_decl s st =
     (if ss_kind s \<noteq> SsVarDecl \<or> ss_sym s = kInvalidId then st
      else put_info (ss_sym s) ((info_of st (ss_sym s))\<lparr>mi_declared_mut := ss_is_mut s, mi_is_set := ss_is_set s\<rparr>) st)"

definition report_illegal :: "source_span \<Rightarrow> string \<Rightarrow> mut_state \<Rightarrow> mut_state" where
  "report_illegal sp what st =
     (if \<exists>d \<in> set (ms_bag st). dg_code d = WriteToImmutable \<and> dg_span d = sp then st
      else st\<lparr>ms_bag := ms_bag st @ [\<lparr>dg_code = WriteToImmutable, dg_span = sp, dg_args = [what], dg_notes = [], dg_helps = []\<rparr>]\<rparr>)"

definition write_what :: "svalue \<Rightarrow> string option" where
  "write_what v = (if sv_kind v = SvAssign then Some ''assignment'' else if sv_kind v = SvPostfixInc then Some ''postfix++'' else None)"

definition visit_value :: "smodule \<Rightarrow> type_pool \<Rightarrow> svalue \<Rightarrow> mut_state \<Rightarrow> mut_state option" where
  "visit_value m types v st =
     (case write_what v of
        None \<Rightarrow> Some st
      | Some what \<Rightarrow>
          (case root_written_symbol m (sv_a v) {} of
             None \<Rightarrow> None
           | Some None \<Rightarrow> Some st
           | Some (Some sid) \<Rightarrow>
               let info = (info_of st sid)\<lparr>mi_ever_written := True\<rparr> in
               if \<not> mi_declared_mut info \<and> \<not> is_write_through_mut_borrow_lhs m types (sv_a v)
               then Some (report_illegal (sv_span v) what (put_info sid (info\<lparr>mi_illegal_write := True\<rparr>) st))
               else Some (put_info sid info st)))"

fun visit_values :: "smodule \<Rightarrow> type_pool \<Rightarrow> svalue list \<Rightarrow> mut_state \<Rightarrow> mut_state option" where
  "visit_values m types [] st = Some st"
| "visit_values m types (v # vs) st = Option.bind (visit_value m types v st) (visit_values m types vs)"

definition analyze_mut :: "smodule \<Rightarrow> type_pool \<Rightarrow> sdiag list \<Rightarrow> mut_state option" where
  "analyze_mut m types bag =
     visit_values m types (sm_values m) (fold collect_decl (sm_stmts m) \<lparr>ms_by_symbol = Map.empty, ms_bag = bag\<rparr>)"

section \<open>What it finds\<close>

text \<open>The last declaration of a symbol decides; a symbol without one is not \<open>mut\<close>.\<close>

definition declares_mut :: "smodule \<Rightarrow> nat \<Rightarrow> bool" where
  "declares_mut m sid =
     (case find (\<lambda>s. ss_kind s = SsVarDecl \<and> ss_sym s = sid) (rev (sm_stmts m)) of None \<Rightarrow> False | Some s \<Rightarrow> ss_is_mut s)"

text \<open>The value writes to a place of the symbol.\<close>

definition writes_to :: "smodule \<Rightarrow> svalue \<Rightarrow> nat \<Rightarrow> bool" where
  "writes_to m v sid \<longleftrightarrow> write_what v \<noteq> None \<and> root_written_symbol m (sv_a v) {} = Some (Some sid)"

definition illegal_write :: "smodule \<Rightarrow> type_pool \<Rightarrow> svalue \<Rightarrow> nat \<Rightarrow> bool" where
  "illegal_write m types v sid \<longleftrightarrow>
     writes_to m v sid \<and> \<not> declares_mut m sid \<and> \<not> is_write_through_mut_borrow_lhs m types (sv_a v)"

definition write_diag_spans :: "sdiag list \<Rightarrow> source_span list" where
  "write_diag_spans bag = map dg_span (filter (\<lambda>d. dg_code d = WriteToImmutable) bag)"

lemma info_put [simp]: "info_of (put_info sid i st) sid2 = (if sid2 = sid then i else info_of st sid2)"
  by (simp add: info_of_def put_info_def)

lemma info_report [simp]: "info_of (report_illegal sp what st) sid = info_of st sid"
  by (simp add: info_of_def report_illegal_def)

lemma bag_put [simp]: "ms_bag (put_info sid i st) = ms_bag st"
  by (simp add: put_info_def)

lemma spans_report:
  "write_diag_spans (ms_bag (report_illegal sp what st)) =
     (if sp \<in> set (write_diag_spans (ms_bag st)) then write_diag_spans (ms_bag st) else write_diag_spans (ms_bag st) @ [sp])"
  by (auto simp: report_illegal_def write_diag_spans_def)

lemma collect_decls:
  "mi_declared_mut (info_of (fold collect_decl ss st) sid) =
     (case find (\<lambda>s. ss_kind s = SsVarDecl \<and> ss_sym s = sid) (rev ss) of
        None \<Rightarrow> mi_declared_mut (info_of st sid) | Some s \<Rightarrow> sid \<noteq> kInvalidId \<and> ss_is_mut s \<or> sid = kInvalidId \<and> mi_declared_mut (info_of st sid))
   \<and> mi_ever_written (info_of (fold collect_decl ss st) sid) = mi_ever_written (info_of st sid)
   \<and> mi_illegal_write (info_of (fold collect_decl ss st) sid) = mi_illegal_write (info_of st sid)
   \<and> ms_bag (fold collect_decl ss st) = ms_bag st"
  by (induction ss rule: rev_induct) (auto simp: collect_decl_def split: option.splits)

lemma root_written_valid: "root_written_symbol m lhs met = Some (Some sid) \<Longrightarrow> sid \<noteq> kInvalidId"
proof (induction m lhs met rule: root_written_symbol.induct)
  case (1 m lhs met)
  show ?case
    using "1.prems" "1.IH" [OF _ _ refl] by (subst (asm) root_written_symbol.simps) (auto simp: Let_def split: if_splits)
qed

text \<open>One value.\<close>

definition mut_sound :: "smodule \<Rightarrow> mut_state \<Rightarrow> bool" where
  "mut_sound m st \<longleftrightarrow> (\<forall>sid. sid \<noteq> kInvalidId \<longrightarrow> mi_declared_mut (info_of st sid) = declares_mut m sid)"

lemma visit_value_step:
  assumes "visit_value m types v st = Some st'" "mut_sound m st"
  shows "mut_sound m st'"
    "mi_ever_written (info_of st' sid) \<longleftrightarrow> mi_ever_written (info_of st sid) \<or> writes_to m v sid"
    "mi_illegal_write (info_of st' sid) \<longleftrightarrow> mi_illegal_write (info_of st sid) \<or> illegal_write m types v sid"
    "write_diag_spans (ms_bag st') = (if (\<exists>s. illegal_write m types v s) \<and> sv_span v \<notin> set (write_diag_spans (ms_bag st))
       then write_diag_spans (ms_bag st) @ [sv_span v] else write_diag_spans (ms_bag st))"
proof -
  note defs = visit_value_def writes_to_def illegal_write_def mut_sound_def Let_def
  have valid: "root_written_symbol m (sv_a v) {} = Some (Some s) \<Longrightarrow> mi_declared_mut (info_of st s) = declares_mut m s" for s
    using root_written_valid assms(2) by (simp add: mut_sound_def)
  show "mut_sound m st'"
    using assms by (auto simp: defs split: option.splits if_splits)
  show "mi_ever_written (info_of st' sid) \<longleftrightarrow> mi_ever_written (info_of st sid) \<or> writes_to m v sid"
    using assms(1) by (auto simp: defs split: option.splits if_splits)
  show "mi_illegal_write (info_of st' sid) \<longleftrightarrow> mi_illegal_write (info_of st sid) \<or> illegal_write m types v sid"
    using assms(1) valid by (auto simp: defs split: option.splits if_splits)
  show "write_diag_spans (ms_bag st') = (if (\<exists>s. illegal_write m types v s) \<and> sv_span v \<notin> set (write_diag_spans (ms_bag st))
       then write_diag_spans (ms_bag st) @ [sv_span v] else write_diag_spans (ms_bag st))"
    using assms(1) valid by (auto simp: defs spans_report split: option.splits if_splits)
qed

lemma visit_values_all:
  assumes "visit_values m types vs st = Some st'" "mut_sound m st"
  shows "(mi_ever_written (info_of st' sid) \<longleftrightarrow> mi_ever_written (info_of st sid) \<or> (\<exists>v \<in> set vs. writes_to m v sid))
    \<and> (mi_illegal_write (info_of st' sid) \<longleftrightarrow> mi_illegal_write (info_of st sid) \<or> (\<exists>v \<in> set vs. illegal_write m types v sid))
    \<and> set (write_diag_spans (ms_bag st')) = set (write_diag_spans (ms_bag st)) \<union> {sv_span v | v s. v \<in> set vs \<and> illegal_write m types v s}
    \<and> (distinct (write_diag_spans (ms_bag st)) \<longrightarrow> distinct (write_diag_spans (ms_bag st')))"
  using assms
proof (induction vs arbitrary: st)
  case (Cons v vs)
  obtain st1 where st1: "visit_value m types v st = Some st1" "visit_values m types vs st1 = Some st'"
    using Cons.prems(1) by (auto simp: bind_eq_Some_conv)
  note step = visit_value_step [OF st1(1) Cons.prems(2)]
  note IH = Cons.IH [OF st1(2) step(1)]
  have spans: "set (write_diag_spans (ms_bag st1)) = set (write_diag_spans (ms_bag st))
      \<union> {sv_span w | w s. w = v \<and> illegal_write m types w s}" using step(4) by auto
  have "distinct (write_diag_spans (ms_bag st)) \<longrightarrow> distinct (write_diag_spans (ms_bag st1))" using step(4) by auto
  moreover have "set (write_diag_spans (ms_bag st')) = set (write_diag_spans (ms_bag st))
      \<union> {sv_span w | w s. w \<in> set (v # vs) \<and> illegal_write m types w s}"
    using IH spans by auto
  ultimately show ?case using IH step(2,3) [of sid] by auto
qed simp

text \<open>C17: The analysis marks a symbol as written exactly when an assignment or an increment of the
  module writes to a place of it, and as illegally written exactly when such a write is neither to
  a symbol whose last declaration is mutable nor through a mutable borrow. It reports every place of
  such a write, and each once when the bag did not already repeat itself.\<close>

theorem analyze_mut_exact:
  assumes "analyze_mut m types bag = Some st"
  shows "(mi_ever_written (info_of st sid) \<longleftrightarrow> (\<exists>v \<in> set (sm_values m). writes_to m v sid))
    \<and> (mi_illegal_write (info_of st sid) \<longleftrightarrow> (\<exists>v \<in> set (sm_values m). illegal_write m types v sid))
    \<and> set (write_diag_spans (ms_bag st)) = set (write_diag_spans bag)
        \<union> {sv_span v | v s. v \<in> set (sm_values m) \<and> illegal_write m types v s}
    \<and> (distinct (write_diag_spans bag) \<longrightarrow> distinct (write_diag_spans (ms_bag st)))"
proof -
  let ?st0 = "fold collect_decl (sm_stmts m) \<lparr>ms_by_symbol = Map.empty, ms_bag = bag\<rparr>"
  have start: "mi_declared_mut (info_of \<lparr>ms_by_symbol = Map.empty, ms_bag = bag\<rparr> s) = False"
    "mi_ever_written (info_of \<lparr>ms_by_symbol = Map.empty, ms_bag = bag\<rparr> s) = False"
    "mi_illegal_write (info_of \<lparr>ms_by_symbol = Map.empty, ms_bag = bag\<rparr> s) = False" for s
    by (simp_all add: info_of_def new_mut_info_def)
  have "mut_sound m ?st0"
    using collect_decls [of "sm_stmts m" "\<lparr>ms_by_symbol = Map.empty, ms_bag = bag\<rparr>"]
    by (auto simp: mut_sound_def declares_mut_def start split: option.splits)
  from visit_values_all [OF assms [unfolded analyze_mut_def] this, of sid]
  show ?thesis
    using collect_decls [of "sm_stmts m" "\<lparr>ms_by_symbol = Map.empty, ms_bag = bag\<rparr>" sid] start by simp
qed

text \<open>Where the base of an index or a field comes before it, the recursion ends.\<close>

lemma root_written_returns:
  assumes "\<forall>i < length (sm_values m). sv_kind (sm_values m ! i) \<in> {SvIndex, SvField} \<longrightarrow>
     sv_a (sm_values m ! i) < i \<or> length (sm_values m) \<le> sv_a (sm_values m ! i)"
  shows "(\<forall>k \<in> met. lhs < k) \<Longrightarrow> root_written_symbol m lhs met \<noteq> None"
proof (induction lhs arbitrary: met rule: less_induct)
  case (less lhs)
  let ?v = "sm_values m ! lhs"
  have "lhs \<notin> met" using less.prems by auto
  moreover have "root_written_symbol m (sv_a ?v) (insert lhs met) \<noteq> None"
    if "lhs < length (sm_values m)" "sv_kind ?v \<in> {SvIndex, SvField}"
  proof (cases "sv_a ?v < lhs")
    case True
    then have "\<forall>k \<in> insert lhs met. sv_a ?v < k" using less.prems by (auto intro: less_trans)
    then show ?thesis using less.IH [OF True] by blast
  next
    case False
    then show ?thesis using assms that by (subst root_written_symbol.simps) auto
  qed
  ultimately show ?case by (subst root_written_symbol.simps) (auto simp: Let_def)
qed

text \<open>The analysis sees the declarations of statements only: a module-level variable or a
  parameter is never \<open>mut\<close> to this one, although \<open>GlobalVarDecl\<close> and \<open>Param\<close> carry the flag.\<close>

definition write_to_global :: smodule where
  "write_to_global = new_smodule\<lparr>
     sm_values := [(new_value SvLocal)\<lparr>sv_sym := 3\<rparr>, new_value SvIntLit, (new_value SvAssign)\<lparr>sv_a := 0, sv_b := 1\<rparr>],
     sm_params := [\<lparr>pm_name = ''p'', pm_type = 0, pm_is_mut = True, pm_is_self = False, pm_has_default = False,
       pm_default_value = kInvalidId, pm_is_named_group = False, pm_sym = 3, pm_span = no_span\<rparr>]\<rparr>"

lemma analyze_mut_ignores_params:
  "map_option (\<lambda>st. (mi_illegal_write (info_of st 3), map dg_code (ms_bag st))) (analyze_mut write_to_global new_pool [])
     = Some (True, [WriteToImmutable])"
  by code_simp

corollary analyze_mut_exact_witness:
  "\<exists>st. analyze_mut write_to_global new_pool [] = Some st
    \<and> (mi_illegal_write (info_of st 3) \<longleftrightarrow> (\<exists>v \<in> set (sm_values write_to_global). illegal_write write_to_global new_pool v 3))
    \<and> mi_illegal_write (info_of st 3)"
proof -
  obtain st where st: "analyze_mut write_to_global new_pool [] = Some st" "mi_illegal_write (info_of st 3)"
    using analyze_mut_ignores_params by auto
  show ?thesis using analyze_mut_exact [OF st(1), of 3] st by blast
qed

end
