(* ===== verification/SIR_Place.thy ===== *)
theory SIR_Place
  imports SIR
begin

text \<open>
  The queries of the capability analysis (\<open>frontend/src/sir/analysis/capability_analysis.cpp\<close>): what kind
  of type a value has, which place it names and when two places can overlap. A place is a root
  symbol and the projections from it; an index is known when it is an integer literal.
  The recursions over the base of a place have no guard in the source: \<open>None\<close> stands for one that
  does not end, which is when it comes to a value a second time.
\<close>

section \<open>Types\<close>

definition has_kind :: "type_pool \<Rightarrow> type_kind \<Rightarrow> nat \<Rightarrow> bool" where
  "has_kind types k t = (t \<noteq> kInvalidId \<and> t < length (tp_types types) \<and> ty_kind (tp_types types ! t) = k)"

definition is_borrow_type :: "type_pool \<Rightarrow> nat \<Rightarrow> bool" where
  "is_borrow_type types t = has_kind types KBorrow t"

definition is_escape_type :: "type_pool \<Rightarrow> nat \<Rightarrow> bool" where
  "is_escape_type types t = has_kind types KEscape t"

definition is_optional_escape_type :: "type_pool \<Rightarrow> nat \<Rightarrow> bool" where
  "is_optional_escape_type types t = (has_kind types KOptional t \<and> has_kind types KEscape (ty_elem (tp_types types ! t)))"

definition find_field_decl :: "smodule \<Rightarrow> nat \<Rightarrow> field_decl option" where
  "find_field_decl m self_ty = find (\<lambda>f. fd_self_type f = self_ty) (sm_fields m)"

text \<open>The types of the members; none when the 32-bit end of the range is out of order.\<close>

definition member_types :: "smodule \<Rightarrow> field_decl \<Rightarrow> nat list" where
  "member_types m layout =
     (let mb = fd_member_begin layout; me = u32 (mb + fd_member_count layout); n = length (sm_field_members m) in
      if mb > n \<or> me > n \<or> mb > me then [] else map (\<lambda>i. fm_type (sm_field_members m ! i)) [mb ..< me])"

text \<open>The search of \<open>type_contains_escape_\<close> carries the set of the types met. The loop over the
  members stops at the first that contains an escape.\<close>

fun any_member :: "(nat \<Rightarrow> nat set \<Rightarrow> bool \<times> nat set) \<Rightarrow> nat list \<Rightarrow> nat set \<Rightarrow> bool \<times> nat set" where
  "any_member rec [] visiting = (False, visiting)"
| "any_member rec (t # ts) visiting =
     (let (found, visiting') = rec t visiting in if found then (True, visiting') else any_member rec ts visiting')"

primrec contains_escape_rec :: "nat \<Rightarrow> smodule \<Rightarrow> type_pool \<Rightarrow> nat \<Rightarrow> nat set \<Rightarrow> bool \<times> nat set" where
  "contains_escape_rec 0 m types cur visiting = (False, visiting)"
| "contains_escape_rec (Suc n) m types cur visiting =
     (if cur = kInvalidId \<or> length (tp_types types) \<le> cur \<or> cur \<in> visiting then (False, visiting)
      else
        let tt = tp_types types ! cur; met = insert cur visiting in
        if ty_kind tt = KEscape then (True, met)
        else if ty_kind tt \<in> {KOptional, KArray}
        then (if ty_elem tt = kInvalidId then (False, met) else contains_escape_rec n m types (ty_elem tt) met)
        else if ty_kind tt = KNamedUser
        then (case find_field_decl m cur of None \<Rightarrow> (False, met)
              | Some layout \<Rightarrow> any_member (contains_escape_rec n m types) (member_types m layout) met)
        else (False, met))"

definition type_contains_escape :: "smodule \<Rightarrow> type_pool \<Rightarrow> nat \<Rightarrow> bool" where
  "type_contains_escape m types t = fst (contains_escape_rec (Suc (length (tp_types types))) m types t {})"

text \<open>A cycle of optionals and arrays does not end; a pool has none, since the element comes first.\<close>

function type_needs_drop :: "type_pool \<Rightarrow> nat \<Rightarrow> nat set \<Rightarrow> bool option" where
  "type_needs_drop types t met =
     (if t = kInvalidId \<or> length (tp_types types) \<le> t then Some False
      else if t \<in> met then None
      else
        let tt = tp_types types ! t in
        if ty_kind tt \<in> {KError, KBuiltin, KBorrow, KEscape, KPtr, KFn} then Some False
        else if ty_kind tt \<in> {KOptional, KArray} then type_needs_drop types (ty_elem tt) (insert t met)
        else Some True)"
  by pat_completeness simp

termination type_needs_drop
  by (relation "measure (\<lambda>(types, t, met). card ({..< length (tp_types types)} - met))", simp)
    (simp only: in_measure prod.case, rule visiting_decreases)

declare type_needs_drop.simps [simp del]

section \<open>Values\<close>

definition value_type :: "smodule \<Rightarrow> nat \<Rightarrow> nat" where
  "value_type m vid = (if vid = kInvalidId \<or> length (sm_values m) \<le> vid then kInvalidId else sv_type (sm_values m ! vid))"

definition is_place_value :: "smodule \<Rightarrow> nat \<Rightarrow> bool" where
  "is_place_value m vid =
     (vid \<noteq> kInvalidId \<and> vid < length (sm_values m)
      \<and> (let v = sm_values m ! vid in sv_place v \<in> {PlLocal, PlIndex, PlField} \<or> sv_kind v \<in> {SvField, SvGlobal}))"

definition is_slice_borrow_operand :: "smodule \<Rightarrow> nat \<Rightarrow> bool" where
  "is_slice_borrow_operand m vid =
     (vid \<noteq> kInvalidId \<and> vid < length (sm_values m)
      \<and> (let v = sm_values m ! vid in
         sv_kind v = SvIndex \<and> sv_b v \<noteq> kInvalidId \<and> sv_b v < length (sm_values m)
         \<and> (let idx = sm_values m ! sv_b v in sv_kind idx = SvBinary \<and> (sv_op idx = k_dot_dot \<or> sv_op idx = k_dot_dot_colon))))"

text \<open>The digits of a literal up to its suffix; a value of 64 bits or none.\<close>

fun index_digits :: "string \<Rightarrow> string" where
  "index_digits [] = []"
| "index_digits (ch # cs) = (if is_digit ch then ch # index_digits cs else if ch = CHR ''_'' then index_digits cs else [])"

definition parse_const_index :: "smodule \<Rightarrow> nat \<Rightarrow> nat option" where
  "parse_const_index m vid =
     (if vid = kInvalidId \<or> length (sm_values m) \<le> vid then None
      else
        let v = sm_values m ! vid; digits = index_digits (sv_text v); out = undec (map char_digit digits) in
        if sv_kind v \<noteq> SvIntLit \<or> digits = [] \<or> 18446744073709551616 \<le> out then None else Some out)"

section \<open>Places\<close>

datatype place_projection = ProjIndex "nat option" | ProjField string

record place_ref =
  pr_root :: nat
  pr_proj :: "place_projection list"

definition project :: "place_projection \<Rightarrow> place_ref \<Rightarrow> place_ref" where
  "project p r = r\<lparr>pr_proj := pr_proj r @ [p]\<rparr>"

function try_make_place_ref :: "smodule \<Rightarrow> nat \<Rightarrow> nat set \<Rightarrow> place_ref option option" where
  "try_make_place_ref m vid met =
     (if vid = kInvalidId \<or> length (sm_values m) \<le> vid then Some None
      else if vid \<in> met then None
      else
        let v = sm_values m ! vid in
        if sv_kind v \<in> {SvLocal, SvGlobal}
        then Some (if sv_sym v = kInvalidId then None else Some \<lparr>pr_root = sv_sym v, pr_proj = []\<rparr>)
        else if sv_kind v = SvIndex
        then map_option (map_option (project (ProjIndex (parse_const_index m (sv_b v)))))
               (try_make_place_ref m (sv_a v) (insert vid met))
        else if sv_kind v = SvField
        then map_option (map_option (project (ProjField (sv_text v)))) (try_make_place_ref m (sv_a v) (insert vid met))
        else Some None)"
  by pat_completeness simp

termination try_make_place_ref
  by (relation "measure (\<lambda>(m, vid, met). card ({..< length (sm_values m)} - met))", simp)
    (simp only: in_measure prod.case, rule visiting_decreases, assumption+)+

declare try_make_place_ref.simps [simp del]

definition place_ref_of :: "smodule \<Rightarrow> nat \<Rightarrow> place_ref option option" where
  "place_ref_of m vid =
     map_option (\<lambda>r. case r of None \<Rightarrow> None | Some p \<Rightarrow> if pr_root p = kInvalidId then None else Some p) (try_make_place_ref m vid {})"

definition root_symbol :: "smodule \<Rightarrow> nat \<Rightarrow> nat option option" where
  "root_symbol m vid =
     (if vid = kInvalidId \<or> length (sm_values m) \<le> vid then Some None
      else if sv_origin_sym (sm_values m ! vid) \<noteq> kInvalidId then Some (Some (sv_origin_sym (sm_values m ! vid)))
      else map_option (map_option pr_root) (place_ref_of m vid))"

fun projection_disjoint :: "place_projection \<Rightarrow> place_projection \<Rightarrow> bool" where
  "projection_disjoint (ProjField f) (ProjField g) = (f \<noteq> [] \<and> g \<noteq> [] \<and> f \<noteq> g)"
| "projection_disjoint (ProjIndex i) (ProjIndex j) = (i \<noteq> None \<and> j \<noteq> None \<and> i \<noteq> j)"
| "projection_disjoint _ _ = False"

definition place_overlap :: "place_ref \<Rightarrow> place_ref \<Rightarrow> bool" where
  "place_overlap a b =
     (if pr_root a = kInvalidId \<or> pr_root b = kInvalidId then False
      else if pr_root a \<noteq> pr_root b then False
      else \<not> list_ex (\<lambda>i. projection_disjoint (pr_proj a ! i) (pr_proj b ! i))
             [0 ..< min (length (pr_proj a)) (length (pr_proj b))])"

fun place_projection_equal :: "place_projection \<Rightarrow> place_projection \<Rightarrow> bool" where
  "place_projection_equal (ProjIndex i) (ProjIndex j) = (i = j)"
| "place_projection_equal (ProjField f) (ProjField g) = (f = g)"
| "place_projection_equal _ _ = False"

definition place_ref_equal :: "place_ref \<Rightarrow> place_ref \<Rightarrow> bool" where
  "place_ref_equal a b =
     (pr_root a = pr_root b \<and> length (pr_proj a) = length (pr_proj b)
      \<and> list_all (\<lambda>i. place_projection_equal (pr_proj a ! i) (pr_proj b ! i)) [0 ..< length (pr_proj a)])"

section \<open>The use of an escape in a cell\<close>

datatype value_use =
    UseValue | UseBorrowOperand | UseEscapeOperand
  | UseCellLocal | UseCellField | UseCellStatic | UseCellOptional
  | UseAssignLhs | UseCallArg | UseReturnValue

function place_contains_field_projection :: "smodule \<Rightarrow> nat \<Rightarrow> nat set \<Rightarrow> bool option" where
  "place_contains_field_projection m vid met =
     (if vid = kInvalidId \<or> length (sm_values m) \<le> vid then Some False
      else if vid \<in> met then None
      else
        let v = sm_values m ! vid in
        if sv_kind v = SvField \<or> sv_place v = PlField then Some True
        else if sv_kind v = SvIndex then place_contains_field_projection m (sv_a v) (insert vid met)
        else Some False)"
  by pat_completeness simp

termination place_contains_field_projection
  by (relation "measure (\<lambda>(m, vid, met). card ({..< length (sm_values m)} - met))", simp)
    (simp only: in_measure prod.case, rule visiting_decreases)

declare place_contains_field_projection.simps [simp del]

definition escape_cell_use_for_var_decl :: "type_pool \<Rightarrow> sstmt \<Rightarrow> value_use option" where
  "escape_cell_use_for_var_decl types s =
     (let t = ss_declared_type s in
      if t = kInvalidId then None
      else if \<not> is_escape_type types t \<and> \<not> is_optional_escape_type types t then None
      else if ss_is_static s then Some UseCellStatic
      else if ss_has_consume_else s \<and> is_escape_type types t then None
      else if is_optional_escape_type types t then Some UseCellOptional
      else Some UseCellLocal)"

text \<open>\<open>is_static\<close> tells which symbols are in static storage.\<close>

definition is_static_place :: "smodule \<Rightarrow> (nat \<Rightarrow> bool) \<Rightarrow> nat \<Rightarrow> bool option" where
  "is_static_place m is_static lhs = map_option (\<lambda>r. case r of None \<Rightarrow> False | Some s \<Rightarrow> is_static s) (root_symbol m lhs)"

definition escape_cell_use_for_place ::
  "smodule \<Rightarrow> type_pool \<Rightarrow> (nat \<Rightarrow> bool) \<Rightarrow> nat \<Rightarrow> nat \<Rightarrow> value_use option option" where
  "escape_cell_use_for_place m types is_static lhs lhs_type =
     (if lhs_type = kInvalidId then Some None
      else if is_optional_escape_type types lhs_type then Some (Some UseCellOptional)
      else if \<not> is_escape_type types lhs_type then Some None
      else if lhs = kInvalidId \<or> length (sm_values m) \<le> lhs then Some (Some UseCellLocal)
      else
        case is_static_place m is_static lhs of
          None \<Rightarrow> None
        | Some True \<Rightarrow> Some (Some UseCellStatic)
        | Some False \<Rightarrow>
            map_option (\<lambda>in_field. Some (if in_field then UseCellField else UseCellLocal))
              (place_contains_field_projection m lhs {}))"

end
