(* ===== verification/SIR_Place_Facts.thy ===== *)
theory SIR_Place_Facts
  imports SIR_Place
begin

text \<open>
  What the queries of the capability analysis mean: two places overlap when some concrete location of
  one lies inside one of the other, and the search for an escape inside a type finds one exactly
  when one can be reached.
\<close>

section \<open>Overlap\<close>

text \<open>A step to a concrete element or member. An unknown index stands for every element, a member
  without a name for every member.\<close>

datatype step = AtIndex nat | AtField string

fun matches :: "place_projection \<Rightarrow> step \<Rightarrow> bool" where
  "matches (ProjIndex i) (AtIndex j) = (i = None \<or> i = Some j)"
| "matches (ProjField f) (AtField g) = (f = [] \<or> f = g)"
| "matches _ _ = False"

definition locations :: "place_ref \<Rightarrow> step list set" where
  "locations p = {c. list_all2 matches (pr_proj p) c}"

fun is_index :: "place_projection \<Rightarrow> bool" where
  "is_index (ProjIndex i) = True"
| "is_index (ProjField f) = False"

text \<open>At the same position both places index or both name a member, as in a well-typed program.\<close>

definition kinds_agree :: "place_projection list \<Rightarrow> place_projection list \<Rightarrow> bool" where
  "kinds_agree xs ys \<longleftrightarrow> list_all (\<lambda>(x, y). is_index x = is_index y) (zip xs ys)"

lemma matches_some: "\<exists>c. matches x c"
proof (cases x)
  case (ProjIndex i)
  then show ?thesis by (cases i) (auto intro: exI [of _ "AtIndex 0"] exI [of _ "AtIndex (the i)"])
qed (auto intro: exI [of _ "AtField f" for f])

lemma locations_some: "\<exists>c. list_all2 matches xs c"
  by (induction xs) (use matches_some in \<open>auto simp: list_all2_Cons1\<close>)

lemma matches_both:
  "is_index x = is_index y \<Longrightarrow> \<not> projection_disjoint x y \<longleftrightarrow> (\<exists>c. matches x c \<and> matches y c)"
proof (cases x; cases y)
  fix i j
  assume "x = ProjIndex i" "y = ProjIndex j"
  then show "\<not> projection_disjoint x y \<longleftrightarrow> (\<exists>c. matches x c \<and> matches y c)"
    by (cases i; cases j) (auto intro: exI [of _ "AtIndex k" for k] elim!: matches.elims)
next
  fix f g
  assume "x = ProjField f" "y = ProjField g"
  then show "\<not> projection_disjoint x y \<longleftrightarrow> (\<exists>c. matches x c \<and> matches y c)"
    by (cases f; cases g) (auto intro: exI [of _ "AtField k" for k] elim!: matches.elims)
qed simp_all

lemma overlap_paths:
  "kinds_agree xs ys \<Longrightarrow>
     (\<forall>(x, y) \<in> set (zip xs ys). \<not> projection_disjoint x y)
       \<longleftrightarrow> (\<exists>p q. list_all2 matches xs p \<and> list_all2 matches ys q \<and> (prefix p q \<or> prefix q p))"
proof (induction xs ys rule: list_induct2')
  case (4 x xs y ys)
  have both: "\<not> projection_disjoint x y \<longleftrightarrow> (\<exists>c. matches x c \<and> matches y c)"
    using "4.prems" by (intro matches_both) (simp add: kinds_agree_def)
  have "(\<exists>p q. list_all2 matches (x # xs) p \<and> list_all2 matches (y # ys) q \<and> (prefix p q \<or> prefix q p)) \<longleftrightarrow>
      (\<exists>c p q. matches x c \<and> matches y c \<and> list_all2 matches xs p \<and> list_all2 matches ys q \<and> (prefix p q \<or> prefix q p))"
    by (force simp: list_all2_Cons1)
  then show ?case using 4 both by (fastforce simp: kinds_agree_def)
qed (use locations_some in auto)

lemma list_ex_zip:
  "list_ex (\<lambda>i. P (xs ! i) (ys ! i)) [0 ..< min (length xs) (length ys)] \<longleftrightarrow> (\<exists>(x, y) \<in> set (zip xs ys). P x y)"
  by (fastforce simp: list_ex_iff set_zip)



section \<open>Escapes inside a type\<close>

definition type_children :: "smodule \<Rightarrow> type_pool \<Rightarrow> nat \<Rightarrow> nat list" where
  "type_children m types t =
     (let tt = tp_types types ! t in
      if ty_kind tt \<in> {KOptional, KArray} then [ty_elem tt]
      else if ty_kind tt = KNamedUser then (case find_field_decl m t of None \<Rightarrow> [] | Some layout \<Rightarrow> member_types m layout)
      else [])"

inductive holds_escape :: "smodule \<Rightarrow> type_pool \<Rightarrow> nat \<Rightarrow> bool" for m types where
  escape_itself: "has_kind types KEscape t \<Longrightarrow> holds_escape m types t"
| escape_inside: "t \<noteq> kInvalidId \<Longrightarrow> t < length (tp_types types) \<Longrightarrow> c \<in> set (type_children m types t) \<Longrightarrow> holds_escape m types c \<Longrightarrow>
    holds_escape m types t"

text \<open>A set of types closed under children that holds no escape: nothing in it reaches one.\<close>

definition closed_from :: "smodule \<Rightarrow> type_pool \<Rightarrow> nat set \<Rightarrow> nat set \<Rightarrow> bool" where
  "closed_from m types S T \<longleftrightarrow> (\<forall>t \<in> S. ty_kind (tp_types types ! t) \<noteq> KEscape
     \<and> (\<forall>c \<in> set (type_children m types t). c \<noteq> kInvalidId \<longrightarrow> c < length (tp_types types) \<longrightarrow> c \<in> T))"

lemma closed_mono: "closed_from m types S T \<Longrightarrow> T \<subseteq> T' \<Longrightarrow> closed_from m types S T'"
  by (fastforce simp: closed_from_def)

lemma closed_Un: "closed_from m types (A \<union> B) T \<longleftrightarrow> closed_from m types A T \<and> closed_from m types B T"
  by (auto simp: closed_from_def)

lemma closed_insert: "closed_from m types (insert t S) T \<longleftrightarrow> closed_from m types S T \<and> ty_kind (tp_types types ! t) \<noteq> KEscape
    \<and> (\<forall>c \<in> set (type_children m types t). c \<noteq> kInvalidId \<longrightarrow> c < length (tp_types types) \<longrightarrow> c \<in> T)"
  by (auto simp: closed_from_def)

lemma closed_no_escape:
  "holds_escape m types t \<Longrightarrow> closed_from m types S S \<Longrightarrow> t \<in> S \<Longrightarrow> False"
proof (induction rule: holds_escape.induct)
  case (escape_itself t)
  then show ?case by (auto simp: closed_from_def has_kind_def)
next
  case (escape_inside t c)
  have "c \<noteq> kInvalidId" "c < length (tp_types types)"
    using escape_inside.hyps(4) by (auto elim: holds_escape.cases simp: has_kind_def)
  then have "c \<in> S" using escape_inside.hyps(3) escape_inside.prems by (auto simp: closed_from_def)
  then show ?case using escape_inside by blast
qed

text \<open>What one search does, with enough fuel for the types not yet met.\<close>

definition search_ok :: "smodule \<Rightarrow> type_pool \<Rightarrow> nat list \<Rightarrow> nat set \<Rightarrow> bool \<times> nat set \<Rightarrow> bool" where
  "search_ok m types ts met out \<longleftrightarrow>
     (case out of (found, met') \<Rightarrow>
        met \<subseteq> met' \<and> (met' - met \<subseteq> {..< length (tp_types types)}) \<and> (found \<longrightarrow> (\<exists>t \<in> set ts. holds_escape m types t))
        \<and> (\<not> found \<longrightarrow> closed_from m types (met' - met) met'
            \<and> (\<forall>t \<in> set ts. t \<noteq> kInvalidId \<longrightarrow> t < length (tp_types types) \<longrightarrow> t \<in> met')))"

lemma any_member_ok:
  assumes "\<And>t met'. t \<in> set ts \<Longrightarrow> met \<subseteq> met' \<Longrightarrow> search_ok m types [t] met' (rec t met')"
  shows "search_ok m types ts met (any_member rec ts met)"
  using assms
proof (induction ts arbitrary: met)
  case (Cons t ts)
  obtain found met1 where first: "rec t met = (found, met1)" by fastforce
  have one: "search_ok m types [t] met (found, met1)" using Cons.prems [of t met] first by simp
  show ?case
  proof (cases found)
    case True
    then show ?thesis using one first by (simp add: search_ok_def)
  next
    case False
    obtain found' met2 where rest: "any_member rec ts met1 = (found', met2)" by fastforce
    from one False have one': "met \<subseteq> met1" "met1 - met \<subseteq> {..< length (tp_types types)}" "closed_from m types (met1 - met) met1"
      "t \<noteq> kInvalidId \<longrightarrow> t < length (tp_types types) \<longrightarrow> t \<in> met1"
      by (simp_all add: search_ok_def)
    have "search_ok m types ts met1 (any_member rec ts met1)"
      by (rule Cons.IH, rule Cons.prems) (use one'(1) in auto)
    then have two: "met1 \<subseteq> met2" "met2 - met1 \<subseteq> {..< length (tp_types types)}" "found' \<longrightarrow> (\<exists>t \<in> set ts. holds_escape m types t)"
      "\<not> found' \<longrightarrow> closed_from m types (met2 - met1) met2
         \<and> (\<forall>t \<in> set ts. t \<noteq> kInvalidId \<longrightarrow> t < length (tp_types types) \<longrightarrow> t \<in> met2)"
      by (simp_all add: rest search_ok_def)
    have minus: "met2 - met = (met2 - met1) \<union> (met1 - met)" using one'(1) two(1) by blast
    have out: "any_member rec (t # ts) met = (found', met2)" using first False rest by simp
    show ?thesis
      unfolding out search_ok_def prod.case minus closed_Un
      using one' two closed_mono [OF one'(3) two(1)] by auto
  qed
qed (simp add: search_ok_def closed_from_def)

lemma contains_escape_rec_ok:
  "card ({..< length (tp_types types)} - met) < n \<Longrightarrow> search_ok m types [t] met (contains_escape_rec n m types t met)"
proof (induction n arbitrary: t met)
  case (Suc n)
  let ?all = "{..< length (tp_types types)}" and ?tt = "tp_types types ! t" and ?met = "insert t met"
  show ?case
  proof (cases "t = kInvalidId \<or> length (tp_types types) \<le> t \<or> t \<in> met")
    case True
    then show ?thesis by (auto simp: search_ok_def closed_from_def)
  next
    case False
    have less: "card (?all - met') < n" if "?met \<subseteq> met'" for met'
    proof -
      have "?all - met' \<subseteq> ?all - ?met" using that by blast
      then have "card (?all - met') \<le> card (?all - ?met)" by (intro card_mono) simp_all
      also have "\<dots> < card (?all - met)" using False by (intro visiting_decreases) auto
      finally show ?thesis using Suc.prems by simp
    qed
    have step: "search_ok m types [t] met out" if "search_ok m types cs ?met out" "set (type_children m types t) \<subseteq> set cs"
      "ty_kind ?tt \<noteq> KEscape" "set cs \<subseteq> set (type_children m types t)" for cs out
    proof -
      obtain found met' where out: "out = (found, met')" by fastforce
      from that(1) have in_out: "?met \<subseteq> met'" "met' - ?met \<subseteq> ?all" "found \<longrightarrow> (\<exists>t \<in> set cs. holds_escape m types t)"
        "\<not> found \<longrightarrow> closed_from m types (met' - ?met) met' \<and> (\<forall>t \<in> set cs. t \<noteq> kInvalidId \<longrightarrow> t < length (tp_types types) \<longrightarrow> t \<in> met')"
        by (simp_all add: out search_ok_def)
      have minus: "met' - met = insert t (met' - ?met)" using False in_out(1) by blast
      have "found \<longrightarrow> holds_escape m types t" using in_out(3) that(4) False escape_inside [of t types _ m] by (meson not_le subsetD)
      then show ?thesis
        unfolding out search_ok_def prod.case minus closed_insert using in_out that(2,3) False by auto
    qed
    show ?thesis
    proof (cases "ty_kind ?tt = KEscape")
      case True
      then show ?thesis using False by (auto simp: search_ok_def has_kind_def intro: escape_itself)
    next
      case not_escape: False
      consider (elem) "ty_kind ?tt \<in> {KOptional, KArray}" | (named) "ty_kind ?tt = KNamedUser"
        | (other) "ty_kind ?tt \<notin> {KOptional, KArray, KNamedUser}" by blast
      then show ?thesis
      proof cases
        case elem
        have "search_ok m types [ty_elem ?tt] ?met
            (if ty_elem ?tt = kInvalidId then (False, ?met) else contains_escape_rec n m types (ty_elem ?tt) ?met)"
        proof (cases "ty_elem ?tt = kInvalidId")
          case True
          then show ?thesis by (auto simp: search_ok_def closed_from_def)
        next
          case False
          then show ?thesis using Suc.IH [OF less [OF order_refl], of "ty_elem ?tt"] by simp
        qed
        from step [OF this _ not_escape] show ?thesis
          using elem False not_escape by (auto simp: type_children_def Let_def)
      next
        case named
        have members: "search_ok m types ts ?met (any_member (contains_escape_rec n m types) ts ?met)" for ts
          using Suc.IH less by (intro any_member_ok) blast
        have none: "search_ok m types [] ?met (False, ?met)" by (auto simp: search_ok_def closed_from_def)
        show ?thesis
          using step [OF none _ not_escape] step [OF members _ not_escape] named False
          by (auto simp: type_children_def Let_def split: option.splits)
      next
        case other
        have none: "search_ok m types [] ?met (False, ?met)" by (auto simp: search_ok_def closed_from_def)
        show ?thesis using step [OF none _ not_escape] other False not_escape by (auto simp: type_children_def Let_def)
      qed
    qed
  qed
qed simp

text \<open>C13: The search of a type for an escape answers yes exactly when an escape can be reached from the
  type through optionals, arrays and the members of declared types, whatever cycles there are.\<close>

theorem type_contains_escape_iff: "type_contains_escape m types t \<longleftrightarrow> holds_escape m types t"
proof -
  obtain found met where out: "contains_escape_rec (Suc (length (tp_types types))) m types t {} = (found, met)" by fastforce
  have ok: "search_ok m types [t] {} (found, met)"
    using contains_escape_rec_ok [of types "{}" "Suc (length (tp_types types))" m t] out by simp
  have found: "type_contains_escape m types t = found" by (simp only: type_contains_escape_def out fst_conv)
  show ?thesis
  proof (cases found)
    case True
    then show ?thesis using ok found by (simp add: search_ok_def)
  next
    case False
    have "t \<noteq> kInvalidId" "t < length (tp_types types)" if "holds_escape m types t"
      using that by (auto elim: holds_escape.cases simp: has_kind_def)
    then show ?thesis using ok found False closed_no_escape [of m types t met] by (auto simp: search_ok_def)
  qed
qed

end
