(* ===== verification/SIR_Flow.thy ===== *)
theory SIR_Flow
  imports SIR_Place SIR_Mut "HOL-Library.AList"
begin

text \<open>
  The state of the capability analysis (\<open>CapabilityAnalyzer\<close> of
  \<open>frontend/src/sir/analysis/capability_analysis.cpp\<close>) and its primitive operations: the active borrows
  and the scopes that end them, the symbols moved out by an escape, the flow states of branches and
  loops and their merge, the diagnostics, and the escape handles. Maps with an iteration in the
  source are association lists with one entry per key. The module is only read, except for the
  handles, which are part of the state.
\<close>

section \<open>Borrow sets\<close>

record active_borrow =
  ab_place :: place_ref
  ab_is_mut :: bool
  ab_owner_sym :: nat

definition active_borrow_equal :: "active_borrow \<Rightarrow> active_borrow \<Rightarrow> bool" where
  "active_borrow_equal a b =
     (ab_is_mut a = ab_is_mut b \<and> ab_owner_sym a = ab_owner_sym b \<and> place_ref_equal (ab_place a) (ab_place b))"

text \<open>A shared and a mutable borrow of the same owner and place become one mutable borrow.\<close>

fun append_unique_borrow :: "active_borrow list \<Rightarrow> active_borrow \<Rightarrow> active_borrow list" where
  "append_unique_borrow [] b = [b]"
| "append_unique_borrow (cur # dst) b =
     (if active_borrow_equal cur b then cur # dst
      else if ab_owner_sym cur = ab_owner_sym b \<and> place_ref_equal (ab_place cur) (ab_place b) \<and> ab_is_mut cur \<noteq> ab_is_mut b
      then cur\<lparr>ab_is_mut := True\<rparr> # dst
      else cur # append_unique_borrow dst b)"

definition merge_borrow_set :: "active_borrow list \<Rightarrow> active_borrow list \<Rightarrow> active_borrow list" where
  "merge_borrow_set a b = foldl append_unique_borrow (foldl append_unique_borrow [] a) b"

definition borrow_set_equal :: "active_borrow list \<Rightarrow> active_borrow list \<Rightarrow> bool" where
  "borrow_set_equal a b = (length a = length b \<and> list_all (\<lambda>x. list_ex (active_borrow_equal x) b) a)"

section \<open>Flow states\<close>

record flow_state =
  fl_moved_true :: "(nat \<times> bool) list"
  fl_active_borrows :: "active_borrow list"
  fl_terminated :: bool

definition empty_flow :: flow_state where
  "empty_flow = \<lparr>fl_moved_true = [], fl_active_borrows = [], fl_terminated = False\<rparr>"

definition merge_flow_state :: "flow_state \<Rightarrow> flow_state \<Rightarrow> flow_state" where
  "merge_flow_state a b =
     (if fl_terminated a \<and> fl_terminated b then empty_flow\<lparr>fl_terminated := True\<rparr>
      else if fl_terminated a then b
      else if fl_terminated b then a
      else \<lparr>fl_moved_true = foldl (\<lambda>out e. if snd e then AList.update (fst e) True out else out) (fl_moved_true a) (fl_moved_true b),
            fl_active_borrows = merge_borrow_set (fl_active_borrows a) (fl_active_borrows b), fl_terminated = False\<rparr>)"

definition flow_state_equal :: "flow_state \<Rightarrow> flow_state \<Rightarrow> bool" where
  "flow_state_equal a b =
     (if fl_terminated a \<noteq> fl_terminated b then False
      else if fl_terminated a \<and> fl_terminated b then True
      else length (fl_moved_true a) = length (fl_moved_true b)
        \<and> list_all (\<lambda>e. map_of (fl_moved_true b) (fst e) = Some (snd e)) (fl_moved_true a)
        \<and> borrow_set_equal (fl_active_borrows a) (fl_active_borrows b))"

section \<open>The state\<close>

record cap_state =
  cs_bag :: "sdiag list"
  cs_error_count :: nat
  cs_handles :: "escape_meta list"
  cs_meta_by_value :: "nat \<Rightarrow> nat option"
  cs_active :: "active_borrow list"
  cs_moved :: "(nat \<times> bool) list"
  cs_scopes :: "nat list"
  cs_visiting :: "nat set"
  cs_terminated :: bool

record symbol_traits =
  st_is_mut :: bool
  st_is_static :: bool

text \<open>What is fixed while a function is analysed.\<close>

record cap_context =
  cx_mod :: smodule
  cx_types :: type_pool
  cx_traits :: "nat \<Rightarrow> symbol_traits option"
  cx_pure :: bool
  cx_comptime :: bool

definition notes_of :: "diag_code \<Rightarrow> string list" where
  "notes_of code =
     (if code = SirEscapeBoundaryViolation
      then [''`~x` first creates an escape rvalue; that rvalue must either commit into an allowed owner cell or cross a call/return boundary'']
      else if code = BorrowOperandMustBeOwnedPlace
      then [''source-level borrow creation does not apply to existing borrow tokens or `~T` owner handles'']
      else [])"

definition helps_of :: "diag_code \<Rightarrow> string list" where
  "helps_of code =
     (if code = SirEscapeBoundaryViolation then [''store it in a local/field/`(~T)?` place, or pass/return it directly''] else [])"

definition report :: "diag_code \<Rightarrow> source_span \<Rightarrow> cap_state \<Rightarrow> cap_state" where
  "report code sp s = s\<lparr>
     cs_bag := cs_bag s @ [\<lparr>dg_code = code, dg_span = sp, dg_args = [], dg_notes = notes_of code, dg_helps = helps_of code\<rparr>],
     cs_error_count := u32 (cs_error_count s + 1)\<rparr>"

definition report_if :: "bool \<Rightarrow> diag_code \<Rightarrow> source_span \<Rightarrow> cap_state \<Rightarrow> cap_state" where
  "report_if c code sp s = (if c then report code sp s else s)"

subsection \<open>Scopes and borrows\<close>

text \<open>The top of the scope stack comes first.\<close>

definition enter_scope :: "cap_state \<Rightarrow> cap_state" where
  "enter_scope s = s\<lparr>cs_scopes := length (cs_active s) # cs_scopes s\<rparr>"

definition leave_scope :: "cap_state \<Rightarrow> cap_state" where
  "leave_scope s = (case cs_scopes s of [] \<Rightarrow> s | keep # rest \<Rightarrow> s\<lparr>cs_active := take keep (cs_active s), cs_scopes := rest\<rparr>)"

definition activate_borrow :: "place_ref \<Rightarrow> bool \<Rightarrow> nat \<Rightarrow> cap_state \<Rightarrow> cap_state" where
  "activate_borrow place is_mut owner s =
     s\<lparr>cs_active := cs_active s @ [\<lparr>ab_place = place, ab_is_mut = is_mut, ab_owner_sym = owner\<rparr>]\<rparr>"

definition release_owner_borrows :: "nat \<Rightarrow> cap_state \<Rightarrow> cap_state" where
  "release_owner_borrows owner s =
     (if owner = kInvalidId then s else s\<lparr>cs_active := filter (\<lambda>b. ab_owner_sym b \<noteq> owner) (cs_active s)\<rparr>)"

definition has_active_mut :: "cap_state \<Rightarrow> place_ref \<Rightarrow> bool" where
  "has_active_mut s place = list_ex (\<lambda>b. ab_is_mut b \<and> place_overlap place (ab_place b)) (cs_active s)"

definition has_active_shared :: "cap_state \<Rightarrow> place_ref \<Rightarrow> bool" where
  "has_active_shared s place = list_ex (\<lambda>b. \<not> ab_is_mut b \<and> place_overlap place (ab_place b)) (cs_active s)"

subsection \<open>Symbols\<close>

definition is_symbol_mutable :: "cap_context \<Rightarrow> nat \<Rightarrow> bool" where
  "is_symbol_mutable cx sid = (case cx_traits cx sid of None \<Rightarrow> False | Some t \<Rightarrow> st_is_mut t)"

definition is_symbol_static :: "cap_context \<Rightarrow> nat \<Rightarrow> bool" where
  "is_symbol_static cx sid = (case cx_traits cx sid of None \<Rightarrow> False | Some t \<Rightarrow> st_is_static t)"

definition is_moved :: "cap_state \<Rightarrow> nat \<Rightarrow> bool" where
  "is_moved s sid = (map_of (cs_moved s) sid = Some True)"

definition mark_moved :: "nat \<Rightarrow> cap_state \<Rightarrow> cap_state" where
  "mark_moved sid s = s\<lparr>cs_moved := AList.update sid True (cs_moved s)\<rparr>"

definition clear_moved :: "nat \<Rightarrow> cap_state \<Rightarrow> cap_state" where
  "clear_moved sid s = s\<lparr>cs_moved := AList.update sid False (cs_moved s)\<rparr>"

text \<open>Parameters first, then the variables of the statements, then the globals.\<close>

definition collect_symbol_traits :: "smodule \<Rightarrow> nat \<Rightarrow> symbol_traits option" where
  "collect_symbol_traits m =
     (let ps = fold (\<lambda>p t. if pm_sym p = kInvalidId then t else t(pm_sym p \<mapsto> \<lparr>st_is_mut = pm_is_mut p, st_is_static = False\<rparr>))
                 (sm_params m) Map.empty;
          ss = fold (\<lambda>s t. if ss_kind s \<noteq> SsVarDecl \<or> ss_sym s = kInvalidId then t
                 else t(ss_sym s \<mapsto> \<lparr>st_is_mut = ss_is_mut s, st_is_static = ss_is_static s\<rparr>)) (sm_stmts m) ps
      in fold (\<lambda>g t. if gv_sym g = kInvalidId then t
                 else t(gv_sym g \<mapsto> \<lparr>st_is_mut = gv_is_mut g, st_is_static = gv_is_static g\<rparr>)) (sm_globals m) ss)"

subsection \<open>Flow\<close>

definition capture_flow_state :: "cap_state \<Rightarrow> flow_state" where
  "capture_flow_state s = \<lparr>fl_moved_true = filter snd (cs_moved s),
     fl_active_borrows = foldl append_unique_borrow [] (cs_active s), fl_terminated = cs_terminated s\<rparr>"

definition restore_flow_state :: "flow_state \<Rightarrow> cap_state \<Rightarrow> cap_state" where
  "restore_flow_state f s = s\<lparr>cs_moved := filter snd (fl_moved_true f), cs_active := fl_active_borrows f,
     cs_terminated := fl_terminated f\<rparr>"

text \<open>Run a part of the analysis from a flow state: what it ends with, and the state around it. The
  borrows, scopes, moves and the blocks under visit are put back, the terminated flag is not.\<close>

definition with_flow :: "(cap_state \<Rightarrow> cap_state option) \<Rightarrow> flow_state \<Rightarrow> cap_state \<Rightarrow> (flow_state \<times> cap_state) option" where
  "with_flow act f s =
     (case act (restore_flow_state f s) of
        None \<Rightarrow> None
      | Some s1 \<Rightarrow> Some (capture_flow_state s1,
          s1\<lparr>cs_active := cs_active s, cs_scopes := cs_scopes s, cs_moved := cs_moved s, cs_visiting := cs_visiting s\<rparr>))"

subsection \<open>Checks\<close>

definition check_use_after_move :: "cap_context \<Rightarrow> nat \<Rightarrow> value_use \<Rightarrow> source_span \<Rightarrow> cap_state \<Rightarrow> cap_state option" where
  "check_use_after_move cx vid use sp s =
     (if use = UseAssignLhs then Some s
      else map_option (\<lambda>r. case r of None \<Rightarrow> s | Some root \<Rightarrow> report_if (is_moved s root) SirUseAfterEscapeMove sp s)
             (root_symbol (cx_mod cx) vid))"

definition check_place_access_conflicts :: "cap_context \<Rightarrow> nat \<Rightarrow> value_use \<Rightarrow> source_span \<Rightarrow> cap_state \<Rightarrow> cap_state option" where
  "check_place_access_conflicts cx vid use sp s =
     map_option (\<lambda>r. case r of None \<Rightarrow> s | Some p \<Rightarrow>
         let direct = (use \<in> {UseValue, UseCallArg, UseReturnValue, UseAssignLhs});
             s1 = report_if (direct \<and> has_active_mut s p) BorrowMutDirectAccessConflict sp s
         in report_if (use = UseAssignLhs \<and> has_active_shared s1 p) BorrowSharedWriteConflict sp s1)
       (place_ref_of (cx_mod cx) vid)"

definition local_binding_symbol :: "smodule \<Rightarrow> nat \<Rightarrow> nat" where
  "local_binding_symbol m lhs =
     (if lhs = kInvalidId \<or> length (sm_values m) \<le> lhs then kInvalidId
      else if sv_kind (sm_values m ! lhs) \<noteq> SvLocal then kInvalidId
      else sv_sym (sm_values m ! lhs))"

subsection \<open>Escape handles\<close>

definition is_escape_boundary_use :: "value_use \<Rightarrow> bool" where
  "is_escape_boundary_use use = (use \<in> {UseReturnValue, UseCallArg})"

definition is_escape_cell_use :: "value_use \<Rightarrow> bool" where
  "is_escape_cell_use use = (use \<in> {UseCellLocal, UseCellField, UseCellStatic, UseCellOptional})"

definition boundary_from_use :: "value_use \<Rightarrow> boundary_kind" where
  "boundary_from_use use = (case use of UseReturnValue \<Rightarrow> BkReturn | UseCallArg \<Rightarrow> BkCallArg | _ \<Rightarrow> BkNone)"

definition value_form_from_use :: "value_use \<Rightarrow> handle_form" where
  "value_form_from_use use =
     (if use \<in> {UseCallArg, UseReturnValue} then FormAbiPack
      else if use \<in> {UseCellLocal, UseCellField, UseCellStatic, UseCellOptional} then FormCell else FormRValue)"

definition cell_kind_from_use :: "value_use \<Rightarrow> cell_kind" where
  "cell_kind_from_use use =
     (case use of UseCellLocal \<Rightarrow> CellLocal | UseCellField \<Rightarrow> CellField | UseCellStatic \<Rightarrow> CellStatic
      | UseCellOptional \<Rightarrow> CellOptional | _ \<Rightarrow> CellNone)"

definition pack_boundary_from_use :: "value_use \<Rightarrow> pack_boundary" where
  "pack_boundary_from_use use = (case use of UseCallArg \<Rightarrow> PackCallArg | UseReturnValue \<Rightarrow> PackReturn | _ \<Rightarrow> PackNone)"

definition escape_meta_of :: "cap_context \<Rightarrow> nat \<Rightarrow> svalue \<Rightarrow> value_use \<Rightarrow> nat option \<Rightarrow> bool \<Rightarrow> escape_meta" where
  "escape_meta_of cx vid v use root has_drop =
     (let boundary = boundary_from_use use; form = value_form_from_use use; pack = pack_boundary_from_use use in
      \<lparr>em_escape_value = vid, em_span = sv_span v,
       em_origin_sym = (case root of None \<Rightarrow> kInvalidId | Some r \<Rightarrow> r),
       em_pointee_type = value_type (cx_mod cx) (sv_a v),
       em_kind = (if boundary \<in> {BkReturn, BkCallArg} then HkCallerSlot else if form = FormCell then HkStackSlot else HkTrivial),
       em_boundary = boundary,
       em_from_static = (case root of None \<Rightarrow> False | Some r \<Rightarrow> is_symbol_static cx r),
       em_has_drop = has_drop,
       em_abi_pack_required = (pack \<noteq> PackNone),
       em_value_form = form,
       em_cell_kind = cell_kind_from_use use,
       em_pack_boundary = pack,
       em_cell_commit_count = (if form = FormCell then 1 else 0),
       em_abi_pack_count = (if form = FormAbiPack then 1 else 0)\<rparr>)"

definition register_escape_handle ::
  "cap_context \<Rightarrow> nat \<Rightarrow> svalue \<Rightarrow> value_use \<Rightarrow> nat option \<Rightarrow> cap_state \<Rightarrow> cap_state option" where
  "register_escape_handle cx vid v use root s =
     (if vid = kInvalidId \<or> length (sm_values (cx_mod cx)) \<le> vid then Some s
      else
        case type_needs_drop (cx_types cx) (value_type (cx_mod cx) (sv_a v)) {} of
          None \<Rightarrow> None
        | Some has_drop \<Rightarrow>
            let meta = escape_meta_of cx vid v use root has_drop in
            (case cs_meta_by_value s vid of
               None \<Rightarrow> Some (s\<lparr>cs_handles := cs_handles s @ [meta],
                   cs_meta_by_value := (cs_meta_by_value s)(vid \<mapsto> last_index (cs_handles s @ [meta]))\<rparr>)
             | Some i \<Rightarrow> Some (if i < length (cs_handles s) then s\<lparr>cs_handles := (cs_handles s)[i := meta]\<rparr> else s)))"

end
