(* ===== verification/SIR_Capability.thy ===== *)
theory SIR_Capability
  imports SIR_Flow SIR_Canon SIR_Handles "HOL-Library.Monad_Syntax"
begin

text \<open>
  The walk of the capability analysis over values, statements and blocks
  (\<open>analyze_value_\<close>, \<open>analyze_stmt_\<close>, \<open>analyze_block_\<close> and \<open>run\<close> of
  \<open>frontend/src/sir/analysis/capability_analysis.cpp\<close>). The three recurse into each other; a call is a
  task, each step is written with the recursive call \<open>rec\<close> as an argument, and \<open>analyze\<close> ties the
  knot with fuel. \<open>None\<close> means that the fuel ran out or that a place does not end; a run that
  returns is not changed by more fuel (\<open>SIR_Cap_Facts\<close>). Blocks under visit are not entered again;
  values have no such guard.
\<close>

section \<open>Sequences\<close>

datatype task = TValue nat value_use nat | TBlock nat | TStmt nat

type_synonym action = "cap_state \<Rightarrow> cap_state option"

fun for_each :: "('a \<Rightarrow> action) \<Rightarrow> 'a list \<Rightarrow> action" where
  "for_each f [] s = Some s"
| "for_each f (x # xs) s = do { s \<leftarrow> f x s; for_each f xs s }"

section \<open>Blocks\<close>

text \<open>The statements of a block, until the path ends.\<close>

fun run_stmts :: "(task \<Rightarrow> action) \<Rightarrow> nat list \<Rightarrow> action" where
  "run_stmts rec [] s = Some s"
| "run_stmts rec (i # is) s = do { s \<leftarrow> rec (TStmt i) s; if cs_terminated s then Some s else run_stmts rec is s }"

definition analyze_block :: "cap_context \<Rightarrow> (task \<Rightarrow> action) \<Rightarrow> nat \<Rightarrow> action" where
  "analyze_block cx rec bid s =
     (let m = cx_mod cx in
      if bid = kInvalidId \<or> length (sm_blocks m) \<le> bid then Some s
      else if bid \<in> cs_visiting s then Some s
      else
        let b = sm_blocks m ! bid; s = enter_scope (s\<lparr>cs_visiting := insert bid (cs_visiting s)\<rparr>) in
        do {
          s \<leftarrow> (if bl_stmt_begin b + bl_stmt_count b \<le> length (sm_stmts m)
               then run_stmts rec [bl_stmt_begin b ..< bl_stmt_begin b + bl_stmt_count b] s else Some s);
          let s = leave_scope s;
          Some (s\<lparr>cs_visiting := cs_visiting s - {bid}\<rparr>)
        })"

section \<open>Values\<close>

definition value_here :: "(task \<Rightarrow> action) \<Rightarrow> nat \<Rightarrow> action" where
  "value_here rec vid = rec (TValue vid UseValue kInvalidId)"

definition analyze_local :: "cap_context \<Rightarrow> nat \<Rightarrow> svalue \<Rightarrow> value_use \<Rightarrow> action" where
  "analyze_local cx vid v use s =
     (if sv_sym v = kInvalidId then Some s
      else do {
        s \<leftarrow> check_use_after_move cx vid use (sv_span v) s;
        check_place_access_conflicts cx vid use (sv_span v) s
      })"

text \<open>A borrow whose operand is a place: conflicts with what is active, and activation.\<close>

definition borrow_place :: "cap_context \<Rightarrow> svalue \<Rightarrow> nat \<Rightarrow> place_ref \<Rightarrow> cap_state \<Rightarrow> cap_state" where
  "borrow_place cx v owner place s =
     (let root = (if sv_origin_sym v \<noteq> kInvalidId then sv_origin_sym v else pr_root place) in
      if root = kInvalidId then s
      else
        let s = report_if (sv_borrow_is_mut v \<and> \<not> is_symbol_mutable cx root) BorrowMutRequiresMutablePlace (sv_span v) s;
            mut_conflict = has_active_mut s place; shared_conflict = has_active_shared s place in
        if sv_borrow_is_mut v
        then
          let s = report_if mut_conflict BorrowMutConflict (sv_span v) s;
              s = report_if shared_conflict BorrowMutConflictWithShared (sv_span v) s in
          if \<not> mut_conflict \<and> \<not> shared_conflict \<and> is_symbol_mutable cx root then activate_borrow place True owner s else s
        else if mut_conflict then report BorrowSharedConflictWithMut (sv_span v) s
        else activate_borrow place False owner s)"

definition analyze_borrow :: "cap_context \<Rightarrow> (task \<Rightarrow> action) \<Rightarrow> svalue \<Rightarrow> nat \<Rightarrow> action" where
  "analyze_borrow cx rec v owner s =
     do {
       s \<leftarrow> rec (TValue (sv_a v) UseBorrowOperand kInvalidId) s;
       if \<not> (is_place_value (cx_mod cx) (sv_a v) \<or> is_slice_borrow_operand (cx_mod cx) (sv_a v))
       then Some (report BorrowOperandMustBePlace (sv_span v) s)
       else if is_borrow_type (cx_types cx) (value_type (cx_mod cx) (sv_a v))
       then Some (report BorrowOperandMustBeOwnedPlace (sv_span v) s)
       else do {
         place \<leftarrow> place_ref_of (cx_mod cx) (sv_a v);
         Some (case place of None \<Rightarrow> s | Some p \<Rightarrow> borrow_place cx v owner p s)
       }
     }"

text \<open>The end of an escape: conflicts with borrows, the boundary rule, and the move.\<close>

definition escape_place :: "cap_context \<Rightarrow> svalue \<Rightarrow> value_use \<Rightarrow> place_ref option \<Rightarrow> nat option \<Rightarrow> cap_state \<Rightarrow> cap_state" where
  "escape_place cx v use place root s =
     (let allowed = (is_escape_boundary_use use \<or> is_escape_cell_use use) in
      if root \<noteq> None \<and> root \<noteq> Some kInvalidId
      then
        let s = report_if (case place of None \<Rightarrow> False | Some p \<Rightarrow> has_active_mut s p) EscapeWhileMutBorrowActive (sv_span v) s;
            s = report_if (case place of None \<Rightarrow> False | Some p \<Rightarrow> has_active_shared s p) EscapeWhileBorrowActive (sv_span v) s;
            s = report_if (\<not> allowed \<and> \<not> is_symbol_static cx (the root)) SirEscapeBoundaryViolation (sv_span v) s
        in mark_moved (the root) s
      else report_if (\<not> allowed) SirEscapeBoundaryViolation (sv_span v) s)"

definition analyze_escape :: "cap_context \<Rightarrow> (task \<Rightarrow> action) \<Rightarrow> nat \<Rightarrow> svalue \<Rightarrow> value_use \<Rightarrow> action" where
  "analyze_escape cx rec vid v use s =
     do {
       s \<leftarrow> rec (TValue (sv_a v) UseEscapeOperand kInvalidId) s;
       let s = report_if (\<not> is_place_value (cx_mod cx) (sv_a v)) EscapeOperandMustBePlace (sv_span v) s;
       let s = report_if (cx_pure cx \<or> cx_comptime cx) TypeEscapeNotAllowedInPureComptime (sv_span v) s;
       let s = report_if (is_borrow_type (cx_types cx) (value_type (cx_mod cx) (sv_a v))) EscapeOperandMustNotBeBorrow (sv_span v) s;
       place \<leftarrow> place_ref_of (cx_mod cx) (sv_a v);
       root \<leftarrow> (if sv_origin_sym v \<noteq> kInvalidId then Some (Some (sv_origin_sym v))
               else case place of Some p \<Rightarrow> Some (Some (pr_root p)) | None \<Rightarrow> root_symbol (cx_mod cx) (sv_a v));
       s \<leftarrow> register_escape_handle cx vid v use root s;
       Some (escape_place cx v use place root s)
     }"

definition clear_root :: "cap_context \<Rightarrow> nat \<Rightarrow> action" where
  "clear_root cx vid s = map_option (\<lambda>r. case r of None \<Rightarrow> s | Some root \<Rightarrow> clear_moved root s) (root_symbol (cx_mod cx) vid)"

definition analyze_assign :: "cap_context \<Rightarrow> (task \<Rightarrow> action) \<Rightarrow> svalue \<Rightarrow> action" where
  "analyze_assign cx rec v s =
     (let m = cx_mod cx; ty_b = value_type m (sv_b v); lhs_sym = local_binding_symbol m (sv_a v) in
      do {
        s \<leftarrow> rec (TValue (sv_a v) UseAssignLhs kInvalidId) s;
        let binds = (lhs_sym \<noteq> kInvalidId \<and> is_borrow_type (cx_types cx) ty_b);
        let s = (if lhs_sym \<noteq> kInvalidId then release_owner_borrows lhs_sym s else s);
        rhs_use \<leftarrow> (if is_escape_type (cx_types cx) ty_b
          then map_option (\<lambda>u. case u of None \<Rightarrow> UseValue | Some u \<Rightarrow> u)
                 (escape_cell_use_for_place m (cx_types cx) (is_symbol_static cx) (sv_a v) (value_type m (sv_a v)))
          else Some UseValue);
        s \<leftarrow> rec (TValue (sv_b v) rhs_use (if binds then lhs_sym else kInvalidId)) s;
        let plain_local = (sv_a v \<noteq> kInvalidId \<and> sv_a v < length (sm_values m) \<and>
          (let lhs = sm_values m ! sv_a v in sv_kind lhs = SvLocal \<and> sv_sym lhs \<noteq> kInvalidId \<and> \<not> is_symbol_static cx (sv_sym lhs)));
        let s = report_if (is_borrow_type (cx_types cx) ty_b \<and> \<not> plain_local) BorrowEscapeToStorage (sv_span v) s;
        clear_root cx (sv_a v) s
      })"

text \<open>An argument of a core call; a hole and an index out of range are no value.\<close>

definition arg_value_at :: "smodule \<Rightarrow> svalue \<Rightarrow> nat \<Rightarrow> nat" where
  "arg_value_at m v index =
     (let aid = u32 (sv_arg_begin v + index) in
      if sv_arg_count v \<le> index \<or> length (sm_args m) \<le> aid then kInvalidId
      else if sa_is_hole (sm_args m ! aid) then kInvalidId else sa_value (sm_args m ! aid))"

definition report_shared_write_if_needed :: "cap_context \<Rightarrow> nat \<Rightarrow> action" where
  "report_shared_write_if_needed cx vid s =
     (if vid = kInvalidId \<or> length (sm_values (cx_mod cx)) \<le> vid then Some s
      else map_option (\<lambda>p. report_if (case p of None \<Rightarrow> False | Some p \<Rightarrow> has_active_shared s p) BorrowSharedWriteConflict
               (sv_span (sm_values (cx_mod cx) ! vid)) s) (place_ref_of (cx_mod cx) vid))"

definition written_place :: "cap_context \<Rightarrow> (task \<Rightarrow> action) \<Rightarrow> nat \<Rightarrow> action" where
  "written_place cx rec vid s =
     (if vid = kInvalidId then Some s else do { s \<leftarrow> value_here rec vid s; report_shared_write_if_needed cx vid s })"

definition is_escape_mem_core_call :: "cap_context \<Rightarrow> svalue \<Rightarrow> bool" where
  "is_escape_mem_core_call cx v =
     ((sv_core_call_kind v \<in> {CkMemReplace, CkMemSwap} \<and> type_contains_escape (cx_mod cx) (cx_types cx) (sv_core_call_type_arg v))
      \<or> (sv_core_call_kind v = CkMemTake \<and> is_optional_escape_type (cx_types cx) (sv_core_call_type_arg v)))"

definition is_array_family_core_call :: "svalue \<Rightarrow> bool" where
  "is_array_family_core_call v = (sv_core_call_kind v \<in> {CkArraySwapAt, CkArrayOwnerReplaceAt, CkArrayOwnerTakeAt, CkArrayOwnerPutAt})"

text \<open>The owner that replaces what a place holds: into its cell, or moved out of its own place.\<close>

definition replaced_by :: "cap_context \<Rightarrow> (task \<Rightarrow> action) \<Rightarrow> nat \<Rightarrow> nat \<Rightarrow> action" where
  "replaced_by cx rec lhs rhs s =
     (let m = cx_mod cx in
      do {
        rhs_use \<leftarrow> (if lhs \<noteq> kInvalidId \<and> rhs \<noteq> kInvalidId \<and> is_escape_type (cx_types cx) (value_type m rhs)
          then map_option (\<lambda>u. case u of None \<Rightarrow> UseValue | Some u \<Rightarrow> u)
                 (escape_cell_use_for_place m (cx_types cx) (is_symbol_static cx) lhs (value_type m lhs))
          else Some UseValue);
        if rhs = kInvalidId then Some s
        else do {
          s \<leftarrow> rec (TValue rhs rhs_use kInvalidId) s;
          if rhs_use = UseValue \<and> type_contains_escape m (cx_types cx) (value_type m rhs)
          then map_option (\<lambda>r. case r of None \<Rightarrow> s | Some root \<Rightarrow> mark_moved root s) (root_symbol m rhs)
          else Some s
        }
      })"

definition analyze_core_call :: "cap_context \<Rightarrow> (task \<Rightarrow> action) \<Rightarrow> svalue \<Rightarrow> action" where
  "analyze_core_call cx rec v s =
     (let lhs = arg_value_at (cx_mod cx) v 0; rhs = arg_value_at (cx_mod cx) v 1; k = sv_core_call_kind v in
      do {
        s \<leftarrow> written_place cx rec lhs s;
        if k \<in> {CkMemTake, CkArrayOwnerTakeAt} then clear_root cx lhs s
        else if k \<in> {CkMemReplace, CkArrayOwnerReplaceAt, CkArrayOwnerPutAt}
        then do { s \<leftarrow> replaced_by cx rec lhs rhs s; clear_root cx lhs s }
        else do { s \<leftarrow> written_place cx rec rhs s; s \<leftarrow> clear_root cx lhs s; clear_root cx rhs s }
      })"

text \<open>The arguments up to the first index out of range; holes are skipped.\<close>

definition call_args :: "smodule \<Rightarrow> svalue \<Rightarrow> nat list" where
  "call_args m v =
     map sa_value (filter (\<lambda>a. \<not> sa_is_hole a)
       (map (\<lambda>aid. sm_args m ! aid)
         (takeWhile (\<lambda>aid. aid < length (sm_args m)) (map (\<lambda>i. u32 (sv_arg_begin v + i)) [0 ..< sv_arg_count v]))))"

definition analyze_call :: "cap_context \<Rightarrow> (task \<Rightarrow> action) \<Rightarrow> svalue \<Rightarrow> action" where
  "analyze_call cx rec v s =
     do {
       s \<leftarrow> value_here rec (sv_a v) s;
       if is_escape_mem_core_call cx v \<or> is_array_family_core_call v then analyze_core_call cx rec v s
       else do {
         s \<leftarrow> for_each (\<lambda>a. rec (TValue a UseCallArg kInvalidId)) (call_args (cx_mod cx) v) (enter_scope s);
         Some (leave_scope s)
       }
     }"

definition place_checks :: "cap_context \<Rightarrow> nat \<Rightarrow> svalue \<Rightarrow> value_use \<Rightarrow> action" where
  "place_checks cx vid v use s =
     do { s \<leftarrow> check_use_after_move cx vid use (sv_span v) s; check_place_access_conflicts cx vid use (sv_span v) s }"

text \<open>The elements of a literal, when its slice is in range; holes are skipped.\<close>

definition literal_args :: "smodule \<Rightarrow> svalue \<Rightarrow> nat list" where
  "literal_args m v = map sa_value (filter (\<lambda>a. \<not> sa_is_hole a) (slice_args m v))"

definition analyze_value :: "cap_context \<Rightarrow> (task \<Rightarrow> action) \<Rightarrow> nat \<Rightarrow> value_use \<Rightarrow> nat \<Rightarrow> action" where
  "analyze_value cx rec vid use owner s =
     (if vid = kInvalidId \<or> length (sm_values (cx_mod cx)) \<le> vid then Some s
      else
        let v = sm_values (cx_mod cx) ! vid in
        (case sv_kind v of
           SvLocal \<Rightarrow> analyze_local cx vid v use s
         | SvBorrow \<Rightarrow> analyze_borrow cx rec v owner s
         | SvEscape \<Rightarrow> analyze_escape cx rec vid v use s
         | SvAssign \<Rightarrow> analyze_assign cx rec v s
         | SvCall \<Rightarrow> analyze_call cx rec v s
         | SvPipeCall \<Rightarrow> analyze_call cx rec v s
         | SvEnumCtor \<Rightarrow> analyze_call cx rec v s
         | SvIndex \<Rightarrow> do { s \<leftarrow> value_here rec (sv_a v) s; s \<leftarrow> value_here rec (sv_b v) s; place_checks cx vid v use s }
         | SvField \<Rightarrow> do { s \<leftarrow> value_here rec (sv_a v) s; place_checks cx vid v use s }
         | SvIfExpr \<Rightarrow> for_each (value_here rec) [sv_a v, sv_b v, sv_c v] s
         | SvBlockExpr \<Rightarrow> do { s \<leftarrow> rec (TBlock (sv_a v)) s;
             if sv_b v \<noteq> kInvalidId then value_here rec (sv_b v) s else Some s }
         | SvLoopExpr \<Rightarrow> do { s \<leftarrow> for_each (value_here rec) (filter (\<lambda>c. c \<noteq> kInvalidId) [sv_a v, sv_c v]) s; rec (TBlock (sv_b v)) s }
         | SvUnary \<Rightarrow> value_here rec (sv_a v) s
         | SvPostfixInc \<Rightarrow> value_here rec (sv_a v) s
         | SvCast \<Rightarrow> value_here rec (sv_a v) s
         | SvBinary \<Rightarrow> for_each (value_here rec) [sv_a v, sv_b v] s
         | SvArrayLit \<Rightarrow> for_each (value_here rec) (literal_args (cx_mod cx) v) s
         | SvFieldInit \<Rightarrow> for_each (value_here rec) (literal_args (cx_mod cx) v) s
         | _ \<Rightarrow> Some s))"

section \<open>Statements\<close>

text \<open>A part of the analysis from a flow state, followed by what is done with its end.\<close>

definition block_flow :: "(task \<Rightarrow> action) \<Rightarrow> nat \<Rightarrow> flow_state \<Rightarrow> cap_state \<Rightarrow> (flow_state \<times> cap_state) option" where
  "block_flow rec bid = with_flow (rec (TBlock bid))"

definition value_flow :: "(task \<Rightarrow> action) \<Rightarrow> nat \<Rightarrow> flow_state \<Rightarrow> cap_state \<Rightarrow> (flow_state \<times> cap_state) option" where
  "value_flow rec vid = with_flow (rec (TValue vid UseValue kInvalidId))"

definition analyze_var_decl :: "cap_context \<Rightarrow> (task \<Rightarrow> action) \<Rightarrow> sstmt \<Rightarrow> action" where
  "analyze_var_decl cx rec st s =
     (let ty = value_type (cx_mod cx) (ss_init st); types = cx_types cx;
          binds = (ss_sym st \<noteq> kInvalidId \<and> is_borrow_type types ty) in
      do {
        s \<leftarrow> (if ss_has_consume_else st then rec (TValue (ss_init st) UseAssignLhs kInvalidId) s else Some s);
        let s = (if binds then release_owner_borrows (ss_sym st) s else s);
        let use = (if is_escape_type types ty then (case escape_cell_use_for_var_decl types st of None \<Rightarrow> UseValue | Some u \<Rightarrow> u) else UseValue);
        s \<leftarrow> rec (TValue (ss_init st) use (if binds then ss_sym st else kInvalidId)) s;
        let s = report_if (is_borrow_type types ty \<and> ss_is_static st) BorrowEscapeToStorage (ss_span st) s;
        s \<leftarrow> (if ss_has_consume_else st \<and> ss_b st \<noteq> kInvalidId
             then let flow_in = capture_flow_state s in map_option (\<lambda>(_, s). restore_flow_state flow_in s) (block_flow rec (ss_b st) flow_in s)
             else Some s);
        Some (if ss_sym st \<noteq> kInvalidId then clear_moved (ss_sym st) s else s)
      })"

text \<open>Alternatives that all begin in one flow state; their ends are merged one by one.\<close>

fun merge_arms :: "(task \<Rightarrow> action) \<Rightarrow> (nat \<times> flow_state) list \<Rightarrow> flow_state \<Rightarrow> cap_state \<Rightarrow> (flow_state \<times> cap_state) option" where
  "merge_arms rec [] merged s = Some (merged, s)"
| "merge_arms rec ((body, flow_in) # arms) merged s =
     do { (out, s) \<leftarrow> block_flow rec body flow_in s; merge_arms rec arms (merge_flow_state merged out) s }"

definition analyze_try :: "cap_context \<Rightarrow> (task \<Rightarrow> action) \<Rightarrow> sstmt \<Rightarrow> action" where
  "analyze_try cx rec st s =
     (let flow_in = capture_flow_state s; cs = sm_try_catch_clauses (cx_mod cx);
          clauses = (if ss_catch_clause_begin st + ss_catch_clause_count st \<le> length cs
                     then slice cs (ss_catch_clause_begin st) (ss_catch_clause_count st) else []) in
      do {
        (try_out, s) \<leftarrow> block_flow rec (ss_a st) flow_in s;
        (merged, s) \<leftarrow> merge_arms rec (map (\<lambda>c. (cc_body c, flow_in)) clauses) try_out s;
        Some (restore_flow_state merged s)
      })"

definition analyze_if :: "(task \<Rightarrow> action) \<Rightarrow> sstmt \<Rightarrow> action" where
  "analyze_if rec st s =
     do {
       s \<leftarrow> value_here rec (ss_expr st) s;
       let flow_in = capture_flow_state s;
       (then_out, s) \<leftarrow> block_flow rec (ss_a st) flow_in s;
       (else_out, s) \<leftarrow> (if ss_b st \<noteq> kInvalidId then block_flow rec (ss_b st) flow_in s else Some (flow_in, s));
       Some (restore_flow_state (merge_flow_state then_out else_out) s)
     }"

text \<open>At most \<open>n\<close> rounds over condition and body; the flow state after the last condition.\<close>

fun loop_rounds :: "nat \<Rightarrow> (task \<Rightarrow> action) \<Rightarrow> sstmt \<Rightarrow> flow_state \<Rightarrow> flow_state \<Rightarrow> flow_state \<Rightarrow> cap_state \<Rightarrow> (flow_state \<times> cap_state) option" where
  "loop_rounds 0 rec st first head exit s = Some (exit, s)"
| "loop_rounds (Suc n) rec st first head exit s =
     do {
       (cond_out, s) \<leftarrow> value_flow rec (ss_expr st) head s;
       (body_out, s) \<leftarrow> block_flow rec (ss_a st) cond_out s;
       let next_head = merge_flow_state first body_out;
       if flow_state_equal next_head head then Some (cond_out, s) else loop_rounds n rec st first next_head cond_out s
     }"

definition analyze_loop :: "(task \<Rightarrow> action) \<Rightarrow> sstmt \<Rightarrow> flow_state \<Rightarrow> action" where
  "analyze_loop rec st first s =
     do {
       (exit, s) \<leftarrow> value_flow rec (ss_expr st) first s;
       (exit, s) \<leftarrow> loop_rounds 16 rec st first first exit s;
       Some (restore_flow_state (merge_flow_state first exit) s)
     }"

definition analyze_while :: "(task \<Rightarrow> action) \<Rightarrow> sstmt \<Rightarrow> action" where
  "analyze_while rec st s = analyze_loop rec st (capture_flow_state s) s"

definition analyze_do_while :: "(task \<Rightarrow> action) \<Rightarrow> sstmt \<Rightarrow> action" where
  "analyze_do_while rec st s =
     do { (first_body, s) \<leftarrow> block_flow rec (ss_a st) (capture_flow_state s) s; analyze_loop rec st first_body s }"

definition analyze_scope :: "(task \<Rightarrow> action) \<Rightarrow> sstmt \<Rightarrow> action" where
  "analyze_scope rec st s =
     do { (out, s) \<leftarrow> block_flow rec (ss_a st) (capture_flow_state s) s; Some (restore_flow_state out s) }"

text \<open>Before an arm that binds an owner out of the scrutinee, the scrutinee is moved.\<close>

definition binds_owner :: "cap_context \<Rightarrow> switch_case \<Rightarrow> bool" where
  "binds_owner cx c =
     (let binds = sm_switch_enum_binds (cx_mod cx); bb = sc_enum_bind_begin c; n = sc_enum_bind_count c in
      bb \<le> length binds \<and> bb + n \<le> length binds
      \<and> list_ex (\<lambda>i. type_contains_escape (cx_mod cx) (cx_types cx) (eb_bind_type (binds ! i))) [bb ..< bb + n])"

definition arm_flow :: "cap_context \<Rightarrow> sstmt \<Rightarrow> flow_state \<Rightarrow> switch_case \<Rightarrow> flow_state" where
  "arm_flow cx st after c =
     (let vs = sm_values (cx_mod cx); e = ss_expr st in
      if binds_owner cx c \<and> e \<noteq> kInvalidId \<and> e < length vs \<and> sv_kind (vs ! e) = SvLocal \<and> sv_sym (vs ! e) \<noteq> kInvalidId
      then after\<lparr>fl_moved_true := AList.update (sv_sym (vs ! e)) True (fl_moved_true after)\<rparr> else after)"

definition analyze_switch :: "cap_context \<Rightarrow> (task \<Rightarrow> action) \<Rightarrow> sstmt \<Rightarrow> action" where
  "analyze_switch cx rec st s =
     (let flow_in = capture_flow_state s; cs = sm_switch_cases (cx_mod cx);
          cases = (if ss_case_begin st + ss_case_count st \<le> length cs then slice cs (ss_case_begin st) (ss_case_count st) else []) in
      do {
        s \<leftarrow> value_here rec (ss_expr st) s;
        let after = capture_flow_state s;
        (case map (\<lambda>c. (sc_body c, arm_flow cx st after c)) cases of
           [] \<Rightarrow> Some (restore_flow_state (merge_flow_state flow_in after) s)
         | (body, start) # arms \<Rightarrow>
             do {
               (out, s) \<leftarrow> block_flow rec body start s;
               (merged, s) \<leftarrow> merge_arms rec arms out s;
               Some (restore_flow_state merged s)
             })
      })"

definition end_path :: "cap_state \<Rightarrow> cap_state" where
  "end_path s = s\<lparr>cs_terminated := True\<rparr>"

definition analyze_return :: "cap_context \<Rightarrow> (task \<Rightarrow> action) \<Rightarrow> sstmt \<Rightarrow> action" where
  "analyze_return cx rec st s =
     do {
       s \<leftarrow> rec (TValue (ss_expr st) UseReturnValue kInvalidId) s;
       Some (end_path (report_if (is_borrow_type (cx_types cx) (value_type (cx_mod cx) (ss_expr st))) BorrowEscapeFromReturn (ss_span st) s))
     }"

definition analyze_stmt :: "cap_context \<Rightarrow> (task \<Rightarrow> action) \<Rightarrow> nat \<Rightarrow> action" where
  "analyze_stmt cx rec sid s =
     (if length (sm_stmts (cx_mod cx)) \<le> sid then Some s
      else
        let st = sm_stmts (cx_mod cx) ! sid in
        (case ss_kind st of
           SsExprStmt \<Rightarrow> value_here rec (ss_expr st) s
         | SsVarDecl \<Rightarrow> analyze_var_decl cx rec st s
         | SsThrowStmt \<Rightarrow> map_option end_path (value_here rec (ss_expr st) s)
         | SsTryCatchStmt \<Rightarrow> analyze_try cx rec st s
         | SsIfStmt \<Rightarrow> analyze_if rec st s
         | SsWhileStmt \<Rightarrow> analyze_while rec st s
         | SsDoScopeStmt \<Rightarrow> analyze_scope rec st s
         | SsManualStmt \<Rightarrow> analyze_scope rec st s
         | SsDoWhileStmt \<Rightarrow> analyze_do_while rec st s
         | SsReturn \<Rightarrow> analyze_return cx rec st s
         | SsBreak \<Rightarrow> map_option end_path (if ss_expr st \<noteq> kInvalidId then value_here rec (ss_expr st) s else Some s)
         | SsContinue \<Rightarrow> Some (end_path s)
         | SsSwitch \<Rightarrow> analyze_switch cx rec st s
         | _ \<Rightarrow> Some s))"

section \<open>The knot and the run\<close>

fun analyze_task :: "cap_context \<Rightarrow> (task \<Rightarrow> action) \<Rightarrow> task \<Rightarrow> action" where
  "analyze_task cx rec (TValue vid use owner) = analyze_value cx rec vid use owner"
| "analyze_task cx rec (TBlock bid) = analyze_block cx rec bid"
| "analyze_task cx rec (TStmt sid) = analyze_stmt cx rec sid"

primrec analyze :: "nat \<Rightarrow> cap_context \<Rightarrow> task \<Rightarrow> action" where
  "analyze 0 cx = (\<lambda>t s. None)"
| "analyze (Suc n) cx = analyze_task cx (analyze n cx)"

text \<open>What every function, and the pass over the globals before them, begins with.\<close>

definition fresh :: "cap_state \<Rightarrow> cap_state" where
  "fresh s = s\<lparr>cs_active := [], cs_moved := [], cs_scopes := [], cs_visiting := {}, cs_terminated := False\<rparr>"

definition start_state :: "sdiag list \<Rightarrow> cap_state" where
  "start_state bag = \<lparr>cs_bag = bag, cs_error_count = 0, cs_handles = [], cs_meta_by_value = Map.empty, cs_active = [],
     cs_moved = [], cs_scopes = [], cs_visiting = {}, cs_terminated = False\<rparr>"

definition analyze_func :: "nat \<Rightarrow> cap_context \<Rightarrow> sfunc \<Rightarrow> action" where
  "analyze_func n cx f s =
     (let cx = cx\<lparr>cx_pure := fu_is_pure f, cx_comptime := fu_is_comptime f\<rparr>; s = fresh s in
      if fu_entry f \<noteq> kInvalidId then analyze n cx (TBlock (fu_entry f)) s else Some s)"

definition module_context :: "smodule \<Rightarrow> type_pool \<Rightarrow> cap_context" where
  "module_context m types = \<lparr>cx_mod = m, cx_types = types, cx_traits = collect_symbol_traits m, cx_pure = False, cx_comptime = False\<rparr>"

definition run_state :: "nat \<Rightarrow> smodule \<Rightarrow> type_pool \<Rightarrow> sdiag list \<Rightarrow> cap_state option" where
  "run_state n m types bag =
     (let cx = module_context m types in
      do {
        s \<leftarrow> for_each (\<lambda>g. analyze n cx (TValue (gv_init g) UseValue kInvalidId))
              (filter (\<lambda>g. gv_init g \<noteq> kInvalidId) (sm_globals m)) (fresh (start_state bag));
        for_each (analyze_func n cx) (sm_funcs m) s
      })"

record cap_symbol_state =
  sy_moved_by_escape :: bool
  sy_active_shared_borrows :: nat
  sy_active_mut_borrow :: bool

record cap_result =
  cr_ok :: bool
  cr_error_count :: nat
  cr_state_by_symbol :: "nat \<Rightarrow> cap_symbol_state option"
  cr_escape_handle_count :: nat
  cr_cell_commit_count :: nat
  cr_abi_pack_count :: nat

definition symbol_state :: "(nat \<Rightarrow> cap_symbol_state option) \<Rightarrow> nat \<Rightarrow> cap_symbol_state" where
  "symbol_state t sid = (case t sid of None \<Rightarrow> \<lparr>sy_moved_by_escape = False, sy_active_shared_borrows = 0, sy_active_mut_borrow = False\<rparr> | Some st \<Rightarrow> st)"

definition states_by_symbol :: "cap_state \<Rightarrow> nat \<Rightarrow> cap_symbol_state option" where
  "states_by_symbol s =
     (let moved = fold (\<lambda>(sid, b) t. t(sid \<mapsto> (symbol_state t sid)\<lparr>sy_moved_by_escape := b\<rparr>)) (cs_moved s) Map.empty
      in fold (\<lambda>b t. let r = pr_root (ab_place b); st = symbol_state t r in
             if r = kInvalidId then t
             else if ab_is_mut b then t(r \<mapsto> st\<lparr>sy_active_mut_borrow := True\<rparr>)
             else t(r \<mapsto> st\<lparr>sy_active_shared_borrows := u32 (sy_active_shared_borrows st + 1)\<rparr>)) (cs_active s) moved)"

definition cap_result_of :: "cap_state \<Rightarrow> cap_result" where
  "cap_result_of s = \<lparr>cr_ok = (cs_error_count s = 0), cr_error_count = cs_error_count s, cr_state_by_symbol = states_by_symbol s,
     cr_escape_handle_count = u32 (length (cs_handles s)),
     cr_cell_commit_count = fold (\<lambda>h n. u32 (n + em_cell_commit_count h)) (cs_handles s) 0,
     cr_abi_pack_count = fold (\<lambda>h n. u32 (n + em_abi_pack_count h)) (cs_handles s) 0\<rparr>"

text \<open>The module with its handles, the bag and the result.\<close>

definition analyze_capabilities :: "nat \<Rightarrow> smodule \<Rightarrow> type_pool \<Rightarrow> sdiag list \<Rightarrow> (smodule \<times> sdiag list \<times> cap_result) option" where
  "analyze_capabilities n m types bag =
     (let m = fst (canonicalize_for_capability m) in
      map_option (\<lambda>s. (m\<lparr>sm_escape_handles := cs_handles s\<rparr>, cs_bag s, cap_result_of s)) (run_state n m types bag))"

end
