(* ===== verification/SIR_Cap_Facts.thy ===== *)
theory SIR_Cap_Facts
  imports SIR_Capability
begin

text \<open>
  The rules for reasoning about the walk of the capability analysis. The locale \<open>analysis_relation\<close>
  says what a relation between states has to allow (the primitive operations, a scope, a visit of a
  block, a run from a flow state) so that every run of the walk respects it. It is interpreted for
  the frame (scopes and visits are put back), for the diagnostics (they are only added and counted)
  and, in \<open>SIR_Cap_Handles\<close>, for the escape handles. The same shape of rules shows that more fuel does
  not change a result.
\<close>

section \<open>More fuel\<close>

definition opt_le :: "'a option \<Rightarrow> 'a option \<Rightarrow> bool" where
  "opt_le a b \<longleftrightarrow> (\<forall>x. a = Some x \<longrightarrow> b = Some x)"

named_theorems le_intros "rules for results that stay with more fuel"

lemma opt_le_refl [le_intros]: "opt_le a a"
  by (simp add: opt_le_def)

lemma opt_le_bind [le_intros]:
  "opt_le a b \<Longrightarrow> (\<And>x. opt_le (f x) (g x)) \<Longrightarrow> opt_le (Option.bind a f) (Option.bind b g)"
  by (fastforce simp: opt_le_def bind_eq_Some_conv)

lemma opt_le_map [le_intros]: "opt_le a b \<Longrightarrow> opt_le (map_option f a) (map_option f b)"
  by (auto simp: opt_le_def)

lemma opt_le_if [le_intros]: "opt_le a a' \<Longrightarrow> opt_le b b' \<Longrightarrow> opt_le (if c then a else b) (if c then a' else b')"
  by simp

lemma opt_le_prod [le_intros]: "(\<And>x y. opt_le (f x y) (g x y)) \<Longrightarrow> opt_le (case_prod f p) (case_prod g p)"
  by (cases p) simp

lemma opt_le_let [le_intros]: "(\<And>x. opt_le (f x) (g x)) \<Longrightarrow> opt_le (Let a f) (Let a g)"
  by simp

definition rec_le :: "(task \<Rightarrow> action) \<Rightarrow> (task \<Rightarrow> action) \<Rightarrow> bool" where
  "rec_le r r' \<longleftrightarrow> (\<forall>t s. opt_le (r t s) (r' t s))"

lemma rec_leD: "rec_le r r' \<Longrightarrow> opt_le (r t s) (r' t s)"
  by (simp add: rec_le_def)

lemma for_each_le: "(\<And>x s. opt_le (f x s) (g x s)) \<Longrightarrow> opt_le (for_each f xs s) (for_each g xs s)"
  by (induction xs arbitrary: s) (auto intro!: le_intros)

lemma run_stmts_le:
  assumes "rec_le r r'"
  shows "opt_le (run_stmts r is s) (run_stmts r' is s)"
  by (induction "is" arbitrary: s) (auto intro!: le_intros rec_leD [OF assms])

lemma value_here_le: "rec_le r r' \<Longrightarrow> opt_le (value_here r v s) (value_here r' v s)"
  by (simp add: value_here_def rec_leD)

lemma with_flow_le: "(\<And>s. opt_le (f s) (g s)) \<Longrightarrow> opt_le (with_flow f fl s) (with_flow g fl s)"
  by (fastforce simp: with_flow_def opt_le_def split: option.splits)

lemma flows_le:
  assumes "rec_le r r'"
  shows "opt_le (block_flow r b fl s) (block_flow r' b fl s)" "opt_le (value_flow r v fl s) (value_flow r' v fl s)"
  by (simp_all add: block_flow_def value_flow_def with_flow_le rec_leD [OF assms])

lemma merge_arms_le:
  assumes "rec_le r r'"
  shows "opt_le (merge_arms r arms fl s) (merge_arms r' arms fl s)"
proof (induction arms arbitrary: fl s)
  case (Cons arm arms)
  obtain body start where arm: "arm = (body, start)" by fastforce
  show ?case unfolding arm by (simp, intro le_intros flows_le [OF assms] Cons.IH)
qed (simp add: le_intros)

lemma loop_rounds_le:
  assumes "rec_le r r'"
  shows "opt_le (loop_rounds n r st f h e s) (loop_rounds n r' st f h e s)"
proof (induction n arbitrary: h e s)
  case (Suc n)
  show ?case by (simp only: loop_rounds.simps, intro le_intros flows_le [OF assms] Suc.IH)
qed (simp add: le_intros)

lemmas walk_le = rec_leD value_here_le flows_le merge_arms_le loop_rounds_le run_stmts_le

lemma analyze_value_le:
  assumes "rec_le r r'"
  shows "opt_le (analyze_value cx r vid use owner s) (analyze_value cx r' vid use owner s)"
proof -
  note le = walk_le [OF assms] le_intros for_each_le
  have written: "opt_le (written_place cx r v s) (written_place cx r' v s)" for v s
    unfolding written_place_def by (intro le)
  have replaced: "opt_le (replaced_by cx r v w s) (replaced_by cx r' v w s)" for v w s
    unfolding replaced_by_def by (intro le)
  have core: "opt_le (analyze_core_call cx r v s) (analyze_core_call cx r' v s)" for v s
    unfolding analyze_core_call_def by (intro le written replaced)
  have call: "opt_le (analyze_call cx r v s) (analyze_call cx r' v s)" for v s
    unfolding analyze_call_def by (intro le core)
  have assign: "opt_le (analyze_assign cx r v s) (analyze_assign cx r' v s)" for v s
    unfolding analyze_assign_def by (intro le)
  have escape: "opt_le (analyze_escape cx r vid v use s) (analyze_escape cx r' vid v use s)" for v s
    unfolding analyze_escape_def by (intro le)
  have borrow: "opt_le (analyze_borrow cx r v owner s) (analyze_borrow cx r' v owner s)" for v s
    unfolding analyze_borrow_def by (intro le)
  show ?thesis
    unfolding analyze_value_def Let_def
    by (intro opt_le_if opt_le_refl, cases "sv_kind (sm_values (cx_mod cx) ! vid)")
      (simp_all only: value_kind.case, (intro le call assign escape borrow)+)
qed

lemma analyze_stmt_le:
  assumes "rec_le r r'"
  shows "opt_le (analyze_stmt cx r sid s) (analyze_stmt cx r' sid s)"
proof -
  note le = walk_le [OF assms] le_intros for_each_le
  have var: "opt_le (analyze_var_decl cx r st s) (analyze_var_decl cx r' st s)" for st s
    unfolding analyze_var_decl_def by (intro le)
  have tryc: "opt_le (analyze_try cx r st s) (analyze_try cx r' st s)" for st s
    unfolding analyze_try_def by (intro le)
  have iff: "opt_le (analyze_if r st s) (analyze_if r' st s)" for st s
    unfolding analyze_if_def by (intro le)
  have loop: "opt_le (analyze_loop r st f s) (analyze_loop r' st f s)" for st f s
    unfolding analyze_loop_def by (intro le)
  have loops: "opt_le (analyze_while r st s) (analyze_while r' st s)" "opt_le (analyze_do_while r st s) (analyze_do_while r' st s)"
    for st s
    unfolding analyze_while_def analyze_do_while_def by (intro le loop)+
  have scope: "opt_le (analyze_scope r st s) (analyze_scope r' st s)" for st s
    unfolding analyze_scope_def by (intro le)
  have ret: "opt_le (analyze_return cx r st s) (analyze_return cx r' st s)" for st s
    unfolding analyze_return_def by (intro le)
  have arms: "opt_le (case xs of [] \<Rightarrow> a | (body, start) # arms \<Rightarrow> do { (out, s) \<leftarrow> block_flow r body start s; (merged, s) \<leftarrow> merge_arms r arms out s; k merged s })
      (case xs of [] \<Rightarrow> a | (body, start) # arms \<Rightarrow> do { (out, s) \<leftarrow> block_flow r' body start s; (merged, s) \<leftarrow> merge_arms r' arms out s; k merged s })" for xs a k s
    by (cases xs) (auto intro!: le)
  have switch: "opt_le (analyze_switch cx r st s) (analyze_switch cx r' st s)" for st s
    unfolding analyze_switch_def by (intro le arms)
  show ?thesis
    unfolding analyze_stmt_def Let_def
    by (intro opt_le_if opt_le_refl, cases "ss_kind (sm_stmts (cx_mod cx) ! sid)")
      (simp_all only: stmt_kind.case, (intro le var tryc iff loops scope ret switch)+)
qed

lemma analyze_task_le: "rec_le r r' \<Longrightarrow> rec_le (analyze_task cx r) (analyze_task cx r')"
  unfolding rec_le_def
proof (intro allI)
  fix t s
  assume le: "\<forall>t s. opt_le (r t s) (r' t s)"
  then have rec: "rec_le r r'" by (simp add: rec_le_def)
  show "opt_le (analyze_task cx r t s) (analyze_task cx r' t s)"
  proof (cases t)
    case (TBlock bid)
    have "opt_le (analyze_block cx r bid s) (analyze_block cx r' bid s)"
      unfolding analyze_block_def by (intro le_intros run_stmts_le [OF rec])
    then show ?thesis using TBlock by simp
  qed (simp_all add: analyze_value_le [OF rec] analyze_stmt_le [OF rec])
qed

text \<open>A run that returns returns the same with more fuel.\<close>

lemma analyze_more_fuel: "analyze n cx t s = Some s' \<Longrightarrow> n \<le> k \<Longrightarrow> analyze k cx t s = Some s'"
proof -
  have step: "rec_le (analyze n cx) (analyze (Suc n) cx)" for n
  proof (induction n)
    case 0
    then show ?case by (simp add: rec_le_def opt_le_def)
  next
    case (Suc n)
    from analyze_task_le [OF this, of cx] show ?case by (simp only: analyze.simps)
  qed
  have "rec_le (analyze n cx) (analyze k cx)" if "n \<le> k" for k
    using that
  proof (induction k rule: dec_induct)
    case base
    then show ?case by (simp add: rec_le_def opt_le_refl)
  next
    case (step k)
    then show ?case using \<open>rec_le (analyze k cx) (analyze (Suc k) cx)\<close> unfolding rec_le_def opt_le_def by blast
  qed
  then show "analyze n cx t s = Some s' \<Longrightarrow> n \<le> k \<Longrightarrow> analyze k cx t s = Some s'"
    unfolding rec_le_def opt_le_def by blast
qed

section \<open>Relations every run respects\<close>

text \<open>A result, and a result with a flow state, related to the state \<open>b\<close>.\<close>

definition ends_in :: "(cap_state \<Rightarrow> cap_state \<Rightarrow> bool) \<Rightarrow> cap_state \<Rightarrow> cap_state option \<Rightarrow> bool" where
  "ends_in R b r \<longleftrightarrow> (\<forall>s. r = Some s \<longrightarrow> R b s)"

definition flow_ends_in :: "(cap_state \<Rightarrow> cap_state \<Rightarrow> bool) \<Rightarrow> cap_state \<Rightarrow> (flow_state \<times> cap_state) option \<Rightarrow> bool" where
  "flow_ends_in R b r \<longleftrightarrow> (\<forall>f s. r = Some (f, s) \<longrightarrow> R b s)"

named_theorems ends_intros "rules for results related to a state"

lemma ends_None [ends_intros]: "ends_in R b None"
  by (simp add: ends_in_def)

lemma ends_Some [ends_intros]: "R b s \<Longrightarrow> ends_in R b (Some s)"
  by (simp add: ends_in_def)

lemma ends_bind [ends_intros]:
  "ends_in R b r \<Longrightarrow> (\<And>s. R b s \<Longrightarrow> ends_in R b (f s)) \<Longrightarrow> ends_in R b (Option.bind r f)"
  by (fastforce simp: ends_in_def bind_eq_Some_conv)

lemma ends_bind_other: "(\<And>x. r = Some x \<Longrightarrow> ends_in R b (f x)) \<Longrightarrow> ends_in R b (Option.bind r f)"
  by (fastforce simp: ends_in_def bind_eq_Some_conv)

lemma ends_bind_flow [ends_intros]:
  "flow_ends_in R b r \<Longrightarrow> (\<And>fl s. R b s \<Longrightarrow> ends_in R b (f fl s)) \<Longrightarrow> ends_in R b (Option.bind r (case_prod f))"
  by (fastforce simp: ends_in_def flow_ends_in_def bind_eq_Some_conv)

lemma ends_map: "(\<And>x. r = Some x \<Longrightarrow> R b (g x)) \<Longrightarrow> ends_in R b (map_option g r)"
  by (auto simp: ends_in_def)

lemma ends_map_state [ends_intros]:
  "ends_in R b r \<Longrightarrow> (\<And>s. R b s \<Longrightarrow> R b (g s)) \<Longrightarrow> ends_in R b (map_option g r)"
  by (auto simp: ends_in_def)

lemma ends_if [ends_intros]: "(c \<Longrightarrow> ends_in R b x) \<Longrightarrow> (\<not> c \<Longrightarrow> ends_in R b y) \<Longrightarrow> ends_in R b (if c then x else y)"
  by simp

lemma ends_let_state: "R b a \<Longrightarrow> (\<And>s. R b s \<Longrightarrow> ends_in R b (f s)) \<Longrightarrow> ends_in R b (Let a f)"
  by simp

lemma ends_let: "(\<And>x. ends_in R b (f x)) \<Longrightarrow> ends_in R b (Let a f)"
  by simp

locale analysis_relation =
  fixes cx :: cap_context and R :: "cap_state \<Rightarrow> cap_state \<Rightarrow> bool"
  assumes R_refl: "R s s"
    and R_trans: "R a b \<Longrightarrow> R b c \<Longrightarrow> R a c"
    and R_report: "R s (report code sp s)"
    and R_activate: "R s (activate_borrow place is_mut owner s)"
    and R_release: "R s (release_owner_borrows owner s)"
    and R_mark: "R s (mark_moved sid s)"
    and R_clear: "R s (clear_moved sid s)"
    and R_restore: "R s (restore_flow_state f s)"
    and R_end_path: "R s (end_path s)"
    and R_register: "vid \<noteq> kInvalidId \<Longrightarrow> vid < length (sm_values (cx_mod cx)) \<Longrightarrow> sv_kind (sm_values (cx_mod cx) ! vid) = SvEscape \<Longrightarrow>
      register_escape_handle cx vid (sm_values (cx_mod cx) ! vid) use root s = Some s' \<Longrightarrow> R s s'"
    and R_scope: "R (enter_scope s) s' \<Longrightarrow> R s (leave_scope s')"
    and R_visit: "bid \<notin> cs_visiting s \<Longrightarrow> R (s\<lparr>cs_visiting := insert bid (cs_visiting s)\<rparr>) s' \<Longrightarrow>
      R s (s'\<lparr>cs_visiting := cs_visiting s' - {bid}\<rparr>)"
    and R_flow: "R (restore_flow_state f s) s' \<Longrightarrow>
      R s (s'\<lparr>cs_active := cs_active s, cs_scopes := cs_scopes s, cs_moved := cs_moved s, cs_visiting := cs_visiting s\<rparr>)"
begin

lemma R_report_if: "R b s \<Longrightarrow> R b (report_if c code sp s)"
  using R_trans [OF _ R_report] by (simp add: report_if_def)

lemmas R_steps = R_report_if R_trans [OF _ R_report] R_trans [OF _ R_activate] R_trans [OF _ R_release] R_trans [OF _ R_mark]
  R_trans [OF _ R_clear] R_trans [OF _ R_restore] R_trans [OF _ R_end_path]

definition rec_ok :: "(task \<Rightarrow> action) \<Rightarrow> bool" where
  "rec_ok r \<longleftrightarrow> (\<forall>t s. ends_in R s (r t s))"

lemma ends_rec: "rec_ok r \<Longrightarrow> R b s \<Longrightarrow> ends_in R b (r t s)"
  unfolding rec_ok_def ends_in_def using R_trans by blast

lemma ends_value_here: "rec_ok r \<Longrightarrow> R b s \<Longrightarrow> ends_in R b (value_here r v s)"
  by (simp add: value_here_def ends_rec)

lemma ends_for_each:
  assumes "\<And>x s. R b s \<Longrightarrow> ends_in R b (f x s)"
  shows "R b s \<Longrightarrow> ends_in R b (for_each f xs s)"
  by (induction xs arbitrary: s) (auto intro!: ends_intros assms)

lemma ends_run_stmts:
  assumes "rec_ok r"
  shows "R b s \<Longrightarrow> ends_in R b (run_stmts r is s)"
  by (induction "is" arbitrary: s) (auto intro!: ends_intros ends_rec [OF assms])

lemma ends_with_flow:
  assumes "rec_ok r" "R b s"
  shows "flow_ends_in R b (with_flow (r t) f s)"
proof -
  have "ends_in R (restore_flow_state f s) (r t (restore_flow_state f s))" by (rule ends_rec [OF assms(1) R_refl])
  then show ?thesis
    using R_trans [OF assms(2) R_flow] by (auto simp: flow_ends_in_def ends_in_def with_flow_def split: option.splits)
qed

lemma ends_flows:
  assumes "rec_ok r" "R b s"
  shows "flow_ends_in R b (block_flow r bid f s)" "flow_ends_in R b (value_flow r vid f s)"
  by (simp_all add: block_flow_def value_flow_def ends_with_flow assms)

lemma flow_ends_bind:
  "flow_ends_in R b r \<Longrightarrow> (\<And>fl s. R b s \<Longrightarrow> flow_ends_in R b (f fl s)) \<Longrightarrow> flow_ends_in R b (Option.bind r (case_prod f))"
  by (fastforce simp: flow_ends_in_def bind_eq_Some_conv)

lemma flow_ends_Some: "R b s \<Longrightarrow> flow_ends_in R b (Some (f, s))"
  by (simp add: flow_ends_in_def)

lemma ends_merge_arms:
  assumes "rec_ok r"
  shows "R b s \<Longrightarrow> flow_ends_in R b (merge_arms r arms f s)"
proof (induction arms arbitrary: f s)
  case (Cons arm arms)
  obtain body start where "arm = (body, start)" by fastforce
  then show ?case using Cons by (auto intro!: flow_ends_bind ends_flows [OF assms])
qed (simp add: flow_ends_Some)

lemma ends_loop_rounds:
  assumes "rec_ok r"
  shows "R b s \<Longrightarrow> flow_ends_in R b (loop_rounds n r st first head e s)"
  by (induction n arbitrary: head e s) (auto intro!: flow_ends_bind flow_ends_Some ends_flows [OF assms] simp: Let_def)

lemma R_borrow_place: "R b s \<Longrightarrow> R b (borrow_place cx v owner place s)"
  by (auto simp: borrow_place_def Let_def intro!: R_steps)

lemma R_escape_place: "R b s \<Longrightarrow> R b (escape_place cx v use place root s)"
  by (auto simp: escape_place_def Let_def intro!: R_steps)

lemma ends_checks:
  "R b s \<Longrightarrow> ends_in R b (check_use_after_move cx vid use sp s)"
  "R b s \<Longrightarrow> ends_in R b (check_place_access_conflicts cx vid use sp s)"
  "R b s \<Longrightarrow> ends_in R b (clear_root cx vid s)"
  "R b s \<Longrightarrow> ends_in R b (report_shared_write_if_needed cx vid s)"
  by (auto simp: check_use_after_move_def check_place_access_conflicts_def clear_root_def report_shared_write_if_needed_def Let_def
      intro!: ends_intros ends_map R_steps split: option.splits)

lemma R_scoped: "R b s \<Longrightarrow> ends_in R (enter_scope s) r \<Longrightarrow> ends_in R b (map_option leave_scope r)"
  using R_trans [OF _ R_scope] by (auto simp: ends_in_def)

end

text \<open>The steps of the walk.\<close>

context analysis_relation
begin

lemma ends_block:
  assumes "rec_ok r"
  shows "ends_in R s (analyze_block cx r bid s)"
proof -
  let ?s1 = "s\<lparr>cs_visiting := insert bid (cs_visiting s)\<rparr>"
  have run: "ends_in R (enter_scope ?s1) (if c then run_stmts r is (enter_scope ?s1) else Some (enter_scope ?s1))" for c "is"
    using ends_run_stmts [OF assms R_refl] by (auto intro: ends_intros R_refl)
  have "R s ((leave_scope s2)\<lparr>cs_visiting := cs_visiting (leave_scope s2) - {bid}\<rparr>)"
    if "bid \<notin> cs_visiting s" "R (enter_scope ?s1) s2" for s2
    by (rule R_visit [OF that(1) R_scope [OF that(2)]])
  then show ?thesis
    using run unfolding analyze_block_def Let_def
    by (intro ends_if ends_Some R_refl) (fastforce simp: ends_in_def bind_eq_Some_conv)
qed

lemma ends_core_call:
  assumes "rec_ok r"
  shows "R b s \<Longrightarrow> ends_in R b (analyze_core_call cx r v s)"
proof -
  have written: "R b s \<Longrightarrow> ends_in R b (written_place cx r w s)" for w s
    unfolding written_place_def by (intro ends_intros ends_value_here [OF assms] ends_checks)
  have mark: "R b s \<Longrightarrow> ends_in R b (map_option (\<lambda>x. case x of None \<Rightarrow> s | Some root \<Rightarrow> mark_moved root s) q)" for s q
    by (intro ends_map) (auto intro: R_steps split: option.splits)
  have replaced: "R b s \<Longrightarrow> ends_in R b (replaced_by cx r w w' s)" for w w' s
    unfolding replaced_by_def Let_def
    by (intro ends_bind_other ends_if ends_Some ends_bind ends_rec [OF assms] mark)
  show "R b s \<Longrightarrow> ends_in R b (analyze_core_call cx r v s)"
    unfolding analyze_core_call_def Let_def by (intro ends_intros written replaced ends_checks)
qed

lemma ends_call:
  assumes "rec_ok r" "R b s"
  shows "ends_in R b (analyze_call cx r v s)"
proof -
  have args: "R b s \<Longrightarrow> ends_in R b (Option.bind (for_each (\<lambda>a. r (TValue a UseCallArg kInvalidId)) as (enter_scope s)) (\<lambda>s. Some (leave_scope s)))"
    for "as" s
  proof -
    assume "R b s"
    moreover have "ends_in R (enter_scope s) (for_each (\<lambda>a. r (TValue a UseCallArg kInvalidId)) as (enter_scope s))"
      by (rule ends_for_each [OF ends_rec [OF assms(1)] R_refl])
    ultimately show ?thesis using R_trans [OF _ R_scope] by (fastforce simp: ends_in_def bind_eq_Some_conv)
  qed
  show ?thesis
    unfolding analyze_call_def
    by (intro ends_bind ends_if ends_value_here [OF assms(1)] ends_core_call [OF assms(1)] args assms(2))
qed

lemma ends_assign:
  assumes "rec_ok r" "R b s"
  shows "ends_in R b (analyze_assign cx r v s)"
  unfolding analyze_assign_def Let_def
  by (intro ends_bind [OF ends_rec [OF assms]] ends_bind_other ends_bind ends_rec [OF assms(1)] ends_checks R_report_if)
    (auto intro: R_steps)

lemma ends_borrow:
  assumes "rec_ok r" "R b s"
  shows "ends_in R b (analyze_borrow cx r v owner s)"
  unfolding analyze_borrow_def
  by (intro ends_bind [OF ends_rec [OF assms]] ends_if ends_Some ends_bind_other)
    (auto intro: R_steps R_borrow_place split: option.splits)

lemma ends_escape:
  assumes "rec_ok r" "R b s" "vid \<noteq> kInvalidId" "vid < length (sm_values (cx_mod cx))" "sv_kind (sm_values (cx_mod cx) ! vid) = SvEscape"
  shows "ends_in R b (analyze_escape cx r vid (sm_values (cx_mod cx) ! vid) use s)"
proof -
  have register: "R b s \<Longrightarrow> ends_in R b (register_escape_handle cx vid (sm_values (cx_mod cx) ! vid) use root s)" for s root
    using R_trans R_register [OF assms(3-5)] by (auto simp: ends_in_def)
  show ?thesis
    unfolding analyze_escape_def Let_def
    by (rule ends_bind [OF ends_rec [OF assms(1,2)]], rule ends_bind_other, rule ends_bind_other, rule ends_bind)
      (intro register ends_Some R_escape_place R_report_if | assumption)+
qed

lemma ends_value:
  assumes "rec_ok r"
  shows "ends_in R s (analyze_value cx r vid use owner s)"
proof (cases "vid = kInvalidId \<or> length (sm_values (cx_mod cx)) \<le> vid")
  case True
  then show ?thesis by (simp add: analyze_value_def ends_Some R_refl)
next
  case False
  note ends = ends_intros ends_value_here [OF assms] ends_rec [OF assms] ends_for_each ends_checks
    ends_call [OF assms] ends_assign [OF assms] ends_borrow [OF assms] ends_escape [OF assms] R_refl
  have checks: "R b s \<Longrightarrow> ends_in R b (place_checks cx vid v use s)" for b s v
    unfolding place_checks_def by (intro ends_intros ends_checks)
  have local: "ends_in R s (analyze_local cx vid v use s)" for v
    unfolding analyze_local_def by (intro ends_intros ends_checks R_refl)
  show ?thesis
    using False unfolding analyze_value_def Let_def
    by (cases "sv_kind (sm_values (cx_mod cx) ! vid)") (simp_all only: value_kind.case if_False, (intro ends checks local; simp)+)
qed

lemma ends_stmt:
  assumes "rec_ok r"
  shows "ends_in R s (analyze_stmt cx r sid s)"
proof -
  note flows = ends_flows [OF assms] ends_merge_arms [OF assms] ends_loop_rounds [OF assms]
  note ends = ends_intros ends_value_here [OF assms] ends_rec [OF assms] flows R_refl R_steps
  have var: "ends_in R s (analyze_var_decl cx r st s)" for st s
  proof -
    have else_block: "R s s1 \<Longrightarrow> ends_in R s (map_option (\<lambda>(_, s). restore_flow_state f s) (block_flow r bid f s1))" for s1 bid f
      using ends_flows(1) [OF assms] R_steps(7) by (fastforce simp: ends_in_def flow_ends_in_def)
    show ?thesis
      unfolding analyze_var_decl_def Let_def
      by (intro ends_bind ends_if ends_rec [OF assms] ends_Some else_block R_report_if R_refl) (auto intro: R_steps)
  qed
  have tryc: "ends_in R s (analyze_try cx r st s)" for st s
    unfolding analyze_try_def Let_def by (intro ends)
  have iff: "ends_in R s (analyze_if r st s)" for st s
  proof -
    have "R s s1 \<Longrightarrow> flow_ends_in R s (if c then block_flow r bid f s1 else Some (f', s1))" for s1 c bid f f'
      using ends_flows(1) [OF assms] by (simp add: flow_ends_Some)
    then show ?thesis unfolding analyze_if_def Let_def by (intro ends)
  qed
  have loop: "R b s \<Longrightarrow> ends_in R b (analyze_loop r st f s)" for st f b s
    unfolding analyze_loop_def by (intro ends_bind_flow flows ends_Some R_steps)
  have loops: "ends_in R s (analyze_while r st s)" "ends_in R s (analyze_do_while r st s)" for st s
    unfolding analyze_while_def analyze_do_while_def by (intro ends_bind_flow loop flows R_refl)+
  have scope: "ends_in R s (analyze_scope r st s)" for st s
    unfolding analyze_scope_def by (intro ends)
  have ret: "ends_in R s (analyze_return cx r st s)" for st s
    unfolding analyze_return_def by (intro ends)
  have switch: "ends_in R s (analyze_switch cx r st s)" for st s
    unfolding analyze_switch_def Let_def
    by (intro ends_bind ends_value_here [OF assms] R_refl)
      (auto split: list.splits intro!: ends_bind_flow flows ends_Some R_steps)
  show ?thesis
    unfolding analyze_stmt_def Let_def
    by (intro ends_if ends_Some R_refl, cases "ss_kind (sm_stmts (cx_mod cx) ! sid)")
      (simp_all only: stmt_kind.case, (rule var tryc iff loops scope ret switch | intro ends | assumption)+)
qed

theorem analyze_respects: "analyze n cx t s = Some s' \<Longrightarrow> R s s'"
proof -
  have "rec_ok (analyze n cx)"
  proof (induction n)
    case 0
    then show ?case by (simp add: rec_ok_def ends_None)
  next
    case (Suc n)
    have "ends_in R s (analyze_task cx (analyze n cx) t s)" for t s
      by (cases t) (simp_all add: ends_value [OF Suc] ends_block [OF Suc] ends_stmt [OF Suc])
    then show ?case by (simp add: rec_ok_def)
  qed
  then show "analyze n cx t s = Some s' \<Longrightarrow> R s s'" by (simp add: rec_ok_def ends_in_def)
qed

end

section \<open>The frame and the diagnostics\<close>

definition frame :: "cap_state \<Rightarrow> cap_state \<Rightarrow> bool" where
  "frame s s' \<longleftrightarrow> cs_scopes s' = cs_scopes s \<and> cs_visiting s' = cs_visiting s"

definition reports :: "cap_state \<Rightarrow> cap_state \<Rightarrow> bool" where
  "reports s s' \<longleftrightarrow> (\<exists>ds. cs_bag s' = cs_bag s @ ds \<and> u32 (cs_error_count s') = u32 (cs_error_count s + length ds))
     \<and> (cs_error_count s < 4294967296 \<longrightarrow> cs_error_count s' < 4294967296)"

lemmas primitive_defs = report_def activate_borrow_def release_owner_borrows_def mark_moved_def clear_moved_def
  restore_flow_state_def end_path_def enter_scope_def leave_scope_def

lemma register_fields:
  "register_escape_handle cx vid v use root s = Some s' \<Longrightarrow>
     cs_bag s' = cs_bag s \<and> cs_error_count s' = cs_error_count s \<and> cs_scopes s' = cs_scopes s \<and> cs_visiting s' = cs_visiting s"
  by (auto simp: register_escape_handle_def Let_def split: if_splits option.splits)

lemma leave_scope_bag: "cs_bag (leave_scope s) = cs_bag s" "cs_error_count (leave_scope s) = cs_error_count s"
  "cs_handles (leave_scope s) = cs_handles s" "cs_meta_by_value (leave_scope s) = cs_meta_by_value s"
  by (simp_all add: leave_scope_def split: list.splits)

interpretation frame: analysis_relation cx frame for cx
proof unfold_locales
  fix vid use root s s'
  assume "register_escape_handle cx vid (sm_values (cx_mod cx) ! vid) use root s = Some s'"
  then show "frame s s'" using register_fields by (simp add: frame_def)
qed (auto simp: frame_def primitive_defs)

lemma reports_trans: "reports a b \<Longrightarrow> reports b c \<Longrightarrow> reports a c"
proof -
  assume ab: "reports a b" and bc: "reports b c"
  then obtain ds es where
    ds: "cs_bag b = cs_bag a @ ds" "u32 (cs_error_count b) = u32 (cs_error_count a + length ds)" and
    es: "cs_bag c = cs_bag b @ es" "u32 (cs_error_count c) = u32 (cs_error_count b + length es)" by (auto simp: reports_def)
  have "u32 (cs_error_count c) = u32 (cs_error_count a + length (ds @ es))"
    using es(2) mod_add_cong [OF ds(2) [unfolded u32_def] refl, of "length es"] by (simp add: u32_def add.assoc)
  then show "reports a c" using ab bc ds(1) es(1) unfolding reports_def by (metis append.assoc)
qed

lemma reports_same: "cs_bag s' = cs_bag s \<Longrightarrow> cs_error_count s' = cs_error_count s \<Longrightarrow> reports s s'"
  by (simp add: reports_def)

interpretation reports: analysis_relation cx reports for cx
proof unfold_locales
  fix a b c
  show "reports a b \<Longrightarrow> reports b c \<Longrightarrow> reports a c" by (rule reports_trans)
next
  fix s :: cap_state and code sp
  have "u32 (u32 (cs_error_count s + 1)) = u32 (cs_error_count s + 1)" by (simp add: u32_def)
  then show "reports s (report code sp s)" by (simp add: reports_def report_def u32_def)
next
  fix vid use root s s'
  assume "register_escape_handle cx vid (sm_values (cx_mod cx) ! vid) use root s = Some s'"
  then show "reports s s'" using register_fields reports_same by simp
next
  fix s s'
  assume "reports (enter_scope s) s'"
  then show "reports s (leave_scope s')" by (simp add: reports_def leave_scope_bag) (simp add: enter_scope_def)
qed (auto simp: reports_def release_owner_borrows_def activate_borrow_def mark_moved_def clear_moved_def restore_flow_state_def end_path_def)

lemma for_each_related:
  assumes "\<And>a s s'. a \<in> set xs \<Longrightarrow> f a s = Some s' \<Longrightarrow> R s s'" "\<And>s. R s s" "\<And>a b c. R a b \<Longrightarrow> R b c \<Longrightarrow> R a c"
  shows "for_each f xs s = Some s' \<Longrightarrow> R s s'"
  using assms(1)
proof (induction xs arbitrary: s)
  case (Cons x xs)
  then obtain s1 where s1: "f x s = Some s1" "for_each f xs s1 = Some s'" by (auto simp: bind_eq_Some_conv)
  have "R s s1" by (rule Cons.prems(2) [OF _ s1(1)]) simp
  moreover have "R s1 s'" by (rule Cons.IH [OF s1(2)], rule Cons.prems(2)) simp_all
  ultimately show ?case by (rule assms(3))
qed (simp add: assms(2))

text \<open>A relation that \<open>fresh\<close> respects as well holds of the whole run.\<close>

lemma run_related:
  assumes "run_state n m types bag = Some s'" "\<And>s. R s s" "\<And>a b c. R a b \<Longrightarrow> R b c \<Longrightarrow> R a c" "\<And>s. R s (fresh s)"
    "\<And>p c t s s'. analyze n ((module_context m types)\<lparr>cx_pure := p, cx_comptime := c\<rparr>) t s = Some s' \<Longrightarrow> R s s'"
  shows "R (start_state bag) s'"
proof -
  let ?cx = "module_context m types"
  have plain: "?cx = ?cx\<lparr>cx_pure := False, cx_comptime := False\<rparr>" by (simp add: module_context_def)
  obtain s1 where s1: "for_each (\<lambda>g. analyze n ?cx (TValue (gv_init g) UseValue kInvalidId))
      (filter (\<lambda>g. gv_init g \<noteq> kInvalidId) (sm_globals m)) (fresh (start_state bag)) = Some s1"
    "for_each (analyze_func n ?cx) (sm_funcs m) s1 = Some s'"
    using assms(1) by (auto simp: run_state_def Let_def bind_eq_Some_conv)
  have "R (fresh (start_state bag)) s1"
    by (rule for_each_related [where R = R, OF _ assms(2,3) s1(1)], rule assms(5), subst (asm) plain)
  moreover have "R s s'" if "analyze_func n ?cx f s = Some s'" for f s s'
  proof (cases "fu_entry f = kInvalidId")
    case True
    then have "s' = fresh s" using that by (simp add: analyze_func_def Let_def)
    then show ?thesis using assms(4) by simp
  next
    case False
    then have "R (fresh s) s'" using that assms(5) by (simp add: analyze_func_def Let_def)
    then show ?thesis using assms(3,4) by blast
  qed
  then have "R s1 s'" by (rule for_each_related [where R = R, OF _ assms(2,3) s1(2)])
  ultimately show ?thesis using assms(3,4) by blast
qed

end
