(* ===== verification/SIR_Cap_Handles.thy ===== *)
theory SIR_Cap_Handles
  imports SIR_Cap_Facts
begin

text \<open>
  What the capability analysis promises the later stages: the escape handles it registers pass the
  verifier of \<open>SIR_Handles\<close>, one for each escape value met, and its result counts what it reported
  and registered. The compiler runs the verifier right after the analysis.
\<close>

section \<open>The invariant of the handles\<close>

definition accounted :: "escape_meta \<Rightarrow> bool" where
  "accounted h \<longleftrightarrow> em_cell_commit_count h = (if em_value_form h = FormCell then 1 else 0)
     \<and> em_abi_pack_count h = (if em_value_form h = FormAbiPack then 1 else 0)"

definition handles_inv :: "smodule \<Rightarrow> cap_state \<Rightarrow> bool" where
  "handles_inv m s \<longleftrightarrow> (\<forall>h \<in> set (cs_handles s). handle_ok m h \<and> accounted h)
     \<and> distinct (map em_escape_value (cs_handles s))
     \<and> (\<forall>vid i. cs_meta_by_value s vid = Some i \<longleftrightarrow> i < length (cs_handles s) \<and> em_escape_value (cs_handles s ! i) = vid)"

text \<open>The traits know the static symbols, and value ids are 32 bits.\<close>

definition context_ok :: "cap_context \<Rightarrow> bool" where
  "context_ok cx \<longleftrightarrow> (\<forall>sid. is_symbol_static cx sid \<longrightarrow> sid \<in> build_static_symbols (cx_mod cx))
     \<and> length (sm_values (cx_mod cx)) < 4294967296"

definition keeps_handles :: "cap_context \<Rightarrow> cap_state \<Rightarrow> cap_state \<Rightarrow> bool" where
  "keeps_handles cx s s' \<longleftrightarrow> (context_ok cx \<longrightarrow> handles_inv (cx_mod cx) s \<longrightarrow> handles_inv (cx_mod cx) s')"

lemma handles_inv_same:
  "cs_handles s' = cs_handles s \<Longrightarrow> cs_meta_by_value s' = cs_meta_by_value s \<Longrightarrow> handles_inv m s' = handles_inv m s"
  by (simp add: handles_inv_def)

lemma handles_inv_update [simp]:
  "handles_inv m (s\<lparr>cs_active := a\<rparr>) = handles_inv m s" "handles_inv m (s\<lparr>cs_scopes := b\<rparr>) = handles_inv m s"
  "handles_inv m (s\<lparr>cs_moved := c\<rparr>) = handles_inv m s" "handles_inv m (s\<lparr>cs_visiting := d\<rparr>) = handles_inv m s"
  "handles_inv m (s\<lparr>cs_terminated := e\<rparr>) = handles_inv m s" "handles_inv m (s\<lparr>cs_bag := f\<rparr>) = handles_inv m s"
  "handles_inv m (s\<lparr>cs_error_count := g\<rparr>) = handles_inv m s"
  by (rule handles_inv_same; simp)+

lemma meta_of_ok:
  assumes "context_ok cx" "vid \<noteq> kInvalidId" "vid < length (sm_values (cx_mod cx))" "sv_kind (sm_values (cx_mod cx) ! vid) = SvEscape"
  shows "handle_ok (cx_mod cx) (escape_meta_of cx vid v use root drp) \<and> accounted (escape_meta_of cx vid v use root drp)
    \<and> em_escape_value (escape_meta_of cx vid v use root drp) = vid"
proof -
  have "handle_form_ok (escape_meta_of cx vid v use root drp)"
    by (cases use) (simp_all add: handle_form_ok_def escape_meta_of_def boundary_from_use_def value_form_from_use_def
        pack_boundary_from_use_def cell_kind_from_use_def Let_def)
  then show ?thesis
    using assms by (auto simp: handle_ok_def accounted_def escape_meta_of_def sir_valid_value_def context_ok_def Let_def split: option.splits)
qed

lemma distinct_values_bound:
  assumes "handles_inv m s"
  shows "length (cs_handles s) \<le> length (sm_values m)"
proof -
  have "em_escape_value ` set (cs_handles s) \<subseteq> {..< length (sm_values m)}"
    using assms by (auto simp: handles_inv_def handle_ok_def sir_valid_value_def)
  then have "card (set (map em_escape_value (cs_handles s))) \<le> length (sm_values m)"
    using card_mono [of "{..< length (sm_values m)}"] by fastforce
  moreover have "distinct (map em_escape_value (cs_handles s))" using assms by (simp add: handles_inv_def)
  ultimately show ?thesis using distinct_card by fastforce
qed

lemma register_keeps:
  assumes cx: "context_ok cx" and inv: "handles_inv (cx_mod cx) s" and
    v: "vid \<noteq> kInvalidId" "vid < length (sm_values (cx_mod cx))" "sv_kind (sm_values (cx_mod cx) ! vid) = SvEscape" and
    reg: "register_escape_handle cx vid v use root s = Some s'"
  shows "handles_inv (cx_mod cx) s'"
proof -
  obtain drp where "type_needs_drop (cx_types cx) (value_type (cx_mod cx) (sv_a v)) {} = Some drp"
    using reg v by (auto simp: register_escape_handle_def split: if_splits option.splits)
  define meta where "meta = escape_meta_of cx vid v use root drp"
  have meta: "handle_ok (cx_mod cx) meta" "accounted meta" "em_escape_value meta = vid"
    using meta_of_ok [OF cx v] by (simp_all add: meta_def)
  have ids: "cs_meta_by_value s w = Some i \<longleftrightarrow> i < length (cs_handles s) \<and> em_escape_value (cs_handles s ! i) = w" for w i
    using inv by (simp add: handles_inv_def)
  show ?thesis
  proof (cases "cs_meta_by_value s vid")
    case None
    let ?n = "length (cs_handles s)"
    have new: "vid \<notin> em_escape_value ` set (cs_handles s)" 
    proof
      assume "vid \<in> em_escape_value ` set (cs_handles s)"
      then obtain i where "i < length (cs_handles s)" "em_escape_value (cs_handles s ! i) = vid" by (auto simp: in_set_conv_nth)
      then have "cs_meta_by_value s vid = Some i" using ids by blast
      with None show False by simp
    qed
    have n: "last_index (cs_handles s @ [meta]) = ?n"
      using distinct_values_bound [OF inv] cx by (simp add: last_index_def u32_def context_ok_def)
    have s': "s' = s\<lparr>cs_handles := cs_handles s @ [meta], cs_meta_by_value := (cs_meta_by_value s)(vid \<mapsto> ?n)\<rparr>"
      using reg v None \<open>type_needs_drop _ _ _ = _\<close> n by (simp add: register_escape_handle_def Let_def meta_def)
    have "((cs_meta_by_value s)(vid \<mapsto> ?n)) w = Some i \<longleftrightarrow>
        i < Suc ?n \<and> em_escape_value ((cs_handles s @ [meta]) ! i) = w" for w i
    proof (cases "w = vid")
      case True
      have "em_escape_value (cs_handles s ! i) \<noteq> vid" if "i < ?n" using new that by force
      then show ?thesis using True meta(3) by (auto simp: nth_append less_Suc_eq)
    next
      case False
      then show ?thesis using ids [of w i] meta(3) by (auto simp: nth_append less_Suc_eq)
    qed
    then show ?thesis using inv new meta by (auto simp: handles_inv_def s')
  next
    case (Some i)
    then have i: "i < length (cs_handles s)" "em_escape_value (cs_handles s ! i) = vid" using ids by blast+
    have s': "s' = s\<lparr>cs_handles := (cs_handles s)[i := meta]\<rparr>"
      using reg v Some i(1) \<open>type_needs_drop _ _ _ = _\<close> by (simp add: register_escape_handle_def Let_def meta_def)
    have "map em_escape_value ((cs_handles s)[i := meta]) = map em_escape_value (cs_handles s)"
      using i meta(3) by (simp add: map_update list_update_same_conv)
    moreover have "em_escape_value ((cs_handles s)[i := meta] ! j) = em_escape_value (cs_handles s ! j)" for j
      using i meta(3) by (cases "j = i") simp_all
    ultimately show ?thesis
      using inv meta(1,2) i(1) by (auto simp: handles_inv_def s' dest!: set_update_subset_insert [THEN subsetD])
  qed
qed

interpretation handles: analysis_relation cx "keeps_handles cx" for cx
proof unfold_locales
  fix vid use root s s'
  assume "vid \<noteq> kInvalidId" "vid < length (sm_values (cx_mod cx))" "sv_kind (sm_values (cx_mod cx) ! vid) = SvEscape"
    "register_escape_handle cx vid (sm_values (cx_mod cx) ! vid) use root s = Some s'"
  then show "keeps_handles cx s s'" using register_keeps by (simp add: keeps_handles_def)
next
  fix s s'
  assume "keeps_handles cx (enter_scope s) s'"
  moreover have "handles_inv m (enter_scope s) = handles_inv m s" "handles_inv m (leave_scope s') = handles_inv m s'" for m
    by (rule handles_inv_same; simp add: enter_scope_def leave_scope_bag)+
  ultimately show "keeps_handles cx s (leave_scope s')" by (simp add: keeps_handles_def)
qed (simp_all add: keeps_handles_def report_def activate_borrow_def release_owner_borrows_def mark_moved_def clear_moved_def
    restore_flow_state_def end_path_def)

text \<open>The static symbols of the traits are those the verifier collects.\<close>

lemma fold_traits_static:
  "map_option st_is_static (fold (\<lambda>x t. if skip x then t else t(key x \<mapsto> val x)) xs t0 sid) = Some True \<Longrightarrow>
    map_option st_is_static (t0 sid) = Some True \<or> (\<exists>x \<in> set xs. \<not> skip x \<and> key x = sid \<and> st_is_static (val x))"
  by (induction xs arbitrary: t0) (fastforce split: if_splits)+

lemma module_context_ok:
  assumes "length (sm_values m) < 4294967296"
  shows "context_ok (module_context m types)"
proof -
  have "sid \<in> build_static_symbols m" if "is_symbol_static (module_context m types) sid" for sid
  proof -
    have "map_option st_is_static (collect_symbol_traits m sid) = Some True"
      using that by (auto simp: is_symbol_static_def module_context_def split: option.splits)
    note static = this [unfolded collect_symbol_traits_def Let_def]
    define ps where "ps = fold (\<lambda>p t. if pm_sym p = kInvalidId then t
      else t(pm_sym p \<mapsto> \<lparr>st_is_mut = pm_is_mut p, st_is_static = False\<rparr>)) (sm_params m) Map.empty"
    have no_param: "map_option st_is_static (ps sid) \<noteq> Some True"
      using fold_traits_static [of "\<lambda>p. pm_sym p = kInvalidId" pm_sym] unfolding ps_def by fastforce
    from fold_traits_static [OF static, folded ps_def]
    show ?thesis
    proof
      assume "map_option st_is_static (fold (\<lambda>s t. if ss_kind s \<noteq> SsVarDecl \<or> ss_sym s = kInvalidId then t
        else t(ss_sym s \<mapsto> \<lparr>st_is_mut = ss_is_mut s, st_is_static = ss_is_static s\<rparr>)) (sm_stmts m) ps sid) = Some True"
      from fold_traits_static [OF this] no_param show ?thesis by (auto simp: build_static_symbols_def)
    qed (auto simp: build_static_symbols_def)
  qed
  then show ?thesis using assms by (simp add: context_ok_def module_context_def)
qed

section \<open>The properties\<close>

text \<open>C10: The handles that the capability analysis leaves in the module pass the verifier that runs after
  it: each belongs to an escape value, claims static origin only for a static symbol and has an
  allowed shape, and no value has two. So the verifier is silent exactly when every escape value of
  the module has a handle, and otherwise names values without one.\<close>

theorem analysis_handles_verify:
  assumes "analyze_capabilities n m types bag = Some (m', bag', r)" "length (sm_values m') < 4294967296"
  shows "(\<forall>h \<in> set (sm_escape_handles m'). handle_ok m' h) \<and> distinct (map em_escape_value (sm_escape_handles m'))
    \<and> (verify_escape_handles m' = [] \<longleftrightarrow> escapes_covered m')
    \<and> (\<forall>msg \<in> set (verify_escape_handles m'). \<exists>i < length (sm_values m'). sv_kind (sm_values m' ! i) = SvEscape
         \<and> i \<notin> em_escape_value ` set (sm_escape_handles m') \<and> msg = ''escape value #'' @ dec i @ '' has no EscapeHandle metadata'')"
proof -
  define c where "c = fst (canonicalize_for_capability m)"
  obtain s where s: "run_state n c types bag = Some s" "m' = c\<lparr>sm_escape_handles := cs_handles s\<rparr>"
    using assms(1) by (auto simp: analyze_capabilities_def Let_def c_def)
  have ok: "context_ok (module_context c types\<lparr>cx_pure := p, cx_comptime := q\<rparr>)" for p q
    using module_context_ok [of c types] assms(2) s(2) by (simp add: context_ok_def is_symbol_static_def)
  have step: "handles_inv c a \<longrightarrow> handles_inv c b"
    if "analyze n (module_context c types\<lparr>cx_pure := p, cx_comptime := q\<rparr>) t a = Some b" for p q t a b
  proof -
    have "context_ok (module_context c types\<lparr>cx_pure := p, cx_comptime := q\<rparr>)" by (rule ok)
    then show ?thesis using handles.analyze_respects [OF that] by (simp add: keeps_handles_def module_context_def)
  qed
  have "handles_inv c (start_state bag) \<longrightarrow> handles_inv c s"
    by (rule run_related [where R = "\<lambda>a b. handles_inv c a \<longrightarrow> handles_inv c b", OF s(1)]) (use step in \<open>auto simp: fresh_def\<close>)
  moreover have "handles_inv c (start_state bag)" by (simp add: handles_inv_def start_state_def)
  ultimately have inv: "handles_inv c s" by blast
  have same: "handle_ok m' h = handle_ok c h" for h
    by (simp add: s(2) handle_ok_def sir_valid_value_def build_static_symbols_def)
  have ok': "\<forall>h \<in> set (sm_escape_handles m'). handle_ok m' h" using inv by (simp add: handles_inv_def s(2) same [unfolded s(2)])
  then show ?thesis
    using inv verify_handles_only_missing [OF ok'] by (simp add: verify_handles_iff) (simp add: s(2) handles_inv_def)
qed

text \<open>A run of the analysis adds to the bag exactly the diagnostics it counts, so when fewer than
  two to the 32 were added the result is ok exactly when the bag did not change.\<close>

theorem analysis_counts_reports:
  assumes "analyze_capabilities n m types bag = Some (m', bag', r)"
  shows "\<exists>ds. bag' = bag @ ds \<and> cr_error_count r = u32 (length ds)
    \<and> (length ds < 4294967296 \<longrightarrow> (cr_ok r \<longleftrightarrow> bag' = bag))"
proof -
  obtain s where s: "run_state n (fst (canonicalize_for_capability m)) types bag = Some s" "bag' = cs_bag s" "r = cap_result_of s"
    using assms by (auto simp: analyze_capabilities_def Let_def)
  have "reports (start_state bag) s"
    by (rule run_related [where R = reports, OF s(1) reports.R_refl reports.R_trans _ reports.analyze_respects])
      (simp_all add: fresh_def reports_same)
  then obtain ds where ds: "bag' = bag @ ds" "u32 (cs_error_count s) = u32 (length ds)" "cs_error_count s < 4294967296"
    by (auto simp: reports_def start_state_def s(2))
  then have "cr_error_count r = u32 (length ds)" by (simp add: s(3) cap_result_of_def)
  then show ?thesis using ds by (auto simp: s(3) cap_result_of_def)
qed

lemma analyze_block_Some:
  assumes "analyze_block cx rec bid s = Some s'"
  shows "bid = kInvalidId \<or> length (sm_blocks (cx_mod cx)) \<le> bid \<or> bid \<in> cs_visiting s \<or>
    (\<exists>is s2. (run_stmts rec is (enter_scope (s\<lparr>cs_visiting := insert bid (cs_visiting s)\<rparr>)) = Some s2
         \<or> s2 = enter_scope (s\<lparr>cs_visiting := insert bid (cs_visiting s)\<rparr>))
       \<and> s' = (leave_scope s2)\<lparr>cs_visiting := cs_visiting (leave_scope s2) - {bid}\<rparr>)"
  using assms by (auto simp: analyze_block_def Let_def bind_eq_Some_conv split: if_splits)

text \<open>Whatever the analysis meets, it puts the scopes and the blocks under visit back, and after a
  block no more borrows are active than before it.\<close>

theorem analysis_frame:
  assumes "analyze n cx t s = Some s'"
  shows "cs_scopes s' = cs_scopes s \<and> cs_visiting s' = cs_visiting s
    \<and> (\<forall>bid. t = TBlock bid \<longrightarrow> length (cs_active s') \<le> length (cs_active s))"
proof -
  have frame: "frame s s'" by (rule frame.analyze_respects [OF assms])
  have "length (cs_active s') \<le> length (cs_active s)" if t: "t = TBlock bid" for bid
  proof (cases n)
    case (Suc k)
    let ?s1 = "enter_scope (s\<lparr>cs_visiting := insert bid (cs_visiting s)\<rparr>)"
    have ok: "frame.rec_ok (analyze k cx)"
      using frame.analyze_respects by (auto simp: frame.rec_ok_def ends_in_def)
    have run: "analyze_block cx (analyze k cx) bid s = Some s'" using assms t Suc by simp
    show ?thesis
    proof (cases "bid = kInvalidId \<or> length (sm_blocks (cx_mod cx)) \<le> bid \<or> bid \<in> cs_visiting s")
      case True
      then show ?thesis using run by (auto simp: analyze_block_def Let_def split: if_splits)
    next
      case False
      have stay: "frame ?s1 s2" if "run_stmts (analyze k cx) is ?s1 = Some s2 \<or> s2 = ?s1" for "is" s2
        using that frame.ends_run_stmts [OF ok frame.R_refl [of ?s1], of "is"] frame.R_refl [of ?s1] unfolding ends_in_def by blast
      obtain "is" s2 where "run_stmts (analyze k cx) is ?s1 = Some s2 \<or> s2 = ?s1"
        and s2: "s' = (leave_scope s2)\<lparr>cs_visiting := cs_visiting (leave_scope s2) - {bid}\<rparr>"
        using analyze_block_Some [OF run] False by blast
      then have "frame ?s1 s2" using stay by blast
      then have "cs_scopes s2 = length (cs_active s) # cs_scopes s" by (simp add: frame_def enter_scope_def)
      then show ?thesis using s2 by (simp add: leave_scope_def)
    qed
  qed (use assms in simp)
  then show ?thesis using frame by (simp add: frame_def)
qed

end
