(* ===== verification/SIR_Cap_Term.thy ===== *)
theory SIR_Cap_Term
  imports SIR_Cap_Facts
begin

text \<open>
  When the capability analysis ends. The source recurses over values without a guard, so the values
  have to be nested: a rank that goes down from every value, block and statement to what it
  contains. Then fuel above the rank is enough for every task, and the recursions over places and
  element types end as well.
\<close>

section \<open>Nesting\<close>

datatype node = NValue nat | NBlock nat | NStmt nat

fun node_of :: "task \<Rightarrow> node" where
  "node_of (TValue vid use owner) = NValue vid"
| "node_of (TBlock bid) = NBlock bid"
| "node_of (TStmt sid) = NStmt sid"

definition value_nodes :: "smodule \<Rightarrow> svalue \<Rightarrow> node list" where
  "value_nodes m v =
     (let k = sv_kind v; a = NValue (sv_a v); b = NValue (sv_b v); c = NValue (sv_c v) in
      if k \<in> {SvBorrow, SvEscape, SvField, SvUnary, SvPostfixInc, SvCast} then [a]
      else if k \<in> {SvAssign, SvIndex, SvBinary} then [a, b]
      else if k = SvIfExpr then [a, b, c]
      else if k \<in> {SvCall, SvPipeCall, SvEnumCtor}
      then a # NValue (arg_value_at m v 0) # NValue (arg_value_at m v 1) # map NValue (call_args m v)
      else if k = SvBlockExpr then [NBlock (sv_a v), b]
      else if k = SvLoopExpr then [a, c, NBlock (sv_b v)]
      else if k \<in> {SvArrayLit, SvFieldInit} then map NValue (literal_args m v)
      else [])"

definition stmt_nodes :: "smodule \<Rightarrow> sstmt \<Rightarrow> node list" where
  "stmt_nodes m st =
     (let k = ss_kind st; e = NValue (ss_expr st); a = NBlock (ss_a st); b = NBlock (ss_b st) in
      if k \<in> {SsExprStmt, SsThrowStmt, SsReturn, SsBreak} then [e]
      else if k = SsVarDecl then [NValue (ss_init st), b]
      else if k = SsTryCatchStmt
      then a # (if ss_catch_clause_begin st + ss_catch_clause_count st \<le> length (sm_try_catch_clauses m)
        then map (\<lambda>c. NBlock (cc_body c)) (slice (sm_try_catch_clauses m) (ss_catch_clause_begin st) (ss_catch_clause_count st)) else [])
      else if k = SsIfStmt then [e, a, b]
      else if k \<in> {SsWhileStmt, SsDoWhileStmt} then [e, a]
      else if k \<in> {SsDoScopeStmt, SsManualStmt} then [a]
      else if k = SsSwitch
      then e # (if ss_case_begin st + ss_case_count st \<le> length (sm_switch_cases m)
        then map (\<lambda>c. NBlock (sc_body c)) (slice (sm_switch_cases m) (ss_case_begin st) (ss_case_count st)) else [])
      else [])"

fun node_children :: "smodule \<Rightarrow> node \<Rightarrow> node list" where
  "node_children m (NValue vid) =
     (if vid = kInvalidId \<or> length (sm_values m) \<le> vid then [] else value_nodes m (sm_values m ! vid))"
| "node_children m (NBlock bid) =
     (if bid = kInvalidId \<or> length (sm_blocks m) \<le> bid then []
      else
        let b = sm_blocks m ! bid in
        if bl_stmt_begin b + bl_stmt_count b \<le> length (sm_stmts m)
        then map NStmt [bl_stmt_begin b ..< bl_stmt_begin b + bl_stmt_count b] else [])"
| "node_children m (NStmt sid) = (if length (sm_stmts m) \<le> sid then [] else stmt_nodes m (sm_stmts m ! sid))"

definition nested :: "smodule \<Rightarrow> (node \<Rightarrow> nat) \<Rightarrow> bool" where
  "nested m rank \<longleftrightarrow> (\<forall>node. \<forall>c \<in> set (node_children m node). rank c < rank node)"

definition elements_first :: "type_pool \<Rightarrow> bool" where
  "elements_first types \<longleftrightarrow> (\<forall>t < length (tp_types types). ty_kind (tp_types types ! t) \<in> {KOptional, KArray} \<longrightarrow>
     ty_elem (tp_types types ! t) < t \<or> ty_elem (tp_types types ! t) = kInvalidId)"

section \<open>Places and element types end\<close>

lemma nested_base:
  assumes "nested m rank" "vid \<noteq> kInvalidId" "vid < length (sm_values m)" "sv_kind (sm_values m ! vid) \<in> {SvIndex, SvField}"
  shows "rank (NValue (sv_a (sm_values m ! vid))) < rank (NValue vid)"
proof -
  have "NValue (sv_a (sm_values m ! vid)) \<in> set (node_children m (NValue vid))"
    using assms(2-4) by (auto simp: value_nodes_def Let_def)
  then show ?thesis using assms(1) unfolding nested_def by blast
qed

lemma place_refs_end:
  "nested m rank \<Longrightarrow> \<forall>w \<in> met. rank (NValue vid) < rank (NValue w) \<Longrightarrow> try_make_place_ref m vid met \<noteq> None"
proof (induction m vid met rule: try_make_place_ref.induct)
  case (1 m vid met)
  show ?case
  proof (cases "vid = kInvalidId \<or> length (sm_values m) \<le> vid")
    case False
    let ?v = "sm_values m ! vid"
    have new: "vid \<notin> met" using "1.prems"(2) by blast
    have down: "\<forall>w \<in> insert vid met. rank (NValue (sv_a ?v)) < rank (NValue w)" if "sv_kind ?v \<in> {SvIndex, SvField}"
      using nested_base [OF "1.prems"(1) _ _ that] False "1.prems"(2) by fastforce
    show ?thesis
      using False new down "1.prems"(1) "1.IH"(1) [OF False new refl] "1.IH"(2) [OF False new refl]
      by (subst try_make_place_ref.simps) (auto simp: Let_def)
  qed (subst try_make_place_ref.simps, auto)
qed

lemma field_projections_end:
  "nested m rank \<Longrightarrow> \<forall>w \<in> met. rank (NValue vid) < rank (NValue w) \<Longrightarrow> place_contains_field_projection m vid met \<noteq> None"
proof (induction m vid met rule: place_contains_field_projection.induct)
  case (1 m vid met)
  show ?case
  proof (cases "vid = kInvalidId \<or> length (sm_values m) \<le> vid")
    case False
    let ?v = "sm_values m ! vid"
    have new: "vid \<notin> met" using "1.prems"(2) by blast
    have down: "\<forall>w \<in> insert vid met. rank (NValue (sv_a ?v)) < rank (NValue w)" if "sv_kind ?v \<in> {SvIndex, SvField}"
      using nested_base [OF "1.prems"(1) _ _ that] False "1.prems"(2) by fastforce
    show ?thesis
      using False new down "1.prems"(1) "1.IH" [OF False new refl]
      by (subst place_contains_field_projection.simps) (auto simp: Let_def)
  qed (subst place_contains_field_projection.simps, auto)
qed

lemma needs_drop_ends:
  "elements_first types \<Longrightarrow> \<forall>u \<in> met. t < u \<Longrightarrow> type_needs_drop types t met \<noteq> None"
proof (induction t arbitrary: met rule: less_induct)
  case (less t)
  let ?tt = "tp_types types ! t"
  have rec: "type_needs_drop types (ty_elem ?tt) (insert t met) \<noteq> None"
    if "t < length (tp_types types)" "ty_kind ?tt \<in> {KOptional, KArray}"
  proof (cases "ty_elem ?tt < t")
    case True
    then have "\<forall>u \<in> insert t met. ty_elem ?tt < u" using less.prems(2) by (auto intro: less_trans)
    then show ?thesis using less.IH [OF True less.prems(1)] by blast
  next
    case False
    then have "ty_elem ?tt = kInvalidId" using less.prems(1) that unfolding elements_first_def by blast
    then show ?thesis by (subst type_needs_drop.simps) simp
  qed
  have "t \<notin> met" using less.prems(2) by blast
  then show ?case using rec by (subst type_needs_drop.simps) (auto simp: Let_def)
qed

lemma places_end:
  assumes "nested m rank"
  shows "place_ref_of m vid \<noteq> None" "root_symbol m vid \<noteq> None" "escape_cell_use_for_place m types st vid ty \<noteq> None"
proof -
  show place: "place_ref_of m vid \<noteq> None" for vid using place_refs_end [OF assms, of "{}"] by (simp add: place_ref_of_def)
  then show root: "root_symbol m vid \<noteq> None" for vid by (simp add: root_symbol_def)
  show "escape_cell_use_for_place m types st vid ty \<noteq> None"
    using root [of vid] field_projections_end [OF assms, of "{}" vid]
    by (auto simp: escape_cell_use_for_place_def is_static_place_def split: option.splits bool.splits)
qed

section \<open>The walk ends\<close>

definition gives :: "'a option \<Rightarrow> bool" where
  "gives r \<longleftrightarrow> r \<noteq> None"

named_theorems gives_intros "rules for results that are there"

lemma gives_bind [gives_intros]: "gives r \<Longrightarrow> (\<And>x. gives (f x)) \<Longrightarrow> gives (Option.bind r f)"
  by (auto simp: gives_def)

lemma gives_Some [gives_intros]: "gives (Some x)"
  by (simp add: gives_def)

lemma gives_map [gives_intros]: "gives r \<Longrightarrow> gives (map_option f r)"
  by (simp add: gives_def)

lemma gives_if [gives_intros]: "(c \<Longrightarrow> gives a) \<Longrightarrow> (\<not> c \<Longrightarrow> gives b) \<Longrightarrow> gives (if c then a else b)"
  by simp

lemma gives_prod [gives_intros]: "(\<And>x y. gives (f x y)) \<Longrightarrow> gives (case_prod f p)"
  by (cases p) simp

lemma gives_let [gives_intros]: "gives (f a) \<Longrightarrow> gives (Let a f)"
  by simp

lemma gives_for_each: "(\<And>x s. x \<in> set xs \<Longrightarrow> gives (f x s)) \<Longrightarrow> gives (for_each f xs s)"
proof (induction xs arbitrary: s)
  case (Cons x xs)
  show ?case by (simp, intro gives_intros Cons.IH Cons.prems) simp_all
qed (simp add: gives_intros)

text \<open>The recursive call returns for what the nodes name.\<close>

definition returns_on :: "(task \<Rightarrow> action) \<Rightarrow> node set \<Rightarrow> bool" where
  "returns_on r N \<longleftrightarrow> (\<forall>t s. node_of t \<in> N \<longrightarrow> gives (r t s))"

lemma gives_rec: "returns_on r N \<Longrightarrow> node_of t \<in> N \<Longrightarrow> gives (r t s)"
  by (simp add: returns_on_def)

lemma gives_value_here: "returns_on r N \<Longrightarrow> NValue v \<in> N \<Longrightarrow> gives (value_here r v s)"
  by (simp add: value_here_def gives_rec)

lemma gives_run_stmts: "returns_on r N \<Longrightarrow> NStmt ` set is \<subseteq> N \<Longrightarrow> gives (run_stmts r is s)"
proof (induction "is" arbitrary: s)
  case (Cons i "is")
  show ?case by (simp, intro gives_intros gives_rec [OF Cons.prems(1)] Cons.IH Cons.prems(1)) (use Cons.prems(2) in simp_all)
qed (simp add: gives_intros)

lemma gives_flows:
  assumes "returns_on r N"
  shows "NBlock b \<in> N \<Longrightarrow> gives (block_flow r b f s)" "NValue v \<in> N \<Longrightarrow> gives (value_flow r v f s)"
  using gives_rec [OF assms] by (auto simp: block_flow_def value_flow_def with_flow_def gives_def split: option.splits)

lemma gives_merge_arms: "returns_on r N \<Longrightarrow> NBlock ` fst ` set arms \<subseteq> N \<Longrightarrow> gives (merge_arms r arms f s)"
proof (induction arms arbitrary: f s)
  case (Cons arm arms)
  obtain body start where arm: "arm = (body, start)" by fastforce
  show ?case unfolding arm
    by (simp, intro gives_intros gives_flows [OF Cons.prems(1)] Cons.IH Cons.prems(1)) (use Cons.prems(2) arm in simp_all)
qed (simp add: gives_intros)

lemma gives_loop_rounds:
  assumes "returns_on r N" "NValue (ss_expr st) \<in> N" "NBlock (ss_a st) \<in> N"
  shows "gives (loop_rounds n r st first head e s)"
proof (induction n arbitrary: head e s)
  case (Suc n)
  show ?case by (simp only: loop_rounds.simps, intro gives_intros gives_flows [OF assms(1)] Suc.IH assms(2,3))
qed (simp add: gives_intros)

lemma gives_places:
  assumes "nested m rank"
  shows "gives (place_ref_of m vid)" "gives (root_symbol m vid)" "gives (escape_cell_use_for_place m types st vid ty)"
  using places_end [OF assms] by (simp_all only: gives_def not_False_eq_True)

lemma gives_checks:
  assumes "nested (cx_mod cx) rank"
  shows "gives (check_use_after_move cx vid use sp s)" "gives (check_place_access_conflicts cx vid use sp s)"
    "gives (clear_root cx vid s)" "gives (report_shared_write_if_needed cx vid s)" "gives (place_checks cx vid v use s)"
proof -
  show checks: "gives (check_use_after_move cx vid use sp s)" "gives (check_place_access_conflicts cx vid use sp s)" for s sp
    unfolding check_use_after_move_def check_place_access_conflicts_def by (intro gives_intros gives_places [OF assms])+
  show "gives (clear_root cx vid s)" "gives (report_shared_write_if_needed cx vid s)"
    unfolding clear_root_def report_shared_write_if_needed_def by (intro gives_intros gives_places [OF assms])+
  show "gives (place_checks cx vid v use s)" unfolding place_checks_def by (intro gives_bind checks)
qed

lemma gives_register: "elements_first (cx_types cx) \<Longrightarrow> gives (register_escape_handle cx vid v use root s)"
  using needs_drop_ends [of "cx_types cx" "{}" "value_type (cx_mod cx) (sv_a v)"]
  by (auto simp: register_escape_handle_def Let_def gives_def split: option.splits)

lemma gives_call:
  assumes "nested (cx_mod cx) rank" "returns_on r (set (value_nodes (cx_mod cx) v))" "sv_kind v \<in> {SvCall, SvPipeCall, SvEnumCtor}"
  shows "gives (analyze_call cx r v s)"
proof -
  let ?N = "set (value_nodes (cx_mod cx) v)"
  note gives = gives_intros gives_value_here [OF assms(2)] gives_rec [OF assms(2)] gives_checks [OF assms(1)] gives_places [OF assms(1)]
  have N: "?N = insert (NValue (sv_a v)) (insert (NValue (arg_value_at (cx_mod cx) v 0))
      (insert (NValue (arg_value_at (cx_mod cx) v 1)) (NValue ` set (call_args (cx_mod cx) v))))"
    using assms(3) by (auto simp: value_nodes_def Let_def)
  have written: "NValue w \<in> ?N \<Longrightarrow> gives (written_place cx r w s)" for w s
    unfolding written_place_def by (intro gives)
  have replaced: "NValue w' \<in> ?N \<Longrightarrow> gives (replaced_by cx r w w' s)" for w w' s
    unfolding replaced_by_def by (intro gives) simp
  have core: "gives (analyze_core_call cx r v s)" for s
    unfolding analyze_core_call_def by (intro gives written replaced) (simp_all add: N)
  show ?thesis
    unfolding analyze_call_def by (intro gives core gives_for_each) (simp_all add: N)
qed

lemma gives_value:
  assumes "nested (cx_mod cx) rank" "elements_first (cx_types cx)" "returns_on r (set (node_children (cx_mod cx) (NValue vid)))"
  shows "gives (analyze_value cx r vid use owner s)"
proof (cases "vid = kInvalidId \<or> length (sm_values (cx_mod cx)) \<le> vid")
  case False
  define v where "v = sm_values (cx_mod cx) ! vid"
  let ?N = "set (value_nodes (cx_mod cx) v)"
  have rec: "returns_on r ?N" using assms(3) False by (simp add: v_def)
  note gives = gives_intros gives_value_here [OF rec] gives_rec [OF rec] gives_checks [OF assms(1)] gives_places [OF assms(1)]
    gives_register [OF assms(2)] gives_for_each
  have local: "gives (analyze_local cx vid v use s)"
    unfolding analyze_local_def by (intro gives)
  have borrow: "NValue (sv_a v) \<in> ?N \<Longrightarrow> gives (analyze_borrow cx r v owner s)"
    unfolding analyze_borrow_def by (intro gives) simp
  have escape: "NValue (sv_a v) \<in> ?N \<Longrightarrow> gives (analyze_escape cx r vid v use s)"
    unfolding analyze_escape_def by (intro gives) (auto split: option.splits intro: gives)
  have assign: "NValue (sv_a v) \<in> ?N \<Longrightarrow> NValue (sv_b v) \<in> ?N \<Longrightarrow> gives (analyze_assign cx r v s)"
    unfolding analyze_assign_def by (intro gives) simp_all
  show ?thesis
    unfolding analyze_value_def Let_def v_def [symmetric] using False
    by (cases "sv_kind v")
      (simp_all only: value_kind.case if_False,
       (rule local borrow escape assign gives_call [OF assms(1) rec] | intro gives | force simp: value_nodes_def Let_def split: if_splits)+)
qed (simp add: analyze_value_def gives_intros)

lemma gives_stmt:
  assumes "returns_on r (set (node_children (cx_mod cx) (NStmt sid)))"
  shows "gives (analyze_stmt cx r sid s)"
proof (cases "length (sm_stmts (cx_mod cx)) \<le> sid")
  case False
  define st where "st = sm_stmts (cx_mod cx) ! sid"
  let ?N = "set (stmt_nodes (cx_mod cx) st)"
  have rec: "returns_on r ?N" using assms False by (simp add: st_def)
  note gives = gives_intros gives_value_here [OF rec] gives_rec [OF rec] gives_flows [OF rec] gives_merge_arms [OF rec] gives_loop_rounds [OF rec]
  have var: "ss_kind st = SsVarDecl \<Longrightarrow> gives (analyze_var_decl cx r st s)"
    unfolding analyze_var_decl_def by (intro gives) (simp_all add: stmt_nodes_def Let_def)
  have tryc: "ss_kind st = SsTryCatchStmt \<Longrightarrow> gives (analyze_try cx r st s)"
    unfolding analyze_try_def by (intro gives) (auto simp: stmt_nodes_def Let_def)
  have iff: "ss_kind st = SsIfStmt \<Longrightarrow> gives (analyze_if r st s)"
    unfolding analyze_if_def by (intro gives) (simp_all add: stmt_nodes_def Let_def)
  have loop: "NValue (ss_expr st) \<in> ?N \<Longrightarrow> NBlock (ss_a st) \<in> ?N \<Longrightarrow> gives (analyze_loop r st f s)" for f s
    unfolding analyze_loop_def by (intro gives)
  have loops: "ss_kind st = SsWhileStmt \<Longrightarrow> gives (analyze_while r st s)" "ss_kind st = SsDoWhileStmt \<Longrightarrow> gives (analyze_do_while r st s)"
    unfolding analyze_while_def analyze_do_while_def by (intro gives loop; simp add: stmt_nodes_def Let_def)+
  have scope: "ss_kind st \<in> {SsDoScopeStmt, SsManualStmt} \<Longrightarrow> gives (analyze_scope r st s)"
    unfolding analyze_scope_def by (intro gives) (auto simp: stmt_nodes_def Let_def)
  have ret: "ss_kind st = SsReturn \<Longrightarrow> gives (analyze_return cx r st s)"
    unfolding analyze_return_def by (intro gives) (simp add: stmt_nodes_def Let_def)
  have switch: "ss_kind st = SsSwitch \<Longrightarrow> gives (analyze_switch cx r st s)"
    unfolding analyze_switch_def Let_def
    by (intro gives_bind gives_value_here [OF rec]) (auto simp: stmt_nodes_def Let_def intro!: gives split: list.splits)
  show ?thesis
    unfolding analyze_stmt_def Let_def st_def [symmetric] using False
    by (cases "ss_kind st")
      (simp_all only: stmt_kind.case if_False,
       (rule var tryc iff loops scope ret switch | intro gives | simp add: stmt_nodes_def Let_def)+)
qed (simp add: analyze_stmt_def gives_intros)

lemma gives_block:
  assumes "returns_on r (set (node_children (cx_mod cx) (NBlock bid)))"
  shows "gives (analyze_block cx r bid s)"
proof (cases "bid = kInvalidId \<or> length (sm_blocks (cx_mod cx)) \<le> bid")
  case False
  then show ?thesis
    unfolding analyze_block_def Let_def
    by (intro gives_intros gives_run_stmts [OF assms]) (auto simp: Let_def)
qed (simp add: analyze_block_def gives_intros)

text \<open>C11: The analysis ends. In a module that is nested by some rank, with a type pool whose elements
  come first, fuel above the rank of what is analysed gives a result, from every state.\<close>

theorem analysis_ends:
  assumes "nested (cx_mod cx) rank" "elements_first (cx_types cx)" "rank (node_of t) < n"
  shows "\<exists>s'. analyze n cx t s = Some s'"
  using assms(3)
proof (induction n arbitrary: t s)
  case (Suc n)
  have rec: "returns_on (analyze n cx) (set (node_children (cx_mod cx) (node_of t)))"
    unfolding returns_on_def gives_def
  proof (intro allI impI)
    fix t' s
    assume "node_of t' \<in> set (node_children (cx_mod cx) (node_of t))"
    then have "rank (node_of t') < rank (node_of t)" using assms(1) unfolding nested_def by blast
    then have "rank (node_of t') < n" using Suc.prems by simp
    from Suc.IH [OF this] show "analyze n cx t' s \<noteq> None" by simp
  qed
  have "gives (analyze_task cx (analyze n cx) t s)"
    using rec by (cases t) (simp_all only: analyze_task.simps node_of.simps gives_value [OF assms(1,2)] gives_block gives_stmt)
  then show ?case unfolding gives_def analyze.simps by blast
qed simp

lemma for_each_ends:
  assumes "\<And>x s. x \<in> set xs \<Longrightarrow> \<exists>s'. f x s = Some s'"
  shows "\<exists>s'. for_each f xs s = Some s'"
  using gives_for_each [of xs f s] assms by (auto simp: gives_def)

text \<open>The same of a whole run: the fuel has to be above the ranks of the initialisers and of the entry
  blocks.\<close>

lemma run_ends:
  assumes "nested m rank" "elements_first types"
    "\<forall>g \<in> set (sm_globals m). rank (NValue (gv_init g)) < n" "\<forall>f \<in> set (sm_funcs m). rank (NBlock (fu_entry f)) < n"
  shows "\<exists>s. run_state n m types bag = Some s"
proof -
  have ends: "\<exists>s'. analyze n (module_context m types\<lparr>cx_pure := p, cx_comptime := c\<rparr>) t s = Some s'"
    if "rank (node_of t) < n" for p c t s
    by (rule analysis_ends [where rank = rank]) (use assms(1,2) that in \<open>simp_all add: module_context_def\<close>)
  have plain: "module_context m types = module_context m types\<lparr>cx_pure := False, cx_comptime := False\<rparr>"
    by (simp add: module_context_def)
  have "\<exists>s'. analyze n (module_context m types) (TValue (gv_init g) UseValue kInvalidId) s = Some s'" if "g \<in> set (sm_globals m)" for g s
    using ends [of "TValue (gv_init g) UseValue kInvalidId"] assms(3) that by (subst plain) simp
  then obtain s1 where "for_each (\<lambda>g. analyze n (module_context m types) (TValue (gv_init g) UseValue kInvalidId))
      (filter (\<lambda>g. gv_init g \<noteq> kInvalidId) (sm_globals m)) (fresh (start_state bag)) = Some s1"
    using for_each_ends [of "filter (\<lambda>g. gv_init g \<noteq> kInvalidId) (sm_globals m)"] by (metis (no_types, lifting) filter_is_subset subsetD)
  moreover have "\<exists>s'. analyze_func n (module_context m types) f s = Some s'" if "f \<in> set (sm_funcs m)" for f s
    using ends [of "TBlock (fu_entry f)"] assms(4) that by (simp add: analyze_func_def Let_def)
  then have "\<exists>s'. for_each (analyze_func n (module_context m types)) (sm_funcs m) s1 = Some s'" by (rule for_each_ends)
  ultimately show ?thesis by (simp add: run_state_def Let_def)
qed

end
