(* ===== verification/SIR_Cap_Examples.thy ===== *)
theory SIR_Cap_Examples
  imports SIR_Cap_Handles SIR_Cap_Term
begin

text \<open>
  Modules on which the theorems about the capability analysis are applied, and runs that show where
  the analysis and the rules it enforces part. The modules are as the normalisation leaves them.
\<close>

section \<open>Building blocks\<close>

text \<open>Types: 1 a builtin, 2 a borrow of it, 3 an escape of it.\<close>

definition sample_types :: type_pool where
  "sample_types = new_pool\<lparr>tp_types := [empty_type KError, empty_type KBuiltin, (empty_type KBorrow)\<lparr>ty_elem := 1\<rparr>,
     (empty_type KEscape)\<lparr>ty_elem := 1\<rparr>]\<rparr>"

abbreviation the_local :: "nat \<Rightarrow> svalue" where
  "the_local x \<equiv> (new_value SvLocal)\<lparr>sv_sym := x, sv_type := 1, sv_place := PlLocal\<rparr>"

abbreviation the_escape :: "nat \<Rightarrow> nat \<Rightarrow> svalue" where
  "the_escape a x \<equiv> (new_value SvEscape)\<lparr>sv_a := a, sv_type := 3, sv_origin_sym := x\<rparr>"

abbreviation the_borrow :: "nat \<Rightarrow> nat \<Rightarrow> svalue" where
  "the_borrow a x \<equiv> (new_value SvBorrow)\<lparr>sv_a := a, sv_type := 2, sv_origin_sym := x\<rparr>"

abbreviation eval_stmt :: "nat \<Rightarrow> sstmt" where
  "eval_stmt e \<equiv> (new_stmt SsExprStmt)\<lparr>ss_expr := e\<rparr>"

abbreviation let_stmt :: "nat \<Rightarrow> nat \<Rightarrow> sstmt" where
  "let_stmt x e \<equiv> (new_stmt SsVarDecl)\<lparr>ss_sym := x, ss_init := e, ss_is_mut := True\<rparr>"

abbreviation the_block :: "nat \<Rightarrow> nat \<Rightarrow> sblock" where
  "the_block b n \<equiv> \<lparr>bl_span = no_span, bl_stmt_begin = b, bl_stmt_count = n\<rparr>"

definition one_func :: "svalue list \<Rightarrow> sarg list \<Rightarrow> sstmt list \<Rightarrow> sblock list \<Rightarrow> smodule" where
  "one_func vs as ss bs = new_smodule\<lparr>sm_values := vs, sm_args := as, sm_stmts := ss, sm_blocks := bs,
     sm_funcs := [new_sfunc\<lparr>fu_entry := 0\<rparr>]\<rparr>"

text \<open>The codes a run of the analysis reports, and the messages of the verifier after it.\<close>

definition codes_of :: "smodule \<Rightarrow> diag_code list option" where
  "codes_of m = map_option (\<lambda>s. map dg_code (cs_bag s)) (run_state 8 m sample_types [])"

definition messages_after :: "smodule \<Rightarrow> string list option" where
  "messages_after m = map_option (\<lambda>s. verify_escape_handles (m\<lparr>sm_escape_handles := cs_handles s\<rparr>)) (run_state 8 m sample_types [])"

section \<open>The theorems at an example\<close>

text \<open>\<open>return ~x\<close>.\<close>

definition escape_returned :: smodule where
  "escape_returned = one_func [the_local 1, the_escape 0 1] [] [(new_stmt SsReturn)\<lparr>ss_expr := 1\<rparr>] [the_block 0 1]"

lemma escape_returned_run:
  "map_option (\<lambda>(m', bag', r). (length (sm_values m'), map em_boundary (sm_escape_handles m'), bag', cr_ok r, escapes_covered m'))
     (analyze_capabilities 5 escape_returned sample_types []) = Some (2, [BkReturn], [], True, True)"
  by code_simp

corollary analysis_handles_verify_witness:
  "\<exists>m' bag' r. analyze_capabilities 5 escape_returned sample_types [] = Some (m', bag', r) \<and> verify_escape_handles m' = []
     \<and> map em_boundary (sm_escape_handles m') = [BkReturn]"
proof -
  obtain m' bag' r where run: "analyze_capabilities 5 escape_returned sample_types [] = Some (m', bag', r)"
    "length (sm_values m') = 2" "map em_boundary (sm_escape_handles m') = [BkReturn]" "escapes_covered m'"
    using escape_returned_run by auto
  show ?thesis using analysis_handles_verify [OF run(1)] run by simp
qed

corollary analysis_counts_reports_witness:
  "\<exists>m' bag' r ds. analyze_capabilities 5 escape_returned sample_types [] = Some (m', bag', r) \<and> bag' = [] @ ds
     \<and> cr_error_count r = u32 (length ds) \<and> cr_ok r"
proof -
  obtain m' bag' r where run: "analyze_capabilities 5 escape_returned sample_types [] = Some (m', bag', r)" "cr_ok r"
    using escape_returned_run by auto
  then show ?thesis using analysis_counts_reports [OF run(1)] by blast
qed

lemma escape_returned_block:
  "map_option (\<lambda>s. (length (cs_handles s), cs_terminated s))
     (analyze 5 (module_context escape_returned sample_types) (TBlock 0) (start_state [])) = Some (1, True)"
  by code_simp

corollary analysis_frame_witness:
  "\<exists>s'. analyze 5 (module_context escape_returned sample_types) (TBlock 0) (start_state []) = Some s'
     \<and> cs_scopes s' = [] \<and> cs_visiting s' = {} \<and> cs_active s' = [] \<and> length (cs_handles s') = 1"
proof -
  obtain s' where run: "analyze 5 (module_context escape_returned sample_types) (TBlock 0) (start_state []) = Some s'"
    "length (cs_handles s') = 1"
    using escape_returned_block by auto
  show ?thesis using analysis_frame [OF run(1)] run by (simp add: start_state_def)
qed

fun sample_rank :: "node \<Rightarrow> nat" where
  "sample_rank (NBlock b) = 3"
| "sample_rank (NStmt i) = 2"
| "sample_rank (NValue v) = v mod 2"

lemma escape_returned_nested: "nested escape_returned sample_rank" "elements_first sample_types"
proof -
  have here: "node_children escape_returned (NValue 0) = []" "node_children escape_returned (NValue 1) = [NValue 0]"
    "node_children escape_returned (NStmt 0) = [NValue 1]" "node_children escape_returned (NBlock 0) = [NStmt 0]"
    by code_simp+
  have "length (sm_values escape_returned) = 2" "length (sm_stmts escape_returned) = 1" "length (sm_blocks escape_returned) = 1"
    by (simp_all add: escape_returned_def one_func_def)
  then have none: "1 < v \<Longrightarrow> node_children escape_returned (NValue v) = []" "0 < i \<Longrightarrow> node_children escape_returned (NStmt i) = []"
    "0 < b \<Longrightarrow> node_children escape_returned (NBlock b) = []" for v i b
    by simp_all
  have "\<forall>c \<in> set (node_children escape_returned node). sample_rank c < sample_rank node" for node
  proof (cases node)
    case (NValue v)
    then show ?thesis using here none(1) by (cases "v = 0"; cases "v = 1") (simp_all del: node_children.simps)
  next
    case (NBlock b)
    then show ?thesis using here none(3) by (cases "b = 0") (simp_all del: node_children.simps)
  next
    case (NStmt i)
    then show ?thesis using here none(2) by (cases "i = 0") (simp_all del: node_children.simps)
  qed
  then show "nested escape_returned sample_rank" by (simp add: nested_def del: node_children.simps)
  show "elements_first sample_types"
    by (auto simp: elements_first_def sample_types_def empty_type_def less_Suc_eq)
qed

corollary analysis_ends_witness:
  "\<exists>s'. analyze 4 (module_context escape_returned sample_types) (TBlock 0) (start_state []) = Some s'"
  by (rule analysis_ends [where rank = sample_rank]) (use escape_returned_nested in \<open>simp_all add: module_context_def\<close>)

section \<open>What the analysis misses\<close>

text \<open>\<open>while c { f(~x); break }; x\<close>: the state at a \<open>break\<close> does not reach the end of the loop, so the
  use after the move is not reported. Without the \<open>break\<close> it is.\<close>

definition moved_before_break :: "nat \<Rightarrow> smodule" where
  "moved_before_break n = one_func [the_local 1, the_escape 0 1, (new_value SvCall)\<lparr>sv_callee_sym := 9, sv_arg_count := 1\<rparr>, new_value SvBoolLit]
     [new_arg 1] [(new_stmt SsWhileStmt)\<lparr>ss_expr := 3, ss_a := 1\<rparr>, eval_stmt 0, eval_stmt 2, new_stmt SsBreak] [the_block 0 2, the_block 2 n]"

lemma break_hides_move:
  "codes_of (moved_before_break 2) = Some [] \<and> codes_of (moved_before_break 1) = Some [SirUseAfterEscapeMove, SirUseAfterEscapeMove]"
  by (rule conjI; code_simp)

text \<open>\<open>r = &x; x++\<close> is not reported, \<open>r = &x; x = 1\<close> is: the operand of an increment is analysed as a read.\<close>

definition write_while_borrowed :: "nat \<Rightarrow> smodule" where
  "write_while_borrowed e = one_func [the_local 1, the_borrow 0 1, (new_value SvPostfixInc)\<lparr>sv_a := 0\<rparr>, new_value SvIntLit,
       (new_value SvAssign)\<lparr>sv_a := 0, sv_b := 3\<rparr>] [] [let_stmt 3 1, eval_stmt e] [the_block 0 2]"

lemma increment_while_borrowed:
  "codes_of (write_while_borrowed 2) = Some [] \<and> codes_of (write_while_borrowed 4) = Some [BorrowSharedWriteConflict]"
  by (rule conjI; code_simp)

text \<open>\<open>loop { break }; ~x; ~x\<close>: the \<open>break\<close> ends the path of the enclosing block too, so nothing after the
  loop is analysed, and the verifier then finds an escape without a handle.\<close>

definition after_loop_expr :: smodule where
  "after_loop_expr = one_func [the_local 1, the_escape 0 1, (new_value SvLoopExpr)\<lparr>sv_b := 1\<rparr>] []
     [eval_stmt 2, eval_stmt 1, eval_stmt 1, new_stmt SsBreak] [the_block 0 3, the_block 3 1]"

lemma loop_expr_ends_path:
  "codes_of after_loop_expr = Some [] \<and> messages_after after_loop_expr = Some [''escape value #1 has no EscapeHandle metadata'']"
  by (rule conjI; code_simp)

text \<open>\<open>return; f(~x)\<close>: a dead escape has no handle, so a module the analysis accepts is refused.\<close>

definition dead_escape :: smodule where
  "dead_escape = one_func [the_local 1, the_escape 0 1] [] [new_stmt SsReturn, eval_stmt 1] [the_block 0 2]"

lemma dead_escape_refused:
  "verify_module dead_escape = [] \<and> codes_of dead_escape = Some []
   \<and> messages_after dead_escape = Some [''escape value #1 has no EscapeHandle metadata'']"
  by (intro conjI; code_simp)

text \<open>\<open>r = &x; { s = &y; r = &z }\<close>, then a write to \<open>z\<close> or to \<open>y\<close>: the scope is left by the number of
  borrows at its entry, but the borrow of \<open>x\<close> is gone by then, so the one of \<open>y\<close> stays and the one of
  \<open>z\<close>, which \<open>r\<close> still holds, is dropped.\<close>

definition rebound_in_block :: "nat \<Rightarrow> smodule" where
  "rebound_in_block e = one_func
     [the_local 1, the_borrow 0 1, the_local 2, the_borrow 2 2, the_local 5, the_borrow 4 5, the_local 3,
      (new_value SvAssign)\<lparr>sv_a := 6, sv_b := 5\<rparr>, new_value SvIntLit, (new_value SvAssign)\<lparr>sv_a := e, sv_b := 8\<rparr>] []
     [let_stmt 3 1, (new_stmt SsDoScopeStmt)\<lparr>ss_a := 1\<rparr>, eval_stmt 9, let_stmt 4 3, eval_stmt 7] [the_block 0 3, the_block 3 2]"

lemma scope_drops_wrong_borrow:
  "codes_of (rebound_in_block 4) = Some [] \<and> codes_of (rebound_in_block 2) = Some [BorrowSharedWriteConflict]"
  by (rule conjI; code_simp)

text \<open>\<open>if c then f(~x) else f(~x)\<close> as an expression: the branches are analysed one after the other.\<close>

definition moved_in_branches :: smodule where
  "moved_in_branches = one_func [the_local 1, the_escape 0 1, (new_value SvCall)\<lparr>sv_callee_sym := 9, sv_arg_count := 1\<rparr>, new_value SvBoolLit,
       (new_value SvIfExpr)\<lparr>sv_a := 3, sv_b := 2, sv_c := 6\<rparr>, the_escape 0 1,
       (new_value SvCall)\<lparr>sv_callee_sym := 9, sv_arg_begin := 1, sv_arg_count := 1\<rparr>]
     [new_arg 1, new_arg 5] [eval_stmt 4] [the_block 0 1]"

lemma branches_in_sequence: "codes_of moved_in_branches = Some [SirUseAfterEscapeMove]"
  by code_simp

end
