(* ===== verification/GOIR.thy ===== *)
theory GOIR
  imports SIR
begin

text \<open>
  The data model of the graph representation (\<open>frontend/include/parus/goir/GOIR.hpp\<close>), field for
  field. A module owns the vectors of strings, values, instructions, blocks, layouts, signatures,
  computations, globals and realizations; every reference is an index, a natural number below
  \<open>2\<^sup>3\<^sup>2\<close>, and \<open>kInvalidId\<close> stands for "none". Tags are \<open>int64_t\<close> in the source and integers here. An
  index that is not guarded in the source reads out of range there and is unspecified here.
\<close>

section \<open>Kinds\<close>

datatype stage_kind = StageOpen | StagePlaced

datatype family_kind = FamNone | FamCore | FamCpu | FamGpu | FamHwStruct | FamHwFlow | FamBridge

datatype gabi_kind = GAbiParus | GAbiC

datatype glinkage = GLinkInternal | GLinkExternal | GLinkExported

datatype policy_kind = PolicyFixedCpu | PolicyUnsupported

datatype geffect = GEffPure | GEffControl | GEffCall | GEffMayTrap | GEffMayRead | GEffMayWrite | GEffMayReadWrite

datatype gbin_op = GAdd | GSub | GMul | GDiv | GRem | GLt | GLe | GGt | GGe | GEq | GNe | GLogicalAnd | GLogicalOr

datatype gun_op = GPlus | GNeg | GNot | GBitNot

datatype gcast_kind = GCastAs | GCastAsQ | GCastAsB

datatype ownership_kind = OwnPlain | OwnBorrowShared | OwnBorrowMut | OwnEscape

datatype layout_class =
  LcUnknown | LcScalar | LcFixedArray | LcSliceView | LcPlainRecord | LcTextView | LcOptionalScalar | LcTagEnum

datatype gplace_kind = GPlaceNone | GPlaceLocalSlot | GPlaceGlobalSlot | GPlaceFieldPath | GPlaceIndexPath | GPlaceSubView

section \<open>Values\<close>

record ownership_info =
  ow_kind :: ownership_kind
  ow_escape_kind :: handle_kind
  ow_escape_boundary :: boundary_kind
  ow_requires_runtime_lowering :: bool
  ow_from_static :: bool

definition plain_ownership :: ownership_info where
  "plain_ownership = \<lparr>ow_kind = OwnPlain, ow_escape_kind = HkTrivial, ow_escape_boundary = BkNone,
     ow_requires_runtime_lowering = False, ow_from_static = False\<rparr>"

record ghead =
  gh_version_major :: nat
  gh_version_minor :: nat
  gh_internal_abi_rev :: nat
  gh_stage :: stage_kind

record gvalue =
  gx_ty :: nat
  gx_place_elem_type :: nat
  gx_eff :: geffect
  gx_ownership :: ownership_info
  gx_layout :: layout_class
  gx_place_kind :: gplace_kind
  gx_is_place :: bool
  gx_is_mutable :: bool
  gx_def_a :: nat
  gx_def_b :: nat

definition new_gvalue :: gvalue where
  "new_gvalue = \<lparr>gx_ty = kInvalidType, gx_place_elem_type = kInvalidType, gx_eff = GEffPure, gx_ownership = plain_ownership,
     gx_layout = LcUnknown, gx_place_kind = GPlaceNone, gx_is_place = False, gx_is_mutable = False,
     gx_def_a = kInvalidId, gx_def_b = kInvalidId\<rparr>"

record glayout_field =
  glf_name :: nat
  glf_type :: nat

record glayout =
  gl_self_type :: nat
  gl_layout :: decl_layout
  gl_align :: nat
  gl_fields :: "glayout_field list"

section \<open>Instructions\<close>

text \<open>The members of a record literal are pairs of a name and a value.\<close>

datatype gop =
    OpConstInt string
  | OpConstFloat string
  | OpConstBool bool
  | OpConstNull
  | OpTextLit string
  | OpUnary gun_op nat
  | OpBinary gbin_op nat nat
  | OpCast gcast_kind nat nat
  | OpArrayMake "nat list"
  | OpArrayGet nat nat
  | OpArrayLen nat
  | OpRecordMake "(nat \<times> nat) list"
  | OpLocalSlot nat
  | OpGlobalSlot nat
  | OpFieldPlace nat nat
  | OpIndexPlace nat nat
  | OpSubView nat nat nat
  | OpLoad nat
  | OpStore nat nat
  | OpBorrowView nat
  | OpEscapeView nat
  | OpOptionalSome nat
  | OpOptionalNone
  | OpOptionalIsPresent nat
  | OpOptionalGet nat
  | OpEnumTag int
  | OpSemanticInvoke nat "nat list"
  | OpCallDirect nat "nat list"
  | OpCallExtern nat "nat list"

record ginst =
  gi_data :: gop
  gi_eff :: geffect
  gi_result :: nat

record gswitch_arm =
  ga_match_value :: int
  ga_target :: nat
  ga_args :: "nat list"

datatype gterm =
    GTermBr nat "nat list"
  | GTermCondBr nat nat "nat list" nat "nat list"
  | GTermSwitch nat nat "nat list" "gswitch_arm list"
  | GTermRet bool nat

record gblock =
  gk_params :: "nat list"
  gk_insts :: "nat list"
  gk_term :: gterm
  gk_has_term :: bool

text \<open>\<open>Block{}\<close>: the terminator of a new block is the first alternative.\<close>

definition new_gblock :: gblock where
  "new_gblock = \<lparr>gk_params = [], gk_insts = [], gk_term = GTermBr kInvalidId [], gk_has_term = False\<rparr>"

section \<open>Declarations\<close>

record semantic_sig =
  gs_name :: nat
  gs_param_types :: "nat list"
  gs_result_type :: nat
  gs_is_pure :: bool
  gs_is_throwing :: bool

record gcomputation =
  gc_name :: nat
  gc_sig :: nat
  gc_placement_policy :: nat
  gc_realizations :: "nat list"

record gglobal =
  gg_name :: nat
  gg_link_name :: nat
  gg_type :: nat
  gg_is_mutable :: bool
  gg_is_const :: bool
  gg_is_static :: bool
  gg_is_extern :: bool
  gg_is_export :: bool
  gg_abi :: gabi_kind
  gg_linkage :: glinkage
  gg_tls :: tls_kind
  gg_folded_const_init :: init_data
  gg_runtime_init_needed :: bool
  gg_source_global :: nat

record grealization =
  gr_name :: nat
  gr_computation :: nat
  gr_family :: family_kind
  gr_abi :: gabi_kind
  gr_linkage :: glinkage
  gr_link_name :: nat
  gr_c_callconv :: sir_call_conv
  gr_is_c_variadic :: bool
  gr_is_entry :: bool
  gr_is_pure :: bool
  gr_is_extern :: bool
  gr_fn_type :: nat
  gr_blocks :: "nat list"
  gr_entry :: nat
  gr_source_func :: nat

section \<open>Modules\<close>

record gmodule =
  gm_header :: ghead
  gm_strings :: "string list"
  gm_values :: "gvalue list"
  gm_insts :: "ginst list"
  gm_blocks :: "gblock list"
  gm_layouts :: "glayout list"
  gm_sigs :: "semantic_sig list"
  gm_policies :: "policy_kind list"
  gm_services :: "nat list"
  gm_computations :: "gcomputation list"
  gm_globals :: "gglobal list"
  gm_realizations :: "grealization list"

definition new_gmodule :: gmodule where
  "new_gmodule = \<lparr>gm_header = \<lparr>gh_version_major = 1, gh_version_minor = 1, gh_internal_abi_rev = 2, gh_stage = StageOpen\<rparr>,
     gm_strings = [], gm_values = [], gm_insts = [], gm_blocks = [], gm_layouts = [], gm_sigs = [], gm_policies = [],
     gm_services = [], gm_computations = [], gm_globals = [], gm_realizations = []\<rparr>"

text \<open>\<open>add_string\<close> interns: the first equal string keeps its id.\<close>

fun string_index :: "string \<Rightarrow> nat \<Rightarrow> string list \<Rightarrow> nat option" where
  "string_index t i [] = None"
| "string_index t i (s # ss) = (if s = t then Some i else string_index t (Suc i) ss)"

definition gadd_string :: "string \<Rightarrow> gmodule \<Rightarrow> nat \<times> gmodule" where
  "gadd_string t m =
     (case string_index t 0 (gm_strings m) of
        Some i \<Rightarrow> (i, m)
      | None \<Rightarrow> (u32 (length (gm_strings m)), m\<lparr>gm_strings := gm_strings m @ [t]\<rparr>))"

definition gstring :: "gmodule \<Rightarrow> nat \<Rightarrow> string" where
  "gstring m i = (if i = kInvalidId \<or> length (gm_strings m) \<le> i then [] else gm_strings m ! i)"

definition gadd_value :: "gvalue \<Rightarrow> gmodule \<Rightarrow> nat \<times> gmodule" where
  "gadd_value v m = (u32 (length (gm_values m)), m\<lparr>gm_values := gm_values m @ [v]\<rparr>)"

definition gadd_inst :: "ginst \<Rightarrow> gmodule \<Rightarrow> nat \<times> gmodule" where
  "gadd_inst i m = (u32 (length (gm_insts m)), m\<lparr>gm_insts := gm_insts m @ [i]\<rparr>)"

definition gadd_block :: "gblock \<Rightarrow> gmodule \<Rightarrow> nat \<times> gmodule" where
  "gadd_block b m = (u32 (length (gm_blocks m)), m\<lparr>gm_blocks := gm_blocks m @ [b]\<rparr>)"

definition gadd_layout :: "glayout \<Rightarrow> gmodule \<Rightarrow> nat \<times> gmodule" where
  "gadd_layout l m = (u32 (length (gm_layouts m)), m\<lparr>gm_layouts := gm_layouts m @ [l]\<rparr>)"

definition find_record_layout :: "gmodule \<Rightarrow> nat \<Rightarrow> glayout option" where
  "find_record_layout m ty = find (\<lambda>l. gl_self_type l = ty) (gm_layouts m)"

definition gadd_sig :: "semantic_sig \<Rightarrow> gmodule \<Rightarrow> nat \<times> gmodule" where
  "gadd_sig s m = (u32 (length (gm_sigs m)), m\<lparr>gm_sigs := gm_sigs m @ [s]\<rparr>)"

definition gadd_policy :: "policy_kind \<Rightarrow> gmodule \<Rightarrow> nat \<times> gmodule" where
  "gadd_policy p m = (u32 (length (gm_policies m)), m\<lparr>gm_policies := gm_policies m @ [p]\<rparr>)"

definition gadd_service :: "nat \<Rightarrow> gmodule \<Rightarrow> nat \<times> gmodule" where
  "gadd_service s m = (u32 (length (gm_services m)), m\<lparr>gm_services := gm_services m @ [s]\<rparr>)"

definition gadd_computation :: "gcomputation \<Rightarrow> gmodule \<Rightarrow> nat \<times> gmodule" where
  "gadd_computation c m = (u32 (length (gm_computations m)), m\<lparr>gm_computations := gm_computations m @ [c]\<rparr>)"

definition gadd_global :: "gglobal \<Rightarrow> gmodule \<Rightarrow> nat \<times> gmodule" where
  "gadd_global g m = (u32 (length (gm_globals m)), m\<lparr>gm_globals := gm_globals m @ [g]\<rparr>)"

definition gadd_realization :: "grealization \<Rightarrow> gmodule \<Rightarrow> nat \<times> gmodule" where
  "gadd_realization r m = (u32 (length (gm_realizations m)), m\<lparr>gm_realizations := gm_realizations m @ [r]\<rparr>)"

section \<open>Strings are interned\<close>

lemma string_index_Some: "string_index t i ss = Some j \<Longrightarrow> i \<le> j \<and> j < i + length ss \<and> ss ! (j - i) = t"
proof (induction ss arbitrary: i)
  case (Cons s ss)
  then show ?case by (cases "s = t") (auto simp: nth_Cons' dest!: Cons.IH)
qed simp

lemma string_index_None: "string_index t i ss = None \<longleftrightarrow> t \<notin> set ss"
  by (induction ss arbitrary: i) auto

text \<open>The id names the string, no string is entered twice, and the ids given before keep their strings.\<close>

lemma gadd_string_spec:
  assumes "gadd_string t m = (i, m')" "distinct (gm_strings m)" "length (gm_strings m) < kInvalidId"
  shows "gstring m' i = t" "i < length (gm_strings m')" "distinct (gm_strings m')" "\<exists>ts. gm_strings m' = gm_strings m @ ts"
    "m' = m\<lparr>gm_strings := gm_strings m'\<rparr>"
  using assms string_index_Some [of t 0 "gm_strings m" i]
  by (auto simp: gadd_string_def gstring_def string_index_None split: option.splits)

end
