(* ===== verification/GOIR_Verify.thy ===== *)
theory GOIR_Verify
  imports GOIR SIR_Verify
begin

text \<open>
  The verifier of the graph representation (\<open>frontend/src/goir/goir_verify.cpp\<close>), every check with
  its message in the order of the source, and the declarative well-formedness \<open>wf_goir\<close> it decides
  (\<open>goir_verify_iff_wf\<close>). Where the verifier goes on to read the result of an instruction whose
  result id is out of range it has already reported the id.
\<close>

section \<open>Checks\<close>

definition in_vec :: "'a list \<Rightarrow> nat \<Rightarrow> bool" where
  "in_vec xs i \<longleftrightarrow> i \<noteq> kInvalidId \<and> i < length xs"

definition place_storage_type :: "gmodule \<Rightarrow> nat \<Rightarrow> nat" where
  "place_storage_type m i =
     (if \<not> in_vec (gm_values m) i then kInvalidType
      else let v = gm_values m ! i in if gx_place_elem_type v = kInvalidType then gx_ty v else gx_place_elem_type v)"

definition value_ref :: "gmodule \<Rightarrow> string \<Rightarrow> nat \<Rightarrow> string list" where
  "value_ref m loc i = unless (in_vec (gm_values m) i) (loc @ '': invalid value id'')"

definition value_refs :: "gmodule \<Rightarrow> string \<Rightarrow> nat list \<Rightarrow> string list" where
  "value_refs m loc is = concat (map (value_ref m loc) is)"

text \<open>Arguments and the parameters of the target, which have the same number here.\<close>

definition block_arg :: "gmodule \<Rightarrow> string \<Rightarrow> nat \<times> nat \<Rightarrow> string list" where
  "block_arg m loc = (\<lambda>(arg, param).
     value_ref m (loc @ ''.arg'') arg
     @ (if in_vec (gm_values m) arg
        then unless (gx_ty (gm_values m ! arg) = gx_ty (gm_values m ! param))
          (loc @ '': branch arg type does not match block param'')
        else []))"

definition block_args :: "gmodule \<Rightarrow> string \<Rightarrow> nat \<Rightarrow> nat list \<Rightarrow> string list" where
  "block_args m loc target args =
     (if \<not> in_vec (gm_blocks m) target then [loc @ '': invalid target block'']
      else
        let params = gk_params (gm_blocks m ! target) in
        if length params \<noteq> length args then [loc @ '': branch arg count does not match block params'']
        else concat (map (block_arg m loc) (zip args params)))"

section \<open>Declarations\<close>

text \<open>The names met so far are in a set; a name that is in it already is a duplicate.\<close>

fun layout_field_errors :: "gmodule \<Rightarrow> nat set \<Rightarrow> glayout_field list \<Rightarrow> string list" where
  "layout_field_errors m seen [] = []"
| "layout_field_errors m seen (f # fs) =
     unless (in_vec (gm_strings m) (glf_name f)) ''record layout has invalid field name string id''
     @ unless (glf_type f \<noteq> kInvalidType) ''record layout has invalid field type''
     @ unless (glf_name f \<notin> seen) ''record layout has duplicate field name''
     @ layout_field_errors m (insert (glf_name f) seen) fs"

definition layout_errors :: "gmodule \<Rightarrow> glayout \<Rightarrow> string list" where
  "layout_errors m l =
     unless (gl_self_type l \<noteq> kInvalidType) ''record layout has invalid self type'' @ layout_field_errors m {} (gl_fields l)"

definition global_errors :: "gmodule \<Rightarrow> gglobal \<Rightarrow> string list" where
  "global_errors m g =
     unless (in_vec (gm_strings m) (gg_name g)) ''global has invalid name string id''
     @ unless (gg_link_name g = kInvalidId \<or> gg_link_name g < length (gm_strings m)) ''global has invalid link-name string id''
     @ unless (gg_type g \<noteq> kInvalidType) ''global has invalid declared type''
     @ unless (\<not> (gg_abi g = GAbiC \<and> gg_tls g \<noteq> TlsNone)) ''gOIR M2 host ABI globals do not support TLS yet''"

definition sig_errors :: "gmodule \<Rightarrow> semantic_sig \<Rightarrow> string list" where
  "sig_errors m s =
     unless (in_vec (gm_strings m) (gs_name s)) ''semantic sig has invalid name string id''
     @ concat (map (\<lambda>t. unless (t \<noteq> kInvalidType) ''semantic sig has invalid parameter type'') (gs_param_types s))"

definition computation_errors :: "gmodule \<Rightarrow> gcomputation \<Rightarrow> string list" where
  "computation_errors m c =
     unless (in_vec (gm_sigs m) (gc_sig c)) ''computation has invalid semantic sig''
     @ unless (in_vec (gm_policies m) (gc_placement_policy c)) ''computation has invalid placement policy''
     @ concat (map (\<lambda>r. unless (in_vec (gm_realizations m) r) ''computation has invalid realization reference'') (gc_realizations c))"

definition realization_errors :: "gmodule \<Rightarrow> grealization \<Rightarrow> string list" where
  "realization_errors m r =
     unless (in_vec (gm_computations m) (gr_computation r)) ''realization has invalid computation''
     @ unless (gr_link_name r = kInvalidId \<or> gr_link_name r < length (gm_strings m)) ''realization has invalid link-name string id''
     @ (if gr_linkage r = GLinkExternal
        then unless (gr_blocks r = []) ''external realization must not own blocks''
             @ unless (gr_entry r = kInvalidId) ''external realization must not have an entry block''
        else unless (in_vec (gm_blocks m) (gr_entry r)) ''realization has invalid entry block'')
     @ concat (map (\<lambda>b. unless (in_vec (gm_blocks m) b) ''realization has invalid block reference'') (gr_blocks r))"

section \<open>Instructions\<close>

definition needs_result :: "nat \<Rightarrow> string \<Rightarrow> string list" where
  "needs_result r op = unless (r \<noteq> kInvalidId) (op @ '' must produce a result'')"

definition array_make_errors :: "gmodule \<Rightarrow> nat \<Rightarrow> nat list \<Rightarrow> string list" where
  "array_make_errors m r elems =
     (if r = kInvalidId then [''OpArrayMake must produce a result'']
      else if gx_ty (gm_values m ! r) = kInvalidType then [''OpArrayMake has invalid result type'']
      else unless (gx_layout (gm_values m ! r) = LcFixedArray) ''OpArrayMake result must have fixed-array layout''
           @ value_refs m ''OpArrayMake.elem'' elems)"

fun record_member_errors :: "gmodule \<Rightarrow> nat set \<Rightarrow> (nat \<times> nat) list \<Rightarrow> string list" where
  "record_member_errors m seen [] = []"
| "record_member_errors m seen ((name, v) # fs) =
     (if \<not> in_vec (gm_strings m) name then ''OpRecordMake has invalid field name'' # record_member_errors m seen fs
      else value_ref m ''OpRecordMake.field'' v
           @ unless (name \<notin> seen) ''OpRecordMake has duplicate field member''
           @ record_member_errors m (insert name seen) fs)"

definition record_make_errors :: "gmodule \<Rightarrow> nat \<Rightarrow> (nat \<times> nat) list \<Rightarrow> string list" where
  "record_make_errors m r membs =
     (if r = kInvalidId then [''OpRecordMake must produce a result'']
      else if find_record_layout m (gx_ty (gm_values m ! r)) = None then [''OpRecordMake result type must have a record layout'']
      else record_member_errors m {} membs)"

definition is_place_of :: "gmodule \<Rightarrow> nat \<Rightarrow> gplace_kind \<Rightarrow> bool" where
  "is_place_of m r k \<longleftrightarrow> gx_is_place (gm_values m ! r) \<and> gx_place_kind (gm_values m ! r) = k"

definition slot_errors :: "gmodule \<Rightarrow> nat \<Rightarrow> string list" where
  "slot_errors m r =
     (if r = kInvalidId then [''OpLocalSlot must produce a result'']
      else unless (is_place_of m r GPlaceLocalSlot) ''OpLocalSlot result must be a local-slot place'')"

definition global_slot_errors :: "gmodule \<Rightarrow> nat \<Rightarrow> nat \<Rightarrow> string list" where
  "global_slot_errors m r g =
     (if r = kInvalidId then [''OpGlobalSlot must produce a result'']
      else if \<not> in_vec (gm_globals m) g then [''OpGlobalSlot references an invalid global'']
      else unless (is_place_of m r GPlaceGlobalSlot) ''OpGlobalSlot result must be a global-slot place'')"

definition field_place_errors :: "gmodule \<Rightarrow> nat \<Rightarrow> nat \<Rightarrow> string list" where
  "field_place_errors m base name =
     (if \<not> in_vec (gm_values m) base then value_ref m ''OpFieldPlace.base'' base
      else if \<not> gx_is_place (gm_values m ! base) then [''OpFieldPlace base must be a place'']
      else (case find_record_layout m (place_storage_type m base) of
              None \<Rightarrow> [''OpFieldPlace base storage must have a record layout'']
            | Some l \<Rightarrow> unless (name \<in> set (map glf_name (gl_fields l))) ''OpFieldPlace references an unknown field''))"

text \<open>An operand that has to be a place, where its id is valid.\<close>

definition place_operand :: "gmodule \<Rightarrow> nat \<Rightarrow> string \<Rightarrow> string list" where
  "place_operand m i msg = unless (in_vec (gm_values m) i \<longrightarrow> gx_is_place (gm_values m ! i)) msg"

definition stage_only :: "gmodule \<Rightarrow> stage_kind \<Rightarrow> string \<Rightarrow> string list" where
  "stage_only m st msg = unless (gh_stage (gm_header m) = st) msg"

definition extern_call_errors :: "gmodule \<Rightarrow> nat \<Rightarrow> nat list \<Rightarrow> string list" where
  "extern_call_errors m callee args =
     (if \<not> in_vec (gm_realizations m) callee then [''OpCallExtern has invalid callee realization'']
      else unless (gr_abi (gm_realizations m ! callee) = GAbiC \<and> gr_linkage (gm_realizations m ! callee) = GLinkExternal)
             ''OpCallExtern must reference an external C-ABI realization''
           @ value_refs m ''OpCallExtern.arg'' args)"

fun op_errors :: "gmodule \<Rightarrow> nat \<Rightarrow> gop \<Rightarrow> string list" where
  "op_errors m r (OpTextLit t) = needs_result r ''OpTextLit''"
| "op_errors m r (OpUnary op src) = value_ref m ''OpUnary.src'' src"
| "op_errors m r (OpBinary op a b) = value_ref m ''OpBinary.lhs'' a @ value_ref m ''OpBinary.rhs'' b"
| "op_errors m r (OpCast k to src) = value_ref m ''OpCast.src'' src @ unless (to \<noteq> kInvalidType) ''OpCast has invalid target type''"
| "op_errors m r (OpArrayMake elems) = array_make_errors m r elems"
| "op_errors m r (OpArrayGet base i) = value_ref m ''OpArrayGet.base'' base @ value_ref m ''OpArrayGet.index'' i"
| "op_errors m r (OpArrayLen base) = value_ref m ''OpArrayLen.base'' base"
| "op_errors m r (OpRecordMake membs) = record_make_errors m r membs"
| "op_errors m r (OpLocalSlot nm) = slot_errors m r"
| "op_errors m r (OpGlobalSlot g) = global_slot_errors m r g"
| "op_errors m r (OpFieldPlace base nm) = field_place_errors m base nm"
| "op_errors m r (OpIndexPlace base i) = value_ref m ''OpIndexPlace.base'' base @ value_ref m ''OpIndexPlace.index'' i
     @ place_operand m base ''OpIndexPlace base must be a place''"
| "op_errors m r (OpSubView base off len) = value_ref m ''OpSubView.base'' base @ value_ref m ''OpSubView.offset'' off
     @ value_ref m ''OpSubView.length'' len @ place_operand m base ''OpSubView base must be a place''"
| "op_errors m r (OpLoad p) = value_ref m ''OpLoad.place'' p @ place_operand m p ''OpLoad operand must be a place''"
| "op_errors m r (OpStore p v) = value_ref m ''OpStore.place'' p @ value_ref m ''OpStore.value'' v
     @ place_operand m p ''OpStore place operand must be a place''"
| "op_errors m r (OpBorrowView p) = value_ref m ''OpBorrowView.source_place'' p
     @ stage_only m StageOpen ''OpBorrowView is only legal in gOIR-open''"
| "op_errors m r (OpEscapeView p) = value_ref m ''OpEscapeView.source_place'' p
     @ stage_only m StageOpen ''OpEscapeView is only legal in gOIR-open''"
| "op_errors m r (OpOptionalSome v) = value_ref m ''OpOptionalSome.value'' v @ needs_result r ''OpOptionalSome''"
| "op_errors m r OpOptionalNone = needs_result r ''OpOptionalNone''"
| "op_errors m r (OpOptionalIsPresent v) = value_ref m ''OpOptionalIsPresent.optional'' v @ needs_result r ''OpOptionalIsPresent''"
| "op_errors m r (OpOptionalGet v) = value_ref m ''OpOptionalGet.optional'' v @ needs_result r ''OpOptionalGet''"
| "op_errors m r (OpEnumTag tag) = needs_result r ''OpEnumTag''"
| "op_errors m r (OpSemanticInvoke c args) = unless (in_vec (gm_computations m) c) ''OpSemanticInvoke has invalid computation''
     @ value_refs m ''OpSemanticInvoke.arg'' args @ stage_only m StageOpen ''OpSemanticInvoke is only legal in gOIR-open''"
| "op_errors m r (OpCallDirect callee args) = unless (in_vec (gm_realizations m) callee) ''OpCallDirect has invalid callee realization''
     @ value_refs m ''OpCallDirect.arg'' args @ stage_only m StagePlaced ''OpCallDirect is only legal in gOIR-placed''"
| "op_errors m r (OpCallExtern callee args) = extern_call_errors m callee args"
| "op_errors m r d = []"

definition inst_errors :: "gmodule \<Rightarrow> nat \<Rightarrow> string list" where
  "inst_errors m iid =
     (if \<not> in_vec (gm_insts m) iid then [''block has invalid inst id'']
      else
        let i = gm_insts m ! iid; r = gi_result i in
        unless (r = kInvalidId \<or> in_vec (gm_values m) r) ''inst has invalid result value'' @ op_errors m r (gi_data i))"

section \<open>Blocks and the module\<close>

definition param_errors :: "gmodule \<Rightarrow> nat \<Rightarrow> string list" where
  "param_errors m p =
     (if \<not> in_vec (gm_values m) p then [''block has invalid param value'']
      else unless (\<not> gx_is_place (gm_values m ! p)) ''block parameter must not be a place value'')"

fun switch_arm_errors :: "gmodule \<Rightarrow> int set \<Rightarrow> gswitch_arm list \<Rightarrow> string list" where
  "switch_arm_errors m seen [] = []"
| "switch_arm_errors m seen (a # as) =
     unless (ga_match_value a \<notin> seen) ''TermSwitch has duplicate case value''
     @ block_args m ''TermSwitch.case'' (ga_target a) (ga_args a)
     @ switch_arm_errors m (insert (ga_match_value a) seen) as"

fun term_errors :: "gmodule \<Rightarrow> gterm \<Rightarrow> string list" where
  "term_errors m (GTermBr target args) = block_args m ''TermBr'' target args"
| "term_errors m (GTermCondBr cond tb targs eb eargs) =
     value_ref m ''TermCondBr.cond'' cond @ block_args m ''TermCondBr.then'' tb targs @ block_args m ''TermCondBr.else'' eb eargs"
| "term_errors m (GTermSwitch v db dargs arms) =
     value_ref m ''TermSwitch.scrutinee'' v @ block_args m ''TermSwitch.default'' db dargs @ switch_arm_errors m {} arms"
| "term_errors m (GTermRet has v) = (if has then value_ref m ''TermRet.value'' v else [])"

definition gblock_errors :: "gmodule \<Rightarrow> gblock \<Rightarrow> string list" where
  "gblock_errors m b =
     concat (map (param_errors m) (gk_params b)) @ concat (map (inst_errors m) (gk_insts b))
     @ (if \<not> gk_has_term b then [''block is missing terminator''] else term_errors m (gk_term b))"

fun open_only :: "gop \<Rightarrow> bool" where
  "open_only (OpBorrowView p) = True"
| "open_only (OpEscapeView p) = True"
| "open_only (OpSemanticInvoke c args) = True"
| "open_only d = False"

definition placed_errors :: "gmodule \<Rightarrow> string list" where
  "placed_errors m =
     (if gh_stage (gm_header m) = StagePlaced
      then concat (map (\<lambda>v. unless (ow_kind (gx_ownership v) = OwnPlain) ''placed gOIR must not contain ownership-sensitive values in M1'') (gm_values m))
           @ concat (map (\<lambda>i. unless (\<not> open_only (gi_data i)) ''placed gOIR still contains open-stage-only operations'') (gm_insts m))
      else [])"

definition goir_verify :: "gmodule \<Rightarrow> string list" where
  "goir_verify m =
     concat (map (layout_errors m) (gm_layouts m)) @ concat (map (global_errors m) (gm_globals m))
     @ concat (map (sig_errors m) (gm_sigs m)) @ concat (map (computation_errors m) (gm_computations m))
     @ concat (map (realization_errors m) (gm_realizations m)) @ concat (map (gblock_errors m) (gm_blocks m))
     @ placed_errors m"

section \<open>Well-formed modules\<close>

text \<open>The values an instruction uses, and the layouts and places it relies on.\<close>

fun gop_uses :: "gop \<Rightarrow> nat list" where
  "gop_uses (OpUnary op src) = [src]"
| "gop_uses (OpBinary op a b) = [a, b]"
| "gop_uses (OpCast k to src) = [src]"
| "gop_uses (OpArrayMake elems) = elems"
| "gop_uses (OpArrayGet base i) = [base, i]"
| "gop_uses (OpArrayLen base) = [base]"
| "gop_uses (OpRecordMake membs) = map snd membs"
| "gop_uses (OpFieldPlace base nm) = [base]"
| "gop_uses (OpIndexPlace base i) = [base, i]"
| "gop_uses (OpSubView base off len) = [base, off, len]"
| "gop_uses (OpLoad p) = [p]"
| "gop_uses (OpStore p v) = [p, v]"
| "gop_uses (OpBorrowView p) = [p]"
| "gop_uses (OpEscapeView p) = [p]"
| "gop_uses (OpOptionalSome v) = [v]"
| "gop_uses (OpOptionalIsPresent v) = [v]"
| "gop_uses (OpOptionalGet v) = [v]"
| "gop_uses (OpSemanticInvoke c args) = args"
| "gop_uses (OpCallDirect callee args) = args"
| "gop_uses (OpCallExtern callee args) = args"
| "gop_uses d = []"

text \<open>The operand that has to be a place.\<close>

fun gop_place :: "gop \<Rightarrow> nat option" where
  "gop_place (OpFieldPlace base nm) = Some base"
| "gop_place (OpIndexPlace base i) = Some base"
| "gop_place (OpSubView base off len) = Some base"
| "gop_place (OpLoad p) = Some p"
| "gop_place (OpStore p v) = Some p"
| "gop_place d = None"

fun makes_result :: "gop \<Rightarrow> bool" where
  "makes_result (OpTextLit t) = True"
| "makes_result (OpArrayMake elems) = True"
| "makes_result (OpRecordMake membs) = True"
| "makes_result (OpLocalSlot nm) = True"
| "makes_result (OpGlobalSlot g) = True"
| "makes_result (OpOptionalSome v) = True"
| "makes_result OpOptionalNone = True"
| "makes_result (OpOptionalIsPresent v) = True"
| "makes_result (OpOptionalGet v) = True"
| "makes_result (OpEnumTag tag) = True"
| "makes_result d = False"

fun stage_of_op :: "gop \<Rightarrow> stage_kind option" where
  "stage_of_op (OpBorrowView p) = Some StageOpen"
| "stage_of_op (OpEscapeView p) = Some StageOpen"
| "stage_of_op (OpSemanticInvoke c args) = Some StageOpen"
| "stage_of_op (OpCallDirect callee args) = Some StagePlaced"
| "stage_of_op d = None"

text \<open>What else an instruction with result \<open>r\<close> needs.\<close>

fun gop_rule :: "gmodule \<Rightarrow> nat \<Rightarrow> gop \<Rightarrow> bool" where
  "gop_rule m r (OpCast k to src) \<longleftrightarrow> to \<noteq> kInvalidType"
| "gop_rule m r (OpArrayMake elems) \<longleftrightarrow> gx_ty (gm_values m ! r) \<noteq> kInvalidType \<and> gx_layout (gm_values m ! r) = LcFixedArray"
| "gop_rule m r (OpRecordMake membs) \<longleftrightarrow> find_record_layout m (gx_ty (gm_values m ! r)) \<noteq> None
     \<and> distinct (map fst membs) \<and> (\<forall>n \<in> set (map fst membs). in_vec (gm_strings m) n)"
| "gop_rule m r (OpLocalSlot nm) \<longleftrightarrow> is_place_of m r GPlaceLocalSlot"
| "gop_rule m r (OpGlobalSlot g) \<longleftrightarrow> in_vec (gm_globals m) g \<and> is_place_of m r GPlaceGlobalSlot"
| "gop_rule m r (OpFieldPlace base nm) \<longleftrightarrow>
     (\<exists>l. find_record_layout m (place_storage_type m base) = Some l \<and> nm \<in> set (map glf_name (gl_fields l)))"
| "gop_rule m r (OpSemanticInvoke c args) \<longleftrightarrow> in_vec (gm_computations m) c"
| "gop_rule m r (OpCallDirect callee args) \<longleftrightarrow> in_vec (gm_realizations m) callee"
| "gop_rule m r (OpCallExtern callee args) \<longleftrightarrow> in_vec (gm_realizations m) callee
     \<and> gr_abi (gm_realizations m ! callee) = GAbiC \<and> gr_linkage (gm_realizations m ! callee) = GLinkExternal"
| "gop_rule m r d \<longleftrightarrow> True"

definition ginst_ok :: "gmodule \<Rightarrow> ginst \<Rightarrow> bool" where
  "ginst_ok m i \<longleftrightarrow>
     (gi_result i = kInvalidId \<longrightarrow> \<not> makes_result (gi_data i)) \<and> (gi_result i \<noteq> kInvalidId \<longrightarrow> in_vec (gm_values m) (gi_result i))
     \<and> (\<forall>v \<in> set (gop_uses (gi_data i)). in_vec (gm_values m) v)
     \<and> (\<forall>p. gop_place (gi_data i) = Some p \<longrightarrow> gx_is_place (gm_values m ! p))
     \<and> (\<forall>st. stage_of_op (gi_data i) = Some st \<longrightarrow> gh_stage (gm_header m) = st)
     \<and> gop_rule m (gi_result i) (gi_data i)"

text \<open>An edge passes one value of the right type for each parameter of its target.\<close>

definition gedge_ok :: "gmodule \<Rightarrow> nat \<times> nat list \<Rightarrow> bool" where
  "gedge_ok m = (\<lambda>(target, args). in_vec (gm_blocks m) target
     \<and> list_all2 (\<lambda>a p. in_vec (gm_values m) a \<and> gx_ty (gm_values m ! a) = gx_ty (gm_values m ! p)) args (gk_params (gm_blocks m ! target)))"

fun gterm_edges :: "gterm \<Rightarrow> (nat \<times> nat list) list" where
  "gterm_edges (GTermBr target args) = [(target, args)]"
| "gterm_edges (GTermCondBr cond tb targs eb eargs) = [(tb, targs), (eb, eargs)]"
| "gterm_edges (GTermSwitch v db dargs arms) = (db, dargs) # map (\<lambda>a. (ga_target a, ga_args a)) arms"
| "gterm_edges (GTermRet has v) = []"

fun gterm_uses :: "gterm \<Rightarrow> nat list" where
  "gterm_uses (GTermCondBr cond tb targs eb eargs) = [cond]"
| "gterm_uses (GTermSwitch v db dargs arms) = [v]"
| "gterm_uses (GTermRet has v) = (if has then [v] else [])"
| "gterm_uses (GTermBr target args) = []"

fun gterm_cases :: "gterm \<Rightarrow> int list" where
  "gterm_cases (GTermSwitch v db dargs arms) = map ga_match_value arms"
| "gterm_cases t = []"

definition gterm_ok :: "gmodule \<Rightarrow> gterm \<Rightarrow> bool" where
  "gterm_ok m t \<longleftrightarrow> (\<forall>e \<in> set (gterm_edges t). gedge_ok m e) \<and> (\<forall>v \<in> set (gterm_uses t). in_vec (gm_values m) v)
     \<and> distinct (gterm_cases t)"

definition gblock_ok :: "gmodule \<Rightarrow> gblock \<Rightarrow> bool" where
  "gblock_ok m b \<longleftrightarrow>
     (\<forall>p \<in> set (gk_params b). in_vec (gm_values m) p \<and> \<not> gx_is_place (gm_values m ! p))
     \<and> (\<forall>i \<in> set (gk_insts b). in_vec (gm_insts m) i \<and> ginst_ok m (gm_insts m ! i))
     \<and> gk_has_term b \<and> gterm_ok m (gk_term b)"

definition gdecls_ok :: "gmodule \<Rightarrow> bool" where
  "gdecls_ok m \<longleftrightarrow>
     (\<forall>l \<in> set (gm_layouts m). gl_self_type l \<noteq> kInvalidType \<and> distinct (map glf_name (gl_fields l))
        \<and> (\<forall>f \<in> set (gl_fields l). in_vec (gm_strings m) (glf_name f) \<and> glf_type f \<noteq> kInvalidType))
     \<and> (\<forall>g \<in> set (gm_globals m). in_vec (gm_strings m) (gg_name g) \<and> gg_type g \<noteq> kInvalidType
        \<and> (gg_link_name g \<noteq> kInvalidId \<longrightarrow> gg_link_name g < length (gm_strings m)) \<and> (gg_abi g = GAbiC \<longrightarrow> gg_tls g = TlsNone))
     \<and> (\<forall>s \<in> set (gm_sigs m). in_vec (gm_strings m) (gs_name s) \<and> kInvalidType \<notin> set (gs_param_types s))
     \<and> (\<forall>c \<in> set (gm_computations m). in_vec (gm_sigs m) (gc_sig c) \<and> in_vec (gm_policies m) (gc_placement_policy c)
        \<and> (\<forall>r \<in> set (gc_realizations c). in_vec (gm_realizations m) r))
     \<and> (\<forall>r \<in> set (gm_realizations m). in_vec (gm_computations m) (gr_computation r)
        \<and> (gr_link_name r \<noteq> kInvalidId \<longrightarrow> gr_link_name r < length (gm_strings m))
        \<and> (if gr_linkage r = GLinkExternal then gr_blocks r = [] \<and> gr_entry r = kInvalidId else in_vec (gm_blocks m) (gr_entry r))
        \<and> (\<forall>b \<in> set (gr_blocks r). in_vec (gm_blocks m) b))"

definition placed_ok :: "gmodule \<Rightarrow> bool" where
  "placed_ok m \<longleftrightarrow> (gh_stage (gm_header m) = StagePlaced \<longrightarrow>
     (\<forall>v \<in> set (gm_values m). ow_kind (gx_ownership v) = OwnPlain) \<and> (\<forall>i \<in> set (gm_insts m). \<not> open_only (gi_data i)))"

definition wf_goir :: "gmodule \<Rightarrow> bool" where
  "wf_goir m \<longleftrightarrow> gdecls_ok m \<and> (\<forall>b \<in> set (gm_blocks m). gblock_ok m b) \<and> placed_ok m"

section \<open>The checks decide the predicates\<close>

lemma value_ref_Nil [simp]: "value_ref m loc i = [] \<longleftrightarrow> in_vec (gm_values m) i"
  by (simp add: value_ref_def)

lemma value_refs_Nil [simp]: "value_refs m loc is = [] \<longleftrightarrow> (\<forall>i \<in> set is. in_vec (gm_values m) i)"
  by (auto simp: value_refs_def)

lemma layout_field_errors_Nil:
  "layout_field_errors m seen fs = [] \<longleftrightarrow> distinct (map glf_name fs) \<and> seen \<inter> glf_name ` set fs = {}
     \<and> (\<forall>f \<in> set fs. in_vec (gm_strings m) (glf_name f) \<and> glf_type f \<noteq> kInvalidType)"
  by (induction fs arbitrary: seen) auto

lemma record_member_errors_Nil:
  "record_member_errors m seen fs = [] \<longleftrightarrow> distinct (map fst fs) \<and> seen \<inter> fst ` set fs = {}
     \<and> (\<forall>n \<in> set (map fst fs). in_vec (gm_strings m) n) \<and> (\<forall>v \<in> set (map snd fs). in_vec (gm_values m) v)"
  by (induction m seen fs rule: record_member_errors.induct) auto

lemma gdecls_Nil:
  "concat (map (layout_errors m) (gm_layouts m)) @ concat (map (global_errors m) (gm_globals m))
     @ concat (map (sig_errors m) (gm_sigs m)) @ concat (map (computation_errors m) (gm_computations m))
     @ concat (map (realization_errors m) (gm_realizations m)) = [] \<longleftrightarrow> gdecls_ok m"
  unfolding gdecls_ok_def append_is_Nil_conv concat_eq_Nil_conv
  by (intro arg_cong2 [where f = conj])
    (auto simp: layout_errors_def layout_field_errors_Nil global_errors_def sig_errors_def computation_errors_def realization_errors_def)

lemma block_args_Nil: "block_args m loc target args = [] \<longleftrightarrow> gedge_ok m (target, args)"
  by (auto simp: block_args_def block_arg_def gedge_ok_def Let_def list_all2_iff split: if_splits)

lemma switch_arm_errors_Nil:
  "switch_arm_errors m seen as = [] \<longleftrightarrow> distinct (map ga_match_value as) \<and> seen \<inter> ga_match_value ` set as = {}
     \<and> (\<forall>a \<in> set as. gedge_ok m (ga_target a, ga_args a))"
  by (induction m seen "as" rule: switch_arm_errors.induct) (auto simp: block_args_Nil)

lemma term_errors_Nil: "term_errors m t = [] \<longleftrightarrow> gterm_ok m t"
  by (cases t) (auto simp: gterm_ok_def block_args_Nil switch_arm_errors_Nil)

lemma op_errors_Nil:
  assumes "r = kInvalidId \<or> in_vec (gm_values m) r"
  shows "op_errors m r d = [] \<longleftrightarrow>
    (r = kInvalidId \<longrightarrow> \<not> makes_result d) \<and> (\<forall>v \<in> set (gop_uses d). in_vec (gm_values m) v)
    \<and> (\<forall>p. gop_place d = Some p \<longrightarrow> gx_is_place (gm_values m ! p))
    \<and> (\<forall>st. stage_of_op d = Some st \<longrightarrow> gh_stage (gm_header m) = st) \<and> gop_rule m r d"

proof (cases d)
  case (OpRecordMake fs)
  then show ?thesis using assms
    by (cases "r = kInvalidId") (simp_all add: record_make_errors_def record_member_errors_Nil conj_ac del: not_None_eq not_Some_eq)
next
  case (OpFieldPlace b n)
  then show ?thesis 
    by (simp add: field_place_errors_def unless_def split: option.split)
next
  case (OpArrayMake b)
  then show ?thesis using assms
    by (simp add: array_make_errors_def needs_result_def conj_ac)
next
  case (OpCallExtern b)
  then show ?thesis using assms
    by (simp add: extern_call_errors_def needs_result_def conj_ac)
next
  case (OpGlobalSlot b)
  then show ?thesis using assms
    by (simp add: global_slot_errors_def needs_result_def conj_ac)
next
  case (OpLocalSlot b)
  then show ?thesis using assms
    by (simp add: slot_errors_def needs_result_def conj_ac)
qed (use assms in \<open>auto simp: needs_result_def place_operand_def stage_only_def\<close>)

lemma inst_errors_Nil: "inst_errors m i = [] \<longleftrightarrow> in_vec (gm_insts m) i \<and> ginst_ok m (gm_insts m ! i)"
proof (cases "in_vec (gm_insts m) i")
  case True
  define r where "r = gi_result (gm_insts m ! i)"
  consider "\<not> (r = kInvalidId \<or> in_vec (gm_values m) r)" | "r = kInvalidId" | "in_vec (gm_values m) r" by blast
  then show ?thesis
    using True unfolding inst_errors_def ginst_ok_def Let_def r_def [symmetric]
    by cases (simp, simp add: op_errors_Nil, use op_errors_Nil [of r m] in \<open>auto simp: in_vec_def\<close>)
qed (simp add: inst_errors_def)

lemma param_errors_Nil: "param_errors m p = [] \<longleftrightarrow> in_vec (gm_values m) p \<and> \<not> gx_is_place (gm_values m ! p)"
  by (simp add: param_errors_def)

lemma gblock_errors_Nil: "gblock_errors m b = [] \<longleftrightarrow> gblock_ok m b"
  unfolding gblock_errors_def gblock_ok_def append_is_Nil_conv concat_eq_Nil_conv
  by (simp only: set_map ball_simps inst_errors_Nil param_errors_Nil if_split) (auto simp: term_errors_Nil)

lemma placed_errors_Nil: "placed_errors m = [] \<longleftrightarrow> placed_ok m"
  by (auto simp: placed_errors_def placed_ok_def)

lemma verify_goir_iff: "goir_verify m = [] \<longleftrightarrow> wf_goir m"
  using gdecls_Nil [of m] by (auto simp: goir_verify_def wf_goir_def gblock_errors_Nil placed_errors_Nil)

end
