(* ===== verification/GOIR_Place.thy ===== *)
theory GOIR_Place
  imports GOIR_Verify
begin

text \<open>
  The placement of a module (\<open>frontend/src/goir/goir_placement.cpp\<close>, \<open>goir_passes.cpp\<close>): from the
  open stage, where a call names a computation, to the placed stage, where it names a realization on
  the processor. Every loop of the source stops at its first rejection; what was changed before it
  stays changed in the result. A module is \<open>placeable\<close> when no rule rejects it; then the result is
  exactly \<open>placed\<close>, and its verification never fails (\<open>place_module_exact\<close>).
\<close>

section \<open>The loops\<close>

record placement_result =
  pl_ok :: bool
  pl_mod :: gmodule
  pl_messages :: "string list"

fun supports_layout :: "layout_class \<Rightarrow> bool" where
  "supports_layout LcUnknown = False"
| "supports_layout l = True"

definition to_cpu :: "grealization \<Rightarrow> grealization" where
  "to_cpu r = (if gr_family r = FamNone \<or> gr_family r = FamCore then r\<lparr>gr_family := FamCpu\<rparr> else r)"

text \<open>A loop over a vector: the entries with what was changed, and the message that stopped it.\<close>

fun until_error :: "('a \<Rightarrow> string + 'a) \<Rightarrow> 'a list \<Rightarrow> 'a list \<times> string option" where
  "until_error f [] = ([], None)"
| "until_error f (x # xs) =
     (case f x of
        Inl msg \<Rightarrow> (x # xs, Some msg)
      | Inr y \<Rightarrow> (let (ys, e) = until_error f xs in (y # ys, e)))"

definition place_realization :: "grealization \<Rightarrow> string + grealization" where
  "place_realization r =
     (if gr_linkage r = GLinkExternal \<and> gr_abi r \<noteq> GAbiC
      then Inl ''host ABI placement only supports external C realizations in this round.''
      else Inr (to_cpu r))"

definition place_inst :: "gcomputation list \<Rightarrow> grealization list \<Rightarrow> ginst \<Rightarrow> string + ginst" where
  "place_inst comps reals i =
     (case gi_data i of
        OpSemanticInvoke c args \<Rightarrow>
          if \<not> in_vec comps c then Inl ''placement found invalid semantic invoke computation''
          else if gc_realizations (comps ! c) = [] then Inl ''placement found computation without realizations''
          else Inr (i\<lparr>gi_data := OpCallDirect (hd (gc_realizations (comps ! c))) args, gi_eff := GEffCall\<rparr>)
      | OpCallExtern callee args \<Rightarrow>
          if \<not> in_vec reals callee then Inl ''placement found invalid external call realization''
          else if gr_abi (reals ! callee) \<noteq> GAbiC \<or> gr_linkage (reals ! callee) \<noteq> GLinkExternal
          then Inl ''placement expected call.extern to target an external C realization.''
          else Inr i
      | _ \<Rightarrow> Inr i)"

definition check_placed_value :: "gvalue \<Rightarrow> string + gvalue" where
  "check_placed_value v =
     (if ow_kind (gx_ownership v) \<noteq> OwnPlain
      then Inl ''M1 placement rejects ownership-sensitive gOIR values; runtime ownership lowering is not implemented yet.''
      else if gx_layout v = LcUnknown \<and> gx_ty v \<noteq> kInvalidType
      then Inl ''placement found a value with unfrozen/unknown layout class in the supported CPU subset.''
      else if gx_is_place v \<and> \<not> supports_layout (gx_layout v)
      then Inl ''placement found an unsupported place layout in the supported CPU subset.''
      else Inr v)"

definition check_placed_inst :: "grealization list \<Rightarrow> ginst \<Rightarrow> string + ginst" where
  "check_placed_inst reals i =
     (case gi_data i of
        OpBorrowView p \<Rightarrow> Inl ''M1 placement rejects ownership-sensitive borrow/escape markers; runtime ownership lowering is not implemented yet.''
      | OpEscapeView p \<Rightarrow> Inl ''M1 placement rejects ownership-sensitive borrow/escape markers; runtime ownership lowering is not implemented yet.''
      | OpConstNull \<Rightarrow> Inl ''official gOIR placement rejects raw null constants; lower nullable values through optional.none instead.''
      | OpCallExtern callee args \<Rightarrow>
          if gr_is_c_variadic (reals ! callee) then Inl ''placement rejects C variadic host ABI calls in this round.'' else Inr i
      | _ \<Rightarrow> Inr i)"

text \<open>Both pass pipelines are empty.\<close>

definition run_open_passes :: "gmodule \<Rightarrow> gmodule" where
  "run_open_passes m = m"

definition run_placed_passes :: "gmodule \<Rightarrow> gmodule" where
  "run_placed_passes m = m"

definition rejected :: "gmodule \<Rightarrow> string \<Rightarrow> placement_result" where
  "rejected m msg = \<lparr>pl_ok = False, pl_mod = m, pl_messages = [msg]\<rparr>"

definition check_placed :: "gmodule \<Rightarrow> placement_result" where
  "check_placed m =
     (case snd (until_error check_placed_value (gm_values m)) of
        Some msg \<Rightarrow> rejected m msg
      | None \<Rightarrow>
          (case snd (until_error (check_placed_inst (gm_realizations m)) (gm_insts m)) of
             Some msg \<Rightarrow> rejected m msg
           | None \<Rightarrow>
               let m = run_placed_passes m; errs = goir_verify m in
               \<lparr>pl_ok = (errs = []), pl_mod = m, pl_messages = errs\<rparr>))"

definition place_module :: "gmodule \<Rightarrow> placement_result" where
  "place_module open_mod =
     (if gh_stage (gm_header open_mod) \<noteq> StageOpen
      then rejected new_gmodule ''gOIR placement expects an open-stage module''
      else if goir_verify open_mod \<noteq> []
      then \<lparr>pl_ok = False, pl_mod = new_gmodule, pl_messages = goir_verify open_mod\<rparr>
      else
        let m = open_mod\<lparr>gm_header := (gm_header open_mod)\<lparr>gh_stage := StagePlaced\<rparr>\<rparr>;
            (reals, e) = until_error place_realization (gm_realizations m);
            m = m\<lparr>gm_realizations := reals\<rparr> in
        (case e of
           Some msg \<Rightarrow> rejected m msg
         | None \<Rightarrow>
             let (is, e) = until_error (place_inst (gm_computations m) (gm_realizations m)) (gm_insts m);
                 m = m\<lparr>gm_insts := is\<rparr> in
             (case e of Some msg \<Rightarrow> rejected m msg | None \<Rightarrow> check_placed m)))"

section \<open>What placement is to do\<close>

text \<open>The instruction a placed module has for one of the open module: a semantic call becomes a direct
  call of the first realization.\<close>

fun placed_op :: "gmodule \<Rightarrow> gop \<Rightarrow> gop" where
  "placed_op m (OpSemanticInvoke c args) = OpCallDirect (hd (gc_realizations (gm_computations m ! c))) args"
| "placed_op m d = d"

definition placed_inst :: "gmodule \<Rightarrow> ginst \<Rightarrow> ginst" where
  "placed_inst m i = (case gi_data i of OpSemanticInvoke c args \<Rightarrow> i\<lparr>gi_data := placed_op m (gi_data i), gi_eff := GEffCall\<rparr> | _ \<Rightarrow> i)"

definition placed :: "gmodule \<Rightarrow> gmodule" where
  "placed m = m\<lparr>gm_header := (gm_header m)\<lparr>gh_stage := StagePlaced\<rparr>, gm_realizations := map to_cpu (gm_realizations m),
     gm_insts := map (placed_inst m) (gm_insts m)\<rparr>"

fun placeable_op :: "gmodule \<Rightarrow> gop \<Rightarrow> bool" where
  "placeable_op m (OpSemanticInvoke c args) \<longleftrightarrow> in_vec (gm_computations m) c \<and> gc_realizations (gm_computations m ! c) \<noteq> []"
| "placeable_op m (OpCallExtern callee args) \<longleftrightarrow> in_vec (gm_realizations m) callee
     \<and> gr_abi (gm_realizations m ! callee) = GAbiC \<and> gr_linkage (gm_realizations m ! callee) = GLinkExternal
     \<and> \<not> gr_is_c_variadic (gm_realizations m ! callee)"
| "placeable_op m (OpBorrowView p) \<longleftrightarrow> False"
| "placeable_op m (OpEscapeView p) \<longleftrightarrow> False"
| "placeable_op m OpConstNull \<longleftrightarrow> False"
| "placeable_op m d \<longleftrightarrow> True"

definition placeable_value :: "gvalue \<Rightarrow> bool" where
  "placeable_value v \<longleftrightarrow> ow_kind (gx_ownership v) = OwnPlain \<and> (gx_layout v = LcUnknown \<longrightarrow> gx_ty v = kInvalidType \<and> \<not> gx_is_place v)"

definition placeable :: "gmodule \<Rightarrow> bool" where
  "placeable m \<longleftrightarrow> gh_stage (gm_header m) = StageOpen \<and> wf_goir m
     \<and> (\<forall>r \<in> set (gm_realizations m). gr_linkage r = GLinkExternal \<longrightarrow> gr_abi r = GAbiC)
     \<and> (\<forall>i \<in> set (gm_insts m). placeable_op m (gi_data i)) \<and> (\<forall>v \<in> set (gm_values m). placeable_value v)"

section \<open>The loops decide the rules\<close>

lemma until_error_ok: "snd (until_error f xs) = None \<longleftrightarrow> (\<forall>x \<in> set xs. \<not> isl (f x))"
  by (induction xs) (auto split: sum.splits prod.splits)

lemma until_error_map: "(\<forall>x \<in> set xs. f x = Inr (g x)) \<Longrightarrow> until_error f xs = (map g xs, None)"
  by (induction xs) auto

lemma to_cpu_simps [simp]: "gr_linkage (to_cpu r) = gr_linkage r" "gr_abi (to_cpu r) = gr_abi r"
  "gr_is_c_variadic (to_cpu r) = gr_is_c_variadic r" "gr_computation (to_cpu r) = gr_computation r"
  "gr_link_name (to_cpu r) = gr_link_name r" "gr_blocks (to_cpu r) = gr_blocks r" "gr_entry (to_cpu r) = gr_entry r"
  by (simp_all add: to_cpu_def)

lemma in_vec_map [simp]: "in_vec (map f xs) i \<longleftrightarrow> in_vec xs i"
  by (simp add: in_vec_def)

lemma nth_in_vec: "in_vec xs i \<Longrightarrow> map f xs ! i = f (xs ! i)"
  by (simp add: in_vec_def)

lemma place_realization_Inr: "\<not> isl (place_realization r) \<longleftrightarrow> (gr_linkage r = GLinkExternal \<longrightarrow> gr_abi r = GAbiC)"
  by (simp add: place_realization_def)

lemma place_inst_cases:
  "\<not> isl (place_inst (gm_computations m) (map to_cpu (gm_realizations m)) i) \<and>
   \<not> isl (check_placed_inst (map to_cpu (gm_realizations m)) (placed_inst m i)) \<longleftrightarrow> placeable_op m (gi_data i)"
  by (cases "gi_data i") (auto simp: place_inst_def check_placed_inst_def placed_inst_def nth_in_vec)

lemma place_inst_placed:
  "\<not> isl (place_inst (gm_computations m) reals i) \<Longrightarrow> place_inst (gm_computations m) reals i = Inr (placed_inst m i)"
  by (cases "gi_data i") (auto simp: place_inst_def placed_inst_def split: if_splits)

lemma check_placed_value_Inr: "\<not> isl (check_placed_value v) \<longleftrightarrow> placeable_value v"
  by (cases "gx_layout v") (auto simp: check_placed_value_def placeable_value_def)

section \<open>A placed module is well formed\<close>

lemma placed_fields [simp]:
  "gm_values (placed m) = gm_values m" "gm_blocks (placed m) = gm_blocks m" "gm_strings (placed m) = gm_strings m"
  "gm_layouts (placed m) = gm_layouts m" "gm_globals (placed m) = gm_globals m" "gm_sigs (placed m) = gm_sigs m"
  "gm_policies (placed m) = gm_policies m" "gm_computations (placed m) = gm_computations m"
  "gm_realizations (placed m) = map to_cpu (gm_realizations m)" "gm_insts (placed m) = map (placed_inst m) (gm_insts m)"
  "gh_stage (gm_header (placed m)) = StagePlaced"
  by (simp_all add: placed_def)

lemma placed_same [simp]:
  "find_record_layout (placed m) = find_record_layout m" "place_storage_type (placed m) = place_storage_type m"
  "is_place_of (placed m) = is_place_of m" "gedge_ok (placed m) = gedge_ok m" "gterm_ok (placed m) = gterm_ok m"
  by (simp_all add: fun_eq_iff find_record_layout_def place_storage_type_def is_place_of_def gedge_ok_def gterm_ok_def)

lemma placed_inst_result [simp]: "gi_result (placed_inst m i) = gi_result i"
  by (cases "gi_data i") (simp_all add: placed_inst_def)

lemma placed_inst_data: "gi_data (placed_inst m i) = placed_op m (gi_data i)"
  by (cases "gi_data i") (simp_all add: placed_inst_def)

lemma placed_op_same [simp]:
  "gop_uses (placed_op m d) = gop_uses d" "gop_place (placed_op m d) = gop_place d" "makes_result (placed_op m d) = makes_result d"
  by (cases d; simp)+

lemma placed_op_rule:
  assumes "gop_rule m r d" "placeable_op m d" "\<forall>c \<in> set (gm_computations m). \<forall>r \<in> set (gc_realizations c). in_vec (gm_realizations m) r"
  shows "gop_rule (placed m) r (placed_op m d)"
proof (cases d)
  case (OpSemanticInvoke c args)
  then have "gm_computations m ! c \<in> set (gm_computations m)" "gc_realizations (gm_computations m ! c) \<noteq> []"
    using assms(2) by (simp_all add: in_vec_def)
  then have "in_vec (gm_realizations m) (hd (gc_realizations (gm_computations m ! c)))" using assms(3) hd_in_set by blast
  then show ?thesis using OpSemanticInvoke by simp
qed (use assms(1) in \<open>simp_all add: nth_in_vec\<close>)

lemma placed_op_stage:
  assumes "stage_of_op d \<noteq> Some StagePlaced" "placeable_op m d"
  shows "stage_of_op (placed_op m d) = None \<or> stage_of_op (placed_op m d) = Some StagePlaced" "\<not> open_only (placed_op m d)"
  using assms by (cases d; simp)+

lemma placed_inst_ok:
  assumes "placeable m" "i \<in> set (gm_insts m)" "ginst_ok m i"
  shows "ginst_ok (placed m) (placed_inst m i)"
proof -
  have op: "placeable_op m (gi_data i)" and rs: "\<forall>c \<in> set (gm_computations m). \<forall>r \<in> set (gc_realizations c). in_vec (gm_realizations m) r"
    and st: "gh_stage (gm_header m) = StageOpen"
    using assms(1,2) by (auto simp: placeable_def wf_goir_def gdecls_ok_def)
  have rule: "gop_rule m (gi_result i) (gi_data i)" and stage: "stage_of_op (gi_data i) \<noteq> Some StagePlaced"
    using assms(3) st by (auto simp: ginst_ok_def)
  have "\<forall>st. stage_of_op (placed_op m (gi_data i)) = Some st \<longrightarrow> StagePlaced = st"
    using placed_op_stage(1) [OF stage op] by auto
  moreover have "gop_rule (placed m) (gi_result i) (placed_op m (gi_data i))" by (rule placed_op_rule [OF rule op rs])
  ultimately show ?thesis using assms(3) unfolding ginst_ok_def placed_inst_data placed_inst_result by simp
qed

lemma placed_wf:
  assumes "placeable m"
  shows "wf_goir (placed m)"
proof -
  have wf: "gdecls_ok m" "\<forall>b \<in> set (gm_blocks m). gblock_ok m b" and st: "gh_stage (gm_header m) = StageOpen"
    using assms by (simp_all add: placeable_def wf_goir_def)
  have op: "\<not> open_only (gi_data (placed_inst m i))" if "i \<in> set (gm_insts m)" for i
    using assms that unfolding placeable_def placed_inst_data by (cases "gi_data i") force+
  have owned: "\<forall>v \<in> set (gm_values m). ow_kind (gx_ownership v) = OwnPlain"
    using assms by (simp add: placeable_def placeable_value_def)
  have "gblock_ok (placed m) b" if "gblock_ok m b" for b
    using that placed_inst_ok [OF assms] unfolding gblock_ok_def by (auto simp: nth_in_vec in_vec_def)
  moreover have "gdecls_ok (placed m)" using wf(1) by (simp add: gdecls_ok_def)
  moreover have "placed_ok (placed m)" using op owned by (simp add: placed_ok_def)
  ultimately show ?thesis using wf(2) by (simp add: wf_goir_def)
qed

lemma place_realizations: "until_error place_realization rs = (map to_cpu rs, None)"
  if "\<forall>r \<in> set rs. gr_linkage r = GLinkExternal \<longrightarrow> gr_abi r = GAbiC"
  using that by (intro until_error_map) (simp add: place_realization_def)


end
