(* ===== verification/GOIR_Types.thy ===== *)
theory GOIR_Types
  imports GOIR Type_Render "HOL-Library.Monad_Syntax"
begin

text \<open>
  What the builder of the graph representation decides without its state
  (\<open>frontend/src/goir/goir_builder.cpp\<close>): the reading of literals, the operators, and which types it
  supports where.
\<close>

section \<open>Literals\<close>

definition is_hex_digit :: "char \<Rightarrow> bool" where
  "is_hex_digit c = (is_digit c \<or> (97 \<le> ubyte c \<and> ubyte c \<le> 102) \<or> (65 \<le> ubyte c \<and> ubyte c \<le> 70))"

definition hex_digit_value :: "char \<Rightarrow> nat" where
  "hex_digit_value c =
     (if is_digit c then ubyte c - 48
      else if 97 \<le> ubyte c \<and> ubyte c \<le> 102 then 10 + (ubyte c - 97)
      else if 65 \<le> ubyte c \<and> ubyte c \<le> 70 then 10 + (ubyte c - 65) else 0)"

text \<open>The digits of a literal up to the first character that is neither a digit nor an underscore.\<close>

definition literal_digits :: "string \<Rightarrow> string" where
  "literal_digits t = filter is_digit (takeWhile (\<lambda>c. is_digit c \<or> c = CHR ''_'') t)"

definition parse_int_literal_text :: "string \<Rightarrow> string" where
  "parse_int_literal_text t =
     (let sgn = (if t \<noteq> [] \<and> (hd t = CHR ''+'' \<or> hd t = CHR ''-'') then [hd t] else []);
          ds = literal_digits (drop (length sgn) t) in
      if ds = [] then ''0'' else sgn @ ds)"

text \<open>\<open>std::from_chars\<close> in base 10 on 64 bits, where the whole text has to be read. It knows no plus sign.\<close>

definition from_chars_i64 :: "string \<Rightarrow> int option" where
  "from_chars_i64 t =
     (let neg = (t \<noteq> [] \<and> hd t = CHR ''-''); ds = (if neg then tl t else t);
          v = (if neg then - int (undec (map char_digit ds)) else int (undec (map char_digit ds))) in
      if ds = [] \<or> \<not> list_all is_digit ds then None
      else if v < - (2 ^ 63) \<or> 2 ^ 63 \<le> v then None else Some v)"

definition parse_i64_literal :: "string \<Rightarrow> int option" where
  "parse_i64_literal t = from_chars_i64 (parse_int_literal_text t)"

definition char_escapes :: "(char \<times> nat) list" where
  "char_escapes = [(CHR ''n'', 10), (CHR ''r'', 13), (CHR ''t'', 9), (CHR 0x5C, 92), (CHR 0x27, 39), (CHR ''0'', 0)]"

definition parse_char_literal_code :: "string \<Rightarrow> nat option" where
  "parse_char_literal_code t =
     (if length t < 3 \<or> hd t \<noteq> CHR 0x27 \<or> last t \<noteq> CHR 0x27 then None
      else
        let body = butlast (tl t) in
        if hd body \<noteq> CHR 0x5C then (if length body \<noteq> 1 then None else Some (ubyte (hd body)))
        else if length body = 2 then map_of char_escapes (body ! 1)
        else if length body = 4 \<and> body ! 1 = CHR ''x'' \<and> is_hex_digit (body ! 2) \<and> is_hex_digit (body ! 3)
        then Some (hex_digit_value (body ! 2) * 16 + hex_digit_value (body ! 3))
        else None)"

section \<open>Operators\<close>

text \<open>By the position of the token in \<open>TokenKind\<close>.\<close>

definition binops :: "(nat \<times> gbin_op) list" where
  "binops = [(94, GAdd), (95, GSub), (96, GMul), (97, GDiv), (98, GRem), (109, GLt), (110, GLe), (111, GGt), (112, GGe),
     (107, GEq), (108, GNe), (11, GLogicalAnd), (12, GLogicalOr)]"

definition unops :: "(nat \<times> gun_op) list" where
  "unops = [(94, GPlus), (95, GNeg), (13, GNot), (100, GBitNot)]"

definition casts :: "(nat \<times> gcast_kind) list" where
  "casts = [(0, GCastAs), (1, GCastAsQ), (2, GCastAsB)]"

abbreviation k_question_question :: nat where "k_question_question \<equiv> 84"
abbreviation k_question_question_assign :: nat where "k_question_question_assign \<equiv> 85"
abbreviation k_assign :: nat where "k_assign \<equiv> 88"

definition map_binop :: "nat \<Rightarrow> gbin_op option" where
  "map_binop op = map_of binops op"

definition map_unop :: "nat \<Rightarrow> gun_op option" where
  "map_unop op = map_of unops op"

text \<open>The raw operator is cast to the one-byte enumeration.\<close>

definition map_cast :: "nat \<Rightarrow> gcast_kind option" where
  "map_cast raw = map_of casts (raw mod 256)"

section \<open>Types\<close>

definition is_builtin_in :: "type_pool \<Rightarrow> builtin set \<Rightarrow> nat \<Rightarrow> bool" where
  "is_builtin_in types B t = (t \<noteq> kInvalidType \<and> ty_kind (tp_types types ! t) = KBuiltin \<and> ty_builtin (tp_types types ! t) \<in> B)"

definition int_builtins :: "builtin set" where
  "int_builtins = {BBool, BChar, BI8, BI16, BI32, BI64, BU8, BU16, BU32, BU64, BISize, BUSize}"

definition is_supported_scalar_type :: "type_pool \<Rightarrow> nat \<Rightarrow> bool" where
  "is_supported_scalar_type types t = is_builtin_in types ({BUnit, BF32, BF64} \<union> int_builtins) t"

definition is_unit_type :: "type_pool \<Rightarrow> nat \<Rightarrow> bool" where
  "is_unit_type types t = is_builtin_in types {BUnit} t"

definition is_optional_type :: "type_pool \<Rightarrow> nat \<Rightarrow> bool" where
  "is_optional_type types t = (t \<noteq> kInvalidType \<and> ty_kind (tp_types types ! t) = KOptional)"

definition optional_elem :: "type_pool \<Rightarrow> nat \<Rightarrow> nat" where
  "optional_elem types t = (if \<not> is_optional_type types t then kInvalidType else ty_elem (tp_types types ! t))"

definition is_tag_only_enum_type :: "gmodule \<Rightarrow> nat \<Rightarrow> bool" where
  "is_tag_only_enum_type m t =
     (case find_record_layout m t of
        None \<Rightarrow> False
      | Some l \<Rightarrow> length (gl_fields l) = 1 \<and> gstring m (glf_name (gl_fields l ! 0)) = ''__tag'')"

text \<open>The recursion over the elements of optionals. Elements come before their optional in the pool, so
  the number of types bounds the depth.\<close>

primrec layout_rec :: "nat \<Rightarrow> type_pool \<Rightarrow> gmodule \<Rightarrow> nat \<Rightarrow> layout_class" where
  "layout_rec 0 types m t = LcUnknown"
| "layout_rec (Suc n) types m t =
     (if t = kInvalidType then LcUnknown
      else
        let tt = tp_types types ! t in
        (case ty_kind tt of
           KBuiltin \<Rightarrow>
             if ty_builtin tt = BUnit then LcScalar else if ty_builtin tt = BText then LcTextView
             else if is_supported_scalar_type types t then LcScalar else LcUnknown
         | KOptional \<Rightarrow>
             if layout_rec n types m (ty_elem tt) \<in> {LcScalar, LcTextView, LcTagEnum} then LcOptionalScalar else LcUnknown
         | KArray \<Rightarrow> if ty_array_has_size tt then LcFixedArray else LcSliceView
         | KNamedUser \<Rightarrow>
             if is_tag_only_enum_type m t then LcTagEnum
             else if find_record_layout m t \<noteq> None then LcPlainRecord else LcUnknown
         | _ \<Rightarrow> LcUnknown))"

definition classify_layout :: "type_pool \<Rightarrow> gmodule \<Rightarrow> nat \<Rightarrow> layout_class" where
  "classify_layout types m t = layout_rec (Suc (length (tp_types types))) types m t"

text \<open>The layouts that are read as values (\<open>is_supported_value_type_\<close>, \<open>binding_place_reads_as_value_\<close>).\<close>

definition reads_as_value :: "layout_class \<Rightarrow> bool" where
  "reads_as_value l \<longleftrightarrow> l \<in> {LcScalar, LcTextView, LcOptionalScalar, LcTagEnum}"

definition is_supported_local_type :: "type_pool \<Rightarrow> gmodule \<Rightarrow> nat \<Rightarrow> bool" where
  "is_supported_local_type types m t \<longleftrightarrow> classify_layout types m t \<in> {LcScalar, LcFixedArray, LcSliceView, LcPlainRecord,
     LcTextView, LcOptionalScalar, LcTagEnum}"

definition is_supported_signature_type :: "type_pool \<Rightarrow> gmodule \<Rightarrow> nat \<Rightarrow> bool" where
  "is_supported_signature_type types m t = (is_unit_type types t \<or> reads_as_value (classify_layout types m t))"

text \<open>A check of every member, in order, that may not end.\<close>

fun all_members :: "(nat \<Rightarrow> bool option) \<Rightarrow> nat list \<Rightarrow> bool option" where
  "all_members f [] = Some True"
| "all_members f (t # ts) = do { ok \<leftarrow> f t; if ok then all_members f ts else Some False }"

text \<open>A record for the host has C layout and members for the host. A record that contains itself sends
  the source into an endless recursion; with one unit of fuel for each layout any other ends.\<close>

definition host_record_step :: "(nat \<Rightarrow> bool option) \<Rightarrow> gmodule \<Rightarrow> nat \<Rightarrow> bool option" where
  "host_record_step f m t =
     (case find_record_layout m t of
        None \<Rightarrow> Some False
      | Some l \<Rightarrow> if gl_layout l \<noteq> DeclLayoutC then Some False else all_members f (map glf_type (gl_fields l)))"

primrec host_type_rec :: "nat \<Rightarrow> type_pool \<Rightarrow> gmodule \<Rightarrow> nat \<Rightarrow> bool option" where
  "host_type_rec 0 types m t = None"
| "host_type_rec (Suc n) types m t =
     (if t = kInvalidType then Some False
      else if is_supported_scalar_type types t then Some True
      else if is_tag_only_enum_type m t then Some True
      else host_record_step (host_type_rec n types m) m t)"

definition is_supported_host_abi_type :: "type_pool \<Rightarrow> gmodule \<Rightarrow> nat \<Rightarrow> bool option" where
  "is_supported_host_abi_type types m t = host_type_rec (Suc (length (gm_layouts m))) types m t"

definition is_supported_host_abi_record_type :: "type_pool \<Rightarrow> gmodule \<Rightarrow> nat \<Rightarrow> bool option" where
  "is_supported_host_abi_record_type types m t = host_record_step (is_supported_host_abi_type types m) m t"

definition is_supported_global_type :: "type_pool \<Rightarrow> gmodule \<Rightarrow> nat \<Rightarrow> bool option" where
  "is_supported_global_type types m t =
     (if is_supported_scalar_type types t \<or> is_tag_only_enum_type m t then Some True
      else is_supported_host_abi_record_type types m t)"

definition is_supported_switch_scrutinee_type :: "type_pool \<Rightarrow> gmodule \<Rightarrow> nat \<Rightarrow> bool" where
  "is_supported_switch_scrutinee_type types m t =
     (classify_layout types m t = LcTagEnum \<or> is_optional_type types t \<or> is_builtin_in types int_builtins t)"

definition lookup_record_field_type :: "gmodule \<Rightarrow> nat \<Rightarrow> string \<Rightarrow> nat" where
  "lookup_record_field_type m t name =
     (case find_record_layout m t of
        None \<Rightarrow> kInvalidType
      | Some l \<Rightarrow> (case find (\<lambda>f. gstring m (glf_name f) = name) (gl_fields l) of None \<Rightarrow> kInvalidType | Some f \<Rightarrow> glf_type f))"

end
