(* ===== verification/GOIR_Lower.thy ===== *)
theory GOIR_Lower
  imports GOIR_Types SIR_Verify
begin

text \<open>
  The lowering of values, places, statements and blocks of the structured representation
  (\<open>frontend/src/goir/goir_builder.cpp\<close>). One record carries what the class \<open>Builder\<close> and its
  \<open>FuncState\<close> hold. The recursion goes through all four kinds: a call is a task, each step is written
  with the recursive call \<open>rec\<close> as an argument, and \<open>lower\<close> ties the knot with fuel. \<open>None\<close> means that
  the fuel ran out or that the text of a type has no end.
\<close>

section \<open>The state\<close>

record binding =
  bi_value :: nat
  bi_type :: nat
  bi_layout :: layout_class
  bi_is_place :: bool
  bi_is_mutable :: bool

text \<open>The members of the builder, then those of the function it lowers.\<close>

record gstate =
  gz_mod :: gmodule
  gz_messages :: "string list"
  gz_computation_by_sym :: "nat \<Rightarrow> nat option"
  gz_computation_by_func :: "nat \<Rightarrow> nat option"
  gz_realization_by_func :: "nat \<Rightarrow> nat option"
  gz_realization_by_sym :: "nat \<Rightarrow> nat option"
  gz_global_by_sym :: "(nat \<times> nat) list"
  gz_supported :: "nat set"
  gz_realization :: nat
  gz_current :: nat
  gz_return_type :: nat
  gz_locals :: "nat \<Rightarrow> binding option"

record build_env =
  be_sir :: smodule
  be_types :: type_pool

definition push_error :: "string \<Rightarrow> gstate \<Rightarrow> gstate" where
  "push_error msg s = s\<lparr>gz_messages := gz_messages s @ [msg]\<rparr>"

text \<open>A step that gives an id: \<open>fail\<close> is the frequent \<open>push_error_(\<dots>); return kInvalidId\<close>.\<close>

type_synonym lowering = "gstate \<Rightarrow> (nat \<times> gstate) option"

definition give :: "nat \<Rightarrow> lowering" where
  "give v s = Some (v, s)"

definition fail :: "string \<Rightarrow> lowering" where
  "fail msg s = Some (kInvalidId, push_error msg s)"

definition with_string :: "string \<Rightarrow> gstate \<Rightarrow> nat \<times> gstate" where
  "with_string t s = (let (i, m) = gadd_string t (gz_mod s) in (i, s\<lparr>gz_mod := m\<rparr>))"

definition layout_of :: "build_env \<Rightarrow> gstate \<Rightarrow> nat \<Rightarrow> layout_class" where
  "layout_of e s t = classify_layout (be_types e) (gz_mod s) t"

section \<open>Blocks and instructions\<close>

definition set_block :: "nat \<Rightarrow> (gblock \<Rightarrow> gblock) \<Rightarrow> gmodule \<Rightarrow> gmodule" where
  "set_block b f m = m\<lparr>gm_blocks := (gm_blocks m)[b := f (gm_blocks m ! b)]\<rparr>"

definition set_realization :: "nat \<Rightarrow> (grealization \<Rightarrow> grealization) \<Rightarrow> gmodule \<Rightarrow> gmodule" where
  "set_realization r f m = m\<lparr>gm_realizations := (gm_realizations m)[r := f (gm_realizations m ! r)]\<rparr>"

definition gadd_block_param :: "build_env \<Rightarrow> nat \<Rightarrow> nat \<Rightarrow> gstate \<Rightarrow> nat \<times> gstate" where
  "gadd_block_param e bb ty s =
     (let m = gz_mod s;
          (vid, m) = gadd_value (new_gvalue\<lparr>gx_ty := ty, gx_place_elem_type := ty, gx_layout := classify_layout (be_types e) m ty,
            gx_def_a := bb, gx_def_b := u32 (length (gk_params (gm_blocks m ! bb)))\<rparr>) m;
          m = set_block bb (\<lambda>b. b\<lparr>gk_params := gk_params b @ [vid]\<rparr>) m in
      (vid, s\<lparr>gz_mod := m\<rparr>))"

text \<open>The optional arguments of \<open>emit_inst_\<close>.\<close>

record emit_opts =
  eo_ownership :: ownership_info
  eo_layout :: layout_class
  eo_is_place :: bool
  eo_place_elem_type :: nat
  eo_place_kind :: gplace_kind
  eo_is_mutable :: bool

definition any_result :: emit_opts where
  "any_result = \<lparr>eo_ownership = plain_ownership, eo_layout = LcUnknown, eo_is_place = False, eo_place_elem_type = kInvalidType,
     eo_place_kind = GPlaceNone, eo_is_mutable = False\<rparr>"

definition as_layout :: "layout_class \<Rightarrow> emit_opts" where
  "as_layout l = any_result\<lparr>eo_layout := l\<rparr>"

definition as_place :: "layout_class \<Rightarrow> nat \<Rightarrow> gplace_kind \<Rightarrow> bool \<Rightarrow> emit_opts" where
  "as_place l elem k is_mut = any_result\<lparr>eo_layout := l, eo_is_place := True, eo_place_elem_type := elem, eo_place_kind := k,
     eo_is_mutable := is_mut\<rparr>"

definition result_value :: "build_env \<Rightarrow> nat \<Rightarrow> geffect \<Rightarrow> emit_opts \<Rightarrow> gmodule \<Rightarrow> gvalue" where
  "result_value e ty eff opts m = new_gvalue\<lparr>gx_ty := ty,
     gx_place_elem_type := (if eo_place_elem_type opts = kInvalidType then ty else eo_place_elem_type opts),
     gx_eff := eff, gx_ownership := eo_ownership opts,
     gx_layout := (if eo_layout opts = LcUnknown then classify_layout (be_types e) m ty else eo_layout opts),
     gx_place_kind := eo_place_kind opts, gx_is_place := eo_is_place opts, gx_is_mutable := eo_is_mutable opts,
     gx_def_a := u32 (length (gm_insts m))\<rparr>"

text \<open>An instruction with a type that is not unit, or with a place, gets a result.\<close>

definition emit_inst :: "build_env \<Rightarrow> nat \<Rightarrow> geffect \<Rightarrow> gop \<Rightarrow> emit_opts \<Rightarrow> gstate \<Rightarrow> nat \<times> gstate" where
  "emit_inst e ty eff op opts s =
     (let m = gz_mod s;
          (result, m) = (if ty \<noteq> kInvalidType \<and> (\<not> is_unit_type (be_types e) ty \<or> eo_is_place opts)
            then gadd_value (result_value e ty eff opts m) m else (kInvalidId, m));
          (iid, m) = gadd_inst \<lparr>gi_data = op, gi_eff = eff, gi_result = result\<rparr> m;
          m = (if result \<noteq> kInvalidId then m\<lparr>gm_values := (gm_values m)[result := (gm_values m ! result)\<lparr>gx_def_a := iid\<rparr>]\<rparr> else m);
          m = set_block (gz_current s) (\<lambda>b. b\<lparr>gk_insts := gk_insts b @ [iid]\<rparr>) m in
      (result, s\<lparr>gz_mod := m\<rparr>))"

definition emit :: "build_env \<Rightarrow> nat \<Rightarrow> geffect \<Rightarrow> gop \<Rightarrow> emit_opts \<Rightarrow> lowering" where
  "emit e ty eff op opts s = Some (emit_inst e ty eff op opts s)"

text \<open>A terminator that is there stays.\<close>

definition ensure_block_term :: "gterm \<Rightarrow> gstate \<Rightarrow> gstate" where
  "ensure_block_term t s =
     (if gz_current s = kInvalidId then s
      else if gk_has_term (gm_blocks (gz_mod s) ! gz_current s) then s
      else s\<lparr>gz_mod := set_block (gz_current s) (\<lambda>b. b\<lparr>gk_term := t, gk_has_term := True\<rparr>) (gz_mod s)\<rparr>)"

text \<open>A new block of the realization that is built.\<close>

definition new_block :: "gstate \<Rightarrow> nat \<times> gstate" where
  "new_block s =
     (let (b, m) = gadd_block new_gblock (gz_mod s) in
      (b, s\<lparr>gz_mod := set_realization (gz_realization s) (\<lambda>r. r\<lparr>gr_blocks := gr_blocks r @ [b]\<rparr>) m\<rparr>))"

text \<open>The copies \<open>auto then_state = state\<close>: go to a block, and come back to block \<open>b\<close> with the locals as they were.\<close>

definition goto_block :: "nat \<Rightarrow> gstate \<Rightarrow> gstate" where
  "goto_block b s = s\<lparr>gz_current := b\<rparr>"

definition back_to :: "gstate \<Rightarrow> nat \<Rightarrow> gstate \<Rightarrow> gstate" where
  "back_to old b s = s\<lparr>gz_current := b, gz_locals := gz_locals old\<rparr>"

section \<open>Values and places\<close>

datatype gtask = LowValue nat | LowPlace nat | LowAs nat nat | LowBlock nat | LowStmt nat

definition valid_in :: "'a list \<Rightarrow> nat \<Rightarrow> bool" where
  "valid_in xs i \<longleftrightarrow> i \<noteq> kInvalidId \<and> i < length xs"

text \<open>A list of operands, from left to right.\<close>

fun lower_all :: "('a \<Rightarrow> lowering) \<Rightarrow> 'a list \<Rightarrow> gstate \<Rightarrow> (nat list \<times> gstate) option" where
  "lower_all f [] s = Some ([], s)"
| "lower_all f (x # xs) s = do { (v, s) \<leftarrow> f x s; (vs, s) \<leftarrow> lower_all f xs s; Some (v # vs, s) }"

text \<open>The value of the first filled argument with the label.\<close>

definition labeled_arg_value :: "smodule \<Rightarrow> svalue \<Rightarrow> string \<Rightarrow> nat option" where
  "labeled_arg_value m v label =
     (if sv_arg_begin v > length (sm_args m) \<or> sv_arg_begin v + sv_arg_count v > length (sm_args m) then None
      else map_option sa_value (find (\<lambda>a. sa_has_label a \<and> sa_label a = label \<and> \<not> sa_is_hole a \<and> sa_value a \<noteq> kInvalidId)
        (slice (sm_args m) (sv_arg_begin v) (sv_arg_count v))))"

definition path_leaf :: "type_pool \<Rightarrow> nat \<Rightarrow> string option" where
  "path_leaf types t = (case decompose_named_user types t of Some (path, args) \<Rightarrow> if path = [] then None else Some (last path) | None \<Rightarrow> None)"

definition looks_like_supported_range_value :: "build_env \<Rightarrow> nat \<Rightarrow> bool" where
  "looks_like_supported_range_value e sid =
     (let vs = sm_values (be_sir e); v = vs ! sid in
      valid_in vs sid \<and> sv_kind v = SvFieldInit \<and> sv_type v \<noteq> kInvalidType \<and> ty_kind (tp_types (be_types e) ! sv_type v) = KNamedUser
      \<and> path_leaf (be_types e) (sv_type v) \<in> {Some ''Range'', Some ''RangeInclusive''})"

definition lower_value_as :: "build_env \<Rightarrow> (gtask \<Rightarrow> lowering) \<Rightarrow> nat \<Rightarrow> nat \<Rightarrow> lowering" where
  "lower_value_as e rec sid target s =
     (let vs = sm_values (be_sir e); src = vs ! sid; types = be_types e in
      if \<not> valid_in vs sid then fail ''gOIR builder saw invalid SIR value id during coercion.'' s
      else if target = kInvalidType \<or> sv_type src = target then rec (LowValue sid) s
      else if is_optional_type types target \<and> layout_of e s target \<noteq> LcOptionalScalar
      then fail ''gOIR official lane only supports optionals over scalar/text/tag-enum payloads.'' s
      else if is_optional_type types target \<and> sv_kind src = SvNullLit
      then emit e target GEffPure OpOptionalNone (as_layout LcOptionalScalar) s
      else if is_optional_type types target \<and> sv_type src = optional_elem types target
      then do {
        (payload, s) \<leftarrow> rec (LowValue sid) s;
        if payload = kInvalidId then give kInvalidId s
        else emit e target GEffPure (OpOptionalSome payload) (as_layout LcOptionalScalar) s
      }
      else do {
        (v, s) \<leftarrow> rec (LowValue sid) s;
        if v = kInvalidId then give kInvalidId s
        else if gx_ty (gm_values (gz_mod s) ! v) = target then give v s
        else do {
          from_name \<leftarrow> to_string types (sv_type src);
          to_name \<leftarrow> to_string types target;
          fail (''gOIR official lane encountered an unsupported implicit coercion from '' @ [CHR 0x27] @ from_name
            @ [CHR 0x27] @ '' to '' @ [CHR 0x27] @ to_name @ [CHR 0x27] @ ''.'') s
        }
      })"

text \<open>A range index is a view of a part: its length is the difference, plus one for an inclusive range.\<close>

definition lower_range_subview :: "build_env \<Rightarrow> (gtask \<Rightarrow> lowering) \<Rightarrow> svalue \<Rightarrow> lowering" where
  "lower_range_subview e rec v s =
     (let range = sm_values (be_sir e) ! sv_b v in
      if \<not> looks_like_supported_range_value e (sv_b v)
      then fail ''gOIR builder expected a range literal for source subview lowering.'' s
      else (case (labeled_arg_value (be_sir e) range ''start'', labeled_arg_value (be_sir e) range ''end'') of
        (Some start_sid, Some end_sid) \<Rightarrow>
          do {
            let inclusive = (path_leaf (be_types e) (sv_type range) = Some ''RangeInclusive'');
            (base, s) \<leftarrow> rec (LowPlace (sv_a v)) s;
            (start, s) \<leftarrow> rec (LowValue start_sid) s;
            (stop, s) \<leftarrow> rec (LowValue end_sid) s;
            if base = kInvalidId \<or> start = kInvalidId \<or> stop = kInvalidId then give kInvalidId s
            else do {
              (delta, s) \<leftarrow> emit e (sv_type (sm_values (be_sir e) ! end_sid)) GEffPure (OpBinary GSub stop start) (as_layout LcScalar) s;
              if delta = kInvalidId then give kInvalidId s
              else do {
                let view = (\<lambda>len. emit e (sv_type v) GEffPure (OpSubView base start len) (as_place LcSliceView (sv_type v) GPlaceSubView True));
                if \<not> inclusive then view delta s
                else do {
                  (one, s) \<leftarrow> emit e (gx_ty (gm_values (gz_mod s) ! delta)) GEffPure (OpConstInt ''1'') (as_layout LcScalar) s;
                  if one = kInvalidId then give kInvalidId s
                  else do {
                    (len, s) \<leftarrow> emit e (gx_ty (gm_values (gz_mod s) ! delta)) GEffPure (OpBinary GAdd delta one) (as_layout LcScalar) s;
                    view len s
                  }
                }
              }
            }
          }
      | _ \<Rightarrow> fail ''gOIR source subview lowering requires Range/RangeInclusive { start, end } fields.'' s))"

definition lower_optional_coalesce :: "build_env \<Rightarrow> (gtask \<Rightarrow> lowering) \<Rightarrow> svalue \<Rightarrow> lowering" where
  "lower_optional_coalesce e rec v s =
     (let types = be_types e; lhs_ty = sv_type (sm_values (be_sir e) ! sv_a v); elem_ty = optional_elem types lhs_ty in
      if \<not> is_optional_type types lhs_ty then fail ''gOIR builder requires optional lhs for null-coalescing.'' s
      else if elem_ty = kInvalidType then fail ''gOIR builder saw invalid optional element type in null-coalescing.'' s
      else do {
        (lhs, s) \<leftarrow> rec (LowAs (sv_a v) lhs_ty) s;
        if lhs = kInvalidId then give kInvalidId s
        else do {
          (present, s) \<leftarrow> emit e (builtin_id types BBool) GEffPure (OpOptionalIsPresent lhs) (as_layout LcScalar) s;
          if present = kInvalidId then give kInvalidId s
          else do {
            let (some_bb, s) = new_block s;
            let (none_bb, s) = new_block s;
            let (cont_bb, s) = new_block s;
            let (joined, s) = gadd_block_param e cont_bb (sv_type v) s;
            let s = ensure_block_term (GTermCondBr present some_bb [] none_bb []) s;
            let s0 = s;
            (some_value, s) \<leftarrow> emit e elem_ty GEffPure (OpOptionalGet lhs) (as_layout (layout_of e s elem_ty)) (goto_block some_bb s);
            if some_value = kInvalidId then give kInvalidId (back_to s0 (gz_current s0) s)
            else do {
              let s = ensure_block_term (GTermBr cont_bb [some_value]) s;
              (fallback, s) \<leftarrow> rec (LowAs (sv_b v) (sv_type v)) (goto_block none_bb s);
              if fallback = kInvalidId then give kInvalidId (back_to s0 (gz_current s0) s)
              else
                let s = ensure_block_term (GTermBr cont_bb [fallback]) s in
                give joined (back_to s0 cont_bb s)
            }
          }
        }
      })"

definition global_place :: "build_env \<Rightarrow> nat \<Rightarrow> lowering" where
  "global_place e gid s =
     (let g = gm_globals (gz_mod s) ! gid in
      emit e (gg_type g) GEffPure (OpGlobalSlot gid) (as_place (layout_of e s (gg_type g)) (gg_type g) GPlaceGlobalSlot (gg_is_mutable g)) s)"

definition place_elem_of :: "svalue \<Rightarrow> nat" where
  "place_elem_of v = (if sv_place_elem_type v \<noteq> kInvalidType then sv_place_elem_type v else sv_type v)"

definition lower_place :: "build_env \<Rightarrow> (gtask \<Rightarrow> lowering) \<Rightarrow> nat \<Rightarrow> lowering" where
  "lower_place e rec sid s =
     (let vs = sm_values (be_sir e); v = vs ! sid in
      if \<not> valid_in vs sid then fail ''gOIR builder saw invalid SIR place id.'' s
      else (case sv_kind v of
        SvLocal \<Rightarrow>
          (case gz_locals s (sv_sym v) of
             None \<Rightarrow>
               (case map_of (gz_global_by_sym s) (sv_sym v) of
                  None \<Rightarrow> fail ''gOIR builder could not resolve local symbol in SIR place.'' s
                | Some gid \<Rightarrow> global_place e gid s)
           | Some b \<Rightarrow>
               if \<not> bi_is_place b then fail ''gOIR official lane cannot take a place from an immutable value binding.'' s
               else give (bi_value b) s)
      | SvGlobal \<Rightarrow>
          (case map_of (gz_global_by_sym s) (sv_sym v) of
             None \<Rightarrow> fail ''gOIR builder could not resolve global symbol in SIR place.'' s
           | Some gid \<Rightarrow> global_place e gid s)
      | SvField \<Rightarrow>
          do {
            (base, s) \<leftarrow> rec (LowPlace (sv_a v)) s;
            if base = kInvalidId then give kInvalidId s
            else
              let (name, s) = with_string (sv_text v) s in
              emit e (sv_type v) GEffPure (OpFieldPlace base name)
                (as_place (layout_of e s (place_elem_of v)) (place_elem_of v) GPlaceFieldPath True) s
          }
      | SvIndex \<Rightarrow>
          if looks_like_supported_range_value e (sv_b v) then lower_range_subview e rec v s
          else do {
            (base, s) \<leftarrow> rec (LowPlace (sv_a v)) s;
            (index, s) \<leftarrow> rec (LowValue (sv_b v)) s;
            if base = kInvalidId \<or> index = kInvalidId then give kInvalidId s
            else emit e (sv_type v) GEffPure (OpIndexPlace base index)
              (as_place (layout_of e s (place_elem_of v)) (place_elem_of v) GPlaceIndexPath True) s
          }
      | _ \<Rightarrow> fail ''gOIR M1 encountered an unsupported SIR place form.'' s))"

text \<open>The named members of a record literal.\<close>

definition record_args :: "smodule \<Rightarrow> svalue \<Rightarrow> sarg list" where
  "record_args m v = filter (\<lambda>a. \<not> sa_is_hole a \<and> sa_value a \<noteq> kInvalidId \<and> sa_has_label a) (slice (sm_args m) (sv_arg_begin v) (sv_arg_count v))"

fun lower_members :: "build_env \<Rightarrow> (gtask \<Rightarrow> lowering) \<Rightarrow> nat \<Rightarrow> sarg list \<Rightarrow> gstate \<Rightarrow> ((nat \<times> nat) list \<times> gstate) option" where
  "lower_members e rec ty [] s = Some ([], s)"
| "lower_members e rec ty (a # as) s =
     (let field_ty = lookup_record_field_type (gz_mod s) ty (sa_label a); (name, s) = with_string (sa_label a) s in
      do {
        (v, s) \<leftarrow> rec (if field_ty = kInvalidType then LowValue (sa_value a) else LowAs (sa_value a) field_ty) s;
        (ms, s) \<leftarrow> lower_members e rec ty as s;
        Some ((name, v) # ms, s)
      })"

definition lower_record_make :: "build_env \<Rightarrow> (gtask \<Rightarrow> lowering) \<Rightarrow> svalue \<Rightarrow> lowering" where
  "lower_record_make e rec v s =
     (if find_record_layout (gz_mod s) (sv_type v) = None
      then fail ''gOIR M1 field initializer requires a plain internal record layout.'' s
      else if sv_arg_begin v + sv_arg_count v > length (sm_args (be_sir e))
      then fail ''gOIR builder saw invalid field-init arg slice.'' s
      else do {
        (ms, s) \<leftarrow> lower_members e rec (sv_type v) (record_args (be_sir e) v) s;
        emit e (sv_type v) GEffPure (OpRecordMake ms) (as_layout LcPlainRecord) s
      })"

text \<open>What a name that reads as a value loads, and what stays a place.\<close>

definition load_place :: "build_env \<Rightarrow> nat \<Rightarrow> layout_class \<Rightarrow> nat \<Rightarrow> lowering" where
  "load_place e ty l place s =
     (if reads_as_value l then emit e ty GEffMayRead (OpLoad place) (as_layout (layout_of e s ty)) s else give place s)"

definition lower_local :: "build_env \<Rightarrow> svalue \<Rightarrow> lowering" where
  "lower_local e v s =
     (case gz_locals s (sv_sym v) of
        Some b \<Rightarrow> if \<not> bi_is_place b then give (bi_value b) s else load_place e (bi_type b) (bi_layout b) (bi_value b) s
      | None \<Rightarrow>
          (case map_of (gz_global_by_sym s) (sv_sym v) of
             None \<Rightarrow> fail ''gOIR builder could not resolve local symbol in SIR.'' s
           | Some gid \<Rightarrow> do {
               (place, s) \<leftarrow> global_place e gid s;
               let ty = gg_type (gm_globals (gz_mod s) ! gid);
               if place = kInvalidId then give kInvalidId s else load_place e ty (layout_of e s ty) place s
             }))"

definition lower_global :: "build_env \<Rightarrow> (gtask \<Rightarrow> lowering) \<Rightarrow> nat \<Rightarrow> lowering" where
  "lower_global e rec sid s =
     do {
       (place, s) \<leftarrow> rec (LowPlace sid) s;
       if place = kInvalidId then give kInvalidId s
       else
         let ty = gx_place_elem_type (gm_values (gz_mod s) ! place) in
         load_place e ty (layout_of e s ty) place s
     }"

definition lower_binary :: "build_env \<Rightarrow> (gtask \<Rightarrow> lowering) \<Rightarrow> svalue \<Rightarrow> lowering" where
  "lower_binary e rec v s =
     (if sv_op v = k_question_question then lower_optional_coalesce e rec v s
      else do {
        (lhs, s) \<leftarrow> rec (LowValue (sv_a v)) s;
        (rhs, s) \<leftarrow> rec (LowValue (sv_b v)) s;
        (case map_binop (sv_op v) of
           None \<Rightarrow> fail ''unsupported binary operator in gOIR M1 builder.'' s
         | Some op \<Rightarrow> emit e (sv_type v) GEffPure (OpBinary op lhs rhs) any_result s)
      })"

definition lower_unary :: "build_env \<Rightarrow> (gtask \<Rightarrow> lowering) \<Rightarrow> svalue \<Rightarrow> lowering" where
  "lower_unary e rec v s =
     do {
       (src, s) \<leftarrow> rec (LowValue (sv_a v)) s;
       (case map_unop (sv_op v) of
          None \<Rightarrow> fail ''unsupported unary operator in gOIR M1 builder.'' s
        | Some op \<Rightarrow> emit e (sv_type v) GEffPure (OpUnary op src) any_result s)
     }"

definition lower_cast :: "build_env \<Rightarrow> (gtask \<Rightarrow> lowering) \<Rightarrow> svalue \<Rightarrow> lowering" where
  "lower_cast e rec v s =
     do {
       (src, s) \<leftarrow> rec (LowValue (sv_a v)) s;
       (case map_cast (sv_op v) of
          None \<Rightarrow> fail ''unsupported cast operator in gOIR M1 builder.'' s
        | Some k \<Rightarrow> emit e (sv_type v) (if k = GCastAsB then GEffMayTrap else GEffPure) (OpCast k (sv_cast_to v) src) any_result s)
     }"

text \<open>The arguments of a call, numbered; the second component of the result is set when one is refused.\<close>

fun lower_call_args :: "build_env \<Rightarrow> (gtask \<Rightarrow> lowering) \<Rightarrow> nat list \<Rightarrow> nat \<Rightarrow> nat list \<Rightarrow> gstate \<Rightarrow> ((nat list \<times> bool) \<times> gstate) option" where
  "lower_call_args e rec params i [] s = Some (([], False), s)"
| "lower_call_args e rec params i (aid # aids) s =
     (let m = be_sir e; a = sm_args m ! aid in
      if length (sm_args m) \<le> aid then Some (([], True), push_error ''gOIR builder saw invalid SIR arg slice.'' s)
      else if sa_is_hole a then Some (([], True), push_error ''gOIR M1 does not support hole arguments.'' s)
      else do {
        (v, s) \<leftarrow> rec (LowAs (sa_value a) (if i < length params then params ! i else sv_type (sm_values m ! sa_value a))) s;
        ((vs, refused), s) \<leftarrow> lower_call_args e rec params (Suc i) aids s;
        Some ((v # vs, refused), s)
      })"

definition lower_call :: "build_env \<Rightarrow> (gtask \<Rightarrow> lowering) \<Rightarrow> svalue \<Rightarrow> lowering" where
  "lower_call e rec v s =
     (if sv_core_call_kind v \<noteq> CkNone then fail ''gOIR M1 does not support core runtime helper calls yet.'' s
      else if sv_call_is_throwing v then fail ''gOIR official lane does not support throwing calls.'' s
      else (case gz_realization_by_sym s (sv_callee_sym v) of
        None \<Rightarrow> fail ''gOIR official lane only supports direct calls to known lowered realizations.'' s
      | Some rid \<Rightarrow>
          do {
            let m = gz_mod s;
            let callee = gm_realizations m ! rid;
            let sg = gm_sigs m ! gc_sig (gm_computations m ! gr_computation callee);
            ((args, refused), s) \<leftarrow> lower_call_args e rec (gs_param_types sg) 0
              (map (\<lambda>i. u32 (sv_arg_begin v + i)) [0 ..< sv_arg_count v]) s;
            if refused then give kInvalidId s
            else if gr_abi callee = GAbiC \<or> sv_call_is_c_abi v
            then emit e (sv_type v) GEffCall (OpCallExtern rid args) (as_layout (layout_of e s (sv_type v))) s
            else (case gz_computation_by_sym s (sv_callee_sym v) of
              None \<Rightarrow> fail ''gOIR official lane only supports direct pure/internal calls.'' s
            | Some cid \<Rightarrow> emit e (sv_type v) GEffCall (OpSemanticInvoke cid args) (as_layout (layout_of e s (sv_type v))) s)
          }))"

definition as_owned :: "ownership_info \<Rightarrow> layout_class \<Rightarrow> emit_opts" where
  "as_owned ow l = (as_layout l)\<lparr>eo_ownership := ow\<rparr>"

definition lower_borrow :: "build_env \<Rightarrow> (gtask \<Rightarrow> lowering) \<Rightarrow> svalue \<Rightarrow> lowering" where
  "lower_borrow e rec v s =
     do {
       let ow = plain_ownership\<lparr>ow_kind := (if sv_borrow_is_mut v then OwnBorrowMut else OwnBorrowShared), ow_requires_runtime_lowering := True\<rparr>;
       (place, s) \<leftarrow> rec (LowPlace (sv_a v)) s;
       emit e (sv_type v) GEffPure (OpBorrowView place) (as_owned ow (layout_of e s (sv_type v))) s
     }"

definition escape_ownership :: "smodule \<Rightarrow> nat \<Rightarrow> ownership_info" where
  "escape_ownership m sid =
     (let ow = plain_ownership\<lparr>ow_kind := OwnEscape, ow_requires_runtime_lowering := True\<rparr> in
      (case find (\<lambda>h. em_escape_value h = sid) (sm_escape_handles m) of
         None \<Rightarrow> ow
       | Some h \<Rightarrow> ow\<lparr>ow_escape_kind := em_kind h, ow_escape_boundary := em_boundary h, ow_from_static := em_from_static h\<rparr>))"

definition lower_escape :: "build_env \<Rightarrow> (gtask \<Rightarrow> lowering) \<Rightarrow> nat \<Rightarrow> svalue \<Rightarrow> lowering" where
  "lower_escape e rec sid v s =
     do {
       (place, s) \<leftarrow> rec (LowPlace (sv_a v)) s;
       emit e (sv_type v) GEffMayTrap (OpEscapeView place) (as_owned (escape_ownership (be_sir e) sid) (layout_of e s (sv_type v))) s
     }"

text \<open>An assignment stores the right side. Its operator is not looked at.\<close>

definition lower_assign :: "build_env \<Rightarrow> (gtask \<Rightarrow> lowering) \<Rightarrow> svalue \<Rightarrow> lowering" where
  "lower_assign e rec v s =
     do {
       (place, s) \<leftarrow> rec (LowPlace (sv_a v)) s;
       let elem_ty = (if place \<noteq> kInvalidId then gx_place_elem_type (gm_values (gz_mod s) ! place) else kInvalidType);
       (rhs, s) \<leftarrow> rec (LowAs (sv_b v) elem_ty) s;
       if place = kInvalidId \<or> rhs = kInvalidId then give kInvalidId s
       else do { (ignored, s) \<leftarrow> emit e kInvalidType GEffMayWrite (OpStore place rhs) any_result s; give rhs s }
     }"

definition array_args :: "smodule \<Rightarrow> svalue \<Rightarrow> nat list" where
  "array_args m v = map sa_value (filter (\<lambda>a. \<not> sa_is_hole a \<and> sa_value a \<noteq> kInvalidId) (slice (sm_args m) (sv_arg_begin v) (sv_arg_count v)))"

definition lower_array :: "build_env \<Rightarrow> (gtask \<Rightarrow> lowering) \<Rightarrow> svalue \<Rightarrow> lowering" where
  "lower_array e rec v s =
     (let tt = tp_types (be_types e) ! sv_type v;
          elem_ty = (if sv_type v \<noteq> kInvalidType \<and> ty_kind tt = KArray then ty_elem tt else kInvalidType) in
      if sv_arg_begin v + sv_arg_count v > length (sm_args (be_sir e)) then fail ''gOIR builder saw invalid array-literal arg slice.'' s
      else do {
        (elems, s) \<leftarrow> lower_all (\<lambda>a. rec (if elem_ty = kInvalidType then LowValue a else LowAs a elem_ty)) (array_args (be_sir e) v) s;
        emit e (sv_type v) GEffPure (OpArrayMake elems) (as_layout LcFixedArray) s
      })"

definition lower_load_of :: "build_env \<Rightarrow> (gtask \<Rightarrow> lowering) \<Rightarrow> nat \<Rightarrow> svalue \<Rightarrow> lowering" where
  "lower_load_of e rec sid v s =
     do {
       (place, s) \<leftarrow> rec (LowPlace sid) s;
       if place = kInvalidId then give kInvalidId s else emit e (sv_type v) GEffMayRead (OpLoad place) any_result s
     }"

text \<open>A field is lowered by its base as a value first, then, unless it is a length, by its place.\<close>

definition lower_field :: "build_env \<Rightarrow> (gtask \<Rightarrow> lowering) \<Rightarrow> nat \<Rightarrow> svalue \<Rightarrow> lowering" where
  "lower_field e rec sid v s =
     do {
       (base, s) \<leftarrow> rec (LowValue (sv_a v)) s;
       if base = kInvalidId then give kInvalidId s
       else if sv_text v = ''len'' then
         let base_ty = sv_type (sm_values (be_sir e) ! sv_a v); bt = tp_types (be_types e) ! base_ty in
         if base_ty \<noteq> kInvalidType \<and> ty_kind bt = KArray \<and> ty_array_has_size bt
         then emit e (sv_type v) GEffPure (OpConstInt (dec (ty_array_size bt))) any_result s
         else emit e (sv_type v) GEffPure (OpArrayLen base) any_result s
       else lower_load_of e rec sid v s
     }"

definition lower_value :: "build_env \<Rightarrow> (gtask \<Rightarrow> lowering) \<Rightarrow> nat \<Rightarrow> lowering" where
  "lower_value e rec sid s =
     (let vs = sm_values (be_sir e); v = vs ! sid; ty = sv_type v in
      if \<not> valid_in vs sid then fail ''gOIR builder saw invalid SIR value id.'' s
      else (case sv_kind v of
        SvIntLit \<Rightarrow> emit e ty GEffPure (OpConstInt (sv_text v)) any_result s
      | SvFloatLit \<Rightarrow> emit e ty GEffPure (OpConstFloat (sv_text v)) any_result s
      | SvStringLit \<Rightarrow> emit e ty GEffPure (OpTextLit (sv_text v)) (as_layout LcTextView) s
      | SvCharLit \<Rightarrow>
          (case parse_char_literal_code (sv_text v) of
             None \<Rightarrow> fail ''gOIR builder could not decode char literal.'' s
           | Some code \<Rightarrow> emit e ty GEffPure (OpConstInt (dec code)) (as_layout LcScalar) s)
      | SvBoolLit \<Rightarrow> emit e ty GEffPure (OpConstBool (sv_text v = ''true'' \<or> sv_text v = ''1'')) any_result s
      | SvNullLit \<Rightarrow>
          if is_optional_type (be_types e) ty \<and> layout_of e s ty = LcOptionalScalar
          then emit e ty GEffPure OpOptionalNone (as_layout LcOptionalScalar) s
          else emit e ty GEffPure OpConstNull any_result s
      | SvLocal \<Rightarrow> lower_local e v s
      | SvGlobal \<Rightarrow> lower_global e rec sid s
      | SvUnary \<Rightarrow> lower_unary e rec v s
      | SvBinary \<Rightarrow> lower_binary e rec v s
      | SvCast \<Rightarrow> lower_cast e rec v s
      | SvCall \<Rightarrow> lower_call e rec v s
      | SvPipeCall \<Rightarrow> lower_call e rec v s
      | SvBorrow \<Rightarrow> lower_borrow e rec v s
      | SvEscape \<Rightarrow> lower_escape e rec sid v s
      | SvEnumCtor \<Rightarrow>
          if sv_arg_count v \<noteq> 0 \<or> \<not> is_tag_only_enum_type (gz_mod s) ty
          then fail ''gOIR official lane only supports tag-only enum constructors in this round.'' s
          else emit e ty GEffPure (OpEnumTag (sv_enum_ctor_tag_value v)) (as_layout LcTagEnum) s
      | SvAssign \<Rightarrow> lower_assign e rec v s
      | SvArrayLit \<Rightarrow> lower_array e rec v s
      | SvFieldInit \<Rightarrow> lower_record_make e rec v s
      | SvIndex \<Rightarrow>
          if looks_like_supported_range_value e (sv_b v) then rec (LowPlace sid) s else lower_load_of e rec sid v s
      | SvField \<Rightarrow> lower_field e rec sid v s
      | _ \<Rightarrow> fail ''gOIR M1 builder encountered unsupported SIR value kind.'' s))"

section \<open>Statements\<close>

definition run_task :: "(gtask \<Rightarrow> lowering) \<Rightarrow> gtask \<Rightarrow> gstate \<Rightarrow> gstate option" where
  "run_task rec t s = map_option snd (rec t s)"

text \<open>Statements run until one has ended the path.\<close>

fun lower_stmt_range :: "build_env \<Rightarrow> (gtask \<Rightarrow> lowering) \<Rightarrow> nat list \<Rightarrow> gstate \<Rightarrow> gstate option" where
  "lower_stmt_range e rec [] s = Some s"
| "lower_stmt_range e rec (sid # sids) s =
     (if gz_current s = kInvalidId then Some s
      else if length (sm_stmts (be_sir e)) \<le> sid then Some (push_error ''gOIR builder saw invalid SIR stmt id.'' s)
      else do { s \<leftarrow> run_task rec (LowStmt sid) s; lower_stmt_range e rec sids s })"

definition lower_block :: "build_env \<Rightarrow> (gtask \<Rightarrow> lowering) \<Rightarrow> nat \<Rightarrow> gstate \<Rightarrow> gstate option" where
  "lower_block e rec bid s =
     (if \<not> valid_in (sm_blocks (be_sir e)) bid then Some (push_error ''gOIR builder saw invalid SIR block id.'' s)
      else
        let b = sm_blocks (be_sir e) ! bid in
        lower_stmt_range e rec (map (\<lambda>i. u32 (bl_stmt_begin b + i)) [0 ..< bl_stmt_count b]) s)"

text \<open>A block of SIR lowered into a block, which then goes on to \<open>next\<close> unless it has ended.\<close>

definition lower_branch :: "(gtask \<Rightarrow> lowering) \<Rightarrow> nat \<Rightarrow> nat option \<Rightarrow> nat \<Rightarrow> gstate \<Rightarrow> gstate option" where
  "lower_branch rec bb body next_bb s =
     do {
       s' \<leftarrow> (case body of None \<Rightarrow> Some (goto_block bb s) | Some bid \<Rightarrow> run_task rec (LowBlock bid) (goto_block bb s));
       Some (back_to s (gz_current s) (ensure_block_term (GTermBr next_bb []) s'))
     }"

definition lower_if_stmt :: "(gtask \<Rightarrow> lowering) \<Rightarrow> sstmt \<Rightarrow> gstate \<Rightarrow> gstate option" where
  "lower_if_stmt rec st s =
     do {
       (cond, s) \<leftarrow> rec (LowValue (ss_expr st)) s;
       let (then_bb, s) = new_block s;
       let (else_bb, s) = new_block s;
       let (cont_bb, s) = new_block s;
       let s = ensure_block_term (GTermCondBr cond then_bb [] else_bb []) s;
       s \<leftarrow> lower_branch rec then_bb (Some (ss_a st)) cont_bb s;
       s \<leftarrow> lower_branch rec else_bb (if ss_b st = kInvalidId then None else Some (ss_b st)) cont_bb s;
       Some (goto_block cont_bb s)
     }"

definition lower_while_stmt :: "(gtask \<Rightarrow> lowering) \<Rightarrow> sstmt \<Rightarrow> gstate \<Rightarrow> gstate option" where
  "lower_while_stmt rec st s =
     do {
       let (cond_bb, s) = new_block s;
       let (body_bb, s) = new_block s;
       let (after_bb, s) = new_block s;
       let s = ensure_block_term (GTermBr cond_bb []) s;
       let s0 = s;
       (cond, s) \<leftarrow> rec (LowValue (ss_expr st)) (goto_block cond_bb s);
       let s = back_to s0 (gz_current s0) (ensure_block_term (GTermCondBr cond body_bb [] after_bb []) s);
       s \<leftarrow> lower_branch rec body_bb (Some (ss_a st)) cond_bb s;
       Some (goto_block after_bb s)
     }"

text \<open>The tag of a case that is not the default.\<close>

definition switch_case_match_value :: "build_env \<Rightarrow> gstate \<Rightarrow> nat \<Rightarrow> switch_case \<Rightarrow> bool \<Rightarrow> string + int" where
  "switch_case_match_value e s scrut_ty c optional_switch =
     (if optional_switch
      then if sc_pat_kind c = PatNull then Inr 0
           else Inl ''gOIR official lane only supports optional switch patterns for `null` and `default`.''
      else (case sc_pat_kind c of
        PatInt \<Rightarrow> (case parse_i64_literal (sc_pat_text c) of
            Some v \<Rightarrow> Inr v | None \<Rightarrow> Inl ''gOIR builder could not parse integer switch case literal.'')
      | PatBool \<Rightarrow> Inr (if sc_pat_text c = ''true'' then 1 else 0)
      | PatChar \<Rightarrow> (case parse_char_literal_code (sc_pat_text c) of
            Some code \<Rightarrow> Inr (int code) | None \<Rightarrow> Inl ''gOIR builder could not decode char switch case literal.'')
      | PatEnumVariant \<Rightarrow>
          if \<not> is_tag_only_enum_type (gz_mod s) scrut_ty
          then Inl ''gOIR official lane only supports enum switch on tag-only enums in this round.''
          else if sc_enum_bind_count c \<noteq> 0
          then Inl ''gOIR official lane does not support payload enum switch bindings in this round.''
          else Inr (sc_enum_tag_value c)
      | PatNull \<Rightarrow> Inl ''gOIR official lane only supports `case null` on optional scrutinees.''
      | PatString \<Rightarrow> Inl ''gOIR official lane does not support string switch patterns in this round.''
      | PatIdent \<Rightarrow> Inl ''gOIR official lane does not support identifier switch patterns in this round.''
      | PatError \<Rightarrow> Inl ''gOIR builder saw an unsupported switch case pattern.''))"

text \<open>The case blocks: the target of the default, the arms, and the bodies still to be lowered. A case
  without a tag stops the loop, and with it the lowering of the switch.\<close>

fun switch_blocks :: "build_env \<Rightarrow> nat \<Rightarrow> bool \<Rightarrow> switch_case list \<Rightarrow> nat \<times> gswitch_arm list \<times> (nat \<times> nat) list \<Rightarrow> gstate
    \<Rightarrow> (nat \<times> gswitch_arm list \<times> (nat \<times> nat) list) option \<times> gstate" where
  "switch_blocks e ty optional_switch [] acc s = (Some acc, s)"
| "switch_blocks e ty optional_switch (c # cs) (default_bb, arms, pending) s =
     (let (bb, s) = new_block s; pending = pending @ [(bb, sc_body c)] in
      if sc_is_default c then switch_blocks e ty optional_switch cs (bb, arms, pending) s
      else (case switch_case_match_value e s ty c optional_switch of
        Inl msg \<Rightarrow> (None, push_error msg s)
      | Inr v \<Rightarrow> switch_blocks e ty optional_switch cs
          (default_bb, arms @ [\<lparr>ga_match_value = v, ga_target = bb, ga_args = []\<rparr>], pending) s))"

fun lower_cases :: "(gtask \<Rightarrow> lowering) \<Rightarrow> nat \<Rightarrow> (nat \<times> nat) list \<Rightarrow> gstate \<Rightarrow> gstate option" where
  "lower_cases rec after_bb [] s = Some s"
| "lower_cases rec after_bb ((bb, body) # ps) s =
     do {
       s \<leftarrow> lower_branch rec bb (if body = kInvalidId then None else Some body) after_bb s;
       lower_cases rec after_bb ps s
     }"

definition switch_case_error :: "switch_case \<Rightarrow> string option" where
  "switch_case_error c =
     (if \<not> sc_is_default c \<and> sc_pat_kind c = PatString
      then Some ''gOIR official lane does not support string switch patterns in this round.''
      else if sc_enum_bind_count c \<noteq> 0
      then Some ''gOIR official lane does not support payload enum switch bindings in this round.'' else None)"

fun first_error :: "('a \<Rightarrow> string option) \<Rightarrow> 'a list \<Rightarrow> string option" where
  "first_error f [] = None"
| "first_error f (x # xs) = (case f x of Some msg \<Rightarrow> Some msg | None \<Rightarrow> first_error f xs)"

definition switch_on :: "build_env \<Rightarrow> (gtask \<Rightarrow> lowering) \<Rightarrow> nat \<Rightarrow> switch_case list \<Rightarrow> nat \<Rightarrow> gstate \<Rightarrow> gstate option" where
  "switch_on e rec ty cs value s =
     (let (after_bb, s) = new_block s in
      (case switch_blocks e ty (is_optional_type (be_types e) ty) cs (after_bb, [], []) s of
         (None, s) \<Rightarrow> Some s
       | (Some (default_bb, arms, pending), s) \<Rightarrow>
           do {
             s \<leftarrow> lower_cases rec after_bb pending (ensure_block_term (GTermSwitch value default_bb [] arms) s);
             Some (goto_block after_bb s)
           }))"

definition lower_switch_stmt :: "build_env \<Rightarrow> (gtask \<Rightarrow> lowering) \<Rightarrow> sstmt \<Rightarrow> gstate \<Rightarrow> gstate option" where
  "lower_switch_stmt e rec st s =
     (let m = be_sir e; cs = slice (sm_switch_cases m) (ss_case_begin st) (ss_case_count st); ty = sv_type (sm_values m ! ss_expr st);
          opt = is_optional_type (be_types e) ty in
      if ss_case_begin st + ss_case_count st > length (sm_switch_cases m)
      then Some (push_error ''gOIR builder saw invalid switch case slice.'' s)
      else (case first_error switch_case_error cs of
        Some msg \<Rightarrow> Some (push_error msg s)
      | None \<Rightarrow>
          if \<not> valid_in (sm_values m) (ss_expr st) then Some (push_error ''gOIR builder saw invalid switch scrutinee.'' s)
          else if \<not> is_supported_switch_scrutinee_type (be_types e) (gz_mod s) ty
          then Some (push_error ''gOIR official lane switch scrutinee is outside the supported int/char/bool/tag-enum/null subset.'' s)
          else do {
            (scrutinee, s) \<leftarrow> rec (if opt then LowAs (ss_expr st) ty else LowValue (ss_expr st)) s;
            if scrutinee = kInvalidId then Some s
            else if opt
            then do {
              (present, s) \<leftarrow> emit e (builtin_id (be_types e) BBool) GEffPure (OpOptionalIsPresent scrutinee) (as_layout LcScalar) s;
              if present = kInvalidId then Some s else switch_on e rec ty cs present s
            }
            else switch_on e rec ty cs scrutinee s
          }))"

definition bind_local :: "build_env \<Rightarrow> sstmt \<Rightarrow> nat \<Rightarrow> nat \<Rightarrow> gstate \<Rightarrow> gstate" where
  "bind_local e st ty init s =
     (let l = layout_of e s ty; is_mut = (ss_is_set st \<or> ss_is_mut st) in
      if is_mut \<or> l = LcFixedArray \<or> l = LcPlainRecord
      then
        let (name, s) = with_string (ss_name st) s;
            (slot, s) = emit_inst e ty GEffPure (OpLocalSlot name) (as_place l ty GPlaceLocalSlot is_mut) s;
            s = (if init \<noteq> kInvalidId then snd (emit_inst e kInvalidType GEffMayWrite (OpStore slot init) any_result s) else s) in
        s\<lparr>gz_locals := (gz_locals s)(ss_sym st \<mapsto> \<lparr>bi_value = slot, bi_type = ty, bi_layout = l, bi_is_place = True, bi_is_mutable = is_mut\<rparr>)\<rparr>
      else
        let init_is_place = (valid_in (gm_values (gz_mod s)) init \<and> gx_is_place (gm_values (gz_mod s) ! init)) in
        s\<lparr>gz_locals := (gz_locals s)(ss_sym st \<mapsto> \<lparr>bi_value = init, bi_type = ty, bi_layout = l, bi_is_place = init_is_place, bi_is_mutable = False\<rparr>)\<rparr>)"

definition lower_var_decl :: "build_env \<Rightarrow> (gtask \<Rightarrow> lowering) \<Rightarrow> sstmt \<Rightarrow> gstate \<Rightarrow> gstate option" where
  "lower_var_decl e rec st s =
     (let ty = (if ss_declared_type st \<noteq> kInvalidType then ss_declared_type st
                else if ss_init st \<noteq> kInvalidId then sv_type (sm_values (be_sir e) ! ss_init st) else kInvalidType) in
      if ss_is_static st then Some (push_error ''gOIR M1 does not support static local bindings.'' s)
      else if \<not> is_supported_local_type (be_types e) (gz_mod s) ty
      then Some (push_error ''gOIR M1 local binding type is outside the supported memory/aggregate subset.'' s)
      else if ss_init st = kInvalidId then Some (push_error ''gOIR M1 requires initialized local bindings.'' s)
      else do { (init, s) \<leftarrow> rec (LowAs (ss_init st) ty) s; Some (bind_local e st ty init s) })"

definition lower_return :: "(gtask \<Rightarrow> lowering) \<Rightarrow> sstmt \<Rightarrow> gstate \<Rightarrow> gstate option" where
  "lower_return rec st s =
     (if ss_expr st = kInvalidId then Some (goto_block kInvalidId (ensure_block_term (GTermRet False kInvalidId) s))
      else do {
        (v, s) \<leftarrow> rec (LowAs (ss_expr st) (gz_return_type s)) s;
        Some (goto_block kInvalidId (ensure_block_term (GTermRet True v) s))
      })"

definition lower_stmt :: "build_env \<Rightarrow> (gtask \<Rightarrow> lowering) \<Rightarrow> nat \<Rightarrow> gstate \<Rightarrow> gstate option" where
  "lower_stmt e rec sid s =
     (let st = sm_stmts (be_sir e) ! sid in
      (case ss_kind st of
         SsExprStmt \<Rightarrow> if ss_expr st \<noteq> kInvalidId then run_task rec (LowValue (ss_expr st)) s else Some s
       | SsVarDecl \<Rightarrow> lower_var_decl e rec st s
       | SsIfStmt \<Rightarrow> lower_if_stmt rec st s
       | SsWhileStmt \<Rightarrow> lower_while_stmt rec st s
       | SsSwitch \<Rightarrow> lower_switch_stmt e rec st s
       | SsReturn \<Rightarrow> lower_return rec st s
       | _ \<Rightarrow> Some (push_error ''gOIR M1 builder encountered unsupported SIR stmt kind.'' s)))"

section \<open>The knot\<close>

definition no_value :: "gstate option \<Rightarrow> (nat \<times> gstate) option" where
  "no_value r = map_option (\<lambda>s. (kInvalidId, s)) r"

fun lower_task :: "build_env \<Rightarrow> (gtask \<Rightarrow> lowering) \<Rightarrow> gtask \<Rightarrow> lowering" where
  "lower_task e rec (LowValue sid) s = lower_value e rec sid s"
| "lower_task e rec (LowPlace sid) s = lower_place e rec sid s"
| "lower_task e rec (LowAs sid ty) s = lower_value_as e rec sid ty s"
| "lower_task e rec (LowBlock bid) s = no_value (lower_block e rec bid s)"
| "lower_task e rec (LowStmt sid) s = no_value (lower_stmt e rec sid s)"

primrec lower :: "nat \<Rightarrow> build_env \<Rightarrow> gtask \<Rightarrow> lowering" where
  "lower 0 e = (\<lambda>t s. None)"
| "lower (Suc n) e = lower_task e (lower n e)"

end
