(* ===== verification/GOIR_Build.thy ===== *)
theory GOIR_Build
  imports GOIR_Lower GOIR_Place "HOL-Library.AList"
begin

text \<open>
  The builder of the graph representation (\<open>frontend/src/goir/goir_builder.cpp\<close>): layouts, globals and
  functions of the structured module are discovered, then every function is lowered, then the
  initialisers of globals, and the result is verified. The order in which the source iterates over
  its hash map of globals is the argument \<open>order\<close>.
\<close>

section \<open>Declarations\<close>

definition copy_layout :: "smodule \<Rightarrow> field_decl \<Rightarrow> gmodule \<Rightarrow> gmodule" where
  "copy_layout sir f m =
     (let l = \<lparr>gl_self_type = fd_self_type f, gl_layout = fd_layout f, gl_align = fd_align f, gl_fields = []\<rparr> in
      if fd_member_begin f > length (sm_field_members sir) \<or> fd_member_begin f + fd_member_count f > length (sm_field_members sir) then m
      else
        let (l, m) = fold (\<lambda>mb (l, m). let (name, m) = gadd_string (fm_name mb) m in
              (l\<lparr>gl_fields := gl_fields l @ [\<lparr>glf_name = name, glf_type = fm_type mb\<rparr>]\<rparr>, m))
            (slice (sm_field_members sir) (fd_member_begin f) (fd_member_count f)) (l, m)
        in snd (gadd_layout l m))"

definition copy_record_layouts :: "smodule \<Rightarrow> gmodule \<Rightarrow> gmodule" where
  "copy_record_layouts sir m = fold (copy_layout sir) (sm_fields sir) m"

text \<open>What is said about a global that is refused.\<close>

definition quoted :: "string \<Rightarrow> string" where
  "quoted t = [CHR 0x27] @ t @ [CHR 0x27]"

definition global_refusal :: "build_env \<Rightarrow> gmodule \<Rightarrow> global_var \<Rightarrow> string option option" where
  "global_refusal e m g =
     (if gv_sym g = kInvalidId then Some (Some ''gOIR official lane saw a global without a resolved symbol.'')
      else if gv_is_export g
      then Some (Some (''gOIR host ABI lane does not support exported globals in this round ('' @ quoted (gv_name g) @ '').''))
      else if gv_abi g = FuncC \<and> gv_c_tls_kind g \<noteq> TlsNone
      then Some (Some (''gOIR host ABI lane does not support TLS globals in this round ('' @ quoted (gv_name g) @ '').''))
      else if \<not> (gv_is_extern g \<or> gv_is_static g)
      then Some (Some (''gOIR official lane currently only supports extern or static top-level globals ('' @ quoted (gv_name g) @ '').''))
      else do {
        ok \<leftarrow> is_supported_global_type (be_types e) m (gv_declared_type g);
        if \<not> ok then Some (Some (''gOIR official lane does not support the declared type of global '' @ quoted (gv_name g) @ ''.''))
        else if gv_is_static g \<and> gv_is_const g \<and> \<not> gv_is_extern g \<and> in_kind (gv_const_init g) = InitNone
        then Some (Some (''gOIR host ABI lane currently requires a folded scalar const-init for static const global '' @ quoted (gv_name g) @ ''.''))
        else Some None
      })"

definition ggl_of :: "global_var \<Rightarrow> nat \<Rightarrow> nat \<Rightarrow> gglobal" where
  "ggl_of g name i = \<lparr>gg_name = name, gg_link_name = name, gg_type = gv_declared_type g, gg_is_mutable = (gv_is_set g \<or> gv_is_mut g),
     gg_is_const = gv_is_const g, gg_is_static = gv_is_static g, gg_is_extern = gv_is_extern g, gg_is_export = gv_is_export g,
     gg_abi = (if gv_abi g = FuncC then GAbiC else GAbiParus), gg_linkage = (if gv_is_extern g then GLinkExternal else GLinkInternal),
     gg_tls = gv_c_tls_kind g, gg_folded_const_init = gv_const_init g,
     gg_runtime_init_needed = (gv_is_static g \<and> \<not> gv_is_const g \<and> gv_init g \<noteq> kInvalidId), gg_source_global = i\<rparr>"

definition discover_global :: "build_env \<Rightarrow> nat \<Rightarrow> gstate \<Rightarrow> gstate option" where
  "discover_global e i s =
     (let g = sm_globals (be_sir e) ! i in
      do {
        refusal \<leftarrow> global_refusal e (gz_mod s) g;
        (case refusal of
           Some msg \<Rightarrow> Some (push_error msg s)
         | None \<Rightarrow>
             let (name, s) = with_string (gv_name g) s; (gid, m) = gadd_global (ggl_of g name i) (gz_mod s) in
             Some (s\<lparr>gz_mod := m, gz_global_by_sym := AList.update (gv_sym g) gid (gz_global_by_sym s)\<rparr>))
      })"

text \<open>A loop over ids in the state.\<close>

fun each_id :: "(nat \<Rightarrow> gstate \<Rightarrow> gstate option) \<Rightarrow> nat list \<Rightarrow> gstate \<Rightarrow> gstate option" where
  "each_id f [] s = Some s"
| "each_id f (i # is) s = do { s \<leftarrow> f i s; each_id f is s }"

definition func_params :: "smodule \<Rightarrow> sfunc \<Rightarrow> sparam list" where
  "func_params sir f = map (\<lambda>i. sm_params sir ! u32 (fu_param_begin f + i)) [0 ..< fu_param_count f]"

definition has_attr :: "smodule \<Rightarrow> sfunc \<Rightarrow> string \<Rightarrow> bool" where
  "has_attr sir f name = list_ex (\<lambda>aid. at_name (sm_attrs sir ! aid) = name)
     (takeWhile (\<lambda>aid. aid < length (sm_attrs sir)) (map (\<lambda>i. u32 (fu_attr_begin f + i)) [0 ..< fu_attr_count f]))"

definition internal_refusal :: "build_env \<Rightarrow> gmodule \<Rightarrow> sfunc \<Rightarrow> string option" where
  "internal_refusal e m f =
     (if fu_is_extern f \<or> fu_is_throwing f \<or> fu_abi f \<noteq> FuncParus
      then Some (''gOIR official lane does not support function '' @ quoted (fu_name f) @ '' as an internal computation in this round.'')
      else if \<not> is_supported_signature_type (be_types e) m (fu_ret f)
      then Some (''gOIR official lane does not support the return type of internal function '' @ quoted (fu_name f) @ ''.'')
      else if \<not> list_all (\<lambda>p. is_supported_signature_type (be_types e) m (pm_type p)) (func_params (be_sir e) f)
      then Some (''gOIR official lane does not support a parameter type of internal function '' @ quoted (fu_name f) @ ''.'')
      else None)"

definition host_refusal :: "build_env \<Rightarrow> gmodule \<Rightarrow> sfunc \<Rightarrow> string option option" where
  "host_refusal e m f =
     (if fu_is_throwing f then Some (Some (''gOIR host ABI lane does not support throwing function '' @ quoted (fu_name f) @ ''.''))
      else if fu_abi f \<noteq> FuncC then Some (Some (''gOIR host ABI lane only accepts \"C\" ABI function '' @ quoted (fu_name f) @ ''.''))
      else if fu_is_c_variadic f
      then Some (Some (''gOIR host ABI lane does not support C variadic function '' @ quoted (fu_name f) @ '' in this round.''))
      else if \<not> (fu_is_extern f \<or> fu_is_export f)
      then Some (Some (''gOIR host ABI lane currently only supports extern/export free functions; '' @ quoted (fu_name f) @ '' is outside the supported subset.''))
      else do {
        ret_ok \<leftarrow> (if is_unit_type (be_types e) (fu_ret f) then Some True else is_supported_host_abi_type (be_types e) m (fu_ret f));
        if \<not> ret_ok then Some (Some (''gOIR host ABI lane does not support the return type of function '' @ quoted (fu_name f) @ ''.''))
        else do {
          params_ok \<leftarrow> all_members (is_supported_host_abi_type (be_types e) m) (map pm_type (func_params (be_sir e) f));
          if \<not> params_ok then Some (Some (''gOIR host ABI lane does not support a parameter type of function '' @ quoted (fu_name f) @ ''.''))
          else Some None
        }
      })"

definition func_refusal :: "build_env \<Rightarrow> gmodule \<Rightarrow> sfunc \<Rightarrow> string option option" where
  "func_refusal e m f =
     (if fu_is_actor_member f \<or> fu_is_actor_init f \<or> fu_is_acts_member f
      then Some (Some (''gOIR official lane does not support actor/acts methods for function '' @ quoted (fu_name f) @ '' in this round.''))
      else if fu_abi f = FuncC \<or> fu_is_extern f \<or> fu_is_export f then host_refusal e m f
      else Some (internal_refusal e m f))"

definition grl_of :: "sfunc \<Rightarrow> bool \<Rightarrow> nat \<Rightarrow> nat \<Rightarrow> nat \<Rightarrow> nat \<Rightarrow> grealization" where
  "grl_of f is_pure name link_name cid i = \<lparr>gr_name = name, gr_computation = cid,
     gr_family = (if fu_is_extern f then FamCpu else FamCore), gr_abi = (if fu_abi f = FuncC then GAbiC else GAbiParus),
     gr_linkage = (if fu_is_extern f then GLinkExternal else if fu_is_export f then GLinkExported else GLinkInternal),
     gr_link_name = link_name, gr_c_callconv = fu_c_callconv f, gr_is_c_variadic = fu_is_c_variadic f,
     gr_is_entry = (\<not> fu_is_extern f), gr_is_pure = is_pure, gr_is_extern = fu_is_extern f, gr_fn_type = fu_sig f,
     gr_blocks = [], gr_entry = kInvalidId, gr_source_func = i\<rparr>"

text \<open>The signature, the policy, the computation and its one realization.\<close>

definition add_callable :: "semantic_sig \<Rightarrow> (nat \<Rightarrow> grealization) \<Rightarrow> gmodule \<Rightarrow> nat \<times> nat \<times> gmodule" where
  "add_callable sg real m =
     (let (sig_id, m) = gadd_sig sg m;
          (policy_id, m) = gadd_policy PolicyFixedCpu m;
          (comp_id, m) = gadd_computation \<lparr>gc_name = gs_name sg, gc_sig = sig_id, gc_placement_policy = policy_id, gc_realizations = []\<rparr> m;
          (real_id, m) = gadd_realization (real comp_id) m;
          m = m\<lparr>gm_computations := (gm_computations m)[comp_id := (gm_computations m ! comp_id)\<lparr>gc_realizations :=
                gc_realizations (gm_computations m ! comp_id) @ [real_id]\<rparr>]\<rparr> in
      (comp_id, real_id, m))"

definition discover_func :: "build_env \<Rightarrow> nat \<Rightarrow> gstate \<Rightarrow> gstate option" where
  "discover_func e i s =
     (let f = sm_funcs (be_sir e) ! i; is_pure = (fu_is_pure f \<or> has_attr (be_sir e) f ''pure'') in
      do {
        refusal \<leftarrow> func_refusal e (gz_mod s) f;
        (case refusal of
           Some msg \<Rightarrow> Some (push_error msg s)
         | None \<Rightarrow>
             let (name, s) = with_string (fu_name f) s;
                 (link_name, s) = with_string (if fu_external_link_name f = [] then fu_name f else fu_external_link_name f) s;
                 sg = \<lparr>gs_name = name, gs_param_types = map pm_type (func_params (be_sir e) f), gs_result_type = fu_ret f,
                   gs_is_pure = is_pure, gs_is_throwing = fu_is_throwing f\<rparr>;
                 (comp_id, real_id, m) = add_callable sg (\<lambda>comp_id. grl_of f is_pure name link_name comp_id i) (gz_mod s) in
             Some (s\<lparr>gz_mod := m, gz_computation_by_func := (gz_computation_by_func s)(i \<mapsto> comp_id),
               gz_realization_by_func := (gz_realization_by_func s)(i \<mapsto> real_id),
               gz_realization_by_sym := (gz_realization_by_sym s)(fu_sym f \<mapsto> real_id),
               gz_computation_by_sym := (if fu_abi f = FuncC then gz_computation_by_sym s else (gz_computation_by_sym s)(fu_sym f \<mapsto> comp_id)),
               gz_supported := insert i (gz_supported s)\<rparr>))
      })"

section \<open>Functions\<close>

text \<open>The state in which a realization is built: its entry block is new.\<close>

definition start_func :: "nat \<Rightarrow> nat \<Rightarrow> gstate \<Rightarrow> gstate" where
  "start_func rid ret s =
     (let s = s\<lparr>gz_realization := rid, gz_return_type := ret, gz_locals := Map.empty\<rparr>; (b, s) = new_block s in
      s\<lparr>gz_current := b, gz_mod := set_realization rid (\<lambda>r. r\<lparr>gr_entry := b\<rparr>) (gz_mod s)\<rparr>)"

definition bind_param :: "build_env \<Rightarrow> sparam \<Rightarrow> gstate \<Rightarrow> gstate" where
  "bind_param e p s =
     (let (vid, s) = gadd_block_param e (gz_current s) (pm_type p) s in
      s\<lparr>gz_locals := (gz_locals s)(pm_sym p \<mapsto> \<lparr>bi_value = vid, bi_type = pm_type p, bi_layout = layout_of e s (pm_type p),
        bi_is_place = False, bi_is_mutable = False\<rparr>)\<rparr>)"

definition lower_func :: "nat \<Rightarrow> build_env \<Rightarrow> nat \<Rightarrow> gstate \<Rightarrow> gstate option" where
  "lower_func n e i s =
     (let f = sm_funcs (be_sir e) ! i in
      if i \<notin> gz_supported s \<or> fu_is_extern f then Some s
      else do {
        let rid = the (gz_realization_by_func s i);
        let s = fold (bind_param e) (func_params (be_sir e) f) (start_func rid (fu_ret f) s);
        s \<leftarrow> run_task (lower n e) (LowBlock (fu_entry f)) s;
        Some (if gz_current s = kInvalidId \<or> gk_has_term (gm_blocks (gz_mod s) ! gz_current s) then s
              else if is_unit_type (be_types e) (fu_ret f) then ensure_block_term (GTermRet False kInvalidId) s
              else push_error (''gOIR M1 function '' @ quoted (fu_name f) @ '' falls off the end without return.'') s)
      })"

section \<open>Initialisers of globals\<close>

fun all_args :: "(sarg \<Rightarrow> bool option) \<Rightarrow> sarg list \<Rightarrow> bool option" where
  "all_args f [] = Some True"
| "all_args f (a # as) = do { ok \<leftarrow> f a; if ok then all_args f as else Some False }"

primrec is_supported_global_constexpr :: "nat \<Rightarrow> build_env \<Rightarrow> gmodule \<Rightarrow> nat \<Rightarrow> nat \<Rightarrow> bool option" where
  "is_supported_global_constexpr 0 e m sid ty = None"
| "is_supported_global_constexpr (Suc n) e m sid ty =
     (let vs = sm_values (be_sir e); v = vs ! sid in
      if \<not> valid_in vs sid then Some False
      else if sv_kind v \<in> {SvIntLit, SvFloatLit, SvBoolLit, SvCharLit} then Some True
      else if sv_kind v = SvEnumCtor then Some (sv_arg_count v = 0 \<and> is_tag_only_enum_type m ty)
      else if sv_kind v = SvFieldInit
      then do {
        host \<leftarrow> is_supported_host_abi_record_type (be_types e) m ty;
        if \<not> host then Some False
        else if find_record_layout m ty = None then Some False
        else if sv_arg_begin v + sv_arg_count v > length (sm_args (be_sir e)) then Some False
        else all_args (\<lambda>a. let field_ty = lookup_record_field_type m ty (sa_label a) in
               if field_ty = kInvalidType then Some False else is_supported_global_constexpr n e m (sa_value a) field_ty)
             (record_args (be_sir e) v)
      }
      else Some False)"

definition init_global :: "nat \<Rightarrow> build_env \<Rightarrow> nat \<Rightarrow> gstate \<Rightarrow> (bool \<times> gstate) option" where
  "init_global n e gid s =
     (let src = sm_globals (be_sir e) ! gg_source_global (gm_globals (gz_mod s) ! gid); ty = gv_declared_type src in
      do {
        ok \<leftarrow> is_supported_global_constexpr n e (gz_mod s) (gv_init src) ty;
        if \<not> ok
        then Some (False, push_error (''gOIR host ABI lane only supports literal/tag-enum/layout(c)-record constant expressions for static mutable global ''
               @ quoted (gv_name src) @ ''.'') s)
        else do {
          (place, s) \<leftarrow> emit e ty GEffPure (OpGlobalSlot gid) (as_place (layout_of e s ty) ty GPlaceGlobalSlot True) s;
          (init, s) \<leftarrow> lower n e (LowAs (gv_init src) ty) s;
          if place = kInvalidId \<or> init = kInvalidId then Some (False, s)
          else do {
            (ignored, s) \<leftarrow> emit e kInvalidType GEffMayWrite (OpStore place init) any_result s;
            Some (True, s)
          }
        }
      })"

text \<open>The globals one after another; the first that fails ends the function without a terminator.\<close>

fun init_globals :: "nat \<Rightarrow> build_env \<Rightarrow> nat list \<Rightarrow> gstate \<Rightarrow> (bool \<times> gstate) option" where
  "init_globals n e [] s = Some (True, s)"
| "init_globals n e (gid # gids) s =
     do { (ok, s) \<leftarrow> init_global n e gid s; if ok then init_globals n e gids s else Some (False, s) }"

text \<open>The globals of the iteration that need a run, or the error the collection stops with.\<close>

fun pending_inits :: "smodule \<Rightarrow> gmodule \<Rightarrow> nat list \<Rightarrow> nat list option" where
  "pending_inits sir m [] = Some []"
| "pending_inits sir m (gid # gids) =
     (let g = gm_globals m ! gid in
      if length (gm_globals m) \<le> gid \<or> \<not> gg_runtime_init_needed g then pending_inits sir m gids
      else if gg_source_global g = kInvalidId \<or> length (sm_globals sir) \<le> gg_source_global g then None
      else map_option ((#) gid) (pending_inits sir m gids))"

definition lower_static_global_init :: "nat \<Rightarrow> build_env \<Rightarrow> nat list \<Rightarrow> gstate \<Rightarrow> gstate option" where
  "lower_static_global_init n e gids s =
     (case pending_inits (be_sir e) (gz_mod s) gids of
        None \<Rightarrow> Some (push_error ''gOIR host ABI lane saw a static mutable global without a valid source declaration.'' s)
      | Some [] \<Rightarrow> Some s
      | Some pending \<Rightarrow>
          let (name, s) = with_string ''__parus_goir_module_init'' s;
              unit_ty = builtin_id (be_types e) BUnit;
              sg = \<lparr>gs_name = name, gs_param_types = [], gs_result_type = unit_ty, gs_is_pure = False, gs_is_throwing = False\<rparr>;
              real = (\<lambda>comp_id. \<lparr>gr_name = name, gr_computation = comp_id, gr_family = FamCore, gr_abi = GAbiParus, gr_linkage = GLinkInternal,
                gr_link_name = name, gr_c_callconv = SConvDefault, gr_is_c_variadic = False, gr_is_entry = False, gr_is_pure = False,
                gr_is_extern = False, gr_fn_type = kInvalidType, gr_blocks = [], gr_entry = kInvalidId, gr_source_func = kInvalidId\<rparr>);
              (comp_id, real_id, m) = add_callable sg real (gz_mod s) in
          do {
            (ok, s) \<leftarrow> init_globals n e pending (start_func real_id unit_ty (s\<lparr>gz_mod := m\<rparr>));
            Some (if ok then ensure_block_term (GTermRet False kInvalidId) s else s)
          })"

section \<open>The build\<close>

record gbuild_result =
  br_ok :: bool
  br_mod :: gmodule
  br_messages :: "string list"

definition finish :: "gstate \<Rightarrow> gbuild_result" where
  "finish s = \<lparr>br_ok = (gz_messages s = []), br_mod = gz_mod s, br_messages = gz_messages s\<rparr>"

definition new_gstate :: gstate where
  "new_gstate = \<lparr>gz_mod = new_gmodule, gz_messages = [], gz_computation_by_sym = Map.empty, gz_computation_by_func = Map.empty,
     gz_realization_by_func = Map.empty, gz_realization_by_sym = Map.empty, gz_global_by_sym = [], gz_supported = {},
     gz_realization = kInvalidId, gz_current = kInvalidId, gz_return_type = kInvalidType, gz_locals = Map.empty\<rparr>"

definition scan_switch_cases :: "smodule \<Rightarrow> gstate \<Rightarrow> gstate" where
  "scan_switch_cases sir s = (case first_error switch_case_error (sm_switch_cases sir) of None \<Rightarrow> s | Some msg \<Rightarrow> push_error msg s)"

text \<open>Layouts, globals and functions, as long as nothing is refused.\<close>

definition discover :: "build_env \<Rightarrow> gstate option" where
  "discover e =
     (let s = scan_switch_cases (be_sir e) (new_gstate\<lparr>gz_mod := copy_record_layouts (be_sir e) new_gmodule\<rparr>) in
      if gz_messages s \<noteq> [] then Some s
      else do {
        s \<leftarrow> each_id (discover_global e) [0 ..< length (sm_globals (be_sir e))] s;
        if gz_messages s \<noteq> [] then Some s
        else each_id (discover_func e) [0 ..< length (sm_funcs (be_sir e))] s
      })"

definition lower_all_funcs :: "nat \<Rightarrow> build_env \<Rightarrow> ((nat \<times> nat) list \<Rightarrow> nat list) \<Rightarrow> gstate \<Rightarrow> gstate option" where
  "lower_all_funcs n e order s =
     do {
       s \<leftarrow> each_id (lower_func n e) [0 ..< length (sm_funcs (be_sir e))] s;
       s \<leftarrow> (if gz_messages s = [] then lower_static_global_init n e (order (gz_global_by_sym s)) s else Some s);
       let s = s\<lparr>gz_mod := run_open_passes (gz_mod s)\<rparr>;
       Some (s\<lparr>gz_messages := gz_messages s @ goir_verify (gz_mod s)\<rparr>)
     }"

definition build_from_sir :: "nat \<Rightarrow> ((nat \<times> nat) list \<Rightarrow> nat list) \<Rightarrow> smodule \<Rightarrow> type_pool \<Rightarrow> gbuild_result option" where
  "build_from_sir n order sir types =
     (let e = \<lparr>be_sir = sir, be_types = types\<rparr> in
      do {
        s \<leftarrow> discover e;
        if gz_messages s \<noteq> [] then Some (finish s) else map_option finish (lower_all_funcs n e order s)
      })"

end
