(* ===== verification/GOIR_Scope.thy ===== *)
theory GOIR_Scope
  imports GOIR_Build "HOL-Library.Multiset"
begin

text \<open>
  What holds of the blocks a lowering leaves, and is not checked by the verifier: every block,
  instruction and value has one owner (\<open>structured\<close>), and every operand is defined on all paths from
  the entry before it is used (\<open>assigned_before_use\<close>). The second rests on a tree over the blocks in
  which an edge of the graph only goes to a child of a block above its source; the lemmas here say
  that the primitive changes of a module keep such a tree (\<open>sound\<close>).
\<close>

section \<open>Owners\<close>

definition gresults :: "gmodule \<Rightarrow> nat list" where
  "gresults m = filter (\<lambda>v. v \<noteq> kInvalidId) (map gi_result (gm_insts m))"

definition targets :: "gterm \<Rightarrow> nat set" where
  "targets t = fst ` set (gterm_edges t)"

text \<open>Blocks belong to one realization, instructions to one block, and values to one instruction or one
  list of parameters. Entries and edges stay in the realization.\<close>

definition structured :: "gmodule \<Rightarrow> bool" where
  "structured m \<longleftrightarrow>
     mset (concat (map gr_blocks (gm_realizations m))) = mset [0 ..< length (gm_blocks m)]
     \<and> mset (concat (map gk_insts (gm_blocks m))) = mset [0 ..< length (gm_insts m)]
     \<and> mset (gresults m @ concat (map gk_params (gm_blocks m))) = mset [0 ..< length (gm_values m)]
     \<and> (\<forall>r \<in> set (gm_realizations m). (gr_entry r = kInvalidId \<or> gr_entry r \<in> set (gr_blocks r))
          \<and> (\<forall>b \<in> set (gr_blocks r). gk_has_term (gm_blocks m ! b) \<longrightarrow> targets (gk_term (gm_blocks m ! b)) \<subseteq> set (gr_blocks r)))"

section \<open>Paths\<close>

definition gedge :: "gmodule \<Rightarrow> nat \<Rightarrow> nat \<Rightarrow> bool" where
  "gedge m b t \<longleftrightarrow> b < length (gm_blocks m) \<and> gk_has_term (gm_blocks m ! b) \<and> t \<in> targets (gk_term (gm_blocks m ! b))"

text \<open>The blocks of a run from the entry, the last one first.\<close>

inductive gpath :: "gmodule \<Rightarrow> nat \<Rightarrow> nat list \<Rightarrow> bool" for m entry where
  gpath_entry: "gpath m entry [entry]"
| gpath_edge: "gpath m entry (b # bs) \<Longrightarrow> gedge m b t \<Longrightarrow> gpath m entry (t # b # bs)"

text \<open>The values a block defines before its instruction number \<open>k\<close>, and all of them.\<close>

definition defs_until :: "gmodule \<Rightarrow> nat \<Rightarrow> nat \<Rightarrow> nat set" where
  "defs_until m b k = (if b < length (gm_blocks m)
     then set (gk_params (gm_blocks m ! b)) \<union> (\<lambda>i. gi_result (gm_insts m ! i)) ` set (take k (gk_insts (gm_blocks m ! b))) else {})"

definition gblock_defs :: "gmodule \<Rightarrow> nat \<Rightarrow> nat set" where
  "gblock_defs m b = defs_until m b (length (gk_insts (gm_blocks m ! b)))"

definition term_values :: "gterm \<Rightarrow> nat set" where
  "term_values t = set (gterm_uses t) \<union> (\<Union>(tgt, args) \<in> set (gterm_edges t). set args)"

text \<open>On every path to a block, what its instructions and its terminator use is defined before.\<close>

definition assigned_before_use :: "gmodule \<Rightarrow> nat \<Rightarrow> bool" where
  "assigned_before_use m entry \<longleftrightarrow>
     (\<forall>b bs. gpath m entry (b # bs) \<longrightarrow>
        (\<forall>k < length (gk_insts (gm_blocks m ! b)). \<forall>v \<in> set (gop_uses (gi_data (gm_insts m ! (gk_insts (gm_blocks m ! b) ! k)))).
           v \<in> defs_until m b k \<or> (\<exists>a \<in> set bs. v \<in> gblock_defs m a))
        \<and> (gk_has_term (gm_blocks m ! b) \<longrightarrow> (\<forall>v \<in> term_values (gk_term (gm_blocks m ! b)).
             \<exists>a \<in> set (b # bs). v \<in> gblock_defs m a)))"

section \<open>A tree over the blocks\<close>

text \<open>The parent of each block; an entry has none.\<close>

definition up :: "nat option list \<Rightarrow> (nat \<times> nat) set" where
  "up ps = {(b, a). b < length ps \<and> ps ! b = Some a}"

definition available :: "nat option list \<Rightarrow> gmodule \<Rightarrow> nat \<Rightarrow> nat \<Rightarrow> bool" where
  "available ps m b v \<longleftrightarrow> v = kInvalidId \<or> (\<exists>a. (b, a) \<in> (up ps)\<^sup>* \<and> v \<in> gblock_defs m a)"

text \<open>A block that may be the target of an edge from \<open>b\<close>.\<close>

definition reachable_target :: "nat option list \<Rightarrow> nat \<Rightarrow> nat \<Rightarrow> bool" where
  "reachable_target ps b t \<longleftrightarrow> (\<exists>a. t < length ps \<and> ps ! t = Some a \<and> (b, a) \<in> (up ps)\<^sup>*)"

definition inst_scoped :: "nat option list \<Rightarrow> gmodule \<Rightarrow> nat \<Rightarrow> nat \<Rightarrow> bool" where
  "inst_scoped ps m b k \<longleftrightarrow> (\<forall>v \<in> set (gop_uses (gi_data (gm_insts m ! (gk_insts (gm_blocks m ! b) ! k)))).
     v = kInvalidId \<or> v \<in> defs_until m b k \<or> (\<exists>a. (b, a) \<in> (up ps)\<^sup>+ \<and> v \<in> gblock_defs m a))"

definition term_scoped :: "nat option list \<Rightarrow> gmodule \<Rightarrow> nat \<Rightarrow> bool" where
  "term_scoped ps m b \<longleftrightarrow> (gk_has_term (gm_blocks m ! b) \<longrightarrow>
     (\<forall>t \<in> targets (gk_term (gm_blocks m ! b)). reachable_target ps b t)
     \<and> (\<forall>v \<in> term_values (gk_term (gm_blocks m ! b)). available ps m b v))"

definition scoped :: "nat option list \<Rightarrow> gmodule \<Rightarrow> bool" where
  "scoped ps m \<longleftrightarrow> length ps = length (gm_blocks m)
     \<and> (\<forall>b < length (gm_blocks m). term_scoped ps m b \<and> (\<forall>k < length (gk_insts (gm_blocks m ! b)). inst_scoped ps m b k))
     \<and> (\<forall>r \<in> set (gm_realizations m). gr_entry r \<noteq> kInvalidId \<longrightarrow> gr_entry r < length ps \<and> ps ! gr_entry r = None)"

definition sound :: "nat option list \<Rightarrow> gmodule \<Rightarrow> bool" where
  "sound ps m \<longleftrightarrow> structured m \<and> scoped ps m"

text \<open>Every block above the last one of a path is on the path before it.\<close>

lemma above_on_path:
  assumes "scoped ps m" "ps ! entry = None" "gpath m entry bs"
  shows "bs \<noteq> [] \<and> (\<forall>a. (hd bs, a) \<in> (up ps)\<^sup>+ \<longrightarrow> a \<in> set (tl bs))"
  using assms(3)
proof (induction rule: gpath.induct)
  case gpath_entry
  then show ?case using assms(2) by (auto simp: up_def dest: tranclD)
next
  case (gpath_edge b bs t)
  have "reachable_target ps b t"
    using gpath_edge.hyps(2) assms(1) by (auto simp: gedge_def scoped_def term_scoped_def)
  then obtain p where p: "ps ! t = Some p" "(b, p) \<in> (up ps)\<^sup>*" by (auto simp: reachable_target_def)
  have "a \<in> set (b # bs)" if "(t, a) \<in> (up ps)\<^sup>+" for a
  proof -
    from that obtain q where "(t, q) \<in> up ps" "(q, a) \<in> (up ps)\<^sup>*" by (blast dest: tranclD)
    then have "(b, a) \<in> (up ps)\<^sup>*" using p by (auto simp: up_def)
    then show ?thesis using gpath_edge.IH by (auto dest: rtranclD)
  qed
  then show ?case by simp
qed

lemma gpath_inside: "gpath m entry (b # bs) \<Longrightarrow> scoped ps m \<Longrightarrow> entry < length ps \<Longrightarrow> b < length (gm_blocks m)"
  by (erule gpath.cases) (auto simp: scoped_def term_scoped_def reachable_target_def gedge_def)

text \<open>A tree makes every operand assigned, except the invalid id.\<close>

lemma scoped_assigned:
  assumes "scoped ps m" "r \<in> set (gm_realizations m)" "gr_entry r \<noteq> kInvalidId"
    "\<forall>b < length (gm_blocks m). \<forall>i \<in> set (gk_insts (gm_blocks m ! b)). kInvalidId \<notin> set (gop_uses (gi_data (gm_insts m ! i)))"
    "\<forall>b < length (gm_blocks m). gk_has_term (gm_blocks m ! b) \<longrightarrow> kInvalidId \<notin> term_values (gk_term (gm_blocks m ! b))"
  shows "assigned_before_use m (gr_entry r)"
  unfolding assigned_before_use_def
proof (intro allI impI)
  fix b bs
  assume path: "gpath m (gr_entry r) (b # bs)"
  have entry: "gr_entry r < length ps" "ps ! gr_entry r = None" using assms(1-3) by (auto simp: scoped_def)
  have b: "b < length (gm_blocks m)" by (rule gpath_inside [OF path assms(1) entry(1)])
  have above: "a \<in> set bs" if "(b, a) \<in> (up ps)\<^sup>+" for a
    using above_on_path [OF assms(1) entry(2) path] that by simp
  then have above_eq: "a \<in> set (b # bs)" if "(b, a) \<in> (up ps)\<^sup>*" for a
    using that by (auto dest: rtranclD)
  show "(\<forall>k < length (gk_insts (gm_blocks m ! b)). \<forall>v \<in> set (gop_uses (gi_data (gm_insts m ! (gk_insts (gm_blocks m ! b) ! k)))).
           v \<in> defs_until m b k \<or> (\<exists>a \<in> set bs. v \<in> gblock_defs m a))
        \<and> (gk_has_term (gm_blocks m ! b) \<longrightarrow> (\<forall>v \<in> term_values (gk_term (gm_blocks m ! b)).
             \<exists>a \<in> set (b # bs). v \<in> gblock_defs m a))"
  proof (intro conjI allI impI ballI)
    fix k v
    assume k: "k < length (gk_insts (gm_blocks m ! b))" and v: "v \<in> set (gop_uses (gi_data (gm_insts m ! (gk_insts (gm_blocks m ! b) ! k))))"
    then have "v \<noteq> kInvalidId" using assms(4) b nth_mem by metis
    moreover have "inst_scoped ps m b k" using assms(1) b k by (simp add: scoped_def)
    ultimately show "v \<in> defs_until m b k \<or> (\<exists>a \<in> set bs. v \<in> gblock_defs m a)"
      using v above unfolding inst_scoped_def by blast
  next
    fix v
    assume h: "gk_has_term (gm_blocks m ! b)" and v: "v \<in> term_values (gk_term (gm_blocks m ! b))"
    then have "v \<noteq> kInvalidId" using assms(5) b by metis
    moreover have "available ps m b v" using assms(1) b h v by (auto simp: scoped_def term_scoped_def)
    ultimately show "\<exists>a \<in> set (b # bs). v \<in> gblock_defs m a" using above_eq unfolding available_def by blast
  qed
qed

section \<open>Growth\<close>

text \<open>Vectors are extended, the lists of a block as well, and a terminator stays.\<close>

definition block_le :: "gblock \<Rightarrow> gblock \<Rightarrow> bool" where
  "block_le b c \<longleftrightarrow> prefix (gk_params b) (gk_params c) \<and> prefix (gk_insts b) (gk_insts c)
     \<and> (gk_has_term b \<longrightarrow> gk_has_term c \<and> gk_term c = gk_term b)"

definition graph_le :: "gmodule \<Rightarrow> gmodule \<Rightarrow> bool" where
  "graph_le m m' \<longleftrightarrow> prefix (gm_insts m) (gm_insts m') \<and> length (gm_values m) \<le> length (gm_values m')
     \<and> length (gm_blocks m) \<le> length (gm_blocks m')
     \<and> (\<forall>b < length (gm_blocks m). block_le (gm_blocks m ! b) (gm_blocks m' ! b))"

lemma block_le_refl [simp]: "block_le b b"
  by (simp add: block_le_def)

lemma graph_le_refl [simp]: "graph_le m m"
  by (simp add: graph_le_def)

lemma block_le_trans: "block_le a b \<Longrightarrow> block_le b c \<Longrightarrow> block_le a c"
  unfolding block_le_def by (auto intro: prefix_order.trans)

lemma graph_le_trans: "graph_le a b \<Longrightarrow> graph_le b c \<Longrightarrow> graph_le a c"
  unfolding graph_le_def by (meson block_le_trans order.trans order_less_le_trans prefix_order.trans)

lemma insts_inside:
  assumes "structured m" "b < length (gm_blocks m)" "i \<in> set (gk_insts (gm_blocks m ! b))"
  shows "i < length (gm_insts m)"
proof -
  have "i \<in> set (concat (map gk_insts (gm_blocks m)))" using assms(2,3) by auto
  then have "i \<in># mset [0 ..< length (gm_insts m)]" using assms(1) unfolding structured_def by (metis set_mset_mset)
  then show ?thesis by simp
qed

lemma blocks_inside:
  assumes "structured m" "r \<in> set (gm_realizations m)" "b \<in> set (gr_blocks r)"
  shows "b < length (gm_blocks m)"
proof -
  have "b \<in> set (concat (map gr_blocks (gm_realizations m)))" using assms(2,3) by auto
  then have "b \<in># mset [0 ..< length (gm_blocks m)]" using assms(1) unfolding structured_def by (metis set_mset_mset)
  then show ?thesis by simp
qed

lemma prefix_nth: "prefix xs ys \<Longrightarrow> k < length xs \<Longrightarrow> ys ! k = xs ! k"
  by (auto simp: prefix_def nth_append)

lemma prefix_take: "prefix xs ys \<Longrightarrow> k \<le> length xs \<Longrightarrow> take k ys = take k xs"
  by (auto simp: prefix_def)

lemma defs_until_grow:
  assumes "structured m" "graph_le m m'" "k \<le> length (gk_insts (gm_blocks m ! b))"
  shows "defs_until m b k \<subseteq> defs_until m' b k"
proof (cases "b < length (gm_blocks m)")
  case True
  let ?b = "gm_blocks m ! b" and ?b' = "gm_blocks m' ! b"
  have le: "prefix (gk_params ?b) (gk_params ?b')" "prefix (gk_insts ?b) (gk_insts ?b')" "b < length (gm_blocks m')" "prefix (gm_insts m) (gm_insts m')"
    using assms(2) True by (auto simp: graph_le_def block_le_def)
  have "gm_insts m' ! i = gm_insts m ! i" if "i \<in> set (take k (gk_insts ?b))" for i
    using insts_inside [OF assms(1) True] in_set_takeD [OF that] le(4) by (simp add: prefix_nth)
  then show ?thesis
    using le True set_mono_prefix [OF le(1)] prefix_take [OF le(2) assms(3)] by (auto simp: defs_until_def)
qed (simp add: defs_until_def)

lemma block_defs_grow:
  assumes "structured m" "graph_le m m'"
  shows "gblock_defs m b \<subseteq> gblock_defs m' b"
proof (cases "b < length (gm_blocks m)")
  case True
  let ?n = "length (gk_insts (gm_blocks m ! b))"
  have "defs_until m' b ?n \<subseteq> gblock_defs m' b"
    by (auto simp: defs_until_def gblock_defs_def dest: in_set_takeD)
  then show ?thesis using defs_until_grow [OF assms, of ?n b] by (auto simp: gblock_defs_def)
qed (simp add: gblock_defs_def defs_until_def)

lemma up_grow: "prefix ps qs \<Longrightarrow> up ps \<subseteq> up qs"
  by (auto simp: up_def prefix_nth dest: prefix_length_le)

lemma above_grow: "prefix ps qs \<Longrightarrow> (b, a) \<in> (up ps)\<^sup>* \<Longrightarrow> (b, a) \<in> (up qs)\<^sup>*"
  using rtrancl_mono [OF up_grow] by blast

lemma available_grow:
  assumes "structured m" "graph_le m m'" "prefix ps qs" "available ps m b v"
  shows "available qs m' b v"
proof (cases "v = kInvalidId")
  case False
  then obtain a where "(b, a) \<in> (up ps)\<^sup>*" "v \<in> gblock_defs m a" using assms(4) by (auto simp: available_def)
  then have "(b, a) \<in> (up qs)\<^sup>* \<and> v \<in> gblock_defs m' a" using above_grow [OF assms(3)] block_defs_grow [OF assms(1,2)] by blast
  then show ?thesis by (auto simp: available_def)
qed (simp add: available_def)

lemma available_below: "(c, b) \<in> (up ps)\<^sup>* \<Longrightarrow> available ps m b v \<Longrightarrow> available ps m c v"
  using rtrancl_trans [of c b "up ps"] by (auto simp: available_def)

lemma target_grow:
  assumes "prefix ps qs" "reachable_target ps b t"
  shows "reachable_target qs b t"
proof -
  obtain a where a: "t < length ps" "ps ! t = Some a" "(b, a) \<in> (up ps)\<^sup>*" using assms(2) by (auto simp: reachable_target_def)
  then have "t < length qs" "qs ! t = Some a" using prefix_length_le [OF assms(1)] prefix_nth [OF assms(1)] by auto
  then show ?thesis using above_grow [OF assms(1) a(3)] by (auto simp: reachable_target_def)
qed

lemma target_below: "(c, b) \<in> (up ps)\<^sup>* \<Longrightarrow> reachable_target ps b t \<Longrightarrow> reachable_target ps c t"
  using rtrancl_trans [of c b "up ps"] by (auto simp: reachable_target_def)

text \<open>Instructions and terminators that were there stay scoped.\<close>

lemma inst_scoped_grow:
  assumes "structured m" "graph_le m m'" "prefix ps qs" "b < length (gm_blocks m)" "k < length (gk_insts (gm_blocks m ! b))"
    "inst_scoped ps m b k"
  shows "inst_scoped qs m' b k"
proof -
  have le: "prefix (gk_insts (gm_blocks m ! b)) (gk_insts (gm_blocks m' ! b))" "prefix (gm_insts m) (gm_insts m')"
    using assms(2,4) by (simp_all add: graph_le_def block_le_def)
  have id: "gk_insts (gm_blocks m' ! b) ! k = gk_insts (gm_blocks m ! b) ! k" by (rule prefix_nth [OF le(1) assms(5)])
  have same: "gm_insts m' ! (gk_insts (gm_blocks m ! b) ! k) = gm_insts m ! (gk_insts (gm_blocks m ! b) ! k)"
    using insts_inside [OF assms(1,4)] assms(5) le(2) by (simp add: prefix_nth)
  have "(b, a) \<in> (up ps)\<^sup>+ \<Longrightarrow> (b, a) \<in> (up qs)\<^sup>+" for a
    using trancl_mono [OF _ up_grow [OF assms(3)]] by blast
  then show ?thesis
    using assms(6) block_defs_grow [OF assms(1,2)] defs_until_grow [OF assms(1,2) less_imp_le [OF assms(5)]]
    unfolding inst_scoped_def id same by blast
qed

lemma term_scoped_grow:
  assumes "structured m" "graph_le m m'" "prefix ps qs" "b < length (gm_blocks m)" "gk_has_term (gm_blocks m ! b)" "term_scoped ps m b"
  shows "term_scoped qs m' b"
proof -
  have "gk_term (gm_blocks m' ! b) = gk_term (gm_blocks m ! b)"
    using assms(2,4,5) by (simp add: graph_le_def block_le_def)
  then show ?thesis
    using assms(5,6) target_grow [OF assms(3)] available_grow [OF assms(1-3)] unfolding term_scoped_def by simp
qed

lemma scoped_entry:
  "scoped ps m \<Longrightarrow> r \<in> set (gm_realizations m) \<Longrightarrow> gr_entry r \<noteq> kInvalidId \<Longrightarrow> gr_entry r < length ps \<and> ps ! gr_entry r = None"
  unfolding scoped_def by blast

text \<open>What is new in a grown module has to be scoped.\<close>

lemma scoped_grow:
  assumes "sound ps m" "graph_le m m'" "prefix ps qs" "length qs = length (gm_blocks m')"
    "\<And>b k. b < length (gm_blocks m') \<Longrightarrow> k < length (gk_insts (gm_blocks m' ! b)) \<Longrightarrow>
       \<not> (b < length (gm_blocks m) \<and> k < length (gk_insts (gm_blocks m ! b))) \<Longrightarrow> inst_scoped qs m' b k"
    "\<And>b. b < length (gm_blocks m') \<Longrightarrow> gk_has_term (gm_blocks m' ! b) \<Longrightarrow>
       \<not> (b < length (gm_blocks m) \<and> gk_has_term (gm_blocks m ! b)) \<Longrightarrow> term_scoped qs m' b"
    "\<And>r. r \<in> set (gm_realizations m') \<Longrightarrow> gr_entry r \<noteq> kInvalidId \<Longrightarrow>
       gr_entry r < length qs \<and> qs ! gr_entry r = None"
  shows "scoped qs m'"
proof -
  have old: "structured m" "scoped ps m" using assms(1) by (simp_all add: sound_def)
  have "inst_scoped qs m' b k" if new: "b < length (gm_blocks m')" "k < length (gk_insts (gm_blocks m' ! b))" for b k
  proof (cases "b < length (gm_blocks m) \<and> k < length (gk_insts (gm_blocks m ! b))")
    case True
    then show ?thesis using inst_scoped_grow [OF old(1) assms(2,3)] old(2) by (simp add: scoped_def)
  qed (rule assms(5) [OF new])
  moreover have "term_scoped qs m' b" if new: "b < length (gm_blocks m')" for b
  proof (cases "gk_has_term (gm_blocks m' ! b)")
    case True
    show ?thesis
    proof (cases "b < length (gm_blocks m) \<and> gk_has_term (gm_blocks m ! b)")
      case True
      then show ?thesis using term_scoped_grow [OF old(1) assms(2,3)] old(2) by (simp add: scoped_def)
    qed (rule assms(6) [OF new True])
  qed (simp add: term_scoped_def)
  ultimately show ?thesis using assms(4,7) by (simp add: scoped_def)
qed

section \<open>The primitive changes\<close>

lemma mset_concat_update:
  "b < length xs \<Longrightarrow> f y = f (xs ! b) @ zs \<Longrightarrow> mset (concat (map f (xs[b := y]))) = mset (concat (map f xs)) + mset zs"
proof (induction xs arbitrary: b)
  case (Cons x xs)
  then show ?case by (cases b) auto
qed simp

lemma concat_update_same: "f y = f (xs ! b) \<Longrightarrow> concat (map f (xs[b := y])) = concat (map f xs)"
proof (cases "b < length xs")
  case True
  assume "f y = f (xs ! b)"
  then have "map f (xs[b := y]) = map f xs" using True by (metis list_update_id map_update nth_map)
  then show ?thesis by simp
qed (simp add: not_less list_update_beyond)

text \<open>An instruction at the end of a block, with its result if it has one.\<close>

definition put_inst :: "nat \<Rightarrow> ginst \<Rightarrow> gvalue list \<Rightarrow> gmodule \<Rightarrow> gmodule" where
  "put_inst c i vs m = set_block c (\<lambda>b. b\<lparr>gk_insts := gk_insts b @ [length (gm_insts m)]\<rparr>)
     (m\<lparr>gm_values := gm_values m @ vs, gm_insts := gm_insts m @ [i]\<rparr>)"

definition fits_result :: "ginst \<Rightarrow> gvalue list \<Rightarrow> gmodule \<Rightarrow> bool" where
  "fits_result i vs m \<longleftrightarrow> (gi_result i = kInvalidId \<and> vs = []) \<or> (gi_result i \<noteq> kInvalidId \<and> gi_result i = length (gm_values m) \<and> length vs = 1)"

lemma put_inst_le: "c < length (gm_blocks m) \<Longrightarrow> graph_le m (put_inst c i vs m)"
  by (auto simp: put_inst_def set_block_def graph_le_def block_le_def nth_list_update)

lemma put_inst_structured:
  assumes "structured m" "c < length (gm_blocks m)" "fits_result i vs m"
  shows "structured (put_inst c i vs m)"
proof -
  have "mset (gresults (put_inst c i vs m)) = mset (gresults m) + mset [length (gm_values m) ..< length (gm_values m) + length vs]"
    using assms(3) by (auto simp: gresults_def put_inst_def set_block_def fits_result_def)
  moreover have "mset [0 ..< n + k] = mset [0 ..< n] + mset [n ..< n + k]" for n k :: nat
    by (metis le0 mset_append upt_add_eq_append)
  ultimately show ?thesis
    using assms(1,2)
    by (auto simp: structured_def put_inst_def set_block_def nth_list_update concat_update_same
        mset_concat_update [where zs = "[length (gm_insts m)]"])
qed

lemma put_inst_scoped:
  assumes "sound ps m" "c < length (gm_blocks m)" "\<forall>v \<in> set (gop_uses (gi_data i)). available ps m c v"
  shows "scoped ps (put_inst c i vs m)"
proof (rule scoped_grow [OF assms(1) put_inst_le [OF assms(2)]])
  let ?m' = "put_inst c i vs m" and ?n = "length (gk_insts (gm_blocks m ! c))"
  have old: "structured m" "scoped ps m" using assms(1) by (simp_all add: sound_def)
  show "length ps = length (gm_blocks ?m')" using old by (simp add: scoped_def put_inst_def set_block_def)
  show "inst_scoped ps ?m' b k"
    if "b < length (gm_blocks ?m')" "k < length (gk_insts (gm_blocks ?m' ! b))" "\<not> (b < length (gm_blocks m) \<and> k < length (gk_insts (gm_blocks m ! b)))" for b k
  proof -
    have "b = c" using that by (cases "b = c") (simp_all add: put_inst_def set_block_def)
    then have bk: "b = c" "k = ?n" using that assms(2) by (simp_all add: put_inst_def set_block_def)
    have inst: "gi_data (gm_insts ?m' ! (gk_insts (gm_blocks ?m' ! c) ! ?n)) = gi_data i"
      using assms(2) by (simp add: put_inst_def set_block_def)
    have "v = kInvalidId \<or> v \<in> defs_until ?m' c ?n \<or> (\<exists>a. (c, a) \<in> (up ps)\<^sup>+ \<and> v \<in> gblock_defs ?m' a)" if use: "v \<in> set (gop_uses (gi_data i))" for v
    proof (cases "v = kInvalidId")
      case False
      then obtain a where a: "(c, a) \<in> (up ps)\<^sup>*" "v \<in> gblock_defs m a" using assms(3) use by (auto simp: available_def)
      show ?thesis
      proof (cases "a = c")
        case True
        then have "v \<in> defs_until ?m' c ?n"
          using a(2) defs_until_grow [OF old(1) put_inst_le [OF assms(2)]] unfolding gblock_defs_def by blast
        then show ?thesis by blast
      next
        case ne: False
        then have "(c, a) \<in> (up ps)\<^sup>+" using a(1) by (auto dest: rtranclD)
        then show ?thesis using a(2) block_defs_grow [OF old(1) put_inst_le [OF assms(2)]] by blast
      qed
    qed simp
    then show ?thesis by (simp add: inst_scoped_def bk inst)
  qed
  show "term_scoped ps ?m' b"
    if "b < length (gm_blocks ?m')" "gk_has_term (gm_blocks ?m' ! b)" "\<not> (b < length (gm_blocks m) \<and> gk_has_term (gm_blocks m ! b))" for b
    using that by (cases "b = c") (simp_all add: put_inst_def set_block_def)
  show "gr_entry r < length ps \<and> ps ! gr_entry r = None" if "r \<in> set (gm_realizations ?m')" "gr_entry r \<noteq> kInvalidId" for r
    using that scoped_entry [OF old(2)] by (simp add: put_inst_def set_block_def)
qed simp

text \<open>A new block of a realization.\<close>

definition put_block :: "nat \<Rightarrow> gmodule \<Rightarrow> gmodule" where
  "put_block rid m = set_realization rid (\<lambda>r. r\<lparr>gr_blocks := gr_blocks r @ [length (gm_blocks m)]\<rparr>) (m\<lparr>gm_blocks := gm_blocks m @ [new_gblock]\<rparr>)"

lemma put_block_simps [simp]:
  "gm_realizations (put_block rid m) = (gm_realizations m)[rid := (gm_realizations m ! rid)\<lparr>gr_blocks := gr_blocks (gm_realizations m ! rid) @ [length (gm_blocks m)]\<rparr>]"
  "gm_blocks (put_block rid m) = gm_blocks m @ [new_gblock]" "gm_insts (put_block rid m) = gm_insts m"
  "gm_values (put_block rid m) = gm_values m" "gresults (put_block rid m) = gresults m"
  by (simp_all add: put_block_def set_realization_def gresults_def)

lemma put_block_le: "graph_le m (put_block rid m)"
  by (simp add: put_block_def set_realization_def graph_le_def nth_append)

lemma put_block_structured:
  assumes "structured m" "rid < length (gm_realizations m)"
  shows "structured (put_block rid m)"
proof -
  let ?n = "length (gm_blocks m)" and ?rs = "gm_realizations m"
  have real: "(gr_entry r = kInvalidId \<or> gr_entry r \<in> set (gr_blocks r))
      \<and> (\<forall>b \<in> set (gr_blocks r). gk_has_term ((gm_blocks m @ [new_gblock]) ! b) \<longrightarrow> targets (gk_term ((gm_blocks m @ [new_gblock]) ! b)) \<subseteq> set (gr_blocks r))"
    if r: "r \<in> set ?rs" for r
  proof -
    have "\<forall>b \<in> set (gr_blocks r). (gm_blocks m @ [new_gblock]) ! b = gm_blocks m ! b"
      using blocks_inside [OF assms(1) r] by (simp add: nth_append)
    then show ?thesis using assms(1) r unfolding structured_def by auto
  qed
  let ?r = "?rs ! rid"
  let ?r' = "?r\<lparr>gr_blocks := gr_blocks ?r @ [?n]\<rparr>"
  have new: "(gr_entry ?r' = kInvalidId \<or> gr_entry ?r' \<in> set (gr_blocks ?r'))
      \<and> (\<forall>b \<in> set (gr_blocks ?r'). gk_has_term ((gm_blocks m @ [new_gblock]) ! b) \<longrightarrow> targets (gk_term ((gm_blocks m @ [new_gblock]) ! b)) \<subseteq> set (gr_blocks ?r'))"
    using real [of ?r] assms(2) by (auto simp: new_gblock_def)
  have all: "r \<in> set (?rs[rid := ?r']) \<Longrightarrow> r = ?r' \<or> r \<in> set ?rs" for r
    using set_update_subset_insert [of ?rs rid ?r'] by blast
  have blocks: "mset (concat (map gr_blocks (?rs[rid := ?r']))) = mset [0 ..< Suc ?n]"
    using assms mset_concat_update [of rid ?rs gr_blocks ?r' "[?n]"] by (simp add: structured_def)
  have rest: "mset (concat (map gk_insts (gm_blocks m @ [new_gblock]))) = mset [0 ..< length (gm_insts m)]"
    "mset (gresults m @ concat (map gk_params (gm_blocks m @ [new_gblock]))) = mset [0 ..< length (gm_values m)]"
    using assms(1) by (simp_all add: structured_def new_gblock_def)
  have "(gr_entry r = kInvalidId \<or> gr_entry r \<in> set (gr_blocks r))
      \<and> (\<forall>b \<in> set (gr_blocks r). gk_has_term ((gm_blocks m @ [new_gblock]) ! b) \<longrightarrow> targets (gk_term ((gm_blocks m @ [new_gblock]) ! b)) \<subseteq> set (gr_blocks r))"
    if "r \<in> set (?rs[rid := ?r'])" for r
    using all [OF that] new real [of r] by (elim disjE) simp_all
  then show ?thesis
    using blocks rest by (simp add: structured_def)
qed

lemma put_block_scoped:
  assumes "sound ps m" "rid < length (gm_realizations m)"
  shows "scoped (ps @ [p]) (put_block rid m)"
proof (rule scoped_grow [OF assms(1) put_block_le])
  let ?m' = "put_block rid m"
  have old: "structured m" "scoped ps m" using assms(1) by (simp_all add: sound_def)
  show "length (ps @ [p]) = length (gm_blocks ?m')" using old by (simp add: scoped_def put_block_def set_realization_def)
  show "inst_scoped (ps @ [p]) ?m' b k"
    if "b < length (gm_blocks ?m')" "k < length (gk_insts (gm_blocks ?m' ! b))" "\<not> (b < length (gm_blocks m) \<and> k < length (gk_insts (gm_blocks m ! b)))" for b k
    using that by (auto simp: put_block_def set_realization_def nth_append new_gblock_def split: if_splits)
  show "term_scoped (ps @ [p]) ?m' b"
    if "b < length (gm_blocks ?m')" "gk_has_term (gm_blocks ?m' ! b)" "\<not> (b < length (gm_blocks m) \<and> gk_has_term (gm_blocks m ! b))" for b
    using that by (auto simp: put_block_def set_realization_def nth_append new_gblock_def split: if_splits)
  show "gr_entry r < length (ps @ [p]) \<and> (ps @ [p]) ! gr_entry r = None" if "r \<in> set (gm_realizations ?m')" "gr_entry r \<noteq> kInvalidId" for r
  proof -
    have "\<exists>r' \<in> set (gm_realizations m). gr_entry r' = gr_entry r"
      using that(1) assms(2) set_update_subset_insert [of "gm_realizations m" rid] nth_mem [OF assms(2)]
      by (fastforce simp: put_block_def set_realization_def)
    then show ?thesis using that(2) old(2) by (auto simp: scoped_def nth_append)
  qed
qed simp

text \<open>A parameter of a block.\<close>

definition put_param :: "nat \<Rightarrow> gvalue \<Rightarrow> gmodule \<Rightarrow> gmodule" where
  "put_param c v m = set_block c (\<lambda>b. b\<lparr>gk_params := gk_params b @ [length (gm_values m)]\<rparr>) (m\<lparr>gm_values := gm_values m @ [v]\<rparr>)"

lemma put_param_le: "c < length (gm_blocks m) \<Longrightarrow> graph_le m (put_param c v m)"
  by (auto simp: put_param_def set_block_def graph_le_def block_le_def nth_list_update)

lemma put_param_structured:
  assumes "structured m" "c < length (gm_blocks m)"
  shows "structured (put_param c v m)"
  using assms
  by (auto simp: structured_def put_param_def set_block_def nth_list_update concat_update_same gresults_def
      mset_concat_update [where zs = "[length (gm_values m)]"])

lemma put_param_scoped:
  assumes "sound ps m" "c < length (gm_blocks m)"
  shows "scoped ps (put_param c v m)"
proof (rule scoped_grow [OF assms(1) put_param_le [OF assms(2)]])
  let ?m' = "put_param c v m"
  have old: "scoped ps m" using assms(1) by (simp add: sound_def)
  show "length ps = length (gm_blocks ?m')" using old by (simp add: scoped_def put_param_def set_block_def)
  show "inst_scoped ps ?m' b k"
    if "b < length (gm_blocks ?m')" "k < length (gk_insts (gm_blocks ?m' ! b))" "\<not> (b < length (gm_blocks m) \<and> k < length (gk_insts (gm_blocks m ! b)))" for b k
    using that by (cases "b = c") (simp_all add: put_param_def set_block_def)
  show "term_scoped ps ?m' b"
    if "b < length (gm_blocks ?m')" "gk_has_term (gm_blocks ?m' ! b)" "\<not> (b < length (gm_blocks m) \<and> gk_has_term (gm_blocks m ! b))" for b
    using that by (cases "b = c") (simp_all add: put_param_def set_block_def)
  show "gr_entry r < length ps \<and> ps ! gr_entry r = None" if "r \<in> set (gm_realizations ?m')" "gr_entry r \<noteq> kInvalidId" for r
    using that scoped_entry [OF old] by (simp add: put_param_def set_block_def)
qed simp

text \<open>The terminator of a block that has none.\<close>

definition put_term :: "nat \<Rightarrow> gterm \<Rightarrow> gmodule \<Rightarrow> gmodule" where
  "put_term c t m = set_block c (\<lambda>b. b\<lparr>gk_term := t, gk_has_term := True\<rparr>) m"

lemma put_term_le: "c < length (gm_blocks m) \<Longrightarrow> \<not> gk_has_term (gm_blocks m ! c) \<Longrightarrow> graph_le m (put_term c t m)"
  by (auto simp: put_term_def set_block_def graph_le_def block_le_def nth_list_update)

lemma put_term_structured:
  assumes "structured m" "rid < length (gm_realizations m)" "c \<in> set (gr_blocks (gm_realizations m ! rid))"
    "targets t \<subseteq> set (gr_blocks (gm_realizations m ! rid))"
  shows "structured (put_term c t m)"
proof -
  let ?r = "gm_realizations m ! rid"
  have c: "c < length (gm_blocks m)" using blocks_inside [OF assms(1) nth_mem [OF assms(2)] assms(3)] .
  have "\<forall>b \<in> set (gr_blocks r). gk_has_term (gm_blocks (put_term c t m) ! b) \<longrightarrow> targets (gk_term (gm_blocks (put_term c t m) ! b)) \<subseteq> set (gr_blocks r)"
    if r: "r \<in> set (gm_realizations m)" for r
  proof (intro ballI impI)
    fix b
    assume b: "b \<in> set (gr_blocks r)" and h: "gk_has_term (gm_blocks (put_term c t m) ! b)"
    show "targets (gk_term (gm_blocks (put_term c t m) ! b)) \<subseteq> set (gr_blocks r)"
    proof (cases "b = c")
      case True
      have "distinct (concat (map gr_blocks (gm_realizations m)))"
        using assms(1) by (metis structured_def distinct_upt mset_eq_imp_distinct_iff)
      then have "gr_blocks r \<noteq> gr_blocks ?r \<Longrightarrow> set (gr_blocks r) \<inter> set (gr_blocks ?r) = {}"
        using r nth_mem [OF assms(2)] by (simp add: distinct_concat_iff)
      then have "gr_blocks r = gr_blocks ?r" using b True assms(3) by blast
      then show ?thesis using True assms(4) c by (simp add: put_term_def set_block_def)
    next
      case False
      then have "gm_blocks (put_term c t m) ! b = gm_blocks m ! b" by (simp add: put_term_def set_block_def)
      then show ?thesis using h b r assms(1) unfolding structured_def by auto
    qed
  qed
  then show ?thesis
    using assms(1) unfolding structured_def by (simp add: put_term_def set_block_def concat_update_same gresults_def)
qed

lemma put_term_scoped:
  assumes "sound ps m" "c < length (gm_blocks m)" "\<not> gk_has_term (gm_blocks m ! c)"
    "\<forall>b \<in> targets t. reachable_target ps c b" "\<forall>v \<in> term_values t. available ps m c v"
  shows "scoped ps (put_term c t m)"
proof (rule scoped_grow [OF assms(1) put_term_le [OF assms(2,3)]])
  let ?m' = "put_term c t m"
  have old: "structured m" "scoped ps m" using assms(1) by (simp_all add: sound_def)
  show "length ps = length (gm_blocks ?m')" using old by (simp add: scoped_def put_term_def set_block_def)
  show "inst_scoped ps ?m' b k"
    if "b < length (gm_blocks ?m')" "k < length (gk_insts (gm_blocks ?m' ! b))" "\<not> (b < length (gm_blocks m) \<and> k < length (gk_insts (gm_blocks m ! b)))" for b k
    using that by (cases "b = c") (simp_all add: put_term_def set_block_def)
  show "term_scoped ps ?m' b"
    if "b < length (gm_blocks ?m')" "gk_has_term (gm_blocks ?m' ! b)" "\<not> (b < length (gm_blocks m) \<and> gk_has_term (gm_blocks m ! b))" for b
  proof -
    have b: "b = c" using that by (cases "b = c") (simp_all add: put_term_def set_block_def)
    have "gk_term (gm_blocks ?m' ! c) = t" using assms(2) by (simp add: put_term_def set_block_def)
    then show ?thesis
      using assms(4,5) available_grow [OF old(1) put_term_le [OF assms(2,3)] prefix_order.refl] unfolding term_scoped_def b by simp
  qed
  show "gr_entry r < length ps \<and> ps ! gr_entry r = None" if "r \<in> set (gm_realizations ?m')" "gr_entry r \<noteq> kInvalidId" for r
    using that scoped_entry [OF old(2)] by (simp add: put_term_def set_block_def)
qed simp

text \<open>The entry of a realization: one of its blocks, without a parent.\<close>

definition put_entry :: "nat \<Rightarrow> nat \<Rightarrow> gmodule \<Rightarrow> gmodule" where
  "put_entry rid b m = set_realization rid (\<lambda>r. r\<lparr>gr_entry := b\<rparr>) m"

lemma put_entry_sound:
  assumes "sound ps m" "rid < length (gm_realizations m)" "b \<in> set (gr_blocks (gm_realizations m ! rid))" "ps ! b = None"
  shows "sound ps (put_entry rid b m)" "graph_le m (put_entry rid b m)"
proof -
  let ?r = "gm_realizations m ! rid"
  let ?r' = "?r\<lparr>gr_entry := b\<rparr>"
  have old: "structured m" "scoped ps m" using assms(1) by (simp_all add: sound_def)
  have all: "r \<in> set ((gm_realizations m)[rid := ?r']) \<Longrightarrow> r = ?r' \<or> r \<in> set (gm_realizations m)" for r
    using set_update_subset_insert [of "gm_realizations m" rid ?r'] by blast
  have mem: "?r \<in> set (gm_realizations m)" using assms(2) by simp
  have b: "b < length ps" using blocks_inside [OF old(1) mem assms(3)] old(2) by (simp add: scoped_def)
  have "(gr_entry r = kInvalidId \<or> gr_entry r \<in> set (gr_blocks r))
      \<and> (\<forall>b \<in> set (gr_blocks r). gk_has_term (gm_blocks m ! b) \<longrightarrow> targets (gk_term (gm_blocks m ! b)) \<subseteq> set (gr_blocks r))"
    if "r \<in> set ((gm_realizations m)[rid := ?r'])" for r
    using all [OF that] old(1) mem assms(3) by (elim disjE) (simp_all add: structured_def)
  then have "structured (put_entry rid b m)"
    using old(1) by (simp add: structured_def put_entry_def set_realization_def concat_update_same gresults_def)
  moreover show le: "graph_le m (put_entry rid b m)" by (simp add: graph_le_def put_entry_def set_realization_def)
  have "scoped ps (put_entry rid b m)"
  proof (rule scoped_grow [OF assms(1) le])
    show "gr_entry r < length ps \<and> ps ! gr_entry r = None" if "r \<in> set (gm_realizations (put_entry rid b m))" "gr_entry r \<noteq> kInvalidId" for r
      using that all [of r] old(2) b assms(4) by (auto simp: scoped_def put_entry_def set_realization_def)
  qed (use old(2) in \<open>auto simp: scoped_def put_entry_def set_realization_def\<close>)
  ultimately show "sound ps (put_entry rid b m)" by (simp add: sound_def)
qed

end
