(* ===== verification/Spec2Isabelle.thy ===== *)
theory Spec2Isabelle
  imports Prelude OIR OIR_Examples OIR_Verify OIR_CFG OIR_Dom OIR_Sem OIR_Rewrite OIR_Alias OIR_Guard
    OIR_Fold OIR_DCE OIR_Forward OIR_Mem2Reg OIR_Split OIR_Loops OIR_GVN OIR_LICM OIR_Pipeline
    BigInt SymbolTable Type_Pool Type_Render
    Token_Kind Lexer Lexer_Spec Bytes Parlib_Format Parlib_Layout Parlib_File
    Parlib_Reader Parlib_Spec Parlib_Build
    SIR SIR_Verify SIR_Canon SIR_Handles SIR_Mut SIR_Place SIR_Place_Facts SIR_Flow
    SIR_Capability SIR_Cap_Facts SIR_Cap_Handles SIR_Cap_Term SIR_Cap_Examples
    GOIR GOIR_Verify GOIR_Place GOIR_Types GOIR_Lower GOIR_Build GOIR_Scope
begin

text \<open>
  A verification library for the Parus compiler. It models parts of the front end
  (\<open>src/frontend/\<close>) and of the back end (\<open>src/backend/\<close>) and proves what makes them correct. Paths
  below are under these two directories.

  \<^bold>\<open>How the parts interact.\<close> The lexer turns a source into tokens. Parser, macro expander, name
  resolution and type checker (not modelled) work over the symbol table and the type pool and use
  the big integers for literals. Their result is lowered to the structured representation SIR, which
  is normalised, verified, analysed for mutability and for capabilities (borrows, moves and
  escapes), and verified again for the metadata of escapes. SIR is lowered to the optimiser's
  representation OIR, which has a verifier and a pipeline of passes, or to the graph representation
  GOIR of the MLIR back end, which is built, verified and placed on a target. Libraries and their export
  index travel in parlib container files.

  \<^bold>\<open>Shared.\<close> \<open>Prelude\<close>: 32-bit casts, source spans, decimal rendering, list lemmas. \<open>Bytes\<close>: the byte
  encodings of the container format.

  \<^bold>\<open>Lexer.\<close> \<open>Token_Kind\<close> (\<open>syntax/TokenKind.hpp\<close>, \<open>syntax/Punct.hpp\<close>) and \<open>Lexer\<close> (\<open>lex/lexer.cpp\<close>) hold
  the kinds, the tables and every scanner; a position is the rest of the source. \<open>Lexer_Spec\<close>: the
  UTF-8 gate accepts exactly the encodings of scalar values, tokens and skipped text tile the
  source, punctuation is greedy, fixed spellings come back as one token. Each scanner consumes at
  least one byte, so the token loop needs no fuel.

  \<^bold>\<open>Types, symbols and numbers.\<close> \<open>Type_Pool\<close> (\<open>ty/TypePool.hpp\<close>): interning of types, with the
  interface \<open>scoped_names\<close> of \<open>SymbolTable\<close> (\<open>sema/SymbolTable.hpp\<close>) its counterpart for names; a pool
  holds each type once, open scopes behave as nested environments. \<open>Type_Render\<close>: the two printed
  forms; fuel is one more than the id, enough in a pool that refers backwards. \<open>BigInt\<close>
  (\<open>num/big_int.cpp\<close>): limbs in base \<open>10\<^sup>9\<close>; parsing, order, printing and ranges are those of the
  integers.

  \<^bold>\<open>SIR.\<close> \<open>SIR\<close> (\<open>sir/SIR.hpp\<close>) is the data model. \<open>SIR_Verify\<close> and \<open>SIR_Handles\<close> (\<open>sir/verify/\<close>) are the
  two verifiers with their messages, each proved silent exactly on the well-formed modules.
  \<open>SIR_Canon\<close> (\<open>canonicalize_for_capability.cpp\<close>): the normalisation is idempotent and its effects are
  exact. \<open>SIR_Mut\<close> (\<open>mut_analysis.cpp\<close>): what is marked as written and reported. The capability
  analysis (\<open>capability_analysis.cpp\<close>) is in \<open>SIR_Place\<close> (queries about types and places), \<open>SIR_Flow\<close>
  (the state and its primitive operations) and \<open>SIR_Capability\<close> (the walk). Its three mutually
  recursive functions are steps over a recursive call, tied with fuel; \<open>None\<close> is a recursion that
  does not end. \<open>SIR_Place_Facts\<close>: overlap of places is overlap of concrete locations, the search
  for escapes in a type is reachability. \<open>SIR_Cap_Facts\<close>: the locale \<open>analysis_relation\<close>, which says
  what a relation must allow so that every run respects it, and its interpretations; more fuel does
  not change a result. \<open>SIR_Cap_Handles\<close>: the handles the analysis leaves pass the verifier.
  \<open>SIR_Cap_Term\<close>: fuel above the nesting rank is enough. \<open>SIR_Cap_Examples\<close>: the witnesses, and runs
  on which the analysis misses a conflict or reports a false one.

  \<^bold>\<open>OIR.\<close> \<open>OIR\<close> (\<open>oir/OIR.hpp\<close>) is the data model, \<open>OIR_Verify\<close> (\<open>oir_verify.cpp\<close>) the verifier, \<open>OIR_Sem\<close>
  the semantics the passes are measured against: a function run over any interpretation of the
  opcodes. The passes (\<open>oir_passes.cpp\<close>) are in \<open>OIR_CFG\<close> (edges, clean-up), \<open>OIR_Dom\<close> (dominators and
  natural loops), \<open>OIR_Rewrite\<close> and \<open>OIR_Alias\<close> (substitution, memory locations, access models),
  \<open>OIR_Guard\<close> (the checks between passes), \<open>OIR_Fold\<close>, \<open>OIR_DCE\<close>, \<open>OIR_Forward\<close>, \<open>OIR_Mem2Reg\<close>, \<open>OIR_Split\<close>,
  \<open>OIR_Loops\<close>, \<open>OIR_GVN\<close>, \<open>OIR_LICM\<close>, and \<open>OIR_Pipeline\<close> composes them. Clean-up, folding, dead-code
  removal and edge splitting preserve runs; the guards establish assignment before use; the other
  passes have the invariants of their results. Fuel bounds the loops to a fixpoint; \<open>bcap\<close> and \<open>fcap\<close>
  are the capacities of vectors the passes append to while they hold references into them, and
  exceeding one is the result \<open>None\<close>. Dominator rounds are bounded by the number of matrix entries.

  \<^bold>\<open>GOIR.\<close> \<open>GOIR\<close> (\<open>goir/GOIR.hpp\<close>) is the data model. \<open>GOIR_Verify\<close> (\<open>goir_verify.cpp\<close>) has every check
  with its message and is silent exactly on the well-formed modules. \<open>GOIR_Place\<close>
  (\<open>goir_placement.cpp\<close>): placement succeeds exactly on the placeable modules and gives the module
  with its calls bound. \<open>GOIR_Types\<close> (literals, operators, classes of types), \<open>GOIR_Lower\<close> (values,
  places and statements) and \<open>GOIR_Build\<close> (discovery of globals and functions, static initialisers,
  the build) are \<open>goir_builder.cpp\<close>. Its mutually recursive functions are one function on tasks with
  fuel, \<open>None\<close> being a recursion that does not end or an access outside a vector; the order in which
  its hash map of globals is iterated is the argument \<open>order\<close>. \<open>GOIR_Scope\<close>: graphs whose blocks form a
  tree of scopes assign every value before its use, and each operation of the builder that adds a
  value, an instruction, a block or an end of a block keeps that form.

  \<^bold>\<open>Parlib files.\<close> \<open>Parlib_Format\<close> and \<open>Parlib_Layout\<close> (\<open>parlib/Parlib_codec_helpers.cpp\<close>): the codecs and
  their round trips. \<open>Parlib_File\<close> and \<open>Parlib_Reader\<close> (\<open>Parlib_reader_writer.cpp\<close>,
  \<open>Parlib_build_inspect.cpp\<close>): writer, build, reader, chunk streams and inspection, over a file system
  given as a capacity and a map from paths to bytes. \<open>Parlib_Spec\<close> and \<open>Parlib_Build\<close>: what is built
  opens, reads back and inspects clean, and a build with room succeeds. Streams are copied in
  blocks of 64 KiB; sizes are 64 bits, chunk counts 32.

  \<^bold>\<open>Integers and containers.\<close> Ids and counts are naturals with the 32-bit cast \<open>u32\<close> where the source
  casts; byte and 64-bit arithmetic is on words or with the wrap-around written out. Hash maps are
  partial maps where their order does not matter and association lists or a parameter where it does.
  Errors are values: messages, diagnostics, options.

  \<^bold>\<open>Not modelled.\<close> Parser, AST, macro expander, name resolution, type checker and the lowerings to SIR
  and OIR: they are tied to the arenas of the AST and to each other and have no contract smaller than
  the language. The back ends, the linker and the C importer drive LLVM, MLIR, the system linker and
  libclang, which are not in the repository. Drivers, language server and tools are input and
  output around these parts. Of the type pool, the textual dump and the parse of applied generic
  names are left out, of GOIR the printer.
\<close>

end
